(* ===== verification/Eco_Prelude.thy ===== *)
theory Eco_Prelude
  imports Main "HOL-Library.Word" "HOL-Library.Signed_Division" "HOL-Library.Monad_Syntax"
begin

text \<open>
  Shared vocabulary of the development: the pointer types of the C++ objects, the C integer
  conventions, the interface of the concurrent containers of the CxxJDK library (which is not
  part of the repository and therefore enters every definition as an argument), and generic
  lemmas on lists and options.
\<close>

unbundle bit_operations_syntax

section \<open>Collections of rewrite rules\<close>

named_theorems upd_simps \<open>field lemmas for state updates\<close>
named_theorems blk_simps \<open>how the blocker operations act on the abstract semaphore\<close>
named_theorems poll_simps \<open>field lemmas of the event loop operations\<close>

section \<open>Pointers\<close>

text \<open>
  Objects that the C++ code reaches through raw pointers live in maps of the runtime state
  that are indexed by these addresses. A null pointer is \<^term>\<open>None\<close> of the option type.
\<close>

type_synonym fptr = nat  \<comment> \<open>\<open>EFiber*\<close>, and the \<open>sp<EFiber>*\<close> holder that \<open>schedule\<close> allocates for it\<close>
type_synonym nptr = nat  \<comment> \<open>\<open>EFiberConcurrentQueue<EFiber>::NODE*\<close>\<close>
type_synonym qptr = nat  \<comment> \<open>\<open>EFiberConcurrentQueue<EFiber>*\<close>\<close>
type_synonym wptr = nat  \<comment> \<open>\<open>EIoWaiter*\<close>\<close>
type_synonym bptr = nat  \<comment> \<open>\<open>EFiberBlocker*\<close>\<close>
type_synonym tid = int   \<comment> \<open>\<open>EThread::getId()\<close>\<close>

type_synonym u32 = "32 word"

text \<open>The value that an \<open>int\<close> of 32 bits has when \<open>x\<close> is computed in it or converted to it.\<close>

definition int32 :: "int \<Rightarrow> int" where
  "int32 x = signed_take_bit 31 x"

lemma int32_id: "- (2 ^ 31) \<le> x \<Longrightarrow> x < 2 ^ 31 \<Longrightarrow> int32 x = x"
  unfolding int32_def by (rule signed_take_bit_int_eq_self) simp_all

lemma int32_range: "- (2 ^ 31) \<le> int32 x" "int32 x < 2 ^ 31"
  unfolding int32_def using signed_take_bit_int_greater_eq_minus_exp [of 31 x] signed_take_bit_int_less_exp [of 31 x] by simp_all

section \<open>Containers of CxxJDK\<close>

text \<open>
  \<open>EConcurrentIntrusiveDeque\<close>, \<open>EConcurrentLiteQueue\<close> and \<open>EConcurrentLinkedQueue\<close> come from
  CxxJDK. A definition that uses one of them takes the operations as an argument; what the
  code relies on (first in, first out; \<open>remove\<close> takes one occurrence out and says whether
  there was one; an iterator visits the elements in order) is the hypothesis \<open>cxx_fifo\<close>.
\<close>

record ('a, 'q) cxx_queue =
  cxq_empty :: 'q
  cxq_add :: "'a \<Rightarrow> 'q \<Rightarrow> 'q"
  cxq_poll :: "'q \<Rightarrow> 'a option \<times> 'q"
  cxq_remove :: "'a \<Rightarrow> 'q \<Rightarrow> bool \<times> 'q"
  cxq_iter :: "'q \<Rightarrow> 'a list"

definition cxx_fifo :: "('a, 'q) cxx_queue \<Rightarrow> ('q \<Rightarrow> 'a list) \<Rightarrow> bool" where
  "cxx_fifo Q view \<longleftrightarrow>
     view (cxq_empty Q) = [] \<and>
     (\<forall>x q. view (cxq_add Q x q) = view q @ [x]) \<and>
     (\<forall>q. view q = [] \<longrightarrow> fst (cxq_poll Q q) = None \<and> view (snd (cxq_poll Q q)) = []) \<and>
     (\<forall>q x xs. view q = x # xs \<longrightarrow>
        fst (cxq_poll Q q) = Some x \<and> view (snd (cxq_poll Q q)) = xs) \<and>
     (\<forall>x q. fst (cxq_remove Q x q) = (x \<in> set (view q)) \<and>
        view (snd (cxq_remove Q x q)) = remove1 x (view q)) \<and>
     (\<forall>q. cxq_iter Q q = view q)"

text \<open>A concrete instance that meets the contract, for evaluating examples.\<close>

definition list_cxx :: "('a, 'a list) cxx_queue" where
  "list_cxx = \<lparr>cxq_empty = [], cxq_add = (\<lambda>x q. q @ [x]),
     cxq_poll = (\<lambda>q. case q of [] \<Rightarrow> (None, []) | x # xs \<Rightarrow> (Some x, xs)),
     cxq_remove = (\<lambda>x q. (x \<in> set q, remove1 x q)), cxq_iter = (\<lambda>q. q)\<rparr>"

lemma list_cxx_fifo: "cxx_fifo list_cxx (\<lambda>q. q)"
  by (simp add: cxx_fifo_def list_cxx_def)

lemma cxx_fifoD:
  assumes "cxx_fifo Q view"
  shows cxx_empty: "view (cxq_empty Q) = []"
    and cxx_add: "view (cxq_add Q x q) = view q @ [x]"
    and cxx_poll_empty: "view q = [] \<Longrightarrow> fst (cxq_poll Q q) = None"
    and cxx_poll_empty_view: "view q = [] \<Longrightarrow> view (snd (cxq_poll Q q)) = []"
    and cxx_poll_cons: "view q = y # ys \<Longrightarrow> fst (cxq_poll Q q) = Some y"
    and cxx_poll_cons_view: "view q = y # ys \<Longrightarrow> view (snd (cxq_poll Q q)) = ys"
    and cxx_remove: "fst (cxq_remove Q x q) = (x \<in> set (view q))"
    and cxx_remove_view: "view (snd (cxq_remove Q x q)) = remove1 x (view q)"
    and cxx_iter: "cxq_iter Q q = view q"
  using assms by (auto simp: cxx_fifo_def)

lemma cxx_poll_None_iff:
  "cxx_fifo Q view \<Longrightarrow> fst (cxq_poll Q q) = None \<longleftrightarrow> view q = []"
  by (cases "view q") (auto simp: cxx_fifo_def)

lemma cxx_poll_hd_tl:
  assumes "cxx_fifo Q view" "fst (cxq_poll Q q) = Some x"
  shows "view q = x # view (snd (cxq_poll Q q))"
  using assms by (cases "view q") (auto simp: cxx_fifo_def)

section \<open>Generic lemmas\<close>

lemma list_all2_right_mem:
  "list_all2 P xs ys \<Longrightarrow> y \<in> set ys \<Longrightarrow> \<exists>x\<in>set xs. P x y"
  by (induction rule: list_all2_induct) auto

lemma list_all2_left_mem:
  "list_all2 P xs ys \<Longrightarrow> x \<in> set xs \<Longrightarrow> \<exists>y\<in>set ys. P x y"
  by (induction rule: list_all2_induct) auto

lemma mem_neq: "x \<in> A \<Longrightarrow> y \<notin> A \<Longrightarrow> x \<noteq> y"
  by blast

lemma word_dec_unat:
  fixes w :: "'a::len word"
  assumes "w \<noteq> 0"
  shows "unat (w - 1) = unat w - 1"
  using assms by (simp add: unat_minus_one)

lemma word_inc_unat:
  fixes w l :: "'a::len word"
  assumes "w < l"
  shows "unat (w + 1) = unat w + 1"
proof -
  from assms have "unat w < unat l" by (simp add: word_less_nat_alt)
  also have "unat l < 2 ^ LENGTH('a)" by simp
  finally have "unat w + 1 < 2 ^ LENGTH('a) \<or> unat w + 1 = unat l"
    using \<open>unat w < unat l\<close> \<open>unat l < 2 ^ LENGTH('a)\<close> by linarith
  then have "unat w + 1 < 2 ^ LENGTH('a)"
    using \<open>unat l < 2 ^ LENGTH('a)\<close> by auto
  then show ?thesis
    by (simp add: unat_word_ariths)
qed

end
