(* ===== verification/File_Context.thy ===== *)
theory File_Context
  imports Eco_Prelude
begin

text \<open>
  \<open>EFileContext\<close> and \<open>EFileContextManager\<close> (src/EFileContext.hh, src/EFileContext.cpp): what the
  scheduler remembers of every pipe and socket that the fibers use, and the two-level table that
  finds it again by descriptor. The table is guarded by the 41 spin locks of \<open>SpinLockPool\<close>
  (inc/EFiberUtil.hh). The original system calls behind \<open>fcntl_f\<close>, \<open>getsockopt\<close> and
  \<open>fstat64\<close>, and the macro \<open>ES_ALIGN_UP\<close> of CxxJDK, are arguments.
\<close>

section \<open>The system calls\<close>

datatype fkind = KFifo | KSock | KOther

record 'k sysapi =
  sy_fstat :: "'k \<Rightarrow> int \<Rightarrow> fkind option"  \<comment> \<open>the kind in \<open>st_mode\<close>; \<open>None\<close> if \<open>fstat64\<close> fails\<close>
  sy_getfl :: "'k \<Rightarrow> int \<Rightarrow> int"  \<comment> \<open>\<open>fcntl_f(fd, F_GETFL)\<close>\<close>
  sy_setfl :: "int \<Rightarrow> int \<Rightarrow> 'k \<Rightarrow> int \<times> 'k"  \<comment> \<open>\<open>fcntl_f(fd, F_SETFL, flags)\<close>\<close>
  sy_rcvtimeo :: "'k \<Rightarrow> int \<Rightarrow> (int \<times> int) option"  \<comment> \<open>\<open>SO_RCVTIMEO\<close>: seconds and microseconds\<close>
  sy_sndtimeo :: "'k \<Rightarrow> int \<Rightarrow> (int \<times> int) option"

abbreviation (input) O_NONBLOCK :: int where "O_NONBLOCK \<equiv> 2048"
abbreviation (input) FD_CHUNK_CAPACITY :: int where "FD_CHUNK_CAPACITY \<equiv> 32768"
abbreviation (input) POLLSIZE :: int where "POLLSIZE \<equiv> 41"

text \<open>
  What fcntl(2) documents of the flag: on a descriptor whose flags can be read, \<open>F_SETFL\<close> with
  those flags and \<open>O_NONBLOCK\<close> set or cleared succeeds, and they are read back.
\<close>

definition flags_spec :: "'k sysapi \<Rightarrow> bool" where
  "flags_spec S \<longleftrightarrow>
     (\<forall>k fd fl. sy_getfl S k fd \<noteq> -1 \<and>
        (fl = sy_getfl S k fd OR O_NONBLOCK \<or> fl = sy_getfl S k fd AND NOT O_NONBLOCK) \<longrightarrow>
        fst (sy_setfl S fd fl k) = 0 \<and> sy_getfl S (snd (sy_setfl S fd fl k)) fd = fl)"

text \<open>What the macro computes: the least multiple of the chunk size that is not below \<open>n\<close>.\<close>

definition align_spec :: "(int \<Rightarrow> int) \<Rightarrow> bool" where
  "align_spec up \<longleftrightarrow> (\<forall>n. FD_CHUNK_CAPACITY dvd up n \<and> n \<le> up n \<and> up n < n + FD_CHUNK_CAPACITY)"

section \<open>EFileContext\<close>

record fctx =
  fc_fd :: int
  fc_sysNonBlocked :: bool
  fc_userNonBlocked :: bool
  fc_recvTimeout :: int
  fc_sendTimeout :: int

definition isStreamFile :: "'k sysapi \<Rightarrow> 'k \<Rightarrow> int \<Rightarrow> bool" where
  "isStreamFile S k fd =
     (case sy_fstat S k fd of Some m \<Rightarrow> m = KFifo \<or> m = KSock | None \<Rightarrow> False)"

definition isSocketFile :: "'k sysapi \<Rightarrow> 'k \<Rightarrow> int \<Rightarrow> bool" where
  "isSocketFile S k fd = (case sy_fstat S k fd of Some m \<Rightarrow> m = KSock | None \<Rightarrow> False)"

text \<open>\<open>tv_sec * 1000 + tv_usec / 1000\<close> in 64 bits, stored in an \<open>int\<close>.\<close>

definition tv_millis :: "int \<times> int \<Rightarrow> int" where
  "tv_millis tv = signed_take_bit 31 (fst tv * 1000 + snd tv sdiv 1000)"

text \<open>
  The constructor; \<open>None\<close> is the \<open>EFileNotFoundException\<close>. The result of the second
  \<open>getsockopt\<close> is not checked: when it fails, \<open>tv\<close> still holds the receive timeout.
\<close>

definition EFileContext_ctor :: "'k sysapi \<Rightarrow> int \<Rightarrow> 'k \<Rightarrow> fctx option \<times> 'k" where
  "EFileContext_ctor S fd k =
     (let flags = sy_getfl S k fd in
      if flags = -1 then (None, k)
      else
       (let user = (flags AND O_NONBLOCK \<noteq> 0);
            k1 = (if user then k else snd (sy_setfl S fd (flags OR O_NONBLOCK) k));
            fc = \<lparr>fc_fd = fd, fc_sysNonBlocked = \<not> user, fc_userNonBlocked = user,
                  fc_recvTimeout = 0, fc_sendTimeout = 0\<rparr>
        in if isSocketFile S k1 fd then
             (case sy_rcvtimeo S k1 fd of
                None \<Rightarrow> (None, k1)
              | Some tv \<Rightarrow>
                  (let tv2 = (case sy_sndtimeo S k1 fd of Some tv' \<Rightarrow> tv' | None \<Rightarrow> tv)
                   in (Some (fc\<lparr>fc_recvTimeout := tv_millis tv, fc_sendTimeout := tv_millis tv2\<rparr>), k1)))
           else (Some fc, k1)))"

text \<open>The destructor, with the fiber that is running (\<open>EFiber::currentFiber()\<close>).\<close>

definition EFileContext_dtor :: "'k sysapi \<Rightarrow> fptr option \<Rightarrow> fctx \<Rightarrow> 'k \<Rightarrow> 'k" where
  "EFileContext_dtor S cur fc k =
     (if cur = None then
       (let flags = sy_getfl S k (fc_fd fc) in
        if fc_userNonBlocked fc \<and> \<not> (flags AND O_NONBLOCK \<noteq> 0)
        then snd (sy_setfl S (fc_fd fc) (flags OR O_NONBLOCK) k)
        else if \<not> fc_userNonBlocked fc \<and> flags AND O_NONBLOCK \<noteq> 0
        then snd (sy_setfl S (fc_fd fc) (flags AND NOT O_NONBLOCK) k)
        else k)
      else k)"

definition configureNonBlocking :: "'k sysapi \<Rightarrow> fctx \<Rightarrow> 'k \<Rightarrow> int \<times> 'k" where
  "configureNonBlocking S fc k = sy_setfl S (fc_fd fc) (sy_getfl S k (fc_fd fc) OR O_NONBLOCK) k"

definition setSysNonBlock :: "bool \<Rightarrow> fctx \<Rightarrow> fctx" where
  "setSysNonBlock b fc = fc\<lparr>fc_sysNonBlocked := b\<rparr>"

definition setUserNonBlock :: "bool \<Rightarrow> fctx \<Rightarrow> fctx" where
  "setUserNonBlock b fc = fc\<lparr>fc_userNonBlocked := b\<rparr>"

definition setRecvTimeout :: "int \<times> int \<Rightarrow> fctx \<Rightarrow> fctx" where
  "setRecvTimeout tv fc = fc\<lparr>fc_recvTimeout := tv_millis tv\<rparr>"

definition setSendTimeout :: "int \<times> int \<Rightarrow> fctx \<Rightarrow> fctx" where
  "setSendTimeout tv fc = fc\<lparr>fc_sendTimeout := tv_millis tv\<rparr>"

section \<open>EFileContextManager\<close>

type_synonym cptr = nat  \<comment> \<open>\<open>EFileContext*\<close>\<close>

record fcm =
  fm_files :: "cptr option list list"  \<comment> \<open>\<open>hookedFiles\<close>\<close>
  fm_ctx :: "cptr \<Rightarrow> fctx"
  fm_next :: cptr  \<comment> \<open>the address that \<open>operator new\<close> returns next\<close>
  fm_locked :: "int list"  \<comment> \<open>the spin locks that are held, by their index in the pool\<close>

text \<open>
  Results: a value; the exception of the constructor, which leaves \<open>get\<close> before the unlock; a
  \<open>lock()\<close> that spins because the lock is never released; an access outside a vector, which is
  undefined.
\<close>

datatype 'r fres = FOk 'r | FThrow | FSpin | FFault

definition EFileContextManager_ctor :: "(int \<Rightarrow> int) \<Rightarrow> int \<Rightarrow> fcm" where
  "EFileContextManager_ctor up maxfd =
     \<lparr>fm_files = replicate (nat (up maxfd div FD_CHUNK_CAPACITY))
        (replicate (nat FD_CHUNK_CAPACITY) None),
      fm_ctx = (\<lambda>_. \<lparr>fc_fd = 0, fc_sysNonBlocked = False, fc_userNonBlocked = False,
                      fc_recvTimeout = 0, fc_sendTimeout = 0\<rparr>),
      fm_next = 0, fm_locked = []\<rparr>"

text \<open>\<open>lockFor\<close> converts the sign-extended descriptor to an unsigned 64-bit number.\<close>

definition lockFor :: "int \<Rightarrow> int" where
  "lockFor fd = take_bit 64 fd mod POLLSIZE"

definition index0 :: "(int \<Rightarrow> int) \<Rightarrow> int \<Rightarrow> int" where
  "index0 up fd = up fd sdiv FD_CHUNK_CAPACITY - 1"

definition index1 :: "int \<Rightarrow> int" where
  "index1 fd = fd smod FD_CHUNK_CAPACITY - 1"

text \<open>\<open>hookedFiles[index0][index1]\<close>: \<open>None\<close> outside the vectors.\<close>

definition slot :: "(int \<Rightarrow> int) \<Rightarrow> int \<Rightarrow> fcm \<Rightarrow> cptr option option" where
  "slot up fd m =
     (let i = index0 up fd; j = index1 fd in
      if i < 0 \<or> nat i \<ge> length (fm_files m) then None
      else if j < 0 \<or> nat j \<ge> length (fm_files m ! nat i) then None
      else Some (fm_files m ! nat i ! nat j))"

definition set_slot :: "(int \<Rightarrow> int) \<Rightarrow> int \<Rightarrow> cptr option \<Rightarrow> fcm \<Rightarrow> fcm" where
  "set_slot up fd v m =
     (let i = nat (index0 up fd); j = nat (index1 fd) in
      m\<lparr>fm_files := (fm_files m)[i := (fm_files m ! i)[j := v]]\<rparr>)"

definition EFileContextManager_get :: "'k sysapi \<Rightarrow> (int \<Rightarrow> int) \<Rightarrow> int \<Rightarrow> fcm \<Rightarrow> 'k \<Rightarrow>
    cptr fres \<times> fcm \<times> 'k" where
  "EFileContextManager_get S up fd m k =
     (let l = lockFor fd in
      if l \<in> set (fm_locked m) then (FSpin, m, k)
      else
       (let m1 = m\<lparr>fm_locked := l # fm_locked m\<rparr> in
        case slot up fd m1 of
          None \<Rightarrow> (FFault, m1, k)
        | Some (Some c) \<Rightarrow> (FOk c, m1\<lparr>fm_locked := remove1 l (fm_locked m1)\<rparr>, k)
        | Some None \<Rightarrow>
            (case EFileContext_ctor S fd k of
               (None, k') \<Rightarrow> (FThrow, m1, k')
             | (Some fc, k') \<Rightarrow>
                 (let c = fm_next m1;
                      m2 = m1\<lparr>fm_ctx := (fm_ctx m1)(c := fc), fm_next := c + 1\<rparr>;
                      m3 = set_slot up fd (Some c) m2
                  in (FOk c, m3\<lparr>fm_locked := remove1 l (fm_locked m3)\<rparr>, k')))))"

text \<open>
  \<open>reset\<close> drops the table's reference. The context is destroyed at once unless another
  \<open>sp<EFileContext>\<close> still holds it; \<open>held\<close> are the addresses for which there is one.
\<close>

definition EFileContextManager_remove :: "'k sysapi \<Rightarrow> (int \<Rightarrow> int) \<Rightarrow> fptr option \<Rightarrow> cptr list \<Rightarrow>
    int \<Rightarrow> fcm \<Rightarrow> 'k \<Rightarrow> unit fres \<times> fcm \<times> 'k" where
  "EFileContextManager_remove S up cur held fd m k =
     (let l = lockFor fd in
      if l \<in> set (fm_locked m) then (FSpin, m, k)
      else
       (let m1 = m\<lparr>fm_locked := l # fm_locked m\<rparr> in
        case slot up fd m1 of
          None \<Rightarrow> (FFault, m1, k)
        | Some co \<Rightarrow>
            (let m2 = set_slot up fd None m1;
                 k' = (case co of
                         Some c \<Rightarrow> if c \<in> set held then k else EFileContext_dtor S cur (fm_ctx m c) k
                       | None \<Rightarrow> k)
             in (FOk (), m2\<lparr>fm_locked := remove1 l (fm_locked m2)\<rparr>, k'))))"

text \<open>
  \<open>clear\<close> destroys the chunks, and every context in them that nobody else holds. The order is
  the one of the vectors.
\<close>

definition EFileContextManager_clear :: "'k sysapi \<Rightarrow> fptr option \<Rightarrow> cptr list \<Rightarrow> fcm \<Rightarrow> 'k \<Rightarrow> fcm \<times> 'k" where
  "EFileContextManager_clear S cur held m k =
     (m\<lparr>fm_files := []\<rparr>,
      fold (\<lambda>co k. case co of
              Some c \<Rightarrow> if c \<in> set held then k else EFileContext_dtor S cur (fm_ctx m c) k
            | None \<Rightarrow> k) (concat (fm_files m)) k)"

text \<open>The scheduler's accessors pass the call on.\<close>

definition EFiberScheduler_getFileContext :: "'k sysapi \<Rightarrow> (int \<Rightarrow> int) \<Rightarrow> int \<Rightarrow> fcm \<Rightarrow> 'k \<Rightarrow>
    cptr fres \<times> fcm \<times> 'k" where
  "EFiberScheduler_getFileContext S up fd m k = EFileContextManager_get S up fd m k"

definition EFiberScheduler_delFileContext :: "'k sysapi \<Rightarrow> (int \<Rightarrow> int) \<Rightarrow> fptr option \<Rightarrow> cptr list \<Rightarrow>
    int \<Rightarrow> fcm \<Rightarrow> 'k \<Rightarrow> unit fres \<times> fcm \<times> 'k" where
  "EFiberScheduler_delFileContext S up cur held fd m k = EFileContextManager_remove S up cur held fd m k"

section \<open>The table\<close>

text \<open>
  The abstract table is a map from descriptors to contexts. In the concrete one, the chunks have
  their full length, and every entry is an allocated context of that descriptor.
\<close>

definition fcm_map :: "(int \<Rightarrow> int) \<Rightarrow> fcm \<Rightarrow> int \<rightharpoonup> cptr" where
  "fcm_map up m fd = (case slot up fd m of Some co \<Rightarrow> co | None \<Rightarrow> None)"

definition fcm_ok :: "(int \<Rightarrow> int) \<Rightarrow> fcm \<Rightarrow> bool" where
  "fcm_ok up m \<longleftrightarrow> (\<forall>ch\<in>set (fm_files m). length ch = nat FD_CHUNK_CAPACITY) \<and>
     (\<forall>fd c. fcm_map up m fd = Some c \<longrightarrow> c < fm_next m \<and> fc_fd (fm_ctx m c) = fd)"

definition fd_ok :: "fcm \<Rightarrow> int \<Rightarrow> bool" where
  "fd_ok m fd \<longleftrightarrow> 0 < fd \<and> \<not> FD_CHUNK_CAPACITY dvd fd \<and> fd < FD_CHUNK_CAPACITY * int (length (fm_files m))"

lemma least_multiple:
  fixes u n c :: int
  assumes "0 < c" "c dvd u" "n \<le> u" "u < n + c"
  shows "u = (if c dvd n then n else (n div c + 1) * c)"
proof -
  obtain q where q: "u = c * q" using assms(2) by (auto simp: dvd_def)
  have n: "n = c * (n div c) + n mod c" by simp
  have r: "0 \<le> n mod c" "n mod c < c" using assms(1) by simp_all
  have "c * (n div c + 2) = c * (n div c) + c + c" "c * (n div c + 1) = c * (n div c) + c"
    by (simp_all add: algebra_simps)
  note e = this
  have "c * q < c * (n div c + 2)" using assms(4) n r(2) e(1) unfolding q by linarith
  then have up: "q < n div c + 2" using assms(1) by simp
  have "c * (n div c) \<le> c * q" using assms(3) n r(1) unfolding q by linarith
  then have lo: "n div c \<le> q" using assms(1) by simp
  show ?thesis
  proof (cases "c dvd n")
    case True
    then have "c * q < c * (n div c + 1)" using assms(4) n e(2) unfolding q by (simp add: dvd_eq_mod_eq_0)
    then have "q = n div c" using lo assms(1) by simp
    then show ?thesis using True q by simp
  next
    case False
    then have "0 < n mod c" using r(1) by (simp add: order.order_iff_strict dvd_eq_mod_eq_0)
    then have "c * (n div c) < c * q" using assms(3) n unfolding q by linarith
    then have "q = n div c + 1" using up assms(1) by simp
    then show ?thesis using False q by simp
  qed
qed

lemma align_up:
  assumes "align_spec up"
  shows "up fd = (if FD_CHUNK_CAPACITY dvd fd then fd else (fd div FD_CHUNK_CAPACITY + 1) * FD_CHUNK_CAPACITY)"
  by (rule least_multiple) (use assms in \<open>simp_all add: align_spec_def\<close>)

lemma indices:
  assumes "align_spec up" "0 < fd" "\<not> FD_CHUNK_CAPACITY dvd fd"
  shows "index0 up fd = fd div FD_CHUNK_CAPACITY" and "index1 fd = fd mod FD_CHUNK_CAPACITY - 1"
    and "0 < fd mod FD_CHUNK_CAPACITY"
proof -
  have "0 \<le> fd mod FD_CHUNK_CAPACITY" by simp
  then show "0 < fd mod FD_CHUNK_CAPACITY"
    using assms(3) by (simp add: order.order_iff_strict dvd_eq_mod_eq_0)
  have "0 \<le> fd div FD_CHUNK_CAPACITY" using assms(2) by (simp add: pos_imp_zdiv_nonneg_iff)
  then show "index0 up fd = fd div FD_CHUNK_CAPACITY"
    using assms(3) unfolding index0_def align_up [OF assms(1)] by (simp add: signed_divide_int_def)
  show "index1 fd = fd mod FD_CHUNK_CAPACITY - 1"
    using assms(2) by (simp add: index1_def signed_modulo_int_def)
qed

lemma index0_low:
  assumes "align_spec up" "fd \<le> 0"
  shows "index0 up fd < 0"
proof -
  have "up fd \<le> 0"
  proof (cases "FD_CHUNK_CAPACITY dvd fd")
    case False
    then have "fd < 0" using assms(2) by (cases "fd = 0") simp_all
    then have "fd div FD_CHUNK_CAPACITY < 0" by (simp add: neg_imp_zdiv_neg_iff)
    then show ?thesis using False unfolding align_up [OF assms(1)] by simp
  qed (use assms in \<open>simp add: align_up\<close>)
  moreover have "x sdiv c \<le> 0" if "x \<le> 0" "0 < c" for x c :: int
    using that by (simp add: signed_divide_int_def sgn_if pos_imp_zdiv_nonneg_iff)
  ultimately have "up fd sdiv FD_CHUNK_CAPACITY \<le> 0" by simp
  then show ?thesis by (simp add: index0_def)
qed

lemma slot_eq:
  assumes "align_spec up" "\<forall>ch\<in>set (fm_files m). length ch = nat FD_CHUNK_CAPACITY"
  shows "slot up fd m =
    (if fd_ok m fd
     then Some (fm_files m ! nat (fd div FD_CHUNK_CAPACITY) ! nat (fd mod FD_CHUNK_CAPACITY - 1)) else None)"
proof -
  consider "fd \<le> 0" | "0 < fd" "FD_CHUNK_CAPACITY dvd fd" | "0 < fd" "\<not> FD_CHUNK_CAPACITY dvd fd" by linarith
  then show ?thesis
  proof cases
    case 1
    then show ?thesis using index0_low [OF assms(1)] by (simp add: slot_def fd_ok_def Let_def)
  next
    case 2
    then have "index1 fd = -1" by (simp add: index1_def signed_modulo_int_def)
    then show ?thesis using 2 by (simp add: slot_def fd_ok_def Let_def)
  next
    case 3
    note ix = indices [OF assms(1) 3]
    have i: "0 \<le> fd div FD_CHUNK_CAPACITY" using 3 by (simp add: pos_imp_zdiv_nonneg_iff)
    have "fd = FD_CHUNK_CAPACITY * (fd div FD_CHUNK_CAPACITY) + fd mod FD_CHUNK_CAPACITY"
      "fd mod FD_CHUNK_CAPACITY < FD_CHUNK_CAPACITY" by simp_all
    then have "fd div FD_CHUNK_CAPACITY < int (length (fm_files m)) \<longleftrightarrow>
        fd < FD_CHUNK_CAPACITY * int (length (fm_files m))"
      using ix(3) by linarith
    then have r: "nat (fd div FD_CHUNK_CAPACITY) \<ge> length (fm_files m) \<longleftrightarrow> \<not> fd_ok m fd"
      using 3 i unfolding fd_ok_def by linarith
    have j: "nat (fd mod FD_CHUNK_CAPACITY - 1) < nat FD_CHUNK_CAPACITY" "0 \<le> fd mod FD_CHUNK_CAPACITY - 1"
      using ix(3) by auto
    show ?thesis
    proof (cases "fd_ok m fd")
      case True
      then have "length (fm_files m ! nat (fd div FD_CHUNK_CAPACITY)) = nat FD_CHUNK_CAPACITY"
        using r assms(2) by (meson not_le nth_mem)
      then show ?thesis using True r i j ix(3) by (simp add: slot_def ix(1,2) Let_def)
    next
      case False
      then show ?thesis using r by (simp add: slot_def ix Let_def)
    qed
  qed
qed

lemma fd_ok_inj:
  assumes "fd_ok m fd" "fd_ok m fd'"
    and "nat (fd div FD_CHUNK_CAPACITY) = nat (fd' div FD_CHUNK_CAPACITY)"
    and "nat (fd mod FD_CHUNK_CAPACITY - 1) = nat (fd' mod FD_CHUNK_CAPACITY - 1)"
  shows "fd = fd'"
proof -
  have p: "0 \<le> x div FD_CHUNK_CAPACITY \<and> 0 < x mod FD_CHUNK_CAPACITY" if "fd_ok m x" for x
  proof -
    have "0 \<le> x div FD_CHUNK_CAPACITY" using that by (simp add: fd_ok_def pos_imp_zdiv_nonneg_iff)
    moreover have "0 \<le> x mod FD_CHUNK_CAPACITY" by simp
    then have "0 < x mod FD_CHUNK_CAPACITY"
      using that by (simp add: fd_ok_def order.order_iff_strict dvd_eq_mod_eq_0)
    ultimately show ?thesis ..
  qed
  note pp = p [OF assms(1)] p [OF assms(2)]
  have "fd div FD_CHUNK_CAPACITY = fd' div FD_CHUNK_CAPACITY"
    using pp assms(3) by (simp only: eq_nat_nat_iff)
  moreover have "fd mod FD_CHUNK_CAPACITY - 1 = fd' mod FD_CHUNK_CAPACITY - 1"
    using pp assms(4) by (subst (asm) eq_nat_nat_iff) simp_all
  then have "fd mod FD_CHUNK_CAPACITY = fd' mod FD_CHUNK_CAPACITY" by simp
  ultimately have "fd div FD_CHUNK_CAPACITY = fd' div FD_CHUNK_CAPACITY" "fd mod FD_CHUNK_CAPACITY = fd' mod FD_CHUNK_CAPACITY"
    by simp_all
  then show ?thesis by (metis mult_div_mod_eq)
qed

lemma set_slot_fields [simp]:
  "fm_ctx (set_slot up fd v m) = fm_ctx m" "fm_next (set_slot up fd v m) = fm_next m"
  "fm_locked (set_slot up fd v m) = fm_locked m"
  "length (fm_files (set_slot up fd v m)) = length (fm_files m)"
  by (simp_all add: set_slot_def Let_def)

lemma fd_ok_set_slot [simp]: "fd_ok (set_slot up fd v m) fd' = fd_ok m fd'"
  by (simp add: fd_ok_def)

lemma fcm_map_set_slot:
  assumes "align_spec up" "\<forall>ch\<in>set (fm_files m). length ch = nat FD_CHUNK_CAPACITY" "fd_ok m fd"
  shows "\<forall>ch\<in>set (fm_files (set_slot up fd v m)). length ch = nat FD_CHUNK_CAPACITY"
    and "fcm_map up (set_slot up fd v m) = (fcm_map up m)(fd := v)"
proof -
  let ?i = "\<lambda>fd. nat (fd div FD_CHUNK_CAPACITY)" and ?j = "\<lambda>fd. nat (fd mod FD_CHUNK_CAPACITY - 1)"
  have f: "0 < fd" "\<not> FD_CHUNK_CAPACITY dvd fd" using assms(3) by (simp_all add: fd_ok_def)
  note ix = indices [OF assms(1) f]
  have fs: "fm_files (set_slot up fd v m) = (fm_files m)[?i fd := (fm_files m ! ?i fd)[?j fd := v]]"
    by (simp add: set_slot_def ix Let_def)
  have i: "?i x < length (fm_files m)" if "fd_ok m x" for x
  proof -
    have "x = FD_CHUNK_CAPACITY * (x div FD_CHUNK_CAPACITY) + x mod FD_CHUNK_CAPACITY"
      "0 \<le> x mod FD_CHUNK_CAPACITY" by simp_all
    then have "x div FD_CHUNK_CAPACITY < int (length (fm_files m))"
      using that unfolding fd_ok_def by linarith
    moreover have "0 \<le> x div FD_CHUNK_CAPACITY" using that by (simp add: fd_ok_def pos_imp_zdiv_nonneg_iff)
    ultimately show ?thesis by simp
  qed
  have len: "length (fm_files m ! ?i fd) = nat FD_CHUNK_CAPACITY" using assms(2) i [OF assms(3)] by simp
  have j: "?j x < nat FD_CHUNK_CAPACITY" for x
  proof -
    have "x mod FD_CHUNK_CAPACITY < FD_CHUNK_CAPACITY" by simp
    then show ?thesis by linarith
  qed
  show 1: "\<forall>ch\<in>set (fm_files (set_slot up fd v m)). length ch = nat FD_CHUNK_CAPACITY"
  proof
    fix ch assume "ch \<in> set (fm_files (set_slot up fd v m))"
    then have "ch = (fm_files m ! ?i fd)[?j fd := v] \<or> ch \<in> set (fm_files m)"
      unfolding fs using set_update_subset_insert by fastforce
    then show "length ch = nat FD_CHUNK_CAPACITY" using assms(2) len by (elim disjE) simp_all
  qed
  show "fcm_map up (set_slot up fd v m) = (fcm_map up m)(fd := v)"
  proof
    fix x
    show "fcm_map up (set_slot up fd v m) x = ((fcm_map up m)(fd := v)) x"
    proof (cases "fd_ok m x")
      case False
      then have "x \<noteq> fd" using assms(3) by blast
      then show ?thesis using False
        by (simp add: fcm_map_def slot_eq [OF assms(1,2)] slot_eq [OF assms(1) 1])
    next
      case True
      have "(fm_files (set_slot up fd v m) ! ?i x) ! ?j x = (if x = fd then v else (fm_files m ! ?i x) ! ?j x)"
      proof (cases "?i fd = ?i x \<and> ?j fd = ?j x")
        case True
        then have "fd = x" using fd_ok_inj [OF assms(3) \<open>fd_ok m x\<close>] by blast
        then show ?thesis unfolding fs using i [OF assms(3)] j [of fd] len by simp
      next
        case False
        then have "x \<noteq> fd" by blast
        moreover have "?j fd \<noteq> ?j x" if "?i fd = ?i x" using False that by blast
        ultimately show ?thesis
          unfolding fs using i [OF assms(3)] by (cases "?i fd = ?i x") simp_all
      qed
      then show ?thesis using True
        unfolding fcm_map_def slot_eq [OF assms(1,2)] slot_eq [OF assms(1) 1] by simp
    qed
  qed
qed

lemma fcm_okD:
  assumes "fcm_ok up m"
  shows "\<forall>ch\<in>set (fm_files m). length ch = nat FD_CHUNK_CAPACITY"
    and "fcm_map up m fd = Some c \<Longrightarrow> c < fm_next m \<and> fc_fd (fm_ctx m c) = fd"
  using assms unfolding fcm_ok_def by blast+

lemma slot_map:
  assumes "align_spec up" "fcm_ok up m"
  shows "slot up fd m = (if fd_ok m fd then Some (fcm_map up m fd) else None)"
  by (simp add: fcm_map_def slot_eq [OF assms(1) fcm_okD(1) [OF assms(2)]])

lemma slot_locked [simp]: "slot up fd (m\<lparr>fm_locked := ls\<rparr>) = slot up fd m"
  by (simp add: slot_def Let_def cong: if_cong)

lemma fcm_map_cong: "fm_files m' = fm_files m \<Longrightarrow> fcm_map up m' = fcm_map up m"
  by (simp add: fcm_map_def slot_def fun_eq_iff cong: if_cong)

lemma ctor_fd: "EFileContext_ctor S fd k = (Some fc, k') \<Longrightarrow> fc_fd fc = fd"
  by (auto simp: EFileContext_ctor_def Let_def split: if_splits option.splits)

lemma fcm_ok_ctor:
  assumes "align_spec up"
  shows "fcm_ok up (EFileContextManager_ctor up maxfd)"
    and "fcm_map up (EFileContextManager_ctor up maxfd) = Map.empty"
proof -
  let ?m = "EFileContextManager_ctor up maxfd"
  have l: "\<forall>ch\<in>set (fm_files ?m). length ch = nat FD_CHUNK_CAPACITY"
    by (simp add: EFileContextManager_ctor_def)
  have "fcm_map up ?m fd = None" for fd
  proof (cases "slot up fd ?m")
    case (Some co)
    then have co: "co = fm_files ?m ! nat (index0 up fd) ! nat (index1 fd)"
      and i: "nat (index0 up fd) < length (fm_files ?m)"
        "nat (index1 fd) < length (fm_files ?m ! nat (index0 up fd))"
      by (auto simp: slot_def Let_def split: if_splits)
    have "set ch \<subseteq> {None}" if "ch \<in> set (fm_files ?m)" for ch
      using that by (simp add: EFileContextManager_ctor_def)
    from this [OF nth_mem [OF i(1)]] have "co \<in> {None}" unfolding co using nth_mem [OF i(2)] ..
    then have "co = None" by simp
    then show ?thesis using Some by (simp add: fcm_map_def)
  qed (simp add: fcm_map_def)
  then show e: "fcm_map up ?m = Map.empty" by blast
  show "fcm_ok up ?m" using l by (simp add: fcm_ok_def e)
qed

section \<open>Lookup and removal\<close>

lemma get_ok:
  assumes al: "align_spec up" and ok: "fcm_ok up m" and g: "EFileContextManager_get S up fd m k = (FOk c, m', k')"
  shows "fcm_ok up m'" and "fcm_map up m' = (fcm_map up m)(fd \<mapsto> c)" and "fm_locked m' = fm_locked m"
    and "fcm_map up m fd = Some c' \<Longrightarrow> c' = c \<and> m' = m \<and> k' = k"
    and "fcm_map up m fd = None \<Longrightarrow> EFileContext_ctor S fd k = (Some (fm_ctx m' c), k') \<and> c = fm_next m"
proof -
  let ?l = "lockFor fd" and ?m1 = "m\<lparr>fm_locked := lockFor fd # fm_locked m\<rparr>"
  have nl: "?l \<notin> set (fm_locked m)" using g by (auto simp: EFileContextManager_get_def Let_def)
  have fd: "fd_ok m fd"
    using g nl by (auto simp: EFileContextManager_get_def Let_def slot_map [OF al ok] split: if_splits)
  have all: "fcm_ok up m' \<and> fcm_map up m' = (fcm_map up m)(fd \<mapsto> c) \<and> fm_locked m' = fm_locked m \<and>
    (\<forall>c'. fcm_map up m fd = Some c' \<longrightarrow> c' = c \<and> m' = m \<and> k' = k) \<and>
    (fcm_map up m fd = None \<longrightarrow> EFileContext_ctor S fd k = (Some (fm_ctx m' c), k') \<and> c = fm_next m)"
  proof (cases "fcm_map up m fd")
    case (Some c1)
    then have "c1 = c \<and> m' = m \<and> k' = k"
      using g nl fd by (simp add: EFileContextManager_get_def Let_def slot_map [OF al ok])
    then show ?thesis using ok Some by auto
  next
    case None
    obtain co k1 where ct: "EFileContext_ctor S fd k = (co, k1)" by fastforce
    then obtain fc where fc: "co = Some fc"
      using g nl fd None by (cases co) (auto simp: EFileContextManager_get_def Let_def slot_map [OF al ok])
    define m2 where "m2 = ?m1\<lparr>fm_ctx := (fm_ctx m)(fm_next m := fc), fm_next := fm_next m + 1\<rparr>"
    have c: "c = fm_next m" "k' = k1"
      and m': "m' = (set_slot up fd (Some c) m2)\<lparr>fm_locked := fm_locked m\<rparr>"
      using g nl fd None unfolding m2_def
      by (auto simp: EFileContextManager_get_def Let_def slot_map [OF al ok] ct fc)
    have f2: "fm_files m2 = fm_files m" by (simp add: m2_def)
    have l2: "\<forall>ch\<in>set (fm_files m2). length ch = nat FD_CHUNK_CAPACITY" using fcm_okD(1) [OF ok] f2 by simp
    have fd2: "fd_ok m2 fd" using fd f2 by (simp add: fd_ok_def)
    have mp: "fcm_map up m' = (fcm_map up m)(fd \<mapsto> c)"
      using fcm_map_set_slot(2) [OF al l2 fd2] fcm_map_cong [OF f2]
      by (simp add: m' fcm_map_cong [of "set_slot up fd (Some c) m2\<lparr>fm_locked := fm_locked m\<rparr>" "set_slot up fd (Some c) m2"])
    have cx: "fm_ctx m' = (fm_ctx m)(c := fc)" "fm_next m' = fm_next m + 1"
      by (simp_all add: m' m2_def c(1))
    have "x < fm_next m' \<and> fc_fd (fm_ctx m' x) = fd'" if "fcm_map up m' fd' = Some x" for fd' x
    proof (cases "fd' = fd")
      case True
      then show ?thesis using that ctor_fd ct fc unfolding mp cx c(1) by auto
    next
      case False
      then have "fcm_map up m fd' = Some x" using that unfolding mp by simp
      from fcm_okD(2) [OF ok this] show ?thesis unfolding cx c(1) by auto
    qed
    then have "fcm_ok up m'"
      using fcm_map_set_slot(1) [OF al l2 fd2] unfolding fcm_ok_def m' by simp
    then show ?thesis using mp None ct fc c m' by (simp add: cx m2_def)
  qed
  show "fcm_ok up m'" "fcm_map up m' = (fcm_map up m)(fd \<mapsto> c)" "fm_locked m' = fm_locked m"
    "fcm_map up m fd = Some c' \<Longrightarrow> c' = c \<and> m' = m \<and> k' = k"
    "fcm_map up m fd = None \<Longrightarrow> EFileContext_ctor S fd k = (Some (fm_ctx m' c), k') \<and> c = fm_next m"
    using all by blast+
qed

lemma get_ok_args:
  assumes "align_spec up" "fcm_ok up m" "EFileContextManager_get S up fd m k = (FOk c, m', k')"
  shows "lockFor fd \<notin> set (fm_locked m)" "fd_ok m fd" "fd_ok m' fd"
proof -
  show l: "lockFor fd \<notin> set (fm_locked m)" using assms(3) by (auto simp: EFileContextManager_get_def Let_def)
  show f: "fd_ok m fd"
    using assms(3) l by (auto simp: EFileContextManager_get_def Let_def slot_map [OF assms(1,2)] split: if_splits)
  have "length (fm_files m') = length (fm_files m)"
    using assms(3) by (auto simp: EFileContextManager_get_def Let_def split: if_splits option.splits prod.splits)
  then show "fd_ok m' fd" using f by (simp add: fd_ok_def)
qed

lemma remove_ok:
  assumes al: "align_spec up" and ok: "fcm_ok up m" and fd: "fd_ok m fd" and l: "lockFor fd \<notin> set (fm_locked m)"
  shows "\<exists>m' k'. EFileContextManager_remove S up cur held fd m k = (FOk (), m', k') \<and> fcm_ok up m' \<and>
    fcm_map up m' = (fcm_map up m)(fd := None) \<and> fm_locked m' = fm_locked m"
proof -
  let ?m1 = "m\<lparr>fm_locked := lockFor fd # fm_locked m\<rparr>"
  let ?m' = "(set_slot up fd None ?m1)\<lparr>fm_locked := fm_locked m\<rparr>"
  have f1: "fm_files ?m1 = fm_files m" by simp
  have l1: "\<forall>ch\<in>set (fm_files ?m1). length ch = nat FD_CHUNK_CAPACITY" using fcm_okD(1) [OF ok] by simp
  have fd1: "fd_ok ?m1 fd" using fd by (simp add: fd_ok_def)
  have mp: "fcm_map up ?m' = (fcm_map up m)(fd := None)"
    using fcm_map_set_slot(2) [OF al l1 fd1] fcm_map_cong [OF f1]
    by (simp add: fcm_map_cong [of ?m' "set_slot up fd None ?m1"])
  have "x < fm_next ?m' \<and> fc_fd (fm_ctx ?m' x) = fd'" if "fcm_map up ?m' fd' = Some x" for fd' x
    using that fcm_okD(2) [OF ok, of fd' x] unfolding mp by (auto split: if_splits)
  then have "fcm_ok up ?m'" using fcm_map_set_slot(1) [OF al l1 fd1] unfolding fcm_ok_def by simp
  then show ?thesis using mp l fd
    by (auto simp: EFileContextManager_remove_def Let_def slot_map [OF al ok] intro!: exI [of _ ?m'])
qed

lemma get_faults:
  assumes "align_spec up" "fcm_ok up m" "lockFor fd \<notin> set (fm_locked m)"
  shows "fst (EFileContextManager_get S up fd m k) = FFault \<longleftrightarrow> \<not> fd_ok m fd"
  using assms(3)
  by (auto simp: EFileContextManager_get_def Let_def slot_map [OF assms(1,2)] split: option.splits prod.splits)

lemma throw_holds_lock:
  assumes "EFileContextManager_get S up fd m k = (FThrow, m', k')"
  shows "lockFor fd \<in> set (fm_locked m')"
  using assms by (auto simp: EFileContextManager_get_def Let_def split: if_splits option.splits prod.splits)

lemma locked_spins:
  assumes "lockFor fd \<in> set (fm_locked m)"
  shows "EFileContextManager_get S up fd m k = (FSpin, m, k)"
    and "EFileContextManager_remove S up cur held fd m k = (FSpin, m, k)"
  using assms by (simp_all add: EFileContextManager_get_def EFileContextManager_remove_def Let_def)

section \<open>The flag \<open>O_NONBLOCK\<close>\<close>

lemma nonblock_bit: "bit (O_NONBLOCK :: int) n \<longleftrightarrow> n = 11"
proof -
  have "(O_NONBLOCK :: int) = 2 ^ 11" by simp
  then show ?thesis by (simp only: bit_exp_iff) auto
qed

lemma nonblock_set: "(x :: int) AND O_NONBLOCK \<noteq> 0 \<longleftrightarrow> bit x 11"
proof -
  have "(x AND 2 ^ 11 = 0) = (\<not> bit x 11)" by (rule and_exp_eq_0_iff_not_bit)
  then show ?thesis by simp
qed

lemma nonblock_or: "bit (x OR O_NONBLOCK :: int) 11" "bit x 11 \<Longrightarrow> x OR O_NONBLOCK = x"
proof -
  show "bit (x OR O_NONBLOCK :: int) 11" by (simp only: bit_or_iff nonblock_bit simp_thms)
  show "x OR O_NONBLOCK = x" if "bit x 11"
    by (rule bit_eqI) (use that in \<open>auto simp only: bit_or_iff nonblock_bit\<close>)
qed

lemma nonblock_and: "\<not> bit (x AND NOT O_NONBLOCK :: int) 11" "\<not> bit x 11 \<Longrightarrow> x AND NOT O_NONBLOCK = x"
  "(x OR O_NONBLOCK) AND NOT O_NONBLOCK = x AND NOT O_NONBLOCK"
proof -
  have b: "bit (NOT O_NONBLOCK :: int) n \<longleftrightarrow> n \<noteq> 11" for n
    by (simp only: bit_not_int_iff nonblock_bit)
  show "\<not> bit (x AND NOT O_NONBLOCK :: int) 11" by (simp only: bit_and_iff b simp_thms)
  show "x AND NOT O_NONBLOCK = x" if "\<not> bit x 11"
    by (rule bit_eqI) (use that in \<open>auto simp only: bit_and_iff b\<close>)
  show "(x OR O_NONBLOCK) AND NOT O_NONBLOCK = x AND NOT O_NONBLOCK"
    by (rule bit_eqI) (auto simp only: bit_and_iff bit_or_iff nonblock_bit b)
qed

lemma flags_setfl:
  assumes "flags_spec S" "0 \<le> sy_getfl S k fd"
  shows "sy_getfl S (snd (sy_setfl S fd (sy_getfl S k fd OR O_NONBLOCK) k)) fd = sy_getfl S k fd OR O_NONBLOCK"
    and "sy_getfl S (snd (sy_setfl S fd (sy_getfl S k fd AND NOT O_NONBLOCK) k)) fd = sy_getfl S k fd AND NOT O_NONBLOCK"
  using assms by (auto simp: flags_spec_def)

lemma ctor_flags:
  assumes fs: "flags_spec S" and p: "0 \<le> sy_getfl S k fd" and c: "EFileContext_ctor S fd k = (r, k')"
  shows "sy_getfl S k' fd = sy_getfl S k fd OR O_NONBLOCK"
    and "r = Some fc \<Longrightarrow> fc_fd fc = fd \<and> (fc_userNonBlocked fc \<longleftrightarrow> sy_getfl S k fd AND O_NONBLOCK \<noteq> 0) \<and>
      (fc_sysNonBlocked fc \<longleftrightarrow> \<not> fc_userNonBlocked fc)"
proof -
  have "k' = (if sy_getfl S k fd AND O_NONBLOCK \<noteq> 0 then k
      else snd (sy_setfl S fd (sy_getfl S k fd OR O_NONBLOCK) k))"
    using c p by (auto simp: EFileContext_ctor_def Let_def split: if_splits option.splits)
  then show "sy_getfl S k' fd = sy_getfl S k fd OR O_NONBLOCK"
    using flags_setfl(1) [OF fs p] nonblock_or(2) [of "sy_getfl S k fd"] by (simp add: nonblock_set)
  show "r = Some fc \<Longrightarrow> fc_fd fc = fd \<and> (fc_userNonBlocked fc \<longleftrightarrow> sy_getfl S k fd AND O_NONBLOCK \<noteq> 0) \<and>
      (fc_sysNonBlocked fc \<longleftrightarrow> \<not> fc_userNonBlocked fc)"
    using c p by (auto simp: EFileContext_ctor_def Let_def split: if_splits option.splits)
qed

lemma dtor_flags:
  assumes fs: "flags_spec S" and p: "0 \<le> sy_getfl S k (fc_fd fc)"
  shows "sy_getfl S (EFileContext_dtor S None fc k) (fc_fd fc) =
    (if fc_userNonBlocked fc then sy_getfl S k (fc_fd fc) OR O_NONBLOCK
     else sy_getfl S k (fc_fd fc) AND NOT O_NONBLOCK)"
  using flags_setfl [OF fs p] nonblock_or(2) [of "sy_getfl S k (fc_fd fc)"]
    nonblock_and(2) [of "sy_getfl S k (fc_fd fc)"]
  by (auto simp: EFileContext_dtor_def Let_def nonblock_set)

end
