(* ===== verification/Eco_Runtime.thy ===== *)
theory Eco_Runtime
  imports Eco_Prelude
begin

text \<open>
  The state that the schedulers, io waiters and blockers share: the \<open>EFiber\<close> objects
  (inc/EFiber.hh, src/EFiber.cpp), the nodes and heads of the \<open>EFiberConcurrentQueue\<close>s
  (inc/EFiberUtil.hh) and the number of bytes in the self-pipe of every \<open>EIoWaiter\<close>.
  \<open>localValues\<close> is modelled in its own theory; the machine context and the stack are the
  resumption that the scheduler keeps for a fiber.
\<close>

section \<open>Fibers\<close>

datatype fstate = NEW | RUNNABLE | BLOCKED | WAITING | TERMINATED

record fiber =
  fb_state :: fstate
  fb_fid :: int
  fb_name :: string
  fb_tag :: int
  fb_threadIndex :: int
  fb_stackSize :: int
  fb_parent :: "fptr option"
  fb_scheduler :: "nat option"
  fb_iowaiter :: "wptr option"
  fb_boundQueue :: "qptr option"
  fb_boundThreadID :: tid
  fb_blocker :: "bptr option"
  fb_isIoWaitTimeout :: bool
  fb_canceled :: bool
  fb_packing :: nptr

section \<open>Queue nodes and queues\<close>

record node =
  nd_value :: "fptr option"
  nd_next :: "nptr option"

record cqueue =
  cq_head :: nptr
  cq_tail :: nptr

section \<open>The shared runtime state\<close>

record rt =
  rt_fibers :: "fptr \<Rightarrow> fiber"
  rt_nodes :: "nptr \<Rightarrow> node"
  rt_queues :: "qptr \<Rightarrow> cqueue"
  rt_signals :: "wptr \<Rightarrow> nat"
  rt_idCounter :: int

definition upd_fiber :: "fptr \<Rightarrow> (fiber \<Rightarrow> fiber) \<Rightarrow> 'z rt_scheme \<Rightarrow> 'z rt_scheme" where
  "upd_fiber f g s = s\<lparr>rt_fibers := (rt_fibers s)(f := g (rt_fibers s f))\<rparr>"

definition upd_node :: "nptr \<Rightarrow> (node \<Rightarrow> node) \<Rightarrow> 'z rt_scheme \<Rightarrow> 'z rt_scheme" where
  "upd_node n g s = s\<lparr>rt_nodes := (rt_nodes s)(n := g (rt_nodes s n))\<rparr>"

definition upd_queue :: "qptr \<Rightarrow> (cqueue \<Rightarrow> cqueue) \<Rightarrow> 'z rt_scheme \<Rightarrow> 'z rt_scheme" where
  "upd_queue q g s = s\<lparr>rt_queues := (rt_queues s)(q := g (rt_queues s q))\<rparr>"

lemma upd_fiber_simps [simp, upd_simps]:
  "rt_fibers (upd_fiber f g s) = (rt_fibers s)(f := g (rt_fibers s f))"
  "rt_nodes (upd_fiber f g s) = rt_nodes s"
  "rt_queues (upd_fiber f g s) = rt_queues s"
  "rt_signals (upd_fiber f g s) = rt_signals s"
  "rt_idCounter (upd_fiber f g s) = rt_idCounter s"
  "rt.more (upd_fiber f g s) = rt.more s"
  by (simp_all add: upd_fiber_def)

lemma upd_node_simps [simp, upd_simps]:
  "rt_fibers (upd_node n g' s) = rt_fibers s"
  "rt_nodes (upd_node n g' s) = (rt_nodes s)(n := g' (rt_nodes s n))"
  "rt_queues (upd_node n g' s) = rt_queues s"
  "rt_signals (upd_node n g' s) = rt_signals s"
  "rt_idCounter (upd_node n g' s) = rt_idCounter s"
  "rt.more (upd_node n g' s) = rt.more s"
  by (simp_all add: upd_node_def)

lemma upd_queue_simps [simp, upd_simps]:
  "rt_fibers (upd_queue q g'' s) = rt_fibers s"
  "rt_nodes (upd_queue q g'' s) = rt_nodes s"
  "rt_queues (upd_queue q g'' s) = (rt_queues s)(q := g'' (rt_queues s q))"
  "rt_signals (upd_queue q g'' s) = rt_signals s"
  "rt_idCounter (upd_queue q g'' s) = rt_idCounter s"
  "rt.more (upd_queue q g'' s) = rt.more s"
  by (simp_all add: upd_queue_def)

section \<open>EFiber: construction and accessors\<close>

definition MIN_STACK_SIZE :: int where
  "MIN_STACK_SIZE = 8192"  \<comment> \<open>the Linux value\<close>

definition ES_LONG_MIN_VALUE :: int where
  "ES_LONG_MIN_VALUE = - (2 ^ 63)"

text \<open>
  The constructor: \<open>f\<close> and \<open>n\<close> are the addresses that \<open>operator new\<close> returns for the fiber
  and for its packing node, \<open>cf\<close> is the fiber that is running (\<open>EFiber::currentFiber()\<close>).
\<close>

definition EFiber_ctor :: "fptr option \<Rightarrow> int \<Rightarrow> fptr \<Rightarrow> nptr \<Rightarrow> 'z rt_scheme \<Rightarrow> 'z rt_scheme" where
  "EFiber_ctor cf sz f n s =
     (let fb = \<lparr>fb_state = NEW, fb_fid = rt_idCounter s, fb_name = [],
                fb_tag = ES_LONG_MIN_VALUE, fb_threadIndex = 0,
                fb_stackSize = max sz MIN_STACK_SIZE, fb_parent = cf,
                fb_scheduler = None, fb_iowaiter = None, fb_boundQueue = None,
                fb_boundThreadID = -1, fb_blocker = None, fb_isIoWaitTimeout = False,
                fb_canceled = False, fb_packing = n\<rparr>
      in upd_node n (\<lambda>_. \<lparr>nd_value = None, nd_next = None\<rparr>)
           (upd_fiber f (\<lambda>_. fb) (s\<lparr>rt_idCounter := rt_idCounter s + 1\<rparr>)))"

definition EFiber_setName :: "fptr \<Rightarrow> string \<Rightarrow> 'z rt_scheme \<Rightarrow> 'z rt_scheme" where
  "EFiber_setName f nm = upd_fiber f (\<lambda>fb. fb\<lparr>fb_name := nm\<rparr>)"

definition EFiber_getName :: "fptr \<Rightarrow> 'z rt_scheme \<Rightarrow> string" where
  "EFiber_getName f s =
     (if fb_name (rt_fibers s f) = [] then ''null'' else fb_name (rt_fibers s f))"

definition EFiber_setTag :: "fptr \<Rightarrow> int \<Rightarrow> 'z rt_scheme \<Rightarrow> 'z rt_scheme" where
  "EFiber_setTag f t = upd_fiber f (\<lambda>fb. fb\<lparr>fb_tag := t\<rparr>)"

definition EFiber_cancel :: "fptr \<Rightarrow> 'z rt_scheme \<Rightarrow> 'z rt_scheme" where
  "EFiber_cancel f = upd_fiber f (\<lambda>fb. fb\<lparr>fb_canceled := True\<rparr>)"

definition EFiber_isCanceled :: "fptr \<Rightarrow> 'z rt_scheme \<Rightarrow> bool" where
  "EFiber_isCanceled f s = fb_canceled (rt_fibers s f)"

definition EFiber_isAlive :: "fptr \<Rightarrow> 'z rt_scheme \<Rightarrow> bool" where
  "EFiber_isAlive f s = (fb_state (rt_fibers s f) = RUNNABLE)"

text \<open>\<open>isWaitTimeout\<close> reads the flag and clears it.\<close>

definition EFiber_isWaitTimeout :: "fptr \<Rightarrow> 'z rt_scheme \<Rightarrow> bool \<times> 'z rt_scheme" where
  "EFiber_isWaitTimeout f s =
     (fb_isIoWaitTimeout (rt_fibers s f), upd_fiber f (\<lambda>fb. fb\<lparr>fb_isIoWaitTimeout := False\<rparr>) s)"

definition EFiber_setState :: "fptr \<Rightarrow> fstate \<Rightarrow> 'z rt_scheme \<Rightarrow> 'z rt_scheme" where
  "EFiber_setState f st = upd_fiber f (\<lambda>fb. fb\<lparr>fb_state := st\<rparr>)"

definition EFiber_setThreadIndex :: "fptr \<Rightarrow> int \<Rightarrow> 'z rt_scheme \<Rightarrow> 'z rt_scheme" where
  "EFiber_setThreadIndex f i = upd_fiber f (\<lambda>fb. fb\<lparr>fb_threadIndex := i\<rparr>)"

definition EFiber_setScheduler :: "fptr \<Rightarrow> nat option \<Rightarrow> 'z rt_scheme \<Rightarrow> 'z rt_scheme" where
  "EFiber_setScheduler f sc = upd_fiber f (\<lambda>fb. fb\<lparr>fb_scheduler := sc\<rparr>)"

definition EFiber_setIoWaiter :: "fptr \<Rightarrow> wptr option \<Rightarrow> 'z rt_scheme \<Rightarrow> 'z rt_scheme" where
  "EFiber_setIoWaiter f w = upd_fiber f (\<lambda>fb. fb\<lparr>fb_iowaiter := w\<rparr>)"

text \<open>
  \<open>sleep(llong millis, int nanos)\<close>: the argument checks and the rounding. \<open>Inl\<close> is the
  message of the \<open>EIllegalArgumentException\<close>, \<open>Inr\<close> the milliseconds that are slept.
\<close>

definition EFiber_sleep_nanos :: "int \<Rightarrow> int \<Rightarrow> string + int" where
  "EFiber_sleep_nanos millis nanos =
     (if millis < 0 then Inl ''timeout value is negative''
      else if nanos < 0 \<or> nanos > 999999 then Inl ''nanosecond timeout value out of range''
      else if nanos \<ge> 500000 \<or> (nanos \<noteq> 0 \<and> millis = 0) then Inr (millis + 1)
      else Inr millis)"

text \<open>
  It throws exactly for values out of range; otherwise the time slept differs from the time asked
  for by at most half a millisecond, except that a positive time is never rounded to 0.
\<close>

lemma sleep_rounds_up:
  "case EFiber_sleep_nanos millis nanos of
     Inl msg \<Rightarrow> millis < 0 \<or> nanos < 0 \<or> 999999 < nanos
   | Inr ms \<Rightarrow> 0 \<le> millis \<and> 0 \<le> nanos \<and> nanos \<le> 999999 \<and>
       (ms * 1000000 - (millis * 1000000 + nanos) \<le> 500000 \<or> (millis = 0 \<and> ms = 1)) \<and>
       (millis * 1000000 + nanos) - ms * 1000000 < 500000 \<and> (ms = 0 \<longleftrightarrow> millis = 0 \<and> nanos = 0)"
  by (auto simp: EFiber_sleep_nanos_def)

end
