(* ===== verification/Fiber_Queue.thy ===== *)
theory Fiber_Queue
  imports Eco_Runtime
begin

text \<open>
  \<open>EFiberConcurrentQueue<EFiber>\<close> (inc/EFiberUtil.hh) at the level of its linked nodes.
  A queue starts with a dummy node. \<open>add\<close> links the packing node that the fiber brings along;
  \<open>poll\<close> makes the node of the first fiber the new dummy and gives the old dummy to that fiber
  as its packing node, so that no node is ever allocated or freed while a queue works.
  The theory shows that this recycling is right: the queues behave as FIFO lists.
\<close>

section \<open>The code\<close>

definition cq_ctor :: "qptr \<Rightarrow> nptr \<Rightarrow> 'z rt_scheme \<Rightarrow> 'z rt_scheme" where
  "cq_ctor q n s =
     upd_queue q (\<lambda>_. \<lparr>cq_head = n, cq_tail = n\<rparr>)
       (upd_node n (\<lambda>_. \<lparr>nd_value = None, nd_next = None\<rparr>) s)"

definition cq_add :: "qptr \<Rightarrow> fptr \<Rightarrow> 'z rt_scheme \<Rightarrow> 'z rt_scheme" where
  "cq_add q e s =
     (let n = fb_packing (rt_fibers s e);
          s1 = upd_node n (\<lambda>nd. nd\<lparr>nd_value := Some e\<rparr>) s;
          s2 = upd_node n (\<lambda>nd. nd\<lparr>nd_next := None\<rparr>) s1;
          s3 = upd_node (cq_tail (rt_queues s2 q)) (\<lambda>nd. nd\<lparr>nd_next := Some n\<rparr>) s2
      in upd_queue q (\<lambda>c. c\<lparr>cq_tail := n\<rparr>) s3)"

text \<open>
  \<open>poll\<close> returns \<open>None\<close> of the outer option if it would dereference a null value pointer,
  else the polled fiber (\<open>None\<close> for the empty queue) and the new state.
\<close>

definition cq_poll :: "qptr \<Rightarrow> 'z rt_scheme \<Rightarrow> (fptr option \<times> 'z rt_scheme) option" where
  "cq_poll q s =
     (let n = cq_head (rt_queues s q) in
      case nd_next (rt_nodes s n) of
        None \<Rightarrow> Some (None, s)
      | Some new_head \<Rightarrow>
          (let v = nd_value (rt_nodes s new_head);
               s1 = upd_queue q (\<lambda>c. c\<lparr>cq_head := new_head\<rparr>) s;
               s2 = upd_node n (\<lambda>nd. nd\<lparr>nd_value := v\<rparr>) s1
           in case v of
                None \<Rightarrow> None
              | Some e \<Rightarrow> Some (Some e, upd_fiber e (\<lambda>fb. fb\<lparr>fb_packing := n\<rparr>) s2)))"

section \<open>The interface of a family of queues\<close>

text \<open>
  What the scheduler relies on: \<open>rep s V\<close> says that in state \<open>s\<close> the queue \<open>k\<close> holds the
  elements \<open>V k\<close>, in order. An element may be added if it is in no queue.
\<close>

locale fifo_family =
  fixes add :: "'k \<Rightarrow> 'e \<Rightarrow> 's \<Rightarrow> 's"
    and poll :: "'k \<Rightarrow> 's \<Rightarrow> ('e option \<times> 's) option"
    and rep :: "'s \<Rightarrow> ('k \<Rightarrow> 'e list) \<Rightarrow> bool"
    and keys :: "'k set" and elems :: "'e set"
  assumes add_rep: "rep s V \<Longrightarrow> k \<in> keys \<Longrightarrow> e \<in> elems \<Longrightarrow> (\<forall>j\<in>keys. e \<notin> set (V j)) \<Longrightarrow>
      rep (add k e s) (V(k := V k @ [e]))"
    and poll_empty: "rep s V \<Longrightarrow> k \<in> keys \<Longrightarrow> V k = [] \<Longrightarrow> poll k s = Some (None, s)"
    and poll_cons: "rep s V \<Longrightarrow> k \<in> keys \<Longrightarrow> V k = e # es \<Longrightarrow>
      \<exists>s'. poll k s = Some (Some e, s') \<and> rep s' (V(k := es))"
    and rep_elems: "rep s V \<Longrightarrow> k \<in> keys \<Longrightarrow> set (V k) \<subseteq> elems"
    and rep_once: "rep s V \<Longrightarrow> k \<in> keys \<Longrightarrow> distinct (V k)"

text \<open>A client is a sequence of operations; the results of the polls are recorded.\<close>

datatype ('k, 'e) qop = QAdd 'k 'e | QPoll 'k

fun qrun :: "('k \<Rightarrow> 'e \<Rightarrow> 's \<Rightarrow> 's) \<Rightarrow> ('k \<Rightarrow> 's \<Rightarrow> ('e option \<times> 's) option) \<Rightarrow>
    ('k, 'e) qop list \<Rightarrow> 's \<Rightarrow> ('e option list \<times> 's) option" where
  "qrun add poll [] s = Some ([], s)"
| "qrun add poll (QAdd k e # os) s = qrun add poll os (add k e s)"
| "qrun add poll (QPoll k # os) s =
     (case poll k s of
        None \<Rightarrow> None
      | Some (r, s') \<Rightarrow>
          (case qrun add poll os s' of None \<Rightarrow> None | Some (rs, t) \<Rightarrow> Some (r # rs, t)))"

text \<open>The specification: the same operations on lists.\<close>

definition list_poll :: "'k \<Rightarrow> ('k \<Rightarrow> 'e list) \<Rightarrow> ('e option \<times> ('k \<Rightarrow> 'e list)) option" where
  "list_poll k V = (case V k of [] \<Rightarrow> Some (None, V) | e # es \<Rightarrow> Some (Some e, V(k := es)))"

definition list_add :: "'k \<Rightarrow> 'e \<Rightarrow> ('k \<Rightarrow> 'e list) \<Rightarrow> ('k \<Rightarrow> 'e list)" where
  "list_add k e V = V(k := V k @ [e])"

text \<open>No element is added while it is in a queue.\<close>

fun qops_ok :: "'k set \<Rightarrow> 'e set \<Rightarrow> ('k, 'e) qop list \<Rightarrow> ('k \<Rightarrow> 'e list) \<Rightarrow> bool" where
  "qops_ok ks es [] V = True"
| "qops_ok ks es (QAdd k e # os) V =
     (k \<in> ks \<and> e \<in> es \<and> (\<forall>j\<in>ks. e \<notin> set (V j)) \<and> qops_ok ks es os (list_add k e V))"
| "qops_ok ks es (QPoll k # os) V = (k \<in> ks \<and> qops_ok ks es os (V(k := tl (V k))))"

context fifo_family
begin

lemma poll_cases:
  assumes "rep s V" "k \<in> keys"
  shows "\<exists>s'. poll k s = Some (case V k of [] \<Rightarrow> None | e # _ \<Rightarrow> Some e, s') \<and>
    rep s' (V(k := tl (V k)))"
proof (cases "V k")
  case Nil
  then have "V(k := tl (V k)) = V" by auto
  with Nil show ?thesis using poll_empty [OF assms Nil] assms by auto
next
  case (Cons e es)
  then show ?thesis using poll_cons [OF assms Cons] by auto
qed

lemma qrun_refines:
  "rep s V \<Longrightarrow> qops_ok keys elems os V \<Longrightarrow>
     \<exists>rs t W. qrun add poll os s = Some (rs, t) \<and> qrun list_add list_poll os V = Some (rs, W) \<and>
       rep t W"
proof (induction os arbitrary: s V)
  case Nil
  then show ?case by simp
next
  case (Cons a os)
  show ?case
  proof (cases a)
    case (QAdd k e)
    with Cons.prems have "rep (add k e s) (list_add k e V)"
      by (simp add: add_rep list_add_def)
    with Cons.prems QAdd show ?thesis using Cons.IH by simp
  next
    case (QPoll k)
    with Cons.prems obtain s' where p: "poll k s = Some (case V k of [] \<Rightarrow> None | e # _ \<Rightarrow> Some e, s')"
      and r: "rep s' (V(k := tl (V k)))"
      using poll_cases [of s V k] by auto
    moreover have "list_poll k V =
        Some (case V k of [] \<Rightarrow> None | e # _ \<Rightarrow> Some e, V(k := tl (V k)))"
      by (auto simp: list_poll_def fun_upd_idem split: list.splits)
    moreover obtain rs t W where "qrun add poll os s' = Some (rs, t)"
        "qrun list_add list_poll os (V(k := tl (V k))) = Some (rs, W)" "rep t W"
      using Cons.IH [of s' "V(k := tl (V k))"] r Cons.prems QPoll
      by (auto simp del: fun_upd_apply)
    ultimately show ?thesis using QPoll by simp
  qed
qed

end


section \<open>The representation\<close>

text \<open>\<open>chain nx n ms\<close>: following the \<open>next\<close> pointers from \<open>n\<close> visits \<open>ms\<close> and ends.\<close>

fun chain :: "(nptr \<Rightarrow> nptr option) \<Rightarrow> nptr \<Rightarrow> nptr list \<Rightarrow> bool" where
  "chain nx n [] = (nx n = None)"
| "chain nx n (m # ms) = (nx n = Some m \<and> chain nx m ms)"

lemma chain_frame:
  "chain nx n ms \<Longrightarrow> (\<And>m. m \<in> set (n # ms) \<Longrightarrow> ny m = nx m) \<Longrightarrow> chain ny n ms"
  by (induction ms arbitrary: n) auto

lemma chain_snoc:
  "chain nx h ms \<Longrightarrow> distinct (h # ms) \<Longrightarrow> n \<notin> set (h # ms) \<Longrightarrow>
     chain (nx(n := None, last (h # ms) := Some n)) h (ms @ [n])"
proof (induction ms arbitrary: h)
  case Nil
  then show ?case by auto
next
  case (Cons m ms)
  have "chain (nx(n := None, last (m # ms) := Some n)) m (ms @ [n])"
    using Cons.IH [of m] Cons.prems by (simp del: last.simps fun_upd_apply)
  moreover have "h \<noteq> last (m # ms)"
    using Cons.prems(2) last_in_set [of "m # ms"] by (metis distinct.simps(2) list.distinct(1))
  ultimately have "(nx(n := None, last (m # ms) := Some n)) h = Some m"
    using Cons.prems by (simp del: last.simps)
  with \<open>chain (nx(n := None, last (m # ms) := Some n)) m (ms @ [n])\<close> show ?case
    by (simp del: fun_upd_apply)
qed

abbreviation next_of :: "'z rt_scheme \<Rightarrow> nptr \<Rightarrow> nptr option" where
  "next_of s n \<equiv> nd_next (rt_nodes s n)"

abbreviation pk :: "'z rt_scheme \<Rightarrow> fptr \<Rightarrow> nptr" where
  "pk s f \<equiv> fb_packing (rt_fibers s f)"

abbreviation hd_node :: "'z rt_scheme \<Rightarrow> qptr \<Rightarrow> nptr" where
  "hd_node s k \<equiv> cq_head (rt_queues s k)"

text \<open>
  \<open>qrep K L s V\<close>: the queues in \<open>K\<close> hold the fibers \<open>V\<close>, all of them among the live fibers
  \<open>L\<close>. A queued fiber sits in its own packing node, no two live fibers share a packing node,
  and the dummy nodes belong to nobody.
\<close>

definition qrep :: "qptr set \<Rightarrow> fptr set \<Rightarrow> 'z rt_scheme \<Rightarrow> (qptr \<Rightarrow> fptr list) \<Rightarrow> bool" where
  "qrep K L s V \<longleftrightarrow>
     (\<forall>k\<in>K. chain (next_of s) (hd_node s k) (map (pk s) (V k))) \<and>
     (\<forall>k\<in>K. cq_tail (rt_queues s k) = last (hd_node s k # map (pk s) (V k))) \<and>
     (\<forall>k\<in>K. set (V k) \<subseteq> L \<and> distinct (V k)) \<and>
     (\<forall>j\<in>K. \<forall>k\<in>K. j \<noteq> k \<longrightarrow> set (V j) \<inter> set (V k) = {}) \<and>
     (\<forall>k\<in>K. \<forall>f\<in>set (V k). nd_value (rt_nodes s (pk s f)) = Some f) \<and>
     inj_on (pk s) L \<and> inj_on (hd_node s) K \<and> (\<forall>k\<in>K. hd_node s k \<notin> pk s ` L)"

lemma qrepI:
  assumes "\<And>k. k \<in> K \<Longrightarrow> chain (next_of s) (hd_node s k) (map (pk s) (V k))"
    and "\<And>k. k \<in> K \<Longrightarrow> cq_tail (rt_queues s k) = last (hd_node s k # map (pk s) (V k))"
    and "\<And>k. k \<in> K \<Longrightarrow> set (V k) \<subseteq> L" and "\<And>k. k \<in> K \<Longrightarrow> distinct (V k)"
    and "\<And>j k f. j \<in> K \<Longrightarrow> k \<in> K \<Longrightarrow> f \<in> set (V j) \<Longrightarrow> f \<in> set (V k) \<Longrightarrow> j = k"
    and "\<And>k f. k \<in> K \<Longrightarrow> f \<in> set (V k) \<Longrightarrow> nd_value (rt_nodes s (pk s f)) = Some f"
    and "inj_on (pk s) L" and "inj_on (hd_node s) K" and "\<And>k. k \<in> K \<Longrightarrow> hd_node s k \<notin> pk s ` L"
  shows "qrep K L s V"
  using assms unfolding qrep_def by blast

lemma qrepD:
  assumes "qrep K L s V" "k \<in> K"
  shows qrep_chain: "chain (next_of s) (hd_node s k) (map (pk s) (V k))"
    and qrep_tail: "cq_tail (rt_queues s k) = last (hd_node s k # map (pk s) (V k))"
    and qrep_sub: "set (V k) \<subseteq> L"
    and qrep_distinct: "distinct (V k)"
    and qrep_value: "f \<in> set (V k) \<Longrightarrow> nd_value (rt_nodes s (pk s f)) = Some f"
    and qrep_inj: "inj_on (pk s) L"
    and qrep_head_inj: "inj_on (hd_node s) K"
    and qrep_head: "hd_node s k \<notin> pk s ` L"
  using assms unfolding qrep_def by blast+

lemma qrep_disjoint:
  "qrep K L s V \<Longrightarrow> j \<in> K \<Longrightarrow> k \<in> K \<Longrightarrow> f \<in> set (V j) \<Longrightarrow> f \<in> set (V k) \<Longrightarrow> j = k"
  unfolding qrep_def by blast

text \<open>The nodes of a queue are pairwise different, and different from those of other queues.\<close>

lemma qrep_nodes_distinct:
  assumes "qrep K L s V" "k \<in> K"
  shows "distinct (hd_node s k # map (pk s) (V k))"
  using qrepD [OF assms] by (auto simp: distinct_map intro: inj_on_subset)

lemma qrep_nodes_disjoint:
  assumes r: "qrep K L s V" and j: "j \<in> K" and k: "k \<in> K" and ne: "j \<noteq> k"
    and m: "m \<in> set (hd_node s j # map (pk s) (V j))"
  shows "m \<notin> set (hd_node s k # map (pk s) (V k))"
proof
  assume m': "m \<in> set (hd_node s k # map (pk s) (V k))"
  have hh: "hd_node s j \<noteq> hd_node s k"
    using qrep_head_inj [OF r j] j k ne by (auto simp: inj_on_def)
  have hp: "hd_node s i \<noteq> pk s f" if "i \<in> K" "f \<in> set (V l)" "l \<in> K" for i l f
    using qrep_head [OF r that(1)] qrep_sub [OF r that(3)] that(2) by (metis image_eqI subsetD)
  have pp: "pk s f \<noteq> pk s g" if "f \<in> set (V j)" "g \<in> set (V k)" for f g
    using qrep_inj [OF r j] qrep_sub [OF r j] qrep_sub [OF r k] qrep_disjoint [OF r j k] ne that
    by (metis inj_onD subsetD)
  have ph: "pk s f \<noteq> hd_node s k" if "f \<in> set (V j)" for f
    using hp [OF k that j] by simp
  from m m' show False
    using hh hp [OF j _ k] ph pp by auto
qed

lemma qrep_tail_in:
  assumes "qrep K L s V" "k \<in> K"
  shows "cq_tail (rt_queues s k) \<in> set (hd_node s k # map (pk s) (V k))"
  using qrep_tail [OF assms] last_in_set [of "hd_node s k # map (pk s) (V k)"] by simp

section \<open>add\<close>

lemma cq_add_fields:
  "rt_fibers (cq_add q e s) = rt_fibers s"
  "cq_head (rt_queues (cq_add q e s) k) = cq_head (rt_queues s k)"
  "cq_tail (rt_queues (cq_add q e s) k) = (if k = q then pk s e else cq_tail (rt_queues s k))"
  "nd_next (rt_nodes (cq_add q e s) m) = (if m = cq_tail (rt_queues s q) then Some (pk s e)
     else if m = pk s e then None else nd_next (rt_nodes s m))"
  "nd_value (rt_nodes (cq_add q e s) m) =
     (if m = pk s e then Some e else nd_value (rt_nodes s m))"
  "rt_signals (cq_add q e s) = rt_signals s"
  "rt_idCounter (cq_add q e s) = rt_idCounter s"
  "rt.more (cq_add q e s) = rt.more s"
  by (auto simp: cq_add_def Let_def)

lemma cq_add_next:
  "next_of (cq_add q e s) = (next_of s)(pk s e := None, cq_tail (rt_queues s q) := Some (pk s e))"
  by (auto simp: cq_add_fields fun_eq_iff)

lemma pk_not_in_nodes:
  assumes r: "qrep K L s V" and k: "k \<in> K" and e: "e \<in> L" "e \<notin> set (V k)"
  shows "pk s e \<notin> set (hd_node s k # map (pk s) (V k))"
proof
  assume "pk s e \<in> set (hd_node s k # map (pk s) (V k))"
  moreover have "pk s e \<noteq> hd_node s k"
    using qrep_head [OF r k] e by (metis image_eqI)
  ultimately obtain f where "f \<in> set (V k)" "pk s e = pk s f" by auto
  moreover have "f \<in> L" using qrep_sub [OF r k] \<open>f \<in> set (V k)\<close> by blast
  ultimately show False
    using qrep_inj [OF r k] e by (metis inj_onD)
qed

lemma cq_add_chain_self:
  assumes r: "qrep K L s V" and q: "q \<in> K" and e: "e \<in> L" "e \<notin> set (V q)"
  shows "chain (next_of (cq_add q e s)) (hd_node s q) (map (pk s) (V q @ [e]))"
  using chain_snoc [OF qrep_chain [OF r q] qrep_nodes_distinct [OF r q] pk_not_in_nodes [OF r q e]]
  by (simp add: cq_add_next qrep_tail [OF r q] del: fun_upd_apply last.simps)

lemma cq_add_chain_other:
  assumes r: "qrep K L s V" and q: "q \<in> K" and k: "k \<in> K" "k \<noteq> q"
    and e: "e \<in> L" "e \<notin> set (V k)"
  shows "chain (next_of (cq_add q e s)) (hd_node s k) (map (pk s) (V k))"
proof (rule chain_frame [OF qrep_chain [OF r k(1)]])
  fix m assume m: "m \<in> set (hd_node s k # map (pk s) (V k))"
  then have "m \<noteq> pk s e" using pk_not_in_nodes [OF r k(1) e] by auto
  moreover have "m \<noteq> cq_tail (rt_queues s q)"
    using qrep_nodes_disjoint [OF r k(1) q k(2) m] qrep_tail_in [OF r q] by blast
  ultimately show "next_of (cq_add q e s) m = next_of s m"
    by (simp add: cq_add_fields)
qed

lemma qrep_add:
  assumes r: "qrep K L s V" and q: "q \<in> K" and e: "e \<in> L" and fresh: "\<forall>k\<in>K. e \<notin> set (V k)"
  shows "qrep K L (cq_add q e s) (V(q := V q @ [e]))"
proof -
  have own: "f = e" if "k \<in> K" "f \<in> set (V k)" "pk s f = pk s e" for k f
    using that qrep_sub [OF r] qrep_inj [OF r q] e by (metis inj_onD subsetD)
  have ch: "chain (next_of (cq_add q e s)) (hd_node s k) (map (pk s) ((V(q := V q @ [e])) k))"
    if "k \<in> K" for k
    using cq_add_chain_self [OF r q e] cq_add_chain_other [OF r q that _ e] fresh that
    by (cases "k = q") simp_all
  have tl: "cq_tail (rt_queues (cq_add q e s) k) =
      last (hd_node s k # map (pk s) ((V(q := V q @ [e])) k))" if "k \<in> K" for k
    using qrep_tail [OF r that] by (cases "k = q") (simp_all add: cq_add_fields)
  have sub: "set ((V(q := V q @ [e])) k) \<subseteq> L \<and> distinct ((V(q := V q @ [e])) k)"
    if "k \<in> K" for k
    using qrep_sub [OF r that] qrep_distinct [OF r that] e fresh that by (cases "k = q") simp_all
  have vl: "nd_value (rt_nodes (cq_add q e s) (pk s f)) = Some f"
    if "k \<in> K" "f \<in> set ((V(q := V q @ [e])) k)" for k f
    using that qrep_value [OF r that(1), of f] own [OF that(1), of f]
    by (cases "k = q") (auto simp: cq_add_fields)
  have dj: "set ((V(q := V q @ [e])) j) \<inter> set ((V(q := V q @ [e])) k) = {}"
    if "j \<in> K" "k \<in> K" "j \<noteq> k" for j k
  proof -
    have "set (V j) \<inter> set (V k) = {}" using qrep_disjoint [OF r] that by blast
    then show ?thesis using fresh that by (cases "j = q"; cases "k = q") simp_all
  qed
  show ?thesis
    unfolding qrep_def cq_add_fields
    using ch tl sub dj vl qrep_inj [OF r q] qrep_head_inj [OF r q] qrep_head [OF r]
    unfolding cq_add_fields by blast
qed

section \<open>poll\<close>

lemma cq_poll_empty:
  assumes "qrep K L s V" "q \<in> K" "V q = []"
  shows "cq_poll q s = Some (None, s)"
  using qrep_chain [OF assms(1,2)] assms(3) by (simp add: cq_poll_def)

lemma cq_poll_nonempty:
  assumes r: "qrep K L s V" and q: "q \<in> K" and V: "V q = e # es"
  shows "cq_poll q s = Some (Some e,
      upd_fiber e (\<lambda>fb. fb\<lparr>fb_packing := hd_node s q\<rparr>)
        (upd_node (hd_node s q) (\<lambda>nd. nd\<lparr>nd_value := Some e\<rparr>)
          (upd_queue q (\<lambda>c. c\<lparr>cq_head := pk s e\<rparr>) s)))"
  using qrep_chain [OF r q] qrep_value [OF r q, of e] V by (simp add: cq_poll_def Let_def)

lemma qrep_poll:
  assumes r: "qrep K L s V" and q: "q \<in> K" and V: "V q = e # es"
    and p: "cq_poll q s = Some (Some e, s')"
  shows "qrep K L s' (V(q := es))"
proof -
  let ?h = "hd_node s q"
  have eL: "e \<in> L" and dis: "e \<notin> set es"
    using qrep_sub [OF r q] qrep_distinct [OF r q] V by auto
  have s': "s' = upd_fiber e (\<lambda>fb. fb\<lparr>fb_packing := ?h\<rparr>)
      (upd_node ?h (\<lambda>nd. nd\<lparr>nd_value := Some e\<rparr>) (upd_queue q (\<lambda>c. c\<lparr>cq_head := pk s e\<rparr>) s))"
    using p unfolding cq_poll_nonempty [OF r q V] by simp
  have pk': "\<And>f. pk s' f = (if f = e then ?h else pk s f)"
    and hd': "\<And>k. hd_node s' k = (if k = q then pk s e else hd_node s k)"
    and tl': "\<And>k. cq_tail (rt_queues s' k) = cq_tail (rt_queues s k)"
    and nx': "\<And>m. nd_next (rt_nodes s' m) = nd_next (rt_nodes s m)"
    and vl': "\<And>m. nd_value (rt_nodes s' m) = (if m = ?h then Some e else nd_value (rt_nodes s m))"
    by (simp_all add: s')
  have W: "e \<notin> set ((V(q := es)) k) \<and> set ((V(q := es)) k) \<subseteq> set (V k)" if "k \<in> K" for k
  proof (cases "k = q")
    case True
    with V dis show ?thesis by auto
  next
    case False
    with qrep_disjoint [OF r q that, of e] V show ?thesis by auto
  qed
  have mp: "map (pk s') ((V(q := es)) k) = map (pk s) ((V(q := es)) k)" if "k \<in> K" for k
    using W [OF that] by (auto simp: pk' simp del: fun_upd_apply)
  have hL: "hd_node s k \<noteq> pk s f" if "k \<in> K" "f \<in> L" for k f
    using qrep_head [OF r that(1)] that(2) by (metis image_eqI)
  have inj: "pk s f = pk s g \<Longrightarrow> f \<in> L \<Longrightarrow> g \<in> L \<Longrightarrow> f = g" for f g
    using qrep_inj [OF r q] by (metis inj_onD)
  have hinj: "hd_node s j = hd_node s k \<Longrightarrow> j \<in> K \<Longrightarrow> k \<in> K \<Longrightarrow> j = k" for j k
    using qrep_head_inj [OF r q] by (metis inj_onD)
  show ?thesis
    unfolding qrep_def
  proof (intro conjI)
    show "\<forall>k\<in>K. chain (next_of s') (hd_node s' k) (map (pk s') ((V(q := es)) k))"
    proof
      fix k assume k: "k \<in> K"
      have "chain (next_of s) (hd_node s' k) (map (pk s) ((V(q := es)) k))"
        using qrep_chain [OF r k] V by (cases "k = q") (simp_all add: hd')
      then show "chain (next_of s') (hd_node s' k) (map (pk s') ((V(q := es)) k))"
        by (simp only: mp [OF k] nx')
    qed
    show "\<forall>k\<in>K. cq_tail (rt_queues s' k) = last (hd_node s' k # map (pk s') ((V(q := es)) k))"
    proof
      fix k assume k: "k \<in> K"
      have "cq_tail (rt_queues s k) = last (hd_node s' k # map (pk s) ((V(q := es)) k))"
        using qrep_tail [OF r k] V by (cases "k = q") (simp_all add: hd')
      then show "cq_tail (rt_queues s' k) = last (hd_node s' k # map (pk s') ((V(q := es)) k))"
        by (simp only: mp [OF k] tl')
    qed
    show "\<forall>k\<in>K. set ((V(q := es)) k) \<subseteq> L \<and> distinct ((V(q := es)) k)"
      using qrep_sub [OF r] qrep_distinct [OF r] qrep_sub [OF r q] qrep_distinct [OF r q] V by auto
    show "\<forall>j\<in>K. \<forall>k\<in>K. j \<noteq> k \<longrightarrow> set ((V(q := es)) j) \<inter> set ((V(q := es)) k) = {}"
      using W qrep_disjoint [OF r] by blast
    show "\<forall>k\<in>K. \<forall>f\<in>set ((V(q := es)) k). nd_value (rt_nodes s' (pk s' f)) = Some f"
    proof (intro ballI)
      fix k f assume k: "k \<in> K" and f: "f \<in> set ((V(q := es)) k)"
      then have "f \<noteq> e" "f \<in> set (V k)" "f \<in> L"
        using W [OF k] qrep_sub [OF r k] by blast+
      then show "nd_value (rt_nodes s' (pk s' f)) = Some f"
        using hL [OF q, of f] qrep_value [OF r k, of f] by (auto simp: pk' vl')
    qed
    show "inj_on (pk s') L"
    proof (rule inj_onI, unfold pk')
      fix f g assume "f \<in> L" "g \<in> L"
        and "(if f = e then ?h else pk s f) = (if g = e then ?h else pk s g)"
      then show "f = g" using hL [OF q] inj by metis
    qed
    show "inj_on (hd_node s') K"
    proof (rule inj_onI, unfold hd')
      fix j k assume "j \<in> K" "k \<in> K"
        and "(if j = q then pk s e else hd_node s j) = (if k = q then pk s e else hd_node s k)"
      then show "j = k" using hL eL hinj by metis
    qed
    show "\<forall>k\<in>K. hd_node s' k \<notin> pk s' ` L"
    proof (intro ballI notI, unfold pk' hd', elim imageE)
      fix k f assume "k \<in> K" "f \<in> L"
        and "(if k = q then pk s e else hd_node s k) = (if f = e then ?h else pk s f)"
      then show False using hL eL q inj hinj by metis
    qed
  qed
qed

section \<open>The queues implement the interface\<close>

interpretation cq: fifo_family cq_add cq_poll "qrep K L" K L for K L
proof unfold_locales
  fix s :: "'z rt_scheme" and V k e es
  assume "qrep K L s V" "k \<in> K" "V k = e # es"
  then show "\<exists>s'. cq_poll k s = Some (Some e, s') \<and> qrep K L s' (V(k := es))"
    using qrep_poll cq_poll_nonempty by blast
qed (auto simp: qrep_add cq_poll_empty qrep_sub qrep_distinct)

text \<open>
  A queue that has just been constructed is empty. \<open>n\<close> is the address of its new dummy node,
  so nothing else lives there.
\<close>

lemma qrep_ctor:
  assumes r: "qrep K L s V" and q: "q \<notin> K" and n: "n \<notin> pk s ` L" "n \<notin> hd_node s ` K"
  shows "qrep (insert q K) L (cq_ctor q n s) (V(q := []))"
proof -
  have fld: "rt_fibers (cq_ctor q n s) = rt_fibers s"
      "hd_node (cq_ctor q n s) k = (if k = q then n else hd_node s k)"
      "cq_tail (rt_queues (cq_ctor q n s) k) = (if k = q then n else cq_tail (rt_queues s k))"
      "rt_nodes (cq_ctor q n s) m =
         (if m = n then \<lparr>nd_value = None, nd_next = None\<rparr> else rt_nodes s m)" for k m
    by (auto simp: cq_ctor_def)
  have old: "n \<notin> set (hd_node s k # map (pk s) (V k))" if "k \<in> K" for k
    using n qrep_sub [OF r that] that by auto
  have ch: "chain (next_of (cq_ctor q n s)) (hd_node s k) (map (pk s) (V k))" if "k \<in> K" for k
  proof (rule chain_frame [OF qrep_chain [OF r that]])
    fix m assume "m \<in> set (hd_node s k # map (pk s) (V k))"
    then show "next_of (cq_ctor q n s) m = next_of s m"
      using old [OF that] by (metis fld(4))
  qed
  have vl: "nd_value (rt_nodes (cq_ctor q n s) (pk s f)) = Some f" if "k \<in> K" "f \<in> set (V k)" for k f
    using qrep_value [OF r that] old [OF that(1)] that(2) by (auto simp: fld)
  show ?thesis
    using r n q ch vl unfolding qrep_def
    by (auto simp: fld inj_on_def)
qed

end
