(* ===== verification/Fiber_Resume.thy ===== *)
theory Fiber_Resume
  imports Fiber_Queue
begin

text \<open>
  \<open>EFiber::swapIn\<close> (src/EFiber.cpp): how a parked fiber becomes runnable again. Every wake-up
  of the library ends here: a blocker that hands over a permit, a file event and a timer. The
  theory shows that a parked fiber is put into the queue of its thread exactly once, however
  many wake-ups reach it, and that the null pointers on the way are never followed.
\<close>

section \<open>The code\<close>

text \<open>
  \<open>EIoWaiter::signal\<close> writes one byte to the pipe of the waiter. The pipe is taken to have room: the capacity of a
  pipe, and a \<open>write\<close> that blocks or fails because it is full, are not modelled.
\<close>

definition EIoWaiter_signal :: "wptr \<Rightarrow> 'z rt_scheme \<Rightarrow> 'z rt_scheme" where
  "EIoWaiter_signal w s = s\<lparr>rt_signals := (rt_signals s)(w := rt_signals s w + 1)\<rparr>"

text \<open>
  \<open>t\<close> is the id of the calling thread. The result is \<open>None\<close> if the code would follow a null
  \<open>boundQueue\<close>, \<open>packing->value\<close> or \<open>iowaiter\<close>.
\<close>

definition EFiber_swapIn :: "tid \<Rightarrow> fptr \<Rightarrow> 'z rt_scheme \<Rightarrow> 'z rt_scheme option" where
  "EFiber_swapIn t f s =
     (let st = fb_state (rt_fibers s f) in
      if st = WAITING \<or> st = BLOCKED then
        (let s1 = upd_fiber f (\<lambda>fb. fb\<lparr>fb_blocker := None\<rparr>) s;
             s2 = upd_fiber f (\<lambda>fb. fb\<lparr>fb_state := RUNNABLE\<rparr>) s1
         in case fb_boundQueue (rt_fibers s2 f) of
              None \<Rightarrow> None
            | Some q \<Rightarrow>
                (case nd_value (rt_nodes s2 (fb_packing (rt_fibers s2 f))) of
                   None \<Rightarrow> None
                 | Some e \<Rightarrow>
                     (let s3 = cq_add q e s2 in
                      if t \<noteq> fb_boundThreadID (rt_fibers s3 f) \<and> st = BLOCKED then
                        (case fb_iowaiter (rt_fibers s3 f) of
                           None \<Rightarrow> None
                         | Some w \<Rightarrow> Some (EIoWaiter_signal w s3))
                      else Some s3)))
      else Some s)"

lemma EIoWaiter_signal_simps [simp, upd_simps]:
  "rt_fibers (EIoWaiter_signal w s) = rt_fibers s"
  "rt_nodes (EIoWaiter_signal w s) = rt_nodes s"
  "rt_queues (EIoWaiter_signal w s) = rt_queues s"
  "rt_signals (EIoWaiter_signal w s) = (rt_signals s)(w := rt_signals s w + 1)"
  "rt_idCounter (EIoWaiter_signal w s) = rt_idCounter s"
  "rt.more (EIoWaiter_signal w s) = rt.more s"
  by (simp_all add: EIoWaiter_signal_def)

section \<open>States that agree on the queues\<close>

text \<open>\<open>qrep\<close> only looks at packing nodes, nodes and queues.\<close>

lemma qrep_cong:
  assumes "qrep K L s V"
    and "\<And>f. fb_packing (rt_fibers s' f) = fb_packing (rt_fibers s f)"
    and "rt_nodes s' = rt_nodes s" and "rt_queues s' = rt_queues s"
  shows "qrep K L s' V"
  using assms(1) unfolding qrep_def assms(2-4) by blast

lemma qrep_upd_fiber:
  "qrep K L s V \<Longrightarrow> (\<And>fb. fb_packing (g fb) = fb_packing fb) \<Longrightarrow> qrep K L (upd_fiber f g s) V"
  by (erule qrep_cong) auto

section \<open>Parked fibers\<close>

text \<open>
  What the scheduler has set up for a fiber when it runs it, and what therefore holds while
  the fiber is parked: its queue, its io waiter, and the holder in its packing node.
\<close>

definition bound :: "qptr set \<Rightarrow> fptr \<Rightarrow> 'z rt_scheme \<Rightarrow> bool" where
  "bound K f s \<longleftrightarrow>
     (\<exists>q\<in>K. fb_boundQueue (rt_fibers s f) = Some q) \<and>
     fb_iowaiter (rt_fibers s f) \<noteq> None \<and>
     nd_value (rt_nodes s (pk s f)) = Some f"

definition parked :: "fptr \<Rightarrow> 'z rt_scheme \<Rightarrow> bool" where
  "parked f s \<longleftrightarrow> fb_state (rt_fibers s f) = WAITING \<or> fb_state (rt_fibers s f) = BLOCKED"

lemma swapIn_not_parked: "\<not> parked f s \<Longrightarrow> EFiber_swapIn t f s = Some s"
  by (simp add: EFiber_swapIn_def parked_def Let_def)

text \<open>The state in which the queue operation of \<open>swapIn\<close> happens.\<close>

definition awake :: "fptr \<Rightarrow> 'z rt_scheme \<Rightarrow> 'z rt_scheme" where
  "awake f s = upd_fiber f (\<lambda>fb. fb\<lparr>fb_blocker := None, fb_state := RUNNABLE\<rparr>) s"

lemma awake_simps [simp]:
  "fb_packing (rt_fibers (awake f s) g) = fb_packing (rt_fibers s g)"
  "fb_boundQueue (rt_fibers (awake f s) g) = fb_boundQueue (rt_fibers s g)"
  "fb_iowaiter (rt_fibers (awake f s) g) = fb_iowaiter (rt_fibers s g)"
  "fb_boundThreadID (rt_fibers (awake f s) g) = fb_boundThreadID (rt_fibers s g)"
  "fb_state (rt_fibers (awake f s) g) = (if g = f then RUNNABLE else fb_state (rt_fibers s g))"
  "rt_nodes (awake f s) = rt_nodes s"
  "rt_queues (awake f s) = rt_queues s"
  "rt_signals (awake f s) = rt_signals s"
  "rt.more (awake f s) = rt.more s"
  by (simp_all add: awake_def)

lemma swapIn_parked:
  assumes "parked f s" "bound K f s"
  shows "\<exists>q w. q \<in> K \<and> fb_boundQueue (rt_fibers s f) = Some q \<and>
     fb_iowaiter (rt_fibers s f) = Some w \<and>
     EFiber_swapIn t f s = Some
       (if t \<noteq> fb_boundThreadID (rt_fibers s f) \<and> fb_state (rt_fibers s f) = BLOCKED
        then EIoWaiter_signal w (cq_add q f (awake f s)) else cq_add q f (awake f s))"
proof -
  obtain q w where q: "q \<in> K" "fb_boundQueue (rt_fibers s f) = Some q"
    and w: "fb_iowaiter (rt_fibers s f) = Some w"
    and v: "nd_value (rt_nodes s (pk s f)) = Some f"
    using assms(2) by (auto simp: bound_def)
  have a: "upd_fiber f (\<lambda>fb. fb\<lparr>fb_state := RUNNABLE\<rparr>) (upd_fiber f (\<lambda>fb. fb\<lparr>fb_blocker := None\<rparr>) s)
      = awake f s"
    by (simp add: awake_def upd_fiber_def)
  show ?thesis
    using assms(1) q w v unfolding EFiber_swapIn_def Let_def a
    by (auto simp: parked_def cq_add_fields)
qed

lemma swapIn_rep:
  assumes r: "qrep K L s V" and f: "f \<in> L" "\<forall>k\<in>K. f \<notin> set (V k)"
    and p: "parked f s" and b: "bound K f s"
  shows "\<exists>s' q. EFiber_swapIn t f s = Some s' \<and> q \<in> K \<and> fb_boundQueue (rt_fibers s f) = Some q \<and>
     qrep K L s' (V(q := V q @ [f])) \<and> fb_state (rt_fibers s' f) = RUNNABLE \<and>
     (\<forall>g. g \<noteq> f \<longrightarrow> rt_fibers s' g = rt_fibers s g)"
proof -
  obtain q w where q: "q \<in> K" "fb_boundQueue (rt_fibers s f) = Some q" and e: "EFiber_swapIn t f s =
      Some (if t \<noteq> fb_boundThreadID (rt_fibers s f) \<and> fb_state (rt_fibers s f) = BLOCKED
        then EIoWaiter_signal w (cq_add q f (awake f s)) else cq_add q f (awake f s))"
    using swapIn_parked [OF p b, of t] by blast
  have "qrep K L (awake f s) V"
    by (rule qrep_cong [OF r]) simp_all
  then have "qrep K L (cq_add q f (awake f s)) (V(q := V q @ [f]))"
    using qrep_add q(1) f by blast
  moreover then have "qrep K L (EIoWaiter_signal w (cq_add q f (awake f s))) (V(q := V q @ [f]))"
    by (rule qrep_cong) simp_all
  ultimately show ?thesis
    using e q by (auto simp: cq_add_fields awake_def)
qed

text \<open>Being bound is kept by the queue operations, also for fibers they move.\<close>

lemma bound_add:
  assumes "qrep K L s V" "q \<in> K" "g \<in> L" "e \<in> L" "bound K g s"
  shows "bound K g (cq_add q e s)"
proof -
  have "pk s g = pk s e \<Longrightarrow> g = e"
    using qrep_inj [OF assms(1,2)] assms(3,4) by (metis inj_onD)
  then show ?thesis
    using assms(5) by (auto simp: bound_def cq_add_fields)
qed

lemma bound_poll:
  assumes "qrep K L s V" "q \<in> K" "V q = e # es" "g \<in> L" "bound K g s"
    and "cq_poll q s = Some (Some e, s')"
  shows "bound K g s'"
proof -
  have "hd_node s q \<noteq> pk s g"
    using qrep_head [OF assms(1,2)] assms(4) by (metis image_eqI)
  then show ?thesis
    using assms(5,6) cq_poll_nonempty [OF assms(1-3)] by (auto simp: bound_def)
qed

text \<open>A polled fiber owns its packing node, whatever it carried before.\<close>

lemma poll_owns:
  assumes "qrep K L s V" "q \<in> K" "V q = e # es" "cq_poll q s = Some (Some e, s')"
  shows "nd_value (rt_nodes s' (pk s' e)) = Some e"
  using assms(4) cq_poll_nonempty [OF assms(1-3)] by auto

section \<open>New fibers\<close>

lemma qrep_EFiber_ctor:
  assumes r: "qrep K L s V" and f: "f \<notin> L" and n: "n \<notin> pk s ` L" "n \<notin> hd_node s ` K"
  shows "qrep K (insert f L) (EFiber_ctor cf sz f n s) V"
proof -
  let ?t = "EFiber_ctor cf sz f n s"
  have pk': "pk ?t g = (if g = f then n else pk s g)" for g
    by (simp add: EFiber_ctor_def Let_def)
  have nd': "rt_nodes ?t m = (if m = n then \<lparr>nd_value = None, nd_next = None\<rparr> else rt_nodes s m)" for m
    by (simp add: EFiber_ctor_def Let_def)
  have qs: "rt_queues ?t = rt_queues s"
    by (simp add: EFiber_ctor_def Let_def)
  have Vf: "f \<notin> set (V k)" "set (V k) \<subseteq> L" if "k \<in> K" for k
    using qrep_sub [OF r that] f by auto
  then have mp: "map (pk ?t) (V k) = map (pk s) (V k)" if "k \<in> K" for k
    using that by (auto simp: pk')
  have old: "n \<notin> set (hd_node s k # map (pk s) (V k))" if "k \<in> K" for k
    using n Vf [OF that] that by auto
  have ch: "chain (next_of ?t) (hd_node s k) (map (pk s) (V k))" if "k \<in> K" for k
  proof (rule chain_frame [OF qrep_chain [OF r that]])
    fix m assume "m \<in> set (hd_node s k # map (pk s) (V k))"
    then show "next_of ?t m = next_of s m" using old [OF that] by (metis nd')
  qed
  have vl: "nd_value (rt_nodes ?t (pk ?t g)) = Some g" if "k \<in> K" "g \<in> set (V k)" for k g
    using qrep_value [OF r that] old [OF that(1)] that Vf(1) [OF that(1)] by (auto simp: nd' pk')
  have inj: "inj_on (pk ?t) (insert f L)"
  proof (rule inj_onI, unfold pk')
    fix g h assume "g \<in> insert f L" "h \<in> insert f L"
      "(if g = f then n else pk s g) = (if h = f then n else pk s h)"
    then show "g = h"
      using n(1) r unfolding qrep_def by (metis image_eqI inj_onD insertE)
  qed
  have hd: "hd_node s k \<notin> pk ?t ` insert f L" if k: "k \<in> K" for k
  proof
    assume "hd_node s k \<in> pk ?t ` insert f L"
    then obtain g where "g \<in> insert f L" "hd_node s k = (if g = f then n else pk s g)"
      by (auto simp only: pk' image_iff)
    then show False
      using n(2) k qrep_head [OF r k] by (metis image_eqI insertE)
  qed
  show ?thesis
  proof (rule qrepI, unfold qs)
    show "\<And>k. k \<in> K \<Longrightarrow> cq_tail (rt_queues s k) = last (hd_node s k # map (pk ?t) (V k))"
      using qrep_tail [OF r] by (simp only: mp)
    show "\<And>k. k \<in> K \<Longrightarrow> chain (next_of ?t) (hd_node s k) (map (pk ?t) (V k))"
      using ch by (simp only: mp)
    show "inj_on (hd_node s) K" using r unfolding qrep_def by blast
  qed (use Vf qrep_distinct [OF r] qrep_disjoint [OF r] vl inj hd in blast)+
qed

end
