(* ===== verification/Event_Poll.thy ===== *)
theory Event_Poll
  imports Eco_Prelude
begin

text \<open>
  The event loop of src/eco_ae.c with its Linux back end src/eco_ae_epoll.c: the array of file
  events, the list of time events, and one round of \<open>eco_poll_process_events\<close>. The operating
  system (the clock and epoll) is an argument: a record of functions on a kernel state \<open>'k\<close>.
  The callbacks act on a runtime state \<open>'r\<close>; they are arguments as well. A result \<open>None\<close> stands
  for an access outside of the \<open>events\<close> array or a callback that faults.
\<close>

section \<open>Constants and data (eco_ae.h)\<close>

abbreviation (input) ECO_POLL_NONE :: int where "ECO_POLL_NONE \<equiv> 0"
abbreviation (input) ECO_POLL_READABLE :: int where "ECO_POLL_READABLE \<equiv> 1"
abbreviation (input) ECO_POLL_WRITABLE :: int where "ECO_POLL_WRITABLE \<equiv> 2"
abbreviation (input) ECO_POLL_FILE_EVENTS :: int where "ECO_POLL_FILE_EVENTS \<equiv> 1"
abbreviation (input) ECO_POLL_TIME_EVENTS :: int where "ECO_POLL_TIME_EVENTS \<equiv> 2"
abbreviation (input) ECO_POLL_ALL_EVENTS :: int where "ECO_POLL_ALL_EVENTS \<equiv> 3"
abbreviation (input) ECO_POLL_NOMORE :: int where "ECO_POLL_NOMORE \<equiv> -1"
abbreviation (input) ECO_POLL_DELETED_EVENT_ID :: int where "ECO_POLL_DELETED_EVENT_ID \<equiv> -1"

abbreviation (input) EPOLLIN :: int where "EPOLLIN \<equiv> 1"
abbreviation (input) EPOLLOUT :: int where "EPOLLOUT \<equiv> 4"
abbreviation (input) EPOLLERR :: int where "EPOLLERR \<equiv> 8"
abbreviation (input) EPOLLHUP :: int where "EPOLLHUP \<equiv> 16"

text \<open>
  \<open>clientData\<close> is a pointer: null, to a live heap object (here: an owned value \<open>'c\<close>), or to no
  live object any more (never written, or already deleted).
\<close>

datatype 'c cdata = CNull | CLive 'c | CDead

record ('p, 'c) fileEvent =
  fe_mask :: int
  fe_rfileProc :: "'p option"
  fe_wfileProc :: "'p option"
  fe_clientData :: "'c cdata"

record ('t, 'c) timeEvent =
  te_id :: int
  te_when_sec :: int
  te_when_ms :: int
  te_timeProc :: 't
  te_finalizerProc :: "'t option"
  te_clientData :: 'c

record ('p, 'c, 't) poll =
  pl_maxfd :: int
  pl_setsize :: int
  pl_timeEventNextId :: int
  pl_lastTime :: int
  pl_events :: "('p, 'c) fileEvent list"
  pl_timeEvents :: "('t, 'c) timeEvent list"

section \<open>The operating system\<close>

datatype epoll_op = EPOLL_CTL_ADD | EPOLL_CTL_MOD | EPOLL_CTL_DEL

record 'k os =
  os_gettimeofday :: "'k \<Rightarrow> (int \<times> int) \<times> 'k"  \<comment> \<open>seconds and microseconds\<close>
  os_time :: "'k \<Rightarrow> int \<times> 'k"
  os_epoll_ctl :: "epoll_op \<Rightarrow> int \<Rightarrow> int \<Rightarrow> 'k \<Rightarrow> int \<times> 'k"
  os_epoll_wait :: "int \<Rightarrow> int \<Rightarrow> 'k \<Rightarrow> (int \<times> (int \<times> int) list) \<times> 'k"
    \<comment> \<open>maxevents and timeout; the return value and the (fd, events) pairs\<close>

text \<open>What epoll_ctl(2) documents: \<open>interest k fd\<close> is the event set registered for \<open>fd\<close>.\<close>

definition epoll_spec :: "'k os \<Rightarrow> ('k \<Rightarrow> int \<rightharpoonup> int) \<Rightarrow> bool" where
  "epoll_spec os interest \<longleftrightarrow>
     (\<forall>fd ev k r k'. interest k fd = None \<and> os_epoll_ctl os EPOLL_CTL_ADD fd ev k = (r, k') \<longrightarrow>
        (r = -1 \<and> interest k' = interest k) \<or> (r = 0 \<and> interest k' = (interest k)(fd \<mapsto> ev))) \<and>
     (\<forall>fd ev k r k'. interest k fd \<noteq> None \<and> os_epoll_ctl os EPOLL_CTL_MOD fd ev k = (r, k') \<longrightarrow>
        r = 0 \<and> interest k' = (interest k)(fd \<mapsto> ev)) \<and>
     (\<forall>fd ev k r k'. interest k fd \<noteq> None \<and> os_epoll_ctl os EPOLL_CTL_DEL fd ev k = (r, k') \<longrightarrow>
        r = 0 \<and> interest k' = (interest k)(fd := None))"

lemma epoll_add:
  assumes "epoll_spec os interest" "interest k fd = None"
    and "os_epoll_ctl os EPOLL_CTL_ADD fd ev k = (r, k')"
  shows "(r = -1 \<and> interest k' = interest k) \<or> (r = 0 \<and> interest k' = (interest k)(fd \<mapsto> ev))"
proof -
  have "\<forall>fd ev k r k'. interest k fd = None \<and> os_epoll_ctl os EPOLL_CTL_ADD fd ev k = (r, k') \<longrightarrow>
        (r = -1 \<and> interest k' = interest k) \<or> (r = 0 \<and> interest k' = (interest k)(fd \<mapsto> ev))"
    using assms(1) unfolding epoll_spec_def by (elim conjE)
  then show ?thesis using assms(2,3) by blast
qed

lemma epoll_mod:
  assumes "epoll_spec os interest" "interest k fd \<noteq> None"
    and "os_epoll_ctl os EPOLL_CTL_MOD fd ev k = (r, k')"
  shows "r = 0 \<and> interest k' = (interest k)(fd \<mapsto> ev)"
proof -
  have "\<forall>fd ev k r k'. interest k fd \<noteq> None \<and> os_epoll_ctl os EPOLL_CTL_MOD fd ev k = (r, k') \<longrightarrow>
        r = 0 \<and> interest k' = (interest k)(fd \<mapsto> ev)"
    using assms(1) unfolding epoll_spec_def by (elim conjE)
  then show ?thesis using assms(2,3) by blast
qed

lemma epoll_del:
  assumes "epoll_spec os interest" "interest k fd \<noteq> None"
    and "os_epoll_ctl os EPOLL_CTL_DEL fd ev k = (r, k')"
  shows "r = 0 \<and> interest k' = (interest k)(fd := None)"
proof -
  have "\<forall>fd ev k r k'. interest k fd \<noteq> None \<and> os_epoll_ctl os EPOLL_CTL_DEL fd ev k = (r, k') \<longrightarrow>
        r = 0 \<and> interest k' = (interest k)(fd := None)"
    using assms(1) unfolding epoll_spec_def by (elim conjE)
  then show ?thesis using assms(2,3) by blast
qed

section \<open>The epoll back end (eco_ae_epoll.c)\<close>

definition to_epoll :: "int \<Rightarrow> int" where
  "to_epoll msk =
     (if msk AND ECO_POLL_READABLE \<noteq> 0 then EPOLLIN else 0) OR
     (if msk AND ECO_POLL_WRITABLE \<noteq> 0 then EPOLLOUT else 0)"

definition from_epoll :: "int \<Rightarrow> int" where
  "from_epoll ev =
     (if ev AND EPOLLIN \<noteq> 0 then ECO_POLL_READABLE else 0) OR
     (if ev AND EPOLLOUT \<noteq> 0 then ECO_POLL_WRITABLE else 0) OR
     (if ev AND EPOLLERR \<noteq> 0 then ECO_POLL_WRITABLE else 0) OR
     (if ev AND EPOLLHUP \<noteq> 0 then ECO_POLL_WRITABLE else 0)"

abbreviation ev_mask :: "('p, 'c, 't) poll \<Rightarrow> int \<Rightarrow> int" where
  "ev_mask p fd \<equiv> fe_mask (pl_events p ! nat fd)"

definition aeApiAddEvent :: "'k os \<Rightarrow> ('p, 'c, 't) poll \<Rightarrow> int \<Rightarrow> int \<Rightarrow> 'k \<Rightarrow> int \<times> 'k" where
  "aeApiAddEvent os p fd msk k =
     (let opr = (if ev_mask p fd = ECO_POLL_NONE then EPOLL_CTL_ADD else EPOLL_CTL_MOD);
          m = msk OR ev_mask p fd;
          (r, k') = os_epoll_ctl os opr fd (to_epoll m) k
      in (if r = -1 then -1 else 0, k'))"

definition aeApiUpdEvent :: "'k os \<Rightarrow> ('p, 'c, 't) poll \<Rightarrow> int \<Rightarrow> int \<Rightarrow> 'k \<Rightarrow> int \<times> 'k" where
  "aeApiUpdEvent os p fd msk k =
     (let opr = (if ev_mask p fd = ECO_POLL_NONE then EPOLL_CTL_ADD else EPOLL_CTL_MOD);
          (r, k') = os_epoll_ctl os opr fd (to_epoll msk) k
      in (if r = -1 then -1 else 0, k'))"

definition aeApiDelEvent :: "'k os \<Rightarrow> ('p, 'c, 't) poll \<Rightarrow> int \<Rightarrow> int \<Rightarrow> 'k \<Rightarrow> 'k" where
  "aeApiDelEvent os p fd delmask k =
     (let msk = ev_mask p fd AND NOT delmask in
      if msk \<noteq> ECO_POLL_NONE then snd (os_epoll_ctl os EPOLL_CTL_MOD fd (to_epoll msk) k)
      else snd (os_epoll_ctl os EPOLL_CTL_DEL fd (to_epoll msk) k))"

text \<open>
  \<open>tvp\<close> is \<open>None\<close> for an infinite wait, else seconds and microseconds. The milliseconds are computed as a
  \<open>long\<close> and passed as the \<open>int\<close> that epoll_wait takes.
\<close>

definition aeApiPoll :: "'k os \<Rightarrow> ('p, 'c, 't) poll \<Rightarrow> (int \<times> int) option \<Rightarrow> 'k \<Rightarrow>
    (int \<times> int) list \<times> 'k" where
  "aeApiPoll os p tvp k =
     (let tmo = int32 (case tvp of Some (s, us) \<Rightarrow> s * 1000 + us sdiv 1000 | None \<Rightarrow> -1);
          ((retval, evs), k') = os_epoll_wait os (pl_setsize p) tmo k
      in (if retval > 0 then map (\<lambda>(fd, ev). (fd, from_epoll ev)) (take (nat retval) evs) else [], k'))"

section \<open>File events (eco_ae.c)\<close>

definition eco_poll_create :: "int \<Rightarrow> int \<Rightarrow> ('p, 'c, 't) poll" where
  "eco_poll_create setsize now =
     \<lparr>pl_maxfd = -1, pl_setsize = setsize, pl_timeEventNextId = 0, pl_lastTime = now,
      pl_events = replicate (nat setsize)
        \<lparr>fe_mask = ECO_POLL_NONE, fe_rfileProc = None, fe_wfileProc = None, fe_clientData = CDead\<rparr>,
      pl_timeEvents = []\<rparr>"

text \<open>The writes to \<open>poll->events[fd]\<close> and \<open>maxfd\<close> that create and update have in common.\<close>

definition store_event :: "('p, 'c, 't) poll \<Rightarrow> int \<Rightarrow> int \<Rightarrow> 'p \<Rightarrow> 'c cdata \<Rightarrow> ('p, 'c, 't) poll" where
  "store_event p fd msk proc cd =
     (let fe = pl_events p ! nat fd;
          fe1 = fe\<lparr>fe_mask := fe_mask fe OR msk\<rparr>;
          fe2 = (if msk AND ECO_POLL_READABLE \<noteq> 0 then fe1\<lparr>fe_rfileProc := Some proc\<rparr> else fe1);
          fe3 = (if msk AND ECO_POLL_WRITABLE \<noteq> 0 then fe2\<lparr>fe_wfileProc := Some proc\<rparr> else fe2);
          fe4 = fe3\<lparr>fe_clientData := cd\<rparr>;
          p1 = p\<lparr>pl_events := (pl_events p)[nat fd := fe4]\<rparr>
      in if fd > pl_maxfd p then p1\<lparr>pl_maxfd := fd\<rparr> else p1)"

text \<open>The results: \<open>None\<close> for a negative \<open>fd\<close> (the array is left), \<open>False\<close> for \<open>ES_FAILURE\<close>.\<close>

definition eco_poll_file_event_create :: "'k os \<Rightarrow> ('p, 'c, 't) poll \<Rightarrow> int \<Rightarrow> int \<Rightarrow> 'p \<Rightarrow> 'c cdata \<Rightarrow>
    'k \<Rightarrow> ((bool \<times> ('p, 'c, 't) poll) \<times> 'k) option" where
  "eco_poll_file_event_create os p fd msk proc cd k =
     (if fd \<ge> pl_setsize p then Some ((False, p), k)
      else if fd < 0 then None
      else (let (r, k') = aeApiAddEvent os p fd msk k in
            if r = -1 then Some ((False, p), k')
            else Some ((True, store_event p fd msk proc cd), k')))"

definition eco_poll_file_event_update :: "'k os \<Rightarrow> ('p, 'c, 't) poll \<Rightarrow> int \<Rightarrow> int \<Rightarrow> 'p \<Rightarrow> 'c cdata \<Rightarrow>
    'k \<Rightarrow> ((bool \<times> ('p, 'c, 't) poll) \<times> 'k) option" where
  "eco_poll_file_event_update os p fd msk proc cd k =
     (if fd \<ge> pl_setsize p then Some ((False, p), k)
      else if fd < 0 then None
      else (let (r, k') = aeApiUpdEvent os p fd msk k in
            if r = -1 then Some ((False, p), k')
            else Some ((True, store_event p fd msk proc cd), k')))"

text \<open>The loop that looks for the new \<open>maxfd\<close>: \<open>j\<close> runs from \<open>maxfd - 1\<close> down to 0.\<close>

fun scan_maxfd :: "('p, 'c) fileEvent list \<Rightarrow> nat \<Rightarrow> int" where
  "scan_maxfd evs 0 = -1"
| "scan_maxfd evs (Suc j) = (if fe_mask (evs ! j) \<noteq> ECO_POLL_NONE then int j else scan_maxfd evs j)"

definition eco_poll_file_event_delete :: "'k os \<Rightarrow> ('p, 'c, 't) poll \<Rightarrow> int \<Rightarrow> int \<Rightarrow> 'k \<Rightarrow>
    (('p, 'c, 't) poll \<times> 'k) option" where
  "eco_poll_file_event_delete os p fd msk k =
     (if fd \<ge> pl_setsize p then Some (p, k)
      else if fd < 0 then None
      else if ev_mask p fd = ECO_POLL_NONE then Some (p, k)
      else (let fe = pl_events p ! nat fd;
                fe1 = fe\<lparr>fe_mask := fe_mask fe AND NOT msk\<rparr>;
                p1 = p\<lparr>pl_events := (pl_events p)[nat fd := fe1]\<rparr>;
                p2 = (if fd = pl_maxfd p1 \<and> fe_mask fe1 = ECO_POLL_NONE
                      then p1\<lparr>pl_maxfd := scan_maxfd (pl_events p1) (nat (pl_maxfd p1))\<rparr> else p1)
            in Some (p2, aeApiDelEvent os p2 fd msk k)))"

definition eco_poll_get_file_events :: "('p, 'c, 't) poll \<Rightarrow> int \<Rightarrow> int option" where
  "eco_poll_get_file_events p fd =
     (if fd \<ge> pl_setsize p then Some 0 else if fd < 0 then None else Some (ev_mask p fd))"

definition eco_poll_resize :: "('p, 'c, 't) poll \<Rightarrow> int \<Rightarrow> int \<times> ('p, 'c, 't) poll" where
  "eco_poll_resize p setsize =
     (if setsize = pl_setsize p then (0, p)
      else if pl_maxfd p \<ge> setsize then (-1, p)
      else (let blank = \<lparr>fe_mask = ECO_POLL_NONE, fe_rfileProc = None, fe_wfileProc = None,
                         fe_clientData = CDead\<rparr>;
                evs = take (nat setsize) (pl_events p) @
                      replicate (nat setsize - length (pl_events p)) blank;
                evs' = map (\<lambda>(i, fe). if i > pl_maxfd p then fe\<lparr>fe_mask := ECO_POLL_NONE\<rparr> else fe)
                         (zip (map int [0..<length evs]) evs)
            in (0, p\<lparr>pl_events := evs', pl_setsize := setsize\<rparr>)))"

end
