(* ===== verification/Event_Timers.thy ===== *)
theory Event_Timers
  imports Event_Poll "HOL-Library.Sublist"
begin

text \<open>
  The time events of src/eco_ae.c and one round of the event loop. The singly linked list that
  starts at \<open>timeEventHead\<close> is the list \<open>pl_timeEvents\<close>; new events go to its front. Times are
  pairs of seconds and milliseconds, as in the code.
\<close>

section \<open>Clock arithmetic\<close>

definition aeGetTime :: "'k os \<Rightarrow> 'k \<Rightarrow> (int \<times> int) \<times> 'k" where
  "aeGetTime os k = (let ((s, us), k') = os_gettimeofday os k in ((s, us sdiv 1000), k'))"

text \<open>The part of \<open>aeAddMillisecondsToNow\<close> after the clock has been read.\<close>

definition add_millis :: "int \<times> int \<Rightarrow> int \<Rightarrow> int \<times> int" where
  "add_millis now msecs =
     (let (cur_sec, cur_ms) = now;
          when_sec = cur_sec + msecs sdiv 1000;
          when_ms = cur_ms + msecs smod 1000
      in if when_ms \<ge> 1000 then (when_sec + 1, when_ms - 1000) else (when_sec, when_ms))"

definition aeAddMillisecondsToNow :: "'k os \<Rightarrow> int \<Rightarrow> 'k \<Rightarrow> (int \<times> int) \<times> 'k" where
  "aeAddMillisecondsToNow os msecs k =
     (let (now, k') = aeGetTime os k in (add_millis now msecs, k'))"

section \<open>Creating, deleting and firing\<close>

definition eco_poll_time_event_create :: "'k os \<Rightarrow> ('p, 'c, 't) poll \<Rightarrow> int \<Rightarrow> 't \<Rightarrow> 'c \<Rightarrow> 't option \<Rightarrow>
    'k \<Rightarrow> (int \<times> ('p, 'c, 't) poll) \<times> 'k" where
  "eco_poll_time_event_create os p msecs proc cd fin k =
     (let i = pl_timeEventNextId p;
          ((ws, wms), k') = aeAddMillisecondsToNow os msecs k;
          te = \<lparr>te_id = i, te_when_sec = ws, te_when_ms = wms, te_timeProc = proc,
                te_finalizerProc = fin, te_clientData = cd\<rparr>
      in ((i, p\<lparr>pl_timeEventNextId := i + 1, pl_timeEvents := te # pl_timeEvents p\<rparr>), k'))"

text \<open>Deleting only marks the first event with this id; the list walk stops there.\<close>

fun mark_deleted :: "int \<Rightarrow> ('t, 'c) timeEvent list \<Rightarrow> bool \<times> ('t, 'c) timeEvent list" where
  "mark_deleted i [] = (False, [])"
| "mark_deleted i (te # tes) =
     (if te_id te = i then (True, te\<lparr>te_id := ECO_POLL_DELETED_EVENT_ID\<rparr> # tes)
      else (let (r, tes') = mark_deleted i tes in (r, te # tes')))"

definition eco_poll_time_event_delete :: "('p, 'c, 't) poll \<Rightarrow> int \<Rightarrow> bool \<times> ('p, 'c, 't) poll" where
  "eco_poll_time_event_delete p i =
     (let (r, tes) = mark_deleted i (pl_timeEvents p) in (r, p\<lparr>pl_timeEvents := tes\<rparr>))"

definition eco_poll_time_fire_all :: "'k os \<Rightarrow> ('p, 'c, 't) poll \<Rightarrow> 'k \<Rightarrow> ('p, 'c, 't) poll \<times> 'k" where
  "eco_poll_time_fire_all os p k =
     (let ((cur_sec, cur_ms), k') = aeGetTime os k
      in (p\<lparr>pl_timeEvents := map (\<lambda>te. if te_id te \<noteq> ECO_POLL_DELETED_EVENT_ID
                then te\<lparr>te_when_sec := cur_sec, te_when_ms := cur_ms\<rparr> else te) (pl_timeEvents p)\<rparr>, k'))"

section \<open>The nearest timer and the wait\<close>

fun nearest_from :: "('t, 'c) timeEvent option \<Rightarrow> ('t, 'c) timeEvent list \<Rightarrow> ('t, 'c) timeEvent option" where
  "nearest_from nearest [] = nearest"
| "nearest_from nearest (te # tes) =
     (case nearest of
        None \<Rightarrow> nearest_from (Some te) tes
      | Some n \<Rightarrow>
          (if te_when_sec te < te_when_sec n \<or>
              (te_when_sec te = te_when_sec n \<and> te_when_ms te < te_when_ms n)
           then nearest_from (Some te) tes else nearest_from (Some n) tes))"

definition aeSearchNearestTimer :: "('p, 'c, 't) poll \<Rightarrow> ('t, 'c) timeEvent option" where
  "aeSearchNearestTimer p = nearest_from None (pl_timeEvents p)"

text \<open>How long to wait for the timer \<open>te\<close>, as seconds and microseconds.\<close>

definition timer_wait :: "('t, 'c) timeEvent \<Rightarrow> int \<times> int \<Rightarrow> int \<times> int" where
  "timer_wait te now =
     (let (now_sec, now_ms) = now;
          s = te_when_sec te - now_sec;
          (s1, us) = (if te_when_ms te < now_ms
                      then (s - 1, ((te_when_ms te + 1000) - now_ms) * 1000)
                      else (s, (te_when_ms te - now_ms) * 1000));
          s2 = (if s1 < 0 then 0 else s1);
          us2 = (if us < 0 then 0 else us)
      in (s2, us2))"

section \<open>processTimeEvents\<close>

text \<open>
  One walk over the list. The nodes up to and including \<open>prev\<close> are \<open>acc\<close>; \<open>skip\<close> are nodes after
  \<open>prev\<close> that were passed without moving \<open>prev\<close> (the branch for events that are newer than
  this round), which an unlink \<open>prev->next = te->next\<close> then drops together with \<open>te\<close>.
  \<open>tcall\<close> and \<open>fcall\<close> are the effects of the time procedures and of the finalizers.
\<close>

fun time_loop :: "'k os \<Rightarrow> ('t \<Rightarrow> int \<Rightarrow> 'c \<Rightarrow> 'r \<Rightarrow> (int \<times> 'r) option) \<Rightarrow>
    ('t \<Rightarrow> 'c \<Rightarrow> 'r \<Rightarrow> 'r option) \<Rightarrow> int \<Rightarrow> ('t, 'c) timeEvent list \<Rightarrow> ('t, 'c) timeEvent list \<Rightarrow>
    ('t, 'c) timeEvent list \<Rightarrow> int \<Rightarrow> 'k \<Rightarrow> 'r \<Rightarrow> (int \<times> ('t, 'c) timeEvent list \<times> 'k \<times> 'r) option" where
  "time_loop os tcall fcall maxId acc skip [] n k r = Some (n, acc @ skip, k, r)"
| "time_loop os tcall fcall maxId acc skip (te # tes) n k r =
     (if te_id te = ECO_POLL_DELETED_EVENT_ID then
        (case te_finalizerProc te of
           None \<Rightarrow> time_loop os tcall fcall maxId acc [] tes n k r
         | Some fp \<Rightarrow>
             (case fcall fp (te_clientData te) r of
                None \<Rightarrow> None
              | Some r' \<Rightarrow> time_loop os tcall fcall maxId acc [] tes n k r'))
      else if te_id te > maxId then time_loop os tcall fcall maxId acc (skip @ [te]) tes n k r
      else
        (let ((now_sec, now_ms), k1) = aeGetTime os k in
         if now_sec > te_when_sec te \<or> (now_sec = te_when_sec te \<and> now_ms \<ge> te_when_ms te) then
           (case tcall (te_timeProc te) (te_id te) (te_clientData te) r of
              None \<Rightarrow> None
            | Some (retval, r') \<Rightarrow>
                (if retval \<noteq> ECO_POLL_NOMORE then
                   (let ((ws, wms), k2) = aeAddMillisecondsToNow os retval k1 in
                    time_loop os tcall fcall maxId
                      (acc @ skip @ [te\<lparr>te_when_sec := ws, te_when_ms := wms\<rparr>]) [] tes (n + 1) k2 r')
                 else time_loop os tcall fcall maxId
                      (acc @ skip @ [te\<lparr>te_id := ECO_POLL_DELETED_EVENT_ID\<rparr>]) [] tes (n + 1) k1 r'))
         else time_loop os tcall fcall maxId (acc @ skip @ [te]) [] tes n k1 r))"

definition processTimeEvents :: "'k os \<Rightarrow> ('t \<Rightarrow> int \<Rightarrow> 'c \<Rightarrow> 'r \<Rightarrow> (int \<times> 'r) option) \<Rightarrow>
    ('t \<Rightarrow> 'c \<Rightarrow> 'r \<Rightarrow> 'r option) \<Rightarrow> ('p, 'c, 't) poll \<Rightarrow> 'k \<Rightarrow> 'r \<Rightarrow>
    (int \<times> ('p, 'c, 't) poll \<times> 'k \<times> 'r) option" where
  "processTimeEvents os tcall fcall p k r =
     (let (now, k1) = os_time os k;
          tes = (if now < pl_lastTime p then map (\<lambda>te. te\<lparr>te_when_sec := 0\<rparr>) (pl_timeEvents p)
                 else pl_timeEvents p)
      in case time_loop os tcall fcall (pl_timeEventNextId p - 1) [] [] tes 0 k1 r of
           None \<Rightarrow> None
         | Some (n, tes', k', r') \<Rightarrow>
             Some (n, p\<lparr>pl_lastTime := now, pl_timeEvents := tes'\<rparr>, k', r'))"

section \<open>One round\<close>

text \<open>The dispatch of the fired file events. The callbacks do not touch the \<open>events\<close> array.\<close>

fun dispatch :: "('p \<Rightarrow> int \<Rightarrow> 'c cdata \<Rightarrow> int \<Rightarrow> 'r \<Rightarrow> 'r option) \<Rightarrow> ('p, 'c, 't) poll \<Rightarrow>
    (int \<times> int) list \<Rightarrow> int \<Rightarrow> 'r \<Rightarrow> (int \<times> 'r) option" where
  "dispatch pcall p [] n r = Some (n, r)"
| "dispatch pcall p ((fd, msk) # fired) n r =
     (if fd < 0 \<or> nat fd \<ge> length (pl_events p) then None
      else
       (let fe = pl_events p ! nat fd;
            rfired = (fe_mask fe AND msk AND ECO_POLL_READABLE \<noteq> 0);
            r1 = (if rfired then
                    (case fe_rfileProc fe of Some rp \<Rightarrow> pcall rp fd (fe_clientData fe) msk r
                     | None \<Rightarrow> Some r)
                  else Some r)
        in case r1 of
             None \<Rightarrow> None
           | Some r' \<Rightarrow>
               (let r2 = (if fe_mask fe AND msk AND ECO_POLL_WRITABLE \<noteq> 0 then
                            (case fe_wfileProc fe of
                               Some wp \<Rightarrow>
                                 (if \<not> rfired \<or> fe_wfileProc fe \<noteq> fe_rfileProc fe
                                  then pcall wp fd (fe_clientData fe) msk r' else Some r')
                             | None \<Rightarrow> Some r')
                          else Some r')
                in case r2 of
                     None \<Rightarrow> None
                   | Some r'' \<Rightarrow> dispatch pcall p fired (n + 1) r'')))"

definition wait_timeout :: "'k os \<Rightarrow> ('p, 'c, 't) poll \<Rightarrow> int \<Rightarrow> int \<Rightarrow> 'k \<Rightarrow> (int \<times> int) option \<times> 'k" where
  "wait_timeout os p flags timeout k =
     (let shortest = (if flags AND ECO_POLL_TIME_EVENTS \<noteq> 0 \<and> timeout \<noteq> 0
                      then aeSearchNearestTimer p else None)
      in case shortest of
           Some te \<Rightarrow> (let (now, k') = aeGetTime os k in (Some (timer_wait te now), k'))
         | None \<Rightarrow>
             (if timeout > 0 then (Some (timeout sdiv 1000, (timeout smod 1000) * 1000), k)
              else if timeout = 0 then (Some (0, 0), k)
              else (None, k)))"

definition eco_poll_process_events :: "'k os \<Rightarrow>
    ('p \<Rightarrow> int \<Rightarrow> 'c cdata \<Rightarrow> int \<Rightarrow> 'r \<Rightarrow> 'r option) \<Rightarrow>
    ('t \<Rightarrow> int \<Rightarrow> 'c \<Rightarrow> 'r \<Rightarrow> (int \<times> 'r) option) \<Rightarrow> ('t \<Rightarrow> 'c \<Rightarrow> 'r \<Rightarrow> 'r option) \<Rightarrow>
    ('p, 'c, 't) poll \<Rightarrow> int \<Rightarrow> int \<Rightarrow> 'k \<Rightarrow> 'r \<Rightarrow> (int \<times> ('p, 'c, 't) poll \<times> 'k \<times> 'r) option" where
  "eco_poll_process_events os pcall tcall fcall p flags timeout k r =
     (if \<not> (flags AND ECO_POLL_TIME_EVENTS \<noteq> 0) \<and> \<not> (flags AND ECO_POLL_FILE_EVENTS \<noteq> 0)
      then Some (0, p, k, r)
      else
       (let files =
              (if pl_maxfd p \<noteq> -1 \<or> (flags AND ECO_POLL_TIME_EVENTS \<noteq> 0 \<and> timeout \<noteq> 0) then
                 (let (tvp, k1) = wait_timeout os p flags timeout k;
                      (fired, k2) = aeApiPoll os p tvp k1
                  in map_option (\<lambda>(n, r'). (n, k2, r')) (dispatch pcall p fired 0 r))
               else Some (0, k, r))
        in case files of
             None \<Rightarrow> None
           | Some (n, k', r') \<Rightarrow>
               (if flags AND ECO_POLL_TIME_EVENTS \<noteq> 0 then
                  map_option (\<lambda>(m, p', k'', r''). (n + m, p', k'', r''))
                    (processTimeEvents os tcall fcall p k' r')
                else Some (n, p, k', r'))))"

section \<open>Clock lemmas\<close>

abbreviation millis_of :: "int \<times> int \<Rightarrow> int" where
  "millis_of t \<equiv> fst t * 1000 + snd t"

abbreviation te_millis :: "('t, 'c) timeEvent \<Rightarrow> int" where
  "te_millis te \<equiv> te_when_sec te * 1000 + te_when_ms te"

lemma add_millis_sum:
  assumes "0 \<le> msecs" "0 \<le> snd now" "snd now < 1000"
  shows "millis_of (add_millis now msecs) = millis_of now + msecs"
    and "0 \<le> snd (add_millis now msecs)" and "snd (add_millis now msecs) < 1000"
proof -
  have m: "msecs sdiv 1000 = msecs div 1000" "msecs smod 1000 = msecs mod 1000"
    using assms(1) by (cases "msecs = 0"; simp add: signed_divide_int_def signed_modulo_int_def)+
  have d: "msecs = 1000 * (msecs div 1000) + msecs mod 1000" "0 \<le> msecs mod 1000" "msecs mod 1000 < 1000"
    by simp_all
  show "millis_of (add_millis now msecs) = millis_of now + msecs"
    using d(1) by (simp add: add_millis_def m Let_def split: prod.split)
  show "0 \<le> snd (add_millis now msecs)" "snd (add_millis now msecs) < 1000"
    using assms d(2,3) by (auto simp: add_millis_def m Let_def split: prod.split)
qed

lemma timer_wait_exact:
  assumes "0 \<le> te_when_ms te" "te_when_ms te < 1000" "0 \<le> snd now" "snd now < 1000"
    and "millis_of now \<le> te_millis te"
  shows "fst (timer_wait te now) * 1000000 + snd (timer_wait te now) = (te_millis te - millis_of now) * 1000"
  using assms by (cases now) (auto simp: timer_wait_def Let_def algebra_simps split: if_splits)

lemma timer_wait_late:
  assumes "0 \<le> te_when_ms te" "te_when_ms te < 1000" "0 \<le> snd now" "snd now < 1000"
    and "te_millis te \<le> millis_of now"
  shows "fst (timer_wait te now) = 0" "0 \<le> snd (timer_wait te now)" "snd (timer_wait te now) < 1000000"
  using assms by (cases now; auto simp: timer_wait_def Let_def algebra_simps split: if_splits)+

section \<open>The nearest timer\<close>

lemma nearest_from_mem:
  "nearest_from n tes = Some te \<Longrightarrow> te \<in> set tes \<or> n = Some te"
  by (induction n tes rule: nearest_from.induct) (auto split: option.splits if_splits)

abbreviation ms_ok :: "('t, 'c) timeEvent \<Rightarrow> bool" where
  "ms_ok te \<equiv> 0 \<le> te_when_ms te \<and> te_when_ms te < 1000"

lemma nearest_from_Some_min:
  "nearest_from (Some y) tes = Some te \<Longrightarrow> ms_ok y \<Longrightarrow> \<forall>x\<in>set tes. ms_ok x \<Longrightarrow>
     te_millis te \<le> te_millis y \<and> (\<forall>x\<in>set tes. te_millis te \<le> te_millis x)"
proof (induction tes arbitrary: y)
  case Nil
  then show ?case by simp
next
  case (Cons x tes)
  show ?case
  proof (cases "te_when_sec x < te_when_sec y \<or> (te_when_sec x = te_when_sec y \<and> te_when_ms x < te_when_ms y)")
    case True
    then have "te_millis x \<le> te_millis y" using Cons.prems(2,3) by auto
    moreover from True have "nearest_from (Some x) tes = Some te" using Cons.prems(1) by simp
    ultimately show ?thesis using Cons.IH [of x] Cons.prems(3) by force
  next
    case False
    then have "te_millis y \<le> te_millis x" using Cons.prems(2,3) by auto
    moreover from False have "nearest_from (Some y) tes = Some te"
      using Cons.prems(1) by (auto split: if_splits)
    ultimately show ?thesis using Cons.IH [of y] Cons.prems(2,3) by force
  qed
qed

lemma nearest_min:
  assumes "aeSearchNearestTimer p = Some te" "\<forall>x\<in>set (pl_timeEvents p). ms_ok x"
    "x \<in> set (pl_timeEvents p)"
  shows "te_millis te \<le> te_millis x"
proof (cases "pl_timeEvents p")
  case (Cons y tes)
  then have "nearest_from (Some y) tes = Some te" using assms(1) by (simp add: aeSearchNearestTimer_def)
  from nearest_from_Some_min [OF this] Cons assms(2,3) show ?thesis by auto
qed (use assms in simp)

lemma nearest_from_None: "nearest_from n tes = None \<longleftrightarrow> n = None \<and> tes = []"
  by (induction n tes rule: nearest_from.induct) (auto split: option.splits)

section \<open>What one walk over the timers does\<close>

text \<open>
  The clock of gettimeofday(2) does not run backwards: \<open>clk k\<close> is the time of day, in
  milliseconds, of the kernel state \<open>k\<close>, and a reading lies between the states before and
  after the call.
\<close>

definition clock_spec :: "'k os \<Rightarrow> ('k \<Rightarrow> int) \<Rightarrow> bool" where
  "clock_spec os clk \<longleftrightarrow>
     (\<forall>k. let ((s, us), k') = os_gettimeofday os k in
        0 \<le> us \<and> us < 1000000 \<and> clk k \<le> s * 1000 + us div 1000 \<and> s * 1000 + us div 1000 \<le> clk k') \<and>
     (\<forall>k. clk k \<le> clk (snd (os_time os k)))"

lemma aeGetTime_spec:
  assumes "clock_spec os clk" "aeGetTime os k = (now, k')"
  shows "clk k \<le> millis_of now" "millis_of now \<le> clk k'" "0 \<le> snd now" "snd now < 1000"
proof -
  obtain s us where g: "os_gettimeofday os k = ((s, us), k')" and n: "now = (s, us sdiv 1000)"
    using assms(2) by (cases "os_gettimeofday os k") (auto simp: aeGetTime_def)
  from assms(1) g have b: "0 \<le> us" "us < 1000000" "clk k \<le> s * 1000 + us div 1000"
      "s * 1000 + us div 1000 \<le> clk k'"
    by (auto simp: clock_spec_def split: prod.splits dest!: spec [of _ k])
  have "us sdiv 1000 = us div 1000"
    using b(1) by (cases "us = 0"; simp add: signed_divide_int_def)
  then show "clk k \<le> millis_of now" "millis_of now \<le> clk k'" "0 \<le> snd now" "snd now < 1000"
    using b n by auto
qed

text \<open>A timer either stays (then it was not due at \<open>lo\<close>) or has fired (then it was due by \<open>hi\<close>).\<close>

definition timer_step :: "int \<Rightarrow> int \<Rightarrow> ('t, 'c) timeEvent \<Rightarrow> ('t, 'c) timeEvent \<Rightarrow> bool" where
  "timer_step lo hi te te' \<longleftrightarrow>
     (te' = te \<and> te_id te \<noteq> ECO_POLL_DELETED_EVENT_ID \<and> lo < te_millis te) \<or>
     (te' = te\<lparr>te_id := ECO_POLL_DELETED_EVENT_ID\<rparr> \<and> te_millis te \<le> hi)"

lemma timer_step_mono: "timer_step lo hi te te' \<Longrightarrow> lo' \<le> lo \<Longrightarrow> hi \<le> hi' \<Longrightarrow> timer_step lo' hi' te te'"
  by (auto simp: timer_step_def)

text \<open>
  The callbacks of a walk: \<open>I\<close> is kept, \<open>Q te\<close> is what firing \<open>te\<close> achieves and what no later
  callback destroys, and no time procedure asks to be re-armed.
\<close>

definition callbacks_ok :: "('t \<Rightarrow> int \<Rightarrow> 'c \<Rightarrow> 'r \<Rightarrow> (int \<times> 'r) option) \<Rightarrow> ('t \<Rightarrow> 'c \<Rightarrow> 'r \<Rightarrow> 'r option) \<Rightarrow>
    ('r \<Rightarrow> bool) \<Rightarrow> (('t, 'c) timeEvent \<Rightarrow> 'r \<Rightarrow> bool) \<Rightarrow> ('t, 'c) timeEvent set \<Rightarrow> bool" where
  "callbacks_ok tcall fcall I Q T \<longleftrightarrow>
     (\<forall>te\<in>T. \<forall>r. I r \<and> te_id te \<noteq> ECO_POLL_DELETED_EVENT_ID \<longrightarrow>
        (\<exists>r'. tcall (te_timeProc te) (te_id te) (te_clientData te) r = Some (ECO_POLL_NOMORE, r') \<and>
           I r' \<and> Q te r' \<and> (\<forall>x. Q x r \<longrightarrow> Q x r'))) \<and>
     (\<forall>te\<in>T. \<forall>r fp. I r \<and> te_finalizerProc te = Some fp \<longrightarrow>
        (\<exists>r'. fcall fp (te_clientData te) r = Some r' \<and> I r' \<and> (\<forall>x. Q x r \<longrightarrow> Q x r')))"

definition walked :: "('k \<Rightarrow> int) \<Rightarrow> ('r \<Rightarrow> bool) \<Rightarrow> (('t, 'c) timeEvent \<Rightarrow> 'r \<Rightarrow> bool) \<Rightarrow>
    ('t, 'c) timeEvent list \<Rightarrow> ('t, 'c) timeEvent list \<Rightarrow> int \<Rightarrow> 'k \<Rightarrow> 'r \<Rightarrow> 'k \<Rightarrow> 'r \<Rightarrow> bool" where
  "walked clk I Q tes out d k r k' r' \<longleftrightarrow>
     I r' \<and> (\<forall>x. Q x r \<longrightarrow> Q x r') \<and> clk k \<le> clk k' \<and>
     list_all2 (timer_step (clk k) (clk k')) [te\<leftarrow>tes. te_id te \<noteq> ECO_POLL_DELETED_EVENT_ID] out \<and>
     d = int (length [te\<leftarrow>out. te_id te = ECO_POLL_DELETED_EVENT_ID]) \<and>
     (\<forall>te\<in>set tes. te_id te \<noteq> ECO_POLL_DELETED_EVENT_ID \<and> te_millis te \<le> clk k \<longrightarrow> Q te r')"

lemma walked_append:
  assumes 1: "walked clk I Q [te] out1 d1 k r k1 r1" and 2: "walked clk I Q tes out2 d2 k1 r1 k2 r2"
  shows "walked clk I Q (te # tes) (out1 @ out2) (d1 + d2) k r k2 r2"
proof -
  have c: "clk k \<le> clk k1" "clk k1 \<le> clk k2"
    and a: "list_all2 (timer_step (clk k) (clk k1)) [te\<leftarrow>[te]. te_id te \<noteq> -1] out1"
    and b: "list_all2 (timer_step (clk k1) (clk k2)) [te\<leftarrow>tes. te_id te \<noteq> -1] out2"
    using 1 2 by (simp_all add: walked_def del: filter.simps)
  have "list_all2 (timer_step (clk k) (clk k2)) [te\<leftarrow>[te]. te_id te \<noteq> -1] out1"
    by (rule list_all2_mono [OF a], erule timer_step_mono) (use c in auto)
  moreover have "list_all2 (timer_step (clk k) (clk k2)) [te\<leftarrow>tes. te_id te \<noteq> -1] out2"
    by (rule list_all2_mono [OF b], erule timer_step_mono) (use c in auto)
  ultimately have "list_all2 (timer_step (clk k) (clk k2)) [te\<leftarrow>te # tes. te_id te \<noteq> -1] (out1 @ out2)"
    using list_all2_appendI by fastforce
  with 1 2 c show ?thesis by (auto simp: walked_def simp del: filter.simps)
qed

text \<open>One node of the list.\<close>

lemma time_loop_step:
  assumes clock: "clock_spec os clk" and old: "te_id te \<le> maxId" "ms_ok te"
    and cb: "callbacks_ok tcall fcall I Q {te}" and "I r"
  shows "\<exists>out d k1 r1. time_loop os tcall fcall maxId acc [] (te # tes) n k r =
      time_loop os tcall fcall maxId (acc @ out) [] tes (n + d) k1 r1 \<and> walked clk I Q [te] out d k r k1 r1"
proof (cases "te_id te = -1")
  case True
  have "\<exists>r1. (case te_finalizerProc te of None \<Rightarrow> Some r | Some fp \<Rightarrow> fcall fp (te_clientData te) r) = Some r1
      \<and> I r1 \<and> (\<forall>x. Q x r \<longrightarrow> Q x r1)"
    using cb \<open>I r\<close> by (cases "te_finalizerProc te") (auto simp: callbacks_ok_def)
  then obtain r1 where r1: "(case te_finalizerProc te of None \<Rightarrow> Some r
      | Some fp \<Rightarrow> fcall fp (te_clientData te) r) = Some r1" "I r1" "\<forall>x. Q x r \<longrightarrow> Q x r1"
    by blast
  then have "time_loop os tcall fcall maxId acc [] (te # tes) n k r
      = time_loop os tcall fcall maxId (acc @ []) [] tes (n + 0) k r1"
    using True by (auto split: option.splits)
  moreover have "walked clk I Q [te] [] 0 k r k r1" using r1 True by (simp add: walked_def)
  ultimately show ?thesis by blast
next
  case False
  obtain now k1 where g: "aeGetTime os k = (now, k1)" by (cases "aeGetTime os k")
  note gt = aeGetTime_spec [OF clock g]
  have due: "te_millis te \<le> millis_of now \<longleftrightarrow>
      fst now > te_when_sec te \<or> (fst now = te_when_sec te \<and> snd now \<ge> te_when_ms te)"
    using old(2) gt(3,4) by auto
  show ?thesis
  proof (cases "te_millis te \<le> millis_of now")
    case True
    obtain r1 where r1: "tcall (te_timeProc te) (te_id te) (te_clientData te) r = Some (-1, r1)" "I r1"
        "Q te r1" "\<forall>x. Q x r \<longrightarrow> Q x r1"
      using cb \<open>I r\<close> False unfolding callbacks_ok_def by blast
    have "time_loop os tcall fcall maxId acc [] (te # tes) n k r
        = time_loop os tcall fcall maxId (acc @ [te\<lparr>te_id := -1\<rparr>]) [] tes (n + 1) k1 r1"
      using False True due g r1(1) old(1) by (cases now) auto
    moreover have "walked clk I Q [te] [te\<lparr>te_id := -1\<rparr>] 1 k r k1 r1"
      using r1 False True gt by (simp add: walked_def timer_step_def)
    ultimately show ?thesis by blast
  next
    case notdue: False
    have "time_loop os tcall fcall maxId acc [] (te # tes) n k r
        = time_loop os tcall fcall maxId (acc @ [te]) [] tes (n + 0) k1 r"
      using False notdue due g old(1) by (cases now) auto
    moreover have "walked clk I Q [te] [te] 0 k r k1 r"
      using False notdue gt \<open>I r\<close> by (simp add: walked_def timer_step_def)
    ultimately show ?thesis by blast
  qed
qed

lemma time_loop_walked:
  assumes clock: "clock_spec os clk"
  shows "\<forall>te\<in>set tes. te_id te \<le> maxId \<and> ms_ok te \<Longrightarrow> callbacks_ok tcall fcall I Q (set tes) \<Longrightarrow> I r \<Longrightarrow>
    \<exists>d out k' r'. time_loop os tcall fcall maxId acc [] tes n k r = Some (n + d, acc @ out, k', r') \<and>
      walked clk I Q tes out d k r k' r'"
proof (induction tes arbitrary: acc n k r)
  case Nil
  then show ?case by (auto simp: walked_def)
next
  case (Cons te tes)
  have cb: "callbacks_ok tcall fcall I Q {te}" "callbacks_ok tcall fcall I Q (set tes)"
    using Cons.prems(2) by (auto simp: callbacks_ok_def)
  obtain out1 d1 k1 r1 where s: "time_loop os tcall fcall maxId acc [] (te # tes) n k r =
      time_loop os tcall fcall maxId (acc @ out1) [] tes (n + d1) k1 r1" "walked clk I Q [te] out1 d1 k r k1 r1"
    using time_loop_step [OF clock _ _ cb(1) Cons.prems(3)] Cons.prems(1)
    by (meson list.set_intros(1))
  then have "I r1" by (simp add: walked_def)
  from Cons.IH [OF _ cb(2) this] Cons.prems(1)
  obtain d2 out2 k2 r2 where h: "time_loop os tcall fcall maxId (acc @ out1) [] tes (n + d1) k1 r1 =
      Some (n + d1 + d2, (acc @ out1) @ out2, k2, r2)" "walked clk I Q tes out2 d2 k1 r1 k2 r2"
    by (metis list.set_intros(2))
  have "walked clk I Q (te # tes) (out1 @ out2) (d1 + d2) k r k2 r2"
    by (rule walked_append [OF s(2) h(2)])
  with s(1) h(1) show ?case by (metis add.assoc append.assoc)
qed

text \<open>
  The whole of \<open>processTimeEvents\<close>. The list that is walked is the list of timers, all of them
  moved to the past when the coarse clock has gone backwards.
\<close>

definition live_ids :: "('t, 'c) timeEvent list \<Rightarrow> int list" where
  "live_ids tes = [i\<leftarrow>map te_id tes. i \<noteq> ECO_POLL_DELETED_EVENT_ID]"

definition timers_wf :: "('p, 'c, 't) poll \<Rightarrow> bool" where
  "timers_wf p \<longleftrightarrow> 0 \<le> pl_timeEventNextId p \<and> distinct (live_ids (pl_timeEvents p)) \<and>
     (\<forall>te\<in>set (pl_timeEvents p). -1 \<le> te_id te \<and> te_id te < pl_timeEventNextId p \<and> ms_ok te)"

definition skew_list :: "int \<Rightarrow> ('p, 'c, 't) poll \<Rightarrow> ('t, 'c) timeEvent list" where
  "skew_list now p =
     (if now < pl_lastTime p then map (\<lambda>te. te\<lparr>te_when_sec := 0\<rparr>) (pl_timeEvents p) else pl_timeEvents p)"

lemma skew_list_mem:
  "te \<in> set (skew_list now p) \<Longrightarrow>
     \<exists>x\<in>set (pl_timeEvents p). te = x \<or> te = x\<lparr>te_when_sec := 0\<rparr>"
  by (auto simp: skew_list_def split: if_splits)

lemma skew_list_ids: "live_ids (skew_list now p) = live_ids (pl_timeEvents p)"
  by (simp add: skew_list_def live_ids_def comp_def)

lemma skew_list_due:
  assumes "te \<in> set (pl_timeEvents p)" "0 \<le> te_when_sec te"
  shows "\<exists>x\<in>set (skew_list now p). te_id x = te_id te \<and> te_clientData x = te_clientData te \<and>
     te_millis x \<le> te_millis te"
  using assms by (auto simp: skew_list_def)

lemma processTimeEvents_walked:
  assumes clock: "clock_spec os clk" and wf: "timers_wf p"
    and cb: "callbacks_ok tcall fcall I Q (set (skew_list (fst (os_time os k)) p))" and "I r"
  shows "\<exists>d out k' r'. processTimeEvents os tcall fcall p k r =
      Some (d, p\<lparr>pl_lastTime := fst (os_time os k), pl_timeEvents := out\<rparr>, k', r') \<and>
      clk k \<le> clk (snd (os_time os k)) \<and>
      walked clk I Q (skew_list (fst (os_time os k)) p) out d (snd (os_time os k)) r k' r'"
proof -
  obtain now k1 where o: "os_time os k = (now, k1)" by (cases "os_time os k")
  have "te_id te \<le> pl_timeEventNextId p - 1 \<and> ms_ok te" if "te \<in> set (skew_list now p)" for te
    using skew_list_mem [OF that] wf by (auto simp: timers_wf_def)
  then have m: "\<forall>te\<in>set (skew_list now p). te_id te \<le> pl_timeEventNextId p - 1 \<and> ms_ok te" by blast
  have cb': "callbacks_ok tcall fcall I Q (set (skew_list now p))" using cb o by simp
  have "\<exists>d out k' r'. time_loop os tcall fcall (pl_timeEventNextId p - 1) [] [] (skew_list now p) 0 k1 r
      = Some (0 + d, [] @ out, k', r') \<and> walked clk I Q (skew_list now p) out d k1 r k' r'"
    by (rule time_loop_walked [OF clock m cb' \<open>I r\<close>])
  then obtain d out k' r' where t: "time_loop os tcall fcall (pl_timeEventNextId p - 1) [] [] (skew_list now p) 0 k1 r
      = Some (d, out, k', r')" "walked clk I Q (skew_list now p) out d k1 r k' r'"
    by auto
  have "clk k \<le> clk k1" using clock o by (auto simp: clock_spec_def dest!: spec [of _ k])
  moreover have "processTimeEvents os tcall fcall p k r =
      Some (d, p\<lparr>pl_lastTime := now, pl_timeEvents := out\<rparr>, k', r')"
    using t(1) by (simp add: processTimeEvents_def o skew_list_def)
  ultimately show ?thesis using t(2) o by auto
qed

text \<open>
  Which callbacks a walk makes, in which order: the finalizer of each timer that was deleted before, and the
  time procedure of each one that has fired, by the list \<open>tes\<close> before and the list \<open>out\<close> after the walk.
\<close>

datatype 'c timer_call = Fired int | Finalized 'c

fun walk_calls :: "('t, 'c) timeEvent list \<Rightarrow> ('t, 'c) timeEvent list \<Rightarrow> 'c timer_call list" where
  "walk_calls [] out = []"
| "walk_calls (te # tes) out =
     (if te_id te = ECO_POLL_DELETED_EVENT_ID then
        (if te_finalizerProc te = None then [] else [Finalized (te_clientData te)]) @ walk_calls tes out
      else (case out of
              [] \<Rightarrow> []
            | te' # out' \<Rightarrow> (if te_id te' = ECO_POLL_DELETED_EVENT_ID then [Fired (te_id te)] else []) @ walk_calls tes out'))"

text \<open>\<open>calls\<close> reads off the state which callbacks have been made: each adds itself.\<close>

definition records_calls :: "('t \<Rightarrow> int \<Rightarrow> 'c \<Rightarrow> 'r \<Rightarrow> (int \<times> 'r) option) \<Rightarrow> ('t \<Rightarrow> 'c \<Rightarrow> 'r \<Rightarrow> 'r option) \<Rightarrow>
    ('r \<Rightarrow> 'c timer_call list) \<Rightarrow> bool" where
  "records_calls tcall fcall calls \<longleftrightarrow>
     (\<forall>t i c r v r'. tcall t i c r = Some (v, r') \<longrightarrow> calls r' = calls r @ [Fired i]) \<and>
     (\<forall>t c r r'. fcall t c r = Some r' \<longrightarrow> calls r' = calls r @ [Finalized c])"

lemma time_loop_calls:
  assumes rc: "records_calls tcall fcall calls"
  shows "time_loop os tcall fcall maxId acc [] tes n k r = Some (n', res, k', r') \<Longrightarrow>
    \<forall>te\<in>set tes. te_id te \<le> maxId \<Longrightarrow> callbacks_ok tcall fcall I Q (set tes) \<Longrightarrow> I r \<Longrightarrow>
    \<exists>out. res = acc @ out \<and> calls r' = calls r @ walk_calls tes out"
proof (induction tes arbitrary: acc n k r)
  case Nil
  then show ?case by auto
next
  case (Cons te tes)
  have cb: "callbacks_ok tcall fcall I Q (set tes)" and m: "te_id te \<le> maxId" "\<forall>te\<in>set tes. te_id te \<le> maxId"
    using Cons.prems(2,3) by (auto simp: callbacks_ok_def)
  show ?case
  proof (cases "te_id te = -1")
    case True
    show ?thesis
    proof (cases "te_finalizerProc te")
      case None
      then show ?thesis using Cons.IH [OF _ m(2) cb Cons.prems(4)] Cons.prems(1) True by auto
    next
      case (Some fp)
      then obtain r1 where r1: "fcall fp (te_clientData te) r = Some r1" "I r1"
        using Cons.prems(3,4) unfolding callbacks_ok_def by (meson list.set_intros(1))
      then have "calls r1 = calls r @ [Finalized (te_clientData te)]" using rc unfolding records_calls_def by blast
      then show ?thesis using Cons.IH [OF _ m(2) cb r1(2)] Cons.prems(1) True Some r1(1) by auto
    qed
  next
    case False
    obtain now k1 where g: "aeGetTime os k = (now, k1)" by fastforce
    show ?thesis
    proof (cases "fst now > te_when_sec te \<or> (fst now = te_when_sec te \<and> snd now \<ge> te_when_ms te)")
      case True
      obtain r1 where r1: "tcall (te_timeProc te) (te_id te) (te_clientData te) r = Some (-1, r1)" "I r1"
        using Cons.prems(3,4) False unfolding callbacks_ok_def by (meson list.set_intros(1))
      then have c: "calls r1 = calls r @ [Fired (te_id te)]" using rc unfolding records_calls_def by blast
      have "time_loop os tcall fcall maxId (acc @ [te\<lparr>te_id := -1\<rparr>]) [] tes (n + 1) k1 r1 = Some (n', res, k', r')"
        using Cons.prems(1) False True g r1(1) m(1) by (cases now) auto
      from Cons.IH [OF this m(2) cb r1(2)] c False show ?thesis by auto
    next
      case notdue: False
      have "time_loop os tcall fcall maxId (acc @ [te]) [] tes n k1 r = Some (n', res, k', r')"
        using Cons.prems(1) False notdue g m(1) by (cases now) auto
      from Cons.IH [OF this m(2) cb Cons.prems(4)] False show ?thesis by auto
    qed
  qed
qed

lemma processTimeEvents_calls:
  assumes rc: "records_calls tcall fcall calls" and wf: "timers_wf p"
    and cb: "callbacks_ok tcall fcall I Q (set (skew_list (fst (os_time os k)) p))" and "I r"
    and e: "processTimeEvents os tcall fcall p k r = Some (d, p', k', r')"
  shows "calls r' = calls r @ walk_calls (skew_list (fst (os_time os k)) p) (pl_timeEvents p')"
proof -
  obtain now k1 where o: "os_time os k = (now, k1)" by fastforce
  have m: "\<forall>te\<in>set (skew_list now p). te_id te \<le> pl_timeEventNextId p - 1"
    using skew_list_mem [of _ now p] wf by (fastforce simp: timers_wf_def)
  obtain out where t: "time_loop os tcall fcall (pl_timeEventNextId p - 1) [] [] (skew_list now p) 0 k1 r = Some (d, out, k', r')"
    "p' = p\<lparr>pl_lastTime := now, pl_timeEvents := out\<rparr>"
    using e by (auto simp: processTimeEvents_def o skew_list_def split: option.splits if_splits)
  have cb': "callbacks_ok tcall fcall I Q (set (skew_list now p))" using cb o by simp
  from time_loop_calls [OF rc t(1) m cb' \<open>I r\<close>] t(2) o show ?thesis by auto
qed

lemma walked_out:
  assumes "walked clk I Q tes out d k r k' r'" "te \<in> set out"
  shows "\<exists>x\<in>set tes. (te = x \<and> te_id x \<noteq> -1) \<or> te = x\<lparr>te_id := -1\<rparr>"
  using assms list_all2_right_mem unfolding walked_def by (fastforce simp: timer_step_def)

lemma timer_steps_ids: "list_all2 (timer_step lo hi) xs ys \<Longrightarrow> subseq (live_ids ys) (live_ids xs)"
  by (induction rule: list_all2_induct) (auto simp: timer_step_def live_ids_def)

lemma live_ids_filter: "live_ids [te\<leftarrow>tes. te_id te \<noteq> -1] = live_ids tes"
  by (induction tes) (simp_all add: live_ids_def)

lemma walked_ids:
  assumes "walked clk I Q tes out d k r k' r'"
  shows "subseq (live_ids out) (live_ids tes)"
  using timer_steps_ids [of "clk k" "clk k'" _ out] assms unfolding walked_def
  by (metis live_ids_filter)

lemma subseq_distinct: "subseq xs ys \<Longrightarrow> distinct ys \<Longrightarrow> distinct xs"
  by (induction rule: list_emb.induct) (auto dest: list_emb_set)

lemma walked_timers_wf:
  assumes "timers_wf p" "walked clk I Q (skew_list now p) out d k r k' r'"
  shows "timers_wf (p\<lparr>pl_lastTime := now, pl_timeEvents := out\<rparr>)"
proof -
  have "-1 \<le> te_id te \<and> te_id te < pl_timeEventNextId p \<and> ms_ok te" if te: "te \<in> set out" for te
  proof -
    obtain x where x: "x \<in> set (skew_list now p)" "te = x \<or> te = x\<lparr>te_id := -1\<rparr>"
      using walked_out [OF assms(2) te] by blast
    obtain y where y: "y \<in> set (pl_timeEvents p)" "x = y \<or> x = y\<lparr>te_when_sec := 0\<rparr>"
      using skew_list_mem [OF x(1)] by blast
    have "-1 \<le> te_id y \<and> te_id y < pl_timeEventNextId p \<and> ms_ok y" "0 \<le> pl_timeEventNextId p"
      using assms(1) y(1) unfolding timers_wf_def by blast+
    then show ?thesis using x(2) y(2) by auto
  qed
  moreover have "distinct (live_ids out)"
    using walked_ids [OF assms(2)] assms(1) subseq_distinct unfolding skew_list_ids timers_wf_def by blast
  ultimately show ?thesis using assms(1) by (simp add: timers_wf_def)
qed

section \<open>Setting up and cancelling\<close>

lemma aeAdd_spec:
  assumes "clock_spec os clk" "aeAddMillisecondsToNow os msecs k = (due, k')" "0 \<le> msecs"
  shows "clk k + msecs \<le> millis_of due" "millis_of due \<le> clk k' + msecs" "0 \<le> snd due" "snd due < 1000"
proof -
  obtain now where g: "aeGetTime os k = (now, k')" and d: "due = add_millis now msecs"
    using assms(2) by (auto simp: aeAddMillisecondsToNow_def split: prod.splits)
  note gt = aeGetTime_spec [OF assms(1) g]
  show "clk k + msecs \<le> millis_of due" "millis_of due \<le> clk k' + msecs" "0 \<le> snd due" "snd due < 1000"
    using add_millis_sum [OF assms(3) gt(3,4)] gt(1,2) unfolding d by linarith+
qed

lemma time_event_create_spec:
  assumes clock: "clock_spec os clk" and wf: "timers_wf p" and ms: "0 \<le> msecs"
    and c: "eco_poll_time_event_create os p msecs proc cd fin k = ((i, p'), k')"
  shows "timers_wf p'" "i = pl_timeEventNextId p" "pl_events p' = pl_events p" "pl_setsize p' = pl_setsize p"
    "pl_maxfd p' = pl_maxfd p"
    "\<exists>te. pl_timeEvents p' = te # pl_timeEvents p \<and> te_id te = i \<and> te_timeProc te = proc \<and>
       te_finalizerProc te = fin \<and> te_clientData te = cd \<and>
       clk k + msecs \<le> te_millis te \<and> te_millis te \<le> clk k' + msecs"
proof -
  obtain due where a: "aeAddMillisecondsToNow os msecs k = (due, k')"
    and p': "i = pl_timeEventNextId p" "p' = p\<lparr>pl_timeEventNextId := i + 1, pl_timeEvents :=
        \<lparr>te_id = i, te_when_sec = fst due, te_when_ms = snd due, te_timeProc = proc,
          te_finalizerProc = fin, te_clientData = cd\<rparr> # pl_timeEvents p\<rparr>"
    using c by (auto simp: eco_poll_time_event_create_def Let_def split: prod.splits)
  note ad = aeAdd_spec [OF clock a ms]
  have "i \<notin> set (live_ids (pl_timeEvents p))" using wf p'(1) by (auto simp: timers_wf_def live_ids_def)
  then show "timers_wf p'"
    using wf ad(3,4) unfolding p' timers_wf_def by (auto simp: live_ids_def)
  show "i = pl_timeEventNextId p" "pl_events p' = pl_events p" "pl_setsize p' = pl_setsize p"
    "pl_maxfd p' = pl_maxfd p" using p' by simp_all
  show "\<exists>te. pl_timeEvents p' = te # pl_timeEvents p \<and> te_id te = i \<and> te_timeProc te = proc \<and>
       te_finalizerProc te = fin \<and> te_clientData te = cd \<and>
       clk k + msecs \<le> te_millis te \<and> te_millis te \<le> clk k' + msecs"
    using ad(1,2) unfolding p' by simp
qed

lemma mark_deleted_spec:
  assumes "distinct (live_ids tes)" "i \<noteq> -1"
  shows "fst (mark_deleted i tes) = (i \<in> set (live_ids tes))"
    and "live_ids (snd (mark_deleted i tes)) = [j\<leftarrow>live_ids tes. j \<noteq> i]"
    and "list_all2 (\<lambda>te te'. te' = (if te_id te = i then te\<lparr>te_id := -1\<rparr> else te)) tes (snd (mark_deleted i tes))"
  using assms
proof (induction tes)
  case Nil
  case 1 show ?case by (simp add: live_ids_def)
  case 2 show ?case by (simp add: live_ids_def)
  case 3 show ?case by simp
next
  case (Cons te tes)
  have d: "distinct (live_ids tes)" if "distinct (live_ids (te # tes))"
    using that by (auto simp: live_ids_def split: if_splits)
  have n: "i \<notin> set (live_ids tes)" if "distinct (live_ids (te # tes))" "te_id te = i" "i \<noteq> -1"
    using that by (auto simp: live_ids_def)
  have f: "[j\<leftarrow>live_ids tes. j \<noteq> i] = live_ids tes" if "i \<notin> set (live_ids tes)"
    using that by (induction tes) (auto simp: live_ids_def)
  have same: "list_all2 (\<lambda>te te'. te' = (if te_id te = i then te\<lparr>te_id := -1\<rparr> else te)) tes tes"
    if "i \<notin> set (live_ids tes)" "i \<noteq> -1"
    using that by (auto simp: list_all2_same live_ids_def)
  case 1
  then show ?case using d [OF 1(1)] Cons.IH(1) by (auto simp: live_ids_def split: prod.split)
  case 2
  show ?case
  proof (cases "te_id te = i")
    case True
    then show ?thesis using f [OF n [OF 2(1) True 2(2)]] 2(2) by (simp add: live_ids_def)
  next
    case False
    have "live_ids (snd (mark_deleted i (te # tes))) =
        (if te_id te \<noteq> -1 then [te_id te] else []) @ live_ids (snd (mark_deleted i tes))"
      using False by (simp add: live_ids_def split: prod.split)
    then show ?thesis using Cons.IH(2) [OF d [OF 2(1)] 2(2)] False by (simp add: live_ids_def)
  qed
  case 3
  then show ?case using same n d Cons.IH(3) by (auto split: prod.splits)
qed

end
