(* ===== verification/Event_Files.thy ===== *)
theory Event_Files
  imports Event_Poll
begin

text \<open>
  Facts on the file events of src/eco_ae.c: \<open>maxfd\<close> is always the highest registered descriptor,
  and the interest set that epoll holds is the one that the \<open>events\<close> array records.
\<close>

section \<open>The invariant\<close>

definition poll_wf :: "('p, 'c, 't) poll \<Rightarrow> bool" where
  "poll_wf p \<longleftrightarrow>
     0 \<le> pl_setsize p \<and> length (pl_events p) = nat (pl_setsize p) \<and>
     -1 \<le> pl_maxfd p \<and> pl_maxfd p < pl_setsize p \<and>
     (\<forall>fd. pl_maxfd p < fd \<and> fd < pl_setsize p \<longrightarrow> ev_mask p fd = ECO_POLL_NONE) \<and>
     (pl_maxfd p = -1 \<or> ev_mask p (pl_maxfd p) \<noteq> ECO_POLL_NONE)"

definition synced :: "('k \<Rightarrow> int \<rightharpoonup> int) \<Rightarrow> ('p, 'c, 't) poll \<Rightarrow> 'k \<Rightarrow> bool" where
  "synced interest p k \<longleftrightarrow>
     (\<forall>fd. 0 \<le> fd \<and> fd < pl_setsize p \<longrightarrow>
        interest k fd = (if ev_mask p fd = ECO_POLL_NONE then None else Some (to_epoll (ev_mask p fd)))) \<and>
     (\<forall>fd. interest k fd \<noteq> None \<longrightarrow> 0 \<le> fd \<and> fd < pl_setsize p)"

lemma syncedD:
  assumes "synced interest p k" "0 \<le> fd" "fd < pl_setsize p"
  shows "ev_mask p fd = 0 \<Longrightarrow> interest k fd = None" and "ev_mask p fd \<noteq> 0 \<Longrightarrow> interest k fd \<noteq> None"
  using assms unfolding synced_def by (metis option.distinct(1))+

lemma or_nonzero: "(m :: int) \<noteq> 0 \<Longrightarrow> x OR m \<noteq> 0"
  by (simp add: or_eq_0_iff)

lemma store_event_simps [simp, poll_simps]:
  "pl_setsize (store_event p fd msk proc cd) = pl_setsize p"
  "pl_timeEvents (store_event p fd msk proc cd) = pl_timeEvents p"
  "pl_timeEventNextId (store_event p fd msk proc cd) = pl_timeEventNextId p"
  "pl_lastTime (store_event p fd msk proc cd) = pl_lastTime p"
  "pl_maxfd (store_event p fd msk proc cd) = max (pl_maxfd p) fd"
  "length (pl_events (store_event p fd msk proc cd)) = length (pl_events p)"
  by (simp_all add: store_event_def Let_def)

lemma store_event_mask:
  assumes "0 \<le> fd" "nat fd < length (pl_events p)" "0 \<le> i"
  shows "ev_mask (store_event p fd msk proc cd) i = (if i = fd then ev_mask p fd OR msk else ev_mask p i)"
  using assms by (auto simp: store_event_def Let_def nth_list_update eq_nat_nat_iff)

lemma store_event_data:
  assumes "nat fd < length (pl_events p)"
  shows "fe_clientData (pl_events (store_event p fd msk proc cd) ! nat fd) = cd"
  using assms by (auto simp: store_event_def Let_def)

lemma poll_wf_create: "0 \<le> setsize \<Longrightarrow> poll_wf (eco_poll_create setsize now)"
  by (simp add: poll_wf_def eco_poll_create_def)

lemma poll_wf_store:
  assumes "poll_wf p" "0 \<le> fd" "fd < pl_setsize p" "msk \<noteq> 0"
  shows "poll_wf (store_event p fd msk proc cd)"
proof -
  have l: "nat fd < length (pl_events p)" using assms by (simp add: poll_wf_def)
  note sm = store_event_mask [OF assms(2) l]
  show ?thesis
    unfolding poll_wf_def store_event_simps
  proof (intro conjI allI impI)
    fix i assume i: "max (pl_maxfd p) fd < i \<and> i < pl_setsize p"
    then have "0 \<le> i" using assms(2) by simp
    then show "ev_mask (store_event p fd msk proc cd) i = 0"
      using i assms(1) by (simp add: sm poll_wf_def)
  next
    show "max (pl_maxfd p) fd = -1 \<or> ev_mask (store_event p fd msk proc cd) (max (pl_maxfd p) fd) \<noteq> 0"
    proof (cases "pl_maxfd p \<le> fd")
      case True
      then show ?thesis using sm [OF assms(2)] or_nonzero [OF assms(4)] by (simp add: max_def)
    next
      case False
      then show ?thesis using assms(1,2) sm [of "pl_maxfd p"] by (simp add: max_def poll_wf_def)
    qed
  qed (use assms in \<open>auto simp: poll_wf_def\<close>)
qed

section \<open>Registration\<close>

lemma synced_upd:
  assumes "synced interest p k" "interest k' = (interest k)(fd \<mapsto> to_epoll (ev_mask p' fd))"
    and "pl_setsize p' = pl_setsize p" "ev_mask p' fd \<noteq> 0"
    and "\<And>i. 0 \<le> i \<Longrightarrow> i \<noteq> fd \<Longrightarrow> ev_mask p' i = ev_mask p i"
    and "0 \<le> fd" "fd < pl_setsize p"
  shows "synced interest p' k'"
  using assms unfolding synced_def by (metis fun_upd_apply)

lemma synced_del:
  assumes "synced interest p k" "interest k' = (interest k)(fd := None)"
    and "pl_setsize p' = pl_setsize p" "ev_mask p' fd = 0"
    and "\<And>i. 0 \<le> i \<Longrightarrow> i \<noteq> fd \<Longrightarrow> ev_mask p' i = ev_mask p i"
  shows "synced interest p' k'"
  using assms unfolding synced_def by (metis fun_upd_apply)

lemma synced_cong:
  assumes "synced interest p k" "interest k' = interest k"
  shows "synced interest p k'"
  using assms(1) unfolding synced_def assms(2) .

lemma file_event_create_spec:
  assumes ep: "epoll_spec os interest" and wf: "poll_wf p" and sy: "synced interest p k"
    and m: "msk \<noteq> 0" and fd: "0 \<le> fd"
  shows "\<exists>ok p' k'. eco_poll_file_event_create os p fd msk proc cd k = Some ((ok, p'), k') \<and>
     poll_wf p' \<and> synced interest p' k' \<and>
     (ok \<longrightarrow> fd < pl_setsize p \<and> p' = store_event p fd msk proc cd) \<and>
     (\<not> ok \<longrightarrow> p' = p \<and> (fd \<ge> pl_setsize p \<or> ev_mask p fd = 0))"
proof (cases "fd \<ge> pl_setsize p")
  case True
  then show ?thesis using wf sy
    by (intro exI [of _ False] exI [of _ p] exI [of _ k]) (simp add: eco_poll_file_event_create_def)
next
  case inr: False
  then have l: "nat fd < length (pl_events p)" using wf fd by (simp add: poll_wf_def)
  define p' where p': "p' = store_event p fd msk proc cd"
  have ms: "ev_mask p' fd = ev_mask p fd OR msk"
    "\<And>i. 0 \<le> i \<Longrightarrow> i \<noteq> fd \<Longrightarrow> ev_mask p' i = ev_mask p i"
    using store_event_mask [OF fd l] fd unfolding p' by simp_all
  have pos: "ev_mask p' fd \<noteq> 0" using ms(1) or_nonzero [OF m] by simp
  have ad: "aeApiAddEvent os p fd msk k = (let (r, k') = os_epoll_ctl os
      (if ev_mask p fd = 0 then EPOLL_CTL_ADD else EPOLL_CTL_MOD) fd (to_epoll (ev_mask p' fd)) k
      in (if r = -1 then -1 else 0, k'))"
    unfolding aeApiAddEvent_def Let_def ms(1) by (simp only: or.commute)
  have cr: "eco_poll_file_event_create os p fd msk proc cd k =
      (let (r, k') = aeApiAddEvent os p fd msk k in
       if r = -1 then Some ((False, p), k') else Some ((True, p'), k'))"
    unfolding p' using inr fd by (simp add: eco_poll_file_event_create_def)
  have wf': "poll_wf p'" using poll_wf_store wf fd inr m unfolding p' by force
  have sz: "pl_setsize p' = pl_setsize p" unfolding p' by simp
  show ?thesis
  proof (cases "ev_mask p fd = 0")
    case True
    obtain r k' where c: "os_epoll_ctl os EPOLL_CTL_ADD fd (to_epoll (ev_mask p' fd)) k = (r, k')"
      by fastforce
    have "interest k fd = None" using syncedD(1) [OF sy fd _ True] inr by linarith
    then have d: "(r = -1 \<and> interest k' = interest k) \<or>
        (r = 0 \<and> interest k' = (interest k)(fd \<mapsto> to_epoll (ev_mask p' fd)))"
      using epoll_add [OF ep _ c] by simp
    then have e: "eco_poll_file_event_create os p fd msk proc cd k =
        Some ((if r = -1 then (False, p) else (True, p')), k')"
      unfolding cr ad using True c by auto
    show ?thesis
    proof (cases "r = -1")
      case fail: True
      then have "interest k' = interest k" using d by linarith
      then have "synced interest p k'" by (rule synced_cong [OF sy])
      then show ?thesis using e fail wf True by auto
    next
      case False
      then have "synced interest p' k'"
        using d fd inr by (intro synced_upd [OF sy _ sz pos ms(2)]) auto
      then show ?thesis using e False wf' inr p' by auto
    qed
  next
    case False
    obtain r k' where c: "os_epoll_ctl os EPOLL_CTL_MOD fd (to_epoll (ev_mask p' fd)) k = (r, k')"
      by fastforce
    have "interest k fd \<noteq> None" using syncedD(2) [OF sy fd _ False] inr by linarith
    then have d: "r = 0" "interest k' = (interest k)(fd \<mapsto> to_epoll (ev_mask p' fd))"
      using epoll_mod [OF ep \<open>interest k fd \<noteq> None\<close> c] by auto
    then have e: "eco_poll_file_event_create os p fd msk proc cd k = Some ((True, p'), k')"
      unfolding cr ad using False c by auto
    have "synced interest p' k'"
      by (rule synced_upd [OF sy d(2) sz pos ms(2) fd]) (use inr in auto)
    then show ?thesis using e wf' inr p' by auto
  qed
qed

section \<open>Removal\<close>

lemma scan_maxfd_spec:
  "-1 \<le> scan_maxfd evs n \<and> scan_maxfd evs n < int n \<and>
   (\<forall>i. scan_maxfd evs n < int i \<and> i < n \<longrightarrow> fe_mask (evs ! i) = 0) \<and>
   (scan_maxfd evs n = -1 \<or> fe_mask (evs ! nat (scan_maxfd evs n)) \<noteq> 0)"
  by (induction n) (auto simp: less_Suc_eq)

text \<open>The state after the writes of the deletion.\<close>

definition drop_event :: "('p, 'c, 't) poll \<Rightarrow> int \<Rightarrow> int \<Rightarrow> ('p, 'c, 't) poll" where
  "drop_event p fd msk =
     (let fe1 = (pl_events p ! nat fd)\<lparr>fe_mask := ev_mask p fd AND NOT msk\<rparr>;
          p1 = p\<lparr>pl_events := (pl_events p)[nat fd := fe1]\<rparr>
      in if fd = pl_maxfd p1 \<and> fe_mask fe1 = ECO_POLL_NONE
         then p1\<lparr>pl_maxfd := scan_maxfd (pl_events p1) (nat (pl_maxfd p1))\<rparr> else p1)"

lemma drop_event_simps [simp, poll_simps]:
  "pl_setsize (drop_event p fd msk) = pl_setsize p"
  "pl_timeEvents (drop_event p fd msk) = pl_timeEvents p"
  "pl_timeEventNextId (drop_event p fd msk) = pl_timeEventNextId p"
  "pl_lastTime (drop_event p fd msk) = pl_lastTime p"
  by (simp_all add: drop_event_def Let_def)

lemma drop_event_events:
  "pl_events (drop_event p fd msk) =
     (pl_events p)[nat fd := (pl_events p ! nat fd)\<lparr>fe_mask := ev_mask p fd AND NOT msk\<rparr>]"
  by (simp add: drop_event_def Let_def)

lemma drop_event_mask:
  assumes "0 \<le> fd" "nat fd < length (pl_events p)" "0 \<le> i"
  shows "ev_mask (drop_event p fd msk) i = (if i = fd then ev_mask p fd AND NOT msk else ev_mask p i)"
  using assms by (auto simp: drop_event_events nth_list_update eq_nat_nat_iff)

lemma file_event_delete_eq:
  assumes "0 \<le> fd" "fd < pl_setsize p" "ev_mask p fd \<noteq> 0"
  shows "eco_poll_file_event_delete os p fd msk k =
     Some (drop_event p fd msk, aeApiDelEvent os (drop_event p fd msk) fd msk k)"
  using assms by (simp add: eco_poll_file_event_delete_def drop_event_def Let_def)

lemma poll_wf_drop:
  assumes wf: "poll_wf p" and fd: "0 \<le> fd" "fd < pl_setsize p"
  shows "poll_wf (drop_event p fd msk)"
proof -
  have l: "nat fd < length (pl_events p)" using assms by (simp add: poll_wf_def)
  note dm = drop_event_mask [OF fd(1) l]
  let ?p' = "drop_event p fd msk"
  show ?thesis
  proof (cases "fd = pl_maxfd p \<and> ev_mask p fd AND NOT msk = 0")
    case True
    let ?evs = "(pl_events p)[nat fd := (pl_events p ! nat fd)\<lparr>fe_mask := ev_mask p fd AND NOT msk\<rparr>]"
    have mx: "pl_maxfd ?p' = scan_maxfd ?evs (nat fd)"
      using True l by (auto simp: drop_event_def Let_def)
    note sc = scan_maxfd_spec [of ?evs "nat fd"]
    have "ev_mask ?p' i = 0" if "scan_maxfd ?evs (nat fd) < i" "i < pl_setsize p" for i
    proof (cases "i < fd")
      case True
      have "0 \<le> i" using that sc by linarith
      moreover have "scan_maxfd ?evs (nat fd) < int (nat i) \<and> nat i < nat fd"
        using that True \<open>0 \<le> i\<close> by simp
      ultimately show ?thesis unfolding drop_event_events using sc by blast
    next
      case False
      then show ?thesis using that True \<open>fd = pl_maxfd p \<and> _\<close> wf fd dm [of i] by (auto simp: poll_wf_def)
    qed
    then show ?thesis using sc mx wf fd by (auto simp: poll_wf_def drop_event_events)
  next
    case False
    then have mx: "pl_maxfd ?p' = pl_maxfd p" using l by (auto simp: drop_event_def Let_def)
    have "ev_mask ?p' i = 0" if "pl_maxfd p < i" "i < pl_setsize p" for i
      using wf that dm [of i] by (auto simp: poll_wf_def)
    moreover have "pl_maxfd p = -1 \<or> ev_mask ?p' (pl_maxfd p) \<noteq> 0"
    proof (cases "pl_maxfd p = fd \<or> pl_maxfd p = -1")
      case True
      then show ?thesis using False dm [OF fd(1)] by auto
    next
      case False
      then show ?thesis using wf dm [of "pl_maxfd p"] by (auto simp: poll_wf_def)
    qed
    ultimately show ?thesis using wf by (simp add: poll_wf_def mx drop_event_events)
  qed
qed

lemma file_event_delete_spec:
  assumes ep: "epoll_spec os interest" and wf: "poll_wf p" and sy: "synced interest p k" and fd: "0 \<le> fd"
  shows "\<exists>p' k'. eco_poll_file_event_delete os p fd msk k = Some (p', k') \<and> poll_wf p' \<and> synced interest p' k' \<and>
     (p' = drop_event p fd msk \<and> fd < pl_setsize p \<and> ev_mask p fd \<noteq> 0 \<or>
      p' = p \<and> k' = k \<and> (fd \<ge> pl_setsize p \<or> ev_mask p fd = 0))"
proof (cases "fd \<ge> pl_setsize p \<or> ev_mask p fd = 0")
  case True
  then show ?thesis using wf sy fd by (auto simp: eco_poll_file_event_delete_def)
next
  case False
  then have l: "nat fd < length (pl_events p)" and fs: "fd < pl_setsize p" "ev_mask p fd \<noteq> 0"
    using wf fd by (auto simp: poll_wf_def)
  note dm = drop_event_mask [OF fd l]
  define p' where p': "p' = drop_event p fd msk"
  have sz: "pl_setsize p' = pl_setsize p" unfolding p' by simp
  have reg: "interest k fd \<noteq> None" by (rule syncedD(2) [OF sy fd fs])
  have pm: "ev_mask p' fd = ev_mask p fd AND NOT msk"
    "\<And>i. 0 \<le> i \<Longrightarrow> i \<noteq> fd \<Longrightarrow> ev_mask p' i = ev_mask p i"
    using dm fd unfolding p' by simp_all
  have again: "ev_mask p' fd AND NOT msk = ev_mask p' fd"
    unfolding pm(1) by (simp only: and.assoc and.idem)
  have de: "aeApiDelEvent os p' fd msk k =
      (if ev_mask p' fd \<noteq> 0 then snd (os_epoll_ctl os EPOLL_CTL_MOD fd (to_epoll (ev_mask p' fd)) k)
       else snd (os_epoll_ctl os EPOLL_CTL_DEL fd (to_epoll (ev_mask p' fd)) k))"
    unfolding aeApiDelEvent_def again Let_def ..
  have "synced interest p' (aeApiDelEvent os p' fd msk k)"
  proof (cases "ev_mask p' fd = 0")
    case True
    have "interest (snd (os_epoll_ctl os EPOLL_CTL_DEL fd (to_epoll (ev_mask p' fd)) k)) =
        (interest k)(fd := None)"
      using epoll_del [OF ep reg] by (metis prod.collapse)
    then show ?thesis
      unfolding de by (subst if_not_P) (use True in simp, rule synced_del [OF sy _ sz True pm(2)])
  next
    case False
    have "interest (snd (os_epoll_ctl os EPOLL_CTL_MOD fd (to_epoll (ev_mask p' fd)) k)) =
        (interest k)(fd \<mapsto> to_epoll (ev_mask p' fd))"
      using epoll_mod [OF ep reg] by (metis prod.collapse)
    then show ?thesis unfolding de using False
      by (simp only: if_True not_False_eq_True) (rule synced_upd [OF sy _ sz False pm(2) fd fs(1)])
  qed
  then show ?thesis
    using file_event_delete_eq [OF fd fs, of os msk k] poll_wf_drop [OF wf fd fs(1), of msk] fs
    unfolding p' by blast
qed

section \<open>Resizing\<close>

lemma resize_spec:
  assumes wf: "poll_wf p" and n: "0 \<le> setsize"
  shows "poll_wf (snd (eco_poll_resize p setsize))"
    and "fst (eco_poll_resize p setsize) = 0 \<longleftrightarrow> setsize = pl_setsize p \<or> pl_maxfd p < setsize"
    and "fst (eco_poll_resize p setsize) = 0 \<Longrightarrow> pl_setsize (snd (eco_poll_resize p setsize)) = setsize"
    and "fst (eco_poll_resize p setsize) = 0 \<Longrightarrow> 0 \<le> fd \<Longrightarrow> fd \<le> pl_maxfd p \<Longrightarrow>
      pl_events (snd (eco_poll_resize p setsize)) ! nat fd = pl_events p ! nat fd"
proof -
  let ?blank = "\<lparr>fe_mask = 0, fe_rfileProc = None, fe_wfileProc = None, fe_clientData = CDead\<rparr>"
  let ?evs = "take (nat setsize) (pl_events p) @ replicate (nat setsize - length (pl_events p)) ?blank"
  have len: "length ?evs = nat setsize" by simp
  define evs' where "evs' = map (\<lambda>(i, fe). if i > pl_maxfd p then fe\<lparr>fe_mask := ECO_POLL_NONE\<rparr> else fe)
      (zip (map int [0..<length ?evs]) ?evs)"
  have eq: "eco_poll_resize p setsize = (if setsize = pl_setsize p then (0, p)
      else if pl_maxfd p \<ge> setsize then (-1, p) else (0, p\<lparr>pl_events := evs', pl_setsize := setsize\<rparr>))"
    unfolding eco_poll_resize_def Let_def evs'_def ..
  have l': "length evs' = nat setsize" unfolding evs'_def using len by simp
  have nth: "evs' ! i = (if int i > pl_maxfd p then (?evs ! i)\<lparr>fe_mask := 0\<rparr> else ?evs ! i)"
    if "i < nat setsize" for i
    unfolding evs'_def using that len by simp
  have keep: "evs' ! nat i = pl_events p ! nat i" if "pl_maxfd p < setsize" "0 \<le> i" "i \<le> pl_maxfd p" for i
    using that nth [of "nat i"] wf by (auto simp: poll_wf_def nth_append)
  show "fst (eco_poll_resize p setsize) = 0 \<longleftrightarrow> setsize = pl_setsize p \<or> pl_maxfd p < setsize"
    and "fst (eco_poll_resize p setsize) = 0 \<Longrightarrow> pl_setsize (snd (eco_poll_resize p setsize)) = setsize"
    unfolding eq by (auto split: if_splits)
  show "fst (eco_poll_resize p setsize) = 0 \<Longrightarrow> 0 \<le> fd \<Longrightarrow> fd \<le> pl_maxfd p \<Longrightarrow>
      pl_events (snd (eco_poll_resize p setsize)) ! nat fd = pl_events p ! nat fd"
    unfolding eq using keep by (auto split: if_splits)
  have "poll_wf (p\<lparr>pl_events := evs', pl_setsize := setsize\<rparr>)" if "pl_maxfd p < setsize"
    unfolding poll_wf_def
  proof (intro conjI allI impI)
    fix i assume i: "pl_maxfd (p\<lparr>pl_events := evs', pl_setsize := setsize\<rparr>) < i \<and>
        i < pl_setsize (p\<lparr>pl_events := evs', pl_setsize := setsize\<rparr>)"
    then have "0 \<le> i" using wf by (auto simp: poll_wf_def)
    then show "ev_mask (p\<lparr>pl_events := evs', pl_setsize := setsize\<rparr>) i = 0"
      using i nth [of "nat i"] by simp
  next
    show "pl_maxfd (p\<lparr>pl_events := evs', pl_setsize := setsize\<rparr>) = -1 \<or>
        ev_mask (p\<lparr>pl_events := evs', pl_setsize := setsize\<rparr>)
          (pl_maxfd (p\<lparr>pl_events := evs', pl_setsize := setsize\<rparr>)) \<noteq> 0"
      using wf keep [OF that, of "pl_maxfd p"] by (auto simp: poll_wf_def)
  qed (use that n wf l' in \<open>auto simp: poll_wf_def\<close>)
  then show "poll_wf (snd (eco_poll_resize p setsize))"
    unfolding eq using wf by auto
qed

end
