(* ===== verification/Io_Waiter.thy ===== *)
theory Io_Waiter
  imports Fiber_Resume Event_Timers Event_Files
begin

text \<open>
  \<open>EIoWaiter\<close> (src/EIoWaiter.hh, src/EIoWaiter.cpp): the event loop of one scheduler thread. It
  owns a \<open>poll\<close>, a pipe that other threads write to in order to end a wait, and the callbacks
  that make fibers runnable. The holders \<open>new sp<EFiber>\<close> that the callbacks receive are the
  fiber addresses themselves.
\<close>

section \<open>Data\<close>

datatype fproc = FileEventProc | PipeEventProc
datatype tproc = TimeEventProc | TimeEventFinalizerProc

record iowaiter =
  iw_poll :: "(fproc, fptr, tproc) poll"
  iw_waiters :: int
  iw_pipe_in :: int  \<comment> \<open>the descriptor of the reading end of the pipe\<close>

section \<open>Callbacks\<close>

text \<open>\<open>pipeEventProc\<close> reads up to 32 of the pending bytes.\<close>

definition pipeEventProc :: "wptr \<Rightarrow> 'z rt_scheme \<Rightarrow> 'z rt_scheme" where
  "pipeEventProc w s = s\<lparr>rt_signals := (rt_signals s)(w := rt_signals s w - 32)\<rparr>"

definition EIoWaiter_fileEventProc :: "tid \<Rightarrow> fptr cdata \<Rightarrow> 'z rt_scheme \<Rightarrow> 'z rt_scheme option" where
  "EIoWaiter_fileEventProc t cd s = (case cd of CLive f \<Rightarrow> EFiber_swapIn t f s | _ \<Rightarrow> None)"

definition EIoWaiter_timeEventProc :: "tid \<Rightarrow> fptr \<Rightarrow> 'z rt_scheme \<Rightarrow> (int \<times> 'z rt_scheme) option" where
  "EIoWaiter_timeEventProc t f s =
     (let s1 = upd_fiber f (\<lambda>fb. fb\<lparr>fb_isIoWaitTimeout := True\<rparr>) s
      in map_option (\<lambda>s2. (ECO_POLL_NOMORE, s2)) (EFiber_swapIn t f s1))"

fun file_call :: "tid \<Rightarrow> wptr \<Rightarrow> fproc \<Rightarrow> int \<Rightarrow> fptr cdata \<Rightarrow> int \<Rightarrow> 'z rt_scheme \<Rightarrow> 'z rt_scheme option" where
  "file_call t w FileEventProc fd cd msk s = EIoWaiter_fileEventProc t cd s"
| "file_call t w PipeEventProc fd cd msk s = Some (pipeEventProc w s)"

fun time_call :: "tid \<Rightarrow> tproc \<Rightarrow> int \<Rightarrow> fptr \<Rightarrow> 'z rt_scheme \<Rightarrow> (int \<times> 'z rt_scheme) option" where
  "time_call t TimeEventProc i f s = EIoWaiter_timeEventProc t f s"
| "time_call t TimeEventFinalizerProc i f s = None"

text \<open>\<open>timeEventFinalizerProc\<close> deletes the holder of the fiber; the fiber is not touched.\<close>

fun final_call :: "tproc \<Rightarrow> fptr \<Rightarrow> 'z rt_scheme \<Rightarrow> 'z rt_scheme option" where
  "final_call TimeEventFinalizerProc f s = Some s"
| "final_call TimeEventProc f s = None"

section \<open>Operations\<close>

definition EIoWaiter_ctor :: "'k os \<Rightarrow> int \<Rightarrow> int \<Rightarrow> 'k \<Rightarrow> (iowaiter \<times> 'k) option" where
  "EIoWaiter_ctor os iosetSize pipe_in k =
     (let (now, k1) = os_time os k;
          p = eco_poll_create iosetSize now
      in case eco_poll_file_event_update os p pipe_in ECO_POLL_READABLE PipeEventProc CNull k1 of
           None \<Rightarrow> None
         | Some ((ok, p'), k2) \<Rightarrow>
             Some (\<lparr>iw_poll = p', iw_waiters = 0, iw_pipe_in = pipe_in\<rparr>, k2))"

definition EIoWaiter_onceProcessEvents :: "'k os \<Rightarrow> tid \<Rightarrow> wptr \<Rightarrow> int \<Rightarrow> iowaiter \<Rightarrow> 'k \<Rightarrow> 'z rt_scheme \<Rightarrow>
    (int \<times> iowaiter \<times> 'k \<times> 'z rt_scheme) option" where
  "EIoWaiter_onceProcessEvents os t w timeout iw k s =
     (case eco_poll_process_events os (file_call t w) (time_call t) final_call (iw_poll iw)
             ECO_POLL_ALL_EVENTS timeout k s of
        None \<Rightarrow> None
      | Some (n, p, k', s') \<Rightarrow> Some (n, iw\<lparr>iw_poll := p\<rparr>, k', s'))"

definition EIoWaiter_setFileEvent :: "'k os \<Rightarrow> int \<Rightarrow> int \<Rightarrow> fptr \<Rightarrow> iowaiter \<Rightarrow> 'k \<Rightarrow> 'z rt_scheme \<Rightarrow>
    (iowaiter \<times> 'k \<times> 'z rt_scheme) option" where
  "EIoWaiter_setFileEvent os fd msk f iw k s =
     (case eco_poll_file_event_create os (iw_poll iw) fd msk FileEventProc (CLive f) k of
        None \<Rightarrow> None
      | Some ((ok, p), k') \<Rightarrow>
          Some (iw\<lparr>iw_poll := p, iw_waiters := iw_waiters iw + 1\<rparr>, k',
                upd_fiber f (\<lambda>fb. fb\<lparr>fb_state := WAITING\<rparr>) s))"

text \<open>
  \<open>delFileEvent\<close> deletes what \<open>clientData\<close> points to. Deleting null is allowed; \<open>None\<close> is a
  negative descriptor or the deletion of a pointer that does not point to a live holder.
\<close>

definition EIoWaiter_delFileEvent :: "'k os \<Rightarrow> int \<Rightarrow> int \<Rightarrow> iowaiter \<Rightarrow> 'k \<Rightarrow> (iowaiter \<times> 'k) option" where
  "EIoWaiter_delFileEvent os fd msk iw k =
     (let p = iw_poll iw in
      if fd \<ge> pl_setsize p then Some (iw, k)
      else if fd < 0 then None
      else if fe_clientData (pl_events p ! nat fd) = CDead then None
      else
       (let freed = (case fe_clientData (pl_events p ! nat fd) of CLive f \<Rightarrow> CDead | cd \<Rightarrow> cd);
            p1 = p\<lparr>pl_events := (pl_events p)[nat fd :=
                     (pl_events p ! nat fd)\<lparr>fe_clientData := freed\<rparr>]\<rparr>
        in case eco_poll_file_event_delete os p1 fd msk k of
             None \<Rightarrow> None
           | Some (p2, k') \<Rightarrow> Some (iw\<lparr>iw_poll := p2, iw_waiters := iw_waiters iw - 1\<rparr>, k')))"

definition EIoWaiter_getFileEvent :: "int \<Rightarrow> iowaiter \<Rightarrow> int option" where
  "EIoWaiter_getFileEvent fd iw = eco_poll_get_file_events (iw_poll iw) fd"

definition EIoWaiter_setupTimer :: "'k os \<Rightarrow> int \<Rightarrow> fptr \<Rightarrow> iowaiter \<Rightarrow> 'k \<Rightarrow> 'z rt_scheme \<Rightarrow>
    int \<times> iowaiter \<times> 'k \<times> 'z rt_scheme" where
  "EIoWaiter_setupTimer os timeout f iw k s =
     (let s1 = upd_fiber f (\<lambda>fb. fb\<lparr>fb_isIoWaitTimeout := False\<rparr>) s;
          ((i, p), k') = eco_poll_time_event_create os (iw_poll iw) timeout TimeEventProc f
             (Some TimeEventFinalizerProc) k
      in (i, iw\<lparr>iw_poll := p, iw_waiters := iw_waiters iw + 1\<rparr>, k', s1))"

definition EIoWaiter_cancelTimer :: "int \<Rightarrow> iowaiter \<Rightarrow> iowaiter" where
  "EIoWaiter_cancelTimer i iw =
     iw\<lparr>iw_poll := snd (eco_poll_time_event_delete (iw_poll iw) i), iw_waiters := iw_waiters iw - 1\<rparr>"

definition EIoWaiter_getWaitersCount :: "iowaiter \<Rightarrow> int" where
  "EIoWaiter_getWaitersCount iw = iw_waiters iw"

definition EIoWaiter_interrupt :: "'k os \<Rightarrow> iowaiter \<Rightarrow> 'k \<Rightarrow> iowaiter \<times> 'k" where
  "EIoWaiter_interrupt os iw k =
     (let (p, k') = eco_poll_time_fire_all os (iw_poll iw) k in (iw\<lparr>iw_poll := p\<rparr>, k'))"

section \<open>Waking fibers\<close>

text \<open>
  What the callbacks rely on. \<open>L\<close> are the live fibers, \<open>F\<close> those that a scheduler has bound, dead
  ones included (only live fibers in \<open>F\<close> can be parked), \<open>R\<close> those that have been taken from a queue to run. The queues in \<open>K\<close> are well formed, and they
  hold exactly the live fibers that are neither parked nor running.
\<close>

definition rt_ok :: "qptr set \<Rightarrow> fptr set \<Rightarrow> fptr set \<Rightarrow> fptr set \<Rightarrow> 'z rt_scheme \<Rightarrow> bool" where
  "rt_ok K L F R s \<longleftrightarrow> R \<subseteq> L \<and> (\<forall>f\<in>F \<inter> L. bound K f s) \<and> (\<forall>f\<in>F - L. \<not> parked f s) \<and>
     (\<forall>f\<in>L - F. fb_boundQueue (rt_fibers s f) = None \<and> \<not> parked f s) \<and>
     (\<forall>f\<in>R. \<not> parked f s \<and> nd_value (rt_nodes s (pk s f)) = Some f) \<and>
     (\<exists>V. qrep K L s V \<and> (\<forall>f\<in>L. (\<exists>k\<in>K. f \<in> set (V k)) \<longleftrightarrow> \<not> parked f s \<and> f \<notin> R))"

text \<open>
  Callbacks only wake fibers (from parked to runnable), only those they serve, and only ever set
  the timeout flag.
\<close>

definition wakes :: "fptr set \<Rightarrow> 'z rt_scheme \<Rightarrow> 'z rt_scheme \<Rightarrow> bool" where
  "wakes F s s' \<longleftrightarrow>
     (\<forall>g. parked g s' \<longrightarrow> parked g s \<and> fb_state (rt_fibers s' g) = fb_state (rt_fibers s g) \<and>
        fb_blocker (rt_fibers s' g) = fb_blocker (rt_fibers s g)) \<and>
     (\<forall>g. \<not> parked g s' \<longrightarrow>
        fb_state (rt_fibers s' g) = (if parked g s then RUNNABLE else fb_state (rt_fibers s g))) \<and>
     (\<forall>g. fb_isIoWaitTimeout (rt_fibers s g) \<longrightarrow> fb_isIoWaitTimeout (rt_fibers s' g)) \<and>
     (\<forall>g. g \<notin> F \<longrightarrow> fb_state (rt_fibers s' g) = fb_state (rt_fibers s g)) \<and>
     rt.more s' = rt.more s"

lemma wakes_refl [simp]: "wakes F s s"
  by (simp add: wakes_def)

lemma wakesD:
  assumes "wakes F s s'"
  shows wakes_parked: "parked g s' \<Longrightarrow> parked g s"
    and wakes_state: "parked g s' \<Longrightarrow> fb_state (rt_fibers s' g) = fb_state (rt_fibers s g)"
    and wakes_blocker: "parked g s' \<Longrightarrow> fb_blocker (rt_fibers s' g) = fb_blocker (rt_fibers s g)"
    and wakes_awake: "\<not> parked g s' \<Longrightarrow>
      fb_state (rt_fibers s' g) = (if parked g s then RUNNABLE else fb_state (rt_fibers s g))"
    and wakes_flag: "fb_isIoWaitTimeout (rt_fibers s g) \<Longrightarrow> fb_isIoWaitTimeout (rt_fibers s' g)"
    and wakes_other: "g \<notin> F \<Longrightarrow> fb_state (rt_fibers s' g) = fb_state (rt_fibers s g)"
    and wakes_more: "rt.more s' = rt.more s"
  using assms unfolding wakes_def by blast+

lemma wakes_trans:
  assumes 1: "wakes F s s'" and 2: "wakes F s' s''"
  shows "wakes F s s''"
  unfolding wakes_def
proof (intro conjI allI impI)
  fix g assume "\<not> parked g s''"
  then show "fb_state (rt_fibers s'' g) = (if parked g s then RUNNABLE else fb_state (rt_fibers s g))"
    using wakes_awake [OF 2] wakes_awake [OF 1] wakes_parked [OF 1] by (metis (full_types))
qed (metis wakesD [OF 1] wakesD [OF 2])+

lemma parked_signal: "parked g (EIoWaiter_signal w s) \<longleftrightarrow> parked g s"
  by (simp add: parked_def)

lemma wakes_signal: "wakes F s s' \<Longrightarrow> wakes F s (EIoWaiter_signal w s')"
  unfolding wakes_def parked_signal EIoWaiter_signal_simps .

lemma rt_ok_cong:
  assumes "rt_ok K L F R s"
    and "\<And>f. fb_packing (rt_fibers s' f) = fb_packing (rt_fibers s f)"
    and "\<And>f. fb_boundQueue (rt_fibers s' f) = fb_boundQueue (rt_fibers s f)"
    and "\<And>f. fb_iowaiter (rt_fibers s' f) = fb_iowaiter (rt_fibers s f)"
    and "\<And>f. parked f s' \<longleftrightarrow> parked f s"
    and "rt_nodes s' = rt_nodes s" and "rt_queues s' = rt_queues s"
  shows "rt_ok K L F R s'"
proof -
  obtain V where V: "qrep K L s V" "\<forall>f\<in>L. (\<exists>k\<in>K. f \<in> set (V k)) \<longleftrightarrow> \<not> parked f s \<and> f \<notin> R"
    using assms(1) unfolding rt_ok_def by blast
  have "qrep K L s' V" by (rule qrep_cong [OF V(1) assms(2,6,7)])
  moreover have "bound K f s'" if "f \<in> F \<inter> L" for f
    using assms(1) that unfolding rt_ok_def bound_def assms(2-4,6) by blast
  moreover have "R \<subseteq> L" "\<forall>f\<in>F - L. \<not> parked f s'" "\<forall>f\<in>L - F. fb_boundQueue (rt_fibers s' f) = None \<and> \<not> parked f s'"
    "\<forall>f\<in>R. \<not> parked f s' \<and> nd_value (rt_nodes s' (pk s' f)) = Some f"
    using assms(1) unfolding rt_ok_def assms(2,3,5,6) by simp_all
  moreover have "\<forall>f\<in>L. (\<exists>k\<in>K. f \<in> set (V k)) \<longleftrightarrow> \<not> parked f s' \<and> f \<notin> R" using V(2) unfolding assms(5) .
  ultimately show ?thesis unfolding rt_ok_def by (intro conjI exI [of _ V]) blast+
qed

lemma swapIn_ok:
  assumes ok: "rt_ok K L F R s" and f: "f \<in> F"
  shows "\<exists>s'. EFiber_swapIn t f s = Some s' \<and> rt_ok K L F R s' \<and> wakes F s s' \<and> \<not> parked f s'"
proof (cases "parked f s")
  case False
  then show ?thesis using ok by (simp add: swapIn_not_parked)
next
  case True
  obtain V where V: "qrep K L s V" "\<forall>f\<in>L. (\<exists>k\<in>K. f \<in> set (V k)) \<longleftrightarrow> \<not> parked f s \<and> f \<notin> R"
    using ok unfolding rt_ok_def by blast
  have F: "\<And>g. g \<in> F \<Longrightarrow> g \<in> L \<Longrightarrow> bound K g s" "\<And>g. g \<in> F \<Longrightarrow> parked g s \<Longrightarrow> g \<in> L" and R: "\<forall>g\<in>R. \<not> parked g s" "R \<subseteq> L" "\<forall>g\<in>R. nd_value (rt_nodes s (pk s g)) = Some g"
    and U: "\<forall>g\<in>L - F. fb_boundQueue (rt_fibers s g) = None \<and> \<not> parked g s" using ok by (auto simp: rt_ok_def)
  obtain q w where q: "q \<in> K" and e: "EFiber_swapIn t f s =
      Some (if t \<noteq> fb_boundThreadID (rt_fibers s f) \<and> fb_state (rt_fibers s f) = BLOCKED
        then EIoWaiter_signal w (cq_add q f (awake f s)) else cq_add q f (awake f s))"
    using swapIn_parked [OF True F(1) [OF f F(2) [OF f True]], of t] by blast
  define s1 where "s1 = cq_add q f (awake f s)"
  have ra: "qrep K L (awake f s) V" by (rule qrep_cong [OF V(1)]) simp_all
  have fL: "f \<in> L" using F(2) f True by blast
  have fr: "\<forall>k\<in>K. f \<notin> set (V k)" using V(2) fL True by blast
  have r1: "qrep K L s1 (V(q := V q @ [f]))"
    unfolding s1_def by (rule qrep_add [OF ra q fL fr])
  have b1: "bound K g s1" if "g \<in> F \<inter> L" for g
    unfolding s1_def using fL that
    by (intro bound_add [OF ra q]) (use F(1) [of g] in \<open>auto simp: bound_def\<close>)
  have p1: "parked g s1 \<longleftrightarrow> g \<noteq> f \<and> parked g s" for g
    unfolding s1_def by (auto simp: parked_def cq_add_fields)
  have "(\<exists>k\<in>K. g \<in> set ((V(q := V q @ [f])) k)) \<longleftrightarrow> g = f \<or> (\<exists>k\<in>K. g \<in> set (V k))" for g
  proof
    assume "\<exists>k\<in>K. g \<in> set ((V(q := V q @ [f])) k)"
    then show "g = f \<or> (\<exists>k\<in>K. g \<in> set (V k))" by (auto split: if_splits)
  next
    assume "g = f \<or> (\<exists>k\<in>K. g \<in> set (V k))"
    then show "\<exists>k\<in>K. g \<in> set ((V(q := V q @ [f])) k)"
    proof
      assume "g = f"
      then show ?thesis using q by (intro bexI [of _ q]) simp_all
    next
      assume "\<exists>k\<in>K. g \<in> set (V k)"
      then obtain k where "k \<in> K" "g \<in> set (V k)" by blast
      then show ?thesis by (intro bexI [of _ k]) auto
    qed
  qed
  moreover have "f \<notin> R" using R(1) True by blast
  ultimately have m1: "\<forall>g\<in>L. (\<exists>k\<in>K. g \<in> set ((V(q := V q @ [f])) k)) \<longleftrightarrow> \<not> parked g s1 \<and> g \<notin> R"
    using V(2) unfolding p1 by (metis (full_types))
  have R1: "\<forall>g\<in>R. \<not> parked g s1 \<and> nd_value (rt_nodes s1 (pk s1 g)) = Some g"
  proof
    fix g assume g: "g \<in> R"
    have "pk s g = pk s f \<Longrightarrow> g = f"
      using qrep_inj [OF V(1) q] R(2) g fL by (metis inj_onD subsetD)
    then show "\<not> parked g s1 \<and> nd_value (rt_nodes s1 (pk s1 g)) = Some g"
      using R(1,3) g unfolding p1 unfolding s1_def by (auto simp: cq_add_fields)
  qed
  have U1: "\<forall>g\<in>L - F. fb_boundQueue (rt_fibers s1 g) = None \<and> \<not> parked g s1"
    using U unfolding p1 unfolding s1_def by (simp add: cq_add_fields)
  have D1: "\<forall>g\<in>F - L. \<not> parked g s1" using F(2) unfolding p1 by blast
  have ok1: "rt_ok K L F R s1" unfolding rt_ok_def
    by (intro conjI exI [of _ "V(q := V q @ [f])"]) (use D1 R(2) b1 U1 R1 r1 m1 in blast)+
  have w1: "wakes F s s1"
    unfolding wakes_def p1 unfolding s1_def using f True by (auto simp: cq_add_fields awake_def parked_def)
  have ok2: "rt_ok K L F R (EIoWaiter_signal w s1)"
    by (rule rt_ok_cong [OF ok1]) (auto simp: parked_def)
  have w2: "wakes F s (EIoWaiter_signal w s1)" using w1 by (rule wakes_signal)
  have np: "\<not> parked f s1" "\<not> parked f (EIoWaiter_signal w s1)" unfolding parked_signal p1 by simp_all
  show ?thesis
  proof (cases "t \<noteq> fb_boundThreadID (rt_fibers s f) \<and> fb_state (rt_fibers s f) = BLOCKED")
    case True
    then have "EFiber_swapIn t f s = Some (EIoWaiter_signal w s1)" unfolding e s1_def by simp
    then show ?thesis using ok2 w2 np(2) by blast
  next
    case False
    then have "EFiber_swapIn t f s = Some s1" unfolding e s1_def by (simp only: if_False)
    then show ?thesis using ok1 w1 np(1) by blast
  qed
qed

lemma timeEventProc_ok:
  assumes ok: "rt_ok K L F R s" and f: "f \<in> F"
  shows "\<exists>s'. EIoWaiter_timeEventProc t f s = Some (ECO_POLL_NOMORE, s') \<and> rt_ok K L F R s' \<and> wakes F s s' \<and>
     \<not> parked f s' \<and> fb_isIoWaitTimeout (rt_fibers s' f)"
proof -
  define s1 where "s1 = upd_fiber f (\<lambda>fb. fb\<lparr>fb_isIoWaitTimeout := True\<rparr>) s"
  have ok1: "rt_ok K L F R s1"
    by (rule rt_ok_cong [OF ok]) (auto simp: s1_def parked_def split: if_splits)
  have w1: "wakes F s s1" by (auto simp: s1_def wakes_def parked_def)
  have t1: "fb_isIoWaitTimeout (rt_fibers s1 f)" by (simp add: s1_def)
  obtain s' where s': "EFiber_swapIn t f s1 = Some s'" "rt_ok K L F R s'" "wakes F s1 s'" "\<not> parked f s'"
    using swapIn_ok [OF ok1 f] by blast
  then have "EIoWaiter_timeEventProc t f s = Some (ECO_POLL_NOMORE, s')"
    by (simp add: EIoWaiter_timeEventProc_def s1_def Let_def)
  moreover have "fb_isIoWaitTimeout (rt_fibers s' f)" using t1 s'(3) by (simp add: wakes_def)
  ultimately show ?thesis using s' w1 wakes_trans by blast
qed

lemma fileEventProc_ok:
  assumes "rt_ok K L F R s" and "f \<in> F"
  shows "\<exists>s'. EIoWaiter_fileEventProc t (CLive f) s = Some s' \<and> rt_ok K L F R s' \<and> wakes F s s' \<and> \<not> parked f s'"
  using swapIn_ok [OF assms] by (simp add: EIoWaiter_fileEventProc_def)

lemma pipeEventProc_ok:
  assumes "rt_ok K L F R s"
  shows "rt_ok K L F R (pipeEventProc w s)" and "wakes F s (pipeEventProc w s)"
  by (rule rt_ok_cong [OF assms]) (auto simp: pipeEventProc_def parked_def wakes_def)


section \<open>The invariant of a waiter\<close>

text \<open>
  A registered event whose procedure is \<open>fileEventProc\<close> carries a live holder of a fiber in
  \<open>F\<close>; every timer that has not been deleted belongs to a fiber in \<open>F\<close>.
\<close>

definition fe_serves :: "fptr set \<Rightarrow> (fproc, fptr) fileEvent \<Rightarrow> bool" where
  "fe_serves F fe \<longleftrightarrow>
     (\<forall>pr. (fe_mask fe AND ECO_POLL_READABLE \<noteq> 0 \<and> fe_rfileProc fe = Some pr) \<or>
           (fe_mask fe AND ECO_POLL_WRITABLE \<noteq> 0 \<and> fe_wfileProc fe = Some pr) \<longrightarrow>
        pr = PipeEventProc \<or> (\<exists>f\<in>F. fe_clientData fe = CLive f))"

definition te_serves :: "fptr set \<Rightarrow> (tproc, fptr) timeEvent \<Rightarrow> bool" where
  "te_serves F te \<longleftrightarrow> te_timeProc te = TimeEventProc \<and>
     te_finalizerProc te = Some TimeEventFinalizerProc \<and> (te_id te \<noteq> -1 \<longrightarrow> te_clientData te \<in> F)"

definition waiter_ok :: "fptr set \<Rightarrow> iowaiter \<Rightarrow> bool" where
  "waiter_ok F iw \<longleftrightarrow> poll_wf (iw_poll iw) \<and> timers_wf (iw_poll iw) \<and>
     (\<forall>fe\<in>set (pl_events (iw_poll iw)). fe_serves F fe) \<and>
     (\<forall>te\<in>set (pl_timeEvents (iw_poll iw)). te_serves F te)"

section \<open>Dispatching file events\<close>

lemma band_fired: "(m AND k AND (b :: int)) \<noteq> 0 \<Longrightarrow> m AND b \<noteq> 0"
proof -
  have "m AND k AND b = (m AND b) AND k" by (simp add: and.assoc and.commute and.left_commute)
  then show "m AND k AND b \<noteq> 0 \<Longrightarrow> m AND b \<noteq> 0" by auto
qed

text \<open>The effect of one procedure of a registered event.\<close>

lemma file_call_ok:
  assumes ok: "rt_ok K L F R s" and pr: "pr = PipeEventProc \<or> (\<exists>f\<in>F. cd = CLive f)"
  shows "\<exists>s'. file_call t w pr fd cd msk s = Some s' \<and> rt_ok K L F R s' \<and> wakes F s s' \<and>
     (\<forall>f. pr = FileEventProc \<and> cd = CLive f \<longrightarrow> \<not> parked f s')"
proof (cases pr)
  case FileEventProc
  then show ?thesis using pr fileEventProc_ok [OF ok] by auto
next
  case PipeEventProc
  then show ?thesis using pipeEventProc_ok [OF ok] by simp
qed

text \<open>A fired event that has \<open>fileEventProc\<close> as the procedure of a wanted direction.\<close>

definition fires :: "(fproc, fptr) fileEvent \<Rightarrow> int \<Rightarrow> fptr \<Rightarrow> bool" where
  "fires fe msk f \<longleftrightarrow> fe_clientData fe = CLive f \<and>
     ((fe_mask fe AND msk AND ECO_POLL_READABLE \<noteq> 0 \<and> fe_rfileProc fe = Some FileEventProc) \<or>
      (fe_mask fe AND msk AND ECO_POLL_WRITABLE \<noteq> 0 \<and> fe_wfileProc fe = Some FileEventProc))"

lemma dispatch_step:
  assumes ok: "rt_ok K L F R s" and fe: "fe_serves F fe"
    and fd: "0 \<le> fd" "nat fd < length (pl_events p)" "fe = pl_events p ! nat fd"
  shows "\<exists>s'. dispatch (file_call t w) p ((fd, msk) # fired) n s = dispatch (file_call t w) p fired (n + 1) s' \<and>
     rt_ok K L F R s' \<and> wakes F s s' \<and> (\<forall>f. fires fe msk f \<longrightarrow> \<not> parked f s')"
proof -
  define rf where "rf \<longleftrightarrow> fe_mask fe AND msk AND ECO_POLL_READABLE \<noteq> 0"
  define wf where "wf \<longleftrightarrow> fe_mask fe AND msk AND ECO_POLL_WRITABLE \<noteq> 0"
  have srv: "pr = PipeEventProc \<or> (\<exists>f\<in>F. fe_clientData fe = CLive f)"
    if "rf \<and> fe_rfileProc fe = Some pr \<or> wf \<and> fe_wfileProc fe = Some pr" for pr
    using fe that band_fired unfolding fe_serves_def rf_def wf_def by blast
  define c1 where "c1 = (if rf then (case fe_rfileProc fe of
      Some rp \<Rightarrow> file_call t w rp fd (fe_clientData fe) msk s | None \<Rightarrow> Some s) else Some s)"
  obtain s1 where s1: "c1 = Some s1" "rt_ok K L F R s1" "wakes F s s1"
      "rf \<and> fe_rfileProc fe = Some FileEventProc \<Longrightarrow> fe_clientData fe = CLive f \<Longrightarrow> \<not> parked f s1" for f
  proof (cases "rf \<and> fe_rfileProc fe \<noteq> None")
    case True
    then obtain rp where rp: "rf" "fe_rfileProc fe = Some rp" by blast
    obtain s' where "file_call t w rp fd (fe_clientData fe) msk s = Some s'" "rt_ok K L F R s'" "wakes F s s'"
        "\<forall>f. rp = FileEventProc \<and> fe_clientData fe = CLive f \<longrightarrow> \<not> parked f s'"
      using file_call_ok [OF ok, of rp "fe_clientData fe"] srv [of rp] rp by blast
    with that [of s'] rp show ?thesis by (simp add: c1_def)
  next
    case False
    then have "c1 = Some s" by (auto simp: c1_def)
    with that [of s] ok False show ?thesis by auto
  qed
  define c2 where "c2 = (if wf then (case fe_wfileProc fe of
      Some wp \<Rightarrow> (if \<not> rf \<or> fe_wfileProc fe \<noteq> fe_rfileProc fe
         then file_call t w wp fd (fe_clientData fe) msk s1 else Some s1) | None \<Rightarrow> Some s1) else Some s1)"
  have dd: "dispatch (file_call t w) p ((fd, msk) # fired) n s =
      (case c2 of None \<Rightarrow> None | Some s'' \<Rightarrow> dispatch (file_call t w) p fired (n + 1) s'')"
  proof -
    have g: "\<not> (fd < 0 \<or> nat fd \<ge> length (pl_events p))" using fd by simp
    show ?thesis
      unfolding dispatch.simps Let_def if_not_P [OF g] fd(3) [symmetric] rf_def [symmetric] wf_def [symmetric]
        c1_def [symmetric] s1(1) option.case c2_def ..
  qed
  show ?thesis
  proof (cases "wf \<and> fe_wfileProc fe \<noteq> None \<and> (\<not> rf \<or> fe_wfileProc fe \<noteq> fe_rfileProc fe)")
    case True
    then obtain wp where wp: "wf" "fe_wfileProc fe = Some wp" "\<not> rf \<or> fe_wfileProc fe \<noteq> fe_rfileProc fe" by blast
    obtain s2 where s2: "file_call t w wp fd (fe_clientData fe) msk s1 = Some s2" "rt_ok K L F R s2" "wakes F s1 s2"
        "\<forall>f. wp = FileEventProc \<and> fe_clientData fe = CLive f \<longrightarrow> \<not> parked f s2"
      using file_call_ok [OF s1(2), of wp "fe_clientData fe"] srv [of wp] wp by blast
    have "c2 = Some s2" using wp s2(1) by (simp add: c2_def)
    moreover have "\<not> parked f s2" if "fires fe msk f" for f
      using that s1(4) [of f] s2(3,4) wp unfolding fires_def rf_def [symmetric] wf_def [symmetric] wakes_def by auto
    ultimately show ?thesis using dd s2(2) wakes_trans [OF s1(3) s2(3)] by auto
  next
    case False
    then have "c2 = Some s1" by (auto simp: c2_def split: option.split)
    moreover have "\<not> parked f s1" if "fires fe msk f" for f
      using that False s1(4) [of f] unfolding fires_def rf_def [symmetric] wf_def [symmetric] by auto
    ultimately show ?thesis using dd s1(2,3) by auto
  qed
qed

lemma dispatch_ok:
  assumes fe: "\<forall>fe\<in>set (pl_events p). fe_serves F fe"
  shows "rt_ok K L F R s \<Longrightarrow> \<forall>e\<in>set fired. 0 \<le> fst e \<and> nat (fst e) < length (pl_events p) \<Longrightarrow>
    \<exists>s'. dispatch (file_call t w) p fired n s = Some (n + int (length fired), s') \<and>
     rt_ok K L F R s' \<and> wakes F s s' \<and>
     (\<forall>fd msk f. (fd, msk) \<in> set fired \<and> fires (pl_events p ! nat fd) msk f \<longrightarrow> \<not> parked f s')"
proof (induction fired arbitrary: n s)
  case Nil
  then show ?case by simp
next
  case (Cons e fired)
  obtain fd msk where e: "e = (fd, msk)" by (cases e)
  have fd: "0 \<le> fd" "nat fd < length (pl_events p)" using Cons.prems(2) e by auto
  then have "fe_serves F (pl_events p ! nat fd)" using fe by simp
  from dispatch_step [OF Cons.prems(1) this fd refl]
  obtain s1 where s1: "dispatch (file_call t w) p (e # fired) n s = dispatch (file_call t w) p fired (n + 1) s1"
      "rt_ok K L F R s1" "wakes F s s1" "\<forall>f. fires (pl_events p ! nat fd) msk f \<longrightarrow> \<not> parked f s1"
    unfolding e by blast
  have "\<forall>e\<in>set fired. 0 \<le> fst e \<and> nat (fst e) < length (pl_events p)" using Cons.prems(2) by simp
  from Cons.IH [OF s1(2) this, of "n + 1"]
  obtain s2 where s2: "dispatch (file_call t w) p fired (n + 1) s1 = Some (n + 1 + int (length fired), s2)"
      "rt_ok K L F R s2" "wakes F s1 s2"
      "\<forall>fd msk f. (fd, msk) \<in> set fired \<and> fires (pl_events p ! nat fd) msk f \<longrightarrow> \<not> parked f s2"
    by blast
  have st: "\<not> parked f s2" if "fires (pl_events p ! nat fd) msk f" for f
    using that s1(4) s2(3) unfolding wakes_def by blast
  have "dispatch (file_call t w) p (e # fired) n s = Some (n + int (length (e # fired)), s2)"
    unfolding s1(1) s2(1) by simp
  moreover have "\<forall>fd' msk' f. (fd', msk') \<in> set (e # fired) \<and> fires (pl_events p ! nat fd') msk' f \<longrightarrow> \<not> parked f s2"
    using s2(4) st unfolding e by auto
  ultimately show ?case using s2(2) wakes_trans [OF s1(3) s2(3)] by blast
qed

section \<open>One round of the waiter\<close>

text \<open>
  The system calls: epoll and the clock as in \<open>epoll_spec\<close> and \<open>clock_spec\<close>; the clock calls do
  not touch the interest set, and epoll_wait(2) reports descriptors of the interest set only.
\<close>

definition os_ok :: "'k os \<Rightarrow> ('k \<Rightarrow> int \<rightharpoonup> int) \<Rightarrow> ('k \<Rightarrow> int) \<Rightarrow> bool" where
  "os_ok os interest clk \<longleftrightarrow> epoll_spec os interest \<and> clock_spec os clk \<and>
     (\<forall>k. interest (snd (os_gettimeofday os k)) = interest k) \<and>
     (\<forall>k. interest (snd (os_time os k)) = interest k) \<and>
     (\<forall>n tmo k r evs k'. os_epoll_wait os n tmo k = ((r, evs), k') \<longrightarrow>
        interest k' = interest k \<and> clk k \<le> clk k' \<and> (\<forall>e\<in>set evs. interest k (fst e) \<noteq> None))"

lemma os_okD:
  assumes "os_ok os interest clk"
  shows os_epoll: "epoll_spec os interest" and os_clock: "clock_spec os clk"
    and os_gettime: "interest (snd (os_gettimeofday os k)) = interest k"
    and os_time: "interest (snd (os_time os k)) = interest k"
    and os_wait: "os_epoll_wait os n tmo k = ((r, evs), k') \<Longrightarrow>
        interest k' = interest k \<and> clk k \<le> clk k' \<and> (\<forall>e\<in>set evs. interest k (fst e) \<noteq> None)"
  using assms unfolding os_ok_def by blast+

lemma aeGetTime_ok:
  assumes "os_ok os interest clk" "aeGetTime os k = (now, k')"
  shows "interest k' = interest k" "clk k \<le> clk k'"
proof -
  have "k' = snd (os_gettimeofday os k)"
    using assms(2) by (cases "os_gettimeofday os k") (auto simp: aeGetTime_def)
  then show "interest k' = interest k" using os_gettime [OF assms(1)] by simp
  show "clk k \<le> clk k'" using aeGetTime_spec(1,2) [OF os_clock [OF assms(1)] assms(2)] by linarith
qed

lemma wait_timeout_ok:
  assumes "os_ok os interest clk" "wait_timeout os p flags timeout k = (tvp, k')"
  shows "interest k' = interest k" "clk k \<le> clk k'"
proof -
  have "k' = k \<or> (\<exists>now. aeGetTime os k = (now, k'))"
    using assms(2) unfolding wait_timeout_def Let_def
    by (auto split: option.splits if_splits prod.splits)
  then show "interest k' = interest k" "clk k \<le> clk k'"
    using aeGetTime_ok [OF assms(1)] by auto
qed

lemma aeApiPoll_ok:
  assumes "os_ok os interest clk" "aeApiPoll os p tvp k = (fired, k')"
  shows "interest k' = interest k" "clk k \<le> clk k'" "\<forall>e\<in>set fired. interest k (fst e) \<noteq> None"
proof -
  obtain tmo r evs where w: "os_epoll_wait os (pl_setsize p) tmo k = ((r, evs), k')"
    and f: "fired = (if r > 0 then map (\<lambda>(fd, ev). (fd, from_epoll ev)) (take (nat r) evs) else [])"
    using assms(2) unfolding aeApiPoll_def Let_def by (auto split: prod.splits)
  note ow = os_wait [OF assms(1) w]
  show "interest k' = interest k" "clk k \<le> clk k'" using ow by simp_all
  show "\<forall>e\<in>set fired. interest k (fst e) \<noteq> None"
  proof
    fix e assume "e \<in> set fired"
    then obtain x where "x \<in> set (take (nat r) evs)" "fst e = fst x"
      unfolding f by (auto split: if_splits)
    then show "interest k (fst e) \<noteq> None" using ow in_set_takeD by metis
  qed
qed

lemma time_loop_interest:
  assumes os: "os_ok os interest clk"
  shows "time_loop os tcall fcall maxId acc skip tes n k r = Some (n', l, k', r') \<Longrightarrow> interest k' = interest k"
proof (induction tes arbitrary: acc skip n k r)
  case (Cons te tes)
  obtain now_sec now_ms k1 where g: "aeGetTime os k = ((now_sec, now_ms), k1)" by (metis prod.collapse)
  have k1: "interest k1 = interest k" using aeGetTime_ok(1) [OF os g] .
  have k2: "interest (snd (aeAddMillisecondsToNow os x k1)) = interest k" for x
  proof -
    obtain now k2 where "aeGetTime os k1 = (now, k2)" by (metis prod.collapse)
    with aeGetTime_ok(1) [OF os this] k1 show ?thesis by (simp add: aeAddMillisecondsToNow_def)
  qed
  show ?case
  proof (cases "te_id te = -1 \<or> te_id te > maxId")
    case True
    then show ?thesis using Cons.prems by (auto split: option.splits if_splits dest: Cons.IH)
  next
    case False
    then have e: "Some (n', l, k', r') =
        (if now_sec > te_when_sec te \<or> (now_sec = te_when_sec te \<and> now_ms \<ge> te_when_ms te) then
           (case tcall (te_timeProc te) (te_id te) (te_clientData te) r of
              None \<Rightarrow> None
            | Some (retval, r') \<Rightarrow>
                (if retval \<noteq> -1 then
                   (let ((ws, wms), k2) = aeAddMillisecondsToNow os retval k1 in
                    time_loop os tcall fcall maxId
                      (acc @ skip @ [te\<lparr>te_when_sec := ws, te_when_ms := wms\<rparr>]) [] tes (n + 1) k2 r')
                 else time_loop os tcall fcall maxId (acc @ skip @ [te\<lparr>te_id := -1\<rparr>]) [] tes (n + 1) k1 r'))
         else time_loop os tcall fcall maxId (acc @ skip @ [te]) [] tes n k1 r)"
      using Cons.prems g by simp
    show ?thesis
    proof (cases "now_sec > te_when_sec te \<or> (now_sec = te_when_sec te \<and> now_ms \<ge> te_when_ms te)")
      case True
      then obtain rv r1 where "tcall (te_timeProc te) (te_id te) (te_clientData te) r = Some (rv, r1)"
        using e by (cases "tcall (te_timeProc te) (te_id te) (te_clientData te) r") auto
      then show ?thesis using e True k1 k2 [of rv]
        by (cases "aeAddMillisecondsToNow os rv k1") (auto split: if_splits dest!: sym [of "Some _"] Cons.IH)
    qed (use e k1 in \<open>auto dest!: sym [of "Some _"] Cons.IH\<close>)
  qed
qed simp

section \<open>The round\<close>

lemma time_call_ok:
  assumes te: "\<forall>te\<in>T. te_serves F te"
  shows "callbacks_ok (time_call t) final_call (\<lambda>s'. rt_ok K L F R s' \<and> wakes F s s')
     (\<lambda>te s'. \<not> parked (te_clientData te) s' \<and> fb_isIoWaitTimeout (rt_fibers s' (te_clientData te))) T"
  unfolding callbacks_ok_def
proof (intro conjI ballI allI impI)
  fix te s1 assume t: "te \<in> T" and a: "(rt_ok K L F R s1 \<and> wakes F s s1) \<and> te_id te \<noteq> -1"
  then have p: "te_timeProc te = TimeEventProc" "te_clientData te \<in> F" using te by (auto simp: te_serves_def)
  obtain s2 where s2: "EIoWaiter_timeEventProc t (te_clientData te) s1 = Some (-1, s2)" "rt_ok K L F R s2"
      "wakes F s1 s2" "\<not> parked (te_clientData te) s2" "fb_isIoWaitTimeout (rt_fibers s2 (te_clientData te))"
    using timeEventProc_ok [OF _ p(2), of K L R s1] a by blast
  have "wakes F s s2" using wakes_trans a s2(3) by blast
  moreover have "\<forall>x. \<not> parked x s1 \<and> fb_isIoWaitTimeout (rt_fibers s1 x) \<longrightarrow>
      \<not> parked x s2 \<and> fb_isIoWaitTimeout (rt_fibers s2 x)"
    using s2(3) unfolding wakes_def by blast
  ultimately show "\<exists>r'. time_call t (te_timeProc te) (te_id te) (te_clientData te) s1 = Some (-1, r') \<and>
      (rt_ok K L F R r' \<and> wakes F s r') \<and>
      (\<not> parked (te_clientData te) r' \<and> fb_isIoWaitTimeout (rt_fibers r' (te_clientData te))) \<and>
      (\<forall>x. \<not> parked (te_clientData x) s1 \<and> fb_isIoWaitTimeout (rt_fibers s1 (te_clientData x)) \<longrightarrow>
        \<not> parked (te_clientData x) r' \<and> fb_isIoWaitTimeout (rt_fibers r' (te_clientData x)))"
    using s2 p(1) by (intro exI [of _ s2]) auto
next
  fix te s1 fp assume t: "te \<in> T" and a: "(rt_ok K L F R s1 \<and> wakes F s s1) \<and> te_finalizerProc te = Some fp"
  then have "fp = TimeEventFinalizerProc" using te by (auto simp: te_serves_def)
  then show "\<exists>r'. final_call fp (te_clientData te) s1 = Some r' \<and> (rt_ok K L F R r' \<and> wakes F s r') \<and>
      (\<forall>x. \<not> parked (te_clientData x) s1 \<and> fb_isIoWaitTimeout (rt_fibers s1 (te_clientData x)) \<longrightarrow>
        \<not> parked (te_clientData x) r' \<and> fb_isIoWaitTimeout (rt_fibers r' (te_clientData x)))"
    using a by simp
qed

text \<open>The first half of a round: waiting, and the dispatch of what epoll reported.\<close>

lemma file_phase:
  assumes os: "os_ok os interest clk" and ok: "rt_ok K L F R s" and w: "waiter_ok F iw"
    and sy: "synced interest (iw_poll iw) k"
  shows "\<exists>n k' s'. (let (tvp, k1) = wait_timeout os (iw_poll iw) flags timeout k;
        (fired, k2) = aeApiPoll os (iw_poll iw) tvp k1
     in map_option (\<lambda>(n, r'). (n, k2, r')) (dispatch (file_call t wp) (iw_poll iw) fired 0 s)) = Some (n, k', s') \<and>
     interest k' = interest k \<and> clk k \<le> clk k' \<and> rt_ok K L F R s' \<and> wakes F s s'"
proof -
  let ?p = "iw_poll iw"
  obtain tvp k1 where w1: "wait_timeout os ?p flags timeout k = (tvp, k1)" by fastforce
  obtain fired k2 where w2: "aeApiPoll os ?p tvp k1 = (fired, k2)" by fastforce
  note i1 = wait_timeout_ok [OF os w1] and i2 = aeApiPoll_ok [OF os w2]
  have "0 \<le> fst e \<and> nat (fst e) < length (pl_events ?p)" if "e \<in> set fired" for e
  proof -
    have "interest k (fst e) \<noteq> None" using i2(3) i1(1) that by simp
    then have "0 \<le> fst e \<and> fst e < pl_setsize ?p" using sy unfolding synced_def by blast
    then show ?thesis using w by (simp add: waiter_ok_def poll_wf_def)
  qed
  then obtain s' where "dispatch (file_call t wp) ?p fired 0 s = Some (0 + int (length fired), s')"
      "rt_ok K L F R s'" "wakes F s s'"
    using dispatch_ok [OF _ ok, of ?p fired t wp 0] w unfolding waiter_ok_def by blast
  then show ?thesis using w1 w2 i1 i2 by auto
qed

text \<open>The second half: the timers.\<close>

lemma time_phase:
  assumes os: "os_ok os interest clk" and ok: "rt_ok K L F R s" and w: "waiter_ok F iw"
  shows "\<exists>d p' k' s'. processTimeEvents os (time_call t) final_call (iw_poll iw) k s = Some (d, p', k', s') \<and>
     interest k' = interest k \<and> rt_ok K L F R s' \<and> wakes F s s' \<and> waiter_ok F (iw\<lparr>iw_poll := p'\<rparr>) \<and>
     pl_events p' = pl_events (iw_poll iw) \<and> pl_setsize p' = pl_setsize (iw_poll iw) \<and>
     (\<forall>te\<in>set (pl_timeEvents (iw_poll iw)). te_id te \<noteq> -1 \<and> 0 \<le> te_when_sec te \<and> te_millis te \<le> clk k \<longrightarrow>
        \<not> parked (te_clientData te) s' \<and> fb_isIoWaitTimeout (rt_fibers s' (te_clientData te)))"
proof -
  let ?p = "iw_poll iw" and ?now = "fst (os_time os k)" and ?k1 = "snd (os_time os k)"
  let ?I = "\<lambda>s'. rt_ok K L F R s' \<and> wakes F s s'"
  let ?Q = "\<lambda>te s'. \<not> parked (te_clientData te) s' \<and> fb_isIoWaitTimeout (rt_fibers s' (te_clientData te))"
  have wf: "timers_wf ?p" and ts: "\<forall>te\<in>set (pl_timeEvents ?p). te_serves F te"
    using w by (auto simp: waiter_ok_def)
  have sk: "te_serves F te" if "te \<in> set (skew_list ?now ?p)" for te
    using skew_list_mem [OF that] ts by (auto simp: te_serves_def)
  then have cb: "callbacks_ok (time_call t) final_call ?I ?Q (set (skew_list ?now ?p))"
    by (intro time_call_ok) blast
  have "?I s" using ok by simp
  from processTimeEvents_walked [OF os_clock [OF os] wf cb this]
  obtain d out k' s' where r: "processTimeEvents os (time_call t) final_call ?p k s =
        Some (d, ?p\<lparr>pl_lastTime := ?now, pl_timeEvents := out\<rparr>, k', s')" "clk k \<le> clk ?k1"
      "walked clk ?I ?Q (skew_list ?now ?p) out d ?k1 s k' s'"
    by blast
  have ik: "interest k' = interest k"
  proof -
    obtain l out' where "time_loop os (time_call t) final_call (pl_timeEventNextId ?p - 1) [] [] l 0 ?k1 s =
        Some (d, out', k', s')"
      using r(1) unfolding processTimeEvents_def Let_def
      by (auto split: prod.splits option.splits)
    from time_loop_interest [OF os this] show ?thesis using os_time [OF os] by simp
  qed
  have out: "te_serves F te" if "te \<in> set out" for te
    using walked_out [OF r(3) that] sk by (auto simp: te_serves_def)
  have due: "?Q te s'" if te: "te \<in> set (pl_timeEvents ?p)" "te_id te \<noteq> -1" "0 \<le> te_when_sec te"
      "te_millis te \<le> clk k" for te
  proof -
    obtain x where x: "x \<in> set (skew_list ?now ?p)" "te_id x = te_id te"
        "te_clientData x = te_clientData te" "te_millis x \<le> te_millis te"
      using skew_list_due [OF te(1,3)] by blast
    have "te_id x \<noteq> -1 \<and> te_millis x \<le> clk ?k1" using x te r(2) by simp
    then have "?Q x s'" using r(3) x(1) unfolding walked_def by blast
    then show ?thesis using x(3) by simp
  qed
  have "waiter_ok F (iw\<lparr>iw_poll := ?p\<lparr>pl_lastTime := ?now, pl_timeEvents := out\<rparr>\<rparr>)"
    using w walked_timers_wf [OF wf r(3)] out unfolding waiter_ok_def poll_wf_def by simp
  moreover have "?I s'" using r(3) unfolding walked_def by blast
  ultimately show ?thesis using r(1) ik due by auto
qed

lemma EIoWaiter_round:
  assumes os: "os_ok os interest clk" and ok: "rt_ok K L F R s" and w: "waiter_ok F iw"
    and sy: "synced interest (iw_poll iw) k"
  shows "\<exists>n iw' k' s'. EIoWaiter_onceProcessEvents os t wp timeout iw k s = Some (n, iw', k', s') \<and>
     rt_ok K L F R s' \<and> wakes F s s' \<and> waiter_ok F iw' \<and> synced interest (iw_poll iw') k' \<and>
     iw_waiters iw' = iw_waiters iw \<and> pl_events (iw_poll iw') = pl_events (iw_poll iw) \<and>
     (\<forall>te\<in>set (pl_timeEvents (iw_poll iw)). te_id te \<noteq> -1 \<and> 0 \<le> te_when_sec te \<and> te_millis te \<le> clk k \<longrightarrow>
        \<not> parked (te_clientData te) s' \<and> fb_isIoWaitTimeout (rt_fibers s' (te_clientData te)))"
proof -
  let ?p = "iw_poll iw"
  define files where "files = (if pl_maxfd ?p \<noteq> -1 \<or> timeout \<noteq> 0 then
      (let (tvp, k1) = wait_timeout os ?p ECO_POLL_ALL_EVENTS timeout k;
           (fired, k2) = aeApiPoll os ?p tvp k1
       in map_option (\<lambda>(n, r'). (n, k2, r')) (dispatch (file_call t wp) ?p fired 0 s)) else Some (0, k, s))"
  obtain n1 k1 s1 where f: "files = Some (n1, k1, s1)" "interest k1 = interest k" "clk k \<le> clk k1"
      "rt_ok K L F R s1" "wakes F s s1"
  proof (cases "pl_maxfd ?p \<noteq> -1 \<or> timeout \<noteq> 0")
    case True
    then show ?thesis using that file_phase [OF os ok w sy, of "ECO_POLL_ALL_EVENTS" timeout t wp]
      unfolding files_def by auto
  next
    case False
    then show ?thesis using that [of 0 k s] ok unfolding files_def by auto
  qed
  obtain d p' k' s' where t: "processTimeEvents os (time_call t) final_call ?p k1 s1 = Some (d, p', k', s')"
      "interest k' = interest k1" "rt_ok K L F R s'" "wakes F s1 s'" "waiter_ok F (iw\<lparr>iw_poll := p'\<rparr>)"
      "pl_events p' = pl_events ?p" "pl_setsize p' = pl_setsize ?p"
      "\<forall>te\<in>set (pl_timeEvents ?p). te_id te \<noteq> -1 \<and> 0 \<le> te_when_sec te \<and> te_millis te \<le> clk k1 \<longrightarrow>
        \<not> parked (te_clientData te) s' \<and> fb_isIoWaitTimeout (rt_fibers s' (te_clientData te))"
    using time_phase [OF os f(4) w, of t k1] by blast
  have "eco_poll_process_events os (file_call t wp) (time_call t) final_call ?p ECO_POLL_ALL_EVENTS timeout k s =
      Some (n1 + d, p', k', s')"
    unfolding eco_poll_process_events_def
    using f(1) t(1) unfolding files_def by (simp add: Let_def)
  then have "EIoWaiter_onceProcessEvents os t wp timeout iw k s = Some (n1 + d, iw\<lparr>iw_poll := p'\<rparr>, k', s')"
    by (simp add: EIoWaiter_onceProcessEvents_def)
  moreover have "synced interest p' k'"
    using sy unfolding synced_def t(2,6,7) f(2) .
  moreover have "\<forall>te\<in>set (pl_timeEvents ?p). te_id te \<noteq> -1 \<and> 0 \<le> te_when_sec te \<and> te_millis te \<le> clk k \<longrightarrow>
        \<not> parked (te_clientData te) s' \<and> fb_isIoWaitTimeout (rt_fibers s' (te_clientData te))"
    using t(8) f(3) by auto
  ultimately show ?thesis using t(3,5,6) wakes_trans [OF f(5) t(4)] by auto
qed

section \<open>Registering and releasing\<close>

lemma store_event_mem:
  "fe \<in> set (pl_events (store_event p fd msk proc cd)) \<Longrightarrow>
     fe \<in> set (pl_events p) \<or> fe_clientData fe = cd"
  unfolding store_event_def Let_def
  by (auto split: if_splits dest!: subsetD [OF set_update_subset_insert])

lemma setFileEvent_ok:
  assumes ep: "epoll_spec os interest" and w: "waiter_ok F iw" and sy: "synced interest (iw_poll iw) k"
    and m: "msk \<noteq> 0" and fd: "0 \<le> fd" and f: "f \<in> F"
  shows "\<exists>iw' k'. EIoWaiter_setFileEvent os fd msk f iw k s =
       Some (iw', k', upd_fiber f (\<lambda>fb. fb\<lparr>fb_state := WAITING\<rparr>) s) \<and>
     waiter_ok F iw' \<and> synced interest (iw_poll iw') k' \<and> iw_waiters iw' = iw_waiters iw + 1 \<and>
     (iw_poll iw' = store_event (iw_poll iw) fd msk FileEventProc (CLive f) \<and> fd < pl_setsize (iw_poll iw) \<or>
      iw_poll iw' = iw_poll iw \<and> (fd \<ge> pl_setsize (iw_poll iw) \<or> ev_mask (iw_poll iw) fd = 0))"
proof -
  let ?p = "iw_poll iw" and ?st = "store_event (iw_poll iw) fd msk FileEventProc (CLive f)"
  have wf: "poll_wf ?p" using w by (simp add: waiter_ok_def)
  obtain b p' k' where c: "eco_poll_file_event_create os ?p fd msk FileEventProc (CLive f) k = Some ((b, p'), k')"
      "poll_wf p'" "synced interest p' k'" "b \<longrightarrow> fd < pl_setsize ?p \<and> p' = ?st"
      "\<not> b \<longrightarrow> p' = ?p \<and> (fd \<ge> pl_setsize ?p \<or> ev_mask ?p fd = 0)"
    using file_event_create_spec [OF ep wf sy m fd, of FileEventProc "CLive f"] by blast
  have sv: "fe_serves F fe" if "fe \<in> set (pl_events ?st)" for fe
    using store_event_mem [OF that] w f unfolding waiter_ok_def fe_serves_def by blast
  have "waiter_ok F (iw\<lparr>iw_poll := p', iw_waiters := iw_waiters iw + 1\<rparr>)"
  proof (cases b)
    case True
    then have "p' = ?st" using c(4) by blast
    then show ?thesis using w c(2) sv unfolding waiter_ok_def timers_wf_def by simp
  next
    case False
    then have "p' = ?p" using c(5) by blast
    then show ?thesis using w unfolding waiter_ok_def by simp
  qed
  then show ?thesis
    using c unfolding EIoWaiter_setFileEvent_def by (cases b) auto
qed

lemma drop_event_mem:
  "fe \<in> set (pl_events (drop_event p fd msk)) \<Longrightarrow>
     fe \<in> set (pl_events p) \<or> fe = (pl_events p ! nat fd)\<lparr>fe_mask := ev_mask p fd AND NOT msk\<rparr>"
  unfolding drop_event_events by (auto dest!: subsetD [OF set_update_subset_insert])

text \<open>A deletion that clears the whole mask leaves nothing behind that could be dispatched.\<close>

lemma delFileEvent_ok:
  assumes ep: "epoll_spec os interest" and w: "waiter_ok F iw" and sy: "synced interest (iw_poll iw) k"
    and fd: "0 \<le> fd" "fd < pl_setsize (iw_poll iw)"
    and live: "fe_clientData (pl_events (iw_poll iw) ! nat fd) = CLive f"
    and all: "ev_mask (iw_poll iw) fd AND NOT msk = 0"
  shows "\<exists>iw' k'. EIoWaiter_delFileEvent os fd msk iw k = Some (iw', k') \<and>
     waiter_ok F iw' \<and> synced interest (iw_poll iw') k' \<and> iw_waiters iw' = iw_waiters iw - 1 \<and>
     ev_mask (iw_poll iw') fd = 0 \<and>
     (\<forall>i. 0 \<le> i \<and> i \<noteq> fd \<longrightarrow> pl_events (iw_poll iw') ! nat i = pl_events (iw_poll iw) ! nat i)"
proof -
  define p where p: "p = iw_poll iw"
  define fe where fe: "fe = (pl_events p ! nat fd)\<lparr>fe_clientData := CDead\<rparr>"
  define p1 where p1: "p1 = p\<lparr>pl_events := (pl_events p)[nat fd := fe]\<rparr>"
  have wf: "poll_wf p" using w by (simp add: waiter_ok_def p)
  have l: "nat fd < length (pl_events p)" using wf fd unfolding p poll_wf_def by simp
  have nth: "pl_events p1 ! nat i = (if nat i = nat fd then fe else pl_events p ! nat i)" for i
    using l unfolding p1 by simp
  have msk1: "ev_mask p1 i = ev_mask p i" for i
    unfolding nth fe by simp
  have psz: "pl_setsize p1 = pl_setsize p" unfolding p1 by simp
  have wf1: "poll_wf p1"
    using wf unfolding poll_wf_def msk1 by (simp add: p1)
  have sy1: "synced interest p1 k"
    using sy [folded p] unfolding synced_def msk1 psz .
  have del: "EIoWaiter_delFileEvent os fd msk iw k = (case eco_poll_file_event_delete os p1 fd msk k of
      None \<Rightarrow> None | Some (p2, k') \<Rightarrow> Some (iw\<lparr>iw_poll := p2, iw_waiters := iw_waiters iw - 1\<rparr>, k'))"
    using fd live unfolding EIoWaiter_delFileEvent_def p1 fe p by (simp add: Let_def)
  obtain p2 k2 where d: "eco_poll_file_event_delete os p1 fd msk k = Some (p2, k2)" "poll_wf p2"
      "synced interest p2 k2" "p2 = drop_event p1 fd msk \<and> fd < pl_setsize p1 \<and> ev_mask p1 fd \<noteq> 0 \<or>
        p2 = p1 \<and> k2 = k \<and> (fd \<ge> pl_setsize p1 \<or> ev_mask p1 fd = 0)"
    using file_event_delete_spec [OF ep wf1 sy1 fd(1), of msk] by blast
  have sz: "pl_setsize p1 = pl_setsize p" "pl_timeEvents p1 = pl_timeEvents p"
    "pl_timeEventNextId p1 = pl_timeEventNextId p" unfolding p1 by simp_all
  have p2: "pl_timeEvents p2 = pl_timeEvents p" "pl_timeEventNextId p2 = pl_timeEventNextId p"
    using d(4) sz by auto
  have l1: "nat fd < length (pl_events p1)" using l unfolding p1 by simp
  have z: "ev_mask p2 fd = 0"
  proof (cases "p2 = p1")
    case True
    then show ?thesis using d(4) fd sz all msk1 [of fd] drop_event_mask [OF fd(1) l1 fd(1), of msk] unfolding p by auto
  next
    case False
    then show ?thesis using d(4) drop_event_mask [OF fd(1) l1 fd(1), of msk] all msk1 [of fd] unfolding p by auto
  qed
  have ev2: "pl_events p2 = pl_events p1 \<or> pl_events p2 = (pl_events p1)[nat fd := fe\<lparr>fe_mask := 0\<rparr>]"
    using d(4) drop_event_events [of p1 fd msk] all msk1 [of fd] nth [of fd] unfolding p by auto
  have oth: "pl_events p2 ! nat i = pl_events p ! nat i" if "0 \<le> i" "i \<noteq> fd" for i
  proof -
    have ni: "nat i \<noteq> nat fd" using that fd by auto
    then have "pl_events p1 ! nat i = pl_events p ! nat i" using nth [of i] by simp
    then show ?thesis using ev2 ni by (metis nth_list_update_neq)
  qed
  have "fe_serves F x" if x: "x \<in> set (pl_events p2)" for x
  proof -
    obtain j where j: "j < length (pl_events p2)" "x = pl_events p2 ! j" using x by (metis in_set_conv_nth)
    show ?thesis
    proof (cases "j = nat fd")
      case True
      then have "fe_mask x = 0" using z j by simp
      then show ?thesis by (simp add: fe_serves_def)
    next
      case False
      then have "x = pl_events p ! j" using oth [of "int j"] j fd by auto
      moreover have "j < length (pl_events p)" using j(1) ev2 unfolding p1 by (metis length_list_update poll.select_convs(5) poll.surjective poll.update_convs(5))
      ultimately show ?thesis using w unfolding waiter_ok_def p by simp
    qed
  qed
  then have "waiter_ok F (iw\<lparr>iw_poll := p2, iw_waiters := iw_waiters iw - 1\<rparr>)"
    using w d(2) p2 unfolding waiter_ok_def timers_wf_def p by simp
  then show ?thesis using del d(1,3) z oth unfolding p by simp
qed

lemma setupTimer_ok:
  assumes os: "os_ok os interest clk" and w: "waiter_ok F iw" and ms: "0 \<le> timeout" and f: "f \<in> F"
    and r: "EIoWaiter_setupTimer os timeout f iw k s = (i, iw', k', s')"
  shows "waiter_ok F iw'" "iw_waiters iw' = iw_waiters iw + 1" "i = pl_timeEventNextId (iw_poll iw)"
    "s' = upd_fiber f (\<lambda>fb. fb\<lparr>fb_isIoWaitTimeout := False\<rparr>) s" "interest k' = interest k"
    "pl_events (iw_poll iw') = pl_events (iw_poll iw)"
    "\<exists>te. pl_timeEvents (iw_poll iw') = te # pl_timeEvents (iw_poll iw) \<and> te_id te = i \<and> te_clientData te = f \<and>
       clk k + timeout \<le> te_millis te \<and> te_millis te \<le> clk k' + timeout"
proof -
  let ?p = "iw_poll iw"
  obtain p' where c: "eco_poll_time_event_create os ?p timeout TimeEventProc f (Some TimeEventFinalizerProc) k
      = ((i, p'), k')" and iw': "iw' = iw\<lparr>iw_poll := p', iw_waiters := iw_waiters iw + 1\<rparr>"
    and s': "s' = upd_fiber f (\<lambda>fb. fb\<lparr>fb_isIoWaitTimeout := False\<rparr>) s"
    using r by (auto simp: EIoWaiter_setupTimer_def Let_def split: prod.splits)
  have wf: "timers_wf ?p" using w by (simp add: waiter_ok_def)
  note sp = time_event_create_spec [OF os_clock [OF os] wf ms c]
  obtain te where te: "pl_timeEvents p' = te # pl_timeEvents ?p" "te_id te = i" "te_timeProc te = TimeEventProc"
      "te_finalizerProc te = Some TimeEventFinalizerProc" "te_clientData te = f"
      "clk k + timeout \<le> te_millis te" "te_millis te \<le> clk k' + timeout"
    using sp(6) by blast
  have "te_serves F te" using te f by (simp add: te_serves_def)
  then show "waiter_ok F iw'"
    using w sp(1-5) te(1) unfolding waiter_ok_def poll_wf_def iw' by simp
  show "\<exists>te. pl_timeEvents (iw_poll iw') = te # pl_timeEvents (iw_poll iw) \<and> te_id te = i \<and> te_clientData te = f \<and>
       clk k + timeout \<le> te_millis te \<and> te_millis te \<le> clk k' + timeout"
    using te unfolding iw' by simp
  show "interest k' = interest k"
  proof -
    obtain due where "aeAddMillisecondsToNow os timeout k = (due, k')"
      using c by (auto simp: eco_poll_time_event_create_def Let_def split: prod.splits)
    then obtain now where "aeGetTime os k = (now, k')"
      by (auto simp: aeAddMillisecondsToNow_def split: prod.splits)
    from aeGetTime_ok(1) [OF os this] show ?thesis .
  qed
qed (use r in \<open>auto simp: EIoWaiter_setupTimer_def eco_poll_time_event_create_def Let_def split: prod.splits\<close>)

text \<open>A cancelled timer is not among the live timers any more; all the others are as before.\<close>

lemma mark_deleted_again: "snd (mark_deleted (-1) tes) = tes"
  by (induction tes) (auto split: prod.splits)

lemma cancelTimer_fields:
  "iw_waiters (EIoWaiter_cancelTimer i iw) = iw_waiters iw - 1"
  "pl_events (iw_poll (EIoWaiter_cancelTimer i iw)) = pl_events (iw_poll iw)"
  "pl_setsize (iw_poll (EIoWaiter_cancelTimer i iw)) = pl_setsize (iw_poll iw)"
  "pl_timeEvents (iw_poll (EIoWaiter_cancelTimer i iw)) = snd (mark_deleted i (pl_timeEvents (iw_poll iw)))"
  by (simp_all add: EIoWaiter_cancelTimer_def eco_poll_time_event_delete_def split: prod.split)

lemma cancelTimer_ids:
  assumes w: "waiter_ok F iw" and i: "i \<noteq> -1"
  shows "live_ids (pl_timeEvents (iw_poll (EIoWaiter_cancelTimer i iw))) =
      [j\<leftarrow>live_ids (pl_timeEvents (iw_poll iw)). j \<noteq> i]"
proof -
  have "distinct (live_ids (pl_timeEvents (iw_poll iw)))" using w by (simp add: waiter_ok_def timers_wf_def)
  from mark_deleted_spec(2) [OF this i] show ?thesis by (simp add: cancelTimer_fields)
qed

lemma cancelTimer_ok:
  assumes w: "waiter_ok F iw"
  shows "waiter_ok F (EIoWaiter_cancelTimer i iw)"
proof -
  let ?p = "iw_poll iw" and ?tes = "snd (mark_deleted i (pl_timeEvents (iw_poll iw)))"
  have p': "snd (eco_poll_time_event_delete ?p i) = ?p\<lparr>pl_timeEvents := ?tes\<rparr>"
    by (simp add: eco_poll_time_event_delete_def split: prod.split)
  have d: "distinct (live_ids (pl_timeEvents ?p))"
    using w by (auto simp: waiter_ok_def timers_wf_def)
  have md: "distinct (live_ids ?tes) \<and> (\<forall>te\<in>set ?tes. \<exists>x\<in>set (pl_timeEvents ?p). te = x \<or> te = x\<lparr>te_id := -1\<rparr>)"
  proof (cases "i = -1")
    case True
    then show ?thesis using d mark_deleted_again [of "pl_timeEvents ?p"] by auto
  next
    case False
    have "\<exists>x\<in>set (pl_timeEvents ?p). te = x \<or> te = x\<lparr>te_id := -1\<rparr>" if "te \<in> set ?tes" for te
      using list_all2_right_mem [OF mark_deleted_spec(3) [OF d False] that] by (auto split: if_splits)
    then show ?thesis using mark_deleted_spec(2) [OF d False] d by simp
  qed
  then have "\<forall>te\<in>set ?tes. -1 \<le> te_id te \<and> te_id te < pl_timeEventNextId ?p \<and> ms_ok te \<and> te_serves F te"
    using w by (fastforce simp: waiter_ok_def timers_wf_def te_serves_def)
  then show ?thesis
    using w md unfolding waiter_ok_def timers_wf_def poll_wf_def
    by (simp add: EIoWaiter_cancelTimer_def p')
qed

section \<open>Descriptors that the array cannot hold, and two fibers on one descriptor\<close>

text \<open>The fiber is parked, and counted, although nothing has been registered that could wake it.\<close>

lemma setFileEvent_refused:
  assumes "fd \<ge> pl_setsize (iw_poll iw)"
  shows "EIoWaiter_setFileEvent os fd msk f iw k s =
     Some (iw\<lparr>iw_waiters := iw_waiters iw + 1\<rparr>, k, upd_fiber f (\<lambda>fb. fb\<lparr>fb_state := WAITING\<rparr>) s)"
  using assms by (simp add: EIoWaiter_setFileEvent_def eco_poll_file_event_create_def)

text \<open>The second registration on a descriptor replaces the holder of the first.\<close>

lemma store_event_twice:
  assumes "0 \<le> fd" "nat fd < length (pl_events p)"
  shows "fe_clientData (pl_events (store_event (store_event p fd m1 pr c1) fd m2 pr c2) ! nat fd) = c2"
  by (rule store_event_data) (use assms in simp)

section \<open>A concrete kernel\<close>

text \<open>
  For evaluating examples: a kernel with an interest set, a clock in milliseconds and a list of
  ready events, of which \<open>epoll_wait\<close> reports the registered ones.
\<close>

record simk =
  sk_interest :: "int \<rightharpoonup> int"
  sk_clock :: int
  sk_ready :: "(int \<times> int) list"

definition sim_os :: "simk os" where
  "sim_os = \<lparr>os_gettimeofday = (\<lambda>k. ((sk_clock k div 1000, (sk_clock k mod 1000) * 1000), k)),
     os_time = (\<lambda>k. (sk_clock k div 1000, k)),
     os_epoll_ctl = (\<lambda>opr fd ev k. case opr of
        EPOLL_CTL_DEL \<Rightarrow> (0, k\<lparr>sk_interest := (sk_interest k)(fd := None)\<rparr>)
      | _ \<Rightarrow> (0, k\<lparr>sk_interest := (sk_interest k)(fd \<mapsto> ev)\<rparr>)),
     os_epoll_wait = (\<lambda>n tmo k. let l = [e\<leftarrow>sk_ready k. sk_interest k (fst e) \<noteq> None]
        in ((int (length l), l), k))\<rparr>"

lemma sim_os_ok: "os_ok sim_os sk_interest sk_clock"
proof -
  have d: "c div 1000 * 1000 + c mod 1000 * 1000 div 1000 = c" for c :: int
    by simp
  have b: "c mod 1000 * 1000 < 1000000" for c :: int
    using pos_mod_bound [of 1000 c] by linarith
  show ?thesis
    unfolding os_ok_def epoll_spec_def clock_spec_def sim_os_def
    using d b by (simp add: Let_def)
qed

end
