(* ===== verification/Hooker_Files.thy ===== *)
theory Hooker_Files
  imports File_Context Io_Waiter
begin

text \<open>
  The hooks of src/EHooker.cpp that return without waiting for io: signals, the sleep family, and
  the calls that close, duplicate or configure a descriptor. A hook replaces the C library
  function of its name; the originals (\<open>close_f\<close> and so on) are arguments that act on the kernel
  state. What a hook needs to know of its thread is the record \<open>hw\<close>.
\<close>

section \<open>The state that hooks see\<close>

record ('k, 'z) hw =
  hw_kernel :: 'k
  hw_files :: fcm
  hw_waiter :: iowaiter  \<comment> \<open>\<open>EFiberScheduler::currentIoWaiter()\<close>\<close>
  hw_rt :: "'z rt_scheme"
  hw_fiber :: fptr  \<comment> \<open>\<open>EFiber::currentFiber()\<close>\<close>
  hw_sched :: bool  \<comment> \<open>\<open>EFiberScheduler::currentScheduler()\<close> is not null\<close>
  hw_signaled :: bool  \<comment> \<open>\<open>process_signaled\<close>\<close>
  hw_escaped :: int  \<comment> \<open>\<open>interrupt_escaped_time\<close>\<close>
  hw_sigfuncs :: "int list"  \<comment> \<open>\<open>sigfunc_map\<close>: function addresses, 0 is null\<close>

abbreviation (input) SIGRTMAX :: int where "SIGRTMAX \<equiv> 64"

definition isInterrupted :: "('k, 'z) hw \<Rightarrow> bool" where
  "isInterrupted w = hw_signaled w"

definition interruptEscapedTime :: "('k, 'z) hw \<Rightarrow> int" where
  "interruptEscapedTime w = hw_escaped w"

text \<open>The test at the head of most hooks: then the original is called.\<close>

definition bypass :: "('k, 'z) hw \<Rightarrow> bool" where
  "bypass w \<longleftrightarrow> \<not> hw_sched w \<or> isInterrupted w"

definition on_kernel :: "('k \<Rightarrow> 'r \<times> 'k) \<Rightarrow> ('k, 'z) hw \<Rightarrow> 'r \<times> ('k, 'z) hw" where
  "on_kernel g w = (let (r, k) = g (hw_kernel w) in (r, w\<lparr>hw_kernel := k\<rparr>))"

section \<open>Signals\<close>

text \<open>
  The handler that the kernel calls for every signal with a user handler. \<open>now\<close> reads the clock,
  \<open>run\<close> is the user handler at an address. \<open>None\<close> is an index below the array.
\<close>

definition sigfunc :: "('k \<Rightarrow> int \<times> 'k) \<Rightarrow> (int \<Rightarrow> int \<Rightarrow> ('k, 'z) hw \<Rightarrow> ('k, 'z) hw) \<Rightarrow> int \<Rightarrow>
    ('k, 'z) hw \<Rightarrow> ('k, 'z) hw option" where
  "sigfunc now run sig w =
     (let (t1, w1) = on_kernel now (w\<lparr>hw_signaled := True\<rparr>) in
      if sig < 0 then None
      else
       (let w2 = (if sig < SIGRTMAX \<and> hw_sigfuncs w1 ! nat sig \<noteq> 0
                  then run (hw_sigfuncs w1 ! nat sig) sig w1 else w1);
            (t2, w3) = on_kernel now w2
        in Some (w3\<lparr>hw_escaped := t2 - t1, hw_signaled := False\<rparr>)))"

text \<open>
  \<open>signal\<close>: \<open>func\<close> and \<open>sf\<close> are the addresses of the handler and of \<open>sigfunc\<close>; the special
  values (\<open>SIG_DFL\<close>, \<open>SIG_IGN\<close>) are small.
\<close>

definition hook_signal :: "(int \<Rightarrow> int \<Rightarrow> 'k \<Rightarrow> unit \<times> 'k) \<Rightarrow> int \<Rightarrow> int \<Rightarrow> int \<Rightarrow>
    ('k, 'z) hw \<Rightarrow> (int \<times> ('k, 'z) hw) option" where
  "hook_signal signal_f sf sig func w =
     (if sig < SIGRTMAX then
        (if func > 512 then
           (if sig < 0 then None
            else Some (func, snd (on_kernel (signal_f sig sf)
                   (w\<lparr>hw_sigfuncs := (hw_sigfuncs w)[nat sig := func]\<rparr>))))
         else Some (func, snd (on_kernel (signal_f sig func) w)))
      else Some (0, w))"

section \<open>Sleeping\<close>

text \<open>
  A hook that sleeps either calls the original, or sleeps the fiber for so many milliseconds with
  \<open>EFiber::sleep\<close> and then returns, or fails with an \<open>errno\<close>.
\<close>

datatype 'a sleeping = CallOriginal 'a | FiberSleep int | SleepError int

abbreviation (input) EINVAL :: int where "EINVAL \<equiv> 22"

text \<open>\<open>seconds * 1000\<close> is computed in unsigned 32 bits, before it is widened.\<close>

definition hook_sleep :: "u32 \<Rightarrow> ('k, 'z) hw \<Rightarrow> u32 sleeping" where
  "hook_sleep seconds w =
     (if bypass w then CallOriginal seconds else FiberSleep (uint (seconds * 1000)))"

definition hook_usleep :: "u32 \<Rightarrow> ('k, 'z) hw \<Rightarrow> u32 sleeping" where
  "hook_usleep usec w = (if bypass w then CallOriginal usec else FiberSleep (uint (usec div 1000)))"

definition hook_nanosleep :: "(int \<times> int) option \<Rightarrow> ('k, 'z) hw \<Rightarrow> (int \<times> int) sleeping" where
  "hook_nanosleep req w =
     (case req of
        None \<Rightarrow> SleepError EINVAL
      | Some (sec, nsec) \<Rightarrow>
          if bypass w then CallOriginal (sec, nsec) else FiberSleep (sec * 1000 + nsec sdiv 1000000))"

section \<open>Closing and duplicating\<close>

text \<open>The test of the hooks on a descriptor: a fiber calls, and the descriptor is a pipe or socket.\<close>

definition hooked_fd :: "'k sysapi \<Rightarrow> int \<Rightarrow> ('k, 'z) hw \<Rightarrow> bool" where
  "hooked_fd S fd w \<longleftrightarrow> hw_sched w \<and> isStreamFile S (hw_kernel w) fd \<and> \<not> isInterrupted w"

text \<open>
  \<open>scheduler->delFileContext(fd)\<close> and \<open>scheduler->getFileContext(fd)\<close>, called by the running
  fiber. While a fiber runs the destructor of a context does nothing, so that it does not matter
  who else holds the context.
\<close>

definition hw_del :: "'k sysapi \<Rightarrow> (int \<Rightarrow> int) \<Rightarrow> int \<Rightarrow> ('k, 'z) hw \<Rightarrow> unit fres \<times> ('k, 'z) hw" where
  "hw_del S up fd w =
     (let (r, m, k) = EFiberScheduler_delFileContext S up (Some (hw_fiber w)) [] fd (hw_files w) (hw_kernel w)
      in (r, w\<lparr>hw_files := m, hw_kernel := k\<rparr>))"

definition hw_get :: "'k sysapi \<Rightarrow> (int \<Rightarrow> int) \<Rightarrow> int \<Rightarrow> ('k, 'z) hw \<Rightarrow> cptr fres \<times> ('k, 'z) hw" where
  "hw_get S up fd w =
     (let (r, m, k) = EFiberScheduler_getFileContext S up fd (hw_files w) (hw_kernel w)
      in (r, w\<lparr>hw_files := m, hw_kernel := k\<rparr>))"

definition hw_ctx :: "cptr \<Rightarrow> ('k, 'z) hw \<Rightarrow> fctx" where
  "hw_ctx c w = fm_ctx (hw_files w) c"

definition upd_ctx :: "cptr \<Rightarrow> (fctx \<Rightarrow> fctx) \<Rightarrow> ('k, 'z) hw \<Rightarrow> ('k, 'z) hw" where
  "upd_ctx c g w = w\<lparr>hw_files := (hw_files w)\<lparr>fm_ctx := (fm_ctx (hw_files w))(c := g (hw_ctx c w))\<rparr>\<rparr>"

text \<open>The rest of a hook runs only if the table access has returned.\<close>

fun fthen :: "'a fres \<times> 'w \<Rightarrow> ('a \<Rightarrow> 'w \<Rightarrow> 'b fres \<times> 'w) \<Rightarrow> 'b fres \<times> 'w" where
  "fthen (FOk a, w) g = g a w"
| "fthen (FThrow, w) g = (FThrow, w)"
| "fthen (FSpin, w) g = (FSpin, w)"
| "fthen (FFault, w) g = (FFault, w)"

definition fcall :: "('k \<Rightarrow> 'r \<times> 'k) \<Rightarrow> ('k, 'z) hw \<Rightarrow> 'r fres \<times> ('k, 'z) hw" where
  "fcall g w = (let (r, w') = on_kernel g w in (FOk r, w'))"

definition hook_close :: "'k sysapi \<Rightarrow> (int \<Rightarrow> int) \<Rightarrow> (int \<Rightarrow> 'k \<Rightarrow> int \<times> 'k) \<Rightarrow> int \<Rightarrow> ('k, 'z) hw \<Rightarrow>
    int fres \<times> ('k, 'z) hw" where
  "hook_close S up close_f fd w =
     (if hooked_fd S fd w then fthen (hw_del S up fd w) (\<lambda>_. fcall (close_f fd))
      else fcall (close_f fd) w)"

definition hook_dup2 :: "'k sysapi \<Rightarrow> (int \<Rightarrow> int) \<Rightarrow> (int \<Rightarrow> int \<Rightarrow> 'k \<Rightarrow> int \<times> 'k) \<Rightarrow> int \<Rightarrow> int \<Rightarrow>
    ('k, 'z) hw \<Rightarrow> int fres \<times> ('k, 'z) hw" where
  "hook_dup2 S up dup2_f oldfd newfd w =
     (if oldfd = newfd then (FOk 0, w)
      else if hooked_fd S newfd w then fthen (hw_del S up newfd w) (\<lambda>_. fcall (dup2_f oldfd newfd))
      else fcall (dup2_f oldfd newfd) w)"

text \<open>\<open>dup3\<close>: the results are paired with \<open>errno\<close>.\<close>

definition hook_dup3 :: "'k sysapi \<Rightarrow> (int \<Rightarrow> int) \<Rightarrow> (int \<Rightarrow> int \<Rightarrow> int \<Rightarrow> 'k \<Rightarrow> (int \<times> int) \<times> 'k) \<Rightarrow>
    int \<Rightarrow> int \<Rightarrow> int \<Rightarrow> ('k, 'z) hw \<Rightarrow> (int \<times> int) fres \<times> ('k, 'z) hw" where
  "hook_dup3 S up dup3_f oldfd newfd flags w =
     (if oldfd = newfd then (FOk (-1, EINVAL), w)
      else if hooked_fd S newfd w then fthen (hw_del S up newfd w) (\<lambda>_. fcall (dup3_f oldfd newfd flags))
      else fcall (dup3_f oldfd newfd flags) w)"

section \<open>Configuring\<close>

datatype fcntl_cmd = F_SETFL int | F_GETFL | F_OTHER int int  \<comment> \<open>the command and its argument\<close>

text \<open>\<open>fcntl_f\<close> with the two commands that the hook treats is in \<open>S\<close>; \<open>other_f\<close> is the rest.\<close>

definition fcntl_orig :: "'k sysapi \<Rightarrow> (int \<Rightarrow> int \<Rightarrow> int \<Rightarrow> 'k \<Rightarrow> int \<times> 'k) \<Rightarrow> int \<Rightarrow> fcntl_cmd \<Rightarrow> 'k \<Rightarrow> int \<times> 'k" where
  "fcntl_orig S other_f fd cmd k =
     (case cmd of F_SETFL fl \<Rightarrow> sy_setfl S fd fl k | F_GETFL \<Rightarrow> (sy_getfl S k fd, k)
      | F_OTHER c a \<Rightarrow> other_f fd c a k)"

definition hook_fcntl :: "'k sysapi \<Rightarrow> (int \<Rightarrow> int) \<Rightarrow> (int \<Rightarrow> int \<Rightarrow> int \<Rightarrow> 'k \<Rightarrow> int \<times> 'k) \<Rightarrow> int \<Rightarrow>
    fcntl_cmd \<Rightarrow> ('k, 'z) hw \<Rightarrow> int fres \<times> ('k, 'z) hw" where
  "hook_fcntl S up other_f fd cmd w =
     (if hooked_fd S fd w then
        fthen (hw_get S up fd w) (\<lambda>c w1.
          case cmd of
            F_SETFL fl \<Rightarrow> (FOk 0, upd_ctx c (setUserNonBlock (fl AND O_NONBLOCK \<noteq> 0)) w1)
          | F_GETFL \<Rightarrow>
              (let flags = sy_getfl S (hw_kernel w1) fd in
               (FOk (if fc_userNonBlocked (hw_ctx c w1) then flags OR O_NONBLOCK
                     else flags AND NOT O_NONBLOCK), w1))
          | F_OTHER _ _ \<Rightarrow> fcall (fcntl_orig S other_f fd cmd) w1)
      else fcall (fcntl_orig S other_f fd cmd) w)"

datatype ioctl_req = FIONBIO int | IOCTL_OTHER int int  \<comment> \<open>the value that \<open>arg\<close> points to, or request and argument\<close>

definition hook_ioctl :: "'k sysapi \<Rightarrow> (int \<Rightarrow> int) \<Rightarrow> (int \<Rightarrow> ioctl_req \<Rightarrow> 'k \<Rightarrow> int \<times> 'k) \<Rightarrow> int \<Rightarrow>
    ioctl_req \<Rightarrow> ('k, 'z) hw \<Rightarrow> int fres \<times> ('k, 'z) hw" where
  "hook_ioctl S up ioctl_f fd req w =
     (case req of
        FIONBIO v \<Rightarrow>
          if hooked_fd S fd w then
            fthen (hw_get S up fd w) (\<lambda>c w1. (FOk 0, upd_ctx c (setUserNonBlock (v \<noteq> 0)) w1))
          else fcall (ioctl_f fd req) w
      | IOCTL_OTHER _ _ \<Rightarrow> fcall (ioctl_f fd req) w)"

datatype sockopt = SO_RCVTIMEO "int \<times> int" | SO_SNDTIMEO "int \<times> int" | SO_OTHER int int

text \<open>\<open>SO_OTHER\<close> also stands for the options of other levels.\<close>

definition hook_setsockopt :: "'k sysapi \<Rightarrow> (int \<Rightarrow> int) \<Rightarrow> (int \<Rightarrow> sockopt \<Rightarrow> 'k \<Rightarrow> int \<times> 'k) \<Rightarrow> int \<Rightarrow>
    sockopt \<Rightarrow> ('k, 'z) hw \<Rightarrow> int fres \<times> ('k, 'z) hw" where
  "hook_setsockopt S up setsockopt_f fd opt w =
     (let upd = (case opt of SO_RCVTIMEO tv \<Rightarrow> Some (setRecvTimeout tv)
                 | SO_SNDTIMEO tv \<Rightarrow> Some (setSendTimeout tv) | SO_OTHER _ _ \<Rightarrow> None)
      in case upd of
           Some g \<Rightarrow>
             if hooked_fd S fd w then
               fthen (hw_get S up fd w) (\<lambda>c w1. fcall (setsockopt_f fd opt) (upd_ctx c g w1))
             else fcall (setsockopt_f fd opt) w
         | None \<Rightarrow> fcall (setsockopt_f fd opt) w)"

section \<open>The table of contexts as the hooks use it\<close>

text \<open>
  What the hooks rely on: a lookup enters the descriptor into the table, a descriptor that is
  there is found again without any effect, and no two descriptors share a context.
\<close>

locale context_table =
  fixes lookup :: "int \<Rightarrow> 'w \<Rightarrow> cptr fres \<times> 'w"
    and tab :: "'w \<Rightarrow> int \<rightharpoonup> cptr"
    and inv :: "'w \<Rightarrow> bool"
  assumes lookup_inv: "inv w \<Longrightarrow> lookup fd w = (FOk c, w') \<Longrightarrow> inv w'"
    and lookup_enters: "inv w \<Longrightarrow> lookup fd w = (FOk c, w') \<Longrightarrow> tab w' = (tab w)(fd \<mapsto> c)"
    and lookup_finds: "inv w \<Longrightarrow> tab w fd = Some c \<Longrightarrow> lookup fd w = (FOk c', w') \<Longrightarrow> c' = c \<and> w' = w"
    and tab_inj: "inv w \<Longrightarrow> tab w fd = Some c \<Longrightarrow> tab w fd' = Some c \<Longrightarrow> fd' = fd"
begin

lemma lookup_again:
  assumes "inv w" "lookup fd w = (FOk c, w1)" "lookup fd w1 = (FOk c', w2)"
  shows "c' = c \<and> w2 = w1"
proof -
  have "tab w1 fd = Some c" using lookup_enters [OF assms(1,2)] by simp
  from lookup_finds [OF lookup_inv [OF assms(1,2)] this assms(3)] show ?thesis .
qed

lemma lookup_distinct:
  assumes "inv w" "lookup fd w = (FOk c, w1)" "lookup fd' w1 = (FOk c', w2)" "fd' \<noteq> fd"
  shows "c' \<noteq> c"
proof
  assume "c' = c"
  have i1: "inv w1" and i2: "inv w2" using lookup_inv assms(1-3) by blast+
  have "tab w2 fd = Some c" "tab w2 fd' = Some c"
    using lookup_enters [OF assms(1,2)] lookup_enters [OF i1 assms(3)] assms(4) \<open>c' = c\<close> by simp_all
  from tab_inj [OF i2 this] show False using assms(4) by simp
qed

end

interpretation files: context_table "hw_get S up" "\<lambda>w. fcm_map up (hw_files w)"
  "\<lambda>w. align_spec up \<and> fcm_ok up (hw_files w)"
proof (unfold_locales, goal_cases)
  case (1 w fd c w')
  then show ?case using get_ok(1)
    by (fastforce simp: hw_get_def EFiberScheduler_getFileContext_def split: prod.splits)
next
  case (2 w fd c w')
  then show ?case using get_ok(2)
    by (fastforce simp: hw_get_def EFiberScheduler_getFileContext_def split: prod.splits)
next
  case (3 w fd c c' w')
  obtain m k where g: "EFileContextManager_get S up fd (hw_files w) (hw_kernel w) = (FOk c', m, k)"
      "w' = w\<lparr>hw_files := m, hw_kernel := k\<rparr>"
    using 3(3) by (auto simp: hw_get_def EFiberScheduler_getFileContext_def split: prod.splits)
  have "c = c' \<and> m = hw_files w \<and> k = hw_kernel w" using get_ok(4) [OF _ _ g(1) 3(2)] 3(1) by blast
  then show ?case using g(2) by simp
next
  case (4 w fd c fd')
  then have ok: "fcm_ok up (hw_files w)" by blast
  have "fc_fd (fm_ctx (hw_files w) c) = fd" using fcm_okD(2) [OF ok 4(2)] ..
  moreover have "fc_fd (fm_ctx (hw_files w) c) = fd'" using fcm_okD(2) [OF ok 4(3)] ..
  ultimately show ?case by simp
qed

lemma fres_split:
  obtains (ok) a w' where "x = (FOk a, w')" | (throw) w' where "x = (FThrow, w')"
  | (spin) w' where "x = (FSpin, w')" | (fault) w' where "x = (FFault, w')"
  by (cases x; cases "fst x") auto

lemma fthen_ok: "fthen x g = (FOk b, w') \<Longrightarrow> \<exists>a w1. x = (FOk a, w1) \<and> g a w1 = (FOk b, w')"
  by (cases x rule: fres_split) auto

lemma upd_ctx_simps [simp]:
  "hw_kernel (upd_ctx c g w) = hw_kernel w" "hw_sched (upd_ctx c g w) = hw_sched w"
  "hw_signaled (upd_ctx c g w) = hw_signaled w" "hw_ctx c (upd_ctx c g w) = g (hw_ctx c w)"
  "fm_files (hw_files (upd_ctx c g w)) = fm_files (hw_files w)"
  "fm_next (hw_files (upd_ctx c g w)) = fm_next (hw_files w)"
  "fm_locked (hw_files (upd_ctx c g w)) = fm_locked (hw_files w)"
  by (simp_all add: upd_ctx_def hw_ctx_def)

lemma upd_ctx_ok:
  assumes "fcm_ok up (hw_files w)" and "\<And>fc. fc_fd (g fc) = fc_fd fc"
  shows "fcm_ok up (hw_files (upd_ctx c g w))" "fcm_map up (hw_files (upd_ctx c g w)) = fcm_map up (hw_files w)"
proof -
  show m: "fcm_map up (hw_files (upd_ctx c g w)) = fcm_map up (hw_files w)" by (rule fcm_map_cong) simp
  show "fcm_ok up (hw_files (upd_ctx c g w))"
    using assms unfolding fcm_ok_def m by (auto simp: upd_ctx_def hw_ctx_def)
qed

lemma hw_get_frame:
  assumes "hw_get S up fd w = (r, w')"
  shows "hw_sched w' = hw_sched w" "hw_signaled w' = hw_signaled w"
  using assms by (auto simp: hw_get_def split: prod.splits)

text \<open>
  \<open>fcntl\<close> on a hooked descriptor: what \<open>F_SETFL\<close> says of \<open>O_NONBLOCK\<close> is what \<open>F_GETFL\<close> reports, while
  the kernel's own flags do not change.
\<close>

lemma fcntl_set_get:
  assumes al: "align_spec up" and ok: "fcm_ok up (hw_files w)"
    and h: "hooked_fd S fd w" and set: "hook_fcntl S up other_f fd (F_SETFL fl) w = (FOk r, w1)"
    and h1: "hooked_fd S fd w1" and get: "hook_fcntl S up other_f fd F_GETFL w1 = (FOk fl', w2)"
  shows "r = 0" and "w2 = w1"
    and "fl' = (if fl AND O_NONBLOCK \<noteq> 0 then sy_getfl S (hw_kernel w1) fd OR O_NONBLOCK
      else sy_getfl S (hw_kernel w1) fd AND NOT O_NONBLOCK)"
    and "\<exists>c w0. hw_get S up fd w = (FOk c, w0) \<and> hw_kernel w1 = hw_kernel w0"
proof -
  obtain c w0 where g0: "hw_get S up fd w = (FOk c, w0)" and r: "r = 0"
    and w1: "w1 = upd_ctx c (setUserNonBlock (fl AND O_NONBLOCK \<noteq> 0)) w0"
    using set h by (auto simp: hook_fcntl_def dest!: fthen_ok)
  obtain c' w1' where g1: "hw_get S up fd w1 = (FOk c', w1')" and w2: "w2 = w1'"
    and fl': "fl' = (if fc_userNonBlocked (hw_ctx c' w1') then sy_getfl S (hw_kernel w1') fd OR O_NONBLOCK
      else sy_getfl S (hw_kernel w1') fd AND NOT O_NONBLOCK)"
    using get h1 by (auto simp: hook_fcntl_def Let_def dest!: fthen_ok)
  have i0: "align_spec up \<and> fcm_ok up (hw_files w0)" 
    by (rule files.lookup_inv [OF conjI [OF al ok] g0])
  have f: "fc_fd (setUserNonBlock b fc) = fc_fd fc" for b fc by (simp add: setUserNonBlock_def)
  have i1: "align_spec up \<and> fcm_ok up (hw_files w1)" 
    unfolding w1 using conjunct1 [OF i0] upd_ctx_ok(1) [OF conjunct2 [OF i0] f] by (rule conjI)
  have "fcm_map up (hw_files w1) fd = Some c"
    unfolding w1 upd_ctx_ok(2) [OF conjunct2 [OF i0] f] files.lookup_enters [OF conjI [OF al ok] g0] by simp
  from files.lookup_finds [OF i1 this g1] have e: "c' = c" "w1' = w1" by auto
  show "r = 0" by (rule r)
  show "w2 = w1" using w2 e by simp
  have "fc_userNonBlocked (hw_ctx c w1) \<longleftrightarrow> fl AND O_NONBLOCK \<noteq> 0" by (simp add: w1 setUserNonBlock_def)
  then show "fl' = (if fl AND O_NONBLOCK \<noteq> 0 then sy_getfl S (hw_kernel w1) fd OR O_NONBLOCK
      else sy_getfl S (hw_kernel w1) fd AND NOT O_NONBLOCK)"
    unfolding fl' e by simp
  show "\<exists>c w0. hw_get S up fd w = (FOk c, w0) \<and> hw_kernel w1 = hw_kernel w0" using g0 by (simp add: w1)
qed

end
