(* ===== verification/Hooker_Wait.thy ===== *)
theory Hooker_Wait
  imports Hooker_Files
begin

text \<open>
  The hooks of src/EHooker.cpp that register descriptors with the io waiter of the thread and pause
  the fiber: \<open>poll\<close>, \<open>select\<close>, \<open>connect\<close> and \<open>epoll_wait\<close>. Each is modelled in two parts, up to
  the \<open>swapOut\<close> that pauses the fiber and from there to the return. \<open>None\<close> is undefined behaviour
  of the io waiter: a negative index, or the deletion of a holder that is not live.
\<close>

section \<open>The io waiter as the hooks call it\<close>

definition hw_setFileEvent :: "'k os \<Rightarrow> int \<Rightarrow> int \<Rightarrow> ('k, 'z) hw \<Rightarrow> ('k, 'z) hw option" where
  "hw_setFileEvent os fd msk w =
     (case EIoWaiter_setFileEvent os fd msk (hw_fiber w) (hw_waiter w) (hw_kernel w) (hw_rt w) of
        None \<Rightarrow> None
      | Some (iw, k, s) \<Rightarrow> Some (w\<lparr>hw_waiter := iw, hw_kernel := k, hw_rt := s\<rparr>))"

definition hw_delFileEvent :: "'k os \<Rightarrow> int \<Rightarrow> int \<Rightarrow> ('k, 'z) hw \<Rightarrow> ('k, 'z) hw option" where
  "hw_delFileEvent os fd msk w =
     (case EIoWaiter_delFileEvent os fd msk (hw_waiter w) (hw_kernel w) of
        None \<Rightarrow> None
      | Some (iw, k) \<Rightarrow> Some (w\<lparr>hw_waiter := iw, hw_kernel := k\<rparr>))"

definition hw_setupTimer :: "'k os \<Rightarrow> int \<Rightarrow> ('k, 'z) hw \<Rightarrow> int \<times> ('k, 'z) hw" where
  "hw_setupTimer os timeout w =
     (let (i, iw, k, s) = EIoWaiter_setupTimer os timeout (hw_fiber w) (hw_waiter w) (hw_kernel w) (hw_rt w)
      in (i, w\<lparr>hw_waiter := iw, hw_kernel := k, hw_rt := s\<rparr>))"

definition hw_cancelTimer :: "int \<Rightarrow> ('k, 'z) hw \<Rightarrow> ('k, 'z) hw" where
  "hw_cancelTimer i w = w\<lparr>hw_waiter := EIoWaiter_cancelTimer i (hw_waiter w)\<rparr>"

definition hw_isWaitTimeout :: "('k, 'z) hw \<Rightarrow> bool \<times> ('k, 'z) hw" where
  "hw_isWaitTimeout w =
     (let (b, s) = EFiber_isWaitTimeout (hw_fiber w) (hw_rt w) in (b, w\<lparr>hw_rt := s\<rparr>))"

text \<open>\<open>EIoWaiter::swapOut\<close> up to its yield.\<close>

definition EIoWaiter_swapOut :: "('k, 'z) hw \<Rightarrow> ('k, 'z) hw" where
  "EIoWaiter_swapOut w = w\<lparr>hw_rt := EFiber_setState (hw_fiber w) WAITING (hw_rt w)\<rparr>"

section \<open>poll\<close>

abbreviation (input) POLLIN :: int where "POLLIN \<equiv> 1"
abbreviation (input) POLLOUT :: int where "POLLOUT \<equiv> 4"

record pollfd =
  pf_fd :: int
  pf_events :: int
  pf_revents :: int

definition PollEvent2EEvent :: "int \<Rightarrow> int" where
  "PollEvent2EEvent events =
     (if events AND POLLIN \<noteq> 0 then ECO_POLL_READABLE else 0) OR
     (if events AND POLLOUT \<noteq> 0 then ECO_POLL_WRITABLE else 0)"

definition EEvent2PollEvent :: "int \<Rightarrow> int" where
  "EEvent2PollEvent events =
     (if events AND ECO_POLL_READABLE \<noteq> 0 then POLLIN else 0) OR
     (if events AND ECO_POLL_WRITABLE \<noteq> 0 then POLLOUT else 0)"

text \<open>The first part: done with a result, \<open>errno\<close> and the array; asleep and then 0; or parked.\<close>

datatype poll_out = PollDone int int "pollfd list" | PollSleep int | PollPark int

type_synonym 'k poll_fn = "pollfd list \<Rightarrow> int \<Rightarrow> 'k \<Rightarrow> (int \<times> int \<times> pollfd list) \<times> 'k"

definition poll_orig :: "'k poll_fn \<Rightarrow> pollfd list \<Rightarrow> int \<Rightarrow> ('k, 'z) hw \<Rightarrow> poll_out \<times> ('k, 'z) hw" where
  "poll_orig poll_f fds timeout w =
     (let ((ret, err, fds'), w') = on_kernel (poll_f fds timeout) w in (PollDone ret err fds', w'))"

fun poll_register :: "'k os \<Rightarrow> pollfd list \<Rightarrow> ('k, 'z) hw \<Rightarrow> ('k, 'z) hw option" where
  "poll_register os [] w = Some w"
| "poll_register os (pf # fds) w =
     (if pf_fd pf < 0 then poll_register os fds w
      else (case hw_setFileEvent os (pf_fd pf) (PollEvent2EEvent (pf_events pf)) w of
              None \<Rightarrow> None | Some w' \<Rightarrow> poll_register os fds w'))"

definition hook_poll_start :: "'k os \<Rightarrow> 'k poll_fn \<Rightarrow> pollfd list \<Rightarrow> int \<Rightarrow> ('k, 'z) hw \<Rightarrow>
    (poll_out \<times> ('k, 'z) hw) option" where
  "hook_poll_start os poll_f fds timeout w =
     (if bypass w then Some (poll_orig poll_f fds timeout w)
      else if timeout = 0 then Some (poll_orig poll_f fds timeout w)
      else if \<forall>pf\<in>set fds. pf_fd pf < 0 then Some (PollSleep timeout, w)
      else
       (let ((ret, err, fds'), w1) = on_kernel (poll_f fds 0) w in
        if ret \<noteq> 0 then Some (PollDone ret err fds', w1)
        else
         (case poll_register os fds' w1 of
            None \<Rightarrow> None
          | Some w2 \<Rightarrow>
              if \<forall>pf\<in>set fds'. pf_fd pf < 0 then Some (PollDone (int (length fds')) 0 fds', w2)
              else
               (let (timerID, w3) = (if timeout > 0 then hw_setupTimer os timeout w2 else (-1, w2))
                in Some (PollPark timerID, EIoWaiter_swapOut w3)))))"

fun poll_drop :: "'k os \<Rightarrow> pollfd list \<Rightarrow> ('k, 'z) hw \<Rightarrow> ('k, 'z) hw option" where
  "poll_drop os [] w = Some w"
| "poll_drop os (pf # fds) w =
     (case hw_delFileEvent os (pf_fd pf) ECO_POLL_ALL_EVENTS w of
        None \<Rightarrow> None | Some w' \<Rightarrow> poll_drop os fds w')"

fun poll_collect :: "'k os \<Rightarrow> pollfd list \<Rightarrow> ('k, 'z) hw \<Rightarrow> (pollfd list \<times> ('k, 'z) hw) option" where
  "poll_collect os [] w = Some ([], w)"
| "poll_collect os (pf # fds) w =
     (case EIoWaiter_getFileEvent (pf_fd pf) (hw_waiter w) of
        None \<Rightarrow> None
      | Some ev \<Rightarrow>
          (case hw_delFileEvent os (pf_fd pf) ECO_POLL_ALL_EVENTS w of
             None \<Rightarrow> None
           | Some w' \<Rightarrow>
               (case poll_collect os fds w' of
                  None \<Rightarrow> None
                | Some (fds', w'') \<Rightarrow> Some (pf\<lparr>pf_revents := EEvent2PollEvent ev\<rparr> # fds', w''))))"

text \<open>The second part, with the array and the timer of the first: the result and the array.\<close>

definition hook_poll_resume :: "'k os \<Rightarrow> pollfd list \<Rightarrow> int \<Rightarrow> ('k, 'z) hw \<Rightarrow>
    ((int \<times> pollfd list) \<times> ('k, 'z) hw) option" where
  "hook_poll_resume os fds timerID w =
     (let w1 = (if timerID \<noteq> -1 then hw_cancelTimer timerID w else w);
          (timedout, w2) = hw_isWaitTimeout w1
      in if timedout then
           (case poll_drop os fds w2 of None \<Rightarrow> None | Some w3 \<Rightarrow> Some ((0, fds), w3))
         else
           (case poll_collect os fds w2 of
              None \<Rightarrow> None
            | Some (fds', w3) \<Rightarrow>
                Some ((int (length (filter (\<lambda>pf. pf_revents pf \<noteq> 0) fds')), fds'), w3)))"

text \<open>\<open>__poll\<close> is \<open>poll\<close>.\<close>

definition hook___poll :: "'k os \<Rightarrow> 'k poll_fn \<Rightarrow> pollfd list \<Rightarrow> int \<Rightarrow> ('k, 'z) hw \<Rightarrow>
    (poll_out \<times> ('k, 'z) hw) option" where
  "hook___poll os poll_f fds timeout w = hook_poll_start os poll_f fds timeout w"

section \<open>select\<close>

text \<open>A null pointer to a set is \<open>None\<close>. The calls have the three sets as a triple.\<close>

type_synonym fdsets = "int set option \<times> int set option \<times> int set option"

abbreviation (input) FD_SETSIZE :: int where "FD_SETSIZE \<equiv> 1024"
abbreviation (input) LLONG_MAX :: int where "LLONG_MAX \<equiv> 9223372036854775807"
abbreviation (input) INT_MAX :: int where "INT_MAX \<equiv> 2147483647"

datatype select_out = SelectDone int fdsets | SelectSleep int | SelectPark int "int list" fdsets

type_synonym 'k select_fn = "int \<Rightarrow> fdsets \<Rightarrow> (int \<times> int) option \<Rightarrow> 'k \<Rightarrow> (int \<times> fdsets) \<times> 'k"

definition isset :: "int \<Rightarrow> int set option \<Rightarrow> bool" where
  "isset fd fs = (case fs of None \<Rightarrow> False | Some s \<Rightarrow> fd \<in> s)"

text \<open>
  The registration loop. \<open>events\<close> is declared before the loop, so that it carries over from one
  descriptor to the next.
\<close>

fun select_register :: "'k os \<Rightarrow> int set option \<Rightarrow> int set option \<Rightarrow> int list \<Rightarrow> int \<Rightarrow> ('k, 'z) hw \<Rightarrow>
    (int list \<times> ('k, 'z) hw) option" where
  "select_register os rd wr [] events w = Some ([], w)"
| "select_register os rd wr (fd # fds) events w =
     (let ev1 = (if isset fd rd then ECO_POLL_READABLE else events);
          ev2 = (if isset fd wr then ECO_POLL_WRITABLE else ev1)
      in if ev2 = 0 then select_register os rd wr fds ev2 w
         else
          (case hw_setFileEvent os fd ev2 w of
             None \<Rightarrow> None
           | Some w' \<Rightarrow>
               (case select_register os rd wr fds ev2 w' of
                  None \<Rightarrow> None | Some (pfds, w'') \<Rightarrow> Some (fd # pfds, w''))))"

definition hook_select_start :: "'k os \<Rightarrow> 'k select_fn \<Rightarrow> int \<Rightarrow> fdsets \<Rightarrow> (int \<times> int) option \<Rightarrow>
    ('k, 'z) hw \<Rightarrow> (select_out \<times> ('k, 'z) hw) option" where
  "hook_select_start os select_f nfds sets timeout w =
     (let (rd, wr, ex) = sets;
          orig = (\<lambda>n tmo. (let ((ret, sets'), w') = on_kernel (select_f n sets tmo) w
                           in (ret, sets', w')));
          ms = (case timeout of Some (sec, usec) \<Rightarrow> sec * 1000 + usec sdiv 1000 | None \<Rightarrow> LLONG_MAX)
      in if bypass w \<or> ms = 0 then
           (let (ret, sets', w') = orig nfds timeout in Some (SelectDone ret sets', w'))
         else if nfds = 0 \<or> (rd = None \<and> wr = None \<and> ex = None) then Some (SelectSleep ms, w)
         else
          (let n = min nfds FD_SETSIZE;
               (ret, (rd1, wr1, ex1), w1) = orig n (Some (0, 0))
           in if ret \<noteq> 0 then Some (SelectDone ret (rd1, wr1, ex1), w1)
              else
               (case select_register os rd1 wr1 (map int [0..<nat n]) 0 w1 of
                  None \<Rightarrow> None
                | Some (pfds, w2) \<Rightarrow>
                   (let zero = map_option (\<lambda>_. {});
                        (timerID, w3) = (if ms > 0 then hw_setupTimer os ms w2 else (-1, w2))
                    in Some (SelectPark timerID pfds (zero rd1, zero wr1, zero ex1), EIoWaiter_swapOut w3)))))"

fun select_drop :: "'k os \<Rightarrow> int list \<Rightarrow> ('k, 'z) hw \<Rightarrow> ('k, 'z) hw option" where
  "select_drop os [] w = Some w"
| "select_drop os (fd # pfds) w =
     (case hw_delFileEvent os fd ECO_POLL_ALL_EVENTS w of
        None \<Rightarrow> None | Some w' \<Rightarrow> select_drop os pfds w')"

fun select_collect :: "'k os \<Rightarrow> int list \<Rightarrow> int \<Rightarrow> int set option \<Rightarrow> int set option \<Rightarrow> ('k, 'z) hw \<Rightarrow>
    ((int \<times> int set option \<times> int set option) \<times> ('k, 'z) hw) option" where
  "select_collect os [] n rd wr w = Some ((n, rd, wr), w)"
| "select_collect os (fd # pfds) n rd wr w =
     (case EIoWaiter_getFileEvent fd (hw_waiter w) of
        None \<Rightarrow> None
      | Some events \<Rightarrow>
          (let n' = (if events \<noteq> 0 then n + 1 else n);
               rd' = (if events AND ECO_POLL_READABLE \<noteq> 0 then map_option (insert fd) rd else rd);
               wr' = (if events AND ECO_POLL_WRITABLE \<noteq> 0 then map_option (insert fd) wr else wr)
           in case hw_delFileEvent os fd ECO_POLL_ALL_EVENTS w of
                None \<Rightarrow> None | Some w' \<Rightarrow> select_collect os pfds n' rd' wr' w'))"

definition hook_select_resume :: "'k os \<Rightarrow> int list \<Rightarrow> int \<Rightarrow> fdsets \<Rightarrow> ('k, 'z) hw \<Rightarrow>
    ((int \<times> fdsets) \<times> ('k, 'z) hw) option" where
  "hook_select_resume os pfds timerID sets w =
     (let (rd, wr, ex) = sets;
          w1 = (if timerID \<noteq> -1 then hw_cancelTimer timerID w else w);
          (timedout, w2) = hw_isWaitTimeout w1
      in if timedout then
           (case select_drop os pfds w2 of None \<Rightarrow> None | Some w3 \<Rightarrow> Some ((0, sets), w3))
         else
           (case select_collect os pfds 0 rd wr w2 of
              None \<Rightarrow> None | Some ((n, rd', wr'), w3) \<Rightarrow> Some ((n, (rd', wr', ex)), w3)))"

section \<open>connect\<close>

abbreviation (input) EINPROGRESS :: int where "EINPROGRESS \<equiv> 115"

datatype connect_out = ConnectDone int int | ConnectPark  \<comment> \<open>result and \<open>errno\<close>\<close>

definition hook_connect_start :: "'k sysapi \<Rightarrow> (int \<Rightarrow> int) \<Rightarrow> 'k os \<Rightarrow> (int \<Rightarrow> 'k \<Rightarrow> (int \<times> int) \<times> 'k) \<Rightarrow>
    int \<Rightarrow> ('k, 'z) hw \<Rightarrow> connect_out fres \<times> ('k, 'z) hw" where
  "hook_connect_start S up os connect_f fd w =
     (let orig = (\<lambda>w. let ((n, err), w') = on_kernel (connect_f fd) w in (FOk (ConnectDone n err), w'))
      in if bypass w then orig w
         else fthen (hw_get S up fd w) (\<lambda>c w1.
           if fc_userNonBlocked (hw_ctx c w1) then orig w1
           else
            (let ((n, err), w2) = on_kernel (connect_f fd) w1 in
             if n = 0 then (FOk (ConnectDone 0 err), w2)
             else if n = -1 \<and> err = EINPROGRESS then
               (case hw_setFileEvent os fd ECO_POLL_WRITABLE w2 of
                  None \<Rightarrow> (FFault, w2)
                | Some w3 \<Rightarrow> (FOk ConnectPark, EIoWaiter_swapOut w3))
             else (FOk (ConnectDone n err), w2))))"

text \<open>
  After the wait the outcome is read with \<open>SO_ERROR\<close>: \<open>soerror_f\<close> gives the result of
  \<open>getsockopt\<close>, the pending error and \<open>errno\<close>.
\<close>

definition hook_connect_resume :: "'k os \<Rightarrow> (int \<Rightarrow> 'k \<Rightarrow> (int \<times> int \<times> int) \<times> 'k) \<Rightarrow> int \<Rightarrow> ('k, 'z) hw \<Rightarrow>
    ((int \<times> int) \<times> ('k, 'z) hw) option" where
  "hook_connect_resume os soerror_f fd w =
     (case hw_delFileEvent os fd ECO_POLL_WRITABLE w of
        None \<Rightarrow> None
      | Some w1 \<Rightarrow>
          (let ((r, err, eno), w2) = on_kernel (soerror_f fd) w1 in
           Some (if r = -1 then ((-1, eno), w2)
                 else if err = 0 then ((0, eno), w2)
                 else ((-1, err), w2))))"

section \<open>epoll_wait\<close>

datatype 'e epoll_out = EpollDone 'e | EpollPark int

definition hook_epoll_wait_start :: "'k os \<Rightarrow> (int \<Rightarrow> int \<Rightarrow> 'k \<Rightarrow> 'e \<times> 'k) \<Rightarrow> int \<Rightarrow> int \<Rightarrow> ('k, 'z) hw \<Rightarrow>
    ('e epoll_out \<times> ('k, 'z) hw) option" where
  "hook_epoll_wait_start os epoll_wait_f epfd timeout w =
     (if \<not> hw_sched w \<or> timeout = 0 \<or> isInterrupted w then
        (let (r, w') = on_kernel (epoll_wait_f epfd timeout) w in Some (EpollDone r, w'))
      else
       (case hw_setFileEvent os epfd ECO_POLL_READABLE w of
          None \<Rightarrow> None
        | Some w1 \<Rightarrow>
            (let ms = (if timeout > 0 then timeout else INT_MAX);
                 (timerID, w2) = hw_setupTimer os ms w1
             in Some (EpollPark timerID, EIoWaiter_swapOut w2))))"

text \<open>The second part: \<open>Inl\<close> is -1 with that \<open>errno\<close>, \<open>Inr\<close> the result of the original.\<close>

definition hook_epoll_wait_resume :: "'k os \<Rightarrow> (int \<Rightarrow> int \<Rightarrow> 'k \<Rightarrow> 'e \<times> 'k) \<Rightarrow> int \<Rightarrow> int \<Rightarrow> ('k, 'z) hw \<Rightarrow>
    ((int + 'e) \<times> ('k, 'z) hw) option" where
  "hook_epoll_wait_resume os epoll_wait_f epfd timerID w =
     (case hw_delFileEvent os epfd ECO_POLL_ALL_EVENTS (hw_cancelTimer timerID w) of
        None \<Rightarrow> None
      | Some w1 \<Rightarrow>
          (let (timedout, w2) = hw_isWaitTimeout w1 in
           if timedout then Some (Inl EINVAL, w2)
           else (let (r, w3) = on_kernel (epoll_wait_f epfd 0) w2 in Some (Inr r, w3))))"

section \<open>Event sets\<close>

lemma poll_mask_cases: "PollEvent2EEvent e \<in> {0, 1, 2, 3}"
  by (simp add: PollEvent2EEvent_def)

lemma poll_mask_all: "PollEvent2EEvent e AND NOT ECO_POLL_ALL_EVENTS = 0"
  by (simp add: PollEvent2EEvent_def)

lemma poll_mask_wanted: "e AND 5 \<noteq> 0 \<Longrightarrow> PollEvent2EEvent e \<noteq> 0"
proof -
  have "e AND 5 = (e AND 1) OR (e AND 4)" using bit.conj_disj_distrib [of e 1 4] by simp
  then show "e AND 5 \<noteq> 0 \<Longrightarrow> PollEvent2EEvent e \<noteq> 0" by (auto simp: PollEvent2EEvent_def)
qed

lemma poll_mask_back: "EEvent2PollEvent (PollEvent2EEvent e) = e AND (POLLIN OR POLLOUT)"
proof -
  have "e AND 4 = (if e AND 4 \<noteq> 0 then 4 else 0)"
  proof -
    have b: "bit (4 :: int) n \<longleftrightarrow> n = 2" for n
    proof -
      have "(4 :: int) = 2 ^ 2" by simp
      then show ?thesis by (simp only: bit_exp_iff) auto
    qed
    have z: "e AND 4 = 0 \<longleftrightarrow> \<not> bit e 2" using and_exp_eq_0_iff_not_bit [of e 2] by simp
    have "e AND 4 = 4" if "bit e 2"
      by (rule bit_eqI) (use that in \<open>auto simp only: bit_and_iff b\<close>)
    then show ?thesis using z by auto
  qed
  moreover have "e AND 1 = (if e AND 1 \<noteq> 0 then 1 else 0)" by (simp add: and_one_eq)
  moreover have "e AND (POLLIN OR POLLOUT) = (e AND 1) OR (e AND 4)" by (rule bit.conj_disj_distrib)
  ultimately show ?thesis
    by (cases "e AND 1 = 0"; cases "e AND 4 = 0") (simp_all add: EEvent2PollEvent_def PollEvent2EEvent_def)
qed

section \<open>Registering and releasing the descriptors of a call\<close>

definition hw_ok :: "('k \<Rightarrow> int \<rightharpoonup> int) \<Rightarrow> fptr set \<Rightarrow> ('k, 'z) hw \<Rightarrow> bool" where
  "hw_ok interest F w \<longleftrightarrow> waiter_ok F (hw_waiter w) \<and> synced interest (iw_poll (hw_waiter w)) (hw_kernel w)"

text \<open>The descriptor is in the array; epoll accepts it.\<close>

definition pollable :: "'k os \<Rightarrow> iowaiter \<Rightarrow> int \<Rightarrow> bool" where
  "pollable os iw fd \<longleftrightarrow> 0 \<le> fd \<and> fd < pl_setsize (iw_poll iw) \<and>
     (\<forall>ev k. fst (os_epoll_ctl os EPOLL_CTL_ADD fd ev k) \<noteq> -1)"

text \<open>Fiber \<open>f\<close> waits on the descriptor for these events, and nobody else does.\<close>

definition waits_on :: "fptr \<Rightarrow> iowaiter \<Rightarrow> int \<Rightarrow> int \<Rightarrow> bool" where
  "waits_on f iw fd msk \<longleftrightarrow> 0 \<le> fd \<and> fd < pl_setsize (iw_poll iw) \<and> ev_mask (iw_poll iw) fd = msk \<and>
     fe_clientData (pl_events (iw_poll iw) ! nat fd) = CLive f"

definition same_events :: "int set \<Rightarrow> iowaiter \<Rightarrow> iowaiter \<Rightarrow> bool" where
  "same_events A iw iw' \<longleftrightarrow> pl_setsize (iw_poll iw') = pl_setsize (iw_poll iw) \<and>
     (\<forall>i. 0 \<le> i \<and> i \<notin> A \<longrightarrow> pl_events (iw_poll iw') ! nat i = pl_events (iw_poll iw) ! nat i)"

lemma same_events_refl [simp]: "same_events A iw iw"
  by (simp add: same_events_def)

lemma same_events_trans: "same_events A x y \<Longrightarrow> same_events B y z \<Longrightarrow> same_events (A \<union> B) x z"
  by (simp add: same_events_def)

lemma waits_on_same: "same_events A iw iw' \<Longrightarrow> fd \<notin> A \<Longrightarrow> waits_on f iw' fd msk = waits_on f iw fd msk"
  by (auto simp: waits_on_def same_events_def)

lemma hw_setFileEvent_ok:
  assumes ep: "epoll_spec os interest" and ok: "hw_ok interest F w" and f: "hw_fiber w \<in> F"
    and m: "msk \<noteq> 0" and fd: "pollable os (hw_waiter w) fd" and z: "ev_mask (iw_poll (hw_waiter w)) fd = 0"
  shows "\<exists>iw k. hw_setFileEvent os fd msk w = Some (w\<lparr>hw_waiter := iw, hw_kernel := k,
        hw_rt := upd_fiber (hw_fiber w) (\<lambda>fb. fb\<lparr>fb_state := WAITING\<rparr>) (hw_rt w)\<rparr>) \<and>
     waiter_ok F iw \<and> synced interest (iw_poll iw) k \<and> waits_on (hw_fiber w) iw fd msk \<and>
     same_events {fd} (hw_waiter w) iw \<and> pl_timeEvents (iw_poll iw) = pl_timeEvents (iw_poll (hw_waiter w))"
proof -
  let ?iw = "hw_waiter w" and ?f = "hw_fiber w"
  let ?p = "iw_poll ?iw" and ?st = "store_event (iw_poll (hw_waiter w)) fd msk FileEventProc (CLive (hw_fiber w))"
  have r: "0 \<le> fd" "fd < pl_setsize ?p" using fd by (simp_all add: pollable_def)
  have l: "nat fd < length (pl_events ?p)" using ok r by (simp add: hw_ok_def waiter_ok_def poll_wf_def)
  obtain iw k where e: "EIoWaiter_setFileEvent os fd msk ?f ?iw (hw_kernel w) (hw_rt w) =
      Some (iw, k, upd_fiber ?f (\<lambda>fb. fb\<lparr>fb_state := WAITING\<rparr>) (hw_rt w))"
      "waiter_ok F iw" "synced interest (iw_poll iw) k"
    using setFileEvent_ok [OF ep _ _ m r(1) f, of ?iw "hw_kernel w" "hw_rt w"] ok unfolding hw_ok_def by blast
  have "fst (os_epoll_ctl os EPOLL_CTL_ADD fd (to_epoll (msk OR 0)) (hw_kernel w)) \<noteq> -1"
    using fd unfolding pollable_def by blast
  then have st: "iw_poll iw = ?st"
    using e(1) r z by (auto simp: EIoWaiter_setFileEvent_def eco_poll_file_event_create_def aeApiAddEvent_def
      Let_def split: prod.splits if_splits)
  have oth: "pl_events ?st ! nat i = pl_events ?p ! nat i" if "0 \<le> i" "i \<noteq> fd" for i
  proof -
    have "nat i \<noteq> nat fd" using that r by auto
    then show ?thesis by (simp add: store_event_def Let_def)
  qed
  have "waits_on ?f iw fd msk"
    unfolding waits_on_def st using r store_event_mask [OF r(1) l r(1), of msk] store_event_data [OF l] z by simp
  moreover have "same_events {fd} ?iw iw" using oth by (simp add: same_events_def st)
  moreover have "pl_timeEvents (iw_poll iw) = pl_timeEvents ?p" by (simp add: st)
  ultimately show ?thesis using e
    by (intro exI [of _ iw] exI [of _ k] conjI) (simp_all add: hw_setFileEvent_def)
qed

lemma hw_delFileEvent_ok:
  assumes ep: "epoll_spec os interest" and ok: "hw_ok interest F w"
    and on: "waits_on f (hw_waiter w) fd msk" and all: "msk AND NOT dm = 0"
  shows "\<exists>iw k. hw_delFileEvent os fd dm w = Some (w\<lparr>hw_waiter := iw, hw_kernel := k\<rparr>) \<and>
     waiter_ok F iw \<and> synced interest (iw_poll iw) k \<and> ev_mask (iw_poll iw) fd = 0 \<and>
     same_events {fd} (hw_waiter w) iw"
proof -
  have w: "waiter_ok F (hw_waiter w)" and sy: "synced interest (iw_poll (hw_waiter w)) (hw_kernel w)"
    using ok by (simp_all add: hw_ok_def)
  have on': "0 \<le> fd" "fd < pl_setsize (iw_poll (hw_waiter w))" "ev_mask (iw_poll (hw_waiter w)) fd = msk"
    "fe_clientData (pl_events (iw_poll (hw_waiter w)) ! nat fd) = CLive f"
    using on by (simp_all add: waits_on_def)
  have "ev_mask (iw_poll (hw_waiter w)) fd AND NOT dm = 0" unfolding on'(3) by (rule all)
  from delFileEvent_ok [OF ep w sy on'(1,2,4) this]
  obtain iw k where d: "EIoWaiter_delFileEvent os fd dm (hw_waiter w) (hw_kernel w) = Some (iw, k)"
      "waiter_ok F iw" "synced interest (iw_poll iw) k" "ev_mask (iw_poll iw) fd = 0"
      "\<forall>i. 0 \<le> i \<and> i \<noteq> fd \<longrightarrow> pl_events (iw_poll iw) ! nat i = pl_events (iw_poll (hw_waiter w)) ! nat i"
    by blast
  have "pl_setsize (iw_poll iw) = pl_setsize (iw_poll (hw_waiter w))"
    using d(1) by (auto simp: EIoWaiter_delFileEvent_def eco_poll_file_event_delete_def Let_def
      split: if_splits cdata.splits)
  then show ?thesis using d by (auto simp: hw_delFileEvent_def same_events_def)
qed

section \<open>The poll hook\<close>

definition polled :: "fptr \<Rightarrow> iowaiter \<Rightarrow> pollfd list \<Rightarrow> bool" where
  "polled f iw fds \<longleftrightarrow> (\<forall>pf\<in>set fds. waits_on f iw (pf_fd pf) (PollEvent2EEvent (pf_events pf)))"

text \<open>What a caller may pass: distinct descriptors that epoll accepts, with wanted events.\<close>

definition poll_args :: "'k os \<Rightarrow> iowaiter \<Rightarrow> pollfd list \<Rightarrow> bool" where
  "poll_args os iw fds \<longleftrightarrow> distinct (map pf_fd fds) \<and>
     (\<forall>pf\<in>set fds. pollable os iw (pf_fd pf) \<and> pf_events pf AND 5 \<noteq> 0)"

lemma poll_register_ok:
  assumes "epoll_spec os interest" "hw_ok interest F w" "hw_fiber w \<in> F"
    and "poll_args os (hw_waiter w) fds" "\<forall>pf\<in>set fds. ev_mask (iw_poll (hw_waiter w)) (pf_fd pf) = 0"
  shows "\<exists>iw k s. poll_register os fds w = Some (w\<lparr>hw_waiter := iw, hw_kernel := k, hw_rt := s\<rparr>) \<and>
     waiter_ok F iw \<and> synced interest (iw_poll iw) k \<and> polled (hw_fiber w) iw fds \<and>
     same_events (pf_fd ` set fds) (hw_waiter w) iw \<and>
     pl_timeEvents (iw_poll iw) = pl_timeEvents (iw_poll (hw_waiter w))"
  using assms(2-)
proof (induction fds arbitrary: w)
  case Nil
  then show ?case
    by (intro exI [of _ "hw_waiter w"] exI [of _ "hw_kernel w"] exI [of _ "hw_rt w"]) (simp add: hw_ok_def polled_def)
next
  case (Cons pf fds)
  let ?iw = "hw_waiter w" and ?m = "PollEvent2EEvent (pf_events pf)"
  have fd: "pollable os ?iw (pf_fd pf)" "0 \<le> pf_fd pf" and m: "?m \<noteq> 0"
    using Cons.prems(3) poll_mask_wanted by (auto simp: poll_args_def pollable_def)
  have z: "ev_mask (iw_poll ?iw) (pf_fd pf) = 0" using Cons.prems(4) by simp
  obtain iw k where 1: "hw_setFileEvent os (pf_fd pf) ?m w = Some (w\<lparr>hw_waiter := iw, hw_kernel := k,
        hw_rt := upd_fiber (hw_fiber w) (\<lambda>fb. fb\<lparr>fb_state := WAITING\<rparr>) (hw_rt w)\<rparr>)"
      "waiter_ok F iw" "synced interest (iw_poll iw) k" "waits_on (hw_fiber w) iw (pf_fd pf) ?m"
      "same_events {pf_fd pf} ?iw iw" "pl_timeEvents (iw_poll iw) = pl_timeEvents (iw_poll ?iw)"
    using hw_setFileEvent_ok [OF assms(1) Cons.prems(1,2) m fd(1) z] by blast
  define w1 where "w1 = w\<lparr>hw_waiter := iw, hw_kernel := k,
        hw_rt := upd_fiber (hw_fiber w) (\<lambda>fb. fb\<lparr>fb_state := WAITING\<rparr>) (hw_rt w)\<rparr>"
  have w1: "hw_waiter w1 = iw" "hw_kernel w1 = k" "hw_fiber w1 = hw_fiber w" by (simp_all add: w1_def)
  have sz: "pl_setsize (iw_poll iw) = pl_setsize (iw_poll ?iw)" using 1(5) by (simp add: same_events_def)
  have ok1: "hw_ok interest F w1" using 1(2,3) by (simp add: hw_ok_def w1)
  have a1: "poll_args os (hw_waiter w1) fds"
    using Cons.prems(3) unfolding poll_args_def pollable_def w1 sz by simp
  have z1: "\<forall>x\<in>set fds. ev_mask (iw_poll (hw_waiter w1)) (pf_fd x) = 0"
  proof
    fix x assume x: "x \<in> set fds"
    then have "pf_fd x \<in> pf_fd ` set fds" by (rule imageI)
    moreover have "pf_fd pf \<notin> pf_fd ` set fds" using Cons.prems(3) by (simp add: poll_args_def)
    ultimately have "pf_fd x \<noteq> pf_fd pf" by (rule mem_neq)
    moreover have "0 \<le> pf_fd x" using Cons.prems(3) x by (simp add: poll_args_def pollable_def)
    ultimately have "0 \<le> pf_fd x" "pf_fd x \<noteq> pf_fd pf" by simp_all
    then show "ev_mask (iw_poll (hw_waiter w1)) (pf_fd x) = 0"
      using Cons.prems(4) x 1(5) unfolding w1 same_events_def by simp
  qed
  obtain iw2 k2 s2 where 2: "poll_register os fds w1 = Some (w1\<lparr>hw_waiter := iw2, hw_kernel := k2, hw_rt := s2\<rparr>)"
      "waiter_ok F iw2" "synced interest (iw_poll iw2) k2" "polled (hw_fiber w1) iw2 fds"
      "same_events (pf_fd ` set fds) iw iw2" "pl_timeEvents (iw_poll iw2) = pl_timeEvents (iw_poll iw)"
    using Cons.IH [OF ok1 _ a1 z1] Cons.prems(2) unfolding w1 by blast
  have nf: "pf_fd pf \<notin> pf_fd ` set fds" using Cons.prems(3) by (auto simp: poll_args_def)
  have "polled (hw_fiber w) iw2 (pf # fds)"
    using 2(4) 1(4) waits_on_same [OF 2(5) nf] unfolding polled_def w1 by simp
  moreover have "same_events (pf_fd ` set (pf # fds)) ?iw iw2"
    using same_events_trans [OF 1(5) 2(5)] by simp
  moreover have "poll_register os (pf # fds) w = Some (w\<lparr>hw_waiter := iw2, hw_kernel := k2, hw_rt := s2\<rparr>)"
    using 1(1) 2(1) fd(2) by (simp add: w1_def)
  ultimately show ?case using 1(6) 2(2,3,6) by metis
qed

text \<open>The array that the second part leaves.\<close>

definition poll_reported :: "pollfd \<Rightarrow> pollfd" where
  "poll_reported pf = pf\<lparr>pf_revents := pf_events pf AND (POLLIN OR POLLOUT)\<rparr>"

lemma poll_release_ok:
  assumes "epoll_spec os interest" "hw_ok interest F w"
    and "polled f (hw_waiter w) fds" "distinct (map pf_fd fds)"
  shows "\<exists>iw k. poll_drop os fds w = Some (w\<lparr>hw_waiter := iw, hw_kernel := k\<rparr>) \<and>
     poll_collect os fds w = Some (map poll_reported fds, w\<lparr>hw_waiter := iw, hw_kernel := k\<rparr>) \<and>
     waiter_ok F iw \<and> synced interest (iw_poll iw) k \<and> (\<forall>pf\<in>set fds. ev_mask (iw_poll iw) (pf_fd pf) = 0) \<and>
     same_events (pf_fd ` set fds) (hw_waiter w) iw"
  using assms(2-)
proof (induction fds arbitrary: w)
  case Nil
  then show ?case by (intro exI [of _ "hw_waiter w"] exI [of _ "hw_kernel w"]) (simp add: hw_ok_def)
next
  case (Cons pf fds)
  let ?iw = "hw_waiter w"
  have on: "waits_on f ?iw (pf_fd pf) (PollEvent2EEvent (pf_events pf))"
    and fd: "0 \<le> pf_fd pf" "pf_fd pf < pl_setsize (iw_poll ?iw)"
      "ev_mask (iw_poll ?iw) (pf_fd pf) = PollEvent2EEvent (pf_events pf)"
    using Cons.prems(2) by (simp_all add: polled_def waits_on_def)
  obtain iw k where 1: "hw_delFileEvent os (pf_fd pf) 3 w = Some (w\<lparr>hw_waiter := iw, hw_kernel := k\<rparr>)"
      "waiter_ok F iw" "synced interest (iw_poll iw) k" "ev_mask (iw_poll iw) (pf_fd pf) = 0"
      "same_events {pf_fd pf} ?iw iw"
    using hw_delFileEvent_ok [OF assms(1) Cons.prems(1) on poll_mask_all] by blast
  define w1 where "w1 = w\<lparr>hw_waiter := iw, hw_kernel := k\<rparr>"
  have w1: "hw_waiter w1 = iw" "hw_kernel w1 = k" by (simp_all add: w1_def)
  have ok1: "hw_ok interest F w1" using 1(2,3) by (simp add: hw_ok_def w1)
  have nf: "pf_fd pf \<notin> pf_fd ` set fds" using Cons.prems(3) by auto
  have po1: "polled f (hw_waiter w1) fds"
    unfolding polled_def w1
  proof
    fix x assume x: "x \<in> set fds"
    then have "pf_fd x \<in> pf_fd ` set fds" by (rule imageI)
    then have "pf_fd x \<noteq> pf_fd pf" using nf by (rule mem_neq)
    then have "pf_fd x \<notin> {pf_fd pf}" by simp
    from waits_on_same [OF 1(5) this] show "waits_on f iw (pf_fd x) (PollEvent2EEvent (pf_events x))"
      using Cons.prems(2) x by (simp add: polled_def)
  qed
  obtain iw2 k2 where 2: "poll_drop os fds w1 = Some (w1\<lparr>hw_waiter := iw2, hw_kernel := k2\<rparr>)"
      "poll_collect os fds w1 = Some (map poll_reported fds, w1\<lparr>hw_waiter := iw2, hw_kernel := k2\<rparr>)"
      "waiter_ok F iw2" "synced interest (iw_poll iw2) k2" "\<forall>pf\<in>set fds. ev_mask (iw_poll iw2) (pf_fd pf) = 0"
      "same_events (pf_fd ` set fds) iw iw2"
    using Cons.IH [OF ok1 po1] Cons.prems(3) unfolding w1 by auto
  have "EIoWaiter_getFileEvent (pf_fd pf) ?iw = Some (PollEvent2EEvent (pf_events pf))"
    using fd by (simp add: EIoWaiter_getFileEvent_def eco_poll_get_file_events_def)
  then have c: "poll_collect os (pf # fds) w =
      Some (map poll_reported (pf # fds), w\<lparr>hw_waiter := iw2, hw_kernel := k2\<rparr>)"
    using 1(1) 2(2) by (simp add: w1_def poll_reported_def poll_mask_back)
  have d: "poll_drop os (pf # fds) w = Some (w\<lparr>hw_waiter := iw2, hw_kernel := k2\<rparr>)"
    using 1(1) 2(1) by (simp add: w1_def)
  have z: "ev_mask (iw_poll iw2) (pf_fd pf) = 0"
    using 2(6) nf fd(1) 1(4) by (simp add: same_events_def)
  have "same_events (pf_fd ` set (pf # fds)) ?iw iw2" using same_events_trans [OF 1(5) 2(6)] by simp
  then show ?case using c d z 2(3-5) by (intro exI [of _ iw2] exI [of _ k2]) simp
qed

lemma polled_same:
  assumes "polled f iw fds" "same_events A iw iw'" "A \<inter> pf_fd ` set fds = {}"
  shows "polled f iw' fds"
  unfolding polled_def
proof
  fix pf assume p: "pf \<in> set fds"
  then have "pf_fd pf \<in> pf_fd ` set fds" by (rule imageI)
  then have "pf_fd pf \<notin> A" using assms(3) by blast
  from waits_on_same [OF assms(2) this] show "waits_on f iw' (pf_fd pf) (PollEvent2EEvent (pf_events pf))"
    using assms(1) p by (simp add: polled_def)
qed

lemma hook_poll_parks:
  assumes os: "os_ok os interest clk" and ok: "hw_ok interest F w" and f: "hw_fiber w \<in> F"
    and nb: "\<not> bypass w" "timeout \<noteq> 0" "fds \<noteq> []"
    and args: "poll_args os (hw_waiter w) fds" "\<forall>pf\<in>set fds. ev_mask (iw_poll (hw_waiter w)) (pf_fd pf) = 0"
    and try1: "poll_f fds 0 (hw_kernel w) = ((0, err, fds), k1)" "interest k1 = interest (hw_kernel w)"
  shows "\<exists>tid w'. hook_poll_start os poll_f fds timeout w = Some (PollPark tid, w') \<and> hw_ok interest F w' \<and>
     polled (hw_fiber w) (hw_waiter w') fds \<and> hw_fiber w' = hw_fiber w \<and>
     fb_state (rt_fibers (hw_rt w') (hw_fiber w)) = WAITING \<and>
     same_events (pf_fd ` set fds) (hw_waiter w) (hw_waiter w') \<and>
     (if timeout > 0
      then \<not> fb_isIoWaitTimeout (rt_fibers (hw_rt w') (hw_fiber w)) \<and>
        (\<exists>te. pl_timeEvents (iw_poll (hw_waiter w')) = te # pl_timeEvents (iw_poll (hw_waiter w)) \<and>
           te_id te = tid \<and> te_clientData te = hw_fiber w \<and> te_millis te \<le> clk (hw_kernel w') + timeout)
      else tid = -1 \<and> pl_timeEvents (iw_poll (hw_waiter w')) = pl_timeEvents (iw_poll (hw_waiter w)))"
proof -
  have ep: "epoll_spec os interest" using os by (simp add: os_ok_def)
  define w1 where "w1 = w\<lparr>hw_kernel := k1\<rparr>"
  have "synced interest (iw_poll (hw_waiter w)) k1"
    using ok by (intro synced_cong [OF _ try1(2)]) (simp add: hw_ok_def)
  then have ok1: "hw_ok interest F w1" using ok by (simp add: hw_ok_def w1_def)
  have w1: "hw_waiter w1 = hw_waiter w" "hw_fiber w1 = hw_fiber w" by (simp_all add: w1_def)
  obtain iw k s where r: "poll_register os fds w1 = Some (w1\<lparr>hw_waiter := iw, hw_kernel := k, hw_rt := s\<rparr>)"
      "waiter_ok F iw" "synced interest (iw_poll iw) k" "polled (hw_fiber w) iw fds"
      "same_events (pf_fd ` set fds) (hw_waiter w) iw" "pl_timeEvents (iw_poll iw) = pl_timeEvents (iw_poll (hw_waiter w))"
    using poll_register_ok [OF ep ok1, of fds] f args unfolding w1 by blast
  define w2 where "w2 = w1\<lparr>hw_waiter := iw, hw_kernel := k, hw_rt := s\<rparr>"
  have pos: "\<not> (\<forall>pf\<in>set fds. pf_fd pf < 0)"
    using nb(3) args(1) by (cases fds) (auto simp: poll_args_def pollable_def)
  have k0: "on_kernel (poll_f fds 0) w = ((0, err, fds), w1)" by (simp add: on_kernel_def try1(1) w1_def)
  have st: "hook_poll_start os poll_f fds timeout w =
      (let (timerID, w3) = (if timeout > 0 then hw_setupTimer os timeout w2 else (-1, w2))
       in Some (PollPark timerID, EIoWaiter_swapOut w3))"
    using nb(1,2) unfolding hook_poll_start_def if_not_P [OF nb(1)] if_not_P [OF nb(2)] if_not_P [OF pos] k0
    by (simp add: r(1) if_not_P [OF pos] w2_def del: bex_simps ball_simps)
  have so: "hw_waiter (EIoWaiter_swapOut x) = hw_waiter x" "hw_kernel (EIoWaiter_swapOut x) = hw_kernel x"
    "hw_fiber (EIoWaiter_swapOut x) = hw_fiber x"
    "fb_state (rt_fibers (hw_rt (EIoWaiter_swapOut x)) (hw_fiber x)) = WAITING"
    "fb_isIoWaitTimeout (rt_fibers (hw_rt (EIoWaiter_swapOut x)) g) = fb_isIoWaitTimeout (rt_fibers (hw_rt x) g)"
    for x :: "('a, 'b) hw" and g
    by (simp_all add: EIoWaiter_swapOut_def EFiber_setState_def)
  have w2: "hw_waiter w2 = iw" "hw_kernel w2 = k" "hw_fiber w2 = hw_fiber w" "hw_rt w2 = s"
    by (simp_all add: w2_def w1)
  show ?thesis
  proof (cases "timeout > 0")
    case False
    then have "hook_poll_start os poll_f fds timeout w = Some (PollPark (-1), EIoWaiter_swapOut w2)"
      unfolding st by simp
    then show ?thesis using False r so [of w2]
      by (intro exI [of _ "-1"] exI [of _ "EIoWaiter_swapOut w2"]) (simp add: hw_ok_def w2)
  next
    case True
    obtain i iw' k' s' where t: "EIoWaiter_setupTimer os timeout (hw_fiber w) iw k s = (i, iw', k', s')"
      using prod_cases4 by blast
    have tm: "0 \<le> timeout" using True by simp
    note tt = setupTimer_ok [OF os r(2) tm f t]
    define w3 where "w3 = w2\<lparr>hw_waiter := iw', hw_kernel := k', hw_rt := s'\<rparr>"
    have w3: "hw_waiter w3 = iw'" "hw_kernel w3 = k'" "hw_fiber w3 = hw_fiber w" "hw_rt w3 = s'"
      by (simp_all add: w3_def w2)
    have sz: "pl_setsize (iw_poll iw') = pl_setsize (iw_poll iw)"
      using t by (auto simp: EIoWaiter_setupTimer_def eco_poll_time_event_create_def Let_def split: prod.splits)
    have se: "same_events {} iw iw'" using tt(6) sz by (simp add: same_events_def)
    have sy: "synced interest (iw_poll iw') k'"
      using synced_cong [OF r(3) tt(5)] unfolding synced_def tt(6) sz .
    have e: "hook_poll_start os poll_f fds timeout w = Some (PollPark i, EIoWaiter_swapOut w3)"
      unfolding st if_P [OF True] by (simp add: hw_setupTimer_def w2 t w3_def)
    have po: "polled (hw_fiber w) iw' fds" by (rule polled_same [OF r(4) se]) simp
    have sa: "same_events (pf_fd ` set fds) (hw_waiter w) iw'" using same_events_trans [OF r(5) se] by simp
    have fl: "\<not> fb_isIoWaitTimeout (rt_fibers s' (hw_fiber w))" unfolding tt(4) by simp
    obtain te where te: "pl_timeEvents (iw_poll iw') = te # pl_timeEvents (iw_poll iw)" "te_id te = i"
      "te_clientData te = hw_fiber w" "te_millis te \<le> clk k' + timeout" using tt(7) by blast
    have h: "hw_ok interest F (EIoWaiter_swapOut w3)" using tt(1) sy by (simp add: hw_ok_def so w3)
    have s4: "fb_state (rt_fibers (hw_rt (EIoWaiter_swapOut w3)) (hw_fiber w)) = WAITING"
      using so(4) [of w3] unfolding w3 .
    have tl: "pl_timeEvents (iw_poll iw') = te # pl_timeEvents (iw_poll (hw_waiter w))"
      using te(1) unfolding r(6) .
    show ?thesis
      unfolding if_P [OF True]
      by (intro exI [of _ i] exI [of _ "EIoWaiter_swapOut w3"] exI [of _ te] conjI e h s4)
        ((unfold so w3)?, rule po refl sa fl tl te)+
  qed
qed

lemma hook_poll_resume_ok:
  assumes ep: "epoll_spec os interest" and ok: "hw_ok interest F w"
    and po: "polled f (hw_waiter w) fds" "distinct (map pf_fd fds)"
  shows "\<exists>w'. hook_poll_resume os fds tid w = Some
      (if fb_isIoWaitTimeout (rt_fibers (hw_rt w) (hw_fiber w)) then (0, fds)
       else (int (length [pf\<leftarrow>fds. pf_events pf AND 5 \<noteq> 0]), map poll_reported fds), w') \<and>
     hw_ok interest F w' \<and> (\<forall>pf\<in>set fds. ev_mask (iw_poll (hw_waiter w')) (pf_fd pf) = 0) \<and>
     same_events (pf_fd ` set fds) (hw_waiter w) (hw_waiter w')"
proof -
  define w1 where "w1 = (if tid \<noteq> -1 then hw_cancelTimer tid w else w)"
  have w1: "hw_rt w1 = hw_rt w" "hw_fiber w1 = hw_fiber w" "hw_kernel w1 = hw_kernel w"
    "pl_events (iw_poll (hw_waiter w1)) = pl_events (iw_poll (hw_waiter w))"
    "pl_setsize (iw_poll (hw_waiter w1)) = pl_setsize (iw_poll (hw_waiter w))"
    by (simp_all add: w1_def hw_cancelTimer_def cancelTimer_fields)
  have se: "same_events {} (hw_waiter w) (hw_waiter w1)" by (simp add: same_events_def w1)
  have sy: "synced interest (iw_poll (hw_waiter w1)) (hw_kernel w1)"
    using ok unfolding hw_ok_def synced_def w1 by blast
  have "waiter_ok F (hw_waiter w1)"
    using ok cancelTimer_ok by (auto simp: hw_ok_def w1_def hw_cancelTimer_def)
  with sy have ok1: "hw_ok interest F w1" by (simp add: hw_ok_def)
  define w2 where "w2 = snd (hw_isWaitTimeout w1)"
  have w2: "hw_isWaitTimeout w1 = (fb_isIoWaitTimeout (rt_fibers (hw_rt w) (hw_fiber w)), w2)"
    "hw_waiter w2 = hw_waiter w1" "hw_kernel w2 = hw_kernel w1"
    by (simp_all add: w2_def hw_isWaitTimeout_def EFiber_isWaitTimeout_def w1)
  have ok2: "hw_ok interest F w2" using ok1 by (simp add: hw_ok_def w2)
  have po2: "polled f (hw_waiter w2) fds" unfolding w2 by (rule polled_same [OF po(1) se]) simp
  obtain iw k where r: "poll_drop os fds w2 = Some (w2\<lparr>hw_waiter := iw, hw_kernel := k\<rparr>)"
      "poll_collect os fds w2 = Some (map poll_reported fds, w2\<lparr>hw_waiter := iw, hw_kernel := k\<rparr>)"
      "waiter_ok F iw" "synced interest (iw_poll iw) k" "\<forall>pf\<in>set fds. ev_mask (iw_poll iw) (pf_fd pf) = 0"
      "same_events (pf_fd ` set fds) (hw_waiter w2) iw"
    using poll_release_ok [OF ep ok2 po2 po(2)] by blast
  have n: "length (filter (\<lambda>pf. pf_revents pf \<noteq> 0) (map poll_reported fds)) = length [pf\<leftarrow>fds. pf_events pf AND 5 \<noteq> 0]"
    by (simp add: filter_map poll_reported_def comp_def)
  have "same_events (pf_fd ` set fds) (hw_waiter w) iw"
    using same_events_trans [OF se r(6) [unfolded w2(2)]] by simp
  then show ?thesis
    using r n w2(1) unfolding hook_poll_resume_def w1_def [symmetric] Let_def
    by (intro exI [of _ "w2\<lparr>hw_waiter := iw, hw_kernel := k\<rparr>"]) (simp add: hw_ok_def)
qed

text \<open>A negative descriptor, which poll(2) ignores, is fatal when the fiber continues.\<close>

lemma hook_poll_resume_negative:
  assumes "pf \<in> set fds" "pf_fd pf < 0" "0 \<le> pl_setsize (iw_poll (hw_waiter w))"
  shows "hook_poll_resume os fds tid w = None"
proof -
  have sz: "pl_setsize (iw_poll (hw_waiter w')) = pl_setsize (iw_poll (hw_waiter w))"
    if "hw_delFileEvent os fd m w = Some w'" for fd m and w w' :: "('a, 'b) hw"
    using that by (auto simp: hw_delFileEvent_def EIoWaiter_delFileEvent_def eco_poll_file_event_delete_def Let_def
      split: if_splits cdata.splits option.splits prod.splits)
  have neg: "hw_delFileEvent os (pf_fd pf) 3 w = None"
    if "0 \<le> pl_setsize (iw_poll (hw_waiter w))" for w :: "('a, 'b) hw"
    using that assms(2) by (simp add: hw_delFileEvent_def EIoWaiter_delFileEvent_def)
  have d: "poll_drop os fds w = None \<and> poll_collect os fds w = None"
    if "0 \<le> pl_setsize (iw_poll (hw_waiter w))" for w :: "('a, 'b) hw"
    using assms(1) that
  proof (induction fds arbitrary: w)
    case (Cons x fds)
    show ?case
    proof (cases "x = pf")
      case True
      then show ?thesis using neg [OF Cons.prems(2)] by (simp split: option.split)
    next
      case False
      then have p: "pf \<in> set fds" using Cons.prems(1) by simp
      show ?thesis
      proof (cases "hw_delFileEvent os (pf_fd x) 3 w")
        case (Some w')
        then show ?thesis using Cons.IH [OF p] sz [OF Some] Cons.prems(2) by (simp split: option.split)
      qed (simp split: option.split)
    qed
  qed simp
  obtain b w2 where w2: "hw_isWaitTimeout (if tid \<noteq> -1 then hw_cancelTimer tid w else w) = (b, w2)"
    by fastforce
  then have "hw_waiter w2 = hw_waiter (if tid \<noteq> -1 then hw_cancelTimer tid w else w)"
    by (auto simp: hw_isWaitTimeout_def EFiber_isWaitTimeout_def)
  then have "pl_setsize (iw_poll (hw_waiter w2)) = pl_setsize (iw_poll (hw_waiter w))"
    by (simp add: hw_cancelTimer_def cancelTimer_fields)
  then have "poll_drop os fds w2 = None \<and> poll_collect os fds w2 = None" using d assms(3) by simp
  then show ?thesis unfolding hook_poll_resume_def Let_def w2 by simp
qed

section \<open>The registration loop of select\<close>

text \<open>
  From the first descriptor on that is in a set, every descriptor below \<open>nfds\<close> is registered,
  because \<open>events\<close> is never reset.
\<close>

lemma select_register_suffix:
  assumes "select_register os rd wr fds events w = Some (pfds, w')"
  shows "pfds = (if events \<noteq> 0 then fds else dropWhile (\<lambda>fd. \<not> isset fd rd \<and> \<not> isset fd wr) fds)"
  using assms
proof (induction fds arbitrary: events w pfds w')
  case (Cons fd fds)
  then show ?case
    by (auto simp: Let_def split: if_splits option.splits) (metis Cons.IH zero_neq_numeral zero_neq_one)+
qed simp

text \<open>
  select(2): when it returns 0, the sets have been emptied. The hook calls it once before it looks at
  the sets, so that it never finds a descriptor to register.
\<close>

definition select_spec :: "'k select_fn \<Rightarrow> bool" where
  "select_spec select_f \<longleftrightarrow> (\<forall>n sets tmo k rd wr ex k'. select_f n sets tmo k = ((0, (rd, wr, ex)), k') \<longrightarrow>
     rd \<in> {None, Some {}} \<and> wr \<in> {None, Some {}} \<and> ex \<in> {None, Some {}})"

lemma select_register_empty:
  assumes "rd \<in> {None, Some {}}" "wr \<in> {None, Some {}}"
  shows "select_register os rd wr fds 0 w = Some ([], w)"
proof -
  have n: "\<not> isset fd rd \<and> \<not> isset fd wr" for fd using assms by (auto simp: isset_def)
  then show ?thesis by (induction fds) simp_all
qed

lemma select_registers_nothing:
  assumes sp: "select_spec select_f"
    and run: "hook_select_start os select_f nfds sets tmo w = Some (SelectPark tid pfds sets', w')"
  shows "pfds = []" and "pl_events (iw_poll (hw_waiter w')) = pl_events (iw_poll (hw_waiter w))"
    and "\<exists>v'. hook_select_resume os pfds tid sets' v = Some ((0, sets'), v')"
proof -
  obtain rd wr ex where s: "sets = (rd, wr, ex)" by (metis prod.exhaust)
  obtain ret rd1 wr1 ex1 k1 where f: "select_f (min nfds 1024) sets (Some (0, 0)) (hw_kernel w) = ((ret, (rd1, wr1, ex1)), k1)"
    by (metis prod.exhaust)
  define w1 where "w1 = w\<lparr>hw_kernel := k1\<rparr>"
  define ms where "ms = (case tmo of Some (sec, usec) \<Rightarrow> sec * 1000 + usec sdiv 1000 | None \<Rightarrow> LLONG_MAX)"
  have k: "on_kernel (select_f (min nfds 1024) sets (Some (0, 0))) w = ((ret, (rd1, wr1, ex1)), w1)"
    by (simp add: on_kernel_def f w1_def)
  note run' = run [unfolded s hook_select_start_def Let_def prod.case ms_def [symmetric]]
  have nb: "\<not> (bypass w \<or> ms = 0)" using run' by (auto split: prod.splits)
  note run1 = run' [unfolded if_not_P [OF nb]]
  have ns: "\<not> (nfds = 0 \<or> (rd = None \<and> wr = None \<and> ex = None))"
  proof
    assume "nfds = 0 \<or> (rd = None \<and> wr = None \<and> ex = None)"
    from run1 [unfolded if_P [OF this]] show False by simp
  qed
  note run2 = run1 [unfolded if_not_P [OF ns] k [unfolded s] prod.case]
  have r0: "ret = 0"
  proof (rule ccontr)
    assume "ret \<noteq> 0"
    from run2 [unfolded if_P [OF this]] show False by simp
  qed
  have em: "rd1 \<in> {None, Some {}} \<and> wr1 \<in> {None, Some {}} \<and> ex1 \<in> {None, Some {}}"
    using sp f unfolding select_spec_def r0 by blast
  have reg: "select_register os rd1 wr1 fds 0 w1 = Some ([], w1)" for fds
    using em by (intro select_register_empty) blast+
  have fin: "\<exists>w3. pfds = [] \<and> w' = EIoWaiter_swapOut w3 \<and> (w3 = w1 \<or> w3 = snd (hw_setupTimer os ms w1))"
    using run2 reg unfolding r0 by (auto split: if_splits prod.splits)
  then show p: "pfds = []" by blast
  have t: "pl_events (iw_poll (hw_waiter (snd (hw_setupTimer os ms w1)))) = pl_events (iw_poll (hw_waiter w1))"
    by (auto simp: hw_setupTimer_def EIoWaiter_setupTimer_def eco_poll_time_event_create_def Let_def split: prod.split)
  show "pl_events (iw_poll (hw_waiter w')) = pl_events (iw_poll (hw_waiter w))"
    using fin t by (auto simp: EIoWaiter_swapOut_def w1_def)
  obtain rd2 wr2 ex2 where s2: "sets' = (rd2, wr2, ex2)" by (metis prod.exhaust)
  show "\<exists>v'. hook_select_resume os pfds tid sets' v = Some ((0, sets'), v')"
    unfolding p s2 by (simp add: hook_select_resume_def Let_def split: prod.split)
qed

end
