(* ===== verification/Hooker_Io.thy ===== *)
theory Hooker_Io
  imports Hooker_Wait
begin

text \<open>
  The blocking io calls of src/EHooker.cpp: the template \<open>comm_io_on_fiber\<close> that all read and
  write hooks instantiate, in its two variants (with and without \<open>CPP11_SUPPORT\<close>), \<open>sendfile\<close>
  and \<open>gethostbyname\<close>. They loop around \<open>poll\<close>; a loop that never ends is \<^term>\<open>None\<close>. A hook that
  pauses its fiber returns what it needs to continue.
\<close>

abbreviation (input) EAGAIN :: int where "EAGAIN \<equiv> 11"  \<comment> \<open>also \<open>EWOULDBLOCK\<close>\<close>
abbreviation (input) ETIMEDOUT :: int where "ETIMEDOUT \<equiv> 110"
abbreviation (input) ERANGE :: int where "ERANGE \<equiv> 34"

section \<open>The retry loop\<close>

text \<open>
  The outcome: the result with \<open>errno\<close>; parked in \<open>poll\<close> with this timer; or asleep in it (which
  happens for a negative descriptor only).
\<close>

datatype io_out = IoDone int int | IoPark int | IoSleep int

type_synonym ('k, 'z) io_fn = "('k, 'z) hw \<Rightarrow> (int \<times> int) \<times> ('k, 'z) hw"

abbreviation io_pollfd :: "int \<Rightarrow> int \<Rightarrow> pollfd" where
  "io_pollfd fd event \<equiv> \<lparr>pf_fd = fd, pf_events = event, pf_revents = 0\<rparr>"

text \<open>
  From the label \<open>RETRY\<close>. \<open>pr\<close> is the result of \<open>poll\<close> with its \<open>errno\<close> once it has returned.
  On this path \<open>isUNB\<close> is false, so that a timeout is always \<open>ETIMEDOUT\<close>.
\<close>

partial_function (option) io_loop :: "'k os \<Rightarrow> 'k poll_fn \<Rightarrow> ('k, 'z) io_fn \<Rightarrow> int \<Rightarrow> int \<Rightarrow> int \<Rightarrow>
    (int \<times> int) option \<Rightarrow> ('k, 'z) hw \<Rightarrow> (io_out fres \<times> ('k, 'z) hw) option" where
  "io_loop os poll_f fn fd event ms pr w =
     (case pr of
        None \<Rightarrow>
          (case hook_poll_start os poll_f [io_pollfd fd event] ms w of
             None \<Rightarrow> Some (FFault, w)
           | Some (PollDone ret err fds, w1) \<Rightarrow> io_loop os poll_f fn fd event ms (Some (ret, err)) w1
           | Some (PollSleep t, w1) \<Rightarrow> Some (FOk (IoSleep t), w1)
           | Some (PollPark tid, w1) \<Rightarrow> Some (FOk (IoPark tid), w1))
      | Some (ret, err) \<Rightarrow>
          if ret = 1 then
            (case fn w of ((r, e), w1) \<Rightarrow>
               if r = -1 \<and> e = EAGAIN then io_loop os poll_f fn fd event ms None w1
               else Some (FOk (IoDone r e), w1))
          else if ret = 0 then Some (FOk (IoDone (-1) ETIMEDOUT), w)
          else Some (FOk (IoDone ret err), w))"

section \<open>comm_io_on_fiber\<close>

definition io_timeout :: "int \<Rightarrow> fctx \<Rightarrow> int" where
  "io_timeout event fc =
     (let ms = (if event = POLLIN then fc_recvTimeout fc else fc_sendTimeout fc)
      in if ms = 0 then -1 else ms)"

text \<open>An accepted socket inherits \<open>O_NONBLOCK\<close> from the listening one; it is cleared again.\<close>

definition reset_accepted :: "'k sysapi \<Rightarrow> int \<Rightarrow> ('k, 'z) hw \<Rightarrow> ('k, 'z) hw" where
  "reset_accepted S socket w =
     snd (on_kernel (\<lambda>k. sy_setfl S socket (sy_getfl S k socket AND NOT O_NONBLOCK) k) w)"

text \<open>The label \<open>SUCCESS\<close>: \<open>acc\<close> says that \<open>fn\<close> is \<open>accept_f\<close>.\<close>

fun io_success :: "'k sysapi \<Rightarrow> bool \<Rightarrow> io_out fres \<times> ('k, 'z) hw \<Rightarrow> io_out fres \<times> ('k, 'z) hw" where
  "io_success S acc (FOk (IoDone r e), w) =
     (FOk (IoDone r e), if r \<ge> 0 \<and> acc then reset_accepted S r w else w)"
| "io_success S acc (res, w) = (res, w)"

text \<open>The template with \<open>CPP11_SUPPORT\<close>: up to the first pause, and from there.\<close>

definition comm_io_on_fiber :: "'k sysapi \<Rightarrow> (int \<Rightarrow> int) \<Rightarrow> 'k os \<Rightarrow> 'k poll_fn \<Rightarrow> bool \<Rightarrow>
    ('k \<Rightarrow> (int \<times> int) \<times> 'k) \<Rightarrow> int \<Rightarrow> int \<Rightarrow> ('k, 'z) hw \<Rightarrow> (io_out fres \<times> ('k, 'z) hw) option" where
  "comm_io_on_fiber S up os poll_f acc fn event fd w =
     (let orig = (\<lambda>w. let ((r, e), w') = on_kernel fn w in Some (FOk (IoDone r e), w')) in
      if \<not> hooked_fd S fd w then orig w
      else
       (case hw_get S up fd w of
          (FOk c, w1) \<Rightarrow>
            if fc_userNonBlocked (hw_ctx c w1) then orig w1
            else
             (let ((r, e), w2) = (if event AND POLLOUT = POLLOUT then on_kernel fn w1 else ((-1, 0), w1)) in
              if event AND POLLOUT = POLLOUT \<and> r \<ge> 0 then Some (io_success S acc (FOk (IoDone r e), w2))
              else map_option (io_success S acc)
                (io_loop os poll_f (on_kernel fn) fd event (io_timeout event (hw_ctx c w2)) None w2))
        | (FThrow, w1) \<Rightarrow> Some (FThrow, w1)
        | (FSpin, w1) \<Rightarrow> Some (FSpin, w1)
        | (FFault, w1) \<Rightarrow> Some (FFault, w1)))"

definition comm_io_resume :: "'k sysapi \<Rightarrow> 'k os \<Rightarrow> 'k poll_fn \<Rightarrow> bool \<Rightarrow> ('k \<Rightarrow> (int \<times> int) \<times> 'k) \<Rightarrow>
    int \<Rightarrow> int \<Rightarrow> int \<Rightarrow> int \<Rightarrow> ('k, 'z) hw \<Rightarrow> (io_out fres \<times> ('k, 'z) hw) option" where
  "comm_io_resume S os poll_f acc fn event fd ms tid w =
     (case hook_poll_resume os [io_pollfd fd event] tid w of
        None \<Rightarrow> Some (FFault, w)
      | Some ((n, fds), w1) \<Rightarrow>
          map_option (io_success S acc) (io_loop os poll_f (on_kernel fn) fd event ms (Some (n, 0)) w1))"

text \<open>
  The variant with \<open>va_list\<close>. \<open>call_fn\<close> clears the flag of an accepted socket itself, if there is a
  context \<open>fc\<close> that is not in the non-blocking mode at that moment.
\<close>

definition call_fn :: "'k sysapi \<Rightarrow> cptr option \<Rightarrow> bool \<Rightarrow> ('k \<Rightarrow> (int \<times> int) \<times> 'k) \<Rightarrow> ('k, 'z) io_fn" where
  "call_fn S fc acc fn w =
     (let ((r, e), w1) = on_kernel fn w in
      ((r, e), if acc \<and> r \<ge> 0 \<and> (\<exists>c. fc = Some c \<and> \<not> fc_userNonBlocked (hw_ctx c w1))
               then reset_accepted S r w1 else w1))"

definition comm_io_va :: "'k sysapi \<Rightarrow> (int \<Rightarrow> int) \<Rightarrow> 'k os \<Rightarrow> 'k poll_fn \<Rightarrow> bool \<Rightarrow>
    ('k \<Rightarrow> (int \<times> int) \<times> 'k) \<Rightarrow> int \<Rightarrow> int \<Rightarrow> ('k, 'z) hw \<Rightarrow> (io_out fres \<times> ('k, 'z) hw) option" where
  "comm_io_va S up os poll_f acc fn event fd w =
     (let orig = (\<lambda>w. let ((r, e), w') = call_fn S None acc fn w in Some (FOk (IoDone r e), w')) in
      if \<not> hooked_fd S fd w then orig w
      else
       (case hw_get S up fd w of
          (FOk c, w1) \<Rightarrow>
            if fc_userNonBlocked (hw_ctx c w1) then orig w1
            else
             (let ((r, e), w2) = (if event AND POLLOUT = POLLOUT then call_fn S (Some c) acc fn w1
                                  else ((-1, 0), w1)) in
              if event AND POLLOUT = POLLOUT \<and> r \<ge> 0 then Some (FOk (IoDone r e), w2)
              else io_loop os poll_f (call_fn S (Some c) acc fn) fd event
                (io_timeout event (hw_ctx c w2)) None w2)
        | (FThrow, w1) \<Rightarrow> Some (FThrow, w1)
        | (FSpin, w1) \<Rightarrow> Some (FSpin, w1)
        | (FFault, w1) \<Rightarrow> Some (FFault, w1)))"

definition comm_io_va_resume :: "'k sysapi \<Rightarrow> 'k os \<Rightarrow> 'k poll_fn \<Rightarrow> cptr \<Rightarrow> bool \<Rightarrow>
    ('k \<Rightarrow> (int \<times> int) \<times> 'k) \<Rightarrow> int \<Rightarrow> int \<Rightarrow> int \<Rightarrow> int \<Rightarrow> ('k, 'z) hw \<Rightarrow> (io_out fres \<times> ('k, 'z) hw) option" where
  "comm_io_va_resume S os poll_f c acc fn event fd ms tid w =
     (case hook_poll_resume os [io_pollfd fd event] tid w of
        None \<Rightarrow> Some (FFault, w)
      | Some ((n, fds), w1) \<Rightarrow>
          io_loop os poll_f (call_fn S (Some c) acc fn) fd event ms (Some (n, 0)) w1)"

section \<open>The hooks\<close>

datatype iocall =
    Io_accept | Io_read | Io_readv | Io_recv | Io_recvfrom | Io_recvmsg
  | Io_write | Io_writev | Io_send | Io_sendto | Io_sendmsg | Io_pread | Io_pwrite
  | Io_fread | Io_fwrite

fun io_event :: "iocall \<Rightarrow> int" where
  "io_event Io_accept = POLLIN"
| "io_event Io_read = POLLIN"
| "io_event Io_readv = POLLIN"
| "io_event Io_recv = POLLIN"
| "io_event Io_recvfrom = POLLIN"
| "io_event Io_recvmsg = POLLIN"
| "io_event Io_write = POLLOUT"
| "io_event Io_writev = POLLOUT"
| "io_event Io_send = POLLOUT"
| "io_event Io_sendto = POLLOUT"
| "io_event Io_sendmsg = POLLOUT"
| "io_event Io_pread = POLLIN"
| "io_event Io_pwrite = POLLOUT"
| "io_event Io_fread = POLLIN"
| "io_event Io_fwrite = POLLOUT"

text \<open>
  \<open>orig c\<close> is the original function with the arguments of the call; \<open>fd\<close> is the descriptor, for
  the stream calls that of the stream. \<open>cpp11\<close> chooses the variant of the template.
\<close>

definition hook_io :: "bool \<Rightarrow> 'k sysapi \<Rightarrow> (int \<Rightarrow> int) \<Rightarrow> 'k os \<Rightarrow> 'k poll_fn \<Rightarrow>
    (iocall \<Rightarrow> 'k \<Rightarrow> (int \<times> int) \<times> 'k) \<Rightarrow> iocall \<Rightarrow> int \<Rightarrow> ('k, 'z) hw \<Rightarrow>
    (io_out fres \<times> ('k, 'z) hw) option" where
  "hook_io cpp11 S up os poll_f orig c fd w =
     (if cpp11 then comm_io_on_fiber S up os poll_f (c = Io_accept) (orig c) (io_event c) fd w
      else comm_io_va S up os poll_f (c = Io_accept) (orig c) (io_event c) fd w)"

section \<open>sendfile\<close>

text \<open>
  The Linux version. \<open>sf\<close> is \<open>sendfile_f\<close> on the two descriptors: from the offset and the count
  to the result, \<open>errno\<close> and the new offset. The loop carries \<open>offset_\<close> and \<open>count\<close>.
\<close>

datatype send_out = SendDone int int int | SendPark int int int | SendSleep int

type_synonym 'k send_fn = "int \<Rightarrow> int \<Rightarrow> 'k \<Rightarrow> (int \<times> int \<times> int) \<times> 'k"

partial_function (option) sendfile_loop :: "'k os \<Rightarrow> 'k poll_fn \<Rightarrow> 'k send_fn \<Rightarrow> int \<Rightarrow> int \<Rightarrow>
    (int \<times> int) option \<Rightarrow> int \<Rightarrow> int \<Rightarrow> ('k, 'z) hw \<Rightarrow> (send_out fres \<times> ('k, 'z) hw) option" where
  "sendfile_loop os poll_f sf fd ms pr off cnt w =
     (case pr of
        None \<Rightarrow>
          (case hook_poll_start os poll_f [io_pollfd fd POLLOUT] ms w of
             None \<Rightarrow> Some (FFault, w)
           | Some (PollDone ret err fds, w1) \<Rightarrow>
               sendfile_loop os poll_f sf fd ms (Some (ret, err)) off cnt w1
           | Some (PollSleep t, w1) \<Rightarrow> Some (FOk (SendSleep t), w1)
           | Some (PollPark tid, w1) \<Rightarrow> Some (FOk (SendPark tid off cnt), w1))
      | Some (ret, err) \<Rightarrow>
          if ret = 1 then
            (case on_kernel (sf off cnt) w of ((r, e, off'), w1) \<Rightarrow>
               let cnt' = (if r > 0 then cnt - r else cnt) in
               if ((r \<ge> 0 \<and> cnt' > 0) \<or> (r = -1 \<and> e = EAGAIN)) \<and> cnt' > 0
               then sendfile_loop os poll_f sf fd ms None off' cnt' w1
               else Some (FOk (SendDone r (if r = 0 then 0 else e) off'), w1))
          else if ret = 0 then Some (FOk (SendDone (-1) ETIMEDOUT off), w)
          else Some (FOk (SendDone ret err off), w))"

text \<open>\<open>offset\<close> is \<^term>\<open>None\<close> for a null pointer; then the loop starts at offset 0.\<close>

definition hook_sendfile :: "'k sysapi \<Rightarrow> (int \<Rightarrow> int) \<Rightarrow> 'k os \<Rightarrow> 'k poll_fn \<Rightarrow> 'k send_fn \<Rightarrow>
    (int option \<Rightarrow> int \<Rightarrow> 'k \<Rightarrow> (int \<times> int \<times> int) \<times> 'k) \<Rightarrow> int \<Rightarrow> int option \<Rightarrow> int \<Rightarrow> ('k, 'z) hw \<Rightarrow>
    (send_out fres \<times> ('k, 'z) hw) option" where
  "hook_sendfile S up os poll_f sf sendfile_f out_fd offset count w =
     (let orig = (\<lambda>w. let ((r, e, off), w') = on_kernel (sendfile_f offset count) w
                      in Some (FOk (SendDone r e off), w')) in
      if \<not> hooked_fd S out_fd w then orig w
      else
       (case hw_get S up out_fd w of
          (FOk c, w1) \<Rightarrow>
            if fc_userNonBlocked (hw_ctx c w1) then orig w1
            else
             (let ms = (if fc_sendTimeout (hw_ctx c w1) = 0 then -1 else fc_sendTimeout (hw_ctx c w1))
              in sendfile_loop os poll_f sf out_fd ms None (case offset of Some off \<Rightarrow> off | None \<Rightarrow> 0) count w1)
        | (FThrow, w1) \<Rightarrow> Some (FThrow, w1)
        | (FSpin, w1) \<Rightarrow> Some (FSpin, w1)
        | (FFault, w1) \<Rightarrow> Some (FFault, w1)))"

definition hook_sendfile_resume :: "'k os \<Rightarrow> 'k poll_fn \<Rightarrow> 'k send_fn \<Rightarrow> int \<Rightarrow> int \<Rightarrow> int \<Rightarrow> int \<Rightarrow> int \<Rightarrow>
    ('k, 'z) hw \<Rightarrow> (send_out fres \<times> ('k, 'z) hw) option" where
  "hook_sendfile_resume os poll_f sf fd ms tid off cnt w =
     (case hook_poll_resume os [io_pollfd fd POLLOUT] tid w of
        None \<Rightarrow> Some (FFault, w)
      | Some ((n, fds), w1) \<Rightarrow> sendfile_loop os poll_f sf fd ms (Some (n, 0)) off cnt w1)"

section \<open>gethostbyname\<close>

text \<open>
  \<open>hostbuf_wrap\<close>, one per fiber (the value of \<open>hostbuf_wrap_local\<close>): whether there is a buffer, and
  its size. \<open>lookup\<close> is \<open>gethostbyname_r\<close> on the name with a buffer of that size: the result, null
  or not, and \<open>errno\<close>.
\<close>

record hostbuf =
  hb_buffer :: bool
  hb_size :: "64 word"

partial_function (option) host_retry :: "(64 word \<Rightarrow> 'k \<Rightarrow> ('h option \<times> int) \<times> 'k) \<Rightarrow> 64 word \<Rightarrow> 'k \<Rightarrow>
    ('h option \<times> 64 word \<times> 'k) option" where
  "host_retry lookup sz k =
     (case lookup sz k of ((res, err), k') \<Rightarrow>
        if res = None \<and> err = ERANGE then host_retry lookup (sz * 2) k'
        else Some (res, sz, k'))"

definition host_buffer :: "hostbuf option \<Rightarrow> hostbuf" where
  "host_buffer local =
     (let hw = (case local of None \<Rightarrow> \<lparr>hb_buffer = False, hb_size = 0\<rparr> | Some hw \<Rightarrow> hw);
          hw1 = (if hb_buffer hw \<and> hb_size hw > 1024 then hw\<lparr>hb_buffer := False\<rparr> else hw)
      in if \<not> hb_buffer hw1 then hw1\<lparr>hb_buffer := True, hb_size := 1024\<rparr> else hw1)"

definition hook_gethostbyname :: "(64 word \<Rightarrow> 'k \<Rightarrow> ('h option \<times> int) \<times> 'k) \<Rightarrow> ('k \<Rightarrow> 'h option \<times> 'k) \<Rightarrow>
    bool \<Rightarrow> hostbuf option \<Rightarrow> ('k, 'z) hw \<Rightarrow> ('h option \<times> hostbuf option \<times> ('k, 'z) hw) option" where
  "hook_gethostbyname lookup gethostbyname_f name_null local w =
     (if name_null then Some (None, local, w)
      else if bypass w then
        (let (res, w') = on_kernel gethostbyname_f w in Some (res, local, w'))
      else
       (case host_retry lookup (hb_size (host_buffer local)) (hw_kernel w) of
          None \<Rightarrow> None
        | Some (res, sz, k) \<Rightarrow>
            Some (res, Some ((host_buffer local)\<lparr>hb_size := sz\<rparr>), w\<lparr>hw_kernel := k\<rparr>)))"

declare io_loop.simps [code] and sendfile_loop.simps [code] and host_retry.simps [code]

section \<open>What the loop relies on\<close>

text \<open>
  poll(2): only \<open>revents\<close> is written; the result for one descriptor is -1, 0 or 1, and
  \<open>EAGAIN\<close> is not among the errors.
\<close>

definition poll_spec :: "'k poll_fn \<Rightarrow> bool" where
  "poll_spec poll_f \<longleftrightarrow> (\<forall>pf tmo k ret err fds k'. poll_f [pf] tmo k = ((ret, err, fds), k') \<longrightarrow>
     (\<exists>r. fds = [pf\<lparr>pf_revents := r\<rparr>]) \<and> ret \<in> {-1, 0, 1} \<and> (ret = -1 \<longrightarrow> err \<noteq> EAGAIN))"

lemma io_loop_polled:
  "io_loop os poll_f fn fd event ms (Some (ret, err)) w =
     (if ret = 1 then
        (case fn w of ((r, e), w1) \<Rightarrow>
           if r = -1 \<and> e = EAGAIN then io_loop os poll_f fn fd event ms None w1
           else Some (FOk (IoDone r e), w1))
      else if ret = 0 then Some (FOk (IoDone (-1) ETIMEDOUT), w)
      else Some (FOk (IoDone ret err), w))"
  by (subst io_loop.simps) simp

lemma io_loop_poll:
  "io_loop os poll_f fn fd event ms None w =
     (case hook_poll_start os poll_f [io_pollfd fd event] ms w of
        None \<Rightarrow> Some (FFault, w)
      | Some (PollDone ret err fds, w1) \<Rightarrow> io_loop os poll_f fn fd event ms (Some (ret, err)) w1
      | Some (PollSleep t, w1) \<Rightarrow> Some (FOk (IoSleep t), w1)
      | Some (PollPark tid, w1) \<Rightarrow> Some (FOk (IoPark tid), w1))"
  by (subst io_loop.simps) simp

text \<open>\<open>poll\<close> that returns at once has asked the kernel once, without waiting.\<close>

lemma poll_start_done:
  assumes "hook_poll_start os poll_f [io_pollfd fd event] ms w = Some (PollDone ret err fds, w1)"
    and "\<not> bypass w" "ms \<noteq> 0" "0 \<le> fd" "poll_spec poll_f"
  shows "\<exists>k1. poll_f [io_pollfd fd event] 0 (hw_kernel w) = ((ret, err, fds), k1) \<and>
     w1 = w\<lparr>hw_kernel := k1\<rparr> \<and> (ret = 1 \<or> ret = -1 \<and> err \<noteq> EAGAIN)"
proof -
  obtain ret0 err0 fds0 k1 where p: "poll_f [io_pollfd fd event] 0 (hw_kernel w) = ((ret0, err0, fds0), k1)"
    by (metis prod.exhaust)
  then have s: "\<exists>r. fds0 = [(io_pollfd fd event)\<lparr>pf_revents := r\<rparr>]" "ret0 \<in> {-1, 0, 1}" "ret0 = -1 \<longrightarrow> err0 \<noteq> EAGAIN"
    using assms(5) unfolding poll_spec_def by blast+
  have np: "\<not> (\<forall>pf\<in>set fds0. pf_fd pf < 0)" using s(1) assms(4) by auto
  have "ret0 \<noteq> 0"
  proof
    assume "ret0 = 0"
    then show False using assms(1-4) p np
      by (auto simp: hook_poll_start_def on_kernel_def Let_def split: option.splits prod.splits if_splits)
  qed
  then show ?thesis using assms(1-4) p s(2,3)
    by (auto simp: hook_poll_start_def on_kernel_def Let_def)
qed

lemma poll_register_files:
  "poll_register os fds w = Some w' \<Longrightarrow> hw_files w' = hw_files w \<and> hw_sched w' = hw_sched w \<and> hw_signaled w' = hw_signaled w"
proof (induction fds arbitrary: w)
  case (Cons pf fds)
  show ?case
  proof (cases "pf_fd pf < 0")
    case False
    then obtain w1 where w1: "hw_setFileEvent os (pf_fd pf) (PollEvent2EEvent (pf_events pf)) w = Some w1"
        "poll_register os fds w1 = Some w'"
      using Cons.prems by (auto split: option.splits)
    have "hw_files w1 = hw_files w \<and> hw_sched w1 = hw_sched w \<and> hw_signaled w1 = hw_signaled w"
      using w1(1) by (auto simp: hw_setFileEvent_def split: option.splits)
    then show ?thesis using Cons.IH [OF w1(2)] by simp
  qed (use Cons in simp)
qed simp

lemma poll_start_files:
  assumes "hook_poll_start os poll_f fds ms w = Some (out, w')"
  shows "hw_files w' = hw_files w"
proof -
  have s: "hw_files (snd (hw_setupTimer os ms v)) = hw_files v" "hw_files (EIoWaiter_swapOut v) = hw_files v"
    for v :: "('a, 'b) hw"
    by (simp_all add: hw_setupTimer_def EIoWaiter_swapOut_def split: prod.split)
  have k: "hw_files (snd (on_kernel g v)) = hw_files v" for g :: "'a \<Rightarrow> 'c \<times> 'a" and v :: "('a, 'b) hw"
    by (simp add: on_kernel_def split: prod.split)
  note kk = k [of "poll_f fds ms" w] k [of "poll_f fds 0" w]
  show ?thesis using assms kk
    by (auto simp: hook_poll_start_def poll_orig_def split: if_splits option.splits prod.splits
      dest!: poll_register_files) (metis s snd_conv)+
qed

text \<open>Computation induction for the loop, with the arguments that do not change fixed.\<close>

definition io_body where
  "io_body loop os poll_f fn fd event ms pr w =
     (case pr of
        None \<Rightarrow>
          (case hook_poll_start os poll_f [io_pollfd fd event] ms w of
             None \<Rightarrow> Some (FFault, w)
           | Some (PollDone ret err fds, w1) \<Rightarrow> loop os poll_f fn fd event ms (Some (ret, err)) w1
           | Some (PollSleep t, w1) \<Rightarrow> Some (FOk (IoSleep t), w1)
           | Some (PollPark tid, w1) \<Rightarrow> Some (FOk (IoPark tid), w1))
      | Some (ret, err) \<Rightarrow>
          if ret = 1 then
            (case fn w of ((r, e), w1) \<Rightarrow>
               if r = -1 \<and> e = EAGAIN then loop os poll_f fn fd event ms None w1
               else Some (FOk (IoDone r e), w1))
          else if ret = 0 then Some (FOk (IoDone (-1) ETIMEDOUT), w)
          else Some (FOk (IoDone ret err), w))"

lemma io_loop_induct:
  assumes "io_loop os poll_f fn fd event ms pr w = Some res"
    and "\<And>loop pr w res. (\<And>pr w res. loop os poll_f fn fd event ms pr w = Some res \<Longrightarrow> P pr w res) \<Longrightarrow>
       io_body loop os poll_f fn fd event ms pr w = Some res \<Longrightarrow> P pr w res"
  shows "P pr w res"
proof -
  have "os' = os \<longrightarrow> poll_f' = poll_f \<longrightarrow> fn' = fn \<longrightarrow> fd' = fd \<longrightarrow> event' = event \<longrightarrow> ms' = ms \<longrightarrow> P pr w res"
    if "io_loop os' poll_f' fn' fd' event' ms' pr w = Some res" for os' poll_f' fn' fd' event' ms' pr w res
    apply (rule io_loop.raw_induct [OF _ that, where P = "\<lambda>os' poll_f' fn' fd' event' ms' pr w res.
      os' = os \<longrightarrow> poll_f' = poll_f \<longrightarrow> fn' = fn \<longrightarrow> fd' = fd \<longrightarrow> event' = event \<longrightarrow> ms' = ms \<longrightarrow> P pr w res"])
    apply (intro impI)
    subgoal premises p for loop os' poll_f' fn' fd' event' ms' pr w res
    proof (rule assms(2) [of loop])
      show "\<And>pr w res. loop os poll_f fn fd event ms pr w = Some res \<Longrightarrow> P pr w res" using p(1) by blast
      show "io_body loop os poll_f fn fd event ms pr w = Some res" using p(2) unfolding p(3-8) io_body_def .
    qed
    done
  then show ?thesis using assms(1) by blast
qed

section \<open>The result of a blocking call\<close>

lemma bypass_kernel [simp]: "bypass (w\<lparr>hw_kernel := k\<rparr>) = bypass w"
  by (simp add: bypass_def isInterrupted_def)

lemma on_kernel_eq: "on_kernel g w = (r, w') \<Longrightarrow> \<exists>k. g (hw_kernel w) = (r, k) \<and> w' = w\<lparr>hw_kernel := k\<rparr>"
  by (auto simp: on_kernel_def split: prod.splits)

text \<open>The loop never gives \<open>EAGAIN\<close> to its caller.\<close>

text \<open>No poll of one descriptor, made by the hook or by the original, fails with \<open>EAGAIN\<close>.\<close>

lemma poll_start_err:
  assumes "poll_spec poll_f" "hook_poll_start os poll_f [pf] ms w = Some (PollDone ret err fds, w1)"
  shows "ret \<noteq> -1 \<or> err \<noteq> EAGAIN"
proof -
  have s: "ret0 = -1 \<longrightarrow> err0 \<noteq> EAGAIN" if "poll_f [pf] tmo k = ((ret0, err0, fds0), k')" for tmo k ret0 err0 fds0 k'
    using assms(1) that unfolding poll_spec_def by blast
  show ?thesis
    using assms(2) s
    by (auto simp: hook_poll_start_def poll_orig_def on_kernel_def Let_def split: if_splits option.splits prod.splits)
qed

lemma io_loop_result:
  assumes run: "io_loop os poll_f (on_kernel g) fd event ms pr w = Some (FOk (IoDone r e), w')"
    and ps: "poll_spec poll_f" and pr: "\<forall>ret err. pr = Some (ret, err) \<and> ret = -1 \<longrightarrow> err \<noteq> EAGAIN"
  shows "r \<noteq> -1 \<or> e \<noteq> EAGAIN"
proof -
  have "(\<forall>ret err. pr = Some (ret, err) \<and> ret = -1 \<longrightarrow> err \<noteq> EAGAIN) \<longrightarrow>
      (\<forall>r e. fst res = FOk (IoDone r e) \<longrightarrow> r \<noteq> -1 \<or> e \<noteq> EAGAIN)"
    if "io_loop os poll_f (on_kernel g) fd event ms pr w = Some res" for res
    using that
  proof (rule io_loop_induct, intro impI allI)
    fix loop pr w res r e
    assume IH: "\<And>pr w res. loop os poll_f (on_kernel g) fd event ms pr w = Some res \<Longrightarrow>
        (\<forall>ret err. pr = Some (ret, err) \<and> ret = -1 \<longrightarrow> err \<noteq> EAGAIN) \<longrightarrow>
        (\<forall>r e. fst res = FOk (IoDone r e) \<longrightarrow> r \<noteq> -1 \<or> e \<noteq> EAGAIN)"
      and eq: "io_body loop os poll_f (on_kernel g) fd event ms pr w = Some res"
      and pr: "\<forall>ret err. pr = Some (ret, err) \<and> ret = -1 \<longrightarrow> err \<noteq> EAGAIN" and res: "fst res = FOk (IoDone r e)"
    show "r \<noteq> -1 \<or> e \<noteq> EAGAIN"
    proof (cases pr)
      case None
      then obtain ret err fds w1 where st: "hook_poll_start os poll_f [io_pollfd fd event] ms w = Some (PollDone ret err fds, w1)"
        and lp: "loop os poll_f (on_kernel g) fd event ms (Some (ret, err)) w1 = Some res"
        using eq res by (auto simp: io_body_def split: option.splits poll_out.splits)
      then show ?thesis using poll_start_err [OF ps st] IH [OF lp] res by auto
    next
      case (Some p)
      obtain ret err where p: "p = (ret, err)" by fastforce
      obtain r1 e1 w1 where f: "on_kernel g w = ((r1, e1), w1)" by (metis prod.exhaust)
      show ?thesis
      proof (cases "ret = 1 \<and> r1 = -1 \<and> e1 = EAGAIN")
        case True
        then have lp: "loop os poll_f (on_kernel g) fd event ms None w1 = Some res"
          using eq Some p f by (simp add: io_body_def)
        then show ?thesis using IH [OF lp] res by simp
      next
        case False
        then show ?thesis using eq Some p f res pr by (auto simp: io_body_def split: if_splits)
      qed
    qed
  qed
  from this [OF run] show ?thesis using pr by simp
qed

text \<open>
  It ends after one round if the kernel tells the truth: a descriptor that poll(2) has reported
  ready does not block the call.
\<close>

definition poll_honest :: "'k poll_fn \<Rightarrow> ('k \<Rightarrow> (int \<times> int) \<times> 'k) \<Rightarrow> int \<Rightarrow> int \<Rightarrow> bool" where
  "poll_honest poll_f g fd event \<longleftrightarrow> (\<forall>k err fds k1. poll_f [io_pollfd fd event] 0 k = ((1, err, fds), k1) \<longrightarrow>
     fst (g k1) \<noteq> (-1, EAGAIN))"

lemma io_loop_ends:
  assumes ps: "poll_spec poll_f" and h: "poll_honest poll_f g fd event"
    and a: "\<not> bypass w" "ms \<noteq> 0" "0 \<le> fd"
  shows "\<exists>res. io_loop os poll_f (on_kernel g) fd event ms None w = Some res"
proof (cases "hook_poll_start os poll_f [io_pollfd fd event] ms w")
  case (Some ow)
  obtain out w1 where ow: "ow = (out, w1)" by fastforce
  show ?thesis
  proof (cases out)
    case (PollDone ret err fds)
    then have st: "hook_poll_start os poll_f [io_pollfd fd event] ms w = Some (PollDone ret err fds, w1)"
      using Some ow by simp
    obtain k1 where k1: "poll_f [io_pollfd fd event] 0 (hw_kernel w) = ((ret, err, fds), k1)" "w1 = w\<lparr>hw_kernel := k1\<rparr>"
      using poll_start_done [OF st a ps] by blast
    show ?thesis
    proof (cases "ret = 1")
      case True
      then have "fst (g k1) \<noteq> (-1, EAGAIN)" using h k1(1) unfolding poll_honest_def by blast
      moreover obtain r e k2 where g: "g k1 = ((r, e), k2)" by (metis prod.exhaust)
      ultimately have "\<not> (r = -1 \<and> e = EAGAIN)" by simp
      then show ?thesis unfolding io_loop_poll st
        using True g k1(2) by (auto simp: io_loop_polled on_kernel_def)
    qed (simp add: io_loop_poll st io_loop_polled)
  qed (simp_all add: io_loop_poll Some ow)
qed (simp add: io_loop_poll)

section \<open>The two variants of the template\<close>

lemma call_fn_eq:
  assumes "\<not> fc_userNonBlocked (hw_ctx c w)"
  shows "call_fn S (Some c) acc g w = (let ((r, e), w1) = on_kernel g w in
     ((r, e), if r \<ge> 0 \<and> acc then reset_accepted S r w1 else w1))"
  using assms by (auto simp: call_fn_def Let_def on_kernel_def hw_ctx_def split: prod.splits)

lemma call_fn_none: "call_fn S None acc g w = on_kernel g w"
  by (simp add: call_fn_def on_kernel_def split: prod.splits)

lemma on_kernel_ctx: "on_kernel g w = (r, w') \<Longrightarrow> hw_ctx c w' = hw_ctx c w"
  using on_kernel_eq [of g w r w'] by (auto simp: hw_ctx_def)

lemma poll_start_ctx: "hook_poll_start os poll_f fds ms w = Some (out, w') \<Longrightarrow> hw_ctx c w' = hw_ctx c w"
  using poll_start_files [of os poll_f fds ms w out w'] by (simp add: hw_ctx_def)

lemma poll_start_ret:
  assumes "poll_spec poll_f" "hook_poll_start os poll_f [pf] ms w = Some (PollDone ret err fds, w1)"
  shows "ret \<le> 1"
proof -
  have s: "ret0 \<le> 1 \<and> length fds0 = 1" if "poll_f [pf] tmo k = ((ret0, err0, fds0), k')" for tmo k ret0 err0 fds0 k'
    using assms(1) that unfolding poll_spec_def by fastforce
  show ?thesis
    using assms(2) s
    by (auto simp: hook_poll_start_def poll_orig_def on_kernel_def Let_def split: if_splits option.splits prod.splits)
qed

lemma io_loop_variants_some:
  assumes "io_loop os poll_f (on_kernel g) fd event ms pr w = Some res" and ps: "poll_spec poll_f"
  shows "\<not> fc_userNonBlocked (hw_ctx c w) \<longrightarrow> (\<forall>ret err. pr = Some (ret, err) \<longrightarrow> ret \<le> 1) \<longrightarrow>
    io_loop os poll_f (call_fn S (Some c) acc g) fd event ms pr w = Some (io_success S acc res)"
  using assms(1)
proof (rule io_loop_induct, intro impI)
  let ?f = "call_fn S (Some c) acc g"
  fix loop pr w res
  assume IH: "\<And>pr w res. loop os poll_f (on_kernel g) fd event ms pr w = Some res \<Longrightarrow>
      \<not> fc_userNonBlocked (hw_ctx c w) \<longrightarrow> (\<forall>ret err. pr = Some (ret, err) \<longrightarrow> ret \<le> 1) \<longrightarrow>
      io_loop os poll_f ?f fd event ms pr w = Some (io_success S acc res)"
    and eq: "io_body loop os poll_f (on_kernel g) fd event ms pr w = Some res"
    and nb: "\<not> fc_userNonBlocked (hw_ctx c w)" and le: "\<forall>ret err. pr = Some (ret, err) \<longrightarrow> ret \<le> 1"
  show "io_loop os poll_f ?f fd event ms pr w = Some (io_success S acc res)"
  proof (cases pr)
    case None
    show ?thesis
    proof (cases "hook_poll_start os poll_f [io_pollfd fd event] ms w")
      case (Some ow)
      obtain out w1 where ow: "ow = (out, w1)" by fastforce
      have "\<not> fc_userNonBlocked (hw_ctx c w1)" using poll_start_ctx Some ow nb by metis
      moreover have "ret \<le> 1" if "out = PollDone ret err fds" for ret err fds
        using poll_start_ret [OF ps] Some ow that by blast
      ultimately show ?thesis
        using eq None Some ow IH by (cases out) (auto simp: io_body_def io_loop_poll)
    qed (use eq None in \<open>auto simp: io_body_def io_loop_poll\<close>)
  next
    case (Some p)
    obtain ret err where p: "p = (ret, err)" by fastforce
    obtain r1 e1 w1 where f: "on_kernel g w = ((r1, e1), w1)" by (metis prod.exhaust)
    have nb1: "\<not> fc_userNonBlocked (hw_ctx c w1)" using on_kernel_ctx [OF f] nb by simp
    have cf: "?f w = ((r1, e1), if r1 \<ge> 0 \<and> acc then reset_accepted S r1 w1 else w1)"
      using call_fn_eq [OF nb] f by simp
    show ?thesis
    proof (cases "ret = 1 \<and> r1 = -1 \<and> e1 = EAGAIN")
      case True
      then show ?thesis using eq Some p f cf IH nb1 by (simp add: io_body_def io_loop_polled)
    next
      case False
      then show ?thesis using eq Some p f cf le by (auto simp: io_body_def io_loop_polled split: if_splits)
    qed
  qed
qed

lemma io_loop_variants_none:
  assumes "io_loop os poll_f (call_fn S (Some c) acc g) fd event ms pr w = Some res"
  shows "\<not> fc_userNonBlocked (hw_ctx c w) \<longrightarrow> (\<exists>res. io_loop os poll_f (on_kernel g) fd event ms pr w = Some res)"
  using assms
proof (rule io_loop_induct, intro impI)
  let ?f = "call_fn S (Some c) acc g"
  fix loop pr w res
  assume IH: "\<And>pr w res. loop os poll_f ?f fd event ms pr w = Some res \<Longrightarrow>
      \<not> fc_userNonBlocked (hw_ctx c w) \<longrightarrow> (\<exists>res. io_loop os poll_f (on_kernel g) fd event ms pr w = Some res)"
    and eq: "io_body loop os poll_f ?f fd event ms pr w = Some res"
    and nb: "\<not> fc_userNonBlocked (hw_ctx c w)"
  show "\<exists>res. io_loop os poll_f (on_kernel g) fd event ms pr w = Some res"
  proof (cases pr)
    case None
    show ?thesis
    proof (cases "hook_poll_start os poll_f [io_pollfd fd event] ms w")
      case (Some ow)
      obtain out w1 where ow: "ow = (out, w1)" by fastforce
      have "\<not> fc_userNonBlocked (hw_ctx c w1)" using poll_start_ctx Some ow nb by metis
      then show ?thesis
        using eq None Some ow IH by (cases out) (auto simp: io_body_def io_loop_poll)
    qed (use eq None in \<open>auto simp: io_body_def io_loop_poll\<close>)
  next
    case (Some p)
    obtain ret err where p: "p = (ret, err)" by fastforce
    obtain r1 e1 w1 where f: "on_kernel g w = ((r1, e1), w1)" by (metis prod.exhaust)
    have nb1: "\<not> fc_userNonBlocked (hw_ctx c w1)" using on_kernel_ctx [OF f] nb by simp
    have cf: "?f w = ((r1, e1), if r1 \<ge> 0 \<and> acc then reset_accepted S r1 w1 else w1)"
      using call_fn_eq [OF nb] f by simp
    show ?thesis
    proof (cases "ret = 1 \<and> r1 = -1 \<and> e1 = EAGAIN")
      case True
      then show ?thesis using eq Some p f cf IH nb1 by (simp add: io_body_def io_loop_polled)
    next
      case False
      then show ?thesis using Some p f by (auto simp: io_loop_polled)
    qed
  qed
qed

lemma io_loop_variants:
  assumes nb: "\<not> fc_userNonBlocked (hw_ctx c w)" and ps: "poll_spec poll_f"
    and le: "\<forall>ret err. pr = Some (ret, err) \<longrightarrow> ret \<le> 1"
  shows "io_loop os poll_f (call_fn S (Some c) acc g) fd event ms pr w =
    map_option (io_success S acc) (io_loop os poll_f (on_kernel g) fd event ms pr w)"
proof (cases "io_loop os poll_f (on_kernel g) fd event ms pr w")
  case None
  then have "io_loop os poll_f (call_fn S (Some c) acc g) fd event ms pr w = None"
    using io_loop_variants_none nb by (cases "io_loop os poll_f (call_fn S (Some c) acc g) fd event ms pr w") force+
  then show ?thesis using None by simp
next
  case (Some res)
  then show ?thesis using io_loop_variants_some [OF Some ps] nb le by simp
qed

lemma comm_io_variants:
  assumes ps: "poll_spec poll_f"
  shows "comm_io_va S up os poll_f acc g event fd w = comm_io_on_fiber S up os poll_f acc g event fd w"
proof (cases "hooked_fd S fd w")
  case True
  obtain res w1 where gt: "hw_get S up fd w = (res, w1)" by fastforce
  show ?thesis
  proof (cases "\<exists>c. res = FOk c \<and> \<not> fc_userNonBlocked (hw_ctx c w1)")
    case False
    then show ?thesis using True gt
      by (cases res) (auto simp: comm_io_va_def comm_io_on_fiber_def call_fn_none)
  next
    case c: True
    then obtain c where c: "res = FOk c" "\<not> fc_userNonBlocked (hw_ctx c w1)" by blast
    obtain r e w2 where f: "on_kernel g w1 = ((r, e), w2)" by (metis prod.exhaust)
    have c2: "hw_ctx c w2 = hw_ctx c w1" by (rule on_kernel_ctx [OF f])
    show ?thesis
      using True gt c f c2
      by (simp add: comm_io_va_def comm_io_on_fiber_def io_loop_variants [OF _ ps] call_fn_eq Let_def)
  qed
qed (simp add: comm_io_va_def comm_io_on_fiber_def call_fn_none)

lemma poll_collect_length: "poll_collect os fds w = Some (fds', w') \<Longrightarrow> length fds' = length fds"
  by (induction fds arbitrary: w fds') (auto split: option.splits)

lemma poll_resume_le:
  assumes "hook_poll_resume os fds tid w = Some ((n, fds'), w')"
  shows "n \<le> int (length fds)"
  using assms poll_collect_length
  by (fastforce simp: hook_poll_resume_def Let_def split: prod.splits if_splits option.splits
      intro: order_trans [OF length_filter_le])

lemma poll_drop_files: "poll_drop os fds w = Some w' \<Longrightarrow> hw_files w' = hw_files w"
  by (induction fds arbitrary: w) (auto simp: hw_delFileEvent_def split: option.splits prod.splits)

lemma poll_collect_files: "poll_collect os fds w = Some (fds', w') \<Longrightarrow> hw_files w' = hw_files w"
  by (induction fds arbitrary: w fds') (fastforce simp: hw_delFileEvent_def split: option.splits prod.splits)+

lemma poll_resume_ctx:
  assumes "hook_poll_resume os fds tid w = Some (res, w')"
  shows "hw_ctx c w' = hw_ctx c w"
proof -
  obtain b w2 where t: "hw_isWaitTimeout (if tid \<noteq> -1 then hw_cancelTimer tid w else w) = (b, w2)" by fastforce
  then have "hw_files w2 = hw_files w"
    by (auto simp: hw_isWaitTimeout_def EFiber_isWaitTimeout_def hw_cancelTimer_def)
  then show ?thesis using assms unfolding hook_poll_resume_def Let_def t
    by (auto simp: hw_ctx_def split: if_splits option.splits dest!: poll_drop_files poll_collect_files)
qed

lemma comm_io_resume_variants:
  assumes ps: "poll_spec poll_f" and nb: "\<not> fc_userNonBlocked (hw_ctx c w)"
  shows "comm_io_va_resume S os poll_f c acc g event fd ms tid w = comm_io_resume S os poll_f acc g event fd ms tid w"
proof (cases "hook_poll_resume os [io_pollfd fd event] tid w")
  case (Some r)
  obtain n fds w1 where r: "r = ((n, fds), w1)" by (metis prod.exhaust)
  have "n \<le> 1" using poll_resume_le Some r by fastforce
  moreover have "\<not> fc_userNonBlocked (hw_ctx c w1)" using poll_resume_ctx [of os _ tid w] Some r nb by simp
  ultimately show ?thesis using Some r
    by (simp add: comm_io_va_resume_def comm_io_resume_def io_loop_variants [OF _ ps])
qed (simp add: comm_io_va_resume_def comm_io_resume_def)

section \<open>Blocking calls\<close>

lemma io_timeout_nonzero: "io_timeout event fc \<noteq> 0"
  by (simp add: io_timeout_def Let_def)

lemma io_success_done:
  "io_success S acc res = (FOk (IoDone r e), w') \<Longrightarrow> \<exists>w1. res = (FOk (IoDone r e), w1)"
  by (cases "(S, acc, res)" rule: io_success.cases) auto

lemma comm_io_no_eagain:
  assumes ps: "poll_spec poll_f" and h: "hooked_fd S fd w" and gt: "hw_get S up fd w = (FOk c, w1)"
    and nb: "\<not> fc_userNonBlocked (hw_ctx c w1)"
    and run: "comm_io_on_fiber S up os poll_f acc g event fd w = Some (FOk (IoDone r e), w')"
  shows "r \<noteq> -1 \<or> e \<noteq> EAGAIN"
proof -
  obtain r0 e0 w2 where f: "on_kernel g w1 = ((r0, e0), w2)" by (metis prod.exhaust)
  define w3 where "w3 = (if event AND POLLOUT = POLLOUT then w2 else w1)"
  show ?thesis
  proof (cases "event AND POLLOUT = POLLOUT \<and> r0 \<ge> 0")
    case True
    then show ?thesis using run h gt nb f by (auto simp: comm_io_on_fiber_def dest!: io_success_done)
  next
    case False
    then have "map_option (io_success S acc) (io_loop os poll_f (on_kernel g) fd event
        (io_timeout event (hw_ctx c w3)) None w3) = Some (FOk (IoDone r e), w')"
      using run h gt nb f by (auto simp: comm_io_on_fiber_def w3_def split: if_splits)
    then obtain w4 where "io_loop os poll_f (on_kernel g) fd event (io_timeout event (hw_ctx c w3)) None w3 =
        Some (FOk (IoDone r e), w4)"
      by (auto dest: io_success_done)
    from io_loop_result [OF this ps] show ?thesis by simp
  qed
qed

text \<open>After the pause as well: the result of \<open>poll\<close> is a number of descriptors then.\<close>

lemma comm_io_resume_no_eagain:
  assumes ps: "poll_spec poll_f"
    and run: "comm_io_resume S os poll_f acc g event fd ms tid w = Some (FOk (IoDone r e), w')"
  shows "r \<noteq> -1 \<or> e \<noteq> EAGAIN"
proof -
  obtain n fds w1 where p: "hook_poll_resume os [io_pollfd fd event] tid w = Some ((n, fds), w1)"
    using run by (auto simp: comm_io_resume_def split: option.splits)
  have n: "0 \<le> n" using p
    by (auto simp: hook_poll_resume_def Let_def split: prod.splits if_splits option.splits)
  obtain w2 where "io_loop os poll_f (on_kernel g) fd event ms (Some (n, 0)) w1 = Some (FOk (IoDone r e), w2)"
    using run p by (auto simp: comm_io_resume_def dest: io_success_done)
  from io_loop_result [OF this ps] n show ?thesis by simp
qed

lemma comm_io_ends:
  assumes ps: "poll_spec poll_f" and hn: "poll_honest poll_f g fd event"
    and fd: "0 \<le> fd"
  shows "\<exists>res. comm_io_on_fiber S up os poll_f acc g event fd w = Some res"
proof (cases "hooked_fd S fd w")
  case True
  obtain res w1 where gt: "hw_get S up fd w = (res, w1)" by fastforce
  show ?thesis
  proof (cases "\<exists>c. res = FOk c \<and> \<not> fc_userNonBlocked (hw_ctx c w1)")
    case False
    then show ?thesis using True gt
      by (cases res) (auto simp: comm_io_on_fiber_def on_kernel_def split: prod.splits)
  next
    case c: True
    then obtain c where c: "res = FOk c" "\<not> fc_userNonBlocked (hw_ctx c w1)" by blast
    have by1: "\<not> bypass w1"
      using True gt by (auto simp: hooked_fd_def bypass_def isInterrupted_def hw_get_def split: prod.splits)
    obtain r e w2 where f: "on_kernel g w1 = ((r, e), w2)" by (metis prod.exhaust)
    have by2: "\<not> bypass w2" using by1 on_kernel_eq [OF f] by auto
    note en = io_loop_ends [OF ps hn _ io_timeout_nonzero fd]
    obtain x y where "io_loop os poll_f (on_kernel g) fd event (io_timeout event (hw_ctx c w1)) None w1 = Some x"
      "io_loop os poll_f (on_kernel g) fd event (io_timeout event (hw_ctx c w2)) None w2 = Some y"
      using en [OF by1] en [OF by2] by metis
    then show ?thesis using True gt c f by (simp add: comm_io_on_fiber_def)
  qed
qed (simp add: comm_io_on_fiber_def on_kernel_def split: prod.split)

lemma comm_io_resume_ok:
  assumes ep: "epoll_spec os interest" and ok: "hw_ok interest F w"
    and on: "waits_on f (hw_waiter w) fd (PollEvent2EEvent event)" and ev: "event AND 5 \<noteq> 0"
  shows "\<exists>w'. comm_io_resume S os poll_f acc g event fd ms tid w =
      (if fb_isIoWaitTimeout (rt_fibers (hw_rt w) (hw_fiber w)) then Some (FOk (IoDone (-1) ETIMEDOUT), w')
       else map_option (io_success S acc) (io_loop os poll_f (on_kernel g) fd event ms (Some (1, 0)) w')) \<and>
     hw_ok interest F w' \<and> ev_mask (iw_poll (hw_waiter w')) fd = 0"
proof -
  have po: "polled f (hw_waiter w) [io_pollfd fd event]" "distinct (map pf_fd [io_pollfd fd event])"
    using on by (simp_all add: polled_def)
  obtain w' where r: "hook_poll_resume os [io_pollfd fd event] tid w = Some
      (if fb_isIoWaitTimeout (rt_fibers (hw_rt w) (hw_fiber w)) then (0, [io_pollfd fd event])
       else (int (length [pf\<leftarrow>[io_pollfd fd event]. pf_events pf AND 5 \<noteq> 0]), map poll_reported [io_pollfd fd event]), w')"
     "hw_ok interest F w'" "\<forall>pf\<in>set [io_pollfd fd event]. ev_mask (iw_poll (hw_waiter w')) (pf_fd pf) = 0"
    using hook_poll_resume_ok [OF ep ok po] by blast
  then show ?thesis using ev
    by (intro exI [of _ w']) (auto simp: comm_io_resume_def io_loop_polled)
qed

section \<open>sendfile at the end of the input\<close>

lemma sendfile_loop_polled:
  "sendfile_loop os poll_f sf fd ms (Some (ret, err)) off cnt w =
     (if ret = 1 then
        (case on_kernel (sf off cnt) w of ((r, e, off'), w1) \<Rightarrow>
           let cnt' = (if r > 0 then cnt - r else cnt) in
           if ((r \<ge> 0 \<and> cnt' > 0) \<or> (r = -1 \<and> e = EAGAIN)) \<and> cnt' > 0
           then sendfile_loop os poll_f sf fd ms None off' cnt' w1
           else Some (FOk (SendDone r (if r = 0 then 0 else e) off'), w1))
      else if ret = 0 then Some (FOk (SendDone (-1) ETIMEDOUT off), w)
      else Some (FOk (SendDone ret err off), w))"
  by (subst sendfile_loop.simps) simp

lemma sendfile_loop_poll:
  "sendfile_loop os poll_f sf fd ms None off cnt w =
     (case hook_poll_start os poll_f [io_pollfd fd POLLOUT] ms w of
        None \<Rightarrow> Some (FFault, w)
      | Some (PollDone ret err fds, w1) \<Rightarrow> sendfile_loop os poll_f sf fd ms (Some (ret, err)) off cnt w1
      | Some (PollSleep t, w1) \<Rightarrow> Some (FOk (SendSleep t), w1)
      | Some (PollPark tid, w1) \<Rightarrow> Some (FOk (SendPark tid off cnt), w1))"
  by (subst sendfile_loop.simps) simp

text \<open>The socket takes data at once, and the input is at its end.\<close>

definition sends_nothing :: "'k poll_fn \<Rightarrow> 'k send_fn \<Rightarrow> int \<Rightarrow> int \<Rightarrow> int \<Rightarrow> bool" where
  "sends_nothing poll_f sf fd off cnt \<longleftrightarrow>
     (\<forall>k. fst (fst (poll_f [io_pollfd fd POLLOUT] 0 k)) = 1) \<and>
     (\<forall>k. fst (fst (sf off cnt k)) = 0 \<and> snd (snd (fst (sf off cnt k))) = off)"

lemma poll_start_ready:
  assumes "fst (fst (poll_f [io_pollfd fd POLLOUT] 0 (hw_kernel w))) = 1" "\<not> bypass w" "ms \<noteq> 0" "0 \<le> fd"
  shows "\<exists>err fds k1. hook_poll_start os poll_f [io_pollfd fd POLLOUT] ms w =
    Some (PollDone 1 err fds, w\<lparr>hw_kernel := k1\<rparr>)"
proof -
  obtain ret err fds k1 where p: "poll_f [io_pollfd fd POLLOUT] 0 (hw_kernel w) = ((ret, err, fds), k1)"
    by (metis prod.exhaust)
  then have "ret = 1" using assms(1) by simp
  then show ?thesis using p assms(2-) by (auto simp: hook_poll_start_def on_kernel_def)
qed

lemma sendfile_eof_never_ends:
  assumes "sends_nothing poll_f sf fd off cnt" and "0 < cnt" and "\<not> bypass w" and "ms \<noteq> 0" and "0 \<le> fd"
  shows "sendfile_loop os poll_f sf fd ms None off cnt w = None"
proof -
  define never where "never pr off' cnt' w \<longleftrightarrow> off' = off \<and> cnt' = cnt \<and> \<not> bypass w \<and>
      (pr = None \<or> (\<exists>err :: int. pr = Some (1 :: int, err)))" for pr off' cnt' and w :: "('a, 'b) hw"
  have "\<not> (os' = os \<and> poll_f' = poll_f \<and> sf' = sf \<and> fd' = fd \<and> ms' = ms \<and> never pr off' cnt' w)"
    if "sendfile_loop os' poll_f' sf' fd' ms' pr off' cnt' w = Some res" for os' poll_f' sf' fd' ms' pr off' cnt' and w :: "('a, 'b) hw" and res
    apply (rule sendfile_loop.raw_induct [OF _ that, where P = "\<lambda>os' poll_f' sf' fd' ms' pr off' cnt' w res.
      \<not> (os' = os \<and> poll_f' = poll_f \<and> sf' = sf \<and> fd' = fd \<and> ms' = ms \<and> never pr off' cnt' w)"])
    apply (intro notI)
    subgoal premises p for loop os' poll_f' sf' fd' ms' pr off' cnt' w res
    proof -
      have e: "os' = os" "poll_f' = poll_f" "sf' = sf" "fd' = fd" "ms' = ms" "off' = off" "cnt' = cnt"
        and nb: "\<not> bypass w" and pr: "pr = None \<or> (\<exists>err. pr = Some (1, err))"
        using p(3) by (simp_all add: never_def)
      have IH: "loop os poll_f sf fd ms pr off cnt w \<noteq> Some res" if "never pr off cnt w" for pr and w :: "('a, 'b) hw"
        using p(1) that by blast
      note eq = p(2) [unfolded e]
      show False
      proof (cases pr)
        case None
        obtain err fds k1 where "hook_poll_start os poll_f [io_pollfd fd POLLOUT] ms w =
            Some (PollDone 1 err fds, w\<lparr>hw_kernel := k1\<rparr>)"
          using poll_start_ready [of poll_f fd w ms] assms nb unfolding sends_nothing_def by blast
        then have "loop os poll_f sf fd ms (Some (1, err)) off cnt (w\<lparr>hw_kernel := k1\<rparr>) = Some res"
          using eq None by simp
        then show False using IH [of "Some (1, err)" "w\<lparr>hw_kernel := k1\<rparr>"] nb by (simp add: never_def)
      next
        case (Some x)
        then obtain err where x: "pr = Some (1, err)" using pr by blast
        obtain r e1 off1 k1 where s: "sf off cnt (hw_kernel w) = ((r, e1, off1), k1)" by (metis prod.exhaust)
        then have "r = 0" "off1 = off" using assms(1) unfolding sends_nothing_def by (metis fst_conv snd_conv)+
        then have "loop os poll_f sf fd ms None off cnt (w\<lparr>hw_kernel := k1\<rparr>) = Some res"
          using eq x s assms(2) by (simp add: on_kernel_def)
        then show False using IH [of None "w\<lparr>hw_kernel := k1\<rparr>"] nb by (simp add: never_def)
      qed
    qed
    done
  note n = this
  show ?thesis
  proof (cases "sendfile_loop os poll_f sf fd ms None off cnt w")
    case (Some res)
    from n [OF this] show ?thesis using assms(3) by (simp add: never_def)
  qed
qed

section \<open>The growth of the resolver's buffer\<close>

lemma host_retry_returns:
  assumes "\<And>sz k. need \<le> unat sz \<Longrightarrow> \<not> (fst (fst (lookup sz k)) = None \<and> snd (fst (lookup sz k)) = ERANGE)"
    and "unat sz * 2 ^ n < 2 ^ 64" and "need \<le> unat sz * 2 ^ n"
  shows "\<exists>res m k'. host_retry lookup sz k = Some (res, sz * 2 ^ m, k') \<and> m \<le> n"
  using assms(2,3)
proof (induction n arbitrary: sz k)
  case 0
  obtain res err k' where l: "lookup sz k = ((res, err), k')" by (metis prod.exhaust)
  then have ne: "\<not> (res = None \<and> err = ERANGE)" using assms(1) [of sz k] 0 by simp
  have "host_retry lookup sz k = Some (res, sz * 2 ^ 0, k')"
    by (subst host_retry.simps) (unfold l prod.case if_not_P [OF ne], simp)
  then show ?case by blast
next
  case (Suc n)
  obtain res err k' where l: "lookup sz k = ((res, err), k')" by (metis prod.exhaust)
  show ?case
  proof (cases "res = None \<and> err = ERANGE")
    case False
    have "host_retry lookup sz k = Some (res, sz * 2 ^ 0, k')"
      by (subst host_retry.simps) (unfold l prod.case if_not_P [OF False], simp)
    then show ?thesis by blast
  next
    case True
    then have st: "host_retry lookup sz k = host_retry lookup (sz * 2) k'"
      by (subst host_retry.simps) (simp add: l)
    have "unat sz * 2 \<le> unat sz * 2 ^ Suc n" by simp
    then have "unat sz * 2 < 2 ^ 64" using Suc.prems(1) by linarith
    then have u: "unat (sz * 2) = unat sz * 2" by (simp add: unat_word_ariths)
    obtain res m k'' where "host_retry lookup (sz * 2) k' = Some (res, sz * 2 * 2 ^ m, k'')" "m \<le> n"
      using Suc.IH [of "sz * 2" k'] Suc.prems unfolding u by (auto simp: mult.assoc)
    then have "host_retry lookup sz k = Some (res, sz * 2 ^ Suc m, k'')" "Suc m \<le> Suc n"
      unfolding st by (simp_all add: mult.assoc)
    then show ?thesis by blast
  qed
qed

section \<open>The dispatch of call_fn\<close>

text \<open>
  Without \<open>CPP11_SUPPORT\<close>, \<open>call_fn\<close> compares the address \<open>fn\<close> with those of the originals, one after the
  other, takes the arguments of that function from the \<open>va_list\<close> and calls it; the descriptor is the argument
  \<open>fd\<close> (\<open>fread\<close> and \<open>fwrite\<close> do not take it). An unknown address throws. The \<open>va_list\<close> is copied, so that every
  retry has the same arguments.
\<close>

fun io_nargs :: "iocall \<Rightarrow> nat" where
  "io_nargs Io_accept = 2"
| "io_nargs Io_read = 2"
| "io_nargs Io_readv = 2"
| "io_nargs Io_recv = 3"
| "io_nargs Io_recvfrom = 5"
| "io_nargs Io_recvmsg = 2"
| "io_nargs Io_write = 2"
| "io_nargs Io_writev = 2"
| "io_nargs Io_send = 3"
| "io_nargs Io_sendto = 5"
| "io_nargs Io_sendmsg = 2"
| "io_nargs Io_fread = 4"
| "io_nargs Io_fwrite = 4"
| "io_nargs Io_pread = 3"
| "io_nargs Io_pwrite = 3"

definition call_order :: "iocall list" where
  "call_order =
     [Io_accept, Io_read, Io_readv, Io_recv, Io_recvfrom, Io_recvmsg, Io_write, Io_writev, Io_send, Io_sendto,
      Io_sendmsg, Io_fread, Io_fwrite, Io_pread, Io_pwrite]"

definition call_fn_dispatch :: "'k sysapi \<Rightarrow> (iocall \<Rightarrow> 'f) \<Rightarrow> (iocall \<Rightarrow> int \<Rightarrow> 'a list \<Rightarrow> 'k \<Rightarrow> (int \<times> int) \<times> 'k) \<Rightarrow>
    cptr option \<Rightarrow> 'f \<Rightarrow> int \<Rightarrow> 'a list \<Rightarrow> ('k, 'z) hw \<Rightarrow> (int \<times> int) fres \<times> ('k, 'z) hw" where
  "call_fn_dispatch S addr original fc fn fd va w =
     (case find (\<lambda>c. addr c = fn) call_order of
        None \<Rightarrow> (FThrow, w)
      | Some c \<Rightarrow> (let (r, w') = call_fn S fc (c = Io_accept) (original c fd (take (io_nargs c) va)) w in (FOk r, w')))"

lemma call_order_all: "c \<in> set call_order"
  by (cases c) (simp_all add: call_order_def)

lemma find_own:
  assumes "inj_on addr (set xs)" "x \<in> set xs"
  shows "find (\<lambda>c. addr c = addr x) xs = Some x"
  using assms by (induction xs) (auto simp: inj_on_def)

end
