(* ===== verification/Demo_Hooks.thy ===== *)
theory Demo_Hooks
  imports Hooker_Io
begin

text \<open>
  A concrete kernel for the hooks, with an interest set, the status flags of the descriptors and
  the list of those that are ready, and a thread state on it. Examples of the properties of the
  hooks are evaluated on them.
\<close>

record hk =
  hk_interest :: "int \<rightharpoonup> int"
  hk_flags :: "int \<Rightarrow> int"
  hk_ready :: "int list"

definition hk_os :: "hk os" where
  "hk_os = \<lparr>os_gettimeofday = (\<lambda>k. ((0, 0), k)), os_time = (\<lambda>k. (0, k)),
     os_epoll_ctl = (\<lambda>opr fd ev k. case opr of
        EPOLL_CTL_DEL \<Rightarrow> (0, k\<lparr>hk_interest := (hk_interest k)(fd := None)\<rparr>)
      | _ \<Rightarrow> (0, k\<lparr>hk_interest := (hk_interest k)(fd \<mapsto> ev)\<rparr>)),
     os_epoll_wait = (\<lambda>n tmo k. ((0, []), k))\<rparr>"

definition hk_sys :: "hk sysapi" where
  "hk_sys = \<lparr>sy_fstat = (\<lambda>k fd. Some KSock), sy_getfl = (\<lambda>k fd. hk_flags k fd),
     sy_setfl = (\<lambda>fd fl k. (0, k\<lparr>hk_flags := (hk_flags k)(fd := fl)\<rparr>)),
     sy_rcvtimeo = (\<lambda>k fd. Some (3, 0)), sy_sndtimeo = (\<lambda>k fd. Some (0, 0))\<rparr>"

definition hk_up :: "int \<Rightarrow> int" where
  "hk_up n = (n + 32767) div 32768 * 32768"

definition hk_poll :: "hk poll_fn" where
  "hk_poll fds tmo k = ((if list_ex (\<lambda>pf. pf_fd pf \<in> set (hk_ready k)) fds then 1 else 0, 0, fds), k)"

text \<open>A call that says that it would block unless a descriptor is ready.\<close>

definition hk_call :: "int \<Rightarrow> hk \<Rightarrow> (int \<times> int) \<times> hk" where
  "hk_call fd k = (if fd \<in> set (hk_ready k) then (7, 0) else (-1, EAGAIN), k)"

definition hk0 :: hk where
  "hk0 = \<lparr>hk_interest = Map.empty, hk_flags = (\<lambda>fd. if fd = 9 then -1 else 2), hk_ready = []\<rparr>"

lemma hk_os_ok: "os_ok hk_os hk_interest (\<lambda>_. 0)"
  by (simp add: os_ok_def epoll_spec_def clock_spec_def hk_os_def)

lemma hk_flags_spec: "flags_spec hk_sys"
  by (simp add: flags_spec_def hk_sys_def)

lemma hk_align: "align_spec hk_up"
proof -
  have "n \<le> (n + 32767) div 32768 * 32768 \<and> (n + 32767) div 32768 * 32768 < n + 32768" for n :: int
  proof -
    have "n + 32767 = (n + 32767) div 32768 * 32768 + (n + 32767) mod 32768" by simp
    moreover have "0 \<le> (n + 32767) mod 32768" "(n + 32767) mod 32768 < 32768" by simp_all
    ultimately show ?thesis by linarith
  qed
  then show ?thesis by (simp add: align_spec_def hk_up_def)
qed

lemma hk_poll_spec: "poll_spec hk_poll"
proof -
  have "\<exists>r. pf = pf\<lparr>pf_revents := r\<rparr>" for pf :: pollfd by (rule exI [of _ "pf_revents pf"]) simp
  then show ?thesis by (auto simp: poll_spec_def hk_poll_def)
qed

lemma hk_honest: "poll_honest hk_poll (hk_call fd) fd event"
  by (auto simp: poll_honest_def hk_poll_def hk_call_def)

section \<open>A thread\<close>

definition hk_fiber :: fiber where
  "hk_fiber = \<lparr>fb_state = RUNNABLE, fb_fid = 0, fb_name = [], fb_tag = 0, fb_threadIndex = 0,
     fb_stackSize = 8192, fb_parent = None, fb_scheduler = Some 0, fb_iowaiter = Some 0,
     fb_boundQueue = Some 0, fb_boundThreadID = 1, fb_blocker = None, fb_isIoWaitTimeout = False,
     fb_canceled = False, fb_packing = 1\<rparr>"

definition hk_rt :: rt where
  "hk_rt = \<lparr>rt_fibers = (\<lambda>_. hk_fiber), rt_nodes = (\<lambda>_. \<lparr>nd_value = None, nd_next = None\<rparr>),
     rt_queues = (\<lambda>_. \<lparr>cq_head = 0, cq_tail = 0\<rparr>), rt_signals = (\<lambda>_. 0), rt_idCounter = 1\<rparr>"

definition hk_table :: fcm where
  "hk_table = EFileContextManager_ctor hk_up 40000"

definition hw0 :: "(hk, unit) hw" where
  "hw0 = \<lparr>hw_kernel = hk0, hw_files = hk_table,
     hw_waiter = \<lparr>iw_poll = eco_poll_create 16 0, iw_waiters = 0, iw_pipe_in = 3\<rparr>,
     hw_rt = hk_rt, hw_fiber = 1, hw_sched = True, hw_signaled = False, hw_escaped = 0,
     hw_sigfuncs = replicate 64 0\<rparr>"

lemma hk_table_ok: "fcm_ok hk_up hk_table" "fcm_map hk_up hk_table = Map.empty" "fm_locked hk_table = []"
  "fm_next hk_table = 0" "length (fm_files hk_table) = 2"
proof -
  show "fcm_ok hk_up hk_table" "fcm_map hk_up hk_table = Map.empty"
    unfolding hk_table_def by (rule fcm_ok_ctor [OF hk_align])+
qed (simp_all add: hk_table_def EFileContextManager_ctor_def hk_up_def)

lemma hk_fd: "fd_ok hk_table 5" "fd_ok hk_table 9"
  by (simp_all add: fd_ok_def hk_table_ok)

text \<open>The first lookup of a descriptor makes its context.\<close>

lemma get_new:
  assumes "align_spec up" "fcm_ok up m" "fd_ok m fd" "lockFor fd \<notin> set (fm_locked m)" "fcm_map up m fd = None"
    and "EFileContext_ctor S fd k = (Some fc, k')"
  shows "\<exists>m'. EFileContextManager_get S up fd m k = (FOk (fm_next m), m', k') \<and> fm_ctx m' (fm_next m) = fc"
  using assms(3-) by (simp add: EFileContextManager_get_def Let_def slot_map [OF assms(1,2)])

lemma hk_ctor: "EFileContext_ctor hk_sys 5 (hk0\<lparr>hk_ready := r\<rparr>) =
    (Some \<lparr>fc_fd = 5, fc_sysNonBlocked = True, fc_userNonBlocked = False, fc_recvTimeout = 3000,
       fc_sendTimeout = 0\<rparr>, hk0\<lparr>hk_ready := r, hk_flags := (hk_flags hk0)(5 := 2050)\<rparr>)"
  by (simp add: EFileContext_ctor_def hk_sys_def hk0_def isSocketFile_def tv_millis_def Let_def
    signed_divide_int_def signed_take_bit_int_eq_self)

lemma hk_get: "\<exists>m. EFileContextManager_get hk_sys hk_up 5 hk_table (hk0\<lparr>hk_ready := r\<rparr>) =
    (FOk 0, m, hk0\<lparr>hk_ready := r, hk_flags := (hk_flags hk0)(5 := 2050)\<rparr>) \<and>
    fm_ctx m 0 = \<lparr>fc_fd = 5, fc_sysNonBlocked = True, fc_userNonBlocked = False, fc_recvTimeout = 3000,
       fc_sendTimeout = 0\<rparr>"
  using get_new [OF hk_align hk_table_ok(1) hk_fd(1) _ _ hk_ctor] by (simp add: hk_table_ok)

lemma hk0_ready: "hk0\<lparr>hk_ready := []\<rparr> = hk0"
  by (simp add: hk0_def)

lemmas hk0_ctor = hk_ctor [of "[]", unfolded hk0_ready] and hk0_get = hk_get [of "[]", unfolded hk0_ready]

lemma hk_get_throws: "\<exists>m k. EFileContextManager_get hk_sys hk_up 9 hk_table hk0 = (FThrow, m, k)"
  using hk_fd(2)
  by (simp add: EFileContextManager_get_def Let_def slot_map [OF hk_align hk_table_ok(1)] hk_table_ok
    EFileContext_ctor_def hk_sys_def hk0_def)

lemma hw0_ok: "hw_ok hk_interest {1} hw0"
proof -
  have "poll_wf (eco_poll_create 16 0 :: (fproc, fptr, tproc) poll)" by (rule poll_wf_create) simp
  then show ?thesis
    by (auto simp: hw_ok_def hw0_def waiter_ok_def timers_wf_def synced_def eco_poll_create_def fe_serves_def
      live_ids_def hk0_def)
qed

lemma hw0_simps [simp]: "\<not> bypass hw0" "hw_fiber hw0 = 1" "hooked_fd hk_sys fd hw0" "hw_kernel hw0 = hk0"
  "hw_files hw0 = hk_table"
  by (simp_all add: bypass_def isInterrupted_def hw0_def hooked_fd_def isStreamFile_def hk_sys_def)

text \<open>The same thread on a kernel where \<open>r\<close> are the ready descriptors.\<close>

definition hw_at :: "int list \<Rightarrow> (hk, unit) hw" where
  "hw_at r = hw0\<lparr>hw_kernel := hk0\<lparr>hk_ready := r\<rparr>\<rparr>"

lemma hw_at_simps [simp]: "\<not> bypass (hw_at r)" "hooked_fd hk_sys fd (hw_at r)"
  by (simp_all add: hw_at_def hooked_fd_def isInterrupted_def bypass_def isStreamFile_def hk_sys_def hw0_def)

lemma hw_at_get: "\<exists>m. hw_get hk_sys hk_up 5 (hw_at r) =
    (FOk 0, hw0\<lparr>hw_files := m, hw_kernel := hk0\<lparr>hk_ready := r, hk_flags := (hk_flags hk0)(5 := 2050)\<rparr>\<rparr>) \<and>
    fm_ctx m 0 = \<lparr>fc_fd = 5, fc_sysNonBlocked = True, fc_userNonBlocked = False, fc_recvTimeout = 3000,
       fc_sendTimeout = 0\<rparr>"
  using hk_get [of r] by (auto simp: hw_get_def EFiberScheduler_getFileContext_def hw_at_def)

text \<open>A read on a ready descriptor.\<close>

lemma hw_at_read: "\<exists>w. comm_io_on_fiber hk_sys hk_up hk_os hk_poll False (hk_call 5) POLLIN 5 (hw_at [5]) =
    Some (FOk (IoDone 7 0), w)"
proof -
  obtain m where m: "hw_get hk_sys hk_up 5 (hw_at [5]) =
      (FOk 0, hw0\<lparr>hw_files := m, hw_kernel := hk0\<lparr>hk_ready := [5], hk_flags := (hk_flags hk0)(5 := 2050)\<rparr>\<rparr>)"
    "fm_ctx m 0 = \<lparr>fc_fd = 5, fc_sysNonBlocked = True, fc_userNonBlocked = False, fc_recvTimeout = 3000,
       fc_sendTimeout = 0\<rparr>" using hw_at_get [of "[5]"] by blast
  have "\<not> bypass (hw0\<lparr>hw_files := m, hw_kernel := k\<rparr>)" for k by (simp add: bypass_def isInterrupted_def hw0_def)
  then show ?thesis
    by (simp add: comm_io_on_fiber_def m hw_ctx_def io_timeout_def io_loop_poll io_loop_polled hook_poll_start_def
      on_kernel_def hk_poll_def hk_call_def)
qed

text \<open>Two descriptors to wait for.\<close>

definition two_fds :: "pollfd list" where
  "two_fds = [io_pollfd 5 POLLIN, io_pollfd 7 POLLOUT]"

lemma two_fds_args: "poll_args hk_os (hw_waiter hw0) two_fds"
  "\<forall>pf\<in>set two_fds. ev_mask (iw_poll (hw_waiter hw0)) (pf_fd pf) = 0"
  "hk_poll two_fds 0 hk0 = ((0, 0, two_fds), hk0)" "two_fds \<noteq> []"
  by (simp_all add: two_fds_def poll_args_def pollable_def hw0_def eco_poll_create_def hk_os_def hk_poll_def hk0_def)

text \<open>A select that finds nothing ready.\<close>

definition hk_select :: "hk select_fn" where
  "hk_select n sets tmo k = (let (rd, wr, ex) = sets; z = map_option (\<lambda>_. {}) in ((0, (z rd, z wr, z ex)), k))"

lemma hk_select_spec: "select_spec hk_select"
  by (auto simp: select_spec_def hk_select_def Let_def)

lemma hw0_select: "\<exists>tid pfds sets w. hook_select_start hk_os hk_select 6 (Some {5}, None, None) (Some (1, 0)) hw0 =
    Some (SelectPark tid pfds sets, w)"
proof -
  have "select_register hk_os (Some {}) None (map int [0..<6]) 0 w = Some ([], w)" for w :: "(hk, unit) hw"
    by (rule select_register_empty) simp_all
  then show ?thesis
    by (simp add: hook_select_start_def hk_select_def on_kernel_def Let_def signed_divide_int_def split: prod.split)
qed

text \<open>A read that waits for a descriptor, and goes on when it is ready.\<close>

lemma hw0_parks:
  "\<exists>tid w1. hook_poll_start hk_os hk_poll [io_pollfd 5 POLLIN] 100 hw0 = Some (PollPark tid, w1) \<and>
     hw_ok hk_interest {1} w1 \<and> waits_on 1 (hw_waiter w1) 5 (PollEvent2EEvent POLLIN) \<and> hw_fiber w1 = 1 \<and>
     \<not> fb_isIoWaitTimeout (rt_fibers (hw_rt w1) 1)"
proof -
  have f: "hw_fiber hw0 \<in> {1}" "(100 :: int) \<noteq> 0" "[io_pollfd 5 POLLIN] \<noteq> []" by simp_all
  have a: "poll_args hk_os (hw_waiter hw0) [io_pollfd 5 POLLIN]"
    "\<forall>pf\<in>set [io_pollfd 5 POLLIN]. ev_mask (iw_poll (hw_waiter hw0)) (pf_fd pf) = 0"
    using two_fds_args(1,2) by (simp_all add: two_fds_def poll_args_def)
  have p: "hk_poll [io_pollfd 5 POLLIN] 0 (hw_kernel hw0) = ((0, 0, [io_pollfd 5 POLLIN]), hk0)"
    by (simp add: hk_poll_def hk0_def)
  have i: "hk_interest hk0 = hk_interest (hw_kernel hw0)" by simp
  from hook_poll_parks [where poll_f = hk_poll and fds = "[io_pollfd 5 POLLIN]" and interest = hk_interest, OF hk_os_ok hw0_ok f(1) hw0_simps(1) f(2,3) a p i]
  obtain tid w1 where "hook_poll_start hk_os hk_poll [io_pollfd 5 POLLIN] 100 hw0 = Some (PollPark tid, w1)"
    "hw_ok hk_interest {1} w1" "polled 1 (hw_waiter w1) [io_pollfd 5 POLLIN]" "hw_fiber w1 = 1"
    "\<not> fb_isIoWaitTimeout (rt_fibers (hw_rt w1) 1)" by auto
  moreover from this(3) have "waits_on 1 (hw_waiter w1) 5 (PollEvent2EEvent POLLIN)" by (simp add: polled_def)
  ultimately show ?thesis by blast
qed

lemma hw0_reads:
  "\<exists>tid w1 w2. hook_poll_start hk_os hk_poll [io_pollfd 5 POLLIN] 100 hw0 = Some (PollPark tid, w1) \<and>
     comm_io_resume hk_sys hk_os hk_poll acc (\<lambda>k. ((7, 0), k)) POLLIN 5 100 tid w1 = Some (FOk (IoDone 7 0), w2)"
proof -
  obtain tid w1 where w1: "hook_poll_start hk_os hk_poll [io_pollfd 5 POLLIN] 100 hw0 = Some (PollPark tid, w1)"
    "hw_ok hk_interest {1} w1" "waits_on 1 (hw_waiter w1) 5 (PollEvent2EEvent POLLIN)" "hw_fiber w1 = 1"
    "\<not> fb_isIoWaitTimeout (rt_fibers (hw_rt w1) 1)" using hw0_parks by blast
  have ev: "POLLIN AND 5 \<noteq> 0" by simp
  from comm_io_resume_ok [OF os_epoll [OF hk_os_ok] w1(2,3) ev, of hk_sys hk_poll acc "\<lambda>k. ((7, 0), k)" 100 tid]
  show ?thesis using w1(1,4,5) by (auto simp: io_loop_polled on_kernel_def)
qed

end
