(* ===== verification/Blocker.thy ===== *)
theory Blocker
  imports Io_Waiter
begin

text \<open>
  \<open>EFiberBlocker\<close> (inc/EFiberBlocker.hh, src/EFiberBlocker.cpp): a counting semaphore with a
  limit, on which fibers and threads wait. The theory has three parts: the interface (a locale
  that says what a bounded first-come-first-served semaphore promises, and what follows from it
  for every history of calls), the code, and the interpretation of the interface by the code.
\<close>

section \<open>The interface\<close>

text \<open>
  \<open>sem b p l ws\<close>: the object \<open>b\<close> holds \<open>p\<close> permits of at most \<open>l\<close>, and \<open>ws\<close> wait in this order.
  \<open>take\<close> tries to get a permit, \<open>park\<close> gets one or starts to wait, \<open>wake\<close> hands a permit to the
  first waiter or stores it, \<open>drop\<close> ends a wait that has timed out.
\<close>

locale semaphore =
  fixes take :: "'b \<Rightarrow> bool \<times> 'b"
    and park :: "'w \<Rightarrow> 'b \<Rightarrow> bool \<times> 'b"
    and wake :: "'b \<Rightarrow> (bool \<times> 'w option) \<times> 'b"
    and drop :: "'w \<Rightarrow> 'b \<Rightarrow> bool \<times> 'b"
    and sem :: "'b \<Rightarrow> nat \<Rightarrow> nat \<Rightarrow> 'w list \<Rightarrow> bool"
  assumes take_sem: "sem b p l ws \<Longrightarrow> \<exists>b'. take b = (0 < p, b') \<and> sem b' (p - 1) l ws"
    and park_sem: "sem b p l ws \<Longrightarrow>
      \<exists>b'. park w b = (p = 0, b') \<and> (if p = 0 then sem b' 0 l (ws @ [w]) else sem b' (p - 1) l ws)"
    and wake_first: "sem b p l (w # ws) \<Longrightarrow> \<exists>b'. wake b = ((True, Some w), b') \<and> sem b' p l ws"
    and wake_store: "sem b p l [] \<Longrightarrow> p < l \<Longrightarrow> \<exists>b'. wake b = ((True, None), b') \<and> sem b' (p + 1) l []"
    and wake_full: "sem b p l [] \<Longrightarrow> l \<le> p \<Longrightarrow> \<exists>b'. wake b = ((False, None), b') \<and> sem b' p l []"
    and drop_sem: "sem b p l ws \<Longrightarrow> \<exists>b'. drop w b = (w \<in> set ws, b') \<and> sem b' p l (remove1 w ws)"

text \<open>A history of calls, and what each of them brought about.\<close>

datatype 'w sem_op = STake | SPark 'w | SWake | SDrop 'w

datatype 'w outcome =
    Taken            \<comment> \<open>the caller got a stored permit\<close>
  | Refused          \<comment> \<open>\<open>take\<close> failed\<close>
  | Waiting 'w       \<comment> \<open>the caller waits\<close>
  | Handed 'w        \<comment> \<open>a waiter got the permit of a \<open>wake\<close>\<close>
  | Stored           \<comment> \<open>the permit of a \<open>wake\<close> was stored\<close>
  | Full             \<comment> \<open>the limit was reached\<close>
  | Dropped 'w       \<comment> \<open>a waiter gave up\<close>
  | Absent           \<comment> \<open>a waiter wanted to give up, but had been handed a permit\<close>

fun sem_run :: "('b \<Rightarrow> bool \<times> 'b) \<Rightarrow> ('w \<Rightarrow> 'b \<Rightarrow> bool \<times> 'b) \<Rightarrow> ('b \<Rightarrow> (bool \<times> 'w option) \<times> 'b) \<Rightarrow>
    ('w \<Rightarrow> 'b \<Rightarrow> bool \<times> 'b) \<Rightarrow> 'w sem_op list \<Rightarrow> 'b \<Rightarrow> 'w outcome list \<times> 'b" where
  "sem_run tk pa wk dr [] b = ([], b)"
| "sem_run tk pa wk dr (STake # os) b =
     (let (r, b') = tk b; (rs, b'') = sem_run tk pa wk dr os b'
      in ((if r then Taken else Refused) # rs, b''))"
| "sem_run tk pa wk dr (SPark w # os) b =
     (let (r, b') = pa w b; (rs, b'') = sem_run tk pa wk dr os b'
      in ((if r then Waiting w else Taken) # rs, b''))"
| "sem_run tk pa wk dr (SWake # os) b =
     (let ((r, x), b') = wk b; (rs, b'') = sem_run tk pa wk dr os b'
      in ((case x of Some w \<Rightarrow> Handed w | None \<Rightarrow> if r then Stored else Full) # rs, b''))"
| "sem_run tk pa wk dr (SDrop w # os) b =
     (let (r, b') = dr w b; (rs, b'') = sem_run tk pa wk dr os b'
      in ((if r then Dropped w else Absent) # rs, b''))"

text \<open>The abstract semaphore: permits and waiters.\<close>

fun spec_run :: "nat \<Rightarrow> 'w sem_op list \<Rightarrow> nat \<times> 'w list \<Rightarrow> 'w outcome list \<times> (nat \<times> 'w list)" where
  "spec_run l [] (p, ws) = ([], (p, ws))"
| "spec_run l (STake # os) (p, ws) =
     (let (rs, z) = spec_run l os (p - 1, ws) in ((if 0 < p then Taken else Refused) # rs, z))"
| "spec_run l (SPark w # os) (p, ws) =
     (if p = 0 then (let (rs, z) = spec_run l os (0, ws @ [w]) in (Waiting w # rs, z))
      else (let (rs, z) = spec_run l os (p - 1, ws) in (Taken # rs, z)))"
| "spec_run l (SWake # os) (p, ws) =
     (case ws of
        w # ws' \<Rightarrow> (let (rs, z) = spec_run l os (p, ws') in (Handed w # rs, z))
      | [] \<Rightarrow> if p < l then (let (rs, z) = spec_run l os (p + 1, []) in (Stored # rs, z))
              else (let (rs, z) = spec_run l os (p, []) in (Full # rs, z)))"
| "spec_run l (SDrop w # os) (p, ws) =
     (let (rs, z) = spec_run l os (p, remove1 w ws)
      in ((if w \<in> set ws then Dropped w else Absent) # rs, z))"

fun granted :: "'w outcome \<Rightarrow> bool" where
  "granted Taken = True" | "granted (Handed w) = True" | "granted _ = False"

fun posted :: "'w outcome \<Rightarrow> bool" where
  "posted Stored = True" | "posted (Handed w) = True" | "posted _ = False"

definition count_of :: "('w outcome \<Rightarrow> bool) \<Rightarrow> 'w outcome list \<Rightarrow> nat" where
  "count_of P rs = length (filter P rs)"

lemma count_of_simps [simp]:
  "count_of P [] = 0" "count_of P (x # xs) = (if P x then 1 else 0) + count_of P xs"
  by (simp_all add: count_of_def)

text \<open>Who waited, in the order of the calls, and who was handed a permit.\<close>

definition handed :: "'w outcome list \<Rightarrow> 'w list" where
  "handed rs = concat (map (\<lambda>x. case x of Handed w \<Rightarrow> [w] | _ \<Rightarrow> []) rs)"

definition waited :: "'w outcome list \<Rightarrow> 'w list" where
  "waited rs = concat (map (\<lambda>x. case x of Waiting w \<Rightarrow> [w] | _ \<Rightarrow> []) rs)"

lemma handed_simps [simp]:
  "handed [] = []" "handed (x # rs) = (case x of Handed w \<Rightarrow> w # handed rs | _ \<Rightarrow> handed rs)"
  "waited [] = []" "waited (x # rs) = (case x of Waiting w \<Rightarrow> w # waited rs | _ \<Rightarrow> waited rs)"
  by (auto simp: handed_def waited_def split: outcome.split)

section \<open>What every history of the abstract semaphore satisfies\<close>

lemma spec_conservation:
  "spec_run l os (p, ws) = (rs, (p', ws')) \<Longrightarrow>
     p + count_of posted rs = p' + count_of granted rs"
  by (induction l os "(p, ws)" arbitrary: p ws rs rule: spec_run.induct)
    (auto simp: Let_def split: prod.splits if_splits list.splits)

text \<open>No permit is stored while somebody waits, and the limit is kept.\<close>

definition sem_inv :: "nat \<Rightarrow> nat \<times> 'w list \<Rightarrow> bool" where
  "sem_inv l z \<longleftrightarrow> (0 < fst z \<longrightarrow> snd z = []) \<and> fst z \<le> l"

lemma spec_inv:
  "spec_run l os (p, ws) = (rs, z) \<Longrightarrow> sem_inv l (p, ws) \<Longrightarrow> sem_inv l z"
  by (induction l os "(p, ws)" arbitrary: p ws rs rule: spec_run.induct)
    (auto simp: Let_def sem_inv_def split: prod.splits if_splits list.splits)

text \<open>Nobody leaves the queue but by a permit or by giving up: first come, first served.\<close>

lemma spec_fifo:
  "spec_run l os (p, ws) = (rs, (p', ws')) \<Longrightarrow> \<forall>w. Dropped w \<notin> set rs \<Longrightarrow>
     ws @ waited rs = handed rs @ ws'"
proof (induction l os "(p, ws)" arbitrary: p ws rs rule: spec_run.induct)
  case (4 l os p ws)
  then show ?case by (cases ws) (auto simp: Let_def split: prod.splits if_splits)
next
  case (5 l w os p ws)
  then show ?case by (auto simp: Let_def remove1_idem split: prod.splits if_splits)
qed (auto simp: Let_def split: prod.splits if_splits)

context semaphore
begin

text \<open>Every implementation of the interface behaves like the abstract semaphore.\<close>

lemma run_refines:
  "sem b p l ws \<Longrightarrow> \<exists>rs b' p' ws'. sem_run take park wake drop os b = (rs, b') \<and>
     spec_run l os (p, ws) = (rs, (p', ws')) \<and> sem b' p' l ws'"
proof (induction os arbitrary: b p ws)
  case Nil
  then show ?case by auto
next
  case (Cons x os)
  show ?case
  proof (cases x)
    case STake
    obtain b1 where b1: "take b = (0 < p, b1)" "sem b1 (p - 1) l ws" using take_sem [OF Cons.prems] by blast
    from Cons.IH [OF b1(2)] show ?thesis using STake b1(1) by auto
  next
    case (SPark w)
    obtain b1 where b1: "park w b = (p = 0, b1)"
        "if p = 0 then sem b1 0 l (ws @ [w]) else sem b1 (p - 1) l ws"
      using park_sem [OF Cons.prems] by blast
    show ?thesis
    proof (cases "p = 0")
      case True
      then have "sem b1 0 l (ws @ [w])" using b1(2) by simp
      from Cons.IH [OF this] show ?thesis using SPark b1(1) True by auto
    next
      case False
      then have "sem b1 (p - 1) l ws" using b1(2) by simp
      from Cons.IH [OF this] show ?thesis using SPark b1(1) False by auto
    qed
  next
    case SWake
    show ?thesis
    proof (cases ws)
      case (Cons w ws')
      obtain b1 where b1: "wake b = ((True, Some w), b1)" "sem b1 p l ws'"
        using wake_first Cons.prems Cons by blast
      from Cons.IH [OF b1(2)] show ?thesis using SWake b1(1) Cons by auto
    next
      case Nil
      show ?thesis
      proof (cases "p < l")
        case True
        obtain b1 where b1: "wake b = ((True, None), b1)" "sem b1 (p + 1) l []"
          using wake_store Cons.prems Nil True by blast
        from Cons.IH [OF b1(2)] show ?thesis using SWake b1(1) Nil True by auto
      next
        case False
        then obtain b1 where b1: "wake b = ((False, None), b1)" "sem b1 p l []"
          using wake_full Cons.prems Nil by (metis not_less)
        from Cons.IH [OF b1(2)] show ?thesis using SWake b1(1) Nil False by auto
      qed
    qed
  next
    case (SDrop w)
    obtain b1 where b1: "drop w b = (w \<in> set ws, b1)" "sem b1 p l (remove1 w ws)"
      using drop_sem [OF Cons.prems] by blast
    from Cons.IH [OF b1(2)] show ?thesis using SDrop b1(1) by auto
  qed
qed

lemma run_conservation:
  assumes "sem b p l ws" "sem_run take park wake drop os b = (rs, b')"
  shows "\<exists>p' ws'. sem b' p' l ws' \<and> p + count_of posted rs = p' + count_of granted rs"
proof -
  obtain p' ws' where "spec_run l os (p, ws) = (rs, (p', ws'))" "sem b' p' l ws'"
    using run_refines [OF assms(1), of os] assms(2) by auto
  then show ?thesis using spec_conservation by blast
qed

lemma run_inv:
  assumes "sem b p l ws" "sem_run take park wake drop os b = (rs, b')" "sem_inv l (p, ws)"
  shows "\<exists>p' ws'. sem b' p' l ws' \<and> sem_inv l (p', ws')"
proof -
  obtain p' ws' where "spec_run l os (p, ws) = (rs, (p', ws'))" "sem b' p' l ws'"
    using run_refines [OF assms(1), of os] assms(2) by auto
  then show ?thesis using spec_inv assms(3) by blast
qed

lemma run_fifo:
  assumes "sem b p l ws" "sem_run take park wake drop os b = (rs, b')" "\<forall>w. Dropped w \<notin> set rs"
  shows "\<exists>p' ws'. sem b' p' l ws' \<and> ws @ waited rs = handed rs @ ws'"
proof -
  obtain p' ws' where "spec_run l os (p, ws) = (rs, (p', ws'))" "sem b' p' l ws'"
    using run_refines [OF assms(1), of os] assms(2) by auto
  then show ?thesis using spec_fifo assms(3) by blast
qed

end

section \<open>The code\<close>

text \<open>
  An entry of \<open>waitQueue\<close> is a fiber or the object \<open>sync_\<close>, which stands for any one of the
  threads that sleep in its condition; \<open>bl_asleep\<close> is their number. \<open>Q\<close> are the operations of
  \<open>EConcurrentIntrusiveDeque\<close>.
\<close>

datatype waiter = WFiber fptr | WThread

record 'q blocker =
  bl_wakeup :: u32
  bl_limit :: u32
  bl_waitQueue :: 'q
  bl_asleep :: nat

definition EFiberBlocker_ctor :: "(waiter, 'q) cxx_queue \<Rightarrow> u32 \<Rightarrow> u32 \<Rightarrow> 'q blocker" where
  "EFiberBlocker_ctor Q capacity limit =
     \<lparr>bl_wakeup = capacity, bl_limit = limit, bl_waitQueue = cxq_empty Q, bl_asleep = 0\<rparr>"

text \<open>\<open>tryWait()\<close>; the same section is the first step of the other ways to wait.\<close>

definition EFiberBlocker_tryWait :: "'q blocker \<Rightarrow> bool \<times> 'q blocker" where
  "EFiberBlocker_tryWait b =
     (if bl_wakeup b = 0 then (False, b) else (True, b\<lparr>bl_wakeup := bl_wakeup b - 1\<rparr>))"

text \<open>
  \<open>wait()\<close> of a fiber, up to the point where it returns (\<open>False\<close>) or yields (\<open>True\<close>). The fiber
  enters the queue only afterwards, when its scheduler calls \<open>swapOut\<close>.
\<close>

definition EFiberBlocker_wait_fiber :: "bptr \<Rightarrow> fptr \<Rightarrow> 'q blocker \<Rightarrow> 'z rt_scheme \<Rightarrow>
    bool \<times> 'q blocker \<times> 'z rt_scheme" where
  "EFiberBlocker_wait_fiber bp f b s =
     (if bl_wakeup b > 0 then (False, b\<lparr>bl_wakeup := bl_wakeup b - 1\<rparr>, s)
      else
       (let s1 = upd_fiber f (\<lambda>fb. fb\<lparr>fb_blocker := Some bp\<rparr>) s;
            s2 = upd_fiber f (\<lambda>fb. fb\<lparr>fb_state := BLOCKED\<rparr>) s1
        in (True, b, s2)))"

text \<open>\<open>wait()\<close> of a thread: it returns (\<open>False\<close>) or sleeps until it is notified (\<open>True\<close>).\<close>

definition EFiberBlocker_wait_thread :: "(waiter, 'q) cxx_queue \<Rightarrow> 'q blocker \<Rightarrow> bool \<times> 'q blocker" where
  "EFiberBlocker_wait_thread Q b =
     (if bl_wakeup b > 0 then (False, b\<lparr>bl_wakeup := bl_wakeup b - 1\<rparr>)
      else (True, b\<lparr>bl_waitQueue := cxq_add Q WThread (bl_waitQueue b), bl_asleep := bl_asleep b + 1\<rparr>))"

text \<open>
  The timed \<open>tryWait\<close> of a fiber: the part before the yield (\<open>Inl\<close> the result when it returns at
  once, \<open>Inr\<close> the timer id when it yields) and the part after it.
\<close>

definition EFiberBlocker_tryWait_time_fiber :: "'k os \<Rightarrow> bptr \<Rightarrow> fptr \<Rightarrow> int \<Rightarrow> 'q blocker \<Rightarrow> iowaiter \<Rightarrow>
    'k \<Rightarrow> 'z rt_scheme \<Rightarrow> (bool + int) \<times> 'q blocker \<times> iowaiter \<times> 'k \<times> 'z rt_scheme" where
  "EFiberBlocker_tryWait_time_fiber os bp f timeout b iw k s =
     (if bl_wakeup b > 0 then (Inl True, b\<lparr>bl_wakeup := bl_wakeup b - 1\<rparr>, iw, k, s)
      else
       (let (timerID, iw1, k1, s1) =
              (if timeout > 0 then EIoWaiter_setupTimer os timeout f iw k s else (-1, iw, k, s));
            s2 = upd_fiber f (\<lambda>fb. fb\<lparr>fb_blocker := Some bp\<rparr>) s1;
            s3 = upd_fiber f (\<lambda>fb. fb\<lparr>fb_state := BLOCKED\<rparr>) s2
        in (Inr timerID, b, iw1, k1, s3)))"

definition EFiberBlocker_tryWait_time_resume :: "(waiter, 'q) cxx_queue \<Rightarrow> fptr \<Rightarrow> int \<Rightarrow> 'q blocker \<Rightarrow>
    iowaiter \<Rightarrow> 'z rt_scheme \<Rightarrow> bool \<times> 'q blocker \<times> iowaiter \<times> 'z rt_scheme" where
  "EFiberBlocker_tryWait_time_resume Q f timerID b iw s =
     (let iw1 = (if timerID \<noteq> -1 then EIoWaiter_cancelTimer timerID iw else iw);
          (late, s1) = EFiber_isWaitTimeout f s
      in if late then
           (let (r, q) = cxq_remove Q (WFiber f) (bl_waitQueue b)
            in (\<not> r, b\<lparr>bl_waitQueue := q\<rparr>, iw1, s1))
         else (True, b, iw1, s1))"

text \<open>
  The timed \<open>tryWait\<close> of a thread starts like \<open>wait\<close>; \<open>r\<close> is what the condition's \<open>await\<close>
  returned. A thread whose entry is still in the queue has not been notified.
\<close>

definition EFiberBlocker_tryWait_time_awake :: "(waiter, 'q) cxx_queue \<Rightarrow> bool \<Rightarrow> 'q blocker \<Rightarrow>
    bool \<times> 'q blocker" where
  "EFiberBlocker_tryWait_time_awake Q r b =
     (if \<not> r then
        (let (removed, q) = cxq_remove Q WThread (bl_waitQueue b)
         in (\<not> removed, b\<lparr>bl_waitQueue := q,
               bl_asleep := (if removed then bl_asleep b - 1 else bl_asleep b)\<rparr>))
      else (True, b))"

text \<open>The locked section of \<open>wakeUp\<close>: the result, and the waiter it chose.\<close>

definition EFiberBlocker_post :: "(waiter, 'q) cxx_queue \<Rightarrow> 'q blocker \<Rightarrow> (bool \<times> waiter option) \<times> 'q blocker" where
  "EFiberBlocker_post Q b =
     (let (w, q) = cxq_poll Q (bl_waitQueue b);
          b1 = b\<lparr>bl_waitQueue := q\<rparr>
      in case w of
           None \<Rightarrow>
             (if bl_wakeup b1 \<ge> bl_limit b1 then ((False, None), b1)
              else ((True, None), b1\<lparr>bl_wakeup := bl_wakeup b1 + 1\<rparr>))
         | Some WThread \<Rightarrow> ((True, Some WThread), b1\<lparr>bl_asleep := bl_asleep b1 - 1\<rparr>)
         | Some (WFiber f) \<Rightarrow> ((True, Some (WFiber f)), b1))"

definition EFiberBlocker_wakeUp :: "(waiter, 'q) cxx_queue \<Rightarrow> tid \<Rightarrow> 'q blocker \<Rightarrow> 'z rt_scheme \<Rightarrow>
    (bool \<times> 'q blocker \<times> 'z rt_scheme) option" where
  "EFiberBlocker_wakeUp Q t b s =
     (let ((r, w), b1) = EFiberBlocker_post Q b
      in case w of
           Some (WFiber f) \<Rightarrow> map_option (\<lambda>s1. (True, b1, s1)) (EFiber_swapIn t f s)
         | _ \<Rightarrow> Some (r, b1, s))"

definition EFiberBlocker_isWaking :: "'q blocker \<Rightarrow> bool" where
  "EFiberBlocker_isWaking b = (bl_wakeup b > 0)"

text \<open>\<open>swapOut\<close>, called by the scheduler: \<open>True\<close> if the fiber is now waiting.\<close>

definition EFiberBlocker_swapOut :: "(waiter, 'q) cxx_queue \<Rightarrow> fptr \<Rightarrow> 'q blocker \<Rightarrow> bool \<times> 'q blocker" where
  "EFiberBlocker_swapOut Q f b =
     (if bl_wakeup b > 0 then (False, b\<lparr>bl_wakeup := bl_wakeup b - 1\<rparr>)
      else (True, b\<lparr>bl_waitQueue := cxq_add Q (WFiber f) (bl_waitQueue b)\<rparr>))"

section \<open>The code implements the interface\<close>

text \<open>How a waiter enters the queue, and how it leaves it after a timeout.\<close>

definition blk_park :: "(waiter, 'q) cxx_queue \<Rightarrow> waiter \<Rightarrow> 'q blocker \<Rightarrow> bool \<times> 'q blocker" where
  "blk_park Q w b = (case w of WFiber f \<Rightarrow> EFiberBlocker_swapOut Q f b | WThread \<Rightarrow> EFiberBlocker_wait_thread Q b)"

definition blk_drop :: "(waiter, 'q) cxx_queue \<Rightarrow> waiter \<Rightarrow> 'q blocker \<Rightarrow> bool \<times> 'q blocker" where
  "blk_drop Q w b =
     (let (removed, q) = cxq_remove Q w (bl_waitQueue b)
      in (removed, b\<lparr>bl_waitQueue := q, bl_asleep :=
            (if w = WThread \<and> removed then bl_asleep b - 1 else bl_asleep b)\<rparr>))"

definition blk_sem :: "(waiter, 'q) cxx_queue \<Rightarrow> ('q \<Rightarrow> waiter list) \<Rightarrow> 'q blocker \<Rightarrow> nat \<Rightarrow> nat \<Rightarrow> waiter list \<Rightarrow> bool" where
  "blk_sem Q view b p l ws \<longleftrightarrow> cxx_fifo Q view \<and>
     p = unat (bl_wakeup b) \<and> l = unat (bl_limit b) \<and> ws = view (bl_waitQueue b) \<and>
     bl_asleep b = length (filter (\<lambda>w. w = WThread) ws)"

lemma blk_semD:
  assumes "blk_sem Q view b p l ws"
  shows "cxx_fifo Q view" "unat (bl_wakeup b) = p" "unat (bl_limit b) = l" "view (bl_waitQueue b) = ws"
    "bl_asleep b = length (filter (\<lambda>w. w = WThread) ws)" "bl_wakeup b = 0 \<longleftrightarrow> p = 0" "bl_wakeup b > 0 \<longleftrightarrow> 0 < p"
    "bl_limit b \<le> bl_wakeup b \<longleftrightarrow> l \<le> p"
proof -
  have z: "bl_wakeup b = 0 \<longleftrightarrow> p = 0" using assms by (simp add: blk_sem_def unat_eq_zero)
  then show "bl_wakeup b = 0 \<longleftrightarrow> p = 0" "bl_wakeup b > 0 \<longleftrightarrow> 0 < p" by (auto simp: word_gt_0)
qed (use assms in \<open>auto simp: blk_sem_def word_le_nat_alt\<close>)

lemma filter_remove1_length:
  "length (filter (\<lambda>x. x = a) (remove1 w ws)) =
     length (filter (\<lambda>x. x = a) ws) - (if w = a \<and> w \<in> set ws then 1 else 0)"
  by (induction ws) auto

lemma blk_take_law:
  assumes "blk_sem Q view b p l ws"
  shows "\<exists>b'. EFiberBlocker_tryWait b = (0 < p, b') \<and> blk_sem Q view b' (p - 1) l ws"
proof (cases "p = 0")
  case True
  then show ?thesis using assms blk_semD(6) [OF assms] by (simp add: EFiberBlocker_tryWait_def)
next
  case False
  then have "bl_wakeup b \<noteq> 0" using blk_semD(6) [OF assms] by simp
  then show ?thesis using assms False word_dec_unat [of "bl_wakeup b"]
    by (auto simp: EFiberBlocker_tryWait_def blk_sem_def)
qed

lemma blk_park_law:
  assumes "blk_sem Q view b p l ws"
  shows "\<exists>b'. blk_park Q w b = (p = 0, b') \<and>
     (if p = 0 then blk_sem Q view b' 0 l (ws @ [w]) else blk_sem Q view b' (p - 1) l ws)"
proof (cases "p = 0")
  case True
  then show ?thesis using assms blk_semD(7) [OF assms] cxx_add [OF blk_semD(1) [OF assms]]
    by (cases w) (auto simp: blk_park_def EFiberBlocker_swapOut_def EFiberBlocker_wait_thread_def blk_sem_def)
next
  case False
  then have "bl_wakeup b > 0" using blk_semD(7) [OF assms] by simp
  moreover have "unat (bl_wakeup b - 1) = p - 1"
    using word_dec_unat blk_semD(2,6) [OF assms] False by metis
  ultimately show ?thesis using assms False
    by (cases w) (auto simp: blk_park_def EFiberBlocker_swapOut_def EFiberBlocker_wait_thread_def blk_sem_def)
qed

lemma post_first:
  assumes "blk_sem Q view b p l (w # ws)"
  shows "\<exists>b'. EFiberBlocker_post Q b = ((True, Some w), b') \<and> blk_sem Q view b' p l ws"
proof -
  note d = blk_semD [OF assms]
  obtain q where q: "cxq_poll Q (bl_waitQueue b) = (Some w, q)" "view q = ws"
    using cxx_poll_cons [OF d(1,4)] cxx_poll_cons_view [OF d(1,4)] by (metis prod.collapse)
  show ?thesis
    using assms q by (cases w) (auto simp: EFiberBlocker_post_def blk_sem_def)
qed

lemma post_none:
  assumes "blk_sem Q view b p l []"
  shows "\<exists>b'. EFiberBlocker_post Q b = ((p < l, None), b') \<and> blk_sem Q view b' (if p < l then p + 1 else p) l []"
proof -
  note d = blk_semD [OF assms]
  obtain q where q: "cxq_poll Q (bl_waitQueue b) = (None, q)" "view q = []"
    using cxx_poll_empty [OF d(1,4)] cxx_poll_empty_view [OF d(1,4)] by (metis prod.collapse)
  show ?thesis
  proof (cases "p < l")
    case True
    then have "bl_wakeup b < bl_limit b" using d(8) by (simp add: not_le [symmetric])
    then have "unat (bl_wakeup b + 1) = p + 1" "\<not> bl_limit b \<le> bl_wakeup b"
      using word_inc_unat [of "bl_wakeup b" "bl_limit b"] d(2) by (simp_all add: not_le)
    then show ?thesis using assms q True by (auto simp: EFiberBlocker_post_def blk_sem_def)
  next
    case False
    then have "bl_limit b \<le> bl_wakeup b" using d(8) by simp
    then show ?thesis using assms q False by (auto simp: EFiberBlocker_post_def blk_sem_def)
  qed
qed

lemma blk_drop_law:
  assumes "blk_sem Q view b p l ws"
  shows "\<exists>b'. blk_drop Q w b = (w \<in> set ws, b') \<and> blk_sem Q view b' p l (remove1 w ws)"
proof -
  note d = blk_semD [OF assms]
  obtain q where q: "cxq_remove Q w (bl_waitQueue b) = (w \<in> set ws, q)" "view q = remove1 w ws"
    using cxx_remove [OF d(1), of w "bl_waitQueue b"] cxx_remove_view [OF d(1), of w "bl_waitQueue b"] d(4)
    by (cases "cxq_remove Q w (bl_waitQueue b)") auto
  show ?thesis
    using assms q filter_remove1_length [of WThread w ws] by (auto simp: blk_drop_def blk_sem_def)
qed

interpretation blk: semaphore EFiberBlocker_tryWait "blk_park Q" "EFiberBlocker_post Q" "blk_drop Q"
    "blk_sem Q view" for Q view
proof unfold_locales
  fix b p l assume "blk_sem Q view b p l []" "p < l"
  then show "\<exists>b'. EFiberBlocker_post Q b = ((True, None), b') \<and> blk_sem Q view b' (p + 1) l []"
    using post_none by fastforce
next
  fix b p l assume "blk_sem Q view b p l []" "l \<le> p"
  then show "\<exists>b'. EFiberBlocker_post Q b = ((False, None), b') \<and> blk_sem Q view b' p l []"
    using post_none by fastforce
next
  fix b p l w ws assume "blk_sem Q view b p l (w # ws)"
  then show "\<exists>b'. EFiberBlocker_post Q b = ((True, Some w), b') \<and> blk_sem Q view b' p l ws"
    by (rule post_first)
next
  fix b p l w ws assume "blk_sem Q view b p l ws"
  then show "\<exists>b'. blk_drop Q w b = (w \<in> set ws, b') \<and> blk_sem Q view b' p l (remove1 w ws)"
    by (rule blk_drop_law)
qed (use blk_take_law blk_park_law in blast)+

lemma ctor_sem:
  "cxx_fifo Q view \<Longrightarrow> blk_sem Q view (EFiberBlocker_ctor Q capacity limit) (unat capacity) (unat limit) []"
  by (simp add: blk_sem_def EFiberBlocker_ctor_def cxx_empty)

section \<open>Fibers\<close>

text \<open>
  A wake-up that reaches a fiber makes it runnable, exactly one fiber leaves the queue, and the
  code follows no null pointer. A wake-up that reaches nobody leaves the fibers alone.
\<close>

lemma wakeUp_ok:
  assumes b: "blk_sem Q view b p l ws" and ok: "rt_ok K L F R s" and F: "\<forall>f. WFiber f \<in> set ws \<longrightarrow> f \<in> F"
  shows "\<exists>r b' s'. EFiberBlocker_wakeUp Q t b s = Some (r, b', s') \<and> rt_ok K L F R s' \<and> wakes F s s' \<and>
     blk_sem Q view b' (if ws = [] \<and> p < l then p + 1 else p) l (tl ws) \<and> (r \<longleftrightarrow> ws \<noteq> [] \<or> p < l) \<and>
     (\<forall>f. ws \<noteq> [] \<and> hd ws = WFiber f \<longrightarrow> \<not> parked f s') \<and> ((\<forall>f. ws = [] \<or> hd ws \<noteq> WFiber f) \<longrightarrow> s' = s)"
proof (cases ws)
  case Nil
  obtain b' where b': "EFiberBlocker_post Q b = ((p < l, None), b')"
      "blk_sem Q view b' (if p < l then p + 1 else p) l []"
    using post_none b Nil by blast
  then have "EFiberBlocker_wakeUp Q t b s = Some (p < l, b', s)" by (simp add: EFiberBlocker_wakeUp_def)
  then show ?thesis using b'(2) ok Nil by auto
next
  case (Cons w ws')
  obtain b' where b': "EFiberBlocker_post Q b = ((True, Some w), b')" "blk_sem Q view b' p l ws'"
    using post_first b Cons by blast
  show ?thesis
  proof (cases w)
    case (WFiber f)
    then have "f \<in> F" using F Cons by simp
    then obtain s' where s': "EFiber_swapIn t f s = Some s'" "rt_ok K L F R s'" "wakes F s s'" "\<not> parked f s'"
      using swapIn_ok [OF ok] by blast
    then have "EFiberBlocker_wakeUp Q t b s = Some (True, b', s')"
      using b'(1) WFiber by (simp add: EFiberBlocker_wakeUp_def)
    then show ?thesis using b'(2) s' Cons WFiber by auto
  next
    case WThread
    then have "EFiberBlocker_wakeUp Q t b s = Some (True, b', s)"
      using b'(1) by (simp add: EFiberBlocker_wakeUp_def)
    then show ?thesis using b'(2) ok Cons WThread by auto
  qed
qed

text \<open>
  \<open>wait\<close> of a fiber together with the \<open>swapOut\<close> of its scheduler, when nobody has used the
  blocker in between: the fiber has a permit, or it is parked and last in the queue.
\<close>

lemma wait_then_swapOut:
  assumes b: "blk_sem Q view b p l ws" and w: "EFiberBlocker_wait_fiber bp f b s = (y, b1, s1)"
  shows "if 0 < p then \<not> y \<and> blk_sem Q view b1 (p - 1) l ws \<and> s1 = s
     else y \<and> fb_state (rt_fibers s1 f) = BLOCKED \<and> fb_blocker (rt_fibers s1 f) = Some bp \<and>
       (\<exists>b2. EFiberBlocker_swapOut Q f b1 = (True, b2) \<and> blk_sem Q view b2 0 l (ws @ [WFiber f]))"
proof (cases "0 < p")
  case True
  then have "bl_wakeup b > 0" using blk_semD(7) [OF b] by simp
  moreover obtain b' where "EFiberBlocker_tryWait b = (True, b')" "blk_sem Q view b' (p - 1) l ws"
    using blk_take_law [OF b] True by auto
  ultimately show ?thesis using w True
    by (auto simp: EFiberBlocker_wait_fiber_def EFiberBlocker_tryWait_def word_gt_0)
next
  case False
  then have "\<not> bl_wakeup b > 0" using blk_semD(7) [OF b] by simp
  then show ?thesis using w False blk_park_law [OF b, of "WFiber f"]
    by (auto simp: EFiberBlocker_wait_fiber_def blk_park_def)
qed

text \<open>
  The end of a timed wait: \<open>False\<close> is returned exactly if the timer came first and the fiber was
  still in the queue, and then it is in the queue no longer. A permit that was handed to the
  fiber in the meantime is reported, not lost.
\<close>

lemma tryWait_time_resume_ok:
  assumes b: "blk_sem Q view b p l ws" and r: "EFiberBlocker_tryWait_time_resume Q f i b iw s = (r, b', iw', s')"
  shows "\<not> r \<longleftrightarrow> fb_isIoWaitTimeout (rt_fibers s f) \<and> WFiber f \<in> set ws"
    and "blk_sem Q view b' p l (if r then ws else remove1 (WFiber f) ws)"
    and "\<not> fb_isIoWaitTimeout (rt_fibers s' f)"
    and "iw' = (if i = -1 then iw else EIoWaiter_cancelTimer i iw)"
proof -
  obtain b1 where b1: "blk_drop Q (WFiber f) b = (WFiber f \<in> set ws, b1)"
      "blk_sem Q view b1 p l (remove1 (WFiber f) ws)"
    using blk_drop_law [OF b] by blast
  obtain q where q: "cxq_remove Q (WFiber f) (bl_waitQueue b) = (WFiber f \<in> set ws, q)"
      "b1 = b\<lparr>bl_waitQueue := q\<rparr>"
    using b1(1) by (auto simp: blk_drop_def split: prod.splits)
  have e: "(r, b', iw', s') = (if fb_isIoWaitTimeout (rt_fibers s f)
      then (WFiber f \<notin> set ws, b1, (if i \<noteq> -1 then EIoWaiter_cancelTimer i iw else iw),
            upd_fiber f (\<lambda>fb. fb\<lparr>fb_isIoWaitTimeout := False\<rparr>) s)
      else (True, b, (if i \<noteq> -1 then EIoWaiter_cancelTimer i iw else iw),
            upd_fiber f (\<lambda>fb. fb\<lparr>fb_isIoWaitTimeout := False\<rparr>) s))"
    using r q by (simp add: EFiberBlocker_tryWait_time_resume_def EFiber_isWaitTimeout_def Let_def split: if_splits)
  show "\<not> r \<longleftrightarrow> fb_isIoWaitTimeout (rt_fibers s f) \<and> WFiber f \<in> set ws"
    and "iw' = (if i = -1 then iw else EIoWaiter_cancelTimer i iw)"
    and "\<not> fb_isIoWaitTimeout (rt_fibers s' f)"
    using e by (auto split: if_splits)
  show "blk_sem Q view b' p l (if r then ws else remove1 (WFiber f) ws)"
    using e b b1(2) by (auto simp: remove1_idem split: if_splits)
qed

text \<open>The same for a thread.\<close>

lemma tryWait_time_awake_ok:
  assumes b: "blk_sem Q view b p l ws" and r: "EFiberBlocker_tryWait_time_awake Q a b = (r, b')"
  shows "\<not> r \<longleftrightarrow> \<not> a \<and> WThread \<in> set ws"
    and "blk_sem Q view b' p l (if r then ws else remove1 WThread ws)"
proof -
  obtain b1 where b1: "blk_drop Q WThread b = (WThread \<in> set ws, b1)" "blk_sem Q view b1 p l (remove1 WThread ws)"
    using blk_drop_law [OF b] by blast
  have e: "(r, b') = (if a then (True, b) else (WThread \<notin> set ws, b1))"
    using r b1(1) by (auto simp: EFiberBlocker_tryWait_time_awake_def blk_drop_def split: prod.splits)
  show "\<not> r \<longleftrightarrow> \<not> a \<and> WThread \<in> set ws" using e by (auto split: if_splits)
  show "blk_sem Q view b' p l (if r then ws else remove1 WThread ws)"
    using e b b1(2) by (auto simp: remove1_idem split: if_splits)
qed

end
