(* ===== verification/Sync.thy ===== *)
theory Sync
  imports Blocker
begin

text \<open>
  The two small clients of the blocker: \<open>EFiberMutex\<close> (inc/EFiberMutex.hh, src/EFiberMutex.cpp)
  and \<open>EFiberCondition\<close> (inc/EFiberCondition.hh, src/EFiberCondition.cpp). Mutual exclusion is
  proved inside the interface \<open>semaphore\<close> and holds for the code by its interpretation.
\<close>

section \<open>Mutual exclusion, for every semaphore\<close>

text \<open>
  Read off the outcomes how many callers hold the lock; \<open>owned\<close> says that every unlock (a
  \<open>wake\<close>) comes from a holder.
\<close>

fun holders :: "nat \<Rightarrow> 'w outcome list \<Rightarrow> nat" where
  "holders h [] = h"
| "holders h (Taken # rs) = holders (h + 1) rs"
| "holders h (Stored # rs) = holders (h - 1) rs"
| "holders h (Full # rs) = holders (h - 1) rs"
| "holders h (x # rs) = holders h rs"

fun owned :: "nat \<Rightarrow> 'w outcome list \<Rightarrow> bool" where
  "owned h [] = True"
| "owned h (Taken # rs) = owned (h + 1) rs"
| "owned h (Stored # rs) = (0 < h \<and> owned (h - 1) rs)"
| "owned h (Full # rs) = (0 < h \<and> owned (h - 1) rs)"
| "owned h (Handed w # rs) = (0 < h \<and> owned h rs)"
| "owned h (x # rs) = owned h rs"

lemma spec_exclusion:
  "spec_run l os (p, ws) = (rs, (p', ws')) \<Longrightarrow> l = 1 \<Longrightarrow> p + h = 1 \<Longrightarrow> owned h rs \<Longrightarrow>
     p' + holders h rs = 1 \<and> Full \<notin> set rs"
proof (induction l os "(p, ws)" arbitrary: p ws rs h rule: spec_run.induct)
  case (2 l os p ws)
  then have "p = 1 \<and> h = 0 \<or> p = 0 \<and> h = 1" by linarith
  then show ?case using 2 by (elim disjE) (auto simp: Let_def split: prod.splits if_splits)
next
  case (3 l w os p ws)
  then have "p = 1 \<and> h = 0 \<or> p = 0 \<and> h = 1" by linarith
  then show ?case using 3 by (elim disjE) (auto simp: Let_def split: prod.splits if_splits)
next
  case (4 l os p ws)
  then show ?case
    by (cases ws) (auto simp: Let_def split: prod.splits if_splits)
qed (auto simp: Let_def split: prod.splits if_splits)

context semaphore
begin

lemma exclusion:
  assumes "sem b 1 1 []" "sem_run take park wake drop os b = (rs, b')" "owned 0 rs"
  shows "holders 0 rs \<le> 1" and "Full \<notin> set rs" and "\<exists>ws'. sem b' (1 - holders 0 rs) 1 ws'"
proof -
  obtain p' ws' where r: "spec_run 1 os (1, []) = (rs, (p', ws'))" "sem b' p' 1 ws'"
    using run_refines [OF assms(1), of os] assms(2) by auto
  have e: "p' + holders 0 rs = 1 \<and> Full \<notin> set rs"
    by (rule spec_exclusion [OF r(1)]) (use assms(3) in simp_all)
  then show "holders 0 rs \<le> 1" "Full \<notin> set rs" by linarith+
  have "p' = 1 - holders 0 rs" using e by linarith
  then show "\<exists>ws'. sem b' (1 - holders 0 rs) 1 ws'" using r(2) by blast
qed

end

section \<open>EFiberMutex\<close>

datatype sync_error = EUnsupportedOperationException

definition EFiberMutex_ctor :: "(waiter, 'q) cxx_queue \<Rightarrow> 'q blocker" where
  "EFiberMutex_ctor Q = EFiberBlocker_ctor Q 1 1"

definition EFiberMutex_lock_fiber :: "bptr \<Rightarrow> fptr \<Rightarrow> 'q blocker \<Rightarrow> 'z rt_scheme \<Rightarrow> bool \<times> 'q blocker \<times> 'z rt_scheme" where
  "EFiberMutex_lock_fiber bp f b s = EFiberBlocker_wait_fiber bp f b s"

definition EFiberMutex_lock_thread :: "(waiter, 'q) cxx_queue \<Rightarrow> 'q blocker \<Rightarrow> bool \<times> 'q blocker" where
  "EFiberMutex_lock_thread Q b = EFiberBlocker_wait_thread Q b"

definition EFiberMutex_lockInterruptibly :: "'q blocker \<Rightarrow> sync_error + 'q blocker" where
  "EFiberMutex_lockInterruptibly b = Inl EUnsupportedOperationException"

definition EFiberMutex_tryLock :: "'q blocker \<Rightarrow> bool \<times> 'q blocker" where
  "EFiberMutex_tryLock b = EFiberBlocker_tryWait b"

definition EFiberMutex_unlock :: "(waiter, 'q) cxx_queue \<Rightarrow> tid \<Rightarrow> 'q blocker \<Rightarrow> 'z rt_scheme \<Rightarrow>
    ('q blocker \<times> 'z rt_scheme) option" where
  "EFiberMutex_unlock Q t b s = map_option (\<lambda>(r, b', s'). (b', s')) (EFiberBlocker_wakeUp Q t b s)"

definition EFiberMutex_newCondition :: "'q blocker \<Rightarrow> sync_error + unit" where
  "EFiberMutex_newCondition b = Inl EUnsupportedOperationException"

definition EFiberMutex_isLocked :: "'q blocker \<Rightarrow> bool" where
  "EFiberMutex_isLocked b = (\<not> EFiberBlocker_isWaking b)"

lemma mutex_ctor_sem:
  assumes "cxx_fifo Q view"
  shows "blk_sem Q view (EFiberMutex_ctor Q) 1 1 []"
  using ctor_sem [OF assms, of 1 1] by (simp add: EFiberMutex_ctor_def)

lemma mutex_isLocked:
  assumes "blk_sem Q view b p l ws"
  shows "EFiberMutex_isLocked b \<longleftrightarrow> p = 0"
  using blk_semD(7) [OF assms] by (simp add: EFiberMutex_isLocked_def EFiberBlocker_isWaking_def)

text \<open>Unlocking a contended mutex passes the lock to the first fiber that waits for it.\<close>

lemma mutex_unlock_handoff:
  assumes b: "blk_sem Q view b 0 1 (WFiber g # ws)" and ok: "rt_ok K L F R s"
    and F: "\<forall>f. WFiber f \<in> set (WFiber g # ws) \<longrightarrow> f \<in> F"
  shows "\<exists>b' s'. EFiberMutex_unlock Q t b s = Some (b', s') \<and> blk_sem Q view b' 0 1 ws \<and>
     EFiberMutex_isLocked b' \<and> rt_ok K L F R s' \<and> \<not> parked g s'"
proof -
  obtain r b' s' where w: "EFiberBlocker_wakeUp Q t b s = Some (r, b', s')" "rt_ok K L F R s'"
      "blk_sem Q view b' 0 1 ws" "\<not> parked g s'"
    using wakeUp_ok [OF b ok F, of t] by auto
  then show ?thesis using mutex_isLocked [OF w(3)] by (auto simp: EFiberMutex_unlock_def)
qed

section \<open>EFiberCondition\<close>

text \<open>
  \<open>waiters\<close> is a queue of blockers, one for each call of \<open>await\<close>; the blockers themselves are in
  a map. \<open>W\<close> are the operations of \<open>EConcurrentLinkedQueue\<close>.
\<close>

record ('q, 'w) condition =
  cn_waiters :: 'w
  cn_blockers :: "bptr \<Rightarrow> 'q blocker"

text \<open>\<open>await\<close> of a fiber up to its yield; \<open>bp\<close> is the address of the new blocker.\<close>

definition EFiberCondition_await :: "(waiter, 'q) cxx_queue \<Rightarrow> (bptr, 'w) cxx_queue \<Rightarrow> bptr \<Rightarrow> fptr \<Rightarrow>
    ('q, 'w) condition \<Rightarrow> 'z rt_scheme \<Rightarrow> bool \<times> ('q, 'w) condition \<times> 'z rt_scheme" where
  "EFiberCondition_await Q W bp f cn s =
     (let fb = EFiberBlocker_ctor Q 0 (-1);
          cn1 = cn\<lparr>cn_waiters := cxq_add W bp (cn_waiters cn)\<rparr>;
          (y, b, s') = EFiberBlocker_wait_fiber bp f fb s
      in (y, cn1\<lparr>cn_blockers := (cn_blockers cn1)(bp := b)\<rparr>, s'))"

definition EFiberCondition_signal :: "(waiter, 'q) cxx_queue \<Rightarrow> (bptr, 'w) cxx_queue \<Rightarrow> tid \<Rightarrow>
    ('q, 'w) condition \<Rightarrow> 'z rt_scheme \<Rightarrow> (('q, 'w) condition \<times> 'z rt_scheme) option" where
  "EFiberCondition_signal Q W t cn s =
     (let (fb, w) = cxq_poll W (cn_waiters cn);
          cn1 = cn\<lparr>cn_waiters := w\<rparr>
      in case fb of
           None \<Rightarrow> Some (cn1, s)
         | Some bp \<Rightarrow>
             (case EFiberBlocker_wakeUp Q t (cn_blockers cn1 bp) s of
                None \<Rightarrow> None
              | Some (r, b, s') \<Rightarrow> Some (cn1\<lparr>cn_blockers := (cn_blockers cn1)(bp := b)\<rparr>, s')))"

text \<open>The loop of \<open>signalAll\<close> over the iterator.\<close>

fun wake_all :: "(waiter, 'q) cxx_queue \<Rightarrow> tid \<Rightarrow> bptr list \<Rightarrow> ('q, 'w) condition \<Rightarrow> 'z rt_scheme \<Rightarrow>
    (('q, 'w) condition \<times> 'z rt_scheme) option" where
  "wake_all Q t [] cn s = Some (cn, s)"
| "wake_all Q t (bp # bps) cn s =
     (case EFiberBlocker_wakeUp Q t (cn_blockers cn bp) s of
        None \<Rightarrow> None
      | Some (r, b, s') \<Rightarrow> wake_all Q t bps (cn\<lparr>cn_blockers := (cn_blockers cn)(bp := b)\<rparr>) s')"

definition EFiberCondition_signalAll :: "(waiter, 'q) cxx_queue \<Rightarrow> (bptr, 'w) cxx_queue \<Rightarrow> tid \<Rightarrow>
    ('q, 'w) condition \<Rightarrow> 'z rt_scheme \<Rightarrow> (('q, 'w) condition \<times> 'z rt_scheme) option" where
  "EFiberCondition_signalAll Q W t cn s = wake_all Q t (cxq_iter W (cn_waiters cn)) cn s"

text \<open>
  A blocker of \<open>await\<close>: nobody has signalled it and one fiber waits (\<open>Some f\<close>), or it is left over
  from an earlier wake-up (\<open>None\<close>).
\<close>

definition cond_waits :: "(waiter, 'q) cxx_queue \<Rightarrow> ('q \<Rightarrow> waiter list) \<Rightarrow> 'q blocker \<Rightarrow> fptr option \<Rightarrow> bool" where
  "cond_waits Q view b w \<longleftrightarrow>
     (\<exists>p. p < 2 ^ 32 - 2 \<and> blk_sem Q view b p (2 ^ 32 - 1) (case w of Some f \<Rightarrow> [WFiber f] | None \<Rightarrow> []))"

lemma wakeUp_cond:
  assumes b: "blk_sem Q view b p (2 ^ 32 - 1) (case w of Some f \<Rightarrow> [WFiber f] | None \<Rightarrow> [])" and p: "p < 2 ^ 32 - 1"
    and ok: "rt_ok K L F R s" and F: "\<forall>f. w = Some f \<longrightarrow> f \<in> F"
  shows "\<exists>b' s' p'. EFiberBlocker_wakeUp Q t b s = Some (True, b', s') \<and> rt_ok K L F R s' \<and> wakes F s s' \<and>
     p' \<le> p + 1 \<and> blk_sem Q view b' p' (2 ^ 32 - 1) [] \<and>
     (case w of Some f \<Rightarrow> \<not> parked f s' | None \<Rightarrow> s' = s)"
proof -
  let ?ws = "case w of Some f \<Rightarrow> [WFiber f] | None \<Rightarrow> []"
  have "\<forall>f. WFiber f \<in> set ?ws \<longrightarrow> f \<in> F" using F by (auto split: option.splits)
  from wakeUp_ok [OF b ok this, of t]
  obtain r b' s' where r: "EFiberBlocker_wakeUp Q t b s = Some (r, b', s')" "rt_ok K L F R s'" "wakes F s s'"
     "blk_sem Q view b' (if ?ws = [] \<and> p < 2 ^ 32 - 1 then p + 1 else p) (2 ^ 32 - 1) (tl ?ws)"
     "r \<longleftrightarrow> ?ws \<noteq> [] \<or> p < 2 ^ 32 - 1"
     "\<forall>f. ?ws \<noteq> [] \<and> hd ?ws = WFiber f \<longrightarrow> \<not> parked f s'"
     "(\<forall>f. ?ws = [] \<or> hd ?ws \<noteq> WFiber f) \<longrightarrow> s' = s"
    by blast
  show ?thesis
  proof (cases w)
    case None
    then show ?thesis using r p by (intro exI [of _ b'] exI [of _ s'] exI [of _ "p + 1"]) simp
  next
    case (Some f)
    then show ?thesis using r p by (intro exI [of _ b'] exI [of _ s'] exI [of _ p]) simp
  qed
qed

text \<open>
  \<open>signal\<close> goes to the oldest entry of the queue, live or left over, and removes it; only if a
  fiber waits on that entry, a fiber becomes runnable.
\<close>

lemma signal_ok:
  assumes W: "cxx_fifo W wview" and v: "wview (cn_waiters cn) = bp # bps"
    and b: "cond_waits Q view (cn_blockers cn bp) w" and ok: "rt_ok K L F R s" and F: "\<forall>f. w = Some f \<longrightarrow> f \<in> F"
  shows "\<exists>cn' s'. EFiberCondition_signal Q W t cn s = Some (cn', s') \<and> wview (cn_waiters cn') = bps \<and>
     rt_ok K L F R s' \<and> (\<forall>bp'. bp' \<noteq> bp \<longrightarrow> cn_blockers cn' bp' = cn_blockers cn bp') \<and>
     (case w of Some f \<Rightarrow> \<not> parked f s' | None \<Rightarrow> s' = s)"
proof -
  obtain p where p: "p < 2 ^ 32 - 1"
      "blk_sem Q view (cn_blockers cn bp) p (2 ^ 32 - 1) (case w of Some f \<Rightarrow> [WFiber f] | None \<Rightarrow> [])"
  proof -
    obtain p where "p < 2 ^ 32 - 2"
        "blk_sem Q view (cn_blockers cn bp) p (2 ^ 32 - 1) (case w of Some f \<Rightarrow> [WFiber f] | None \<Rightarrow> [])"
      using b unfolding cond_waits_def by auto
    with that [of p] show ?thesis by simp
  qed
  obtain b' s' where r: "EFiberBlocker_wakeUp Q t (cn_blockers cn bp) s = Some (True, b', s')" "rt_ok K L F R s'"
      "case w of Some f \<Rightarrow> \<not> parked f s' | None \<Rightarrow> s' = s"
    using wakeUp_cond [OF p(2,1) ok F, of t] by blast
  obtain q where q: "cxq_poll W (cn_waiters cn) = (Some bp, q)" "wview q = bps"
    using cxx_poll_cons [OF W v] cxx_poll_cons_view [OF W v] by (metis prod.collapse)
  have "EFiberCondition_signal Q W t cn s =
      Some (cn\<lparr>cn_waiters := q, cn_blockers := (cn_blockers cn)(bp := b')\<rparr>, s')"
    using q r(1) by (simp add: EFiberCondition_signal_def)
  then show ?thesis using q(2) r(2,3) by simp
qed

text \<open>\<open>signalAll\<close> makes every waiting fiber runnable, and leaves the queue of blockers as it is.\<close>

lemma wake_all_ok:
  "distinct bps \<Longrightarrow> \<forall>bp\<in>set bps. cond_waits Q view (cn_blockers cn bp) (w bp) \<Longrightarrow>
   \<forall>bp\<in>set bps. \<forall>f. w bp = Some f \<longrightarrow> f \<in> F \<Longrightarrow> rt_ok K L F R s \<Longrightarrow>
   \<exists>cn' s'. wake_all Q t bps cn s = Some (cn', s') \<and> rt_ok K L F R s' \<and> wakes F s s' \<and>
     cn_waiters cn' = cn_waiters cn \<and>
     (\<forall>bp. bp \<notin> set bps \<longrightarrow> cn_blockers cn' bp = cn_blockers cn bp) \<and>
     (\<forall>bp\<in>set bps. \<exists>p. p < 2 ^ 32 - 1 \<and> blk_sem Q view (cn_blockers cn' bp) p (2 ^ 32 - 1) []) \<and>
     (\<forall>bp\<in>set bps. \<forall>f. w bp = Some f \<longrightarrow> \<not> parked f s')"
proof (induction bps arbitrary: cn s)
  case Nil
  then show ?case by simp
next
  case (Cons bp bps)
  obtain p where p: "p < 2 ^ 32 - 2"
      "blk_sem Q view (cn_blockers cn bp) p (2 ^ 32 - 1) (case w bp of Some f \<Rightarrow> [WFiber f] | None \<Rightarrow> [])"
    using Cons.prems(2) unfolding cond_waits_def by auto
  have p1: "p < 2 ^ 32 - 1" using p(1) by simp
  obtain b' s1 p' where r: "EFiberBlocker_wakeUp Q t (cn_blockers cn bp) s = Some (True, b', s1)" "rt_ok K L F R s1"
      "wakes F s s1" "p' \<le> p + 1" "blk_sem Q view b' p' (2 ^ 32 - 1) []"
      "case w bp of Some f \<Rightarrow> \<not> parked f s1 | None \<Rightarrow> s1 = s"
    using wakeUp_cond [OF p(2) p1 Cons.prems(4), of t] Cons.prems(3) by auto
  define cn1 where "cn1 = cn\<lparr>cn_blockers := (cn_blockers cn)(bp := b')\<rparr>"
  have cn1: "cn_waiters cn1 = cn_waiters cn" "cn_blockers cn1 bp = b'"
      "\<And>x. x \<noteq> bp \<Longrightarrow> cn_blockers cn1 x = cn_blockers cn x"
    by (simp_all add: cn1_def)
  have d: "distinct bps" "bp \<notin> set bps" using Cons.prems(1) by simp_all
  have c1: "\<forall>x\<in>set bps. cond_waits Q view (cn_blockers cn1 x) (w x)"
  proof
    fix x assume "x \<in> set bps"
    then show "cond_waits Q view (cn_blockers cn1 x) (w x)"
      using Cons.prems(2) d(2) cn1(3) [of x] by (metis list.set_intros(2))
  qed
  have f1: "\<forall>x\<in>set bps. \<forall>f. w x = Some f \<longrightarrow> f \<in> F" using Cons.prems(3) by simp
  obtain cn2 s2 where h: "wake_all Q t bps cn1 s1 = Some (cn2, s2)" "rt_ok K L F R s2" "wakes F s1 s2"
     "cn_waiters cn2 = cn_waiters cn1" "\<forall>bp. bp \<notin> set bps \<longrightarrow> cn_blockers cn2 bp = cn_blockers cn1 bp"
     "\<forall>bp\<in>set bps. \<exists>p. p < 2 ^ 32 - 1 \<and> blk_sem Q view (cn_blockers cn2 bp) p (2 ^ 32 - 1) []"
     "\<forall>bp\<in>set bps. \<forall>f. w bp = Some f \<longrightarrow> \<not> parked f s2"
    using Cons.IH [OF d(1) c1 f1 r(2)] by blast
  have e: "wake_all Q t (bp # bps) cn s = Some (cn2, s2)" using r(1) h(1) by (simp add: cn1_def)
  have 1: "\<not> parked f s2" if "x \<in> set (bp # bps)" "w x = Some f" for x f
  proof (cases "x = bp")
    case True
    then have "\<not> parked f s1" using r(6) that(2) by simp
    then show ?thesis using h(3) unfolding wakes_def by blast
  next
    case False
    then show ?thesis using h(7) that by simp
  qed
  have "cn_blockers cn2 bp = b'" using h(5) d(2) cn1(2) by simp
  moreover have "p' < 2 ^ 32 - 1" using r(4) p(1) by simp
  ultimately have 2: "\<exists>p. p < 2 ^ 32 - 1 \<and> blk_sem Q view (cn_blockers cn2 x) p (2 ^ 32 - 1) []"
    if "x \<in> set (bp # bps)" for x
    using h(6) r(5) that by (cases "x = bp") auto
  have 3: "cn_blockers cn2 x = cn_blockers cn x" if "x \<notin> set (bp # bps)" for x
    using h(5) cn1(3) that by simp
  show ?case
  proof (intro exI [of _ cn2] exI [of _ s2] conjI)
    show "\<forall>bp'\<in>set (bp # bps). \<forall>f. w bp' = Some f \<longrightarrow> \<not> parked f s2" using 1 by blast
    show "\<forall>bp'\<in>set (bp # bps). \<exists>p<2 ^ 32 - 1. blk_sem Q view (cn_blockers cn2 bp') p (2 ^ 32 - 1) []"
      using 2 by blast
    show "\<forall>bp'. bp' \<notin> set (bp # bps) \<longrightarrow> cn_blockers cn2 bp' = cn_blockers cn bp'" using 3 by blast
    show "cn_waiters cn2 = cn_waiters cn" unfolding h(4) cn1(1) ..
  qed (rule e, rule h(2), rule wakes_trans [OF r(3) h(3)])
qed

end
