(* ===== verification/Channel.thy ===== *)
theory Channel
  imports Blocker
begin

text \<open>
  \<open>EFiberChannel\<close> (inc/EFiberChannel.hh): a bounded channel built from two blockers and a queue.
  Every access to a blocker or to the queue is one atomic step, and the steps of all fibers
  interleave freely (they may run on several scheduler threads). A fiber that yields, in \<open>tryRead\<close> or
  on its own, goes through the \<open>switch (fiber->state)\<close> of its scheduler, which is a step too. The
  invariant accounts for every permit and every element.
\<close>

section \<open>State\<close>

text \<open>
  \<open>ch_woken\<close> are the fibers that wake-ups of the two blockers have resumed (\<open>swapIn\<close>) and that
  have not run again yet. \<open>ch_blocked\<close> is the state of a fiber with its \<open>blocker\<close>: \<open>Some\<close> for \<open>BLOCKED\<close> on
  one of the two, \<open>None\<close> for \<open>RUNNABLE\<close>. A wait sets it, and only \<open>swapIn\<close> resets it: a fiber
  that got its permit from \<open>swapOut\<close> goes on with it set.
\<close>

datatype side = ReaderB | WriterB

record ('q, 'd) chan =
  ch_reader :: "'q blocker"
  ch_writer :: "'q blocker"
  ch_data :: 'd
  ch_woken :: "fptr set"
  ch_blocked :: "fptr \<Rightarrow> side option"

definition EFiberChannel_ctor :: "(waiter, 'q) cxx_queue \<Rightarrow> ('e, 'd) cxx_queue \<Rightarrow> u32 \<Rightarrow> ('q, 'd) chan" where
  "EFiberChannel_ctor Q D capacity =
     \<lparr>ch_reader = EFiberBlocker_ctor Q 0 (-1), ch_writer = EFiberBlocker_ctor Q capacity (-1),
      ch_data = cxq_empty D, ch_woken = {}, ch_blocked = (\<lambda>_. None)\<rparr>"

datatype 'e chan_res = RdRes "'e option" | WrRes | TrRes "'e option option" | TwRes bool

text \<open>
  Where a fiber is in \<open>read\<close>, \<open>write\<close>, \<open>tryRead\<close> or \<open>tryWrite\<close>. \<open>ReadYielded\<close> and \<open>WriteYielded\<close> are between
  the yield of \<open>wait\<close> and the \<open>swapOut\<close> of the scheduler, \<open>ReadParked\<close> and \<open>WriteParked\<close> are after it.
  \<open>Yielded\<close> is a fiber in \<open>EFiber::yield()\<close>, called by \<open>tryRead\<close> or by its own code outside of the channel;
  \<open>LateParked\<close> is one that such a yield has put into the queue of a blocker.
\<close>

datatype yielder = InTryRead | InFiber

datatype 'e chan_pc =
    Idle | Done "'e chan_res"
  | ReadCalled | ReadWait | ReadYielded | ReadParked | ReadPoll
  | WriteCalled 'e | WriteYielded 'e | WriteParked 'e | WriteAdd 'e | WritePost
  | TryReadCalled | TryReadLoop | TryReadGiveUp | TryReadPoll
  | TryWriteCalled 'e | TryWriteAdd 'e | TryWritePost
  | Yielded yielder | LateParked side yielder

fun after_yield :: "yielder \<Rightarrow> 'e chan_pc" where
  "after_yield InTryRead = TryReadLoop"
| "after_yield InFiber = Idle"

definition wake_reader :: "(waiter, 'q) cxx_queue \<Rightarrow> ('q, 'd) chan \<Rightarrow> ('q, 'd) chan" where
  "wake_reader Q c =
     (let ((r, w), b) = EFiberBlocker_post Q (ch_reader c)
      in case w of Some (WFiber g) \<Rightarrow> c\<lparr>ch_reader := b, ch_woken := insert g (ch_woken c), ch_blocked := (ch_blocked c)(g := None)\<rparr>
         | _ \<Rightarrow> c\<lparr>ch_reader := b\<rparr>)"

definition wake_writer :: "(waiter, 'q) cxx_queue \<Rightarrow> ('q, 'd) chan \<Rightarrow> ('q, 'd) chan" where
  "wake_writer Q c =
     (let ((r, w), b) = EFiberBlocker_post Q (ch_writer c)
      in case w of Some (WFiber g) \<Rightarrow> c\<lparr>ch_writer := b, ch_woken := insert g (ch_woken c), ch_blocked := (ch_blocked c)(g := None)\<rparr>
         | _ \<Rightarrow> c\<lparr>ch_writer := b\<rparr>)"

text \<open>The next atomic step of fiber \<open>f\<close>; \<open>None\<close> if it has none.\<close>

fun chan_act :: "(waiter, 'q) cxx_queue \<Rightarrow> ('e, 'd) cxx_queue \<Rightarrow> fptr \<Rightarrow> 'e chan_pc \<Rightarrow> ('q, 'd) chan \<Rightarrow>
    ('e chan_pc \<times> ('q, 'd) chan) option" where
  "chan_act Q D f Idle c = None"
| "chan_act Q D f (Done r) c = None"
  \<comment> \<open>read\<close>
| "chan_act Q D f ReadCalled c = Some (ReadWait, wake_writer Q c)"
| "chan_act Q D f ReadWait c =
     (let (ok, b) = EFiberBlocker_tryWait (ch_reader c)
      in Some (if ok then (ReadPoll, c\<lparr>ch_reader := b\<rparr>)
               else (ReadYielded, c\<lparr>ch_reader := b, ch_blocked := (ch_blocked c)(f \<mapsto> ReaderB)\<rparr>)))"
| "chan_act Q D f ReadYielded c =
     (let (hung, b) = EFiberBlocker_swapOut Q f (ch_reader c)
      in Some (if hung then ReadParked else ReadPoll, c\<lparr>ch_reader := b\<rparr>))"
| "chan_act Q D f ReadParked c =
     (if f \<in> ch_woken c then Some (ReadPoll, c\<lparr>ch_woken := ch_woken c - {f}\<rparr>) else None)"
| "chan_act Q D f ReadPoll c =
     (let (v, d) = cxq_poll D (ch_data c) in Some (Done (RdRes v), c\<lparr>ch_data := d\<rparr>))"
  \<comment> \<open>write\<close>
| "chan_act Q D f (WriteCalled e) c =
     (let (ok, b) = EFiberBlocker_tryWait (ch_writer c)
      in Some (if ok then (WriteAdd e, c\<lparr>ch_writer := b\<rparr>)
               else (WriteYielded e, c\<lparr>ch_writer := b, ch_blocked := (ch_blocked c)(f \<mapsto> WriterB)\<rparr>)))"
| "chan_act Q D f (WriteYielded e) c =
     (let (hung, b) = EFiberBlocker_swapOut Q f (ch_writer c)
      in Some (if hung then WriteParked e else WriteAdd e, c\<lparr>ch_writer := b\<rparr>))"
| "chan_act Q D f (WriteParked e) c =
     (if f \<in> ch_woken c then Some (WriteAdd e, c\<lparr>ch_woken := ch_woken c - {f}\<rparr>) else None)"
| "chan_act Q D f (WriteAdd e) c = Some (WritePost, c\<lparr>ch_data := cxq_add D e (ch_data c)\<rparr>)"
| "chan_act Q D f WritePost c = Some (Done WrRes, wake_reader Q c)"
  \<comment> \<open>tryRead\<close>
| "chan_act Q D f TryReadCalled c = Some (TryReadLoop, wake_writer Q c)"
| "chan_act Q D f TryReadLoop c =
     (let (ok, b) = EFiberBlocker_tryWait (ch_reader c)
      in Some (if ok then TryReadPoll else TryReadGiveUp, c\<lparr>ch_reader := b\<rparr>))"
| "chan_act Q D f TryReadGiveUp c =
     (let (ok, b) = EFiberBlocker_tryWait (ch_writer c)
      in Some (if ok then Done (TrRes None) else Yielded InTryRead, c\<lparr>ch_writer := b\<rparr>))"
| "chan_act Q D f TryReadPoll c =
     (let (v, d) = cxq_poll D (ch_data c) in Some (Done (TrRes (Some v)), c\<lparr>ch_data := d\<rparr>))"
  \<comment> \<open>tryWrite\<close>
| "chan_act Q D f (TryWriteCalled e) c =
     (let (ok, b) = EFiberBlocker_tryWait (ch_writer c)
      in Some (if ok then TryWriteAdd e else Done (TwRes False), c\<lparr>ch_writer := b\<rparr>))"
| "chan_act Q D f (TryWriteAdd e) c = Some (TryWritePost, c\<lparr>ch_data := cxq_add D e (ch_data c)\<rparr>)"
| "chan_act Q D f TryWritePost c = Some (Done (TwRes True), wake_reader Q c)"
  \<comment> \<open>the scheduler after a yield\<close>
| "chan_act Q D f (Yielded y) c =
     (case ch_blocked c f of
        None \<Rightarrow> Some (after_yield y, c)
      | Some ReaderB \<Rightarrow>
          (let (hung, b) = EFiberBlocker_swapOut Q f (ch_reader c)
           in Some (if hung then LateParked ReaderB y else after_yield y, c\<lparr>ch_reader := b\<rparr>))
      | Some WriterB \<Rightarrow>
          (let (hung, b) = EFiberBlocker_swapOut Q f (ch_writer c)
           in Some (if hung then LateParked WriterB y else after_yield y, c\<lparr>ch_writer := b\<rparr>)))"
| "chan_act Q D f (LateParked b y) c =
     (if f \<in> ch_woken c then Some (after_yield y, c\<lparr>ch_woken := ch_woken c - {f}\<rparr>) else None)"

definition EFiberChannel_isEmpty :: "('q, 'd) chan \<Rightarrow> bool" where
  "EFiberChannel_isEmpty c = (\<not> EFiberBlocker_isWaking (ch_reader c))"

section \<open>The interleaved steps\<close>

fun entry :: "'e chan_pc \<Rightarrow> bool" where
  "entry ReadCalled = True" | "entry (WriteCalled e) = True" | "entry TryReadCalled = True"
| "entry (TryWriteCalled e) = True" | "entry (Yielded InFiber) = True" | "entry _ = False"

fun resting :: "'e chan_pc \<Rightarrow> bool" where
  "resting Idle = True" | "resting (Done r) = True" | "resting _ = False"

text \<open>\<open>calls f pc\<close>: the code of fiber \<open>f\<close> may contain the call (or the yield) that \<open>pc\<close> is the beginning of.\<close>

inductive chan_step :: "(waiter, 'q) cxx_queue \<Rightarrow> ('e, 'd) cxx_queue \<Rightarrow> fptr set \<Rightarrow> (fptr \<Rightarrow> 'e chan_pc \<Rightarrow> bool) \<Rightarrow>
    (fptr \<Rightarrow> 'e chan_pc) \<times> ('q, 'd) chan \<Rightarrow> (fptr \<Rightarrow> 'e chan_pc) \<times> ('q, 'd) chan \<Rightarrow> bool"
  for Q D Fs calls where
  call: "f \<in> Fs \<Longrightarrow> resting (pcs f) \<Longrightarrow> entry pc \<Longrightarrow> calls f pc \<Longrightarrow> chan_step Q D Fs calls (pcs, c) (pcs(f := pc), c)"
| act: "f \<in> Fs \<Longrightarrow> chan_act Q D f (pcs f) c = Some (pc, c') \<Longrightarrow> chan_step Q D Fs calls (pcs, c) (pcs(f := pc), c')"

inductive_cases chan_stepE: "chan_step Q D Fs calls z z'"

inductive chan_reach :: "(waiter, 'q) cxx_queue \<Rightarrow> ('e, 'd) cxx_queue \<Rightarrow> fptr set \<Rightarrow> (fptr \<Rightarrow> 'e chan_pc \<Rightarrow> bool) \<Rightarrow>
    u32 \<Rightarrow> (fptr \<Rightarrow> 'e chan_pc) \<times> ('q, 'd) chan \<Rightarrow> bool"
  for Q D Fs calls cap where
  init: "chan_reach Q D Fs calls cap (\<lambda>_. Idle, EFiberChannel_ctor Q D cap)"
| step: "chan_reach Q D Fs calls cap z \<Longrightarrow> chan_step Q D Fs calls z z' \<Longrightarrow> chan_reach Q D Fs calls cap z'"

text \<open>No fiber both waits (\<open>read\<close>, \<open>write\<close>) and yields (\<open>tryRead\<close>, or on its own).\<close>

definition waits_here :: "(fptr \<Rightarrow> 'e chan_pc \<Rightarrow> bool) \<Rightarrow> fptr \<Rightarrow> bool" where
  "waits_here calls f \<longleftrightarrow> calls f ReadCalled \<or> (\<exists>e. calls f (WriteCalled e))"

definition yields_here :: "(fptr \<Rightarrow> 'e chan_pc \<Rightarrow> bool) \<Rightarrow> fptr \<Rightarrow> bool" where
  "yields_here calls f \<longleftrightarrow> calls f TryReadCalled \<or> calls f (Yielded InFiber)"

section \<open>Accounting\<close>

text \<open>
  \<open>w_out\<close>: a reader between its \<open>writer.wakeUp\<close> and its poll. \<open>w_rd\<close>: a reader that owns an element
  or waits for one. \<open>w_add\<close>: an element that has been added but not announced. \<open>w_wr\<close>: a writer that
  owns a place or waits for one.
\<close>

fun w_out :: "'e chan_pc \<Rightarrow> nat" where
  "w_out ReadWait = 1" | "w_out ReadYielded = 1" | "w_out ReadParked = 1" | "w_out ReadPoll = 1"
| "w_out TryReadLoop = 1" | "w_out TryReadGiveUp = 1" | "w_out TryReadPoll = 1"
| "w_out (Yielded InTryRead) = 1" | "w_out (LateParked b InTryRead) = 1" | "w_out _ = 0"

fun w_rd :: "'e chan_pc \<Rightarrow> nat" where
  "w_rd ReadParked = 1" | "w_rd ReadPoll = 1" | "w_rd TryReadPoll = 1" | "w_rd (LateParked ReaderB y) = 1" | "w_rd _ = 0"

fun w_add :: "'e chan_pc \<Rightarrow> nat" where
  "w_add WritePost = 1" | "w_add TryWritePost = 1" | "w_add _ = 0"

fun w_wr :: "'e chan_pc \<Rightarrow> nat" where
  "w_wr (WriteParked e) = 1" | "w_wr (WriteAdd e) = 1" | "w_wr (TryWriteAdd e) = 1" | "w_wr (LateParked WriterB y) = 1"
| "w_wr _ = 0"

abbreviation total :: "('e chan_pc \<Rightarrow> nat) \<Rightarrow> fptr set \<Rightarrow> (fptr \<Rightarrow> 'e chan_pc) \<Rightarrow> nat" where
  "total w Fs pcs \<equiv> (\<Sum>f\<in>Fs. w (pcs f))"

fun rd_parked :: "'e chan_pc \<Rightarrow> bool" where
  "rd_parked ReadParked = True" | "rd_parked (LateParked ReaderB y) = True" | "rd_parked _ = False"

fun wr_parked :: "'e chan_pc \<Rightarrow> bool" where
  "wr_parked (WriteParked e) = True" | "wr_parked (LateParked WriterB y) = True" | "wr_parked _ = False"

text \<open>The waiters in a queue: parked fibers that have not been resumed, each of them once.\<close>

definition queued :: "('e chan_pc \<Rightarrow> bool) \<Rightarrow> fptr set \<Rightarrow> (fptr \<Rightarrow> 'e chan_pc) \<Rightarrow> fptr set \<Rightarrow> waiter list \<Rightarrow> bool" where
  "queued P Fs pcs woken ws \<longleftrightarrow> distinct ws \<and> set ws = WFiber ` {f \<in> Fs. P (pcs f) \<and> f \<notin> woken}"

text \<open>\<open>lr\<close> and \<open>lw\<close> are the permits of the reader and of the writer that have been taken by yields.\<close>

definition chan_acc :: "(waiter, 'q) cxx_queue \<Rightarrow> ('q \<Rightarrow> waiter list) \<Rightarrow> ('d \<Rightarrow> 'e list) \<Rightarrow>
    fptr set \<Rightarrow> nat \<Rightarrow> (fptr \<Rightarrow> 'e chan_pc) \<Rightarrow> ('q, 'd) chan \<Rightarrow>
    nat \<Rightarrow> nat \<Rightarrow> nat \<Rightarrow> waiter list \<Rightarrow> nat \<Rightarrow> waiter list \<Rightarrow> bool" where
  "chan_acc Q view dview Fs cap pcs c lr lw pr rq pw wq \<longleftrightarrow>
     blk_sem Q view (ch_reader c) pr (2 ^ 32 - 1) rq \<and> blk_sem Q view (ch_writer c) pw (2 ^ 32 - 1) wq \<and>
     queued rd_parked Fs pcs (ch_woken c) rq \<and> queued wr_parked Fs pcs (ch_woken c) wq \<and>
     (\<forall>f\<in>ch_woken c. rd_parked (pcs f) \<or> wr_parked (pcs f)) \<and>
     length (dview (ch_data c)) + length rq = pr + total w_rd Fs pcs + total w_add Fs pcs + lr \<and>
     pw + total w_wr Fs pcs + length (dview (ch_data c)) + lw = cap + total w_out Fs pcs + length wq"

definition chan_inv :: "(waiter, 'q) cxx_queue \<Rightarrow> ('q \<Rightarrow> waiter list) \<Rightarrow> ('d \<Rightarrow> 'e list) \<Rightarrow>
    fptr set \<Rightarrow> nat \<Rightarrow> nat \<Rightarrow> nat \<Rightarrow> (fptr \<Rightarrow> 'e chan_pc) \<times> ('q, 'd) chan \<Rightarrow> bool" where
  "chan_inv Q view dview Fs cap lr lw z \<longleftrightarrow> (\<exists>pr rq pw wq. chan_acc Q view dview Fs cap (fst z) (snd z) lr lw pr rq pw wq)"

text \<open>The accounts do not mention the states of the fibers.\<close>

lemma chan_inv_blocked [simp]:
  "chan_inv Q view dview Fs cap lr lw (pcs, c\<lparr>ch_blocked := x\<rparr>) \<longleftrightarrow> chan_inv Q view dview Fs cap lr lw (pcs, c)"
  by (simp add: chan_inv_def chan_acc_def)

lemma total_upd:
  assumes "finite Fs" "f \<in> Fs"
  shows "total w Fs (pcs(f := pc)) + w (pcs f) = total w Fs pcs + w pc"
proof -
  have "(\<Sum>g\<in>Fs - {f}. w ((pcs(f := pc)) g)) = (\<Sum>g\<in>Fs - {f}. w (pcs g))"
    by (rule sum.cong) auto
  then show ?thesis
    using sum.remove [OF assms, of "\<lambda>g. w ((pcs(f := pc)) g)"] sum.remove [OF assms, of "\<lambda>g. w (pcs g)"]
    by simp
qed

text \<open>The parked ones are counted by \<open>w_rd\<close> and \<open>w_wr\<close>.\<close>

lemma queued_length:
  assumes "finite Fs" "queued P Fs pcs woken ws" "\<And>pc. P pc \<Longrightarrow> w pc = (1::nat)"
  shows "length ws \<le> total w Fs pcs"
proof -
  let ?A = "{f \<in> Fs. P (pcs f) \<and> f \<notin> woken}"
  have "length ws = card (set ws)" using assms(2) unfolding queued_def by (metis distinct_card)
  also have "\<dots> = card ?A"
    using assms(2) by (simp add: queued_def card_image inj_on_def)
  also have "\<dots> = (\<Sum>f\<in>?A. w (pcs f))" using assms(3) by simp
  also have "\<dots> \<le> total w Fs pcs" by (rule sum_mono2) (use assms(1) in auto)
  finally show ?thesis .
qed

text \<open>A reader past its wait has an element in the queue waiting for it.\<close>

lemma queued_length_less:
  assumes "finite Fs" "queued P Fs pcs woken ws" "\<And>pc. P pc \<Longrightarrow> w pc = (1::nat)"
    and "f \<in> Fs" "\<not> P (pcs f)" "w (pcs f) = 1"
  shows "length ws + 1 \<le> total w Fs pcs"
proof -
  have "queued P (Fs - {f}) pcs woken ws"
    using assms(2,5) unfolding queued_def by auto
  from queued_length [OF _ this assms(3)] have "length ws \<le> total w (Fs - {f}) pcs" using assms(1) by simp
  then show ?thesis using sum.remove [OF assms(1,4), of "\<lambda>g. w (pcs g)"] assms(6) by simp
qed

section \<open>How the waiters change\<close>

abbreviation parkedpc :: "'e chan_pc \<Rightarrow> bool" where
  "parkedpc pc \<equiv> rd_parked pc \<or> wr_parked pc"

lemma queued_same:
  assumes "queued P Fs pcs woken ws" "P pc = P (pcs f)"
  shows "queued P Fs (pcs(f := pc)) woken ws"
  using assms unfolding queued_def by (auto split: if_splits)

lemma queued_snoc:
  assumes "queued P Fs pcs woken ws" "f \<in> Fs" "f \<notin> woken" "\<not> P (pcs f)" "P pc"
  shows "queued P Fs (pcs(f := pc)) woken (ws @ [WFiber f])"
  using assms unfolding queued_def by auto

lemma queued_resume:
  assumes "queued P Fs pcs woken ws" "f \<in> woken" "\<not> P pc"
  shows "queued P Fs (pcs(f := pc)) (woken - {f}) ws"
  using assms unfolding queued_def by (auto split: if_splits)

lemma queued_woken:
  assumes "queued P Fs pcs woken (WFiber g # ws)"
  shows "queued P Fs pcs (insert g woken) ws" "P (pcs g)" "g \<in> Fs"
  using assms unfolding queued_def by (auto simp: set_eq_iff)

lemma queued_other:
  assumes "queued P Fs pcs woken ws" "\<not> P (pcs g)"
  shows "queued P Fs pcs (insert g woken) ws"
  using assms unfolding queued_def by auto

lemma queued_fiber:
  "queued P Fs pcs woken (w # ws) \<Longrightarrow> \<exists>g. w = WFiber g"
  unfolding queued_def by auto

lemma parked_excl: "rd_parked pc \<Longrightarrow> \<not> wr_parked pc"
  by (induction pc rule: rd_parked.induct) simp_all

text \<open>The effect of a wake-up, whichever of the two blockers it goes to.\<close>

lemma wake_reader_eff:
  assumes b: "blk_sem Q view (ch_reader c) pr (2 ^ 32 - 1) rq" and q: "queued rd_parked Fs pcs (ch_woken c) rq"
    and o: "queued wr_parked Fs pcs (ch_woken c) wq" and p: "\<forall>f\<in>ch_woken c. parkedpc (pcs f)"
    and lim: "rq = [] \<Longrightarrow> pr < 2 ^ 32 - 1"
  shows "\<exists>pr' rq'. blk_sem Q view (ch_reader (wake_reader Q c)) pr' (2 ^ 32 - 1) rq' \<and>
     queued rd_parked Fs pcs (ch_woken (wake_reader Q c)) rq' \<and>
     queued wr_parked Fs pcs (ch_woken (wake_reader Q c)) wq \<and>
     (\<forall>f\<in>ch_woken (wake_reader Q c). parkedpc (pcs f)) \<and>
     ch_writer (wake_reader Q c) = ch_writer c \<and> ch_data (wake_reader Q c) = ch_data c \<and>
     pr' + length rq = pr + 1 + length rq'"
proof (cases rq)
  case Nil
  obtain b' where "EFiberBlocker_post Q (ch_reader c) = ((True, None), b')"
      "blk_sem Q view b' (pr + 1) (2 ^ 32 - 1) []"
    using blk.wake_store b lim Nil by blast
  then show ?thesis using q o p Nil
    by (intro exI [of _ "pr + 1"] exI [of _ "[]"]) (simp add: wake_reader_def)
next
  case (Cons w rq')
  then obtain g where g: "w = WFiber g" using queued_fiber q by blast
  obtain b' where "EFiberBlocker_post Q (ch_reader c) = ((True, Some (WFiber g)), b')"
      "blk_sem Q view b' pr (2 ^ 32 - 1) rq'"
    using post_first b Cons g by blast
  moreover have "queued rd_parked Fs pcs (insert g (ch_woken c)) rq'" "rd_parked (pcs g)"
    using queued_woken q Cons g by blast+
  ultimately show ?thesis using o p Cons queued_other [OF o] parked_excl by (fastforce simp: wake_reader_def)
qed

lemma wake_writer_eff:
  assumes b: "blk_sem Q view (ch_writer c) pw (2 ^ 32 - 1) wq" and q: "queued wr_parked Fs pcs (ch_woken c) wq"
    and o: "queued rd_parked Fs pcs (ch_woken c) rq" and p: "\<forall>f\<in>ch_woken c. parkedpc (pcs f)"
    and lim: "wq = [] \<Longrightarrow> pw < 2 ^ 32 - 1"
  shows "\<exists>pw' wq'. blk_sem Q view (ch_writer (wake_writer Q c)) pw' (2 ^ 32 - 1) wq' \<and>
     queued wr_parked Fs pcs (ch_woken (wake_writer Q c)) wq' \<and>
     queued rd_parked Fs pcs (ch_woken (wake_writer Q c)) rq \<and>
     (\<forall>f\<in>ch_woken (wake_writer Q c). parkedpc (pcs f)) \<and>
     ch_reader (wake_writer Q c) = ch_reader c \<and> ch_data (wake_writer Q c) = ch_data c \<and>
     pw' + length wq = pw + 1 + length wq'"
proof (cases wq)
  case Nil
  obtain b' where "EFiberBlocker_post Q (ch_writer c) = ((True, None), b')"
      "blk_sem Q view b' (pw + 1) (2 ^ 32 - 1) []"
    using blk.wake_store b lim Nil by blast
  then show ?thesis using q o p Nil
    by (intro exI [of _ "pw + 1"] exI [of _ "[]"]) (simp add: wake_writer_def)
next
  case (Cons w wq')
  then obtain g where g: "w = WFiber g" using queued_fiber q by blast
  obtain b' where "EFiberBlocker_post Q (ch_writer c) = ((True, Some (WFiber g)), b')"
      "blk_sem Q view b' pw (2 ^ 32 - 1) wq'"
    using post_first b Cons g by blast
  moreover have "queued wr_parked Fs pcs (insert g (ch_woken c)) wq'" "wr_parked (pcs g)"
    using queued_woken q Cons g by blast+
  ultimately show ?thesis using o p Cons queued_other [OF o] parked_excl by (fastforce simp: wake_writer_def)
qed

section \<open>Every step keeps the accounts\<close>

lemma acc_step:
  assumes acc: "chan_acc Q view dview Fs cap pcs c lr lw pr rq pw wq" and f: "finite Fs" "f \<in> Fs"
    and r: "blk_sem Q view (ch_reader c') pr' (2 ^ 32 - 1) rq'" and w: "blk_sem Q view (ch_writer c') pw' (2 ^ 32 - 1) wq'"
    and rq: "queued rd_parked Fs (pcs(f := pc)) (ch_woken c') rq'" and wq: "queued wr_parked Fs (pcs(f := pc)) (ch_woken c') wq'"
    and wo: "\<forall>g\<in>ch_woken c'. parkedpc ((pcs(f := pc)) g)"
    and rb: "length (dview (ch_data c')) + length rq' + w_rd (pcs f) + w_add (pcs f) + pr + lr =
      length (dview (ch_data c)) + length rq + w_rd pc + w_add pc + pr' + lr'"
    and wb: "pw' + w_wr pc + length (dview (ch_data c')) + w_out (pcs f) + length wq + lw' =
      pw + w_wr (pcs f) + length (dview (ch_data c)) + w_out pc + length wq' + lw"
  shows "chan_acc Q view dview Fs cap (pcs(f := pc)) c' lr' lw' pr' rq' pw' wq'"
proof -
  note t = total_upd [OF f, of w_rd pcs pc] total_upd [OF f, of w_add pcs pc] total_upd [OF f, of w_wr pcs pc]
    total_upd [OF f, of w_out pcs pc]
  have "length (dview (ch_data c')) + length rq' =
      pr' + total w_rd Fs (pcs(f := pc)) + total w_add Fs (pcs(f := pc)) + lr'"
    using acc rb t unfolding chan_acc_def by linarith
  moreover have "pw' + total w_wr Fs (pcs(f := pc)) + length (dview (ch_data c')) + lw' =
      cap + total w_out Fs (pcs(f := pc)) + length wq'"
    using acc wb t unfolding chan_acc_def by linarith
  ultimately show ?thesis using r w rq wq wo unfolding chan_acc_def by blast
qed

text \<open>The bound on the stored permits, which keeps the wake-ups below the limit.\<close>

lemma w_out_le: "total w_out Fs pcs \<le> card Fs" if "finite Fs"
proof -
  have "w_out pc \<le> 1" for pc :: "'b chan_pc" by (induction pc rule: w_out.induct) simp_all
  then have "total w_out Fs pcs \<le> (\<Sum>f\<in>Fs. 1)" by (intro sum_mono) simp
  then show ?thesis by simp
qed

lemma acc_limits:
  assumes "chan_acc Q view dview Fs cap pcs c lr lw pr rq pw wq" "finite Fs" "cap + card Fs < 2 ^ 32 - 1"
  shows "rq = [] \<Longrightarrow> pr < 2 ^ 32 - 1" and "wq = [] \<Longrightarrow> pw < 2 ^ 32 - 1"
proof -
  have q: "length wq \<le> total w_wr Fs pcs"
    by (rule queued_length [of Fs wr_parked pcs "ch_woken c"])
      (use assms in \<open>auto simp: chan_acc_def elim: wr_parked.elims\<close>)
  show "rq = [] \<Longrightarrow> pr < 2 ^ 32 - 1" "wq = [] \<Longrightarrow> pw < 2 ^ 32 - 1"
    using assms(1,3) w_out_le [OF assms(2), of pcs] q unfolding chan_acc_def by auto
qed

text \<open>The two kinds of wake-up, the three ways to get a permit, and resumption.\<close>

lemma step_wake_reader:
  assumes acc: "chan_acc Q view dview Fs cap pcs c lr lw pr rq pw wq" and f: "finite Fs" "f \<in> Fs"
    and lim: "cap + card Fs < 2 ^ 32 - 1"
    and p: "\<not> parkedpc (pcs f)" "\<not> parkedpc pc"
    and w: "w_rd pc = w_rd (pcs f)" "w_add (pcs f) = w_add pc + 1" "w_wr pc = w_wr (pcs f)" "w_out pc = w_out (pcs f)"
  shows "chan_inv Q view dview Fs cap lr lw (pcs(f := pc), wake_reader Q c)"
proof -
  obtain pr' rq' where e: "blk_sem Q view (ch_reader (wake_reader Q c)) pr' (2 ^ 32 - 1) rq'"
     "queued rd_parked Fs pcs (ch_woken (wake_reader Q c)) rq'"
     "queued wr_parked Fs pcs (ch_woken (wake_reader Q c)) wq"
     "\<forall>f\<in>ch_woken (wake_reader Q c). parkedpc (pcs f)"
     "ch_writer (wake_reader Q c) = ch_writer c" "ch_data (wake_reader Q c) = ch_data c"
     "pr' + length rq = pr + 1 + length rq'"
    using wake_reader_eff [of Q view c pr rq Fs pcs wq] acc acc_limits [OF acc f(1) lim] unfolding chan_acc_def by blast
  have "chan_acc Q view dview Fs cap (pcs(f := pc)) (wake_reader Q c) lr lw pr' rq' pw wq"
  proof (rule acc_step [OF acc f e(1)])
    show "blk_sem Q view (ch_writer (wake_reader Q c)) pw (2 ^ 32 - 1) wq"
      using acc unfolding chan_acc_def e(5) by blast
    show "queued rd_parked Fs (pcs(f := pc)) (ch_woken (wake_reader Q c)) rq'"
      by (rule queued_same [OF e(2)]) (use p in simp)
    show "queued wr_parked Fs (pcs(f := pc)) (ch_woken (wake_reader Q c)) wq"
      by (rule queued_same [OF e(3)]) (use p in simp)
    show "\<forall>g\<in>ch_woken (wake_reader Q c). parkedpc ((pcs(f := pc)) g)"
      using e(4) p(1) by auto
  qed (use e(6,7) w in simp_all)
  then show ?thesis unfolding chan_inv_def by auto
qed

lemma step_wake_writer:
  assumes acc: "chan_acc Q view dview Fs cap pcs c lr lw pr rq pw wq" and f: "finite Fs" "f \<in> Fs"
    and lim: "cap + card Fs < 2 ^ 32 - 1"
    and p: "\<not> parkedpc (pcs f)" "\<not> parkedpc pc"
    and w: "w_rd pc = w_rd (pcs f)" "w_add (pcs f) = w_add pc" "w_wr pc = w_wr (pcs f)" "w_out pc = w_out (pcs f) + 1"
  shows "chan_inv Q view dview Fs cap lr lw (pcs(f := pc), wake_writer Q c)"
proof -
  obtain pw' wq' where e: "blk_sem Q view (ch_writer (wake_writer Q c)) pw' (2 ^ 32 - 1) wq'"
     "queued wr_parked Fs pcs (ch_woken (wake_writer Q c)) wq'"
     "queued rd_parked Fs pcs (ch_woken (wake_writer Q c)) rq"
     "\<forall>f\<in>ch_woken (wake_writer Q c). parkedpc (pcs f)"
     "ch_reader (wake_writer Q c) = ch_reader c" "ch_data (wake_writer Q c) = ch_data c"
     "pw' + length wq = pw + 1 + length wq'"
    using wake_writer_eff [of Q view c pw wq Fs pcs rq] acc acc_limits [OF acc f(1) lim] unfolding chan_acc_def by blast
  have "chan_acc Q view dview Fs cap (pcs(f := pc)) (wake_writer Q c) lr lw pr rq pw' wq'"
  proof (rule acc_step [OF acc f _ e(1)])
    show "blk_sem Q view (ch_reader (wake_writer Q c)) pr (2 ^ 32 - 1) rq"
      using acc unfolding chan_acc_def e(5) by blast
    show "queued rd_parked Fs (pcs(f := pc)) (ch_woken (wake_writer Q c)) rq"
      by (rule queued_same [OF e(3)]) (use p in simp)
    show "queued wr_parked Fs (pcs(f := pc)) (ch_woken (wake_writer Q c)) wq'"
      by (rule queued_same [OF e(2)]) (use p in simp)
    show "\<forall>g\<in>ch_woken (wake_writer Q c). parkedpc ((pcs(f := pc)) g)"
      using e(4) p(1) by auto
  qed (use e(6,7) w in simp_all)
  then show ?thesis unfolding chan_inv_def by auto
qed

lemma acc_parts:
  assumes "chan_acc Q view dview Fs cap pcs c lr lw pr rq pw wq"
  shows "blk_sem Q view (ch_reader c) pr (2 ^ 32 - 1) rq" "blk_sem Q view (ch_writer c) pw (2 ^ 32 - 1) wq"
    "queued rd_parked Fs pcs (ch_woken c) rq" "queued wr_parked Fs pcs (ch_woken c) wq"
    "\<forall>f\<in>ch_woken c. parkedpc (pcs f)"
  using assms unfolding chan_acc_def by blast+

text \<open>A step that changes no waiter: new blockers and new data only.\<close>

lemma step_plain:
  assumes acc: "chan_acc Q view dview Fs cap pcs c lr lw pr rq pw wq" and f: "finite Fs" "f \<in> Fs"
    and r: "blk_sem Q view (ch_reader c') pr' (2 ^ 32 - 1) rq" and w: "blk_sem Q view (ch_writer c') pw' (2 ^ 32 - 1) wq"
    and wo: "ch_woken c' = ch_woken c" and p: "\<not> parkedpc (pcs f)" "\<not> parkedpc pc"
    and rb: "length (dview (ch_data c')) + w_rd (pcs f) + w_add (pcs f) + pr + lr =
      length (dview (ch_data c)) + w_rd pc + w_add pc + pr' + lr'"
    and wb: "pw' + w_wr pc + length (dview (ch_data c')) + w_out (pcs f) + lw' =
      pw + w_wr (pcs f) + length (dview (ch_data c)) + w_out pc + lw"
  shows "chan_inv Q view dview Fs cap lr' lw' (pcs(f := pc), c')"
proof -
  note a = acc_parts [OF acc]
  have "chan_acc Q view dview Fs cap (pcs(f := pc)) c' lr' lw' pr' rq pw' wq"
  proof (rule acc_step [OF acc f r w])
    show "queued rd_parked Fs (pcs(f := pc)) (ch_woken c') rq"
      unfolding wo by (rule queued_same [OF a(3)]) (use p in simp)
    show "queued wr_parked Fs (pcs(f := pc)) (ch_woken c') wq"
      unfolding wo by (rule queued_same [OF a(4)]) (use p in simp)
    show "\<forall>g\<in>ch_woken c'. parkedpc ((pcs(f := pc)) g)"
      unfolding wo using a(5) p(1) by auto
  qed (use rb wb in simp_all)
  then show ?thesis unfolding chan_inv_def by auto
qed

lemma step_resume:
  assumes acc: "chan_acc Q view dview Fs cap pcs c lr lw pr rq pw wq" and f: "finite Fs" "f \<in> Fs" "f \<in> ch_woken c"
    and p: "\<not> parkedpc pc"
    and w: "w_rd (pcs f) + lr = w_rd pc + lr'" "w_add pc = w_add (pcs f)" "w_wr pc + lw' = w_wr (pcs f) + lw"
      "w_out pc = w_out (pcs f)"
  shows "chan_inv Q view dview Fs cap lr' lw' (pcs(f := pc), c\<lparr>ch_woken := ch_woken c - {f}\<rparr>)"
proof -
  note a = acc_parts [OF acc]
  have "chan_acc Q view dview Fs cap (pcs(f := pc)) (c\<lparr>ch_woken := ch_woken c - {f}\<rparr>) lr' lw' pr rq pw wq"
  proof (rule acc_step [OF acc f(1,2)])
    show "queued rd_parked Fs (pcs(f := pc)) (ch_woken (c\<lparr>ch_woken := ch_woken c - {f}\<rparr>)) rq"
      using queued_resume [OF a(3) f(3)] p by simp
    show "queued wr_parked Fs (pcs(f := pc)) (ch_woken (c\<lparr>ch_woken := ch_woken c - {f}\<rparr>)) wq"
      using queued_resume [OF a(4) f(3)] p by simp
  qed (use a w in auto)
  then show ?thesis unfolding chan_inv_def by auto
qed

text \<open>A reader that is past its wait finds an element.\<close>

lemma acc_nonempty:
  assumes "chan_acc Q view dview Fs cap pcs c lr lw pr rq pw wq" "finite Fs" "f \<in> Fs"
    and "w_rd (pcs f) = 1" "\<not> rd_parked (pcs f)"
  shows "dview (ch_data c) \<noteq> []"
proof -
  have "length rq + 1 \<le> total w_rd Fs pcs"
    by (rule queued_length_less [of Fs rd_parked pcs "ch_woken c"])
      (use assms in \<open>auto simp: chan_acc_def elim: rd_parked.elims\<close>)
  then have "length (dview (ch_data c)) \<noteq> 0" using assms(1) unfolding chan_acc_def by linarith
  then show ?thesis by simp
qed

lemma acc_poll:
  assumes "cxx_fifo D dview" "chan_acc Q view dview Fs cap pcs c lr lw pr rq pw wq" "finite Fs" "f \<in> Fs"
    and "w_rd (pcs f) = 1" "\<not> rd_parked (pcs f)"
  shows "\<exists>e d. cxq_poll D (ch_data c) = (Some e, d) \<and> dview (ch_data c) = e # dview d"
  using acc_nonempty [OF assms(2-6)] cxx_poll_cons [OF assms(1)] cxx_poll_cons_view [OF assms(1)]
  by (metis list.exhaust prod.collapse)

lemma take_cases:
  assumes "blk_sem Q view b p l ws"
  obtains b' where "EFiberBlocker_tryWait b = (True, b')" "0 < p" "blk_sem Q view b' (p - 1) l ws"
  | "EFiberBlocker_tryWait b = (False, b)" "p = 0"
proof (cases "p = 0")
  case True
  then have "EFiberBlocker_tryWait b = (False, b)"
    using blk_semD(6) [OF assms] by (simp add: EFiberBlocker_tryWait_def)
  with that(2) True show ?thesis by blast
next
  case False
  then show ?thesis using blk_take_law [OF assms] that(1) by auto
qed

lemma swapOut_cases:
  assumes "blk_sem Q view b p l ws"
  obtains b' where "EFiberBlocker_swapOut Q f b = (False, b')" "0 < p" "blk_sem Q view b' (p - 1) l ws"
  | b' where "EFiberBlocker_swapOut Q f b = (True, b')" "p = 0" "blk_sem Q view b' 0 l (ws @ [WFiber f])"
proof -
  obtain b' where b': "EFiberBlocker_swapOut Q f b = (p = 0, b')"
      "if p = 0 then blk_sem Q view b' 0 l (ws @ [WFiber f]) else blk_sem Q view b' (p - 1) l ws"
    using blk_park_law [OF assms, of "WFiber f"] by (auto simp: blk_park_def)
  show ?thesis using that b' by (cases "p = 0") auto
qed

text \<open>Taking a permit of the reader or of the writer: at once, or by the scheduler's \<open>swapOut\<close>.\<close>

lemma step_take_reader:
  assumes acc: "chan_acc Q view dview Fs cap pcs c lr lw pr rq pw wq" and f: "finite Fs" "f \<in> Fs"
    and p: "\<not> parkedpc (pcs f)" "\<not> parkedpc yes" "\<not> parkedpc no"
    and y: "w_rd yes = w_rd (pcs f) + 1" "w_add yes = w_add (pcs f)" "w_wr yes = w_wr (pcs f)" "w_out yes = w_out (pcs f)"
    and n: "w_rd no = w_rd (pcs f)" "w_add no = w_add (pcs f)" "w_wr no = w_wr (pcs f)" "w_out no = w_out (pcs f)"
    and e: "EFiberBlocker_tryWait (ch_reader c) = (ok, b)"
  shows "chan_inv Q view dview Fs cap lr lw (pcs(f := if ok then yes else no), c\<lparr>ch_reader := b\<rparr>)"
proof (rule take_cases [OF acc_parts(1) [OF acc]])
  fix b' assume "EFiberBlocker_tryWait (ch_reader c) = (True, b')" "0 < pr" "blk_sem Q view b' (pr - 1) (2 ^ 32 - 1) rq"
  then show ?thesis using e y p acc_parts(2) [OF acc]
    by (intro step_plain [OF acc f, of _ "pr - 1" pw]) simp_all
next
  assume "EFiberBlocker_tryWait (ch_reader c) = (False, ch_reader c)" "pr = 0"
  then show ?thesis using e n p acc_parts(1,2) [OF acc]
    by (intro step_plain [OF acc f, of _ pr pw]) simp_all
qed

lemma step_take_writer:
  assumes acc: "chan_acc Q view dview Fs cap pcs c lr lw pr rq pw wq" and f: "finite Fs" "f \<in> Fs"
    and p: "\<not> parkedpc (pcs f)" "\<not> parkedpc yes" "\<not> parkedpc no"
    and y: "w_rd yes = w_rd (pcs f)" "w_add yes = w_add (pcs f)" "w_wr yes + w_out (pcs f) = w_wr (pcs f) + w_out yes + 1"
    and n: "w_rd no = w_rd (pcs f)" "w_add no = w_add (pcs f)" "w_wr no = w_wr (pcs f)" "w_out no = w_out (pcs f)"
    and e: "EFiberBlocker_tryWait (ch_writer c) = (ok, b)"
  shows "chan_inv Q view dview Fs cap lr lw (pcs(f := if ok then yes else no), c\<lparr>ch_writer := b\<rparr>)"
proof (rule take_cases [OF acc_parts(2) [OF acc]])
  fix b' assume "EFiberBlocker_tryWait (ch_writer c) = (True, b')" "0 < pw" "blk_sem Q view b' (pw - 1) (2 ^ 32 - 1) wq"
  then show ?thesis using e y p acc_parts(1) [OF acc]
    by (intro step_plain [OF acc f, of _ pr "pw - 1"]) simp_all
next
  assume "EFiberBlocker_tryWait (ch_writer c) = (False, ch_writer c)" "pw = 0"
  then show ?thesis using e n p acc_parts(1,2) [OF acc]
    by (intro step_plain [OF acc f, of _ pr pw]) simp_all
qed

lemma step_swapOut_reader:
  assumes acc: "chan_acc Q view dview Fs cap pcs c lr lw pr rq pw wq" and f: "finite Fs" "f \<in> Fs"
    and p: "\<not> parkedpc (pcs f)" "\<not> parkedpc go" "rd_parked park" "\<not> wr_parked park"
    and k: "w_rd park = w_rd (pcs f) + 1" "w_add park = w_add (pcs f)" "w_wr park = w_wr (pcs f)" "w_out park = w_out (pcs f)"
    and g: "w_rd go + lr' = w_rd (pcs f) + 1 + lr" "w_add go = w_add (pcs f)" "w_wr go + lw' = w_wr (pcs f) + lw" "w_out go = w_out (pcs f)"
    and e: "EFiberBlocker_swapOut Q f (ch_reader c) = (hung, b)"
  shows "chan_inv Q view dview Fs cap (if hung then lr else lr') (if hung then lw else lw')
     (pcs(f := if hung then park else go), c\<lparr>ch_reader := b\<rparr>)"
proof (rule swapOut_cases [OF acc_parts(1) [OF acc], of f])
  fix b' assume "EFiberBlocker_swapOut Q f (ch_reader c) = (False, b')" "0 < pr" "blk_sem Q view b' (pr - 1) (2 ^ 32 - 1) rq"
  then show ?thesis using e p g acc_parts(2) [OF acc]
    by (auto intro!: step_plain [OF acc f, of _ "pr - 1" pw])
next
  note a = acc_parts [OF acc]
  fix b' assume s: "EFiberBlocker_swapOut Q f (ch_reader c) = (True, b')" "pr = 0"
    "blk_sem Q view b' 0 (2 ^ 32 - 1) (rq @ [WFiber f])"
  have nw: "f \<notin> ch_woken c" using a(5) p(1) by auto
  have "chan_acc Q view dview Fs cap (pcs(f := park)) (c\<lparr>ch_reader := b'\<rparr>) lr lw 0 (rq @ [WFiber f]) pw wq"
  proof (rule acc_step [OF acc f])
    show "queued rd_parked Fs (pcs(f := park)) (ch_woken (c\<lparr>ch_reader := b'\<rparr>)) (rq @ [WFiber f])"
      using queued_snoc [OF a(3) f(2) nw] p by simp
    show "queued wr_parked Fs (pcs(f := park)) (ch_woken (c\<lparr>ch_reader := b'\<rparr>)) wq"
      using queued_same [OF a(4)] p by simp
  qed (use s a p k in auto)
  then show ?thesis using s e unfolding chan_inv_def by auto
qed

lemma step_swapOut_writer:
  assumes acc: "chan_acc Q view dview Fs cap pcs c lr lw pr rq pw wq" and f: "finite Fs" "f \<in> Fs"
    and p: "\<not> parkedpc (pcs f)" "\<not> parkedpc go" "wr_parked park" "\<not> rd_parked park"
    and k: "w_rd park = w_rd (pcs f)" "w_add park = w_add (pcs f)" "w_wr park = w_wr (pcs f) + 1" "w_out park = w_out (pcs f)"
    and g: "w_rd go + lr' = w_rd (pcs f) + lr" "w_add go = w_add (pcs f)" "w_wr go + lw' = w_wr (pcs f) + 1 + lw" "w_out go = w_out (pcs f)"
    and e: "EFiberBlocker_swapOut Q f (ch_writer c) = (hung, b)"
  shows "chan_inv Q view dview Fs cap (if hung then lr else lr') (if hung then lw else lw')
     (pcs(f := if hung then park else go), c\<lparr>ch_writer := b\<rparr>)"
proof (rule swapOut_cases [OF acc_parts(2) [OF acc], of f])
  fix b' assume "EFiberBlocker_swapOut Q f (ch_writer c) = (False, b')" "0 < pw" "blk_sem Q view b' (pw - 1) (2 ^ 32 - 1) wq"
  then show ?thesis using e p g acc_parts(1) [OF acc]
    by (auto intro!: step_plain [OF acc f, of _ pr "pw - 1"])
next
  note a = acc_parts [OF acc]
  fix b' assume s: "EFiberBlocker_swapOut Q f (ch_writer c) = (True, b')" "pw = 0"
    "blk_sem Q view b' 0 (2 ^ 32 - 1) (wq @ [WFiber f])"
  have nw: "f \<notin> ch_woken c" using a(5) p(1) by auto
  have "chan_acc Q view dview Fs cap (pcs(f := park)) (c\<lparr>ch_writer := b'\<rparr>) lr lw pr rq 0 (wq @ [WFiber f])"
  proof (rule acc_step [OF acc f])
    show "queued wr_parked Fs (pcs(f := park)) (ch_woken (c\<lparr>ch_writer := b'\<rparr>)) (wq @ [WFiber f])"
      using queued_snoc [OF a(4) f(2) nw] p by simp
    show "queued rd_parked Fs (pcs(f := park)) (ch_woken (c\<lparr>ch_writer := b'\<rparr>)) rq"
      using queued_same [OF a(3)] p by simp
  qed (use s a p k in auto)
  then show ?thesis using s e unfolding chan_inv_def by auto
qed

section \<open>The invariant\<close>

text \<open>A step of a yielding fiber that is still BLOCKED, or that such a yield has parked.\<close>

fun late :: "'e chan_pc \<Rightarrow> side option \<Rightarrow> bool" where
  "late (Yielded y) b = (b \<noteq> None)"
| "late (LateParked b' y) b = True"
| "late pc b = False"

lemma after_yield_weights:
  "w_rd (after_yield y) = 0" "w_add (after_yield y) = 0" "w_wr (after_yield y) = 0" "w_out (after_yield y) = (case y of InTryRead \<Rightarrow> 1 | InFiber \<Rightarrow> 0)"
  "w_out (Yielded y) = (case y of InTryRead \<Rightarrow> 1 | InFiber \<Rightarrow> 0)"
  "\<not> parkedpc (after_yield y)"
  by (cases y; simp)+

lemma late_parked_out: "w_out (LateParked b y) = (case y of InTryRead \<Rightarrow> 1 | InFiber \<Rightarrow> 0)"
  by (cases y) simp_all

lemma late_act_inv:
  assumes acc: "chan_acc Q view dview Fs cap pcs c lr lw pr rq pw wq" and f: "finite Fs" "f \<in> Fs"
    and l: "late (pcs f) (ch_blocked c f)" and a: "chan_act Q D f (pcs f) c = Some (pc, c')"
  shows "\<exists>lr' lw'. chan_inv Q view dview Fs cap lr' lw' (pcs(f := pc), c')"
proof (cases "pcs f")
  case (Yielded y)
  then obtain b where b: "ch_blocked c f = Some b" using l by auto
  note w = after_yield_weights [of y] late_parked_out [of _ y]
  show ?thesis
  proof (cases b)
    case ReaderB
    obtain hung bl where e: "EFiberBlocker_swapOut Q f (ch_reader c) = (hung, bl)" by fastforce
    have "chan_inv Q view dview Fs cap (if hung then lr else lr + 1) (if hung then lw else lw)
       (pcs(f := if hung then LateParked ReaderB y else after_yield y), c\<lparr>ch_reader := bl\<rparr>)"
      by (rule step_swapOut_reader [OF acc f _ _ _ _ _ _ _ _ _ _ _ _ e]) (simp_all add: Yielded w)
    then show ?thesis using a Yielded b ReaderB e by auto
  next
    case WriterB
    obtain hung bl where e: "EFiberBlocker_swapOut Q f (ch_writer c) = (hung, bl)" by fastforce
    have "chan_inv Q view dview Fs cap (if hung then lr else lr) (if hung then lw else lw + 1)
       (pcs(f := if hung then LateParked WriterB y else after_yield y), c\<lparr>ch_writer := bl\<rparr>)"
      by (rule step_swapOut_writer [OF acc f _ _ _ _ _ _ _ _ _ _ _ _ e]) (simp_all add: Yielded w)
    then show ?thesis using a Yielded b WriterB e by auto
  qed
next
  case (LateParked b y)
  note w = after_yield_weights [of y] late_parked_out [of _ y]
  have wk: "f \<in> ch_woken c" and r: "pc = after_yield y" "c' = c\<lparr>ch_woken := ch_woken c - {f}\<rparr>"
    using a LateParked by (auto split: if_splits)
  show ?thesis
  proof (cases b)
    case ReaderB
    have "chan_inv Q view dview Fs cap (lr + 1) lw (pcs(f := after_yield y), c\<lparr>ch_woken := ch_woken c - {f}\<rparr>)"
      by (rule step_resume [OF acc f wk]) (simp_all add: LateParked ReaderB w)
    then show ?thesis using r by blast
  next
    case WriterB
    have "chan_inv Q view dview Fs cap lr (lw + 1) (pcs(f := after_yield y), c\<lparr>ch_woken := ch_woken c - {f}\<rparr>)"
      by (rule step_resume [OF acc f wk]) (simp_all add: LateParked WriterB w)
    then show ?thesis using r by blast
  qed
qed (use l in simp_all)

lemma chan_act_inv:
  assumes D: "cxx_fifo D dview" and inv: "chan_inv Q view dview Fs cap lr lw (pcs, c)" and f: "finite Fs" "f \<in> Fs"
    and lim: "cap + card Fs < 2 ^ 32 - 1" and a: "chan_act Q D f (pcs f) c = Some (pc, c')"
    and l: "\<not> late (pcs f) (ch_blocked c f)"
  shows "chan_inv Q view dview Fs cap lr lw (pcs(f := pc), c')"
proof -
  obtain pr rq pw wq where acc: "chan_acc Q view dview Fs cap pcs c lr lw pr rq pw wq"
    using inv unfolding chan_inv_def by auto
  note P = acc_parts [OF acc]
  show ?thesis
  proof (cases "pcs f")
    case ReadCalled
    then show ?thesis using a step_wake_writer [OF acc f lim, of ReadWait] by auto
  next
    case ReadWait
    then show ?thesis using a step_take_reader [OF acc f, of ReadPoll ReadYielded] by (auto split: prod.splits if_splits)
  next
    case ReadYielded
    then show ?thesis using a step_swapOut_reader [OF acc f, of ReadPoll ReadParked lr lw] by (auto split: prod.splits if_splits)
  next
    case ReadParked
    then show ?thesis using a step_resume [OF acc f, of ReadPoll lr lw] by (auto split: if_splits)
  next
    case ReadPoll
    then obtain e d where "cxq_poll D (ch_data c) = (Some e, d)" "dview (ch_data c) = e # dview d"
      using acc_poll [OF D acc f] by auto
    then show ?thesis using a ReadPoll P by (auto intro!: step_plain [OF acc f, of _ pr pw])
  next
    case (WriteCalled x)
    then show ?thesis using a step_take_writer [OF acc f, of "WriteAdd x" "WriteYielded x"] by (auto split: prod.splits if_splits)
  next
    case (WriteYielded x)
    then show ?thesis using a step_swapOut_writer [OF acc f, of "WriteAdd x" "WriteParked x" lr lw] by (auto split: prod.splits if_splits)
  next
    case (WriteParked x)
    then show ?thesis using a step_resume [OF acc f, of "WriteAdd x" lr lw] by (auto split: if_splits)
  next
    case (WriteAdd x)
    then show ?thesis using a P cxx_add [OF D] by (auto intro!: step_plain [OF acc f, of _ pr pw])
  next
    case WritePost
    then show ?thesis using a step_wake_reader [OF acc f lim, of "Done WrRes"] by auto
  next
    case TryReadCalled
    then show ?thesis using a step_wake_writer [OF acc f lim, of TryReadLoop] by auto
  next
    case TryReadLoop
    then show ?thesis using a step_take_reader [OF acc f, of TryReadPoll TryReadGiveUp] by (auto split: prod.splits)
  next
    case TryReadGiveUp
    then show ?thesis using a step_take_writer [OF acc f, of "Done (TrRes None)" "Yielded InTryRead"] by (auto split: prod.splits)
  next
    case TryReadPoll
    then obtain e d where "cxq_poll D (ch_data c) = (Some e, d)" "dview (ch_data c) = e # dview d"
      using acc_poll [OF D acc f] by auto
    then show ?thesis using a TryReadPoll P by (auto intro!: step_plain [OF acc f, of _ pr pw])
  next
    case (TryWriteCalled x)
    then show ?thesis using a step_take_writer [OF acc f, of "TryWriteAdd x" "Done (TwRes False)"] by (auto split: prod.splits)
  next
    case (TryWriteAdd x)
    then show ?thesis using a P cxx_add [OF D] by (auto intro!: step_plain [OF acc f, of _ pr pw])
  next
    case TryWritePost
    then show ?thesis using a step_wake_reader [OF acc f lim, of "Done (TwRes True)"] by auto
  next
    case (Yielded y)
    then have "pc = after_yield y" "c' = c" using a l by auto
    then show ?thesis using P Yielded by (intro step_plain [OF acc f, of _ pr pw]) (simp_all add: after_yield_weights)
  qed (use a l in auto)
qed

lemma entry_weights:
  "entry pc \<Longrightarrow> w_rd pc = 0 \<and> w_add pc = 0 \<and> w_wr pc = 0 \<and> w_out pc = 0 \<and> \<not> parkedpc pc"
  "resting pc \<Longrightarrow> w_rd pc = 0 \<and> w_add pc = 0 \<and> w_wr pc = 0 \<and> w_out pc = 0 \<and> \<not> parkedpc pc"
  by (induction pc rule: entry.induct; simp) (cases pc; simp)

definition same_lost :: "(fptr \<Rightarrow> 'e chan_pc) \<Rightarrow> ('q, 'd) chan \<Rightarrow> bool" where
  "same_lost pcs c \<longleftrightarrow> (\<forall>f. \<not> late (pcs f) (ch_blocked c f))"

lemma chan_step_inv:
  assumes D: "cxx_fifo D dview" and F: "finite Fs" and lim: "cap + card Fs < 2 ^ 32 - 1"
    and st: "chan_step Q D Fs calls z z'" and inv: "chan_inv Q view dview Fs cap lr lw z"
  shows "\<exists>lr' lw'. chan_inv Q view dview Fs cap lr' lw' z' \<and> (same_lost (fst z) (snd z) \<longrightarrow> lr' = lr \<and> lw' = lw)"
  using st
proof (cases rule: chan_step.cases)
  case (call f pcs pc c)
  then obtain pr rq pw wq where acc: "chan_acc Q view dview Fs cap pcs c lr lw pr rq pw wq"
    using inv unfolding chan_inv_def by auto
  have "chan_inv Q view dview Fs cap lr lw (pcs(f := pc), c)"
    using acc_parts [OF acc] entry_weights(1) [OF call(5)] entry_weights(2) [OF call(4)]
    by (intro step_plain [OF acc F call(3), of _ pr pw]) simp_all
  then show ?thesis unfolding call(2) by blast
next
  case (act f pcs c pc c')
  then obtain pr rq pw wq where acc: "chan_acc Q view dview Fs cap pcs c lr lw pr rq pw wq"
    using inv unfolding chan_inv_def by auto
  show ?thesis
  proof (cases "late (pcs f) (ch_blocked c f)")
    case True
    then have "\<not> same_lost pcs c" by (auto simp: same_lost_def)
    then show ?thesis using late_act_inv [OF acc F act(3) True act(4)] act(1,2) by auto
  next
    case False
    have "chan_inv Q view dview Fs cap lr lw (pcs, c)" using inv act(1) by simp
    from chan_act_inv [OF D this F act(3) lim act(4) False] show ?thesis unfolding act(2) by blast
  qed
qed

lemma chan_init_inv:
  assumes "cxx_fifo Q view" "cxx_fifo D dview" "finite Fs"
  shows "chan_inv Q view dview Fs (unat cap) 0 0 (\<lambda>_. Idle, EFiberChannel_ctor Q D cap)"
proof -
  have m: "unat (- 1 :: u32) = 2 ^ 32 - 1" by (simp add: unsigned_minus_1_eq_mask mask_eq_exp_minus_1)
  have "chan_acc Q view dview Fs (unat cap) (\<lambda>_. Idle) (EFiberChannel_ctor Q D cap) 0 0 0 [] (unat cap) []"
    using ctor_sem [OF assms(1), of 0 "-1"] ctor_sem [OF assms(1), of cap "-1"] cxx_empty [OF assms(2)]
    unfolding m by (simp add: chan_acc_def EFiberChannel_ctor_def queued_def)
  then show ?thesis unfolding chan_inv_def by auto
qed

lemma chan_reach_inv:
  assumes "cxx_fifo Q view" "cxx_fifo D dview" "finite Fs" "unat cap + card Fs < 2 ^ 32 - 1"
    and r: "chan_reach Q D Fs calls cap z"
  shows "\<exists>lr lw. chan_inv Q view dview Fs (unat cap) lr lw z"
  using r
proof (induction rule: chan_reach.induct)
  case init
  then show ?case using chan_init_inv [OF assms(1-3)] by blast
next
  case (step z z')
  then show ?case using chan_step_inv [OF assms(2-4)] by blast
qed

section \<open>Fibers that do not yield while they are BLOCKED\<close>

text \<open>
  If no fiber both waits and yields, the yields find their fiber RUNNABLE: no permit is lost.
\<close>

fun yielding :: "'e chan_pc \<Rightarrow> bool" where
  "yielding TryReadCalled = True" | "yielding TryReadLoop = True" | "yielding TryReadGiveUp = True"
| "yielding (Yielded y) = True" | "yielding (LateParked b y) = True" | "yielding pc = False"

fun waiting :: "'e chan_pc \<Rightarrow> bool" where
  "waiting ReadCalled = True" | "waiting ReadWait = True" | "waiting (WriteCalled e) = True" | "waiting pc = False"

definition apart_inv :: "(fptr \<Rightarrow> 'e chan_pc \<Rightarrow> bool) \<Rightarrow> (fptr \<Rightarrow> 'e chan_pc) \<Rightarrow> ('q, 'd) chan \<Rightarrow> bool" where
  "apart_inv calls pcs c \<longleftrightarrow> (\<forall>f. (yielding (pcs f) \<longrightarrow> yields_here calls f) \<and> (waiting (pcs f) \<longrightarrow> waits_here calls f) \<and>
     (ch_blocked c f \<noteq> None \<longrightarrow> waits_here calls f) \<and> (\<forall>b y. pcs f \<noteq> LateParked b y))"

lemma apart_same_lost:
  assumes "\<And>f. \<not> (waits_here calls f \<and> yields_here calls f)" "apart_inv calls pcs c"
  shows "same_lost pcs c"
  unfolding same_lost_def
proof
  fix f
  show "\<not> late (pcs f) (ch_blocked c f)"
    using assms(1) [of f] assms(2) unfolding apart_inv_def by (cases "pcs f") (auto dest!: spec [of _ f])
qed

lemma wake_blocked:
  "ch_blocked (wake_reader Q c) f = Some b \<Longrightarrow> ch_blocked c f = Some b"
  "ch_blocked (wake_writer Q c) f = Some b \<Longrightarrow> ch_blocked c f = Some b"
  by (auto simp: wake_reader_def wake_writer_def Let_def split: prod.splits option.splits waiter.splits if_splits)

lemma act_apart:
  assumes a: "chan_act Q D f pc c = Some (pc', c')" and l: "\<not> late pc (ch_blocked c f)"
  shows "(yielding pc' \<longrightarrow> yielding pc) \<and> (waiting pc' \<longrightarrow> waiting pc) \<and> (\<forall>b y. pc' \<noteq> LateParked b y) \<and>
    (\<forall>g. ch_blocked c' g \<noteq> None \<longrightarrow> ch_blocked c g \<noteq> None \<or> g = f \<and> waiting pc)"
proof (cases pc)
  case (Yielded y)
  then show ?thesis using a l by (cases y) auto
qed (use a l in \<open>auto dest: wake_blocked split: prod.splits if_splits\<close>)

lemma step_apart:
  assumes st: "chan_step Q D Fs calls z z'" and i: "apart_inv calls (fst z) (snd z)" "same_lost (fst z) (snd z)"
  shows "apart_inv calls (fst z') (snd z')"
  using st
proof (cases rule: chan_step.cases)
  case (call f pcs pc c)
  then have "yielding pc \<longrightarrow> yields_here calls f" "waiting pc \<longrightarrow> waits_here calls f" "\<forall>b y. pc \<noteq> LateParked b y"
    by (auto simp: yields_here_def waits_here_def elim: entry.elims)
  then show ?thesis using i(1) call(1,2) by (auto simp: apart_inv_def)
next
  case (act f pcs c pc c')
  have "\<not> late (pcs f) (ch_blocked c f)" using i(2) act(1) by (auto simp: same_lost_def)
  from act_apart [OF act(4) this] show ?thesis using i(1) act(1,2) unfolding apart_inv_def by auto
qed

lemma chan_reach_exact:
  assumes "cxx_fifo Q view" "cxx_fifo D dview" "finite Fs" "unat cap + card Fs < 2 ^ 32 - 1"
    and ap: "\<And>f. \<not> (waits_here calls f \<and> yields_here calls f)" and r: "chan_reach Q D Fs calls cap z"
  shows "chan_inv Q view dview Fs (unat cap) 0 0 z" and "same_lost (fst z) (snd z)"
proof -
  have "chan_inv Q view dview Fs (unat cap) 0 0 z \<and> apart_inv calls (fst z) (snd z)"
    using r
  proof (induction rule: chan_reach.induct)
    case init
    then show ?case using chan_init_inv [OF assms(1-3)] by (simp add: apart_inv_def EFiberChannel_ctor_def)
  next
    case (step z z')
    then show ?case
      using chan_step_inv [OF assms(2-4) step(2)] step_apart [OF step(2)] apart_same_lost [OF ap] by blast
  qed
  then show "chan_inv Q view dview Fs (unat cap) 0 0 z" "same_lost (fst z) (snd z)"
    using apart_same_lost [OF ap] by blast+
qed

section \<open>No wake-up is lost\<close>

text \<open>A blocker never stores a permit while a fiber waits.\<close>

definition calm :: "('q \<Rightarrow> waiter list) \<Rightarrow> 'q blocker \<Rightarrow> bool" where
  "calm view b \<longleftrightarrow> (bl_wakeup b \<noteq> 0 \<longrightarrow> view (bl_waitQueue b) = [])"

lemma calm_tryWait: "calm view b \<Longrightarrow> calm view (snd (EFiberBlocker_tryWait b))"
  by (auto simp: EFiberBlocker_tryWait_def calm_def)

lemma calm_swapOut: "calm view b \<Longrightarrow> calm view (snd (EFiberBlocker_swapOut Q f b))"
  by (auto simp: EFiberBlocker_swapOut_def calm_def word_gt_0)

lemma calm_post:
  assumes "cxx_fifo Q view" "calm view b"
  shows "calm view (snd (EFiberBlocker_post Q b))"
proof (cases "view (bl_waitQueue b)")
  case Nil
  then show ?thesis
    using cxx_poll_empty [OF assms(1) Nil] cxx_poll_empty_view [OF assms(1) Nil]
    by (auto simp: EFiberBlocker_post_def calm_def Let_def split: prod.splits)
next
  case (Cons w ws)
  then have "bl_wakeup b = 0" using assms(2) by (auto simp: calm_def)
  then show ?thesis
    using cxx_poll_cons [OF assms(1) Cons]
    by (auto simp: EFiberBlocker_post_def calm_def Let_def split: prod.splits waiter.splits)
qed

definition chan_calm :: "('q \<Rightarrow> waiter list) \<Rightarrow> ('q, 'd) chan \<Rightarrow> bool" where
  "chan_calm view c \<longleftrightarrow> calm view (ch_reader c) \<and> calm view (ch_writer c)"

lemma wake_calm:
  assumes "cxx_fifo Q view" "chan_calm view c"
  shows "chan_calm view (wake_reader Q c)" "chan_calm view (wake_writer Q c)"
  using assms calm_post [OF assms(1), of "ch_reader c"] calm_post [OF assms(1), of "ch_writer c"]
  by (auto simp: wake_reader_def wake_writer_def chan_calm_def split: prod.splits option.splits waiter.splits)

lemma chan_act_calm:
  assumes Q: "cxx_fifo Q view" and c: "chan_calm view c" and a: "chan_act Q D f pc c = Some (pc', c')"
  shows "chan_calm view c'"
proof -
  have t: "EFiberBlocker_tryWait b = (r, b') \<Longrightarrow> calm view b \<Longrightarrow> calm view b'" for b r b'
    using calm_tryWait [of view b] by simp
  have s: "EFiberBlocker_swapOut Q f b = (r, b') \<Longrightarrow> calm view b \<Longrightarrow> calm view b'" for b r b'
    using calm_swapOut [of view b Q f] by simp
  have k: "calm view (ch_reader c)" "calm view (ch_writer c)" using c by (simp_all add: chan_calm_def)
  note w = wake_calm [OF Q c]
  show ?thesis
    using a c w k by (cases pc) (auto simp: chan_calm_def dest: t s split: prod.splits if_splits option.splits side.splits)
qed

lemma chan_reach_calm:
  assumes Q: "cxx_fifo Q view" and r: "chan_reach Q D Fs calls cap z"
  shows "chan_calm view (snd z)"
  using r
proof (induction rule: chan_reach.induct)
  case init
  then show ?case using cxx_empty [OF Q] by (simp add: chan_calm_def calm_def EFiberChannel_ctor_def EFiberBlocker_ctor_def)
next
  case (step z z')
  from step(2,3) show ?case by (cases rule: chan_step.cases) (auto dest: chan_act_calm [OF Q])
qed

text \<open>Nobody can move: every fiber is at rest, or parked and not resumed.\<close>

definition quiescent :: "fptr set \<Rightarrow> (fptr \<Rightarrow> 'e chan_pc) \<times> ('q, 'd) chan \<Rightarrow> bool" where
  "quiescent Fs z \<longleftrightarrow> (\<forall>f\<in>Fs. resting (fst z f) \<or> parkedpc (fst z f) \<and> f \<notin> ch_woken (snd z))"

lemma queued_all:
  assumes "finite Fs" "queued P Fs pcs woken ws" "\<And>f. f \<in> Fs \<Longrightarrow> P (pcs f) \<Longrightarrow> w (pcs f) = (1::nat)"
    and "\<And>f. f \<in> Fs \<Longrightarrow> \<not> P (pcs f) \<Longrightarrow> w (pcs f) = 0" "\<And>f. f \<in> Fs \<Longrightarrow> P (pcs f) \<Longrightarrow> f \<notin> woken"
  shows "total w Fs pcs = length ws"
proof -
  let ?A = "{f \<in> Fs. P (pcs f) \<and> f \<notin> woken}"
  have "total w Fs pcs = (\<Sum>f\<in>?A. w (pcs f))"
  proof (rule sum.mono_neutral_right)
    show "\<forall>i\<in>Fs - ?A. w (pcs i) = 0" using assms(4,5) by blast
  qed (use assms(1) in auto)
  also have "\<dots> = card ?A" using assms(3) by simp
  also have "\<dots> = card (set ws)" using assms(2) by (simp add: queued_def card_image inj_on_def)
  also have "\<dots> = length ws" using assms(2) unfolding queued_def by (metis distinct_card)
  finally show ?thesis .
qed

lemma chan_quiescent:
  assumes Q: "cxx_fifo Q view" and D: "cxx_fifo D dview" and F: "finite Fs" and lim: "unat cap + card Fs < 2 ^ 32 - 1"
    and ap: "\<And>f. \<not> (waits_here calls f \<and> yields_here calls f)"
    and r: "chan_reach Q D Fs calls cap (pcs, c)" and q: "quiescent Fs (pcs, c)"
  shows "(\<exists>f\<in>Fs. rd_parked (pcs f)) \<Longrightarrow> dview (ch_data c) = []"
    and "(\<exists>f\<in>Fs. wr_parked (pcs f)) \<Longrightarrow> length (dview (ch_data c)) = unat cap + card {f \<in> Fs. rd_parked (pcs f)}"
proof -
  obtain pr rq pw wq where acc: "chan_acc Q view dview Fs (unat cap) pcs c 0 0 pr rq pw wq"
    using chan_reach_exact(1) [OF Q D F lim ap r] unfolding chan_inv_def by auto
  have nl: "pcs f \<noteq> LateParked b y" for f b y
    using chan_reach_exact(2) [OF Q D F lim ap r] by (auto simp: same_lost_def dest!: spec [of _ f])
  note P = acc_parts [OF acc]
  have st: "resting (pcs f) \<or> parkedpc (pcs f) \<and> f \<notin> ch_woken c" if "f \<in> Fs" for f
    using q that unfolding quiescent_def by simp
  have pw1: "rd_parked (pcs f) \<Longrightarrow> w_rd (pcs f) = 1 \<and> w_out (pcs f) = 1" "wr_parked (pcs f) \<Longrightarrow> w_wr (pcs f) = 1" for f
    using nl [of f] by (cases "pcs f"; simp)+
  have pw0: "wr_parked (pcs f) \<Longrightarrow> w_rd (pcs f) = 0 \<and> w_out (pcs f) = 0" "rd_parked (pcs f) \<Longrightarrow> w_wr (pcs f) = 0"
      "parkedpc (pcs f) \<Longrightarrow> w_add (pcs f) = 0" for f
    using nl [of f] by (cases "pcs f"; simp)+
  have z: "w_rd (pcs f) = 0 \<and> w_out (pcs f) = 0" if "f \<in> Fs" "\<not> rd_parked (pcs f)" for f
    using st [OF that(1)] that(2) entry_weights(2) pw0(1) by blast
  have z': "w_wr (pcs f) = 0" if "f \<in> Fs" "\<not> wr_parked (pcs f)" for f
    using st [OF that(1)] that(2) entry_weights(2) pw0(2) by blast
  have nw: "f \<notin> ch_woken c" if "f \<in> Fs" "parkedpc (pcs f)" for f
    using st [OF that(1)] that(2) entry_weights(2) by blast
  have t1: "total w_rd Fs pcs = length rq" "total w_out Fs pcs = length rq"
    by (rule queued_all [OF F P(3)]; use pw1 z nw in auto)+
  have t2: "total w_wr Fs pcs = length wq"
    by (rule queued_all [OF F P(4)]; use pw1 z' nw in auto)
  have "w_add (pcs f) = 0" if "f \<in> Fs" for f
    using st [OF that] entry_weights(2) pw0(3) by blast
  then have t3: "total w_add Fs pcs = 0" by simp
  have bal: "length (dview (ch_data c)) = pr" "pw + length (dview (ch_data c)) = unat cap + length rq"
    using acc t1 t2 t3 unfolding chan_acc_def by linarith+
  have cal: "pr \<noteq> 0 \<longrightarrow> rq = []" "pw \<noteq> 0 \<longrightarrow> wq = []"
    using chan_reach_calm [OF Q r] blk_semD(4,6) [OF P(1)] blk_semD(4,6) [OF P(2)]
    by (auto simp: chan_calm_def calm_def)
  have rqne: "rq \<noteq> []" if "\<exists>f\<in>Fs. rd_parked (pcs f)"
    using that P(3) nw unfolding queued_def by (metis (mono_tags, lifting) empty_iff empty_set imageI mem_Collect_eq)
  have wqne: "wq \<noteq> []" if "\<exists>f\<in>Fs. wr_parked (pcs f)"
    using that P(4) nw unfolding queued_def by (metis (mono_tags, lifting) empty_iff empty_set imageI mem_Collect_eq)
  show "(\<exists>f\<in>Fs. rd_parked (pcs f)) \<Longrightarrow> dview (ch_data c) = []"
    using rqne cal(1) bal(1) by auto
  have "length rq = card {f \<in> Fs. rd_parked (pcs f)}"
  proof -
    have "{f \<in> Fs. rd_parked (pcs f) \<and> f \<notin> ch_woken c} = {f \<in> Fs. rd_parked (pcs f)}" using nw by auto
    then have "card (set rq) = card {f \<in> Fs. rd_parked (pcs f)}"
      using P(3) by (simp add: queued_def card_image inj_on_def)
    then show ?thesis using P(3) distinct_card unfolding queued_def by metis
  qed
  then show "(\<exists>f\<in>Fs. wr_parked (pcs f)) \<Longrightarrow> length (dview (ch_data c)) = unat cap + card {f \<in> Fs. rd_parked (pcs f)}"
    using wqne cal(2) bal(2) by auto
qed

end
