(* ===== verification/Scheduler.thy ===== *)
theory Scheduler
  imports Blocker
begin

text \<open>
  \<open>EFiberScheduler\<close> (inc/EFiberScheduler.hh, src/EFiberScheduler.cpp): scheduling a fiber, one turn
  of the loop of \<open>join()\<close> and of \<open>joinWithThreadBind\<close>, and \<open>interrupt\<close>. What a fiber does between
  two yields (\<open>fiber->context->swapIn()\<close>) is user code and enters as the argument \<open>run\<close>.
\<close>

section \<open>State\<close>

text \<open>
  The scheduler extends the runtime state. The default task queue and the io waiter that
  \<open>join()\<close> creates are number 0; the task queue and the io waiter of stub \<open>i\<close> are number \<open>i + 1\<close>.
  \<open>sc_stubs\<close> is the length of \<open>schedulerStubs\<close>, \<open>None\<close> as long as that pointer is null. \<open>sc_code\<close> is
  the saved context of each fiber, of whatever type \<open>'c\<close> the user code needs.
\<close>

record ('q, 'k, 'c) sched = rt +
  sc_blockers :: "bptr \<Rightarrow> 'q blocker"
  sc_waiters :: "wptr \<Rightarrow> iowaiter"
  sc_hung :: "nat \<Rightarrow> wptr option"
  sc_kernel :: 'k
  sc_total :: int
  sc_interrupted :: bool
  sc_balanceIndex :: int
  sc_stubs :: "nat option"
  sc_threadNums :: int
  sc_code :: "fptr \<Rightarrow> 'c"

definition default_queue :: qptr where "default_queue = 0"
definition stub_queue :: "nat \<Rightarrow> qptr" where "stub_queue i = i + 1"
definition default_waiter :: wptr where "default_waiter = 0"
definition stub_waiter :: "nat \<Rightarrow> wptr" where "stub_waiter i = i + 1"

definition upd_waiter :: "wptr \<Rightarrow> iowaiter \<Rightarrow> ('q, 'k, 'c) sched \<Rightarrow> ('q, 'k, 'c) sched" where
  "upd_waiter w iw s = s\<lparr>sc_waiters := (sc_waiters s)(w := iw)\<rparr>"

definition upd_blocker :: "bptr \<Rightarrow> 'q blocker \<Rightarrow> ('q, 'k, 'c) sched \<Rightarrow> ('q, 'k, 'c) sched" where
  "upd_blocker bp b s = s\<lparr>sc_blockers := (sc_blockers s)(bp := b)\<rparr>"

section \<open>Scheduling a fiber\<close>

text \<open>
  \<open>sid\<close> is the scheduler, \<open>active\<close> the fiber that is running (if any), \<open>bal\<close> the balance callback.
  \<open>balanceIndex\<close> counts in an \<open>int\<close>: after \<open>2 ^ 31\<close> fibers it is negative, and so can the remainder be.
  \<open>None\<close>: the index is outside of \<open>schedulerStubs\<close>.
\<close>

definition EFiberScheduler_scheduleIgnoreBalance :: "nat \<Rightarrow> (fptr \<Rightarrow> int \<Rightarrow> int) option \<Rightarrow> fptr option \<Rightarrow>
    fptr \<Rightarrow> bool \<Rightarrow> ('q, 'k, 'c) sched \<Rightarrow> ('q, 'k, 'c) sched option" where
  "EFiberScheduler_scheduleIgnoreBalance sid bal active f ignoreBalance s =
     (let s1 = s\<lparr>sc_total := sc_total s + 1\<rparr>;
          s2 = upd_fiber f (\<lambda>fb. fb\<lparr>fb_state := RUNNABLE\<rparr>) s1;
          s3 = EFiber_setScheduler f (Some sid) s2
      in case sc_stubs s3 of
           None \<Rightarrow> Some (cq_add default_queue f s3)
         | Some n \<Rightarrow>
             (let (index, s4) =
                (if ignoreBalance then
                   (case active of Some a \<Rightarrow> (fb_threadIndex (rt_fibers s3 a), s3) | None \<Rightarrow> (0, s3))
                 else
                   (case bal of
                      Some g \<Rightarrow> (g f (sc_threadNums s3), s3)
                    | None \<Rightarrow> (sc_balanceIndex s3 smod int n,
                               s3\<lparr>sc_balanceIndex := int32 (sc_balanceIndex s3 + 1)\<rparr>)))
              in if index < 0 \<or> index \<ge> int n then None
                 else
                   (let s5 = cq_add (stub_queue (nat index)) f s4
                    in case sc_hung s5 (nat index) of
                         Some w \<Rightarrow> Some (EIoWaiter_signal w s5)
                       | None \<Rightarrow> Some s5)))"

definition EFiberScheduler_schedule :: "nat \<Rightarrow> (fptr \<Rightarrow> int \<Rightarrow> int) option \<Rightarrow> fptr option \<Rightarrow> fptr \<Rightarrow>
    ('q, 'k, 'c) sched \<Rightarrow> ('q, 'k, 'c) sched option" where
  "EFiberScheduler_schedule sid bal active f s = EFiberScheduler_scheduleIgnoreBalance sid bal active f False s"

definition EFiberScheduler_scheduleInheritThread :: "nat \<Rightarrow> (fptr \<Rightarrow> int \<Rightarrow> int) option \<Rightarrow> fptr option \<Rightarrow> fptr \<Rightarrow>
    ('q, 'k, 'c) sched \<Rightarrow> ('q, 'k, 'c) sched option" where
  "EFiberScheduler_scheduleInheritThread sid bal active f s =
     EFiberScheduler_scheduleIgnoreBalance sid bal active f True s"

section \<open>The parts of one turn\<close>

text \<open>A round of the io waiter \<open>w\<close> of the calling thread.\<close>

definition io_round :: "'k os \<Rightarrow> tid \<Rightarrow> wptr \<Rightarrow> int \<Rightarrow> ('q, 'k, 'c) sched \<Rightarrow> ('q, 'k, 'c) sched option" where
  "io_round os t w timeout s =
     (case EIoWaiter_onceProcessEvents os t w timeout (sc_waiters s w) (sc_kernel s) s of
        None \<Rightarrow> None
      | Some (n, iw, k, s') \<Rightarrow> Some ((upd_waiter w iw s')\<lparr>sc_kernel := k\<rparr>))"

text \<open>What the scheduler writes into a fiber before it runs it.\<close>

definition bind_fiber :: "qptr \<Rightarrow> tid \<Rightarrow> wptr \<Rightarrow> fptr \<Rightarrow> ('q, 'k, 'c) sched \<Rightarrow> ('q, 'k, 'c) sched" where
  "bind_fiber q t w f s =
     (let s1 = (if fb_boundQueue (rt_fibers s f) = None
                then upd_fiber f (\<lambda>fb. fb\<lparr>fb_boundQueue := Some q\<rparr>) s else s);
          s2 = upd_fiber f (\<lambda>fb. fb\<lparr>fb_boundThreadID := t\<rparr>) s1
      in EFiber_setIoWaiter f (Some w) s2)"

text \<open>
  The \<open>switch (fiber->state)\<close> after the fiber has yielded. \<open>None\<close>: a fiber in the state BLOCKED
  without a blocker (the assertion).
\<close>

definition after_run :: "(waiter, 'q) cxx_queue \<Rightarrow> qptr \<Rightarrow> fptr \<Rightarrow> ('q, 'k, 'c) sched \<Rightarrow> ('q, 'k, 'c) sched option" where
  "after_run Q q f s =
     (case fb_state (rt_fibers s f) of
        RUNNABLE \<Rightarrow> Some (cq_add q f s)
      | BLOCKED \<Rightarrow>
          (case fb_blocker (rt_fibers s f) of
             None \<Rightarrow> None
           | Some bp \<Rightarrow>
               (let (hung, b) = EFiberBlocker_swapOut Q f (sc_blockers s bp);
                    s1 = upd_blocker bp b s
                in if \<not> hung then Some (cq_add q f s1) else Some s1))
      | TERMINATED \<Rightarrow> Some (s\<lparr>sc_total := sc_total s - 1\<rparr>)
      | _ \<Rightarrow> Some s)"

section \<open>One turn of the loops\<close>

datatype turn = Continue | Break | Interrupted

definition EFiberScheduler_join_turn :: "'k os \<Rightarrow> (waiter, 'q) cxx_queue \<Rightarrow>
    (fptr \<Rightarrow> ('q, 'k, 'c) sched \<Rightarrow> ('q, 'k, 'c) sched option) \<Rightarrow> tid \<Rightarrow> ('q, 'k, 'c) sched \<Rightarrow>
    (turn \<times> ('q, 'k, 'c) sched) option" where
  "EFiberScheduler_join_turn os Q run t s =
     (if sc_interrupted s then Some (Interrupted, s)
      else
       (let total = sc_total s in
        case cq_poll default_queue s of
          None \<Rightarrow> None
        | Some (None, s1) \<Rightarrow>
            (if total > 0 then map_option (Pair Continue) (io_round os t default_waiter 3000 s1)
             else Some (Break, s1))
        | Some (Some f, s1) \<Rightarrow>
            (case (if EIoWaiter_getWaitersCount (sc_waiters s1 default_waiter) > 0
                   then io_round os t default_waiter 0 s1 else Some s1) of
               None \<Rightarrow> None
             | Some s2 \<Rightarrow>
                 (case run f (bind_fiber default_queue t default_waiter f s2) of
                    None \<Rightarrow> None
                  | Some s3 \<Rightarrow> map_option (Pair Continue) (after_run Q default_queue f s3)))))"

definition EFiberScheduler_thread_turn :: "'k os \<Rightarrow> (waiter, 'q) cxx_queue \<Rightarrow>
    (fptr \<Rightarrow> ('q, 'k, 'c) sched \<Rightarrow> ('q, 'k, 'c) sched option) \<Rightarrow> tid \<Rightarrow> nat \<Rightarrow> ('q, 'k, 'c) sched \<Rightarrow>
    (turn \<times> ('q, 'k, 'c) sched) option" where
  "EFiberScheduler_thread_turn os Q run t index s =
     (if sc_interrupted s then Some (Interrupted, s)
      else
       (let total = sc_total s in
        case cq_poll (stub_queue index) s of
          None \<Rightarrow> None
        | Some (None, s1) \<Rightarrow>
            (if total > 0 then
               (let s2 = s1\<lparr>sc_hung := (sc_hung s1)(index := Some (stub_waiter index))\<rparr> in
                case io_round os t (stub_waiter index) 3000 s2 of
                  None \<Rightarrow> None
                | Some s3 \<Rightarrow> Some (Continue, s3\<lparr>sc_hung := (sc_hung s3)(index := None)\<rparr>))
             else Some (Break, s1))
        | Some (Some f, s1) \<Rightarrow>
            (case (if EIoWaiter_getWaitersCount (sc_waiters s1 (stub_waiter index)) > 0
                   then io_round os t (stub_waiter index) 0 s1 else Some s1) of
               None \<Rightarrow> None
             | Some s2 \<Rightarrow>
                 (let s3 = EFiber_setThreadIndex f (int index) s2 in
                  case run f (bind_fiber (stub_queue index) t (stub_waiter index) f s3) of
                    None \<Rightarrow> None
                  | Some s4 \<Rightarrow> map_option (Pair Continue) (after_run Q (stub_queue index) f s4)))))"

text \<open>
  The loop of \<open>join()\<close>. It does not return while live fibers wait for events that never come, so
  it is a partial function: \<open>None\<close> for a loop that does not end or that faults. \<open>True\<close> is a
  normal end, \<open>False\<close> the \<open>EInterruptedException\<close>. What follows at the label \<open>CLEAN\<close> is not part of it: the
  thread-local pointers are reset, and \<open>clearFileContexts\<close> (\<open>EFileContextManager_clear\<close>) and
  \<open>cleanOrignContext\<close> drop the file table and the save area of the thread, which this state does not have.
\<close>

partial_function (option) EFiberScheduler_join :: "'k os \<Rightarrow> (waiter, 'q) cxx_queue \<Rightarrow>
    (fptr \<Rightarrow> ('q, 'k, 'c) sched \<Rightarrow> ('q, 'k, 'c) sched option) \<Rightarrow> tid \<Rightarrow> ('q, 'k, 'c) sched \<Rightarrow>
    (bool \<times> ('q, 'k, 'c) sched) option" where
  "EFiberScheduler_join os Q run t s =
     (case EFiberScheduler_join_turn os Q run t s of
        None \<Rightarrow> None
      | Some (Continue, s') \<Rightarrow> EFiberScheduler_join os Q run t s'
      | Some (Break, s') \<Rightarrow> Some (True, s')
      | Some (Interrupted, s') \<Rightarrow> Some (False, s'))"

declare EFiberScheduler_join.simps [code]

section \<open>The start of join(int), its end, and interruption\<close>

text \<open>The loop that deals out the default queue, with fuel for the number of queued fibers.\<close>

fun deal :: "(fptr \<Rightarrow> int \<Rightarrow> int) option \<Rightarrow> int \<Rightarrow> nat \<Rightarrow> ('q, 'k, 'c) sched \<Rightarrow> ('q, 'k, 'c) sched option" where
  "deal bal threadNums 0 s = None"
| "deal bal threadNums (Suc n) s =
     (case cq_poll default_queue s of
        None \<Rightarrow> None
      | Some (None, s1) \<Rightarrow> Some s1
      | Some (Some f, s1) \<Rightarrow>
          (let (i, s2) = (case bal of
               Some g \<Rightarrow> (g f threadNums, s1)
             | None \<Rightarrow> (sc_balanceIndex s1 smod threadNums, s1\<lparr>sc_balanceIndex := int32 (sc_balanceIndex s1 + 1)\<rparr>))
           in if i < 0 \<or> i \<ge> threadNums then None
              else deal bal threadNums n (cq_add (stub_queue (nat i)) f s2)))"

definition wake_others :: "nat \<Rightarrow> nat \<Rightarrow> ('q, 'k, 'c) sched \<Rightarrow> ('q, 'k, 'c) sched" where
  "wake_others n index s =
     fold (\<lambda>i s. if i \<noteq> index then EIoWaiter_signal (stub_waiter i) s else s) [0..<n] s"

definition interrupt_waiter :: "'k os \<Rightarrow> wptr \<Rightarrow> ('q, 'k, 'c) sched \<Rightarrow> ('q, 'k, 'c) sched" where
  "interrupt_waiter os w s =
     (let (iw, k) = EIoWaiter_interrupt os (sc_waiters s w) (sc_kernel s)
      in EIoWaiter_signal w ((upd_waiter w iw s)\<lparr>sc_kernel := k\<rparr>))"

text \<open>\<open>cur\<close> is the io waiter of the calling thread.\<close>

definition EFiberScheduler_interrupt :: "'k os \<Rightarrow> wptr option \<Rightarrow> ('q, 'k, 'c) sched \<Rightarrow> ('q, 'k, 'c) sched" where
  "EFiberScheduler_interrupt os cur s =
     (let s1 = s\<lparr>sc_interrupted := True\<rparr> in
      case sc_stubs s1 of
        Some n \<Rightarrow>
          (if sc_threadNums s1 > 1 then fold (\<lambda>i s. interrupt_waiter os (stub_waiter i) s) [0..<n] s1
           else (case cur of Some w \<Rightarrow> interrupt_waiter os w s1 | None \<Rightarrow> s1))
      | None \<Rightarrow> (case cur of Some w \<Rightarrow> interrupt_waiter os w s1 | None \<Rightarrow> s1))"

section \<open>EFiber::sleep\<close>

text \<open>
  \<open>EFiber::sleep(llong)\<close> up to its yield, and after it. \<open>w\<close> is the io waiter of the thread, \<open>sch\<close>
  says whether there is a scheduler. The first part gives the timer id, or \<open>None\<close> for the
  \<open>EIllegalArgumentException\<close>; the second part is \<open>False\<close> for the \<open>EInterruptedException\<close>.
\<close>

definition EFiber_sleep_start :: "'k os \<Rightarrow> wptr \<Rightarrow> fptr \<Rightarrow> int \<Rightarrow> ('q, 'k, 'c) sched \<Rightarrow> (int \<times> ('q, 'k, 'c) sched) option" where
  "EFiber_sleep_start os w f millis s =
     (if millis < 0 then None
      else
       (let (i, iw, k, s1) = EIoWaiter_setupTimer os millis f (sc_waiters s w) (sc_kernel s) s;
            s2 = (upd_waiter w iw s1)\<lparr>sc_kernel := k\<rparr>
        in Some (i, EFiber_setState f WAITING s2)))"

definition EFiber_sleep_end :: "wptr \<Rightarrow> int \<Rightarrow> bool \<Rightarrow> ('q, 'k, 'c) sched \<Rightarrow> bool \<times> ('q, 'k, 'c) sched" where
  "EFiber_sleep_end w i sch s =
     (let s1 = upd_waiter w (EIoWaiter_cancelTimer i (sc_waiters s w)) s
      in (\<not> (sch \<and> sc_interrupted s1), s1))"

end
