(* ===== verification/Scheduler_Inv.thy ===== *)
theory Scheduler_Inv
  imports Scheduler
begin

text \<open>
  The invariant of a scheduler that works with one thread (\<open>join()\<close>): every live fiber is in
  exactly one place. It is in the task queue and runnable, or it is parked; and a fiber that a
  blocker has parked is in the queue of that blocker. The code that fibers run enters through a
  locale.
\<close>

section \<open>Frame lemmas for the extended state\<close>

lemma upd_waiter_simps [simp, upd_simps]:
  "rt_fibers (upd_waiter w iw s) = rt_fibers s" "rt_nodes (upd_waiter w iw s) = rt_nodes s"
  "rt_queues (upd_waiter w iw s) = rt_queues s" "rt_signals (upd_waiter w iw s) = rt_signals s"
  "sc_blockers (upd_waiter w iw s) = sc_blockers s" "sc_waiters (upd_waiter w iw s) = (sc_waiters s)(w := iw)"
  "sc_hung (upd_waiter w iw s) = sc_hung s" "sc_kernel (upd_waiter w iw s) = sc_kernel s"
  "sc_total (upd_waiter w iw s) = sc_total s" "sc_interrupted (upd_waiter w iw s) = sc_interrupted s"
  "sc_stubs (upd_waiter w iw s) = sc_stubs s"
  by (simp_all add: upd_waiter_def)

lemma upd_blocker_simps [simp, upd_simps]:
  "rt_fibers (upd_blocker bp b s) = rt_fibers s" "rt_nodes (upd_blocker bp b s) = rt_nodes s"
  "rt_queues (upd_blocker bp b s) = rt_queues s" "rt_signals (upd_blocker bp b s) = rt_signals s"
  "sc_blockers (upd_blocker bp b s) = (sc_blockers s)(bp := b)" "sc_waiters (upd_blocker bp b s) = sc_waiters s"
  "sc_hung (upd_blocker bp b s) = sc_hung s" "sc_kernel (upd_blocker bp b s) = sc_kernel s"
  "sc_total (upd_blocker bp b s) = sc_total s" "sc_interrupted (upd_blocker bp b s) = sc_interrupted s"
  "sc_stubs (upd_blocker bp b s) = sc_stubs s"
  by (simp_all add: upd_blocker_def)

text \<open>Two states with the same extension agree on the scheduler's own fields.\<close>

lemma more_eq:
  fixes s s' :: "('q, 'k, 'c) sched"
  assumes "rt.more s' = rt.more s"
  shows "sc_blockers s' = sc_blockers s" "sc_waiters s' = sc_waiters s" "sc_hung s' = sc_hung s"
    "sc_kernel s' = sc_kernel s" "sc_total s' = sc_total s" "sc_interrupted s' = sc_interrupted s"
    "sc_stubs s' = sc_stubs s" "sc_code s' = sc_code s"
  using assms by (cases s; cases s'; simp)+

lemma upd_fiber_more [simp]:
  "sc_blockers (upd_fiber f g s) = sc_blockers s" "sc_waiters (upd_fiber f g s) = sc_waiters s"
  "sc_hung (upd_fiber f g s) = sc_hung s" "sc_kernel (upd_fiber f g s) = sc_kernel s"
  "sc_total (upd_fiber f g s) = sc_total s" "sc_interrupted (upd_fiber f g s) = sc_interrupted s"
  "sc_stubs (upd_fiber f g s) = sc_stubs s"
  by (simp_all add: upd_fiber_def)

lemma cq_add_more [simp]:
  "rt.more (cq_add q e s) = rt.more s"
  by (simp add: cq_add_def Let_def)

section \<open>The invariant\<close>

definition blocked_ok :: "('q \<Rightarrow> waiter list) \<Rightarrow> fptr set \<Rightarrow> ('q, 'k, 'c) sched \<Rightarrow> bool" where
  "blocked_ok view L s \<longleftrightarrow> (\<forall>f\<in>L. fb_state (rt_fibers s f) = BLOCKED \<longrightarrow>
     (\<exists>bp. fb_blocker (rt_fibers s f) = Some bp \<and> WFiber f \<in> set (view (bl_waitQueue (sc_blockers s bp)))))"

definition blockers_ok :: "(waiter, 'q) cxx_queue \<Rightarrow> ('q \<Rightarrow> waiter list) \<Rightarrow> fptr set \<Rightarrow> ('q, 'k, 'c) sched \<Rightarrow> bool" where
  "blockers_ok Q view F s \<longleftrightarrow>
     (\<forall>bp. \<exists>p l ws. blk_sem Q view (sc_blockers s bp) p l ws \<and> (\<forall>f. WFiber f \<in> set ws \<longrightarrow> f \<in> F))"

definition states_ok :: "fptr set \<Rightarrow> ('q, 'k, 'c) sched \<Rightarrow> bool" where
  "states_ok L s \<longleftrightarrow> (\<forall>f\<in>L. fb_state (rt_fibers s f) = RUNNABLE \<or> parked f s)"

definition sched_ok :: "(waiter, 'q) cxx_queue \<Rightarrow> ('q \<Rightarrow> waiter list) \<Rightarrow> ('k \<Rightarrow> int \<rightharpoonup> int) \<Rightarrow>
    fptr set \<Rightarrow> fptr set \<Rightarrow> fptr set \<Rightarrow> ('q, 'k, 'c) sched \<Rightarrow> bool" where
  "sched_ok Q view interest L F R s \<longleftrightarrow>
     finite L \<and> sc_total s = int (card L) \<and> sc_stubs s = None \<and>
     rt_ok {default_queue} L F R s \<and> states_ok L s \<and> blocked_ok view L s \<and> blockers_ok Q view F s \<and>
     waiter_ok F (sc_waiters s default_waiter) \<and>
     synced interest (iw_poll (sc_waiters s default_waiter)) (sc_kernel s)"

lemma sched_okD:
  assumes "sched_ok Q view interest L F R s"
  shows "finite L" "sc_total s = int (card L)" "sc_stubs s = None" "rt_ok {default_queue} L F R s" "states_ok L s"
    "blocked_ok view L s" "blockers_ok Q view F s" "waiter_ok F (sc_waiters s default_waiter)"
    "synced interest (iw_poll (sc_waiters s default_waiter)) (sc_kernel s)"
  using assms unfolding sched_ok_def by blast+

text \<open>
  The state after fiber \<open>f\<close> has run and before the scheduler looks at it: as above, if \<open>f\<close> is
  counted as running whatever its new state is. Nobody has posted to the blocker that \<open>f\<close> wants
  to wait on since \<open>f\<close> looked at it (there is no other thread).
\<close>

definition sched_ran :: "(waiter, 'q) cxx_queue \<Rightarrow> ('q \<Rightarrow> waiter list) \<Rightarrow> ('k \<Rightarrow> int \<rightharpoonup> int) \<Rightarrow>
    fptr \<Rightarrow> fptr set \<Rightarrow> fptr set \<Rightarrow> ('q, 'k, 'c) sched \<Rightarrow> bool" where
  "sched_ran Q view interest f L F s \<longleftrightarrow>
     sched_ok Q view interest L F {f} (EFiber_setState f RUNNABLE s) \<and> f \<in> F \<and> f \<in> L \<and>
     (case fb_state (rt_fibers s f) of
        NEW \<Rightarrow> False
      | BLOCKED \<Rightarrow> (\<exists>bp. fb_blocker (rt_fibers s f) = Some bp \<and> bl_wakeup (sc_blockers s bp) = 0)
      | _ \<Rightarrow> True)"

section \<open>A round of the io waiter keeps the invariant\<close>

lemma io_round_ok:
  assumes os: "os_ok os interest clk" and ok: "sched_ok Q view interest L F R s"
  shows "\<exists>s'. io_round os t default_waiter timeout s = Some s' \<and> sched_ok Q view interest L F R s' \<and>
     sc_interrupted s' = sc_interrupted s \<and> (\<forall>g. parked g s' \<longrightarrow> parked g s)"
proof -
  note d = sched_okD [OF ok]
  obtain n iw k s1 where r: "EIoWaiter_onceProcessEvents os t default_waiter timeout (sc_waiters s default_waiter)
        (sc_kernel s) s = Some (n, iw, k, s1)" "rt_ok {default_queue} L F R s1" "wakes F s s1" "waiter_ok F iw"
      "synced interest (iw_poll iw) k"
    using EIoWaiter_round [OF os d(4,8,9), of t default_waiter timeout] by blast
  define s' where "s' = (upd_waiter default_waiter iw s1)\<lparr>sc_kernel := k\<rparr>"
  have e: "io_round os t default_waiter timeout s = Some s'" by (simp add: io_round_def r(1) s'_def)
  note m = more_eq [OF wakes_more [OF r(3)]]
  have f: "rt_fibers s' = rt_fibers s1" "rt_nodes s' = rt_nodes s1" "rt_queues s' = rt_queues s1"
      "sc_blockers s' = sc_blockers s" "sc_total s' = sc_total s" "sc_stubs s' = sc_stubs s"
      "sc_interrupted s' = sc_interrupted s" "sc_waiters s' default_waiter = iw" "sc_kernel s' = k"
    by (simp_all add: s'_def m)
  have pk: "parked g s' \<longleftrightarrow> parked g s1" for g by (simp add: parked_def f)
  have rt: "rt_ok {default_queue} L F R s'" by (rule rt_ok_cong [OF r(2)]) (simp_all add: f pk)
  have st: "states_ok L s'"
    unfolding states_ok_def pk f(1)
  proof
    fix g assume "g \<in> L"
    then have "fb_state (rt_fibers s g) = RUNNABLE \<or> parked g s" using d(5) by (simp add: states_ok_def)
    then show "fb_state (rt_fibers s1 g) = RUNNABLE \<or> parked g s1"
      using wakes_awake [OF r(3), of g] by auto
  qed
  have bo: "blocked_ok view L s'"
    unfolding blocked_ok_def f(1,4)
  proof (intro ballI impI)
    fix g assume g: "g \<in> L" "fb_state (rt_fibers s1 g) = BLOCKED"
    then have "parked g s1" by (simp add: parked_def)
    from wakes_state [OF r(3) this] wakes_blocker [OF r(3) this]
    show "\<exists>bp. fb_blocker (rt_fibers s1 g) = Some bp \<and> WFiber g \<in> set (view (bl_waitQueue (sc_blockers s bp)))"
      using d(6) g unfolding blocked_ok_def by simp
  qed
  have bk: "blockers_ok Q view F s'" using d(7) unfolding blockers_ok_def f(4) .
  have "sched_ok Q view interest L F R s'"
    unfolding sched_ok_def using d(1-3) rt st bo bk r(4,5) f by simp
  then show ?thesis using e f(7) pk wakes_parked [OF r(3)] by blast
qed

section \<open>Taking a fiber from the queue, and binding it\<close>

lemma rt_okD:
  assumes "rt_ok K L F R s"
  shows "\<And>f. f \<in> F \<Longrightarrow> f \<notin> L \<Longrightarrow> \<not> parked f s" "R \<subseteq> L" "\<And>f. f \<in> F \<Longrightarrow> f \<in> L \<Longrightarrow> bound K f s"
    "\<And>f. f \<in> L \<Longrightarrow> f \<notin> F \<Longrightarrow> fb_boundQueue (rt_fibers s f) = None \<and> \<not> parked f s"
    "\<And>f. f \<in> R \<Longrightarrow> \<not> parked f s \<and> nd_value (rt_nodes s (pk s f)) = Some f"
    "\<exists>V. qrep K L s V \<and> (\<forall>f\<in>L. (\<exists>k\<in>K. f \<in> set (V k)) \<longleftrightarrow> \<not> parked f s \<and> f \<notin> R)"
  using assms unfolding rt_ok_def by blast+

lemma poll_ok:
  assumes ok: "rt_ok {q} L F {} s"
  shows "(\<exists>f s'. f \<in> L \<and> \<not> parked f s \<and> cq_poll q s = Some (Some f, s') \<and> rt_ok {q} L F {f} s' \<and>
       rt.more s' = rt.more s \<and>
       (\<forall>g. fb_state (rt_fibers s' g) = fb_state (rt_fibers s g) \<and> fb_blocker (rt_fibers s' g) = fb_blocker (rt_fibers s g))) \<or>
     cq_poll q s = Some (None, s) \<and> (\<forall>f\<in>L. parked f s)"
proof -
  note d = rt_okD [OF ok]
  obtain V where V: "qrep {q} L s V" "\<forall>f\<in>L. f \<in> set (V q) \<longleftrightarrow> \<not> parked f s"
    using d(6) by auto
  show ?thesis
  proof (cases "V q")
    case Nil
    then show ?thesis using cq_poll_empty [OF V(1)] V(2) by simp
  next
    case (Cons f es)
    note pe = cq_poll_nonempty [OF V(1) _ Cons]
    define s' where "s' = upd_fiber f (\<lambda>fb. fb\<lparr>fb_packing := hd_node s q\<rparr>)
        (upd_node (hd_node s q) (\<lambda>nd. nd\<lparr>nd_value := Some f\<rparr>) (upd_queue q (\<lambda>c. c\<lparr>cq_head := pk s f\<rparr>) s))"
    have p: "cq_poll q s = Some (Some f, s')" using pe by (simp add: s'_def)
    have fL: "f \<in> L" using qrep_sub [OF V(1)] Cons by auto
    have np: "\<not> parked f s" using V(2) fL Cons by (metis list.set_intros(1))
    have r': "qrep {q} L s' (V(q := es))" using qrep_poll [OF V(1) _ Cons p] by simp
    have di: "f \<notin> set es" using qrep_distinct [OF V(1), of q] Cons by simp
    have fs: "fb_state (rt_fibers s' g) = fb_state (rt_fibers s g)"
        "fb_blocker (rt_fibers s' g) = fb_blocker (rt_fibers s g)"
        "fb_boundQueue (rt_fibers s' g) = fb_boundQueue (rt_fibers s g)" for g
      by (simp_all add: s'_def)
    have pk': "parked g s' \<longleftrightarrow> parked g s" for g by (simp add: parked_def fs)
    have "bound {q} g s'" if "g \<in> F \<inter> L" for g
      using bound_poll [OF V(1) _ Cons _ d(3) p] that by auto
    moreover have "nd_value (rt_nodes s' (pk s' f)) = Some f"
      using poll_owns [OF V(1) _ Cons p] by simp
    moreover have "\<forall>g\<in>L. (\<exists>k\<in>{q}. g \<in> set ((V(q := es)) k)) \<longleftrightarrow> \<not> parked g s' \<and> g \<notin> {f}"
      using V(2) Cons di unfolding pk' by auto
    moreover have "\<forall>g\<in>L - F. fb_boundQueue (rt_fibers s' g) = None \<and> \<not> parked g s'"
      using d(4) unfolding fs pk' by blast
    ultimately have "rt_ok {q} L F {f} s'"
      unfolding rt_ok_def using r' d(1) fL np pk' by (intro conjI exI [of _ "V(q := es)"]) auto
    moreover have "rt.more s' = rt.more s" by (simp add: s'_def)
    ultimately show ?thesis using p fL np fs by blast
  qed
qed

lemma sched_poll:
  assumes ok: "sched_ok Q view interest L F {} s"
  shows "(\<exists>f s'. f \<in> L \<and> cq_poll default_queue s = Some (Some f, s') \<and> sched_ok Q view interest L F {f} s' \<and>
       fb_state (rt_fibers s' f) = RUNNABLE \<and> sc_interrupted s' = sc_interrupted s) \<or>
     cq_poll default_queue s = Some (None, s) \<and> (\<forall>f\<in>L. parked f s)"
proof -
  note d = sched_okD [OF ok]
  from poll_ok [OF d(4)] show ?thesis
  proof
    assume "\<exists>f s'. f \<in> L \<and> \<not> parked f s \<and> cq_poll default_queue s = Some (Some f, s') \<and>
       rt_ok {default_queue} L F {f} s' \<and> rt.more s' = rt.more s \<and>
       (\<forall>g. fb_state (rt_fibers s' g) = fb_state (rt_fibers s g) \<and> fb_blocker (rt_fibers s' g) = fb_blocker (rt_fibers s g))"
    then obtain f s' where p: "f \<in> L" "\<not> parked f s" "cq_poll default_queue s = Some (Some f, s')"
       "rt_ok {default_queue} L F {f} s'" "rt.more s' = rt.more s"
       "\<And>g. fb_state (rt_fibers s' g) = fb_state (rt_fibers s g)"
       "\<And>g. fb_blocker (rt_fibers s' g) = fb_blocker (rt_fibers s g)"
      by blast
    note m = more_eq [OF p(5)]
    have pk: "parked g s' \<longleftrightarrow> parked g s" for g by (simp add: parked_def p(6))
    have "sched_ok Q view interest L F {f} s'"
      using d p(4) unfolding sched_ok_def states_ok_def blocked_ok_def blockers_ok_def m p(6,7) pk by blast
    moreover have "fb_state (rt_fibers s' f) = RUNNABLE"
      using d(5) p(1,2) unfolding states_ok_def p(6) by blast
    ultimately show ?thesis using p m(6) by blast
  qed blast
qed

lemma bind_ok:
  assumes ok: "sched_ok Q view interest L F {f} s" and f: "f \<in> L"
  shows "sched_ok Q view interest L (insert f F) {f} (bind_fiber default_queue t default_waiter f s)"
    and "fb_state (rt_fibers (bind_fiber default_queue t default_waiter f s) f) = fb_state (rt_fibers s f)"
    and "sc_interrupted (bind_fiber default_queue t default_waiter f s) = sc_interrupted s"
proof -
  note d = sched_okD [OF ok] and r = rt_okD [OF sched_okD(4) [OF ok]]
  let ?s = "bind_fiber default_queue t default_waiter f s"
  have e: "rt_nodes ?s = rt_nodes s" "rt_queues ?s = rt_queues s" "sc_blockers ?s = sc_blockers s"
      "sc_waiters ?s = sc_waiters s" "sc_kernel ?s = sc_kernel s" "sc_total ?s = sc_total s"
      "sc_interrupted ?s = sc_interrupted s" "sc_stubs ?s = sc_stubs s"
      "\<And>g. g \<noteq> f \<Longrightarrow> rt_fibers ?s g = rt_fibers s g"
      "\<And>g. fb_state (rt_fibers ?s g) = fb_state (rt_fibers s g)"
      "\<And>g. fb_blocker (rt_fibers ?s g) = fb_blocker (rt_fibers s g)"
      "\<And>g. pk ?s g = pk s g"
      "fb_iowaiter (rt_fibers ?s f) = Some default_waiter"
      "fb_boundQueue (rt_fibers ?s f) = (if fb_boundQueue (rt_fibers s f) = None then Some default_queue
         else fb_boundQueue (rt_fibers s f))"
    by (auto simp: bind_fiber_def EFiber_setIoWaiter_def Let_def)
  show "fb_state (rt_fibers ?s f) = fb_state (rt_fibers s f)" by (rule e(10))
  show "sc_interrupted ?s = sc_interrupted s" by (rule e(7))
  have pk: "parked g ?s \<longleftrightarrow> parked g s" for g by (simp add: parked_def e)
  obtain V where V: "qrep {default_queue} L s V"
      "\<forall>g\<in>L. (\<exists>k\<in>{default_queue}. g \<in> set (V k)) \<longleftrightarrow> \<not> parked g s \<and> g \<notin> {f}"
    using r(6) by blast
  have "qrep {default_queue} L ?s V" by (rule qrep_cong [OF V(1)]) (simp_all add: e)
  moreover have "bound {default_queue} g ?s" if "g \<in> insert f F \<inter> L" for g
  proof (cases "g = f")
    case True
    have "nd_value (rt_nodes s (pk s f)) = Some f" using r(5) by blast
    moreover have "fb_boundQueue (rt_fibers s f) = None \<or> fb_boundQueue (rt_fibers s f) = Some default_queue"
      using r(3) [of f] r(4) [OF f] f by (auto simp: bound_def)
    ultimately show ?thesis using True e by (auto simp: bound_def)
  next
    case False
    then have "g \<in> F" "g \<in> L" using that f by blast+
    then show ?thesis using r(3) e(9) [OF False] unfolding bound_def e(1) by simp
  qed
  moreover have "\<forall>g\<in>L - insert f F. fb_boundQueue (rt_fibers ?s g) = None \<and> \<not> parked g ?s"
    using r(4) e(9) unfolding pk by auto
  moreover have "\<forall>g\<in>{f}. \<not> parked g ?s \<and> nd_value (rt_nodes ?s (pk ?s g)) = Some g"
    using r(5) unfolding pk e(1,12) by blast
  ultimately have rt: "rt_ok {default_queue} L (insert f F) {f} ?s"
    unfolding rt_ok_def using r(1) f V(2) unfolding pk by (intro conjI exI [of _ V]) blast+
  have "blockers_ok Q view (insert f F) ?s"
    using d(7) unfolding blockers_ok_def e(3) by blast
  moreover have "waiter_ok (insert f F) (sc_waiters s default_waiter)"
    using d(8) unfolding waiter_ok_def fe_serves_def te_serves_def by blast
  ultimately show "sched_ok Q view interest L (insert f F) {f} ?s"
    using d rt unfolding sched_ok_def states_ok_def blocked_ok_def pk e by blast
qed

section \<open>After the fiber has run\<close>

text \<open>Putting a fiber that ran back into the queue.\<close>

lemma requeue_ok:
  assumes ok: "rt_ok {q} L F {f} s" and f: "f \<in> L"
  shows "rt_ok {q} L F {} (cq_add q f s)"
proof -
  note r = rt_okD [OF ok]
  obtain V where V: "qrep {q} L s V" "\<forall>g\<in>L. g \<in> set (V q) \<longleftrightarrow> \<not> parked g s \<and> g \<noteq> f"
    using r(6) by auto
  have pk: "parked g (cq_add q f s) \<longleftrightarrow> parked g s" for g by (simp add: parked_def cq_add_fields)
  have fr: "\<forall>k\<in>{q}. f \<notin> set (V k)" using V(2) f by auto
  have "qrep {q} L (cq_add q f s) (V(q := V q @ [f]))" using qrep_add [OF V(1) _ f fr] by simp
  moreover have "bound {q} g (cq_add q f s)" if "g \<in> F \<inter> L" for g
    by (rule bound_add [OF V(1)]) (use that r(3) f in auto)
  moreover have "\<forall>g\<in>L - F. fb_boundQueue (rt_fibers (cq_add q f s) g) = None \<and> \<not> parked g (cq_add q f s)"
    using r(4) unfolding pk by (simp add: cq_add_fields)
  moreover have "\<forall>g\<in>L. (\<exists>k\<in>{q}. g \<in> set ((V(q := V q @ [f])) k)) \<longleftrightarrow> \<not> parked g (cq_add q f s) \<and> g \<notin> {}"
    using V(2) r(5) unfolding pk by auto
  moreover have "\<forall>g\<in>F - L. \<not> parked g (cq_add q f s)" using r(1) unfolding pk by blast
  ultimately show ?thesis
    unfolding rt_ok_def by (intro conjI exI [of _ "V(q := V q @ [f])"]) blast+
qed

text \<open>A fiber that ran and parked itself.\<close>

lemma leave_parked:
  assumes ok: "rt_ok {q} L F {f} s0" and f: "f \<in> F" "f \<in> L" and p: "parked f s"
    and e: "rt_nodes s = rt_nodes s0" "rt_queues s = rt_queues s0" "\<And>g. g \<noteq> f \<Longrightarrow> rt_fibers s g = rt_fibers s0 g"
      "fb_packing (rt_fibers s f) = fb_packing (rt_fibers s0 f)"
      "fb_boundQueue (rt_fibers s f) = fb_boundQueue (rt_fibers s0 f)"
      "fb_iowaiter (rt_fibers s f) = fb_iowaiter (rt_fibers s0 f)"
  shows "rt_ok {q} L F {} s"
proof -
  note r = rt_okD [OF ok]
  obtain V where V: "qrep {q} L s0 V" "\<forall>g\<in>L. g \<in> set (V q) \<longleftrightarrow> \<not> parked g s0 \<and> g \<noteq> f"
    using r(6) by auto
  have pk: "pk s g = pk s0 g" for g using e(3,4) by (cases "g = f") auto
  have pa: "parked g s \<longleftrightarrow> parked g s0 \<or> g = f" for g
    using e(3) [of g] p by (cases "g = f") (auto simp: parked_def)
  have "qrep {q} L s V" by (rule qrep_cong [OF V(1)]) (simp_all add: pk e)
  moreover have "bound {q} g s" if "g \<in> F \<inter> L" for g
    using r(3) [of g] that e(3) [of g] e(5,6) unfolding bound_def pk e(1) by (cases "g = f") auto
  moreover have "\<forall>g\<in>L - F. fb_boundQueue (rt_fibers s g) = None \<and> \<not> parked g s"
  proof
    fix g assume "g \<in> L - F"
    then have g: "g \<in> L" "g \<notin> F" "g \<noteq> f" using f by auto
    show "fb_boundQueue (rt_fibers s g) = None \<and> \<not> parked g s"
      unfolding pa e(3) [OF g(3)] using r(4) [OF g(1,2)] g(3) by blast
  qed
  moreover have "\<forall>g\<in>L. (\<exists>k\<in>{q}. g \<in> set (V k)) \<longleftrightarrow> \<not> parked g s \<and> g \<notin> {}"
    using V(2) unfolding pa by auto
  moreover have "\<forall>g\<in>F - L. \<not> parked g s" using r(1) f unfolding pa by blast
  ultimately show ?thesis unfolding rt_ok_def by (intro conjI exI [of _ V]) blast+
qed

text \<open>A fiber that ended.\<close>

lemma leave_dead:
  assumes ok: "rt_ok {q} L F {f} s"
  shows "rt_ok {q} (L - {f}) F {} s"
proof -
  note r = rt_okD [OF ok]
  obtain V where V: "qrep {q} L s V" "\<forall>g\<in>L. g \<in> set (V q) \<longleftrightarrow> \<not> parked g s \<and> g \<noteq> f"
    using r(6) by auto
  have "f \<notin> set (V q)" using V(2) r(2) by blast
  then have "qrep {q} (L - {f}) s V"
    using V(1) unfolding qrep_def by (auto intro: inj_on_subset)
  moreover have "\<forall>g\<in>F - (L - {f}). \<not> parked g s" using r(1,5) by blast
  ultimately show ?thesis unfolding rt_ok_def using r V(2) by (intro conjI exI [of _ V]) auto
qed

lemma after_run_ok:
  assumes Q: "cxx_fifo Q view" and ran: "sched_ran Q view interest f L F s"
  shows "\<exists>s' L'. after_run Q default_queue f s = Some s' \<and> sched_ok Q view interest L' F {} s' \<and>
     L' = (if fb_state (rt_fibers s f) = TERMINATED then L - {f} else L) \<and>
     sc_interrupted s' = sc_interrupted s"
proof -
  define s0 where "s0 = EFiber_setState f RUNNABLE s"
  have ok: "sched_ok Q view interest L F {f} s0" and f: "f \<in> F" and fL: "f \<in> L" using ran by (auto simp: sched_ran_def s0_def)
  note d = sched_okD [OF ok] and r = rt_okD [OF sched_okD(4) [OF ok]]
  have e: "rt_nodes s = rt_nodes s0" "rt_queues s = rt_queues s0" "sc_blockers s = sc_blockers s0"
      "sc_waiters s = sc_waiters s0" "sc_kernel s = sc_kernel s0" "sc_total s = sc_total s0" "sc_stubs s = sc_stubs s0"
      "sc_interrupted s = sc_interrupted s0"
      "\<And>g. g \<noteq> f \<Longrightarrow> rt_fibers s g = rt_fibers s0 g" "\<And>g. pk s g = pk s0 g"
      "fb_boundQueue (rt_fibers s f) = fb_boundQueue (rt_fibers s0 f)"
      "fb_iowaiter (rt_fibers s f) = fb_iowaiter (rt_fibers s0 f)"
    by (auto simp: s0_def EFiber_setState_def)
  show ?thesis
  proof (cases "fb_state (rt_fibers s f)")
    case NEW
    then show ?thesis using ran by (simp add: sched_ran_def)
  next
    case RUNNABLE
    then have "s0 = s" by (simp add: s0_def EFiber_setState_def upd_fiber_def fun_upd_idem)
    note d = d [unfolded this]
    note m = more_eq [OF cq_add_more [of default_queue f s]]
    have pk: "parked g (cq_add default_queue f s) \<longleftrightarrow> parked g s" for g by (simp add: parked_def cq_add_fields)
    have "sched_ok Q view interest L F {} (cq_add default_queue f s)"
      unfolding sched_ok_def states_ok_def blocked_ok_def blockers_ok_def m pk cq_add_fields(1)
      using d requeue_ok [OF d(4) fL] unfolding states_ok_def blocked_ok_def blockers_ok_def by blast
    then show ?thesis using RUNNABLE m(6) by (simp add: after_run_def)
  next
    case WAITING
    then have "parked f s" by (simp add: parked_def)
    have rt: "rt_ok {default_queue} L F {} s"
      by (rule leave_parked [OF d(4) f fL \<open>parked f s\<close>]) (simp_all add: e)
    have st: "states_ok L s"
      using d(5) \<open>parked f s\<close> e(9) unfolding states_ok_def parked_def by metis
    have "blocked_ok view L s"
      using d(6) WAITING e(9) unfolding blocked_ok_def e(3) by (metis fstate.distinct)
    then have "sched_ok Q view interest L F {} s"
      using d rt st unfolding sched_ok_def blockers_ok_def e by blast
    then show ?thesis using WAITING by (simp add: after_run_def)
  next
    case BLOCKED
    obtain bp where bp: "fb_blocker (rt_fibers s f) = Some bp" "bl_wakeup (sc_blockers s bp) = 0"
      using ran BLOCKED by (auto simp: sched_ran_def)
    obtain p l ws where b: "blk_sem Q view (sc_blockers s0 bp) p l ws" "\<forall>g. WFiber g \<in> set ws \<longrightarrow> g \<in> F"
      using d(7) unfolding blockers_ok_def by blast
    have "p = 0" using blk_semD(6) [OF b(1)] bp(2) unfolding e(3) by simp
    then obtain b' where b': "EFiberBlocker_swapOut Q f (sc_blockers s bp) = (True, b')"
        "blk_sem Q view b' 0 l (ws @ [WFiber f])"
      using blk_park_law [OF b(1), of "WFiber f"] unfolding e(3) by (auto simp: blk_park_def)
    define s' where "s' = upd_blocker bp b' s"
    have a: "after_run Q default_queue f s = Some s'"
      using BLOCKED bp(1) b'(1) by (simp add: after_run_def s'_def)
    have pf: "parked f s'" using BLOCKED by (simp add: parked_def s'_def)
    have rt: "rt_ok {default_queue} L F {} s'"
      by (rule leave_parked [OF d(4) f fL pf]) (simp_all add: e s'_def)
    have st: "states_ok L s'"
      using d(5) pf e(9) unfolding states_ok_def parked_def s'_def upd_blocker_simps by metis
    have sub: "set ws \<subseteq> set (view (bl_waitQueue b'))" "WFiber f \<in> set (view (bl_waitQueue b'))"
      using blk_semD(4) [OF b'(2)] by auto
    have ws: "set (view (bl_waitQueue (sc_blockers s0 bp))) = set ws" using blk_semD(4) [OF b(1)] by simp
    have bo: "blocked_ok view L s'"
      unfolding blocked_ok_def
    proof (intro ballI impI)
      fix g assume g: "g \<in> L" "fb_state (rt_fibers s' g) = BLOCKED"
      show "\<exists>bp'. fb_blocker (rt_fibers s' g) = Some bp' \<and> WFiber g \<in> set (view (bl_waitQueue (sc_blockers s' bp')))"
      proof (cases "g = f")
        case True
        then show ?thesis using bp(1) sub(2) by (simp add: s'_def)
      next
        case False
        then obtain bp' where "fb_blocker (rt_fibers s0 g) = Some bp'"
            "WFiber g \<in> set (view (bl_waitQueue (sc_blockers s0 bp')))"
          using d(6) g e(9) [OF False] unfolding blocked_ok_def s'_def by auto
        then show ?thesis using sub(1) ws e(9) [OF False] by (auto simp: s'_def e(3))
      qed
    qed
    have bk: "blockers_ok Q view F s'"
      unfolding blockers_ok_def
    proof
      fix bp'
      show "\<exists>p l ws. blk_sem Q view (sc_blockers s' bp') p l ws \<and> (\<forall>g. WFiber g \<in> set ws \<longrightarrow> g \<in> F)"
      proof (cases "bp' = bp")
        case True
        have "\<forall>g. WFiber g \<in> set (ws @ [WFiber f]) \<longrightarrow> g \<in> F" using b(2) f by auto
        then show ?thesis using b'(2) True unfolding s'_def by (simp only: upd_blocker_simps fun_upd_same) blast
      next
        case False
        then show ?thesis using d(7) by (simp add: s'_def blockers_ok_def e(3))
      qed
    qed
    have "sched_ok Q view interest L F {} s'"
      using d rt st bo bk unfolding sched_ok_def by (simp add: s'_def e)
    then show ?thesis using a BLOCKED by (simp add: s'_def)
  next
    case TERMINATED
    define s' where "s' = s\<lparr>sc_total := sc_total s - 1\<rparr>"
    have rt0: "rt_ok {default_queue} (L - {f}) F {} s0" by (rule leave_dead [OF d(4)])
    have np: "\<not> parked f s'" using TERMINATED by (simp add: s'_def parked_def)
    note r0 = rt_okD [OF rt0]
    obtain V where V: "qrep {default_queue} (L - {f}) s0 V"
        "\<forall>g\<in>L - {f}. (\<exists>k\<in>{default_queue}. g \<in> set (V k)) \<longleftrightarrow> \<not> parked g s0 \<and> g \<notin> {}"
      using r0(6) by blast
    have ss: "rt_nodes s' = rt_nodes s0" "rt_queues s' = rt_queues s0" "\<And>g. g \<noteq> f \<Longrightarrow> rt_fibers s' g = rt_fibers s0 g"
      "\<And>g. pk s' g = pk s0 g"
      using e by (simp_all add: s'_def)
    have pa: "g \<noteq> f \<Longrightarrow> parked g s' \<longleftrightarrow> parked g s0" for g using ss(3) by (simp add: parked_def)
    have q': "qrep {default_queue} (L - {f}) s' V" by (rule qrep_cong [OF V(1)]) (simp_all add: ss)
    have bd: "bound {default_queue} g s'" if "g \<in> F \<inter> (L - {f})" for g
      using r0(3) [of g] ss(3) [of g] that unfolding bound_def ss(1,4) by simp
    have dd: "\<not> parked g s'" if "g \<in> F - (L - {f})" for g
      using r0(1) [of g] np pa [of g] that by (cases "g = f") auto
    have rt: "rt_ok {default_queue} (L - {f}) F {} s'"
      unfolding rt_ok_def using r0(4) q' bd dd V(2) pa ss(3) by (intro conjI exI [of _ V]) auto
    have st: "states_ok (L - {f}) s'"
      using d(5) pa ss(3) unfolding states_ok_def by auto
    have bo: "blocked_ok view (L - {f}) s'"
      using d(6) ss(3) unfolding blocked_ok_def by (auto simp: s'_def e(3))
    have "sched_ok Q view interest (L - {f}) F {} s'"
      unfolding sched_ok_def using d rt st bo fL card_gt_0_iff [of L]
      by (auto simp: s'_def e blockers_ok_def)
    then show ?thesis using TERMINATED by (simp add: after_run_def s'_def)
  qed
qed

section \<open>The code that fibers run\<close>

text \<open>
  What the scheduler expects from the code between two yields of a fiber: started in a good
  state in which the fiber is the running one, it comes back (it yields or ends) in a state as
  described by \<open>sched_ran\<close>; fibers may have been added meanwhile.
\<close>

locale fiber_code =
  fixes Q :: "(waiter, 'q) cxx_queue" and view :: "'q \<Rightarrow> waiter list"
    and os :: "'k os" and interest :: "'k \<Rightarrow> int \<rightharpoonup> int" and clk :: "'k \<Rightarrow> int"
    and run :: "fptr \<Rightarrow> ('q, 'k, 'c) sched \<Rightarrow> ('q, 'k, 'c) sched option"
  assumes run_ok: "cxx_fifo Q view \<Longrightarrow> os_ok os interest clk \<Longrightarrow> sched_ok Q view interest L F {f} s \<Longrightarrow> f \<in> F \<Longrightarrow> f \<in> L \<Longrightarrow> fb_state (rt_fibers s f) = RUNNABLE \<Longrightarrow>
      \<exists>L' s'. run f s = Some s' \<and> L \<subseteq> L' \<and> sched_ran Q view interest f L' F s'"
begin

lemma turn_ok:
  assumes fifo: "cxx_fifo Q view" and kernel: "os_ok os interest clk" and ok: "sched_ok Q view interest L F {} s"
  shows "\<exists>tn s' L' F'. EFiberScheduler_join_turn os Q run t s = Some (tn, s') \<and> sched_ok Q view interest L' F' {} s' \<and>
     F \<subseteq> F' \<and> (tn = Break \<longrightarrow> L' = {}) \<and> (tn = Interrupted \<longleftrightarrow> sc_interrupted s)"
proof (cases "sc_interrupted s")
  case True
  then show ?thesis using ok by (auto simp: EFiberScheduler_join_turn_def)
next
  case ni: False
  note d = sched_okD [OF ok]
  from sched_poll [OF ok] show ?thesis
  proof
    assume e: "cq_poll default_queue s = Some (None, s) \<and> (\<forall>f\<in>L. parked f s)"
    show ?thesis
    proof (cases "sc_total s > 0")
      case True
      obtain s' where "io_round os t default_waiter 3000 s = Some s'" "sched_ok Q view interest L F {} s'"
        using io_round_ok [OF kernel ok] by blast
      then show ?thesis using e True ni by (auto simp: EFiberScheduler_join_turn_def)
    next
      case False
      then have "L = {}" using d(1,2) by simp
      then show ?thesis using e False ni ok by (auto simp: EFiberScheduler_join_turn_def)
    qed
  next
    assume "\<exists>f s'. f \<in> L \<and> cq_poll default_queue s = Some (Some f, s') \<and> sched_ok Q view interest L F {f} s' \<and>
       fb_state (rt_fibers s' f) = RUNNABLE \<and> sc_interrupted s' = sc_interrupted s"
    then obtain f s1 where p: "f \<in> L" "cq_poll default_queue s = Some (Some f, s1)"
        "sched_ok Q view interest L F {f} s1" "fb_state (rt_fibers s1 f) = RUNNABLE"
      by blast
    define io where "io = (if EIoWaiter_getWaitersCount (sc_waiters s1 default_waiter) > 0
        then io_round os t default_waiter 0 s1 else Some s1)"
    obtain s2 where s2: "io = Some s2" "sched_ok Q view interest L F {f} s2" "\<not> parked f s2"
    proof (cases "EIoWaiter_getWaitersCount (sc_waiters s1 default_waiter) > 0")
      case True
      obtain s' where "io_round os t default_waiter 0 s1 = Some s'" "sched_ok Q view interest L F {f} s'"
          "\<forall>g. parked g s' \<longrightarrow> parked g s1"
        using io_round_ok [OF kernel p(3)] by blast
      moreover have "\<not> parked f s1" using p(4) by (simp add: parked_def)
      ultimately show ?thesis using that [of s'] True unfolding io_def by auto
    next
      case False
      then show ?thesis using that [of s1] p(3,4) by (simp add: io_def parked_def)
    qed
    have "fb_state (rt_fibers s2 f) = RUNNABLE"
      using sched_okD(5) [OF s2(2)] s2(3) p(1) unfolding states_ok_def by blast
    note b = bind_ok [OF s2(2) p(1), of t]
    define s3 where "s3 = bind_fiber default_queue t default_waiter f s2"
    have s3: "sched_ok Q view interest L (insert f F) {f} s3" "fb_state (rt_fibers s3 f) = RUNNABLE"
      using b \<open>fb_state (rt_fibers s2 f) = RUNNABLE\<close> by (simp_all add: s3_def)
    obtain L' s4 where s4: "run f s3 = Some s4" "L \<subseteq> L'" "sched_ran Q view interest f L' (insert f F) s4"
      using run_ok [OF fifo kernel s3(1) insertI1 p(1) s3(2)] by blast
    obtain s5 L'' where s5: "after_run Q default_queue f s4 = Some s5" "sched_ok Q view interest L'' (insert f F) {} s5"
      using after_run_ok [OF fifo s4(3)] by blast
    have "EFiberScheduler_join_turn os Q run t s = Some (Continue, s5)"
      using ni p(2) s2(1) s4(1) s5(1) unfolding EFiberScheduler_join_turn_def io_def s3_def by simp
    then show ?thesis using s5(2) ni by auto
  qed
qed

text \<open>
  When \<open>join()\<close> returns, it has either been interrupted, or all fibers have ended; the queue and
  the waiter are in a good state in both cases.
\<close>

lemma join_result:
  assumes fifo: "cxx_fifo Q view" and kernel: "os_ok os interest clk"
    and j: "EFiberScheduler_join os Q run t s = Some (r, s')" and ok: "sched_ok Q view interest L F {} s"
  shows "\<exists>L' F'. sched_ok Q view interest L' F' {} s' \<and> (r \<longrightarrow> L' = {} \<and> sc_total s' = 0) \<and> (\<not> r \<longrightarrow> sc_interrupted s')"
proof -
  let ?G = "\<lambda>y. \<exists>L' F'. sched_ok Q view interest L' F' {} (snd y) \<and> (fst y \<longrightarrow> L' = {} \<and> sc_total (snd y) = 0) \<and>
      (\<not> fst y \<longrightarrow> sc_interrupted (snd y))"
  let ?P = "\<lambda>os' Q' run' t' s y. os' = os \<and> Q' = Q \<and> run' = run \<and> t' = t \<longrightarrow>
      (\<forall>L F. sched_ok Q view interest L F {} s \<longrightarrow> ?G y)"
  have "?P os Q run t s (r, s')"
  proof (rule EFiberScheduler_join.raw_induct [where P = ?P, OF _ j], intro impI allI)
    fix join os' Q' run' t' s y L F
    assume IH: "\<And>os' Q' run' t' s y. join os' Q' run' t' s = Some y \<Longrightarrow> ?P os' Q' run' t' s y"
      and y: "(case EFiberScheduler_join_turn os' Q' run' t' s of None \<Rightarrow> None
        | Some (Continue, s') \<Rightarrow> join os' Q' run' t' s' | Some (Break, s') \<Rightarrow> Some (True, s')
        | Some (Interrupted, s') \<Rightarrow> Some (False, s')) = Some y"
      and e: "os' = os \<and> Q' = Q \<and> run' = run \<and> t' = t" and s: "sched_ok Q view interest L F {} s"
    obtain tn s1 L1 F1 where t: "EFiberScheduler_join_turn os Q run t s = Some (tn, s1)"
        "sched_ok Q view interest L1 F1 {} s1" "tn = Break \<longrightarrow> L1 = {}" "tn = Interrupted \<longleftrightarrow> sc_interrupted s"
      using turn_ok [OF fifo kernel s, of t] by blast
    have c: "sc_total s1 = int (card L1)" using sched_okD(2) [OF t(2)] .
    show "?G y"
    proof (cases tn)
      case Continue
      then have "join os Q run t s1 = Some y" using y t(1) e by simp
      from IH [OF this] t(2) show ?thesis by blast
    next
      case Break
      then have "y = (True, s1)" using y t(1) e by simp
      then show ?thesis using t(2,3) Break c by auto
    next
      case Interrupted
      then have "y = (False, s1)" using y t(1) e by simp
      moreover have "s1 = s" using t(1,4) Interrupted by (simp add: EFiberScheduler_join_turn_def)
      ultimately show ?thesis using t(2,4) Interrupted by auto
    qed
  qed
  then have "?G (r, s')" using ok by blast
  then show ?thesis by simp
qed

end

end
