(* ===== verification/Scheduler_Code.thy ===== *)
theory Scheduler_Code
  imports Scheduler_Inv
begin

text \<open>
  Fibers whose code is a sequence of calls to the library: yields, waits on blockers with and
  without a timeout, wake-ups and sleeps. They meet the contract \<open>fiber_code\<close>, so that the facts
  on the scheduler hold for them; the parts of the calls are those of the other theories.
\<close>

section \<open>Library calls as fiber code\<close>

text \<open>The commands ending in \<open>End\<close> are what is left of a call after its yield.\<close>

datatype cmd =
    CYield | CWait bptr | CTimedWait bptr nat | CTimedEnd bptr int | CWakeUp bptr
  | CSleep nat | CSleepEnd int

definition set_code :: "fptr \<Rightarrow> 'c \<Rightarrow> ('q, 'k, 'c) sched \<Rightarrow> ('q, 'k, 'c) sched" where
  "set_code f c s = s\<lparr>sc_code := (sc_code s)(f := c)\<rparr>"

fun exec :: "(waiter, 'q) cxx_queue \<Rightarrow> 'k os \<Rightarrow> tid \<Rightarrow> fptr \<Rightarrow> cmd list \<Rightarrow> ('q, 'k, cmd list) sched \<Rightarrow>
    ('q, 'k, cmd list) sched option" where
  "exec Q os t f [] s = Some (EFiber_setState f TERMINATED (set_code f [] s))"
| "exec Q os t f (CYield # cs) s = Some (set_code f cs s)"
| "exec Q os t f (CWait bp # cs) s =
     (let (y, b, s1) = EFiberBlocker_wait_fiber bp f (sc_blockers s bp) s;
          s2 = upd_blocker bp b s1
      in if y then Some (set_code f cs s2) else exec Q os t f cs s2)"
| "exec Q os t f (CTimedWait bp ms # cs) s =
     (let (r, b, iw, k, s1) = EFiberBlocker_tryWait_time_fiber os bp f (int ms) (sc_blockers s bp)
            (sc_waiters s default_waiter) (sc_kernel s) s;
          s2 = (upd_waiter default_waiter iw (upd_blocker bp b s1))\<lparr>sc_kernel := k\<rparr>
      in case r of
           Inl done \<Rightarrow> exec Q os t f cs s2
         | Inr i \<Rightarrow> Some (set_code f (CTimedEnd bp i # cs) s2))"
| "exec Q os t f (CTimedEnd bp i # cs) s =
     (let (r, b, iw, s1) = EFiberBlocker_tryWait_time_resume Q f i (sc_blockers s bp)
            (sc_waiters s default_waiter) s
      in exec Q os t f cs (upd_waiter default_waiter iw (upd_blocker bp b s1)))"
| "exec Q os t f (CWakeUp bp # cs) s =
     (case EFiberBlocker_wakeUp Q t (sc_blockers s bp) s of
        None \<Rightarrow> None
      | Some (r, b, s1) \<Rightarrow> exec Q os t f cs (upd_blocker bp b s1))"
| "exec Q os t f (CSleep ms # cs) s =
     (case EFiber_sleep_start os default_waiter f (int ms) s of
        None \<Rightarrow> None
      | Some (i, s1) \<Rightarrow> Some (set_code f (CSleepEnd i # cs) s1))"
| "exec Q os t f (CSleepEnd i # cs) s =
     (let (ok, s1) = EFiber_sleep_end default_waiter i True s
      in if ok then exec Q os t f cs s1
         else Some (EFiber_setState f TERMINATED (set_code f [] s1)))"

definition run_code :: "(waiter, 'q) cxx_queue \<Rightarrow> 'k os \<Rightarrow> tid \<Rightarrow> fptr \<Rightarrow> ('q, 'k, cmd list) sched \<Rightarrow>
    ('q, 'k, cmd list) sched option" where
  "run_code Q os t f s = exec Q os t f (sc_code s f) s"

section \<open>Frame rules\<close>

lemma set_code_simps [simp, upd_simps]:
  "rt_fibers (set_code f c s) = rt_fibers s" "rt_nodes (set_code f c s) = rt_nodes s"
  "rt_queues (set_code f c s) = rt_queues s" "sc_blockers (set_code f c s) = sc_blockers s"
  "sc_waiters (set_code f c s) = sc_waiters s" "sc_kernel (set_code f c s) = sc_kernel s"
  "sc_total (set_code f c s) = sc_total s" "sc_stubs (set_code f c s) = sc_stubs s"
  "sc_interrupted (set_code f c s) = sc_interrupted s"
  by (simp_all add: set_code_def)

lemma upd_same [simp]:
  "sc_blockers s bp = b \<Longrightarrow> upd_blocker bp b s = s"
  "sc_waiters s w = iw \<Longrightarrow> upd_waiter w iw s = s"
  "sc_kernel s = k \<Longrightarrow> s\<lparr>sc_kernel := k\<rparr> = s"
  by (auto simp: upd_blocker_def upd_waiter_def)

text \<open>
  A state that differs in the blockers, the waiter, the kernel, the code, and in those fields of
  the fibers that the invariant does not look at.
\<close>

lemma sched_frame:
  assumes ok: "sched_ok Q view interest L F R s"
    and fb: "\<And>g. fb_packing (rt_fibers s' g) = fb_packing (rt_fibers s g)"
      "\<And>g. fb_boundQueue (rt_fibers s' g) = fb_boundQueue (rt_fibers s g)"
      "\<And>g. fb_iowaiter (rt_fibers s' g) = fb_iowaiter (rt_fibers s g)"
      "\<And>g. fb_state (rt_fibers s' g) = fb_state (rt_fibers s g)"
    and rt: "rt_nodes s' = rt_nodes s" "rt_queues s' = rt_queues s" "sc_total s' = sc_total s" "sc_stubs s' = sc_stubs s"
    and bo: "blocked_ok view L s'" and bk: "blockers_ok Q view F s'"
    and w: "waiter_ok F (sc_waiters s' default_waiter)" "synced interest (iw_poll (sc_waiters s' default_waiter)) (sc_kernel s')"
  shows "sched_ok Q view interest L F R s'"
proof -
  note d = sched_okD [OF ok]
  have pa: "parked g s' \<longleftrightarrow> parked g s" for g by (simp add: parked_def fb)
  have "rt_ok {default_queue} L F R s'" by (rule rt_ok_cong [OF d(4)]) (simp_all add: fb rt pa)
  moreover have "states_ok L s'" using d(5) unfolding states_ok_def pa fb .
  ultimately show ?thesis using d(1-3) bo bk w rt unfolding sched_ok_def by simp
qed

text \<open>Only the own blocker field of a fiber that is not blocked, and its timeout flag, change.\<close>

lemma blocked_frame:
  assumes "blocked_ok view L s"
    and "\<And>g. fb_state (rt_fibers s' g) = BLOCKED \<Longrightarrow> fb_state (rt_fibers s g) = BLOCKED \<and>
      fb_blocker (rt_fibers s' g) = fb_blocker (rt_fibers s g)"
    and "\<And>g bp. fb_state (rt_fibers s' g) = BLOCKED \<Longrightarrow> WFiber g \<in> set (view (bl_waitQueue (sc_blockers s bp))) \<Longrightarrow>
      WFiber g \<in> set (view (bl_waitQueue (sc_blockers s' bp)))"
  shows "blocked_ok view L s'"
  using assms unfolding blocked_ok_def by metis

lemma blockers_upd:
  assumes "blockers_ok Q view F s" "sc_blockers s' = (sc_blockers s)(bp := b)"
    and "blk_sem Q view b p l ws" "\<forall>f. WFiber f \<in> set ws \<longrightarrow> f \<in> F"
  shows "blockers_ok Q view F s'"
  unfolding blockers_ok_def assms(2)
proof
  fix bp'
  show "\<exists>p l ws. blk_sem Q view (((sc_blockers s)(bp := b)) bp') p l ws \<and> (\<forall>f. WFiber f \<in> set ws \<longrightarrow> f \<in> F)"
    using assms(1,3,4) unfolding blockers_ok_def by (cases "bp' = bp") auto
qed

lemma blocker_sem:
  assumes "sched_ok Q view interest L F R s"
  obtains p l ws where "blk_sem Q view (sc_blockers s bp) p l ws" "\<forall>f. WFiber f \<in> set ws \<longrightarrow> f \<in> F"
  using sched_okD(7) [OF assms] unfolding blockers_ok_def by blast

section \<open>The single calls\<close>

lemma set_code_ok:
  assumes ok: "sched_ok Q view interest L F R s"
  shows "sched_ok Q view interest L F R (set_code f c s)"
  by (rule sched_frame [OF ok]) (use sched_okD(6-9) [OF ok] in \<open>simp_all add: blocked_ok_def blockers_ok_def\<close>)

lemma set_code_ran: "sched_ran Q view interest f L F s \<Longrightarrow> sched_ran Q view interest f L F (set_code g c s)"
proof -
  assume r: "sched_ran Q view interest f L F s"
  have "EFiber_setState f RUNNABLE (set_code g c s) = set_code g c (EFiber_setState f RUNNABLE s)"
    by (simp add: EFiber_setState_def upd_fiber_def set_code_def)
  moreover have "sched_ok Q view interest L F {f} (set_code g c (EFiber_setState f RUNNABLE s))"
    by (rule set_code_ok) (use r in \<open>simp add: sched_ran_def\<close>)
  ultimately show ?thesis using r unfolding sched_ran_def set_code_simps by simp
qed

text \<open>A permit was taken from a blocker.\<close>

lemma take_ok:
  assumes ok: "sched_ok Q view interest L F R s" and b: "blk_sem Q view (sc_blockers s bp) p l ws"
    "\<forall>f. WFiber f \<in> set ws \<longrightarrow> f \<in> F" "blk_sem Q view b' p' l ws"
  shows "sched_ok Q view interest L F R (upd_blocker bp b' s)"
proof (rule sched_frame [OF ok])
  note d = sched_okD [OF ok]
  show "blockers_ok Q view F (upd_blocker bp b' s)" by (rule blockers_upd [OF d(7) _ b(3,2)]) simp
  show "blocked_ok view L (upd_blocker bp b' s)"
    by (rule blocked_frame [OF d(6)]) (use blk_semD(4) [OF b(1)] blk_semD(4) [OF b(3)] in auto)
qed (use sched_okD(8,9) [OF ok] in simp_all)

text \<open>A fiber that is about to wait.\<close>

lemma about_to_wait:
  assumes ok: "sched_ok Q view interest L F {f} s" and f: "f \<in> F" "f \<in> L" "fb_state (rt_fibers s f) = RUNNABLE"
    and z: "bl_wakeup (sc_blockers s bp) = 0"
  shows "sched_ran Q view interest f L F (upd_fiber f (\<lambda>fb. fb\<lparr>fb_state := BLOCKED\<rparr>)
      (upd_fiber f (\<lambda>fb. fb\<lparr>fb_blocker := Some bp\<rparr>) s))" (is "sched_ran _ _ _ _ _ _ ?s")
proof -
  note d = sched_okD [OF ok]
  have "sched_ok Q view interest L F {f} (EFiber_setState f RUNNABLE ?s)"
  proof (rule sched_frame [OF ok])
    show "blocked_ok view L (EFiber_setState f RUNNABLE ?s)"
      by (rule blocked_frame [OF d(6)]) (auto simp: EFiber_setState_def)
    show "blockers_ok Q view F (EFiber_setState f RUNNABLE ?s)"
      using d(7) by (simp add: blockers_ok_def EFiber_setState_def)
  qed (use f d(8,9) in \<open>auto simp: EFiber_setState_def\<close>)
  then show ?thesis using f z by (simp add: sched_ran_def)
qed

lemma ran_running:
  assumes "sched_ok Q view interest L F {f} s" "f \<in> F" "f \<in> L" "fb_state (rt_fibers s f) = RUNNABLE"
  shows "sched_ran Q view interest f L F s"
proof -
  have "EFiber_setState f RUNNABLE s = s"
    using assms(4) by (simp add: EFiber_setState_def upd_fiber_def fun_upd_idem)
  then show ?thesis using assms by (simp add: sched_ran_def)
qed

lemma ran_ended:
  assumes ok: "sched_ok Q view interest L F {f} s" and f: "f \<in> F" "f \<in> L" "fb_state (rt_fibers s f) = RUNNABLE"
    and st: "st = TERMINATED \<or> st = WAITING"
  shows "sched_ran Q view interest f L F (EFiber_setState f st s)"
proof -
  have "EFiber_setState f RUNNABLE (EFiber_setState f st s) = s"
    using f(3) by (simp add: EFiber_setState_def upd_fiber_def fun_upd_idem)
  then show ?thesis using ok f st by (auto simp: sched_ran_def EFiber_setState_def)
qed

text \<open>A wake-up by the running fiber.\<close>

lemma wakeUp_sched:
  assumes ok: "sched_ok Q view interest L F {f} s" and f: "fb_state (rt_fibers s f) = RUNNABLE"
  shows "\<exists>r b s1. EFiberBlocker_wakeUp Q t (sc_blockers s bp) s = Some (r, b, s1) \<and>
     sched_ok Q view interest L F {f} (upd_blocker bp b s1) \<and> fb_state (rt_fibers (upd_blocker bp b s1) f) = RUNNABLE"
proof -
  note d = sched_okD [OF ok]
  obtain p l ws where b: "blk_sem Q view (sc_blockers s bp) p l ws" "\<forall>f. WFiber f \<in> set ws \<longrightarrow> f \<in> F"
    using blocker_sem [OF ok] by blast
  obtain r b' s1 where w: "EFiberBlocker_wakeUp Q t (sc_blockers s bp) s = Some (r, b', s1)"
      "rt_ok {default_queue} L F {f} s1" "wakes F s s1"
      "blk_sem Q view b' (if ws = [] \<and> p < l then p + 1 else p) l (tl ws)"
      "\<forall>f. ws \<noteq> [] \<and> hd ws = WFiber f \<longrightarrow> \<not> parked f s1"
    using wakeUp_ok [OF b(1) d(4) b(2), of t] by blast
  note m = more_eq [OF wakes_more [OF w(3)]]
  define s' where "s' = upd_blocker bp b' s1"
  have fs: "rt_fibers s' = rt_fibers s1" by (simp add: s'_def)
  have pa: "parked g s' \<longleftrightarrow> parked g s1" for g by (simp add: parked_def fs)
  have rt: "rt_ok {default_queue} L F {f} s'" by (rule rt_ok_cong [OF w(2)]) (simp_all add: s'_def pa [unfolded s'_def])
  have st: "states_ok L s'"
    unfolding states_ok_def pa fs
  proof
    fix g assume "g \<in> L"
    then have "fb_state (rt_fibers s g) = RUNNABLE \<or> parked g s" using d(5) by (simp add: states_ok_def)
    then show "fb_state (rt_fibers s1 g) = RUNNABLE \<or> parked g s1" using wakes_awake [OF w(3), of g] by auto
  qed
  have bo: "blocked_ok view L s'"
  proof (rule blocked_frame [OF d(6)])
    fix g assume g: "fb_state (rt_fibers s' g) = BLOCKED"
    then have pg: "parked g s1" by (simp add: parked_def fs)
    show "fb_state (rt_fibers s g) = BLOCKED \<and> fb_blocker (rt_fibers s' g) = fb_blocker (rt_fibers s g)"
      using wakes_state [OF w(3) pg] wakes_blocker [OF w(3) pg] g unfolding fs by simp
    fix bp' assume q: "WFiber g \<in> set (view (bl_waitQueue (sc_blockers s bp')))"
    show "WFiber g \<in> set (view (bl_waitQueue (sc_blockers s' bp')))"
    proof (cases "bp' = bp")
      case True
      then have "WFiber g \<in> set ws" using q blk_semD(4) [OF b(1)] by simp
      moreover have "ws \<noteq> [] \<and> hd ws \<noteq> WFiber g" using w(5) pg calculation by auto
      ultimately have "WFiber g \<in> set (tl ws)" by (cases ws) auto
      then show ?thesis using blk_semD(4) [OF w(4)] True by (simp add: s'_def)
    next
      case False
      then show ?thesis using q by (simp add: s'_def m)
    qed
  qed
  have "blockers_ok Q view F s'"
  proof (rule blockers_upd [OF d(7) _ w(4)])
    show "sc_blockers s' = (sc_blockers s)(bp := b')" by (simp add: s'_def m)
    show "\<forall>f. WFiber f \<in> set (tl ws) \<longrightarrow> f \<in> F" using b(2) by (cases ws) auto
  qed
  then have "sched_ok Q view interest L F {f} s'"
    using d rt st bo unfolding sched_ok_def by (simp add: s'_def m)
  moreover have "fb_state (rt_fibers s' f) = RUNNABLE"
  proof -
    have "\<not> parked f s" using f by (simp add: parked_def)
    then have "\<not> parked f s1" using wakes_parked [OF w(3)] by blast
    then show ?thesis using wakes_awake [OF w(3), of f] f \<open>\<not> parked f s\<close> by (simp add: fs)
  qed
  ultimately show ?thesis using w(1) unfolding s'_def by blast
qed

text \<open>Timers of the running fiber.\<close>

lemma setup_ok:
  assumes os: "os_ok os interest clk" and ok: "sched_ok Q view interest L F {f} s" and f: "f \<in> F"
    and r: "EIoWaiter_setupTimer os (int ms) f (sc_waiters s default_waiter) (sc_kernel s) s = (i, iw, k, s1)"
  shows "sched_ok Q view interest L F {f} ((upd_waiter default_waiter iw s1)\<lparr>sc_kernel := k\<rparr>)"
    and "s1 = upd_fiber f (\<lambda>fb. fb\<lparr>fb_isIoWaitTimeout := False\<rparr>) s"
proof -
  note d = sched_okD [OF ok]
  have ms: "0 \<le> int ms" by simp
  note st = setupTimer_ok [OF os d(8) ms f r]
  show s1: "s1 = upd_fiber f (\<lambda>fb. fb\<lparr>fb_isIoWaitTimeout := False\<rparr>) s" by (rule st(4))
  have sz: "pl_setsize (iw_poll iw) = pl_setsize (iw_poll (sc_waiters s default_waiter))"
    using r by (auto simp: EIoWaiter_setupTimer_def eco_poll_time_event_create_def Let_def split: prod.splits)
  have sy: "synced interest (iw_poll iw) k"
    using d(9) unfolding synced_def st(5,6) sz .
  show "sched_ok Q view interest L F {f} ((upd_waiter default_waiter iw s1)\<lparr>sc_kernel := k\<rparr>)"
  proof (rule sched_frame [OF ok])
    show "blocked_ok view L ((upd_waiter default_waiter iw s1)\<lparr>sc_kernel := k\<rparr>)"
      by (rule blocked_frame [OF d(6)]) (auto simp: s1 split: if_splits)
    show "blockers_ok Q view F ((upd_waiter default_waiter iw s1)\<lparr>sc_kernel := k\<rparr>)"
      using d(7) by (simp add: blockers_ok_def s1)
  qed (use st(1) sy in \<open>auto simp: s1\<close>)
qed

lemma cancel_ok:
  assumes ok: "sched_ok Q view interest L F R s"
  shows "sched_ok Q view interest L F R
     (upd_waiter default_waiter (EIoWaiter_cancelTimer i (sc_waiters s default_waiter)) s)" (is "sched_ok _ _ _ _ _ _ ?s")
proof (rule sched_frame [OF ok])
  note d = sched_okD [OF ok]
  show "waiter_ok F (sc_waiters ?s default_waiter)" using cancelTimer_ok [OF d(8)] by simp
  have sz: "pl_setsize (iw_poll (sc_waiters ?s default_waiter)) = pl_setsize (iw_poll (sc_waiters s default_waiter))"
    and ev: "pl_events (iw_poll (sc_waiters ?s default_waiter)) = pl_events (iw_poll (sc_waiters s default_waiter))"
    and k: "sc_kernel ?s = sc_kernel s"
    by (simp_all add: cancelTimer_fields)
  show "synced interest (iw_poll (sc_waiters ?s default_waiter)) (sc_kernel ?s)"
    using d(9) unfolding synced_def sz ev k .
  show "blocked_ok view L ?s" using d(6) by (simp add: blocked_ok_def)
  show "blockers_ok Q view F ?s" using d(7) by (simp add: blockers_ok_def)
qed simp_all

lemma timed_resume_ok:
  assumes ok: "sched_ok Q view interest L F {f} s" and f: "fb_state (rt_fibers s f) = RUNNABLE"
    and r: "EFiberBlocker_tryWait_time_resume Q f i (sc_blockers s bp) (sc_waiters s default_waiter) s = (x, b, iw, s1)"
  shows "sched_ok Q view interest L F {f} (upd_waiter default_waiter iw (upd_blocker bp b s1))"
    and "fb_state (rt_fibers (upd_waiter default_waiter iw (upd_blocker bp b s1)) f) = RUNNABLE"
proof -
  obtain p l ws where bs: "blk_sem Q view (sc_blockers s bp) p l ws" "\<forall>f. WFiber f \<in> set ws \<longrightarrow> f \<in> F"
    using blocker_sem [OF ok] by blast
  note t = tryWait_time_resume_ok [OF bs(1) r]
  have s1: "s1 = upd_fiber f (\<lambda>fb. fb\<lparr>fb_isIoWaitTimeout := False\<rparr>) s"
    using r by (auto simp: EFiberBlocker_tryWait_time_resume_def EFiber_isWaitTimeout_def Let_def split: if_splits prod.splits)
  define s0 where "s0 = upd_waiter default_waiter iw s"
  have ok0: "sched_ok Q view interest L F {f} s0"
    using ok cancel_ok [OF ok, of i] unfolding s0_def t(4) by (cases "i = -1") (simp_all add: upd_waiter_def)
  note d = sched_okD [OF ok0]
  let ?s = "upd_waiter default_waiter iw (upd_blocker bp b s1)" and ?ws = "if x then ws else remove1 (WFiber f) ws"
  show "fb_state (rt_fibers ?s f) = RUNNABLE" using f by (simp add: s1)
  show "sched_ok Q view interest L F {f} ?s"
  proof (rule sched_frame [OF ok0])
    show "blockers_ok Q view F ?s"
    proof (rule blockers_upd [OF d(7) _ t(2)])
      show "\<forall>g. WFiber g \<in> set ?ws \<longrightarrow> g \<in> F" using bs(2) notin_set_remove1 by (metis (full_types))
    qed (simp add: s0_def s1)
    show "blocked_ok view L ?s"
    proof (rule blocked_frame [OF d(6)])
      fix g assume g: "fb_state (rt_fibers ?s g) = BLOCKED"
      then show "fb_state (rt_fibers s0 g) = BLOCKED \<and> fb_blocker (rt_fibers ?s g) = fb_blocker (rt_fibers s0 g)"
        by (auto simp: s0_def s1 split: if_splits)
      have ne: "g \<noteq> f" using g f by (auto simp: s1)
      fix bp' assume q: "WFiber g \<in> set (view (bl_waitQueue (sc_blockers s0 bp')))"
      show "WFiber g \<in> set (view (bl_waitQueue (sc_blockers ?s bp')))"
      proof (cases "bp' = bp")
        case True
        then have "WFiber g \<in> set ws" using q blk_semD(4) [OF bs(1)] by (simp add: s0_def)
        then have "WFiber g \<in> set ?ws" using ne by (simp add: in_set_remove1)
        then show ?thesis using blk_semD(4) [OF t(2)] True by (simp add: s1)
      next
        case False
        then show ?thesis using q by (simp add: s0_def s1)
      qed
    qed
  qed (use d(8,9) in \<open>auto simp: s0_def s1\<close>)
qed

section \<open>The code of a fiber meets the contract\<close>

lemma timed_start_cases:
  assumes "EFiberBlocker_tryWait_time_fiber os bp f (int ms) b iw k s = (r, b1, iw1, k1, s1)"
  obtains "r = Inl True" "b1 = b\<lparr>bl_wakeup := bl_wakeup b - 1\<rparr>" "iw1 = iw" "k1 = k" "s1 = s" "bl_wakeup b > 0"
  | i s2 where "r = Inr i" "b1 = b" "bl_wakeup b = 0"
      "EIoWaiter_setupTimer os (int ms) f iw k s = (i, iw1, k1, s2) \<or> (i, iw1, k1, s2) = (-1, iw, k, s)"
      "s1 = upd_fiber f (\<lambda>fb. fb\<lparr>fb_state := BLOCKED\<rparr>) (upd_fiber f (\<lambda>fb. fb\<lparr>fb_blocker := Some bp\<rparr>) s2)"
proof (cases "bl_wakeup b > 0")
  case True
  then show ?thesis using assms that(1) by (auto simp: EFiberBlocker_tryWait_time_fiber_def)
next
  case False
  then have z: "bl_wakeup b = 0" by (simp add: word_gt_0)
  obtain i iw' k' s2 where x: "(if int ms > 0 then EIoWaiter_setupTimer os (int ms) f iw k s else (-1, iw, k, s)) = (i, iw', k', s2)"
    by (metis prod_cases4)
  have e: "r = Inr i" "b1 = b" "iw1 = iw'" "k1 = k'"
      "s1 = upd_fiber f (\<lambda>fb. fb\<lparr>fb_state := BLOCKED\<rparr>) (upd_fiber f (\<lambda>fb. fb\<lparr>fb_blocker := Some bp\<rparr>) s2)"
    using assms False x by (auto simp: EFiberBlocker_tryWait_time_fiber_def Let_def)
  show ?thesis using that(2) [OF e(1,2) z _ e(5)] x e(3,4) by (auto split: if_splits)
qed

lemma take_one:
  assumes "sched_ok Q view interest L F R s" "bl_wakeup (sc_blockers s bp) > 0"
  shows "sched_ok Q view interest L F R
     (upd_blocker bp ((sc_blockers s bp)\<lparr>bl_wakeup := bl_wakeup (sc_blockers s bp) - 1\<rparr>) s)"
proof -
  obtain p l ws where b: "blk_sem Q view (sc_blockers s bp) p l ws" "\<forall>f. WFiber f \<in> set ws \<longrightarrow> f \<in> F"
    using blocker_sem [OF assms(1)] by blast
  have "bl_wakeup (sc_blockers s bp) \<noteq> 0" using assms(2) by (simp add: word_gt_0)
  then have "\<exists>b'. EFiberBlocker_tryWait (sc_blockers s bp) = (0 < p, b') \<and> blk_sem Q view b' (p - 1) l ws"
    using blk_take_law [OF b(1)] by blast
  then have "blk_sem Q view ((sc_blockers s bp)\<lparr>bl_wakeup := bl_wakeup (sc_blockers s bp) - 1\<rparr>) (p - 1) l ws"
    using \<open>bl_wakeup (sc_blockers s bp) \<noteq> 0\<close> by (auto simp: EFiberBlocker_tryWait_def)
  then show ?thesis by (rule take_ok [OF assms(1) b])
qed

lemma exec_ok:
  assumes os: "os_ok os interest clk"
  shows "sched_ok Q view interest L F {f} s \<Longrightarrow> f \<in> F \<Longrightarrow> f \<in> L \<Longrightarrow> fb_state (rt_fibers s f) = RUNNABLE \<Longrightarrow>
     \<exists>s'. exec Q os t f cs s = Some s' \<and> sched_ran Q view interest f L F s'"
proof (induction cs arbitrary: s)
  case Nil
  have "sched_ran Q view interest f L F (EFiber_setState f TERMINATED (set_code f [] s))"
    by (rule ran_ended) (use Nil set_code_ok in \<open>auto\<close>)
  then show ?case by simp
next
  case (Cons c cs)
  note ok = Cons.prems(1) and fF = Cons.prems(2) and fL = Cons.prems(3) and fr = Cons.prems(4)
  note d = sched_okD [OF ok]
  show ?case
  proof (cases c)
    case CYield
    then show ?thesis using set_code_ran [OF ran_running [OF ok fF fL fr]] by simp
  next
    case (CWait bp)
    let ?b = "sc_blockers s bp"
    show ?thesis
    proof (cases "bl_wakeup ?b > 0")
      case True
      note ok' = take_one [OF ok True]
      show ?thesis using Cons.IH [OF ok' fF fL] fr True CWait
        by (simp add: EFiberBlocker_wait_fiber_def)
    next
      case False
      then have z: "bl_wakeup ?b = 0" by (simp add: word_gt_0)
      note w = about_to_wait [OF ok fF fL fr z]
      show ?thesis using set_code_ran [OF w] z CWait by (simp add: EFiberBlocker_wait_fiber_def Let_def)
    qed
  next
    case (CTimedWait bp ms)
    let ?b = "sc_blockers s bp" and ?iw = "sc_waiters s default_waiter" and ?k = "sc_kernel s"
    obtain r b1 iw1 k1 s1 where e: "EFiberBlocker_tryWait_time_fiber os bp f (int ms) ?b ?iw ?k s = (r, b1, iw1, k1, s1)"
      by (metis prod_cases5)
    from e show ?thesis
    proof (cases rule: timed_start_cases)
      case 1
      show ?thesis using Cons.IH [OF take_one [OF ok 1(6)] fF fL] fr 1 e CTimedWait by simp
    next
      case (2 i s2)
      define s3 where "s3 = (upd_waiter default_waiter iw1 s2)\<lparr>sc_kernel := k1\<rparr>"
      have s2: "rt_fibers s2 f = rt_fibers s f \<or> rt_fibers s2 f = (rt_fibers s f)\<lparr>fb_isIoWaitTimeout := False\<rparr>"
        "sc_blockers s2 = sc_blockers s"
      proof -
        have "EIoWaiter_setupTimer os (int ms) f ?iw ?k s = (i, iw1, k1, s2) \<Longrightarrow>
            s2 = upd_fiber f (\<lambda>fb. fb\<lparr>fb_isIoWaitTimeout := False\<rparr>) s"
          by (rule setup_ok(2) [OF os ok fF])
        then have "s2 = upd_fiber f (\<lambda>fb. fb\<lparr>fb_isIoWaitTimeout := False\<rparr>) s \<or> s2 = s" using 2(4) by blast
        then show "rt_fibers s2 f = rt_fibers s f \<or> rt_fibers s2 f = (rt_fibers s f)\<lparr>fb_isIoWaitTimeout := False\<rparr>"
          "sc_blockers s2 = sc_blockers s" by auto
      qed
      have ok3: "sched_ok Q view interest L F {f} s3"
        using 2(4)
      proof
        assume "EIoWaiter_setupTimer os (int ms) f ?iw ?k s = (i, iw1, k1, s2)"
        then show ?thesis using setup_ok(1) [OF os ok fF] unfolding s3_def by blast
      next
        assume "(i, iw1, k1, s2) = (-1, ?iw, ?k, s)"
        then have "s3 = s" by (simp add: s3_def upd_waiter_def)
        then show ?thesis using ok by simp
      qed
      have f3: "fb_state (rt_fibers s3 f) = RUNNABLE" using s2(1) fr by (auto simp: s3_def)
      have b3: "sc_blockers s3 bp = ?b" using s2(2) by (simp add: s3_def)
      have z: "bl_wakeup (sc_blockers s3 bp) = 0" using 2(3) b3 by simp
      have "(upd_waiter default_waiter iw1 (upd_blocker bp b1 s1))\<lparr>sc_kernel := k1\<rparr> =
          upd_fiber f (\<lambda>fb. fb\<lparr>fb_state := BLOCKED\<rparr>) (upd_fiber f (\<lambda>fb. fb\<lparr>fb_blocker := Some bp\<rparr>) s3)"
        using 2(2,5) s2(2) by (simp add: s3_def upd_waiter_def upd_blocker_def upd_fiber_def)
      then show ?thesis
        using set_code_ran [OF about_to_wait [OF ok3 fF fL f3 z]] e 2(1) CTimedWait by simp
    qed
  next
    case (CTimedEnd bp i)
    obtain x b iw s1 where e: "EFiberBlocker_tryWait_time_resume Q f i (sc_blockers s bp)
        (sc_waiters s default_waiter) s = (x, b, iw, s1)"
      by (metis prod_cases4)
    note t = timed_resume_ok [OF ok fr e]
    show ?thesis using Cons.IH [OF t(1) fF fL t(2)] e CTimedEnd by simp
  next
    case (CWakeUp bp)
    obtain r b s1 where w: "EFiberBlocker_wakeUp Q t (sc_blockers s bp) s = Some (r, b, s1)"
        "sched_ok Q view interest L F {f} (upd_blocker bp b s1)" "fb_state (rt_fibers (upd_blocker bp b s1) f) = RUNNABLE"
      using wakeUp_sched [OF ok fr] by blast
    show ?thesis using Cons.IH [OF w(2) fF fL w(3)] w(1) CWakeUp by simp
  next
    case (CSleep ms)
    obtain i iw k s1 where e: "EIoWaiter_setupTimer os (int ms) f (sc_waiters s default_waiter) (sc_kernel s) s = (i, iw, k, s1)"
      by (metis prod_cases4)
    define s2 where "s2 = (upd_waiter default_waiter iw s1)\<lparr>sc_kernel := k\<rparr>"
    have ok2: "sched_ok Q view interest L F {f} s2" unfolding s2_def by (rule setup_ok(1) [OF os ok fF e])
    have f2: "fb_state (rt_fibers s2 f) = RUNNABLE" using setup_ok(2) [OF os ok fF e] fr by (simp add: s2_def)
    have "sched_ran Q view interest f L F (EFiber_setState f WAITING s2)"
      by (rule ran_ended [OF ok2 fF fL f2]) simp
    from set_code_ran [OF this] show ?thesis using e CSleep by (simp add: EFiber_sleep_start_def s2_def)
  next
    case (CSleepEnd i)
    let ?s = "upd_waiter default_waiter (EIoWaiter_cancelTimer i (sc_waiters s default_waiter)) s"
    have ok': "sched_ok Q view interest L F {f} ?s" by (rule cancel_ok [OF ok])
    have f': "fb_state (rt_fibers ?s f) = RUNNABLE" using fr by simp
    have "sched_ran Q view interest f L F (EFiber_setState f TERMINATED (set_code f [] ?s))"
      by (rule ran_ended) (use set_code_ok [OF ok'] fF fL f' in simp_all)
    then show ?thesis using Cons.IH [OF ok' fF fL f'] CSleepEnd by (simp add: EFiber_sleep_end_def Let_def)
  qed
qed

interpretation code: fiber_code Q view os interest clk "run_code Q os t" for Q view os interest clk t
proof
  fix L F f and s :: "('a, 'b, cmd list) sched"
  assume "cxx_fifo Q view" "os_ok os interest clk" "sched_ok Q view interest L F {f} s" "f \<in> F" "f \<in> L"
    "fb_state (rt_fibers s f) = RUNNABLE"
  then show "\<exists>L' s'. run_code Q os t f s = Some s' \<and> L \<subseteq> L' \<and> sched_ran Q view interest f L' F s'"
    unfolding run_code_def by (metis exec_ok subset_refl)
qed

end
