(* ===== verification/Scheduler_Start.thy ===== *)
theory Scheduler_Start
  imports Scheduler_Code
begin

text \<open>
  The life of a scheduler around its loop: construction, the io waiter that \<open>join()\<close> creates, the
  start of a fiber, the preparation of \<open>join(int)\<close>, and timers (\<open>addtimer\<close>,
  inc/EFiberTimer.hh, src/EFiberTimer.cpp).
\<close>

section \<open>Construction\<close>

text \<open>\<open>getrlimit\<close> gives its result and the soft limit, read as a signed \<open>long\<close>.\<close>

definition fdLimit :: "int \<times> 64 word \<Rightarrow> int \<Rightarrow> int" where
  "fdLimit rl deflim =
     (if fst rl < 0 then deflim else (let limit = sint (snd rl) in if limit < 0 then deflim else limit))"

definition default_maxfd :: int where
  "default_maxfd = 32 * 32768"  \<comment> \<open>\<open>FD_DEFAULT_CHUNKS * FD_CHUNK_CAPACITY\<close>\<close>

text \<open>\<open>maxEventSetSize\<close> is an \<open>int\<close>. \<open>None\<close>: the constructor without a parameter.\<close>

definition maxEventSetSize :: "int \<times> 64 word \<Rightarrow> int option \<Rightarrow> int" where
  "maxEventSetSize rl maxfd =
     signed_take_bit 31 (case maxfd of
        None \<Rightarrow> fdLimit rl default_maxfd
      | Some n \<Rightarrow> max n (fdLimit rl default_maxfd))"

text \<open>\<open>n\<close> is the address of the dummy node of \<open>defaultTaskQueue\<close>.\<close>

definition EFiberScheduler_ctor :: "nptr \<Rightarrow> ('q, 'k, 'c) sched \<Rightarrow> ('q, 'k, 'c) sched" where
  "EFiberScheduler_ctor n s =
     (cq_ctor default_queue n s)\<lparr>sc_total := 0, sc_interrupted := False, sc_balanceIndex := 0,
        sc_stubs := None, sc_threadNums := 1, sc_hung := (\<lambda>_. None)\<rparr>"

text \<open>The local variable \<open>ioWaiter\<close> of \<open>join()\<close>; \<open>pipe_in\<close> is the reading end of its new pipe.\<close>

definition join_waiter :: "'k os \<Rightarrow> int \<Rightarrow> int \<Rightarrow> ('q, 'k, 'c) sched \<Rightarrow> ('q, 'k, 'c) sched option" where
  "join_waiter os setsize pipe_in s =
     (case EIoWaiter_ctor os setsize pipe_in (sc_kernel s) of
        None \<Rightarrow> None
      | Some (iw, k) \<Rightarrow> Some ((upd_waiter default_waiter iw s)\<lparr>sc_kernel := k\<rparr>))"

section \<open>join(int) up to the start of the workers\<close>

datatype join_start = JoinIllegalArgument | JoinSingle | JoinThreads

text \<open>
  \<open>nodes i\<close> is the address of the dummy node of the task queue of stub \<open>i\<close>, \<open>pipes i\<close> the
  reading end of the pipe of its io waiter, \<open>fuel\<close> bounds the number of queued fibers.
\<close>

definition new_stub :: "'k os \<Rightarrow> int \<Rightarrow> (nat \<Rightarrow> nptr) \<Rightarrow> (nat \<Rightarrow> int) \<Rightarrow> nat \<Rightarrow> ('q, 'k, 'c) sched \<Rightarrow> ('q, 'k, 'c) sched option" where
  "new_stub os setsize nodes pipes i s =
     (case EIoWaiter_ctor os setsize (pipes i) (sc_kernel s) of
        None \<Rightarrow> None
      | Some (iw, k) \<Rightarrow>
          Some ((upd_waiter (stub_waiter i) iw (cq_ctor (stub_queue i) (nodes i) s))
                 \<lparr>sc_kernel := k, sc_hung := (sc_hung s)(i := None)\<rparr>))"

fun new_stubs :: "'k os \<Rightarrow> int \<Rightarrow> (nat \<Rightarrow> nptr) \<Rightarrow> (nat \<Rightarrow> int) \<Rightarrow> nat list \<Rightarrow> ('q, 'k, 'c) sched \<Rightarrow> ('q, 'k, 'c) sched option" where
  "new_stubs os setsize nodes pipes [] s = Some s"
| "new_stubs os setsize nodes pipes (i # is) s =
     (case new_stub os setsize nodes pipes i s of
        None \<Rightarrow> None
      | Some s' \<Rightarrow> new_stubs os setsize nodes pipes is s')"

definition EFiberScheduler_join_threads :: "'k os \<Rightarrow> int \<Rightarrow> (nat \<Rightarrow> nptr) \<Rightarrow> (nat \<Rightarrow> int) \<Rightarrow> nat \<Rightarrow>
    (fptr \<Rightarrow> int \<Rightarrow> int) option \<Rightarrow> int \<Rightarrow> ('q, 'k, 'c) sched \<Rightarrow> (join_start \<times> ('q, 'k, 'c) sched) option" where
  "EFiberScheduler_join_threads os setsize nodes pipes fuel bal threadNums s =
     (if threadNums < 1 then Some (JoinIllegalArgument, s)
      else if threadNums = 1 then Some (JoinSingle, s)
      else
       (case new_stubs os setsize nodes pipes [0..<nat threadNums]
               (s\<lparr>sc_threadNums := threadNums, sc_stubs := Some (nat threadNums)\<rparr>) of
          None \<Rightarrow> None
        | Some s1 \<Rightarrow> map_option (Pair JoinThreads) (deal bal threadNums fuel s1)))"

section \<open>Timers\<close>

text \<open>
  \<open>addtimer\<close>: the delay is checked, then a \<open>TimberFiber\<close> is made and scheduled. \<open>AtDate\<close> carries
  the time of the \<open>EDate\<close>; \<open>now\<close> is \<open>ESystem::currentTimeMillis()\<close>.
\<close>

datatype due = AfterDelay int | AtDate int

definition timer_delay :: "int \<Rightarrow> due \<Rightarrow> int" where
  "timer_delay now w = (case w of AfterDelay d \<Rightarrow> d | AtDate t \<Rightarrow> t - now)"

definition EFiberScheduler_addtimer :: "nat \<Rightarrow> (fptr \<Rightarrow> int \<Rightarrow> int) option \<Rightarrow> fptr option \<Rightarrow> int \<Rightarrow> fptr \<Rightarrow> nptr \<Rightarrow>
    int \<Rightarrow> due \<Rightarrow> ('q, 'k, 'c) sched \<Rightarrow> ('q, 'k, 'c) sched option" where
  "EFiberScheduler_addtimer sid bal active stackSize f n now w s =
     (if timer_delay now w > 0
      then EFiberScheduler_schedule sid bal active f (EFiber_ctor active stackSize f n s)
      else Some s)"

text \<open>
  \<open>TimberFiber::run\<close>, as the list of what it does: \<open>canceled\<close> gives the value of the flag each
  time the loop or the single shot looks at it (the \<open>i\<close>-th look), \<open>fuel\<close> bounds the periodic loop.
\<close>

datatype timber_act = TSleep int | TRun

fun timber_loop :: "(nat \<Rightarrow> bool) \<Rightarrow> int \<Rightarrow> nat \<Rightarrow> nat \<Rightarrow> timber_act list option" where
  "timber_loop canceled period i 0 = (if canceled i then Some [] else None)"
| "timber_loop canceled period i (Suc n) =
     (if canceled i then Some []
      else map_option ((@) [TSleep period, TRun]) (timber_loop canceled period (Suc i) n))"

definition TimberFiber_run :: "(nat \<Rightarrow> bool) \<Rightarrow> int \<Rightarrow> int \<Rightarrow> nat \<Rightarrow> timber_act list option" where
  "TimberFiber_run canceled delay period fuel =
     map_option ((#) (TSleep delay))
       (if period > 0 then timber_loop canceled period 0 fuel
        else Some (if \<not> canceled 0 then [TRun] else []))"

text \<open>\<open>EFiberTimer::cancel\<close>: \<open>sch\<close> says whether the thread has a scheduler, \<open>fiber\<close> is the weak pointer.\<close>

definition EFiberTimer_cancel :: "bool \<Rightarrow> fptr option \<Rightarrow> 'z rt_scheme \<Rightarrow> 'z rt_scheme" where
  "EFiberTimer_cancel sch fiber s =
     (if sch then (case fiber of Some f \<Rightarrow> EFiber_cancel f s | None \<Rightarrow> s) else s)"

section \<open>The invariant from the start\<close>

text \<open>The part of \<open>sched_ok\<close> that does not concern the io waiter, which exists from \<open>join()\<close> on.\<close>

definition tasks_ok :: "(waiter, 'q) cxx_queue \<Rightarrow> ('q \<Rightarrow> waiter list) \<Rightarrow>
    fptr set \<Rightarrow> fptr set \<Rightarrow> fptr set \<Rightarrow> ('q, 'k, 'c) sched \<Rightarrow> bool" where
  "tasks_ok Q view L F R s \<longleftrightarrow>
     finite L \<and> sc_total s = int (card L) \<and> sc_stubs s = None \<and> rt_ok {default_queue} L F R s \<and>
     states_ok L s \<and> blocked_ok view L s \<and> blockers_ok Q view F s"

lemma sched_ok_iff:
  "sched_ok Q view interest L F R s \<longleftrightarrow> tasks_ok Q view L F R s \<and>
     waiter_ok F (sc_waiters s default_waiter) \<and>
     synced interest (iw_poll (sc_waiters s default_waiter)) (sc_kernel s)"
  unfolding sched_ok_def tasks_ok_def by blast

lemma EFiberScheduler_ctor_ok:
  assumes "blockers_ok Q view {} s"
  shows "tasks_ok Q view {} {} {} (EFiberScheduler_ctor n s)"
proof -
  let ?s = "EFiberScheduler_ctor n s"
  have q0: "qrep {} {} s (\<lambda>_. [])" by (simp add: qrep_def)
  have c: "qrep {default_queue} {} (cq_ctor default_queue n s) ((\<lambda>_. [])(default_queue := []))"
    by (rule qrep_ctor [OF q0]) simp_all
  have "qrep {default_queue} {} ?s ((\<lambda>_. [])(default_queue := []))"
    by (rule qrep_cong [OF c]) (simp_all add: EFiberScheduler_ctor_def)
  then have "rt_ok {default_queue} {} {} {} ?s" unfolding rt_ok_def by auto
  moreover have "sc_blockers ?s = sc_blockers s" by (simp add: EFiberScheduler_ctor_def cq_ctor_def upd_queue_def upd_node_def)
  ultimately show ?thesis using assms
    by (simp add: tasks_ok_def states_ok_def blocked_ok_def blockers_ok_def) (simp add: EFiberScheduler_ctor_def)
qed

text \<open>The waiter of \<open>join()\<close>, when epoll knows no descriptor yet.\<close>

lemma EIoWaiter_ctor_ok:
  assumes os: "os_ok os interest clk" and i: "interest k = Map.empty" and n: "0 \<le> setsize" and p: "0 \<le> pipe_in"
  shows "\<exists>iw k'. EIoWaiter_ctor os setsize pipe_in k = Some (iw, k') \<and> waiter_ok F iw \<and> synced interest (iw_poll iw) k' \<and>
     iw_waiters iw = 0"
proof -
  obtain now k1 where t: "os_time os k = (now, k1)" by fastforce
  have i1: "interest k1 = Map.empty" using os_time [OF os, of k] t i by simp
  let ?p = "eco_poll_create setsize now :: (fproc, fptr, tproc) poll"
  have wf: "poll_wf ?p" by (rule poll_wf_create [OF n])
  have tw: "timers_wf ?p" by (simp add: timers_wf_def eco_poll_create_def live_ids_def)
  have ev: "\<forall>fe\<in>set (pl_events ?p). fe_serves F fe" by (simp add: eco_poll_create_def fe_serves_def)
  have te: "pl_timeEvents ?p = []" by (simp add: eco_poll_create_def)
  have sy: "synced interest ?p k1" using n by (auto simp: synced_def eco_poll_create_def i1)
  have m0: "0 \<le> fd \<Longrightarrow> fd < setsize \<Longrightarrow> ev_mask ?p fd = 0" for fd by (simp add: eco_poll_create_def)
  have sz: "pl_setsize ?p = setsize" by (simp add: eco_poll_create_def)
  show ?thesis
  proof (cases "pipe_in \<ge> setsize")
    case True
    then have "EIoWaiter_ctor os setsize pipe_in k = Some (\<lparr>iw_poll = ?p, iw_waiters = 0, iw_pipe_in = pipe_in\<rparr>, k1)"
      by (simp add: EIoWaiter_ctor_def eco_poll_file_event_update_def t sz)
    then show ?thesis using wf tw ev te sy by (simp add: waiter_ok_def)
  next
    case False
    then have fd: "0 \<le> pipe_in" "pipe_in < setsize" using p by simp_all
    then have l: "nat pipe_in < length (pl_events ?p)" by (simp add: eco_poll_create_def)
    define p' where "p' = store_event ?p pipe_in ECO_POLL_READABLE PipeEventProc CNull"
    obtain r k2 where c: "os_epoll_ctl os EPOLL_CTL_ADD pipe_in (to_epoll ECO_POLL_READABLE) k1 = (r, k2)" by fastforce
    have d: "r = -1 \<and> interest k2 = interest k1 \<or>
        r = 0 \<and> interest k2 = (interest k1)(pipe_in \<mapsto> to_epoll ECO_POLL_READABLE)"
      by (rule epoll_add [OF os_epoll [OF os] _ c]) (simp add: i1)
    have e: "EIoWaiter_ctor os setsize pipe_in k =
        Some (\<lparr>iw_poll = (if r = -1 then ?p else p'), iw_waiters = 0, iw_pipe_in = pipe_in\<rparr>, k2)"
      using fd m0 [OF fd] c
      by (simp add: EIoWaiter_ctor_def eco_poll_file_event_update_def aeApiUpdEvent_def t sz p'_def)
    have ms: "ev_mask p' pipe_in = ECO_POLL_READABLE"
      "\<And>i. 0 \<le> i \<Longrightarrow> i \<noteq> pipe_in \<Longrightarrow> ev_mask p' i = ev_mask ?p i"
      using store_event_mask [OF fd(1) l] fd m0 [OF fd] unfolding p'_def by simp_all
    show ?thesis
    proof (cases "r = -1")
      case True
      then have "interest k2 = interest k1" using d by simp
      then have "synced interest ?p k2" by (rule synced_cong [OF sy])
      then show ?thesis using e True wf tw ev te by (simp add: waiter_ok_def)
    next
      case False
      then have "interest k2 = (interest k1)(pipe_in \<mapsto> to_epoll (ev_mask p' pipe_in))" using d ms(1) by simp
      then have sy': "synced interest p' k2"
        by (rule synced_upd [OF sy]) (use ms fd in \<open>simp_all add: p'_def sz\<close>)
      have wf': "poll_wf p'" unfolding p'_def by (rule poll_wf_store [OF wf]) (use fd sz in simp_all)
      have tw': "timers_wf p'" using tw by (simp add: timers_wf_def p'_def)
      have te': "pl_timeEvents p' = []" by (simp add: p'_def te)
      have "fe_serves F fe" if "fe \<in> set (pl_events p')" for fe
      proof -
        have "fe \<in> set (pl_events ?p) \<or> fe_rfileProc fe = Some PipeEventProc \<and> fe_wfileProc fe = None"
          using that l unfolding p'_def store_event_def Let_def
          by (auto dest!: subsetD [OF set_update_subset_insert] simp: eco_poll_create_def split: if_splits)
        then show ?thesis using ev by (auto simp: fe_serves_def)
      qed
      then show ?thesis using e False wf' tw' te' sy' by (simp add: waiter_ok_def)
    qed
  qed
qed


section \<open>Starting a fiber\<close>

text \<open>
  A new fiber is one more live fiber, runnable and in the queue; nothing else changes for the
  others. \<open>f\<close> and \<open>n\<close> are fresh addresses.
\<close>

lemma schedule_rt_ok:
  assumes ok: "rt_ok {q} L F R s" and f: "f \<notin> L" "f \<notin> F" and n: "n \<notin> pk s ` L" "n \<noteq> hd_node s q"
    and s1_def: "s1 = EFiber_setScheduler f sch (upd_fiber f (\<lambda>fb. fb\<lparr>fb_state := RUNNABLE\<rparr>) (EFiber_ctor cf sz f n s))"
  shows "rt_ok {q} (insert f L) F R (cq_add q f s1)"
proof -
  note r = rt_okD [OF ok]
  obtain V where V: "qrep {q} L s V" "\<forall>g\<in>L. (\<exists>k\<in>{q}. g \<in> set (V k)) \<longleftrightarrow> \<not> parked g s \<and> g \<notin> R"
    using r(6) by blast
  have "qrep {q} (insert f L) (EFiber_ctor cf sz f n s) V"
    by (rule qrep_EFiber_ctor [OF V(1) f(1)]) (use n in auto)
  then have q1: "qrep {q} (insert f L) s1 V"
    unfolding s1_def EFiber_setScheduler_def by (rule qrep_cong) simp_all
  have e: "\<And>g. g \<noteq> f \<Longrightarrow> rt_fibers s1 g = rt_fibers s g" "\<And>m. m \<noteq> n \<Longrightarrow> rt_nodes s1 m = rt_nodes s m"
      "fb_boundQueue (rt_fibers s1 f) = None" "fb_state (rt_fibers s1 f) = RUNNABLE"
    unfolding s1_def EFiber_setScheduler_def EFiber_ctor_def by (simp_all add: Let_def)
  have fV: "f \<notin> set (V q)" using qrep_sub [OF V(1)] f(1) by auto
  let ?s = "cq_add q f s1"
  have q2: "qrep {q} (insert f L) ?s (V(q := V q @ [f]))" by (rule qrep_add [OF q1]) (use fV in simp_all)
  have pa: "parked g ?s \<longleftrightarrow> g \<noteq> f \<and> parked g s" for g
    using e(1) [of g] e(4) by (cases "g = f") (simp_all add: parked_def cq_add_fields)
  have b1: "bound {q} g s1" if "g \<in> F \<inter> L" for g
  proof -
    have "g \<noteq> f" "pk s g \<noteq> n" using that f n by auto
    then show ?thesis using r(3) [of g] that e(1,2) by (simp add: bound_def)
  qed
  have c1: "\<forall>g\<in>F \<inter> insert f L. bound {q} g ?s"
    by (intro ballI, rule bound_add [OF q1]) (use f(2) b1 in auto)
  have c2: "\<forall>g\<in>F - insert f L. \<not> parked g ?s" using r(1) unfolding pa by blast
  have c3: "\<forall>g\<in>insert f L - F. fb_boundQueue (rt_fibers ?s g) = None \<and> \<not> parked g ?s"
  proof
    fix g assume "g \<in> insert f L - F"
    then show "fb_boundQueue (rt_fibers ?s g) = None \<and> \<not> parked g ?s"
      using r(4) [of g] e(1) [of g] e(3) unfolding pa by (cases "g = f") (auto simp: cq_add_fields)
  qed
  have c4: "\<forall>g\<in>R. \<not> parked g ?s \<and> nd_value (rt_nodes ?s (pk ?s g)) = Some g"
  proof
    fix g assume gR: "g \<in> R"
    have g: "g \<in> L" "g \<noteq> f" using gR r(2) f by auto
    then have "pk s g \<noteq> n" using n by auto
    moreover have "pk s1 g \<noteq> pk s1 f" using inj_onD [OF qrep_inj [OF q1, of q], of g f] g by auto
    ultimately show "\<not> parked g ?s \<and> nd_value (rt_nodes ?s (pk ?s g)) = Some g"
      using r(5) [OF gR] e(1) [OF g(2)] e(2) unfolding pa by (simp add: cq_add_fields)
  qed
  have c5: "\<forall>g\<in>insert f L. (\<exists>k\<in>{q}. g \<in> set ((V(q := V q @ [f])) k)) \<longleftrightarrow> \<not> parked g ?s \<and> g \<notin> R"
  proof
    fix g assume "g \<in> insert f L"
    then show "(\<exists>k\<in>{q}. g \<in> set ((V(q := V q @ [f])) k)) \<longleftrightarrow> \<not> parked g ?s \<and> g \<notin> R"
      using V(2) f(1) r(2) unfolding pa by (cases "g = f") auto
  qed
  have c6: "R \<subseteq> insert f L" using r(2) by blast
  have "\<exists>V. qrep {q} (insert f L) ?s V \<and> (\<forall>g\<in>insert f L. (\<exists>k\<in>{q}. g \<in> set (V k)) \<longleftrightarrow> \<not> parked g ?s \<and> g \<notin> R)"
    by (rule exI [of _ "V(q := V q @ [f])"], rule conjI [OF q2 c5])
  then show ?thesis unfolding rt_ok_def by (intro conjI c1 c2 c3 c4 c6)
qed

lemma schedule_tasks_ok:
  assumes ok: "tasks_ok Q view L F R s" and f: "f \<notin> L" "f \<notin> F"
    and n: "n \<notin> pk s ` L" "n \<noteq> hd_node s default_queue"
  shows "\<exists>s'. EFiberScheduler_scheduleIgnoreBalance sid bal active f ign (EFiber_ctor cf sz f n s) = Some s' \<and>
     tasks_ok Q view (insert f L) F R s' \<and> sc_total s' = sc_total s + 1 \<and> fb_state (rt_fibers s' f) = RUNNABLE \<and>
     sc_waiters s' = sc_waiters s \<and> sc_kernel s' = sc_kernel s"
proof -
  define s1 where "s1 = EFiber_setScheduler f (Some sid) (upd_fiber f (\<lambda>fb. fb\<lparr>fb_state := RUNNABLE\<rparr>) (EFiber_ctor cf sz f n s))"
  define s' where "s' = (cq_add default_queue f s1)\<lparr>sc_total := sc_total s + 1\<rparr>"
  have "sc_total (EFiber_ctor cf sz f n s) = sc_total s" "sc_stubs (EFiber_ctor cf sz f n s) = sc_stubs s"
    by (simp_all add: EFiber_ctor_def Let_def upd_fiber_def upd_node_def)
  moreover have "sc_stubs s = None" using ok by (simp add: tasks_ok_def)
  ultimately have e: "EFiberScheduler_scheduleIgnoreBalance sid bal active f ign (EFiber_ctor cf sz f n s) = Some s'"
    by (simp add: EFiberScheduler_scheduleIgnoreBalance_def EFiber_setScheduler_def s'_def s1_def Let_def
        upd_fiber_def cq_add_def upd_node_def upd_queue_def)
  have m: "sc_blockers s' = sc_blockers s" "sc_waiters s' = sc_waiters s" "sc_kernel s' = sc_kernel s" "sc_stubs s' = sc_stubs s"
    by (simp_all add: s'_def s1_def EFiber_setScheduler_def EFiber_ctor_def Let_def upd_fiber_def cq_add_def upd_node_def upd_queue_def)
  have fs: "rt_fibers s' f = rt_fibers s1 f" "\<And>g. g \<noteq> f \<Longrightarrow> rt_fibers s' g = rt_fibers s g" "fb_state (rt_fibers s1 f) = RUNNABLE"
    by (simp_all add: s'_def s1_def EFiber_setScheduler_def EFiber_ctor_def Let_def cq_add_fields)
  have "rt_ok {default_queue} (insert f L) F R (cq_add default_queue f s1)"
    by (rule schedule_rt_ok [OF _ f n s1_def]) (use ok in \<open>simp add: tasks_ok_def\<close>)
  then have rt: "rt_ok {default_queue} (insert f L) F R s'"
    by (rule rt_ok_cong) (simp_all add: s'_def parked_def)
  have "states_ok (insert f L) s'"
    unfolding states_ok_def
  proof
    fix g assume "g \<in> insert f L"
    then show "fb_state (rt_fibers s' g) = RUNNABLE \<or> parked g s'"
      using ok fs by (cases "g = f") (auto simp: tasks_ok_def states_ok_def parked_def)
  qed
  moreover have "blocked_ok view (insert f L) s'"
    using ok fs f(1) unfolding tasks_ok_def blocked_ok_def m by (metis fstate.distinct(9) insert_iff)
  moreover have "blockers_ok Q view F s'" using ok unfolding tasks_ok_def blockers_ok_def m by blast
  ultimately have "tasks_ok Q view (insert f L) F R s'"
    using ok rt f(1) m unfolding tasks_ok_def by (simp add: s'_def)
  then show ?thesis using e fs m by (simp add: s'_def)
qed

section \<open>Dealing out the fibers\<close>

text \<open>Round robin: what lands in queue \<open>i\<close> of \<open>n\<close>, starting at index \<open>b\<close>.\<close>

fun robin :: "int \<Rightarrow> int \<Rightarrow> 'e list \<Rightarrow> nat \<Rightarrow> 'e list" where
  "robin n b [] i = []"
| "robin n b (e # es) i = (if b mod n = int i then [e] else []) @ robin n (b + 1) es i"

lemma smod_mod: "0 \<le> b \<Longrightarrow> 0 < n \<Longrightarrow> b smod n = b mod n" for b n :: int
  by (cases "b = 0") (simp_all add: signed_modulo_int_def)

lemma smod_below:
  fixes b n :: int
  assumes "0 < n"
  shows "b smod n < n"
proof -
  have m: "0 \<le> \<bar>b\<bar> mod n" "\<bar>b\<bar> mod n < n" using assms by simp_all
  have "b smod n = \<bar>b\<bar> mod n \<or> b smod n = - (\<bar>b\<bar> mod n) \<or> b smod n = 0"
    using assms by (auto simp: signed_modulo_int_def sgn_if)
  then show ?thesis using m assms by linarith
qed

lemma deal_robin:
  assumes K: "default_queue \<in> K" "\<forall>i<nat n. stub_queue i \<in> K" and n: "0 < n"
  shows "qrep K L s V \<Longrightarrow> V default_queue = es \<Longrightarrow> 0 \<le> sc_balanceIndex s \<Longrightarrow>
     sc_balanceIndex s + int (length es) < 2 ^ 31 \<Longrightarrow> length es < fuel \<Longrightarrow>
     \<exists>s' W. deal None n fuel s = Some s' \<and> qrep K L s' W \<and> W default_queue = [] \<and>
       (\<forall>i<nat n. W (stub_queue i) = V (stub_queue i) @ robin n (sc_balanceIndex s) es i) \<and>
       sc_balanceIndex s' = sc_balanceIndex s + int (length es)"
proof (induction es arbitrary: s V fuel)
  case Nil
  obtain m where m: "fuel = Suc m" using Nil(5) by (cases fuel) auto
  show ?case using Nil cq_poll_empty [OF Nil(1) K(1) Nil(2)] m by auto
next
  case (Cons e es)
  obtain m where m: "fuel = Suc m" "length es < m" using Cons.prems(5) by (cases fuel) auto
  obtain s1 where p: "cq_poll default_queue s = Some (Some e, s1)" "qrep K L s1 (V(default_queue := es))"
    using cq_poll_nonempty [OF Cons.prems(1) K(1) Cons.prems(2)] qrep_poll [OF Cons.prems(1) K(1) Cons.prems(2)] by blast
  have b1: "sc_balanceIndex s1 = sc_balanceIndex s"
    using p(1) by (auto simp: cq_poll_def Let_def upd_fiber_def upd_node_def upd_queue_def split: option.splits)
  let ?b = "sc_balanceIndex s"
  define i where "i = nat (?b mod n)"
  have i: "int i = ?b mod n" "i < nat n" using n by (simp_all add: i_def nat_less_iff)
  define s2 where "s2 = s1\<lparr>sc_balanceIndex := int32 (?b + 1)\<rparr>"
  have q2: "qrep K L s2 (V(default_queue := es))" by (rule qrep_cong [OF p(2)]) (simp_all add: s2_def)
  have eL: "e \<in> L" using qrep_sub [OF Cons.prems(1) K(1)] Cons.prems(2) by auto
  have fr: "\<forall>k\<in>K. e \<notin> set ((V(default_queue := es)) k)"
    using qrep_disjoint [OF Cons.prems(1) K(1)] qrep_distinct [OF Cons.prems(1) K(1)] Cons.prems(2) by auto
  have ne: "stub_queue j \<noteq> default_queue" for j by (simp add: stub_queue_def default_queue_def)
  have inj: "stub_queue j = stub_queue k \<longleftrightarrow> j = k" for j k by (simp add: stub_queue_def)
  have iK: "stub_queue i \<in> K" using K(2) i(2) by blast
  define s3 where "s3 = cq_add (stub_queue i) e s2"
  define V3 where "V3 = (V(default_queue := es))(stub_queue i := V (stub_queue i) @ [e])"
  have q3: "qrep K L s3 V3" 
    using qrep_add [OF q2 iK eL fr] unfolding s3_def V3_def fun_upd_other [OF ne] .
  have "int32 (?b + 1) = ?b + 1" using Cons.prems(3,4) by (intro int32_id) simp_all
  then have b3: "sc_balanceIndex s3 = ?b + 1" by (simp add: s3_def s2_def cq_add_def upd_node_def upd_queue_def Let_def)
  have V3: "V3 default_queue = es"
      "\<And>j. V3 (stub_queue j) = V (stub_queue j) @ (if j = i then [e] else [])"
    using ne ne [symmetric] by (auto simp: V3_def inj)
  have "0 \<le> sc_balanceIndex s3" "sc_balanceIndex s3 + int (length es) < 2 ^ 31" using b3 Cons.prems(3,4) by simp_all
  from Cons.IH [OF q3 V3(1) this m(2)] obtain s' W where h: "deal None n m s3 = Some s'" "qrep K L s' W" "W default_queue = []"
      "\<forall>j<nat n. W (stub_queue j) = V3 (stub_queue j) @ robin n (?b + 1) es j"
      "sc_balanceIndex s' = ?b + 1 + int (length es)"
    unfolding b3 by blast
  have "deal None n fuel s = Some s'"
  proof -
    have "?b smod n = int i" using smod_mod [OF Cons.prems(3) n] i(1) by simp
    moreover have "\<not> int i \<ge> n" using i(2) n by linarith
    ultimately show ?thesis using p(1) b1 h(1) m(1) by (simp add: s2_def s3_def)
  qed
  moreover have "W (stub_queue j) = V (stub_queue j) @ robin n ?b (e # es) j" if "j < nat n" for j
    using h(4) that V3(2) i(1) by auto
  ultimately show ?case using h by (intro exI [of _ s'] exI [of _ W]) auto
qed

end
