(* ===== verification/Demo.thy ===== *)
theory Demo
  imports Sync Channel Scheduler_Start
begin

text \<open>
  Concrete states in which the hypotheses of the properties hold: a scheduler with two fibers on
  a simulated kernel, built by the operations of the model.
\<close>

lemma two_list:
  assumes "xs \<noteq> [] \<and> hd xs = a" "set xs = {a, b}" "distinct xs" "a \<noteq> b"
  shows "xs = [a, b]"
proof -
  have l: "length xs = 2" using distinct_card [OF assms(3)] assms(2,4) by simp
  then obtain x y where "xs = [x, y]" by (auto simp: numeral_2_eq_2 length_Suc_conv)
  then show ?thesis using assms by auto
qed

section \<open>A scheduler with its io waiter\<close>

definition blank_fiber :: fiber where
  "blank_fiber = \<lparr>fb_state = NEW, fb_fid = 0, fb_name = [], fb_tag = 0, fb_threadIndex = 0, fb_stackSize = 0,
     fb_parent = None, fb_scheduler = None, fb_iowaiter = None, fb_boundQueue = None, fb_boundThreadID = -1,
     fb_blocker = None, fb_isIoWaitTimeout = False, fb_canceled = False, fb_packing = 0\<rparr>"

definition sim0 :: simk where
  "sim0 = \<lparr>sk_interest = Map.empty, sk_clock = 5000, sk_ready = []\<rparr>"

definition blank_poll :: "(fproc, fptr, tproc) poll" where
  "blank_poll = eco_poll_create 0 0"

definition blank_sched :: "(waiter list, simk, cmd list) sched" where
  "blank_sched = \<lparr>rt_fibers = (\<lambda>_. blank_fiber), rt_nodes = (\<lambda>_. \<lparr>nd_value = None, nd_next = None\<rparr>),
     rt_queues = (\<lambda>_. \<lparr>cq_head = 0, cq_tail = 0\<rparr>), rt_signals = (\<lambda>_. 0), rt_idCounter = 0,
     sc_blockers = (\<lambda>_. EFiberBlocker_ctor list_cxx 0 1), sc_waiters = (\<lambda>_. \<lparr>iw_poll = blank_poll, iw_waiters = 0, iw_pipe_in = 3\<rparr>),
     sc_hung = (\<lambda>_. None), sc_kernel = sim0, sc_total = 0, sc_interrupted = False, sc_balanceIndex = 0,
     sc_stubs = None, sc_threadNums = 1, sc_code = (\<lambda>_. [])\<rparr>"

text \<open>Fiber \<open>f\<close> has its packing node at \<open>f\<close> and runs \<open>cs\<close>.\<close>

definition spawn :: "fptr \<Rightarrow> cmd list \<Rightarrow> (waiter list, simk, cmd list) sched \<Rightarrow>
    (waiter list, simk, cmd list) sched option" where
  "spawn f cs s = map_option (set_code f cs)
     (EFiberScheduler_schedule 0 None None f (EFiber_ctor None 0 f f s))"

definition demo0 :: "(waiter list, simk, cmd list) sched" where
  "demo0 = EFiberScheduler_ctor 0 blank_sched"

definition demo1 :: "(waiter list, simk, cmd list) sched" where
  "demo1 = the (spawn 1 [CWait 7, CYield] demo0)"

definition demo2 :: "(waiter list, simk, cmd list) sched" where
  "demo2 = the (spawn 2 [CYield, CWakeUp 7] demo1)"

definition demo :: "(waiter list, simk, cmd list) sched" where
  "demo = the (join_waiter sim_os 8 3 demo2)"

abbreviation demo_run :: "fptr \<Rightarrow> (waiter list, simk, cmd list) sched \<Rightarrow> (waiter list, simk, cmd list) sched option" where
  "demo_run \<equiv> run_code list_cxx sim_os 1"

text \<open>These states satisfy the invariant.\<close>

lemma set_code_tasks:
  assumes "tasks_ok Q view L F R s"
  shows "tasks_ok Q view L F R (set_code f c s)"
proof -
  have "rt_ok {default_queue} L F R (set_code f c s)"
    by (rule rt_ok_cong [of _ _ _ _ s]) (use assms in \<open>simp_all add: tasks_ok_def parked_def\<close>)
  then show ?thesis
    using assms by (simp add: tasks_ok_def states_ok_def blocked_ok_def blockers_ok_def parked_def)
qed

lemma demo0_ok: "tasks_ok list_cxx (\<lambda>q. q) {} {} {} demo0"
proof -
  have "\<exists>p l ws. blk_sem list_cxx (\<lambda>q. q) (sc_blockers blank_sched bp) p l ws \<and> (\<forall>f. WFiber f \<in> set ws \<longrightarrow> f \<in> {})" for bp
    using ctor_sem [OF list_cxx_fifo, of 0 1] unfolding blank_sched_def by (intro exI conjI) auto
  then show ?thesis unfolding demo0_def by (intro EFiberScheduler_ctor_ok) (simp add: blockers_ok_def)
qed

lemma spawn_ok:
  assumes "tasks_ok Q view L F R s" "Q = list_cxx" "f \<notin> L" "f \<notin> F" "f \<notin> pk s ` L" "f \<noteq> hd_node s default_queue"
  shows "tasks_ok Q view (insert f L) F R (the (spawn f cs s)) \<and> sc_kernel (the (spawn f cs s)) = sc_kernel s"
proof -
  obtain s' where s': "EFiberScheduler_schedule 0 None None f (EFiber_ctor None 0 f f s) = Some s'"
      "tasks_ok Q view (insert f L) F R s'" "sc_kernel s' = sc_kernel s"
    using schedule_tasks_ok [OF assms(1,3-6), of 0 None None False None 0]
    unfolding EFiberScheduler_schedule_def by blast
  then show ?thesis using set_code_tasks [OF s'(2), of f cs] by (simp add: spawn_def)
qed

lemma demo2_ok: "tasks_ok list_cxx (\<lambda>q. q) {1, 2} {} {} demo2" and demo2_kernel: "sc_kernel demo2 = sim0"
proof -
  have h0: "hd_node demo0 default_queue = 0" by code_simp
  have h1: "hd_node demo1 default_queue = 0" and p1: "pk demo1 1 = 1" by code_simp+
  have 1: "tasks_ok list_cxx (\<lambda>q. q) {1} {} {} demo1 \<and> sc_kernel demo1 = sc_kernel demo0"
    unfolding demo1_def by (rule spawn_ok [OF demo0_ok]) (use h0 in simp_all)
  have 2: "tasks_ok list_cxx (\<lambda>q. q) {2, 1} {} {} demo2 \<and> sc_kernel demo2 = sc_kernel demo1"
    unfolding demo2_def by (rule spawn_ok) (use 1 h1 p1 in simp_all)
  show "tasks_ok list_cxx (\<lambda>q. q) {1, 2} {} {} demo2" using 2 by (simp add: insert_commute)
  have "sc_kernel demo0 = sim0"
    by (simp add: demo0_def EFiberScheduler_ctor_def cq_ctor_def upd_queue_def upd_node_def blank_sched_def)
  then show "sc_kernel demo2 = sim0" using 1 2 by simp
qed

lemma join_waiter_ok:
  assumes "tasks_ok list_cxx (\<lambda>q. q) L {} {} s" "sc_kernel s = sim0"
  shows "sched_ok list_cxx (\<lambda>q. q) sk_interest L {} {} (the (join_waiter sim_os 8 3 s))"
proof -
  obtain iw k where c: "EIoWaiter_ctor sim_os 8 3 sim0 = Some (iw, k)" "waiter_ok {} iw" "synced sk_interest (iw_poll iw) k"
    using EIoWaiter_ctor_ok [OF sim_os_ok, of sim0 8 3 "{}"] by (auto simp: sim0_def)
  then have e: "the (join_waiter sim_os 8 3 s) = (upd_waiter default_waiter iw s)\<lparr>sc_kernel := k\<rparr>"
    by (simp add: join_waiter_def assms(2))
  have "rt_ok {default_queue} L {} {} (the (join_waiter sim_os 8 3 s))"
    by (rule rt_ok_cong [of _ _ _ _ s]) (use assms(1) in \<open>simp_all add: e tasks_ok_def parked_def\<close>)
  then show ?thesis
    using assms(1) c unfolding sched_ok_iff
    by (simp add: e tasks_ok_def states_ok_def blocked_ok_def blockers_ok_def parked_def)
qed

lemma demo_ok: "sched_ok list_cxx (\<lambda>q. q) sk_interest {1, 2} {} {} demo"
  unfolding demo_def by (rule join_waiter_ok [OF demo2_ok demo2_kernel])

section \<open>A running and a parked fiber\<close>

text \<open>In \<open>demo_bound\<close> fiber 1 has been taken from the queue to run; in \<open>demo_parked\<close> it waits on blocker 7.\<close>

definition demo_bound :: "(waiter list, simk, cmd list) sched" where
  "demo_bound = bind_fiber default_queue 1 default_waiter 1 (snd (the (cq_poll default_queue demo)))"

definition demo_parked :: "(waiter list, simk, cmd list) sched" where
  "demo_parked = the (after_run list_cxx default_queue 1 (the (demo_run 1 demo_bound)))"

lemma demo_bound_sched: "sched_ok list_cxx (\<lambda>q. q) sk_interest {1, 2} {1} {1} demo_bound"
  and demo_bound_state: "fb_state (rt_fibers demo_bound 1) = RUNNABLE"
proof -
  have "map_option fst (cq_poll default_queue demo) = Some (Some 1)" by code_simp
  then obtain s where p: "cq_poll default_queue demo = Some (Some 1, s)" by auto
  have ok: "sched_ok list_cxx (\<lambda>q. q) sk_interest {1, 2} {} {1} s"
    using sched_poll [OF demo_ok] p by auto
  have "demo_bound = bind_fiber default_queue 1 default_waiter 1 s" by (simp add: demo_bound_def p)
  then show "sched_ok list_cxx (\<lambda>q. q) sk_interest {1, 2} {1} {1} demo_bound"
    using bind_ok(1) [OF ok, of 1] by simp
  show "fb_state (rt_fibers demo_bound 1) = RUNNABLE" by code_simp
qed

lemma demo_parked_sched: "sched_ok list_cxx (\<lambda>q. q) sk_interest {1, 2} {1} {} demo_parked"
  and demo_parked_state: "parked 1 demo_parked"
proof -
  obtain s where r: "demo_run 1 demo_bound = Some s" "sched_ran list_cxx (\<lambda>q. q) sk_interest 1 {1, 2} {1} s"
    using exec_ok [OF sim_os_ok demo_bound_sched _ _ demo_bound_state] unfolding run_code_def by blast
  have "map_option (\<lambda>s. fb_state (rt_fibers s 1)) (demo_run 1 demo_bound) = Some BLOCKED" by code_simp
  then have b: "fb_state (rt_fibers s 1) = BLOCKED" using r(1) by simp
  obtain s' where a: "after_run list_cxx default_queue 1 s = Some s'" "sched_ok list_cxx (\<lambda>q. q) sk_interest {1, 2} {1} {} s'"
    using after_run_ok [OF list_cxx_fifo r(2)] b by auto
  have "demo_parked = s'" unfolding demo_parked_def r(1) option.sel a(1) ..
  then show "sched_ok list_cxx (\<lambda>q. q) sk_interest {1, 2} {1} {} demo_parked" using a(2) by blast
  have "fb_state (rt_fibers demo_parked 1) = BLOCKED" by code_simp
  then show "parked 1 demo_parked" by (simp add: parked_def)
qed

section \<open>Channels\<close>

text \<open>A play is a list of moves: a fiber calls an operation (\<open>Some\<close>), or makes its next step.\<close>

fun chan_play :: "(waiter, 'q) cxx_queue \<Rightarrow> ('e, 'd) cxx_queue \<Rightarrow> (fptr \<Rightarrow> 'e chan_pc \<Rightarrow> bool) \<Rightarrow>
    (fptr \<times> 'e chan_pc option) list \<Rightarrow> (fptr \<Rightarrow> 'e chan_pc) \<times> ('q, 'd) chan \<Rightarrow>
    ((fptr \<Rightarrow> 'e chan_pc) \<times> ('q, 'd) chan) option" where
  "chan_play Q D calls [] z = Some z"
| "chan_play Q D calls ((f, Some pc) # ms) (pcs, c) =
     (if resting (pcs f) \<and> entry pc \<and> calls f pc then chan_play Q D calls ms (pcs(f := pc), c) else None)"
| "chan_play Q D calls ((f, None) # ms) (pcs, c) =
     (case chan_act Q D f (pcs f) c of
        None \<Rightarrow> None
      | Some (pc, c') \<Rightarrow> chan_play Q D calls ms (pcs(f := pc), c'))"

lemma chan_play_reach:
  "chan_play Q D calls ms z = Some z' \<Longrightarrow> fst ` set ms \<subseteq> Fs \<Longrightarrow> chan_reach Q D Fs calls cap z \<Longrightarrow>
     chan_reach Q D Fs calls cap z'"
proof (induction Q D calls ms z rule: chan_play.induct)
  case (2 Q D calls f pc ms pcs c)
  then have "resting (pcs f)" "entry pc" "f \<in> Fs" "calls f pc" by (auto split: if_splits)
  then have "chan_reach Q D Fs calls cap (pcs(f := pc), c)" using chan_reach.step [OF 2(4)] chan_step.call by metis
  then show ?case using 2 by (auto split: if_splits)
next
  case (3 Q D calls f ms pcs c)
  then obtain pc c' where a: "chan_act Q D f (pcs f) c = Some (pc, c')" and f: "f \<in> Fs" by (auto split: option.splits)
  then have "chan_reach Q D Fs calls cap (pcs(f := pc), c')" using chan_reach.step [OF 3(4)] chan_step.act by metis
  then show ?case using 3 a by auto
qed simp

text \<open>Fiber 1 reads, fiber 2 writes.\<close>

definition demo_calls :: "fptr \<Rightarrow> nat chan_pc \<Rightarrow> bool" where
  "demo_calls f pc \<longleftrightarrow> (case pc of ReadCalled \<Rightarrow> f = 1 | WriteCalled e \<Rightarrow> f = 2 | _ \<Rightarrow> False)"

lemma demo_calls_apart: "\<not> (waits_here demo_calls f \<and> yields_here demo_calls f)"
  by (simp add: yields_here_def demo_calls_def)

definition demo_chan :: "u32 \<Rightarrow> (fptr \<Rightarrow> nat chan_pc \<Rightarrow> bool) \<Rightarrow> (fptr \<times> nat chan_pc option) list \<Rightarrow>
    ((fptr \<Rightarrow> nat chan_pc) \<times> (waiter list, nat list) chan) option" where
  "demo_chan cap calls ms = chan_play list_cxx list_cxx calls ms (\<lambda>_. Idle, EFiberChannel_ctor list_cxx list_cxx cap)"

lemma demo_chan_reach:
  "demo_chan cap calls ms = Some z \<Longrightarrow> fst ` set ms \<subseteq> {1, 2} \<Longrightarrow> chan_reach list_cxx list_cxx {1, 2} calls cap z"
  unfolding demo_chan_def by (rule chan_play_reach [OF _ _ chan_reach.init])

lemma demo_chan_ready:
  "\<exists>pcs c. chan_reach list_cxx list_cxx {1, 2} demo_calls 1 (pcs, c) \<and> pcs 1 = (ReadPoll :: nat chan_pc)"
proof -
  let ?ms = "[(2, Some (WriteCalled 5)), (2, None), (2, None), (2, None), (1, Some ReadCalled), (1, None), (1, None)]"
  have "map_option (\<lambda>z. fst z 1) (demo_chan 1 demo_calls ?ms) = Some ReadPoll" by code_simp
  then obtain z where z: "demo_chan 1 demo_calls ?ms = Some z" "fst z 1 = ReadPoll" by auto
  have "chan_reach list_cxx list_cxx {1, 2} demo_calls 1 z" by (rule demo_chan_reach [OF z(1)]) simp
  then show ?thesis using z(2) by (cases z) auto
qed

lemma demo_chan_parked:
  "\<exists>pcs c. chan_reach list_cxx list_cxx {1, 2} demo_calls 1 (pcs, c) \<and> pcs 1 = (ReadParked :: nat chan_pc) \<and> quiescent {1, 2} (pcs, c)"
proof -
  let ?ms = "[(1, Some ReadCalled), (1, None), (1, None), (1, None)]"
  have "map_option (\<lambda>z. (fst z 1, fst z 2, ch_woken (snd z))) (demo_chan 1 demo_calls ?ms) = Some (ReadParked, Idle, {})" by code_simp
  then obtain z where z: "demo_chan 1 demo_calls ?ms = Some z" "fst z 1 = ReadParked" "fst z 2 = Idle" "ch_woken (snd z) = {}" by auto
  have "chan_reach list_cxx list_cxx {1, 2} demo_calls 1 z" by (rule demo_chan_reach [OF z(1)]) simp
  moreover have "quiescent {1, 2} z" using z unfolding quiescent_def by simp
  ultimately show ?thesis using z(2) by (cases z) auto
qed

text \<open>
  Fiber 2 writes 5 and 6. Fiber 1 reads, its permit comes between its \<open>wait\<close> and the \<open>swapOut\<close>; then it calls
  \<open>tryRead\<close>, whose first yield takes the permit of the 6 and whose second one parks it.
\<close>

definition late_play :: "(fptr \<times> nat chan_pc option) list" where
  "late_play = [(1, Some ReadCalled), (1, None), (1, None), (2, Some (WriteCalled 5)), (2, None), (2, None), (2, None),
     (1, None), (1, None), (1, Some TryReadCalled), (1, None), (2, Some (WriteCalled 6)), (2, None),
     (1, None), (1, None), (2, None), (2, None), (1, None), (1, None), (1, None), (1, None)]"

section \<open>A fiber that waits for a descriptor\<close>

definition demo_waiting :: "iowaiter \<times> simk" where
  "demo_waiting = (case the (EIoWaiter_setFileEvent sim_os 5 1 1 (sc_waiters demo_bound default_waiter)
      (sc_kernel demo_bound) demo_bound) of (iw, k, s) \<Rightarrow> (iw, k))"

lemma demo_waiting_ok: "waiter_ok {1} (fst demo_waiting)" "synced sk_interest (iw_poll (fst demo_waiting)) (snd demo_waiting)"
proof -
  obtain iw k s where e: "EIoWaiter_setFileEvent sim_os 5 1 1 (sc_waiters demo_bound default_waiter) (sc_kernel demo_bound)
      demo_bound = Some (iw, k, s)" "waiter_ok {1} iw" "synced sk_interest (iw_poll iw) k"
    using setFileEvent_ok [OF os_epoll [OF sim_os_ok] sched_okD(8,9) [OF demo_bound_sched], of 1 5 1 demo_bound] by auto
  then show "waiter_ok {1} (fst demo_waiting)" "synced sk_interest (iw_poll (fst demo_waiting)) (snd demo_waiting)"
    by (simp_all add: demo_waiting_def)
qed

section \<open>A condition and a scheduler for two threads\<close>

text \<open>Entry 30 has a waiting fiber, entry 31 is left over.\<close>

definition demo_cond :: "(waiter list, bptr list) condition" where
  "demo_cond = \<lparr>cn_waiters = [30, 31], cn_blockers = (\<lambda>bp. \<lparr>bl_wakeup = 0, bl_limit = -1,
     bl_waitQueue = (if bp = 30 then [WFiber 1] else []), bl_asleep = 0\<rparr>)\<rparr>"

lemma demo_cond_waits: "cond_waits list_cxx (\<lambda>q. q) (cn_blockers demo_cond 30) (Some 1)"
  and demo_cond_left: "cond_waits list_cxx (\<lambda>q. q) (cn_blockers demo_cond 31) None"
proof -
  have m: "unat (- 1 :: u32) = 2 ^ 32 - 1" by (simp add: unsigned_minus_1_eq_mask mask_eq_exp_minus_1)
  show "cond_waits list_cxx (\<lambda>q. q) (cn_blockers demo_cond 30) (Some 1)"
    and "cond_waits list_cxx (\<lambda>q. q) (cn_blockers demo_cond 31) None"
    unfolding cond_waits_def blk_sem_def by (intro exI [of _ 0]; simp add: demo_cond_def list_cxx_fifo m)+
qed

definition demo_stubs :: "(waiter list, simk, cmd list) sched" where
  "demo_stubs = cq_ctor 2 102 (cq_ctor 1 101 demo2)"

lemma demo_stubs_rep: "\<exists>V. qrep {0, 1, 2} {1, 2} demo_stubs V \<and> V 0 = [1, 2] \<and> V 1 = [] \<and> V 2 = []"
proof -
  have r: "rt_ok {default_queue} {1, 2} {} {} demo2" using demo2_ok by (simp add: tasks_ok_def)
  obtain V where V: "qrep {0} {1, 2} demo2 V" "\<forall>f\<in>{1, 2}. f \<in> set (V 0) \<longleftrightarrow> \<not> parked f demo2"
    using rt_okD(6) [OF r] by (auto simp: default_queue_def)
  have np: "\<not> parked 1 demo2" "\<not> parked 2 demo2" by code_simp+
  have "map_option fst (cq_poll 0 demo2) = Some (Some 1)" by code_simp
  then have "V 0 \<noteq> [] \<and> hd (V 0) = 1"
    using cq_poll_empty [OF V(1), of 0] cq_poll_nonempty [OF V(1), of 0] by (cases "V 0") auto
  moreover have "set (V 0) = {1, 2}" using qrep_sub [OF V(1), of 0] V(2) np by auto
  moreover have "distinct (V 0)" using qrep_distinct [OF V(1), of 0] by simp
  ultimately have v: "V 0 = [1, 2]" by (rule two_list [of _ 1 2]) simp
  have n: "pk demo2 1 = 1" "pk demo2 2 = 2" "hd_node demo2 0 = 0" by code_simp+
  have q1: "qrep {1, 0} {1, 2} (cq_ctor 1 101 demo2) (V(1 := []))"
    by (rule qrep_ctor [OF V(1)]) (simp_all add: n [simplified])
  have n': "pk (cq_ctor 1 101 demo2) 1 = 1" "pk (cq_ctor 1 101 demo2) 2 = 2"
    "hd_node (cq_ctor 1 101 demo2) 0 = 0" "hd_node (cq_ctor 1 101 demo2) 1 = 101"
    by code_simp+
  have "qrep {2, 1, 0} {1, 2} demo_stubs (V(1 := [], 2 := []))"
    unfolding demo_stubs_def by (rule qrep_ctor [OF q1]) (simp_all add: n' [simplified])
  moreover have "{2, 1, 0} = {0, 1, 2 :: nat}" by auto
  ultimately show ?thesis using v by (intro exI [of _ "V(1 := [], 2 := [])"]) simp
qed

end
