(* ===== verification/Scheduler_Term.thy ===== *)
theory Scheduler_Term
  imports Scheduler_Code
begin

text \<open>
  How long the loop of \<open>join()\<close> runs. Every turn that runs a fiber uses up a part of the work that is
  left to the fibers, so that only finitely many turns run a fiber; all others wait for events while
  every fiber is parked. Fibers that never park therefore bring the loop to its normal end.
\<close>

section \<open>Work\<close>

text \<open>The timed calls take two segments of a fiber, the others at most one.\<close>

fun weight :: "cmd \<Rightarrow> nat" where
  "weight (CTimedWait bp ms) = 2"
| "weight (CSleep ms) = 2"
| "weight c = 1"

definition work :: "cmd list \<Rightarrow> nat" where
  "work cs = sum_list (map weight cs)"

lemma work_simps [simp]: "work [] = 0" "work (c # cs) = weight c + work cs"
  by (simp_all add: work_def)

lemma weight_pos [simp]: "0 < weight c"
  by (cases c) simp_all

text \<open>What is left to do for the fibers in \<open>L\<close>.\<close>

definition total_work :: "fptr set \<Rightarrow> ('q, 'k, cmd list) sched \<Rightarrow> nat" where
  "total_work L s = (\<Sum>f\<in>L. Suc (work (sc_code s f)))"

lemma total_work_run:
  assumes "finite L" "f \<in> L" "sc_code s' = (sc_code s)(f := cs')"
    and "L' = L - {f} \<or> (L' = L \<and> work cs' < work (sc_code s f))"
  shows "total_work L' s' < total_work L s"
proof -
  have rest: "(\<Sum>g\<in>L - {f}. Suc (work (sc_code s' g))) = (\<Sum>g\<in>L - {f}. Suc (work (sc_code s g)))"
    by (rule sum.cong) (simp_all add: assms(3))
  have tot: "total_work L s = Suc (work (sc_code s f)) + (\<Sum>g\<in>L - {f}. Suc (work (sc_code s g)))"
    unfolding total_work_def by (rule sum.remove [OF assms(1,2)])
  from assms(4) show ?thesis
  proof
    assume "L' = L - {f}"
    then show ?thesis using rest tot by (simp add: total_work_def)
  next
    assume r: "L' = L \<and> work cs' < work (sc_code s f)"
    have "total_work L s' = Suc (work cs') + (\<Sum>g\<in>L - {f}. Suc (work (sc_code s' g)))"
      unfolding total_work_def using sum.remove [OF assms(1,2), of "\<lambda>g. Suc (work (sc_code s' g))"] assms(3) by simp
    then show ?thesis using r rest tot by simp
  qed
qed

section \<open>A segment of a fiber\<close>

lemma code_simps [simp]:
  "sc_code (upd_waiter w iw s) = sc_code s" "sc_code (upd_blocker bp b s) = sc_code s"
  "sc_code (set_code f c s) = (sc_code s)(f := c)"
  by (simp_all add: upd_waiter_def upd_blocker_def set_code_def)

lemma code_upd_fiber [simp]: "sc_code (upd_fiber f g s) = sc_code s"
  by (simp add: upd_fiber_def)

lemma setState_simps [simp]:
  "sc_code (EFiber_setState f st s) = sc_code s" "sc_interrupted (EFiber_setState f st s) = sc_interrupted s"
  "fb_state (rt_fibers (EFiber_setState f st s) g) = (if g = f then st else fb_state (rt_fibers s g))"
  by (simp_all add: EFiber_setState_def)

lemma swapIn_effect:
  assumes "EFiber_swapIn t g s = Some s'"
  shows "rt.more s' = rt.more s"
    and "fb_state (rt_fibers s' h) = fb_state (rt_fibers s h) \<or> fb_state (rt_fibers s' h) = RUNNABLE"
  using assms by (auto simp: EFiber_swapIn_def Let_def cq_add_fields split: if_splits option.splits)

lemma wakeUp_effect:
  assumes "EFiberBlocker_wakeUp Q t b s = Some (r, b', s')"
  shows "rt.more s' = rt.more s"
    and "fb_state (rt_fibers s' h) = fb_state (rt_fibers s h) \<or> fb_state (rt_fibers s' h) = RUNNABLE"
proof -
  have "s' = s \<or> (\<exists>g. EFiber_swapIn t g s = Some s')"
    using assms by (auto simp: EFiberBlocker_wakeUp_def split: prod.splits option.splits waiter.splits)
  then show "rt.more s' = rt.more s"
    and "fb_state (rt_fibers s' h) = fb_state (rt_fibers s h) \<or> fb_state (rt_fibers s' h) = RUNNABLE"
    using swapIn_effect [of t _ s s'] by blast+
qed

lemma setupTimer_more: "EIoWaiter_setupTimer os ms f iw k s = (i, iw', k', s') \<Longrightarrow> rt.more s' = rt.more s"
  by (auto simp: EIoWaiter_setupTimer_def upd_fiber_def Let_def split: prod.splits)

lemma timed_more:
  "EFiberBlocker_tryWait_time_fiber os bp f ms b iw k s = (r, b', iw', k', s') \<Longrightarrow> rt.more s' = rt.more s"
  "EFiberBlocker_tryWait_time_resume Q f i b iw s = (x, b', iw', s') \<Longrightarrow> rt.more s' = rt.more s"
  by (auto simp: EFiberBlocker_tryWait_time_fiber_def EFiberBlocker_tryWait_time_resume_def EFiber_isWaitTimeout_def
      upd_fiber_def Let_def dest!: setupTimer_more split: if_splits prod.splits)

definition ran_code :: "fptr \<Rightarrow> nat \<Rightarrow> ('q, 'k, cmd list) sched \<Rightarrow> ('q, 'k, cmd list) sched \<Rightarrow> bool" where
  "ran_code f n s s' \<longleftrightarrow> sc_interrupted s' = sc_interrupted s \<and>
     (\<exists>cs'. sc_code s' = (sc_code s)(f := cs') \<and> (fb_state (rt_fibers s' f) = TERMINATED \<or> work cs' < n))"

lemma ran_code_step:
  assumes "ran_code f m s1 s'" "sc_code s1 = sc_code s" "sc_interrupted s1 = sc_interrupted s" "m \<le> n"
  shows "ran_code f n s s'"
  using assms unfolding ran_code_def by auto

lemma exec_ran: "exec Q os t f cs s = Some s' \<Longrightarrow> ran_code f (work cs) s s'"
proof (induction cs arbitrary: s)
  case Nil
  then show ?case by (auto simp: ran_code_def)
next
  case (Cons c cs)
  show ?case
  proof (cases c)
    case CYield
    then show ?thesis using Cons.prems by (auto simp: ran_code_def)
  next
    case (CWait bp)
    show ?thesis
    proof (cases "bl_wakeup (sc_blockers s bp) > 0")
      case True
      then show ?thesis using Cons.prems CWait
        by (auto simp: EFiberBlocker_wait_fiber_def intro: ran_code_step [OF Cons.IH])
    next
      case False
      then show ?thesis using Cons.prems CWait
        by (auto simp: EFiberBlocker_wait_fiber_def Let_def ran_code_def)
    qed
  next
    case (CTimedWait bp ms)
    obtain r b iw k s1 where e: "EFiberBlocker_tryWait_time_fiber os bp f (int ms) (sc_blockers s bp)
        (sc_waiters s default_waiter) (sc_kernel s) s = (r, b, iw, k, s1)" by (metis prod_cases5)
    note m = more_eq [OF timed_more(1) [OF e]]
    show ?thesis
    proof (cases r)
      case (Inl dn)
      then show ?thesis using Cons.prems CTimedWait e m by (auto intro: ran_code_step [OF Cons.IH])
    next
      case (Inr i)
      then show ?thesis using Cons.prems CTimedWait e m by (auto simp: ran_code_def)
    qed
  next
    case (CTimedEnd bp i)
    obtain x b iw s1 where e: "EFiberBlocker_tryWait_time_resume Q f i (sc_blockers s bp)
        (sc_waiters s default_waiter) s = (x, b, iw, s1)" by (metis prod_cases4)
    note m = more_eq [OF timed_more(2) [OF e]]
    show ?thesis using Cons.prems CTimedEnd e m by (auto intro: ran_code_step [OF Cons.IH])
  next
    case (CWakeUp bp)
    then obtain r b s1 where e: "EFiberBlocker_wakeUp Q t (sc_blockers s bp) s = Some (r, b, s1)"
      using Cons.prems by (auto split: option.splits)
    note m = more_eq [OF wakeUp_effect(1) [OF e]]
    show ?thesis using Cons.prems CWakeUp e m by (auto intro: ran_code_step [OF Cons.IH])
  next
    case (CSleep ms)
    obtain i iw k s1 where e: "EIoWaiter_setupTimer os (int ms) f (sc_waiters s default_waiter) (sc_kernel s) s = (i, iw, k, s1)"
      by (metis prod_cases4)
    note m = more_eq [OF setupTimer_more [OF e]]
    show ?thesis using Cons.prems CSleep e m by (auto simp: EFiber_sleep_start_def ran_code_def)
  next
    case (CSleepEnd i)
    show ?thesis
    proof (cases "sc_interrupted s")
      case True
      then show ?thesis using Cons.prems CSleepEnd by (auto simp: EFiber_sleep_end_def ran_code_def)
    next
      case False
      then show ?thesis using Cons.prems CSleepEnd
        by (auto simp: EFiber_sleep_end_def Let_def intro: ran_code_step [OF Cons.IH])
    qed
  qed
qed

text \<open>Commands that do not park.\<close>

fun nonblocking :: "cmd \<Rightarrow> bool" where
  "nonblocking CYield = True"
| "nonblocking (CWakeUp bp) = True"
| "nonblocking c = False"

lemma exec_nonblocking:
  assumes "exec Q os t f cs s = Some s'" "\<forall>c\<in>set cs. nonblocking c" "fb_state (rt_fibers s f) = RUNNABLE"
  shows "fb_state (rt_fibers s' f) = RUNNABLE \<or> fb_state (rt_fibers s' f) = TERMINATED \<and> sc_code s' f = []"
    and "g \<noteq> f \<Longrightarrow> fb_state (rt_fibers s' g) = fb_state (rt_fibers s g) \<or> fb_state (rt_fibers s' g) = RUNNABLE"
    and "set (sc_code s' f) \<subseteq> set cs"
proof -
  have "(fb_state (rt_fibers s' f) = RUNNABLE \<or> fb_state (rt_fibers s' f) = TERMINATED \<and> sc_code s' f = []) \<and>
      (g \<noteq> f \<longrightarrow> fb_state (rt_fibers s' g) = fb_state (rt_fibers s g) \<or> fb_state (rt_fibers s' g) = RUNNABLE) \<and>
      set (sc_code s' f) \<subseteq> set cs" for g
    using assms
  proof (induction cs arbitrary: s)
    case (Cons c cs)
    show ?case
    proof (cases c)
      case CYield
      then show ?thesis using Cons.prems by auto
    next
      case (CWakeUp bp)
      then obtain r b s1 where e: "EFiberBlocker_wakeUp Q t (sc_blockers s bp) s = Some (r, b, s1)"
        "exec Q os t f cs (upd_blocker bp b s1) = Some s'"
        using Cons.prems(1) by (auto split: option.splits)
      have "fb_state (rt_fibers (upd_blocker bp b s1) f) = RUNNABLE"
        using wakeUp_effect(2) [OF e(1), of f] Cons.prems(3) by auto
      note i = Cons.IH [OF e(2) _ this]
      show ?thesis using i wakeUp_effect(2) [OF e(1), of g] Cons.prems(2) by auto
    qed (use Cons.prems in auto)
  qed auto
  then show "fb_state (rt_fibers s' f) = RUNNABLE \<or> fb_state (rt_fibers s' f) = TERMINATED \<and> sc_code s' f = []"
    and "g \<noteq> f \<Longrightarrow> fb_state (rt_fibers s' g) = fb_state (rt_fibers s g) \<or> fb_state (rt_fibers s' g) = RUNNABLE"
    and "set (sc_code s' f) \<subseteq> set cs" by auto
qed

section \<open>A turn\<close>

lemma poll_effect:
  assumes "cq_poll q s = Some (r, s')"
  shows "rt.more s' = rt.more s" "fb_state (rt_fibers s' g) = fb_state (rt_fibers s g)"
  using assms by (auto simp: cq_poll_def Let_def split: option.splits)

lemma bind_effect:
  "sc_code (bind_fiber q t w f s) = sc_code s" "fb_state (rt_fibers (bind_fiber q t w f s) g) = fb_state (rt_fibers s g)"
  by (simp_all add: bind_fiber_def EFiber_setIoWaiter_def Let_def)

lemma after_run_effect:
  assumes "after_run Q q f s = Some s'"
  shows "sc_code s' = sc_code s" "fb_state (rt_fibers s' g) = fb_state (rt_fibers s g)"
  using assms more_eq(8) [OF cq_add_more [of q f s]]
    more_eq(8) [OF cq_add_more [of q f "upd_blocker bp b s" for bp b]]
  by (auto simp: after_run_def Let_def cq_add_fields split: fstate.splits option.splits prod.splits if_splits)

lemma io_round_code:
  assumes "os_ok os interest clk" "sched_ok Q view interest L F R s" "io_round os t default_waiter timeout s = Some s'"
  shows "sc_code s' = sc_code s"
proof -
  note d = sched_okD [OF assms(2)]
  obtain n iw k s1 where r: "EIoWaiter_onceProcessEvents os t default_waiter timeout (sc_waiters s default_waiter)
        (sc_kernel s) s = Some (n, iw, k, s1)" "wakes F s s1"
    using EIoWaiter_round [OF assms(1) d(4,8,9), of t default_waiter timeout] by blast
  have "s' = (upd_waiter default_waiter iw s1)\<lparr>sc_kernel := k\<rparr>" using assms(3) r(1) by (simp add: io_round_def)
  then show ?thesis using more_eq(8) [OF wakes_more [OF r(2)]] by simp
qed

text \<open>
  What a turn does: it waits, because all fibers are parked; or it leaves the loop; or it runs a fiber
  \<open>f\<close>, from a state \<open>s3\<close> to a state \<open>s4\<close>, in which it has ended or is left with less work.
\<close>

lemma turn_cases:
  assumes fifo: "cxx_fifo Q view" and kernel: "os_ok os interest clk" and ok: "sched_ok Q view interest L F {} s"
    and ni: "\<not> sc_interrupted s"
  obtains s' where "EFiberScheduler_join_turn os Q (run_code Q os t) t s = Some (Continue, s')" "L \<noteq> {}"
      "\<forall>f\<in>L. parked f s" "sched_ok Q view interest L F {} s'" "sc_code s' = sc_code s" "\<not> sc_interrupted s'"
  | "L = {}" "EFiberScheduler_join_turn os Q (run_code Q os t) t s = Some (Break, s)"
  | f s3 s4 s' L' where "f \<in> L" "\<not> parked f s"
      "EFiberScheduler_join_turn os Q (run_code Q os t) t s = Some (Continue, s')"
      "run_code Q os t f s3 = Some s4" "fb_state (rt_fibers s3 f) = RUNNABLE" "sc_code s3 = sc_code s"
      "\<forall>g. parked g s3 \<longrightarrow> parked g s" "L' = (if fb_state (rt_fibers s4 f) = TERMINATED then L - {f} else L)"
      "sched_ok Q view interest L' (insert f F) {} s'" "sc_code s' = sc_code s4"
      "\<forall>g. fb_state (rt_fibers s' g) = fb_state (rt_fibers s4 g)" "\<not> sc_interrupted s'"
proof -
  note d = sched_okD [OF ok]
  from sched_poll [OF ok] show thesis
  proof
    assume e: "cq_poll default_queue s = Some (None, s) \<and> (\<forall>f\<in>L. parked f s)"
    show thesis
    proof (cases "sc_total s > 0")
      case True
      obtain s' where r: "io_round os t default_waiter 3000 s = Some s'" "sched_ok Q view interest L F {} s'"
          "sc_interrupted s' = sc_interrupted s"
        using io_round_ok [OF kernel ok] by blast
      show thesis
        by (rule that(1) [of s'])
          (use e True ni d(2) r io_round_code [OF kernel ok r(1)] in \<open>auto simp: EFiberScheduler_join_turn_def\<close>)
    next
      case False
      then have "L = {}" using d(1,2) by simp
      then show thesis using that(2) e False ni by (simp add: EFiberScheduler_join_turn_def)
    qed
  next
    assume "\<exists>f s'. f \<in> L \<and> cq_poll default_queue s = Some (Some f, s') \<and> sched_ok Q view interest L F {f} s' \<and>
       fb_state (rt_fibers s' f) = RUNNABLE \<and> sc_interrupted s' = sc_interrupted s"
    then obtain f s1 where p: "f \<in> L" "cq_poll default_queue s = Some (Some f, s1)"
        "sched_ok Q view interest L F {f} s1" "fb_state (rt_fibers s1 f) = RUNNABLE" "\<not> sc_interrupted s1"
      using ni by blast
    note pe = poll_effect [OF p(2)]
    have pk1: "parked g s1 \<longleftrightarrow> parked g s" for g by (simp add: parked_def pe(2))
    define io where "io = (if EIoWaiter_getWaitersCount (sc_waiters s1 default_waiter) > 0
        then io_round os t default_waiter 0 s1 else Some s1)"
    obtain s2 where s2: "io = Some s2" "sched_ok Q view interest L F {f} s2" "\<forall>g. parked g s2 \<longrightarrow> parked g s1"
        "sc_code s2 = sc_code s1" "\<not> sc_interrupted s2"
    proof (cases "EIoWaiter_getWaitersCount (sc_waiters s1 default_waiter) > 0")
      case True
      obtain s' where r: "io_round os t default_waiter 0 s1 = Some s'" "sched_ok Q view interest L F {f} s'"
          "sc_interrupted s' = sc_interrupted s1" "\<forall>g. parked g s' \<longrightarrow> parked g s1"
        using io_round_ok [OF kernel p(3)] by blast
      show thesis
        by (rule that [of s']) (use True r p(5) io_round_code [OF kernel p(3) r(1)] in \<open>simp_all add: io_def\<close>)
    next
      case False
      then show thesis using that [of s1] p(3,5) by (simp add: io_def)
    qed
    have np: "\<not> parked f s1" using p(4) by (simp add: parked_def)
    then have f2: "fb_state (rt_fibers s2 f) = RUNNABLE"
      using sched_okD(5) [OF s2(2)] s2(3) p(1) unfolding states_ok_def by blast
    define s3 where "s3 = bind_fiber default_queue t default_waiter f s2"
    note b = bind_ok [OF s2(2) p(1), of t]
    have s3: "sched_ok Q view interest L (insert f F) {f} s3" "fb_state (rt_fibers s3 f) = RUNNABLE"
        "sc_interrupted s3 = sc_interrupted s2" "sc_code s3 = sc_code s2" "\<forall>g. parked g s3 \<longrightarrow> parked g s2"
      using b f2 by (simp_all add: s3_def bind_effect parked_def)
    obtain s4 where s4: "run_code Q os t f s3 = Some s4" "sched_ran Q view interest f L (insert f F) s4"
      using exec_ok [OF kernel s3(1) insertI1 p(1) s3(2)] unfolding run_code_def by blast
    define L' where "L' = (if fb_state (rt_fibers s4 f) = TERMINATED then L - {f} else L)"
    obtain s5 where s5: "after_run Q default_queue f s4 = Some s5" "sched_ok Q view interest L' (insert f F) {} s5"
        "sc_interrupted s5 = sc_interrupted s4"
      using after_run_ok [OF fifo s4(2)] unfolding L'_def by blast
    note ae = after_run_effect [OF s5(1)]
    have "sc_interrupted s4 = sc_interrupted s3"
      using exec_ran [OF s4(1) [unfolded run_code_def]] by (simp add: ran_code_def)
    show thesis
    proof (rule that(3) [OF p(1) _ _ s4(1) s3(2) _ _ L'_def s5(2) ae(1)])
      show "EFiberScheduler_join_turn os Q (run_code Q os t) t s = Some (Continue, s5)"
        using ni p(2) s2(1) s4(1) s5(1) unfolding EFiberScheduler_join_turn_def io_def s3_def by simp
      show "\<not> parked f s" using np pk1 by simp
      show "sc_code s3 = sc_code s" using s3(4) s2(4) more_eq(8) [OF pe(1)] by simp
      show "\<forall>g. parked g s3 \<longrightarrow> parked g s" using s3(5) s2(3) pk1 by blast
      show "\<not> sc_interrupted s5" using s5(3) \<open>sc_interrupted s4 = sc_interrupted s3\<close> s3(3) s2(5) by simp
    qed (simp add: ae(2))
  qed
qed

text \<open>Every turn that runs a fiber uses up work.\<close>

lemma turn_uses_work:
  assumes fifo: "cxx_fifo Q view" and kernel: "os_ok os interest clk" and ok: "sched_ok Q view interest L F {} s"
    and ni: "\<not> sc_interrupted s"
  shows "(\<exists>s'. EFiberScheduler_join_turn os Q (run_code Q os t) t s = Some (Continue, s') \<and> L \<noteq> {} \<and> (\<forall>f\<in>L. parked f s) \<and>
       sched_ok Q view interest L F {} s' \<and> total_work L s' = total_work L s \<and> \<not> sc_interrupted s') \<or>
     L = {} \<and> EFiberScheduler_join_turn os Q (run_code Q os t) t s = Some (Break, s) \<or>
     (\<exists>f s' L' F'. f \<in> L \<and> \<not> parked f s \<and> EFiberScheduler_join_turn os Q (run_code Q os t) t s = Some (Continue, s') \<and>
       sched_ok Q view interest L' F' {} s' \<and> total_work L' s' < total_work L s \<and> \<not> sc_interrupted s')"
  using fifo kernel ok ni
proof (cases rule: turn_cases [where t = t])
  case (1 s')
  then have "total_work L s' = total_work L s" by (simp add: total_work_def)
  then show ?thesis using 1 by blast
next
  case 2
  then show ?thesis by blast
next
  case (3 f s3 s4 s' L')
  obtain cs' where c: "sc_code s4 = (sc_code s)(f := cs')" "fb_state (rt_fibers s4 f) = TERMINATED \<or> work cs' < work (sc_code s f)"
    using exec_ran [OF 3(4) [unfolded run_code_def]] 3(6) unfolding ran_code_def by auto
  have "total_work L' s' < total_work L s"
    by (rule total_work_run [OF sched_okD(1) [OF ok] 3(1), of s' s cs']) (use c 3(8,10) in auto)
  then show ?thesis using 3 by blast
qed

section \<open>The loop\<close>

text \<open>At most \<open>n\<close> turns of the loop, with the number of those that take a fiber from the queue.\<close>

fun join_turns :: "'k os \<Rightarrow> (waiter, 'q) cxx_queue \<Rightarrow> (fptr \<Rightarrow> ('q, 'k, 'c) sched \<Rightarrow> ('q, 'k, 'c) sched option) \<Rightarrow>
    tid \<Rightarrow> nat \<Rightarrow> ('q, 'k, 'c) sched \<Rightarrow> (nat \<times> ('q, 'k, 'c) sched) option" where
  "join_turns os Q run t 0 s = Some (0, s)"
| "join_turns os Q run t (Suc n) s =
     (case EFiberScheduler_join_turn os Q run t s of
        None \<Rightarrow> None
      | Some (Continue, s') \<Rightarrow>
          map_option (\<lambda>(b, r). ((case cq_poll default_queue s of Some (Some f, _) \<Rightarrow> Suc b | _ \<Rightarrow> b), r))
            (join_turns os Q run t n s')
      | Some (_, s') \<Rightarrow> Some (0, s'))"

lemma poll_parked:
  assumes "sched_ok Q view interest L F {} s" "\<forall>f\<in>L. parked f s"
  shows "cq_poll default_queue s = Some (None, s)"
proof -
  have False if "f \<in> L" "cq_poll default_queue s = Some (Some f, s')" "fb_state (rt_fibers s' f) = RUNNABLE" for f s'
    using that assms(2) poll_effect(2) [OF that(2), of f] by (auto simp: parked_def)
  then show ?thesis using sched_poll [OF assms(1)] by blast
qed

lemma busy_turns_bounded:
  assumes fifo: "cxx_fifo Q view" and kernel: "os_ok os interest clk"
  shows "sched_ok Q view interest L F {} s \<Longrightarrow> \<not> sc_interrupted s \<Longrightarrow>
     \<exists>b s'. join_turns os Q (run_code Q os t) t n s = Some (b, s') \<and> b \<le> total_work L s"
proof (induction n arbitrary: L F s)
  case (Suc n)
  from turn_uses_work [OF fifo kernel Suc.prems, of t] show ?case
  proof (elim disjE exE conjE)
    fix s' assume 1: "EFiberScheduler_join_turn os Q (run_code Q os t) t s = Some (Continue, s')" "\<forall>f\<in>L. parked f s"
      "sched_ok Q view interest L F {} s'" "total_work L s' = total_work L s" "\<not> sc_interrupted s'"
    obtain b r where "join_turns os Q (run_code Q os t) t n s' = Some (b, r)" "b \<le> total_work L s'"
      using Suc.IH [OF 1(3,5)] by blast
    then show ?thesis using 1(1,4) poll_parked [OF Suc.prems(1) 1(2)] by simp
  next
    assume "EFiberScheduler_join_turn os Q (run_code Q os t) t s = Some (Break, s)"
    then show ?thesis by simp
  next
    fix f s' L' F' assume 3: "EFiberScheduler_join_turn os Q (run_code Q os t) t s = Some (Continue, s')"
      "sched_ok Q view interest L' F' {} s'" "total_work L' s' < total_work L s" "\<not> sc_interrupted s'"
    obtain b r where "join_turns os Q (run_code Q os t) t n s' = Some (b, r)" "b \<le> total_work L' s'"
      using Suc.IH [OF 3(2,4)] by blast
    then show ?thesis using 3(1,3) by (auto split: option.splits)
  qed
qed simp

text \<open>Fibers that do not park, and are not parked.\<close>

definition all_busy :: "fptr set \<Rightarrow> ('q, 'k, cmd list) sched \<Rightarrow> bool" where
  "all_busy L s \<longleftrightarrow> (\<forall>f\<in>L. \<not> parked f s \<and> (\<forall>c\<in>set (sc_code s f). nonblocking c))"

lemma turn_keeps_busy:
  assumes fifo: "cxx_fifo Q view" and kernel: "os_ok os interest clk" and ok: "sched_ok Q view interest L F {} s"
    and ni: "\<not> sc_interrupted s" and ab: "all_busy L s"
  shows "L = {} \<and> EFiberScheduler_join_turn os Q (run_code Q os t) t s = Some (Break, s) \<or>
     (\<exists>s' L' F'. EFiberScheduler_join_turn os Q (run_code Q os t) t s = Some (Continue, s') \<and>
       sched_ok Q view interest L' F' {} s' \<and> total_work L' s' < total_work L s \<and> \<not> sc_interrupted s' \<and> all_busy L' s')"
  using fifo kernel ok ni
proof (cases rule: turn_cases [where t = t])
  case (1 s')
  then show ?thesis using ab by (auto simp: all_busy_def)
next
  case 2
  then show ?thesis by blast
next
  case (3 f s3 s4 s' L')
  have x: "exec Q os t f (sc_code s f) s3 = Some s4" using 3(4,6) by (simp add: run_code_def)
  have nb: "\<forall>c\<in>set (sc_code s f). nonblocking c" using ab 3(1) by (simp add: all_busy_def)
  note en = exec_nonblocking [OF x nb 3(5)]
  obtain cs' where c: "sc_code s4 = (sc_code s)(f := cs')" "fb_state (rt_fibers s4 f) = TERMINATED \<or> work cs' < work (sc_code s f)"
    using exec_ran [OF x] 3(6) unfolding ran_code_def by auto
  have w: "total_work L' s' < total_work L s"
    by (rule total_work_run [OF sched_okD(1) [OF ok] 3(1), of s' s cs']) (use c 3(8,10) in auto)
  have "\<not> parked g s' \<and> (\<forall>c\<in>set (sc_code s' g). nonblocking c)" if g: "g \<in> L'" for g
  proof (cases "g = f")
    case True
    then have "fb_state (rt_fibers s4 f) \<noteq> TERMINATED" using g 3(8) by (auto split: if_splits)
    then show ?thesis using en(1,3) nb 3(10,11) True by (auto simp: parked_def)
  next
    case False
    have gL: "g \<in> L" using g 3(8) by (auto split: if_splits)
    then have "\<not> parked g s3" using ab 3(7) by (auto simp: all_busy_def)
    then have "\<not> parked g s'" using en(2) [OF False] 3(11) by (auto simp: parked_def)
    then show ?thesis using ab gL c(1) False 3(10) by (simp add: all_busy_def)
  qed
  then have "all_busy L' s'" by (simp add: all_busy_def)
  then show ?thesis using 3(3,9,12) w by blast
qed

lemma join_ends:
  assumes fifo: "cxx_fifo Q view" and kernel: "os_ok os interest clk"
  shows "sched_ok Q view interest L F {} s \<Longrightarrow> \<not> sc_interrupted s \<Longrightarrow> all_busy L s \<Longrightarrow>
     \<exists>s'. EFiberScheduler_join os Q (run_code Q os t) t s = Some (True, s') \<and> sc_total s' = 0"
proof (induction "total_work L s" arbitrary: L F s rule: less_induct)
  case less
  from turn_keeps_busy [OF fifo kernel less.prems, of t] show ?case
  proof (elim disjE exE conjE)
    assume e: "L = {}" "EFiberScheduler_join_turn os Q (run_code Q os t) t s = Some (Break, s)"
    then have "sc_total s = 0" using sched_okD(2) [OF less.prems(1)] by simp
    then show ?thesis using e by (subst EFiberScheduler_join.simps) simp
  next
    fix s' L' F' assume c: "EFiberScheduler_join_turn os Q (run_code Q os t) t s = Some (Continue, s')"
      "sched_ok Q view interest L' F' {} s'" "total_work L' s' < total_work L s" "\<not> sc_interrupted s'" "all_busy L' s'"
    from less.hyps [OF c(3,2,4,5)] show ?thesis using c(1) by (subst EFiberScheduler_join.simps) simp
  qed
qed

end
