(* ===== verification/Machine_Context.thy ===== *)
theory Machine_Context
  imports Eco_Prelude
begin

text \<open>
  \<open>EContext\<close> (src/EContext.hh, src/EContext.cpp) on x86-64: how the processor changes from the stack of
  the scheduler to that of a fiber and back. The macros \<open>SETJMP\<close> and \<open>LONGJMP\<close> are translated
  instruction by instruction; the theory shows that what runs after a switch finds the registers,
  the stack pointer and \<open>errno\<close> as it left them. The \<open>ucontext\<close> functions of the C library, which
  serve for the first switch to a fiber only, are arguments. Memory is modelled in aligned
  quadwords, which is all that the macros access.
\<close>

section \<open>The machine\<close>

datatype reg = RAX | RBX | RCX | RDX | RSI | RDI | RBP | RSP | R12 | R13 | R14 | R15

record cpu =
  cp_reg :: "reg \<Rightarrow> 64 word"
  cp_mem :: "64 word \<Rightarrow> 64 word"
  cp_pc :: "64 word"

text \<open>The instructions that the macros use, with the operands in the order of the source.\<close>

datatype instr =
    Lea "64 word" reg          \<comment> \<open>the address of a label\<close>
  | Xor reg reg
  | Mov reg reg
  | Store reg int reg          \<comment> \<open>\<open>mov %r, off(%b)\<close>\<close>
  | Load int reg reg           \<comment> \<open>\<open>mov off(%b), %r\<close>\<close>
  | Jmp reg                    \<comment> \<open>\<open>jmp *%r\<close>\<close>

fun exec_instr :: "instr \<Rightarrow> cpu \<Rightarrow> cpu" where
  "exec_instr (Lea a d) m = m\<lparr>cp_reg := (cp_reg m)(d := a)\<rparr>"
| "exec_instr (Xor s d) m = m\<lparr>cp_reg := (cp_reg m)(d := xor (cp_reg m d) (cp_reg m s))\<rparr>"
| "exec_instr (Mov s d) m = m\<lparr>cp_reg := (cp_reg m)(d := cp_reg m s)\<rparr>"
| "exec_instr (Store s off b) m = m\<lparr>cp_mem := (cp_mem m)(cp_reg m b + word_of_int off := cp_reg m s)\<rparr>"
| "exec_instr (Load off b d) m = m\<lparr>cp_reg := (cp_reg m)(d := cp_mem m (cp_reg m b + word_of_int off))\<rparr>"
| "exec_instr (Jmp r) m = m\<lparr>cp_pc := cp_reg m r\<rparr>"

definition exec_code :: "instr list \<Rightarrow> cpu \<Rightarrow> cpu" where
  "exec_code is m = fold exec_instr is m"

lemma exec_code_simps [simp]:
  "exec_code [] m = m" "exec_code (i # is) m = exec_code is (exec_instr i m)"
  by (simp_all add: exec_code_def)

section \<open>SETJMP and LONGJMP\<close>

text \<open>
  \<open>lab\<close> is the address of \<open>LJMPRET\<close>, the end of the code. The operand constraints put the address of
  the save area into \<open>rdx\<close> and \<open>rax\<close>. After \<open>SETJMP\<close> the processor goes on at \<open>lab\<close>.
\<close>

definition setjmp_code :: "64 word \<Rightarrow> instr list" where
  "setjmp_code lab =
     [Lea lab RCX, Xor RAX RAX,
      Store RBX 0 RDX, Store RBP 8 RDX, Store R12 16 RDX, Store RSP 24 RDX, Store R13 32 RDX,
      Store R14 40 RDX, Store R15 48 RDX, Store RCX 56 RDX, Store RDI 64 RDX, Store RSI 72 RDX]"

definition longjmp_code :: "instr list" where
  "longjmp_code =
     [Load 0 RAX RBX, Load 8 RAX RBP, Load 16 RAX R12, Load 24 RAX RDX, Load 32 RAX R13,
      Load 40 RAX R14, Mov RDX RSP, Load 48 RAX R15, Load 56 RAX RDX, Load 64 RAX RDI,
      Load 72 RAX RSI, Jmp RDX]"

definition SETJMP :: "64 word \<Rightarrow> 64 word \<Rightarrow> cpu \<Rightarrow> cpu" where
  "SETJMP lab ctx m = (exec_code (setjmp_code lab) (m\<lparr>cp_reg := (cp_reg m)(RDX := ctx)\<rparr>))\<lparr>cp_pc := lab\<rparr>"

definition LONGJMP :: "64 word \<Rightarrow> cpu \<Rightarrow> cpu" where
  "LONGJMP ctx m = exec_code longjmp_code (m\<lparr>cp_reg := (cp_reg m)(RAX := ctx)\<rparr>)"

text \<open>The result \<open>ret\<close>, an \<open>int\<close>: the lower half of \<open>rax\<close>, read at \<open>LJMPRET\<close>.\<close>

definition setjmp_ret :: "cpu \<Rightarrow> 32 word" where
  "setjmp_ret m = ucast (cp_reg m RAX)"

text \<open>The ten quadwords of a save area, and the registers that survive a switch.\<close>

definition jmp_cells :: "64 word \<Rightarrow> (64 word) list" where
  "jmp_cells ctx = map (\<lambda>i. ctx + word_of_int (8 * int i)) [0..<10]"

definition kept_regs :: "reg list" where
  "kept_regs = [RBX, RBP, R12, R13, R14, R15, RSP, RDI, RSI]"

section \<open>Threads and contexts\<close>

text \<open>
  \<open>errno\<close> is \<open>None\<close> when its value is indeterminate. \<open>threadLocal\<close> of a thread is the save area of its
  scheduler; \<open>malloc\<close> gives its address. A \<open>'u\<close> is a \<open>ucontext_t\<close>.
\<close>

record thread =
  th_cpu :: cpu
  th_errno :: "int option"
  th_local :: "64 word option"

record 'u econtext =
  ec_env :: "64 word"           \<comment> \<open>the address of \<open>env\<close>\<close>
  ec_context :: "'u option"
  ec_stackAddr :: int
  ec_errno :: "int option"

definition getOrignContext :: "64 word \<Rightarrow> thread \<Rightarrow> 64 word \<times> thread" where
  "getOrignContext fresh th =
     (case th_local th of Some env \<Rightarrow> (env, th) | None \<Rightarrow> (fresh, th\<lparr>th_local := Some fresh\<rparr>))"

text \<open>The result says whether a save area was freed.\<close>

definition cleanOrignContext :: "thread \<Rightarrow> bool \<times> thread" where
  "cleanOrignContext th = (th_local th \<noteq> None, th\<lparr>th_local := None\<rparr>)"

text \<open>
  The constructor. \<open>sigmask\<close> and \<open>getcontext\<close> (\<open>None\<close> for -1) fill a \<open>ucontext\<close>; \<open>makecontext u sp size fiber\<close>
  prepares it to run \<open>fiber_worker\<close> on the stack. The result \<open>None\<close> is the exception. \<open>errno_\<close> is not
  initialised.
\<close>

definition EContext_ctor :: "('u \<Rightarrow> 'u) \<Rightarrow> ('u \<Rightarrow> 'u option) \<Rightarrow> ('u \<Rightarrow> int \<Rightarrow> int \<Rightarrow> 'f \<Rightarrow> 'u) \<Rightarrow> (int \<Rightarrow> int) \<Rightarrow>
    'u \<Rightarrow> int \<Rightarrow> 64 word \<Rightarrow> int \<Rightarrow> 'f \<Rightarrow> 'u econtext option" where
  "EContext_ctor sigmask getcontext makecontext ES_ALIGN_DEFAULT zeroed stack env stackSize fiber =
     (case getcontext (sigmask zeroed) of
        None \<Rightarrow> None
      | Some u \<Rightarrow>
          (let aligned = ES_ALIGN_DEFAULT stack;
               u' = makecontext u aligned (stackSize - (aligned - stack)) fiber
           in Some \<lparr>ec_env = env, ec_context = Some u', ec_stackAddr = stack, ec_errno = None\<rparr>))"

section \<open>The switches\<close>

text \<open>
  A segment of code either returns to its caller or jumps away. What follows \<open>SETJMP\<close> is reached twice,
  when the registers have been saved and when a \<open>LONGJMP\<close> comes back; it is a definition of its own.
\<close>

datatype flow = Returns bool | Jumps

definition swapIn_landed :: "('u \<Rightarrow> cpu \<Rightarrow> cpu) \<Rightarrow> 'u econtext \<Rightarrow> thread \<Rightarrow> flow \<times> thread" where
  "swapIn_landed setcontext ec th =
     (if setjmp_ret (th_cpu th) = 0 then
        (Jumps, th\<lparr>th_cpu :=
           (case ec_context ec of Some u \<Rightarrow> setcontext u (th_cpu th) | None \<Rightarrow> LONGJMP (ec_env ec) (th_cpu th))\<rparr>)
      else (Returns True, th))"

definition EContext_swapIn :: "('u \<Rightarrow> cpu \<Rightarrow> cpu) \<Rightarrow> 64 word \<Rightarrow> 64 word \<Rightarrow> 'u econtext \<Rightarrow> thread \<Rightarrow>
    flow \<times> thread" where
  "EContext_swapIn setcontext lab fresh ec th =
     (let th1 = th\<lparr>th_errno := ec_errno ec\<rparr>;
          (orig, th2) = getOrignContext fresh th1
      in swapIn_landed setcontext ec (th2\<lparr>th_cpu := SETJMP lab orig (th_cpu th2)\<rparr>))"

definition swapOut_landed :: "64 word \<Rightarrow> thread \<Rightarrow> flow \<times> thread" where
  "swapOut_landed fresh th =
     (if setjmp_ret (th_cpu th) = 0 then
        (let (orig, th1) = getOrignContext fresh th in (Jumps, th1\<lparr>th_cpu := LONGJMP orig (th_cpu th1)\<rparr>))
      else (Returns True, th))"

definition EContext_swapOut :: "64 word \<Rightarrow> 64 word \<Rightarrow> 'u econtext \<Rightarrow> thread \<Rightarrow>
    flow \<times> 'u econtext \<times> thread" where
  "EContext_swapOut lab fresh ec th =
     (let ec1 = ec\<lparr>ec_errno := th_errno th\<rparr>;
          (fl, th1) = swapOut_landed fresh (th\<lparr>th_cpu := SETJMP lab (ec_env ec) (th_cpu th)\<rparr>)
      in (fl, ec1, th1))"

text \<open>The start of \<open>fiber_worker\<close>: the \<open>ucontext\<close> has served its purpose.\<close>

definition fiber_worker_start :: "'u econtext \<Rightarrow> 'u econtext" where
  "fiber_worker_start ec = (if ec_context ec \<noteq> None then ec\<lparr>ec_context := None\<rparr> else ec)"

text \<open>
  The debug output of \<open>swapOut\<close>: the scan for the first byte of the stack that has been used. The stack
  is cleared when it is allocated and grows downwards; the result is the number \<open>n\<close> that is printed. The
  output is controlled by the flags of \<open>EFiberDebugger\<close> (inc/EFiberDebugger.hh, src/EFiberDebugger.cpp).
\<close>

definition EFiberDebugger_debugOn :: "int \<Rightarrow> int \<Rightarrow> int" where
  "EFiberDebugger_debugOn debugFlags flags = debugFlags OR flags"

definition EFiberDebugger_debugOff :: "int \<Rightarrow> int \<Rightarrow> int" where
  "EFiberDebugger_debugOff debugFlags flags = debugFlags AND NOT flags"

definition EFiberDebugger_isDebugOn :: "int \<Rightarrow> int \<Rightarrow> bool" where
  "EFiberDebugger_isDebugOn debugFlags flags = (debugFlags AND flags \<noteq> 0)"

fun stack_scan :: "8 word list \<Rightarrow> nat" where
  "stack_scan [] = 0"
| "stack_scan (b # bs) = (if b = 0 then stack_scan bs else length bs)"

section \<open>What a jump restores\<close>

lemma SETJMP_simps:
  "cp_pc (SETJMP lab ctx m) = lab"
  "cp_reg (SETJMP lab ctx m) = (cp_reg m)(RDX := ctx, RCX := lab, RAX := 0)"
  by (simp_all add: SETJMP_def setjmp_code_def fun_upd_twist)

lemma SETJMP_mem:
  "cp_mem (SETJMP lab ctx m) = (cp_mem m)
     (ctx := cp_reg m RBX, ctx + 8 := cp_reg m RBP, ctx + 16 := cp_reg m R12, ctx + 24 := cp_reg m RSP,
      ctx + 32 := cp_reg m R13, ctx + 40 := cp_reg m R14, ctx + 48 := cp_reg m R15, ctx + 56 := lab,
      ctx + 64 := cp_reg m RDI, ctx + 72 := cp_reg m RSI)"
  by (simp add: SETJMP_def setjmp_code_def)

lemma SETJMP_ret: "setjmp_ret (SETJMP lab ctx m) = 0"
  by (simp add: setjmp_ret_def SETJMP_simps)

lemma jmp_cells_eq:
  "jmp_cells ctx = [ctx, ctx + 8, ctx + 16, ctx + 24, ctx + 32, ctx + 40, ctx + 48, ctx + 56, ctx + 64, ctx + 72]"
  by (simp add: jmp_cells_def upt_rec)

lemma SETJMP_frame: "a \<notin> set (jmp_cells ctx) \<Longrightarrow> cp_mem (SETJMP lab ctx m) a = cp_mem m a"
  by (simp add: SETJMP_mem jmp_cells_eq)

lemma LONGJMP_simps:
  "cp_mem (LONGJMP ctx m) = cp_mem m"
  "cp_pc (LONGJMP ctx m) = cp_mem m (ctx + 56)"
  "cp_reg (LONGJMP ctx m) RAX = ctx"
  "map (cp_reg (LONGJMP ctx m)) kept_regs =
     map (\<lambda>i. cp_mem m (ctx + i)) [0, 8, 16, 32, 40, 48, 24, 64, 72]"
  by (simp_all add: LONGJMP_def longjmp_code_def kept_regs_def)

text \<open>
  \<open>rdx\<close>, an input operand of \<open>SETJMP\<close> that is not declared as clobbered, holds the address of the label
  when a jump comes back.
\<close>

lemma LONGJMP_rdx: "cp_reg (LONGJMP ctx m) RDX = cp_mem m (ctx + 56)"
  by (simp add: LONGJMP_def longjmp_code_def)

lemma LONGJMP_ret: "(ucast ctx :: 32 word) \<noteq> 0 \<Longrightarrow> setjmp_ret (LONGJMP ctx m) \<noteq> 0"
  by (simp add: setjmp_ret_def LONGJMP_simps)

text \<open>A jump to a save area brings back the processor that was saved there.\<close>

definition saved_at :: "64 word \<Rightarrow> 64 word \<Rightarrow> (reg \<Rightarrow> 64 word) \<Rightarrow> (64 word \<Rightarrow> 64 word) \<Rightarrow> bool" where
  "saved_at ctx lab rs mem \<longleftrightarrow>
     mem (ctx + 56) = lab \<and> map (\<lambda>i. mem (ctx + i)) [0, 8, 16, 32, 40, 48, 24, 64, 72] = map rs kept_regs"

lemma SETJMP_saves: "saved_at ctx lab (cp_reg m) (cp_mem (SETJMP lab ctx m))"
  by (simp add: saved_at_def SETJMP_mem kept_regs_def)

lemma LONGJMP_restores:
  assumes "saved_at ctx lab rs (cp_mem m)"
  shows "cp_pc (LONGJMP ctx m) = lab" "\<forall>r\<in>set kept_regs. cp_reg (LONGJMP ctx m) r = rs r"
proof -
  have "map (cp_reg (LONGJMP ctx m)) kept_regs = map rs kept_regs"
    using assms unfolding saved_at_def LONGJMP_simps by (elim conjE)
  then show "\<forall>r\<in>set kept_regs. cp_reg (LONGJMP ctx m) r = rs r" by simp
qed (use assms in \<open>simp add: saved_at_def LONGJMP_simps\<close>)

lemma saved_at_cong:
  assumes "saved_at ctx lab rs mem" "\<forall>a\<in>set (jmp_cells ctx). mem' a = mem a"
  shows "saved_at ctx lab rs mem'"
  using assms by (simp add: saved_at_def jmp_cells_eq)

section \<open>The switches\<close>

lemma swapIn_switches:
  assumes c: "ec_context ec = None" and s: "saved_at (ec_env ec) lab' rs (cp_mem (th_cpu th))"
    and d: "set (jmp_cells (ec_env ec)) \<inter> set (jmp_cells orig) = {}"
    and o: "fst (getOrignContext fresh th) = orig"
  shows "\<exists>th'. EContext_swapIn setcontext lab fresh ec th = (Jumps, th') \<and>
     cp_pc (th_cpu th') = lab' \<and> (\<forall>r\<in>set kept_regs. cp_reg (th_cpu th') r = rs r) \<and>
     cp_reg (th_cpu th') RAX = ec_env ec \<and> th_errno th' = ec_errno ec \<and> th_local th' = Some orig \<and>
     saved_at orig lab (cp_reg (th_cpu th)) (cp_mem (th_cpu th')) \<and>
     (\<forall>a. a \<notin> set (jmp_cells orig) \<longrightarrow> cp_mem (th_cpu th') a = cp_mem (th_cpu th) a)"
proof -
  let ?m = "SETJMP lab orig (th_cpu th)"
  let ?th' = "\<lparr>th_cpu = LONGJMP (ec_env ec) ?m, th_errno = ec_errno ec, th_local = Some orig\<rparr>"
  have "saved_at (ec_env ec) lab' rs (cp_mem ?m)"
    by (rule saved_at_cong [OF s]) (use d SETJMP_frame in blast)
  note r = LONGJMP_restores [OF this]
  have "EContext_swapIn setcontext lab fresh ec th = (Jumps, ?th')"
    using o c by (auto simp: EContext_swapIn_def swapIn_landed_def getOrignContext_def SETJMP_ret split: option.splits)
  then show ?thesis
    using r SETJMP_saves [of orig lab "th_cpu th"]
    by (intro exI [of _ ?th']) (simp add: LONGJMP_simps SETJMP_frame)
qed

lemma swapOut_switches:
  assumes l: "th_local th = Some orig" and s: "saved_at orig lab' rs (cp_mem (th_cpu th))"
    and d: "set (jmp_cells (ec_env ec)) \<inter> set (jmp_cells orig) = {}"
  shows "\<exists>th'. EContext_swapOut lab fresh ec th = (Jumps, ec\<lparr>ec_errno := th_errno th\<rparr>, th') \<and>
     cp_pc (th_cpu th') = lab' \<and> (\<forall>r\<in>set kept_regs. cp_reg (th_cpu th') r = rs r) \<and>
     cp_reg (th_cpu th') RAX = orig \<and> th_errno th' = th_errno th \<and> th_local th' = Some orig \<and>
     saved_at (ec_env ec) lab (cp_reg (th_cpu th)) (cp_mem (th_cpu th')) \<and>
     (\<forall>a. a \<notin> set (jmp_cells (ec_env ec)) \<longrightarrow> cp_mem (th_cpu th') a = cp_mem (th_cpu th) a)"
proof -
  let ?m = "SETJMP lab (ec_env ec) (th_cpu th)"
  let ?th' = "\<lparr>th_cpu = LONGJMP orig ?m, th_errno = th_errno th, th_local = Some orig\<rparr>"
  have "saved_at orig lab' rs (cp_mem ?m)"
    by (rule saved_at_cong [OF s]) (use d SETJMP_frame in blast)
  note r = LONGJMP_restores [OF this]
  have "EContext_swapOut lab fresh ec th = (Jumps, ec\<lparr>ec_errno := th_errno th\<rparr>, ?th')"
    using l by (auto simp: EContext_swapOut_def swapOut_landed_def getOrignContext_def SETJMP_ret)
  then show ?thesis
    using r SETJMP_saves [of "ec_env ec" lab "th_cpu th"]
    by (intro exI [of _ ?th']) (simp add: LONGJMP_simps SETJMP_frame)
qed

section \<open>Debugging\<close>

lemma debug_flags:
  "EFiberDebugger_isDebugOn (EFiberDebugger_debugOn d f) g \<longleftrightarrow> EFiberDebugger_isDebugOn d g \<or> f AND g \<noteq> 0"
  "\<not> EFiberDebugger_isDebugOn (EFiberDebugger_debugOff d f) f"
proof -
  have "(d OR f) AND g = (d AND g) OR (f AND g)" by (simp add: bit.conj_disj_distrib2)
  then show "EFiberDebugger_isDebugOn (EFiberDebugger_debugOn d f) g \<longleftrightarrow> EFiberDebugger_isDebugOn d g \<or> f AND g \<noteq> 0"
    by (simp add: EFiberDebugger_isDebugOn_def EFiberDebugger_debugOn_def or_eq_0_iff)
  show "\<not> EFiberDebugger_isDebugOn (EFiberDebugger_debugOff d f) f"
    by (simp add: EFiberDebugger_isDebugOn_def EFiberDebugger_debugOff_def and.assoc)
qed

text \<open>The number printed for a stack with \<open>n\<close> untouched bytes is one less than what has been used.\<close>

lemma stack_scan_zeros: "stack_scan (replicate n 0 @ b # bs) = (if b = 0 then stack_scan bs else length bs)"
  by (induction n) simp_all

end
