(* ===== verification/Fiber_Local.thy ===== *)
theory Fiber_Local
  imports Eco_Runtime "HOL-Library.AList"
begin

text \<open>
  Fiber-local values (inc/EFiberLocal.hh), their release when a fiber is destroyed (\<open>EFiber::~EFiber\<close>,
  src/EFiber.cpp) and the hook \<open>__res_state\<close> (src/EHooker.cpp), which keeps one resolver state per
  fiber in them. The hash table of CxxJDK that holds the values of a fiber is an argument.
\<close>

section \<open>The hash table\<close>

text \<open>
  \<open>eso_hash_get\<close> and \<open>eso_hash_set\<close> take the address and the length of a key, and compare keys by
  their bytes. The key that \<open>EFiberLocal\<close> gives them is the memory of its \<open>keyWrap\<close>, of the length
  \<open>sizeof(this)\<close>, the size of a pointer: the bytes of the pointer \<open>callback\<close>, which may be null. A key
  is therefore a \<open>'cb option\<close>. To set null is to delete. \<open>hs_entries\<close> is what the iterator visits.
\<close>

record ('cb, 'v, 'h) es_hash =
  hs_make :: 'h
  hs_get :: "'h \<Rightarrow> 'cb option \<Rightarrow> 'v option"
  hs_set :: "'h \<Rightarrow> 'cb option \<Rightarrow> 'v option \<Rightarrow> 'v option \<times> 'h"
  hs_entries :: "'h \<Rightarrow> ('cb option \<times> 'v) list"

definition hash_spec :: "('cb, 'v, 'h) es_hash \<Rightarrow> ('h \<Rightarrow> 'cb option \<rightharpoonup> 'v) \<Rightarrow> bool" where
  "hash_spec H view \<longleftrightarrow>
     view (hs_make H) = Map.empty \<and> hs_get H = view \<and>
     (\<forall>h k v. view (snd (hs_set H h k v)) = (view h)(k := v)) \<and>
     (\<forall>h. map_of (hs_entries H h) = view h \<and> distinct (map fst (hs_entries H h)))"

lemma hash_specD:
  assumes "hash_spec H view"
  shows "hs_get H = view" "view (hs_make H) = Map.empty" "view (snd (hs_set H h k v)) = (view h)(k := v)"
    and "set (map fst (hs_entries H h)) = dom (view h)"
    and "(k, x) \<in> set (hs_entries H h) \<longleftrightarrow> view h k = Some x"
proof -
  have s: "map_of (hs_entries H h) = view h" "distinct (map fst (hs_entries H h))"
    using assms by (simp_all add: hash_spec_def)
  show "set (map fst (hs_entries H h)) = dom (view h)" unfolding s(1) [symmetric] by (simp add: dom_map_of_conv_image_fst)
  show "(k, x) \<in> set (hs_entries H h) \<longleftrightarrow> view h k = Some x" unfolding s(1) [symmetric] using s(2) by simp
qed (use assms in \<open>simp_all add: hash_spec_def\<close>)

section \<open>The operations\<close>

text \<open>
  \<open>L\<close> is \<open>localValues\<close> of every fiber, \<open>cur\<close> the current fiber, if any, and \<open>kw\<close> the callback that the
  \<open>EFiberLocal\<close> was constructed with.
\<close>

definition EFiberLocal_get :: "('cb, 'v, 'h) es_hash \<Rightarrow> fptr option \<Rightarrow> 'cb option \<Rightarrow> (fptr \<Rightarrow> 'h) \<Rightarrow> 'v option" where
  "EFiberLocal_get H cur kw L = (case cur of None \<Rightarrow> None | Some f \<Rightarrow> hs_get H (L f) kw)"

definition EFiberLocal_set :: "('cb, 'v, 'h) es_hash \<Rightarrow> fptr option \<Rightarrow> 'cb option \<Rightarrow> 'v option \<Rightarrow> (fptr \<Rightarrow> 'h) \<Rightarrow>
    'v option \<times> (fptr \<Rightarrow> 'h)" where
  "EFiberLocal_set H cur kw e L =
     (case cur of None \<Rightarrow> (None, L)
      | Some f \<Rightarrow> (let (r, h) = hs_set H (L f) kw e in (r, L(f := h))))"

definition EFiberLocal_remove :: "('cb, 'v, 'h) es_hash \<Rightarrow> fptr option \<Rightarrow> 'cb option \<Rightarrow> (fptr \<Rightarrow> 'h) \<Rightarrow>
    'v option \<times> (fptr \<Rightarrow> 'h)" where
  "EFiberLocal_remove H cur kw L =
     (case cur of None \<Rightarrow> (None, L)
      | Some f \<Rightarrow> (let (r, h) = hs_set H (L f) kw None in (r, L(f := h))))"

text \<open>
  The loop of the destructor. \<open>call cb v\<close> is the effect of a callback; the address of a key is never
  null, so that the callback is called whatever it is, and \<open>None\<close> is the call of a null pointer.
\<close>

fun call_destroyed :: "('cb \<Rightarrow> 'v \<Rightarrow> 's \<Rightarrow> 's) \<Rightarrow> ('cb option \<times> 'v) list \<Rightarrow> 's \<Rightarrow> 's option" where
  "call_destroyed call [] s = Some s"
| "call_destroyed call ((kw, v) # es) s =
     (case kw of None \<Rightarrow> None | Some cb \<Rightarrow> call_destroyed call es (call cb v s))"

definition EFiber_dtor :: "('cb, 'v, 'h) es_hash \<Rightarrow> ('cb \<Rightarrow> 'v \<Rightarrow> 's \<Rightarrow> 's) \<Rightarrow> fptr \<Rightarrow> (fptr \<Rightarrow> 'h) \<Rightarrow> 's \<Rightarrow> 's option" where
  "EFiber_dtor H call f L s = call_destroyed call (hs_entries H (L f)) s"

text \<open>
  The hook \<open>__res_state\<close>: \<open>fresh\<close> is what \<open>malloc\<close> returns, \<open>orig\<close> what the original does, \<open>bypassed\<close>
  says that there is no scheduler or that it is interrupted, \<open>kw\<close> is the callback that frees the state.
\<close>

definition hook___res_state :: "('cb, 'v, 'h) es_hash \<Rightarrow> 'cb \<Rightarrow> 'v \<Rightarrow> 'v \<Rightarrow> bool \<Rightarrow> fptr option \<Rightarrow> (fptr \<Rightarrow> 'h) \<Rightarrow>
    'v \<times> (fptr \<Rightarrow> 'h)" where
  "hook___res_state H kw orig fresh bypassed cur L =
     (if bypassed then (orig, L)
      else case EFiberLocal_get H cur (Some kw) L of
             Some rs \<Rightarrow> (rs, L)
           | None \<Rightarrow> (fresh, snd (EFiberLocal_set H cur (Some kw) (Some fresh) L)))"

section \<open>Facts\<close>

lemma get_set:
  assumes "hash_spec H view"
  shows "EFiberLocal_get H (Some g) kw' (snd (EFiberLocal_set H (Some f) kw e L)) =
     (if g = f \<and> kw' = kw then e else EFiberLocal_get H (Some g) kw' L)"
  using hash_specD(1,3) [OF assms] by (auto simp: EFiberLocal_get_def EFiberLocal_set_def split: prod.splits)
    (metis fun_upd_apply snd_conv)+

lemma remove_eq: "EFiberLocal_remove H cur kw L = EFiberLocal_set H cur kw None L"
  by (simp add: EFiberLocal_remove_def EFiberLocal_set_def)

lemma call_destroyed_None: "call_destroyed call es s = None \<longleftrightarrow> None \<in> fst ` set es"
  by (induction call es s rule: call_destroyed.induct) (auto split: option.splits)

lemma call_destroyed_Some:
  "None \<notin> fst ` set es \<Longrightarrow>
     call_destroyed call es s = Some (fold (\<lambda>(cb, v). call cb v) (map (\<lambda>(kw, v). (the kw, v)) es) s)"
  by (induction call es s rule: call_destroyed.induct) (auto split: option.splits)

lemma res_state_again:
  assumes "hash_spec H view" "hook___res_state H kw orig fresh False (Some f) L = (rs, L1)"
  shows "hook___res_state H kw orig' fresh' False (Some f) L1 = (rs, L1)"
proof (cases "EFiberLocal_get H (Some f) (Some kw) L")
  case None
  then have e: "rs = fresh" "L1 = snd (EFiberLocal_set H (Some f) (Some kw) (Some fresh) L)"
    using assms(2) by (auto simp: hook___res_state_def)
  show ?thesis unfolding e using get_set [OF assms(1)] by (simp add: hook___res_state_def)
next
  case (Some r)
  then show ?thesis using assms(2) by (simp add: hook___res_state_def)
qed

text \<open>A hash table that meets the specification: an association list.\<close>

definition alist_hash :: "('cb, 'v, ('cb option \<times> 'v) list) es_hash" where
  "alist_hash =
     \<lparr>hs_make = [], hs_get = map_of,
      hs_set = (\<lambda>h k v. (map_of h k, case v of None \<Rightarrow> AList.delete k h | Some x \<Rightarrow> AList.update k x (AList.delete k h))),
      hs_entries = AList.clearjunk\<rparr>"

lemma alist_hash_spec: "hash_spec alist_hash map_of"
  by (auto simp: hash_spec_def alist_hash_def delete_conv' update_conv' map_of_clearjunk distinct_clearjunk
      fun_eq_iff split: option.splits)

end
