(* ===== verification/Event_Kqueue.thy ===== *)
theory Event_Kqueue
  imports Event_Files
begin

text \<open>
  The other back end of the event loop, src/eco_ae_kqueue.c, and what the two have in common. The
  contract between src/eco_ae.c and a back end is the locale \<open>poll_backend\<close>: the kernel watches each
  descriptor for exactly the events that its mask records. Both back ends meet it.
\<close>

section \<open>The kqueue back end (eco_ae_kqueue.c)\<close>

datatype evfilter = EVFILT_READ | EVFILT_WRITE | EVFILT_OTHER

datatype ev_action = EV_ADD | EV_DELETE

text \<open>
  \<open>kevent_f\<close> in its two uses, to change one registration and to wait: \<open>kq_wait nevents timeout\<close> with
  the timeout in seconds and nanoseconds; the result is the return value and the \<open>(ident, filter)\<close>s.
\<close>

record 'k kq =
  kq_change :: "int \<Rightarrow> evfilter \<Rightarrow> ev_action \<Rightarrow> 'k \<Rightarrow> int \<times> 'k"
  kq_wait :: "int \<Rightarrow> (int \<times> int) option \<Rightarrow> 'k \<Rightarrow> (int \<times> (int \<times> evfilter) list) \<times> 'k"

definition kq_ApiAddEvent :: "'k kq \<Rightarrow> ('p, 'c, 't) poll \<Rightarrow> int \<Rightarrow> int \<Rightarrow> 'k \<Rightarrow> int \<times> 'k" where
  "kq_ApiAddEvent K p fd msk k =
     (let (r, k1) = (if msk AND ECO_POLL_READABLE \<noteq> 0 then kq_change K fd EVFILT_READ EV_ADD k else (0, k))
      in if r = -1 then (-1, k1)
         else let (r2, k2) = (if msk AND ECO_POLL_WRITABLE \<noteq> 0 then kq_change K fd EVFILT_WRITE EV_ADD k1 else (0, k1))
              in if r2 = -1 then (-1, k2) else (0, k2))"

definition kq_ApiUpdEvent :: "'k kq \<Rightarrow> ('p, 'c, 't) poll \<Rightarrow> int \<Rightarrow> int \<Rightarrow> 'k \<Rightarrow> int \<times> 'k" where
  "kq_ApiUpdEvent K p fd msk k =
     (let (r, k1) = (if msk AND ECO_POLL_READABLE \<noteq> 0 then kq_change K fd EVFILT_READ EV_ADD k
                     else (0, snd (kq_change K fd EVFILT_READ EV_DELETE k)))
      in if r = -1 then (-1, k1)
         else let (r2, k2) = (if msk AND ECO_POLL_WRITABLE \<noteq> 0 then kq_change K fd EVFILT_WRITE EV_ADD k1
                              else (0, snd (kq_change K fd EVFILT_WRITE EV_DELETE k1)))
              in if r2 = -1 then (-1, k2) else (0, k2))"

definition kq_ApiDelEvent :: "'k kq \<Rightarrow> ('p, 'c, 't) poll \<Rightarrow> int \<Rightarrow> int \<Rightarrow> 'k \<Rightarrow> 'k" where
  "kq_ApiDelEvent K p fd msk k =
     (let k1 = (if msk AND ECO_POLL_READABLE \<noteq> 0 then snd (kq_change K fd EVFILT_READ EV_DELETE k) else k)
      in if msk AND ECO_POLL_WRITABLE \<noteq> 0 then snd (kq_change K fd EVFILT_WRITE EV_DELETE k1) else k1)"

definition kq_mask :: "evfilter \<Rightarrow> int" where
  "kq_mask f =
     (if f = EVFILT_READ then ECO_POLL_READABLE else 0) OR (if f = EVFILT_WRITE then ECO_POLL_WRITABLE else 0)"

definition kq_ApiPoll :: "'k kq \<Rightarrow> ('p, 'c, 't) poll \<Rightarrow> (int \<times> int) option \<Rightarrow> 'k \<Rightarrow> (int \<times> int) list \<times> 'k" where
  "kq_ApiPoll K p tvp k =
     (let tmo = (case tvp of Some (s, us) \<Rightarrow> Some (s, us * 1000) | None \<Rightarrow> None);
          ((retval, evs), k') = kq_wait K (pl_setsize p) tmo k
      in (if retval > 0 then map (\<lambda>(fd, f). (fd, kq_mask f)) (take (nat retval) evs) else [], k'))"

section \<open>The contract of a back end\<close>

text \<open>
  What src/eco_ae.c does with a back end: \<open>file_event_create_on\<close> and \<open>file_event_delete_on\<close> are the
  operations of Event_Poll with the back end as an argument.
\<close>

definition file_event_create_on :: "(('p, 'c, 't) poll \<Rightarrow> int \<Rightarrow> int \<Rightarrow> 'k \<Rightarrow> int \<times> 'k) \<Rightarrow> ('p, 'c, 't) poll \<Rightarrow>
    int \<Rightarrow> int \<Rightarrow> 'p \<Rightarrow> 'c cdata \<Rightarrow> 'k \<Rightarrow> ((bool \<times> ('p, 'c, 't) poll) \<times> 'k) option" where
  "file_event_create_on add p fd msk proc cd k =
     (if fd \<ge> pl_setsize p then Some ((False, p), k)
      else if fd < 0 then None
      else (let (r, k') = add p fd msk k in
            if r = -1 then Some ((False, p), k')
            else Some ((True, store_event p fd msk proc cd), k')))"

definition file_event_delete_on :: "(('p, 'c, 't) poll \<Rightarrow> int \<Rightarrow> int \<Rightarrow> 'k \<Rightarrow> 'k) \<Rightarrow> ('p, 'c, 't) poll \<Rightarrow>
    int \<Rightarrow> int \<Rightarrow> 'k \<Rightarrow> (('p, 'c, 't) poll \<times> 'k) option" where
  "file_event_delete_on del p fd msk k =
     (if fd \<ge> pl_setsize p then Some (p, k)
      else if fd < 0 then None
      else if ev_mask p fd = ECO_POLL_NONE then Some (p, k)
      else Some (drop_event p fd msk, del (drop_event p fd msk) fd msk k))"

lemma file_event_create_epoll: "eco_poll_file_event_create os = file_event_create_on (aeApiAddEvent os)"
  by (simp add: fun_eq_iff eco_poll_file_event_create_def file_event_create_on_def)

lemma file_event_delete_epoll: "eco_poll_file_event_delete os = file_event_delete_on (aeApiDelEvent os)"
  by (simp add: fun_eq_iff eco_poll_file_event_delete_def file_event_delete_on_def drop_event_def Let_def)

text \<open>A sequence of registrations and deletions; the results are collected.\<close>

datatype ('p, 'c) reg_op = RCreate int int 'p "'c cdata" | RDelete int int

fun regs_run :: "(('p, 'c, 't) poll \<Rightarrow> int \<Rightarrow> int \<Rightarrow> 'k \<Rightarrow> int \<times> 'k) \<Rightarrow> (('p, 'c, 't) poll \<Rightarrow> int \<Rightarrow> int \<Rightarrow> 'k \<Rightarrow> 'k) \<Rightarrow>
    ('p, 'c) reg_op list \<Rightarrow> ('p, 'c, 't) poll \<Rightarrow> 'k \<Rightarrow> (bool list \<times> ('p, 'c, 't) poll \<times> 'k) option" where
  "regs_run add del [] p k = Some ([], p, k)"
| "regs_run add del (RCreate fd m proc cd # os) p k =
     (case file_event_create_on add p fd m proc cd k of
        None \<Rightarrow> None
      | Some ((ok, p1), k1) \<Rightarrow> map_option (\<lambda>(oks, r). (ok # oks, r)) (regs_run add del os p1 k1))"
| "regs_run add del (RDelete fd m # os) p k =
     (case file_event_delete_on del p fd m k of
        None \<Rightarrow> None
      | Some (p1, k1) \<Rightarrow> map_option (\<lambda>(oks, r). (True # oks, r)) (regs_run add del os p1 k1))"

text \<open>The operations are within bounds, and none for both events at once has been refused.\<close>

fun op_fine :: "('p, 'c) reg_op \<Rightarrow> bool \<Rightarrow> bool" where
  "op_fine (RCreate fd m proc cd) ok \<longleftrightarrow> 0 \<le> fd \<and> m \<in> {1, 2, 3} \<and> (ok \<or> m \<noteq> 3)"
| "op_fine (RDelete fd m) ok \<longleftrightarrow> 0 \<le> fd \<and> m \<in> {1, 2, 3}"

lemma regs_run_poll:
  assumes "regs_run add del ops p k = Some (oks, p1, k1)" "regs_run add' del' ops p j = Some (oks, p2, j1)"
  shows "p1 = p2"
  using assms
proof (induction ops arbitrary: oks p k j)
  case (Cons opr ops)
  show ?case
  proof (cases opr)
    case (RCreate fd m proc cd)
    from Cons.prems RCreate obtain ok q k' oks1 where
      a: "file_event_create_on add p fd m proc cd k = Some ((ok, q), k')" "oks = ok # oks1"
        "regs_run add del ops q k' = Some (oks1, p1, k1)"
      by (auto split: option.splits)
    from Cons.prems RCreate a(2) obtain q' j' where
      b: "file_event_create_on add' p fd m proc cd j = Some ((ok, q'), j')" "regs_run add' del' ops q' j' = Some (oks1, p2, j1)"
      by (auto split: option.splits)
    have "q' = q" using a(1) b(1) by (auto simp: file_event_create_on_def split: if_splits prod.splits)
    then show ?thesis using Cons.IH [OF a(3)] b(2) by simp
  next
    case (RDelete fd m)
    from Cons.prems RDelete obtain q k' oks1 where
      a: "file_event_delete_on del p fd m k = Some (q, k')" "oks = True # oks1"
        "regs_run add del ops q k' = Some (oks1, p1, k1)"
      by (auto split: option.splits)
    from Cons.prems RDelete a(2) obtain q' j' where
      b: "file_event_delete_on del' p fd m j = Some (q', j')" "regs_run add' del' ops q' j' = Some (oks1, p2, j1)"
      by (auto split: option.splits)
    have "q' = q" using a(1) b(1) by (auto simp: file_event_delete_on_def split: if_splits)
    then show ?thesis using Cons.IH [OF a(3)] b(2) by simp
  qed
qed simp

text \<open>
  Whatever the kernel answers, a sequence of operations on valid descriptors comes to its end and leaves a
  table in which every mask is one of the four.
\<close>

definition table_typed :: "('p, 'c, 't) poll \<Rightarrow> bool" where
  "table_typed p \<longleftrightarrow> poll_wf p \<and> (\<forall>fd. 0 \<le> fd \<longrightarrow> fd < pl_setsize p \<longrightarrow> ev_mask p fd \<in> {0, 1, 2, 3})"

fun op_typed :: "('p, 'c) reg_op \<Rightarrow> bool" where
  "op_typed (RCreate fd m proc cd) \<longleftrightarrow> 0 \<le> fd \<and> m \<in> {1, 2, 3}"
| "op_typed (RDelete fd m) \<longleftrightarrow> 0 \<le> fd \<and> m \<in> {1, 2, 3}"

lemma masks_closed:
  fixes a m :: int
  assumes "a \<in> {0, 1, 2, 3}" "m \<in> {1, 2, 3}"
  shows "a OR m \<in> {0, 1, 2, 3}" "a AND NOT m \<in> {0, 1, 2, 3}"
  using assms by (elim insertE emptyE; simp)+

lemma create_typed:
  assumes "table_typed p" "0 \<le> fd" "m \<in> {1, 2, 3}"
  shows "\<exists>ok p' k'. file_event_create_on add p fd m proc cd k = Some ((ok, p'), k') \<and> table_typed p' \<and>
     pl_setsize p' = pl_setsize p"
proof (cases "fd \<ge> pl_setsize p \<or> fst (add p fd m k) = -1")
  case True
  then show ?thesis using assms(1,2) by (auto simp: file_event_create_on_def split: prod.splits)
next
  case False
  have l: "nat fd < length (pl_events p)" using assms(1,2) False by (simp add: table_typed_def poll_wf_def)
  have typed: "ev_mask p i \<in> {0, 1, 2, 3}" if "0 \<le> i" "i < pl_setsize p" for i
    using assms(1) that unfolding table_typed_def by blast
  have "table_typed (store_event p fd m proc cd)"
    unfolding table_typed_def
  proof (intro conjI allI impI)
    show "poll_wf (store_event p fd m proc cd)" using assms False by (intro poll_wf_store) (auto simp: table_typed_def)
    fix i assume i: "0 \<le> i" "i < pl_setsize (store_event p fd m proc cd)"
    have "ev_mask p fd OR m \<in> {0, 1, 2, 3}" by (rule masks_closed(1) [OF typed [OF assms(2)] assms(3)]) (use False in simp)
    moreover have "ev_mask p i \<in> {0, 1, 2, 3}" by (rule typed [OF i(1)]) (use i(2) in simp)
    ultimately show "ev_mask (store_event p fd m proc cd) i \<in> {0, 1, 2, 3}"
      unfolding store_event_mask [OF assms(2) l i(1)] by (cases "i = fd") simp_all
  qed
  then show ?thesis using False assms(2) by (auto simp: file_event_create_on_def split: prod.splits)
qed

lemma delete_typed:
  assumes "table_typed p" "0 \<le> fd" "m \<in> {1, 2, 3}"
  shows "\<exists>p' k'. file_event_delete_on del p fd m k = Some (p', k') \<and> table_typed p' \<and> pl_setsize p' = pl_setsize p"
proof (cases "fd \<ge> pl_setsize p \<or> ev_mask p fd = 0")
  case True
  then show ?thesis using assms(1,2) by (auto simp: file_event_delete_on_def)
next
  case False
  have l: "nat fd < length (pl_events p)" using assms(1,2) False by (simp add: table_typed_def poll_wf_def)
  have typed: "ev_mask p i \<in> {0, 1, 2, 3}" if "0 \<le> i" "i < pl_setsize p" for i
    using assms(1) that unfolding table_typed_def by blast
  have "table_typed (drop_event p fd m)"
    unfolding table_typed_def
  proof (intro conjI allI impI)
    show "poll_wf (drop_event p fd m)" using assms False by (intro poll_wf_drop) (auto simp: table_typed_def)
    fix i assume i: "0 \<le> i" "i < pl_setsize (drop_event p fd m)"
    have "ev_mask p fd AND NOT m \<in> {0, 1, 2, 3}" by (rule masks_closed(2) [OF typed [OF assms(2)] assms(3)]) (use False in simp)
    moreover have "ev_mask p i \<in> {0, 1, 2, 3}" by (rule typed [OF i(1)]) (use i(2) in simp)
    ultimately show "ev_mask (drop_event p fd m) i \<in> {0, 1, 2, 3}"
      unfolding drop_event_mask [OF assms(2) l i(1)] by (cases "i = fd") simp_all
  qed
  then show ?thesis using False assms(2) by (auto simp: file_event_delete_on_def)
qed

lemma run_typed:
  "table_typed p \<Longrightarrow> \<forall>opr\<in>set ops. op_typed opr \<Longrightarrow>
   \<exists>oks p' k'. regs_run add del ops p k = Some (oks, p', k') \<and> length oks = length ops \<and> table_typed p' \<and>
     pl_setsize p' = pl_setsize p"
proof (induction ops arbitrary: p k)
  case (Cons opr ops)
  show ?case
  proof (cases opr)
    case (RCreate fd m proc cd)
    then have "0 \<le> fd" "m \<in> {1, 2, 3}" using Cons.prems(2) by auto
    from create_typed [OF Cons.prems(1) this, of add proc cd k] obtain ok q k1 where
      a: "file_event_create_on add p fd m proc cd k = Some ((ok, q), k1)" "table_typed q" "pl_setsize q = pl_setsize p"
      by blast
    obtain oks p' k' where "regs_run add del ops q k1 = Some (oks, p', k')" "length oks = length ops" "table_typed p'"
      "pl_setsize p' = pl_setsize q"
      using Cons.IH [OF a(2), of k1] Cons.prems(2) by auto
    then show ?thesis using RCreate a by simp
  next
    case (RDelete fd m)
    then have "0 \<le> fd" "m \<in> {1, 2, 3}" using Cons.prems(2) by auto
    from delete_typed [OF Cons.prems(1) this, of del k] obtain q k1 where
      a: "file_event_delete_on del p fd m k = Some (q, k1)" "table_typed q" "pl_setsize q = pl_setsize p"
      by blast
    obtain oks p' k' where "regs_run add del ops q k1 = Some (oks, p', k')" "length oks = length ops" "table_typed p'"
      "pl_setsize p' = pl_setsize q"
      using Cons.IH [OF a(2), of k1] Cons.prems(2) by auto
    then show ?thesis using RDelete a by simp
  qed
qed simp

text \<open>
  The laws: \<open>watch k fd\<close> is the mask that the kernel watches \<open>fd\<close> for. A failing \<open>add\<close> may leave some of
  the events of a mask watched, but it changes nothing when only one event is asked for.
\<close>

abbreviation event_mask :: "int \<Rightarrow> bool" where "event_mask m \<equiv> m \<in> {1, 2, 3}"

locale poll_backend =
  fixes add :: "('p, 'c, 't) poll \<Rightarrow> int \<Rightarrow> int \<Rightarrow> 'k \<Rightarrow> int \<times> 'k"
    and del :: "('p, 'c, 't) poll \<Rightarrow> int \<Rightarrow> int \<Rightarrow> 'k \<Rightarrow> 'k"
    and watch :: "'k \<Rightarrow> int \<Rightarrow> int"
    and inv :: "'k \<Rightarrow> bool"
  assumes add_ok: "inv k \<Longrightarrow> watch k fd = ev_mask p fd \<Longrightarrow> event_mask m \<Longrightarrow> add p fd m k = (r, k') \<Longrightarrow> r \<noteq> -1 \<Longrightarrow>
      inv k' \<and> watch k' = (watch k)(fd := watch k fd OR m)"
    and add_fails: "inv k \<Longrightarrow> watch k fd = ev_mask p fd \<Longrightarrow> m \<in> {1, 2} \<Longrightarrow> add p fd m k = (-1, k') \<Longrightarrow>
      inv k' \<and> watch k' = watch k"
    and del_ok: "inv k \<Longrightarrow> watch k fd \<noteq> 0 \<Longrightarrow> ev_mask p fd = watch k fd AND NOT m \<Longrightarrow> event_mask m \<Longrightarrow>
      inv (del p fd m k) \<and> watch (del p fd m k) = (watch k)(fd := watch k fd AND NOT m)"
begin

definition agree :: "('p, 'c, 't) poll \<Rightarrow> 'k \<Rightarrow> bool" where
  "agree p k \<longleftrightarrow> inv k \<and> (\<forall>fd. 0 \<le> fd \<longrightarrow> fd < pl_setsize p \<longrightarrow> watch k fd = ev_mask p fd)"

lemma agree_upd:
  assumes "agree p k" "inv k'" "watch k' = (watch k)(fd := ev_mask p' fd)" "pl_setsize p' = pl_setsize p"
    and "\<And>i. 0 \<le> i \<Longrightarrow> i \<noteq> fd \<Longrightarrow> ev_mask p' i = ev_mask p i"
  shows "agree p' k'"
  using assms by (simp add: agree_def)

lemma create_agrees:
  assumes wf: "poll_wf p" and ag: "agree p k" and fd: "0 \<le> fd" and m: "event_mask m"
    and c: "file_event_create_on add p fd m proc cd k = Some ((ok, p'), k')" and s: "ok \<or> m \<noteq> 3"
  shows "poll_wf p' \<and> agree p' k' \<and> p' = (if ok then store_event p fd m proc cd else p)"
proof (cases "fd \<ge> pl_setsize p")
  case True
  then have "ok = False \<and> p' = p \<and> k' = k" using c by (auto simp: file_event_create_on_def)
  then show ?thesis using wf ag by simp
next
  case inr: False
  obtain r k1 where a: "add p fd m k = (r, k1)" by fastforce
  have sy: "inv k" "watch k fd = ev_mask p fd" using ag fd inr by (auto simp: agree_def)
  have l: "nat fd < length (pl_events p)" using wf fd inr by (simp add: poll_wf_def)
  note sm = store_event_mask [OF fd l, of _ m proc cd]
  show ?thesis
  proof (cases "r = -1")
    case True
    then have e: "ok = False" "p' = p" "k' = k1" using c a inr fd by (auto simp: file_event_create_on_def)
    then have m2: "m \<in> {1, 2}" using m s by auto
    have "inv k1 \<and> watch k1 = watch k" using add_fails [OF sy m2, of k1] a True by simp
    then show ?thesis using e wf ag by (simp add: agree_def)
  next
    case False
    then have e: "ok = True" "p' = store_event p fd m proc cd" "k' = k1"
      using c a inr fd by (auto simp: file_event_create_on_def)
    note ad = add_ok [OF sy m a False]
    have "agree p' k1"
      by (rule agree_upd [OF ag, of k1 fd]) (use ad sm fd e(2) sy(2) in auto)
    then show ?thesis using e poll_wf_store [OF wf fd, of m] inr m by auto
  qed
qed

lemma delete_agrees:
  assumes wf: "poll_wf p" and ag: "agree p k" and fd: "0 \<le> fd" and m: "event_mask m"
  shows "\<exists>p' k'. file_event_delete_on del p fd m k = Some (p', k') \<and> poll_wf p' \<and> agree p' k' \<and>
     (fd < pl_setsize p \<longrightarrow> ev_mask p' fd = ev_mask p fd AND NOT m)"
proof (cases "fd \<ge> pl_setsize p \<or> ev_mask p fd = 0")
  case True
  then show ?thesis using wf ag fd by (auto simp: file_event_delete_on_def)
next
  case False
  then have l: "nat fd < length (pl_events p)" and fs: "fd < pl_setsize p" "ev_mask p fd \<noteq> 0"
    using wf fd by (auto simp: poll_wf_def)
  note dm = drop_event_mask [OF fd l]
  have sy: "inv k" "watch k fd = ev_mask p fd" using ag fd fs(1) by (auto simp: agree_def)
  let ?p' = "drop_event p fd m" and ?k' = "del (drop_event p fd m) fd m k"
  have d: "inv ?k' \<and> watch ?k' = (watch k)(fd := watch k fd AND NOT m)"
    by (rule del_ok) (use sy fs dm [OF fd] m in auto)
  have "agree ?p' ?k'" by (rule agree_upd [OF ag, of ?k' fd]) (use d dm fd sy(2) in auto)
  then show ?thesis using False fd fs poll_wf_drop [OF wf fd fs(1)] dm [OF fd]
    by (auto simp: file_event_delete_on_def)
qed

lemma run_agrees:
  assumes "poll_wf p" "agree p k" "regs_run add del ops p k = Some (oks, p', k')" "list_all2 op_fine ops oks"
  shows "poll_wf p' \<and> agree p' k'"
  using assms
proof (induction ops arbitrary: p k oks)
  case (Cons opr ops)
  show ?case
  proof (cases opr)
    case (RCreate fd m proc cd)
    from Cons.prems(3) RCreate obtain ok q k1 oks1 where
      a: "file_event_create_on add p fd m proc cd k = Some ((ok, q), k1)" "oks = ok # oks1"
        "regs_run add del ops q k1 = Some (oks1, p', k')"
      by (auto split: option.splits)
    have f: "0 \<le> fd" "event_mask m" "ok \<or> m \<noteq> 3" using Cons.prems(4) RCreate a(2) by auto
    have "poll_wf q \<and> agree q k1" using create_agrees [OF Cons.prems(1,2) f(1,2) a(1) f(3)] by blast
    then show ?thesis using Cons.IH [OF _ _ a(3)] Cons.prems(4) a(2) by auto
  next
    case (RDelete fd m)
    from Cons.prems(3) RDelete obtain q k1 oks1 where
      a: "file_event_delete_on del p fd m k = Some (q, k1)" "oks = True # oks1"
        "regs_run add del ops q k1 = Some (oks1, p', k')"
      by (auto split: option.splits)
    have f: "0 \<le> fd" "event_mask m" using Cons.prems(4) RDelete a(2) by auto
    have "poll_wf q \<and> agree q k1" using delete_agrees [OF Cons.prems(1,2) f] a(1) by auto
    then show ?thesis using Cons.IH [OF _ _ a(3)] Cons.prems(4) a(2) by auto
  qed
qed simp

end

section \<open>epoll meets the contract\<close>

definition ep_watch :: "('k \<Rightarrow> int \<rightharpoonup> int) \<Rightarrow> 'k \<Rightarrow> int \<Rightarrow> int" where
  "ep_watch interest k fd = (case interest k fd of None \<Rightarrow> 0 | Some ev \<Rightarrow> from_epoll ev)"

text \<open>The contract of epoll itself is part of the invariant.\<close>

definition ep_inv :: "'k os \<Rightarrow> ('k \<Rightarrow> int \<rightharpoonup> int) \<Rightarrow> 'k \<Rightarrow> bool" where
  "ep_inv os interest k \<longleftrightarrow> epoll_spec os interest \<and>
     (\<forall>fd ev. interest k fd = Some ev \<longrightarrow> ev \<in> to_epoll ` {1, 2, 3})"

lemma from_to_epoll: "m \<in> {0, 1, 2, 3} \<Longrightarrow> from_epoll (to_epoll m) = m"
  by (auto simp: from_epoll_def to_epoll_def)

lemma mask_ops:
  "m \<in> {0, 1, 2, 3} \<Longrightarrow> event_mask n \<Longrightarrow> event_mask (m OR n)"
  "m \<in> {0, 1, 2, 3} \<Longrightarrow> event_mask n \<Longrightarrow> (m AND NOT n) \<in> {0, 1, 2, 3 :: int}"
  by (auto simp: numeral_eq_iff)

lemma ep_inv_watch:
  assumes "ep_inv os interest k"
  shows "ep_watch interest k fd \<in> {0, 1, 2, 3}" "ep_watch interest k fd = 0 \<longleftrightarrow> interest k fd = None"
proof -
  have "ep_watch interest k fd \<in> {0, 1, 2, 3} \<and> (ep_watch interest k fd = 0 \<longleftrightarrow> interest k fd = None)"
  proof (cases "interest k fd")
    case (Some ev)
    then obtain m where "event_mask m" "ev = to_epoll m" using assms unfolding ep_inv_def by blast
    then show ?thesis using Some from_to_epoll [of m] by (auto simp: ep_watch_def)
  qed (simp add: ep_watch_def)
  then show "ep_watch interest k fd \<in> {0, 1, 2, 3}" "ep_watch interest k fd = 0 \<longleftrightarrow> interest k fd = None" by auto
qed

lemma ep_set:
  assumes "ep_inv os interest k" "interest k' = (interest k)(fd \<mapsto> to_epoll m)" "event_mask m"
  shows "ep_inv os interest k' \<and> ep_watch interest k' = (ep_watch interest k)(fd := m)"
  using assms from_to_epoll [of m] by (auto simp: ep_inv_def ep_watch_def fun_eq_iff)

lemma ep_clear:
  assumes "ep_inv os interest k" "interest k' = (interest k)(fd := None)"
  shows "ep_inv os interest k' \<and> ep_watch interest k' = (ep_watch interest k)(fd := 0)"
  using assms by (auto simp: ep_inv_def ep_watch_def fun_eq_iff)

lemma ep_add:
  assumes iv: "ep_inv os interest k" and w: "ep_watch interest k fd = ev_mask p fd" and m: "event_mask m"
    and a: "aeApiAddEvent os p fd m k = (r, k')"
  shows "if r = -1 then interest k' = interest k
     else ep_inv os interest k' \<and> ep_watch interest k' = (ep_watch interest k)(fd := ep_watch interest k fd OR m)"
proof -
  have ep: "epoll_spec os interest" using iv by (simp add: ep_inv_def)
  have em: "event_mask (m OR ev_mask p fd)"
    using mask_ops(1) [OF ep_inv_watch(1) [OF iv] m, of fd] w by (simp only: or.commute)
  let ?opr = "if ev_mask p fd = ECO_POLL_NONE then EPOLL_CTL_ADD else EPOLL_CTL_MOD"
  obtain r1 k1 where c: "os_epoll_ctl os ?opr fd (to_epoll (m OR ev_mask p fd)) k = (r1, k1)" by fastforce
  have e: "r = (if r1 = -1 then -1 else 0)" "k' = k1"
    using a unfolding aeApiAddEvent_def Let_def c by auto
  have d: "(r1 = -1 \<and> interest k1 = interest k) \<or>
      (r1 = 0 \<and> interest k1 = (interest k)(fd \<mapsto> to_epoll (m OR ev_mask p fd)))"
  proof (cases "ev_mask p fd = 0")
    case True
    then show ?thesis using epoll_add [OF ep] ep_inv_watch(2) [OF iv, of fd] w c by simp
  next
    case False
    then show ?thesis using epoll_mod [OF ep] ep_inv_watch(2) [OF iv, of fd] w c by simp
  qed
  then show ?thesis using ep_set [OF iv _ em, of k1 fd] e w by (auto simp: or.commute)
qed

lemma ep_del:
  assumes iv: "ep_inv os interest k" and w: "ep_watch interest k fd \<noteq> 0"
    and p: "ev_mask p fd = ep_watch interest k fd AND NOT m" and m: "event_mask m"
  shows "ep_inv os interest (aeApiDelEvent os p fd m k) \<and>
     ep_watch interest (aeApiDelEvent os p fd m k) = (ep_watch interest k)(fd := ep_watch interest k fd AND NOT m)"
proof -
  have ep: "epoll_spec os interest" using iv by (simp add: ep_inv_def)
  have reg: "interest k fd \<noteq> None" using ep_inv_watch(2) [OF iv] w by simp
  have again: "ev_mask p fd AND NOT m = ev_mask p fd"
    unfolding p by (simp only: and.assoc and.idem)
  have de: "aeApiDelEvent os p fd m k =
      (if ev_mask p fd \<noteq> 0 then snd (os_epoll_ctl os EPOLL_CTL_MOD fd (to_epoll (ev_mask p fd)) k)
       else snd (os_epoll_ctl os EPOLL_CTL_DEL fd (to_epoll (ev_mask p fd)) k))"
    unfolding aeApiDelEvent_def again Let_def ..
  have r: "ev_mask p fd \<in> {0, 1, 2, 3}" using mask_ops(2) [OF ep_inv_watch(1) [OF iv] m] p by simp
  show ?thesis
  proof (cases "ev_mask p fd = 0")
    case True
    have "interest (snd (os_epoll_ctl os EPOLL_CTL_DEL fd (to_epoll (ev_mask p fd)) k)) = (interest k)(fd := None)"
      using epoll_del [OF ep reg] by (metis prod.collapse)
    from ep_clear [OF iv this] show ?thesis unfolding de p [symmetric] using True by simp
  next
    case False
    have "interest (snd (os_epoll_ctl os EPOLL_CTL_MOD fd (to_epoll (ev_mask p fd)) k)) =
        (interest k)(fd \<mapsto> to_epoll (ev_mask p fd))"
      using epoll_mod [OF ep reg] by (metis prod.collapse)
    from ep_set [OF iv this] show ?thesis unfolding de p [symmetric] using False r by auto
  qed
qed

interpretation ep: poll_backend "aeApiAddEvent os" "aeApiDelEvent os" "ep_watch interest" "ep_inv os interest"
  for os interest
proof unfold_locales
  fix k k' :: 'a and p :: "('b, 'c, 'd) poll" and fd m r
  assume h: "ep_inv os interest k" "ep_watch interest k fd = ev_mask p fd"
  show "event_mask m \<Longrightarrow> aeApiAddEvent os p fd m k = (r, k') \<Longrightarrow> r \<noteq> -1 \<Longrightarrow>
      ep_inv os interest k' \<and> ep_watch interest k' = (ep_watch interest k)(fd := ep_watch interest k fd OR m)"
    using ep_add [OF h] by fastforce
  assume m: "m \<in> {1, 2}" and a: "aeApiAddEvent os p fd m k = (-1, k')"
  have "interest k' = interest k" using ep_add [OF h _ a] m by auto
  then show "ep_inv os interest k' \<and> ep_watch interest k' = ep_watch interest k"
    using h(1) by (simp add: ep_inv_def ep_watch_def fun_eq_iff)
qed (rule ep_del)

section \<open>kqueue meets the contract\<close>

text \<open>
  What kevent(2) documents: adding a filter succeeds or changes nothing, adding it again changes
  nothing, and deleting one removes it (or fails because there is none).
\<close>

definition kqueue_spec :: "'k kq \<Rightarrow> ('k \<Rightarrow> int \<Rightarrow> evfilter \<Rightarrow> bool) \<Rightarrow> bool" where
  "kqueue_spec K reg \<longleftrightarrow>
     (\<forall>fd f k r k'. kq_change K fd f EV_ADD k = (r, k') \<longrightarrow>
        (r = -1 \<and> reg k' = reg k) \<or> (r = 0 \<and> reg k' = (reg k)(fd := (reg k fd)(f := True)))) \<and>
     (\<forall>fd f k r k'. kq_change K fd f EV_DELETE k = (r, k') \<longrightarrow> reg k' = (reg k)(fd := (reg k fd)(f := False)))"

definition kq_watch :: "('k \<Rightarrow> int \<Rightarrow> evfilter \<Rightarrow> bool) \<Rightarrow> 'k \<Rightarrow> int \<Rightarrow> int" where
  "kq_watch reg k fd = (if reg k fd EVFILT_READ then 1 else 0) OR (if reg k fd EVFILT_WRITE then 2 else 0)"

definition kq_inv :: "'k kq \<Rightarrow> ('k \<Rightarrow> int \<Rightarrow> evfilter \<Rightarrow> bool) \<Rightarrow> 'k \<Rightarrow> bool" where
  "kq_inv K reg k \<longleftrightarrow> kqueue_spec K reg"

lemma filter_mask:
  "((if a then 1 else 0) OR (if b then 2 else (0 :: int))) OR kq_mask EVFILT_READ = 1 OR (if b then 2 else 0)"
  "((if a then 1 else 0) OR (if b then 2 else (0 :: int))) OR kq_mask EVFILT_WRITE = (if a then 1 else 0) OR 2"
  "((if a then 1 else 0) OR (if b then 2 else (0 :: int))) AND NOT (kq_mask EVFILT_READ) = (if b then 2 else 0)"
  "((if a then 1 else 0) OR (if b then 2 else (0 :: int))) AND NOT (kq_mask EVFILT_WRITE) = (if a then 1 else 0)"
  by (cases a; cases b; simp add: kq_mask_def)+

lemma kq_watch_upd:
  assumes "reg k' = (reg k)(fd := (reg k fd)(f := v))" "f \<noteq> EVFILT_OTHER"
  shows "kq_watch reg k' = (kq_watch reg k)
     (fd := if v then kq_watch reg k fd OR kq_mask f else kq_watch reg k fd AND NOT (kq_mask f))"
proof
  fix i
  show "kq_watch reg k' i = ((kq_watch reg k)
     (fd := if v then kq_watch reg k fd OR kq_mask f else kq_watch reg k fd AND NOT (kq_mask f))) i"
  proof (cases "i = fd")
    case True
    consider "f = EVFILT_READ" | "f = EVFILT_WRITE" using assms(2) by (cases f) auto
    then show ?thesis unfolding True by cases (cases v; simp add: kq_watch_def assms(1) filter_mask)+
  next
    case False
    then show ?thesis by (simp add: kq_watch_def assms(1))
  qed
qed

lemma kq_add_effect:
  assumes "kqueue_spec K reg" "kq_change K fd f EV_ADD k = (r, k')" "f \<noteq> EVFILT_OTHER"
  shows "(r = -1 \<and> kq_watch reg k' = kq_watch reg k) \<or>
     (r = 0 \<and> kq_watch reg k' = (kq_watch reg k)(fd := kq_watch reg k fd OR kq_mask f))"
proof -
  have "(r = -1 \<and> reg k' = reg k) \<or> (r = 0 \<and> reg k' = (reg k)(fd := (reg k fd)(f := True)))"
    using assms(1,2) unfolding kqueue_spec_def by blast
  then show ?thesis
  proof
    assume "r = -1 \<and> reg k' = reg k"
    then show ?thesis by (simp add: kq_watch_def fun_eq_iff)
  next
    assume "r = 0 \<and> reg k' = (reg k)(fd := (reg k fd)(f := True))"
    then show ?thesis using kq_watch_upd [OF _ assms(3), of reg k' k fd True] by simp
  qed
qed

lemma kq_del_effect:
  assumes "kqueue_spec K reg" "f \<noteq> EVFILT_OTHER"
  shows "kq_watch reg (snd (kq_change K fd f EV_DELETE k)) =
     (kq_watch reg k)(fd := kq_watch reg k fd AND NOT (kq_mask f))"
proof -
  obtain r k' where c: "kq_change K fd f EV_DELETE k = (r, k')" by fastforce
  then have "reg k' = (reg k)(fd := (reg k fd)(f := False))"
    using assms(1) unfolding kqueue_spec_def by blast
  then show ?thesis using kq_watch_upd [OF _ assms(2), of reg k' k fd False] c by simp
qed

lemma event_mask_cases:
  assumes "event_mask m"
  obtains "m = kq_mask EVFILT_READ" | "m = kq_mask EVFILT_WRITE" | "m = kq_mask EVFILT_READ OR kq_mask EVFILT_WRITE"
  using assms by (auto simp: kq_mask_def)

lemma kq_add:
  assumes sp: "kqueue_spec K reg" and m: "event_mask m" and a: "kq_ApiAddEvent K p fd m k = (r, k')"
  shows "if r = -1 then m \<in> {1, 2} \<longrightarrow> kq_watch reg k' = kq_watch reg k
     else kq_watch reg k' = (kq_watch reg k)(fd := kq_watch reg k fd OR m)"
proof -
  obtain r1 k1 where c1: "kq_change K fd EVFILT_READ EV_ADD k = (r1, k1)" by fastforce
  obtain r2 k2 where c2: "kq_change K fd EVFILT_WRITE EV_ADD k = (r2, k2)" by fastforce
  obtain r3 k3 where c3: "kq_change K fd EVFILT_WRITE EV_ADD k1 = (r3, k3)" by fastforce
  note e1 = kq_add_effect [OF sp c1] and e2 = kq_add_effect [OF sp c2] and e3 = kq_add_effect [OF sp c3]
  consider "m = 1" | "m = 2" | "m = 3" using m by auto
  then show ?thesis
  proof cases
    case 1
    then have "r = (if r1 = -1 then -1 else 0)" "k' = k1" using a c1 by (auto simp: kq_ApiAddEvent_def split: if_splits)
    then show ?thesis using e1 1 by (auto simp: kq_mask_def)
  next
    case 2
    then have "r = (if r2 = -1 then -1 else 0)" "k' = k2" using a c2 by (auto simp: kq_ApiAddEvent_def split: if_splits)
    then show ?thesis using e2 2 by (auto simp: kq_mask_def)
  next
    case 3
    show ?thesis
    proof (cases "r1 = -1 \<or> r3 = -1")
      case True
      then have "r = -1" using a c1 c3 3 by (auto simp: kq_ApiAddEvent_def split: if_splits)
      then show ?thesis using 3 by simp
    next
      case False
      then have r: "r = 0" "k' = k3" using a c1 c3 3 by (auto simp: kq_ApiAddEvent_def split: if_splits)
      have "kq_watch reg k3 = (kq_watch reg k)(fd := (kq_watch reg k fd OR 1) OR 2)"
        using e1 e3 False by (auto simp: kq_mask_def)
      moreover have "(kq_watch reg k fd OR 1) OR 2 = kq_watch reg k fd OR 3" by (simp add: or.assoc)
      ultimately show ?thesis using r 3 by simp
    qed
  qed
qed

lemma kq_del:
  assumes sp: "kqueue_spec K reg" and m: "event_mask m"
  shows "kq_watch reg (kq_ApiDelEvent K p fd m k) = (kq_watch reg k)(fd := kq_watch reg k fd AND NOT m)"
proof -
  note e = kq_del_effect [OF sp, of EVFILT_READ fd k, simplified] kq_del_effect [OF sp, of EVFILT_WRITE fd, simplified]
  consider "m = 1" | "m = 2" | "m = 3" using m by auto
  then show ?thesis
  proof cases
    case 3
    have "kq_watch reg (kq_ApiDelEvent K p fd m k) =
        (kq_watch reg k)(fd := (kq_watch reg k fd AND NOT 1) AND NOT 2)"
      unfolding 3 by (simp add: kq_ApiDelEvent_def e kq_mask_def)
    also have "(kq_watch reg k fd AND NOT 1) AND NOT 2 = kq_watch reg k fd AND NOT 3" by (simp add: and.assoc)
    finally show ?thesis unfolding 3 .
  qed (simp_all add: kq_ApiDelEvent_def e kq_mask_def)
qed

interpretation kq: poll_backend "kq_ApiAddEvent K" "kq_ApiDelEvent K" "kq_watch reg" "kq_inv K reg"
  for K reg
proof unfold_locales
  fix k k' :: 'a and p :: "('b, 'c, 'd) poll" and fd m r
  assume h: "kq_inv K reg k"
  then have sp: "kqueue_spec K reg" by (simp add: kq_inv_def)
  show "event_mask m \<Longrightarrow> kq_ApiAddEvent K p fd m k = (r, k') \<Longrightarrow> r \<noteq> -1 \<Longrightarrow>
      kq_inv K reg k' \<and> kq_watch reg k' = (kq_watch reg k)(fd := kq_watch reg k fd OR m)"
    using kq_add [OF sp, of m p fd k r k'] h by (simp add: kq_inv_def)
  show "m \<in> {1, 2} \<Longrightarrow> kq_ApiAddEvent K p fd m k = (-1, k') \<Longrightarrow> kq_inv K reg k' \<and> kq_watch reg k' = kq_watch reg k"
    using kq_add [OF sp, of m p fd k "-1" k'] h by (auto simp: kq_inv_def)
  show "event_mask m \<Longrightarrow> kq_inv K reg (kq_ApiDelEvent K p fd m k) \<and>
      kq_watch reg (kq_ApiDelEvent K p fd m k) = (kq_watch reg k)(fd := kq_watch reg k fd AND NOT m)"
    using kq_del [OF sp, of m p fd k] h by (simp add: kq_inv_def)
qed

section \<open>Details\<close>

text \<open>When the second of two registrations is refused, the first stays.\<close>

lemma kq_add_half:
  assumes "kqueue_spec K reg" "kq_change K fd EVFILT_READ EV_ADD k = (0, k1)"
    and "kq_change K fd EVFILT_WRITE EV_ADD k1 = (-1, k2)"
  shows "kq_ApiAddEvent K p fd 3 k = (-1, k2) \<and> reg k2 fd EVFILT_READ"
proof -
  have "reg k1 = (reg k)(fd := (reg k fd)(EVFILT_READ := True))" "reg k2 = reg k1"
    using assms unfolding kqueue_spec_def by fastforce+
  then show ?thesis by (simp add: kq_ApiAddEvent_def assms(2,3))
qed

text \<open>An update replaces the events that the kernel watches, and adds to the mask of the descriptor.\<close>

lemma update_mask_differs:
  assumes "epoll_spec os interest" "poll_wf p" "0 \<le> fd" "ev_mask p fd = 1" and watched: "interest k fd \<noteq> None"
    and "eco_poll_file_event_update os p fd 2 proc cd k = Some ((True, p'), k')"
  shows "ev_mask p' fd = 3 \<and> interest k' fd = Some (to_epoll 2)"
proof -
  have r: "fd < pl_setsize p" using assms(6) by (auto simp: eco_poll_file_event_update_def split: if_splits)
  then have l: "nat fd < length (pl_events p)" using assms(2,3) by (simp add: poll_wf_def)
  obtain r k1 where c: "os_epoll_ctl os EPOLL_CTL_MOD fd (to_epoll 2) k = (r, k1)" by fastforce
  then have u: "aeApiUpdEvent os p fd 2 k = (if r = -1 then -1 else 0, k1)" using assms(4) by (simp add: aeApiUpdEvent_def)
  then have e: "k1 = k'" "p' = store_event p fd 2 proc cd"
    using assms(3,6) r by (auto simp: eco_poll_file_event_update_def split: if_splits)
  then have "interest k' = (interest k)(fd \<mapsto> to_epoll 2)"
    using epoll_mod [OF assms(1) watched c] e(1) by simp
  then show ?thesis using store_event_mask [OF assms(3) l assms(3), of 2 proc cd] assms(4) e(2) by simp
qed

end
