(* ===== verification/Demo_Parts.thy ===== *)
theory Demo_Parts
  imports Demo Scheduler_Term Machine_Context Fiber_Local Event_Kqueue
begin

text \<open>
  Concrete kernels and a processor for the parts that stand on their own: the two back ends of the event
  loop and the machine contexts; and a scheduler with fibers that do not park.
\<close>

section \<open>Kernels that accept every registration\<close>

definition ep_kernel :: "(int \<rightharpoonup> int) os" where
  "ep_kernel = \<lparr>os_gettimeofday = (\<lambda>k. ((0, 0), k)), os_time = (\<lambda>k. (0, k)),
     os_epoll_ctl = (\<lambda>opr fd ev k. case opr of EPOLL_CTL_DEL \<Rightarrow> (0, k(fd := None)) | _ \<Rightarrow> (0, k(fd \<mapsto> ev))),
     os_epoll_wait = (\<lambda>n tmo k. ((0, []), k))\<rparr>"

lemma ep_kernel_spec: "epoll_spec ep_kernel id"
  by (simp add: epoll_spec_def ep_kernel_def)

definition kq_kernel :: "(int \<Rightarrow> evfilter \<Rightarrow> bool) kq" where
  "kq_kernel = \<lparr>kq_change = (\<lambda>fd f act k. (0, k(fd := (k fd)(f := (act = EV_ADD))))), kq_wait = (\<lambda>n tmo k. ((0, []), k))\<rparr>"

lemma kq_kernel_spec: "kqueue_spec kq_kernel id"
  by (simp add: kqueue_spec_def kq_kernel_def)

definition demo_regs :: "(unit, unit) reg_op list" where
  "demo_regs = [RCreate 1 1 () (CLive ()), RCreate 0 3 () (CLive ()), RDelete 1 1, RCreate 1 2 () (CLive ())]"

definition demo_events :: "(unit, unit, unit) poll" where
  "demo_events = eco_poll_create 2 0"

lemma demo_events_wf: "poll_wf demo_events"
  unfolding demo_events_def by (rule poll_wf_create) simp

lemma demo_events_mask: "0 \<le> fd \<Longrightarrow> fd < 2 \<Longrightarrow> ev_mask demo_events fd = 0"
  by (simp add: demo_events_def eco_poll_create_def)

section \<open>A processor\<close>

definition cpu0 :: cpu where
  "cpu0 = \<lparr>cp_reg = (\<lambda>r. if r = RSP then 77 else 5), cp_mem = (\<lambda>_. 0), cp_pc = 0\<rparr>"

definition thread0 :: thread where
  "thread0 = \<lparr>th_cpu = cpu0, th_errno = Some 11, th_local = Some 4096\<rparr>"

definition context0 :: "unit econtext" where
  "context0 = \<lparr>ec_env = 8192, ec_context = None, ec_stackAddr = 0, ec_errno = None\<rparr>"

lemma cells_disjoint: "set (jmp_cells 8192) \<inter> set (jmp_cells 4096) = {}"
  by (simp add: jmp_cells_eq)

section \<open>Fibers that do not park\<close>

definition demo_busy2 :: "(waiter list, simk, cmd list) sched" where
  "demo_busy2 = the (spawn 2 [CYield, CYield] (the (spawn 1 [CYield] demo0)))"

definition demo_busy :: "(waiter list, simk, cmd list) sched" where
  "demo_busy = the (join_waiter sim_os 8 3 demo_busy2)"

lemma demo_busy_ok: "sched_ok list_cxx (\<lambda>q. q) sk_interest {1, 2} {} {} demo_busy"
proof -
  have h0: "hd_node demo0 default_queue = 0" by code_simp
  have h1: "hd_node (the (spawn 1 [CYield] demo0)) default_queue = 0" and p1: "pk (the (spawn 1 [CYield] demo0)) 1 = 1"
    by code_simp+
  have k: "sc_kernel demo0 = sim0"
    by (simp add: demo0_def EFiberScheduler_ctor_def cq_ctor_def upd_queue_def upd_node_def blank_sched_def)
  have 1: "tasks_ok list_cxx (\<lambda>q. q) {1} {} {} (the (spawn 1 [CYield] demo0)) \<and>
      sc_kernel (the (spawn 1 [CYield] demo0)) = sc_kernel demo0"
    by (rule spawn_ok [OF demo0_ok]) (use h0 in simp_all)
  have 2: "tasks_ok list_cxx (\<lambda>q. q) {2, 1} {} {} demo_busy2 \<and> sc_kernel demo_busy2 = sc_kernel (the (spawn 1 [CYield] demo0))"
    unfolding demo_busy2_def by (rule spawn_ok) (use 1 h1 p1 in simp_all)
  have "tasks_ok list_cxx (\<lambda>q. q) {1, 2} {} {} demo_busy2" "sc_kernel demo_busy2 = sim0"
    using 1 2 k by (simp_all add: insert_commute)
  then show ?thesis unfolding demo_busy_def by (rule join_waiter_ok)
qed

lemma demo_busy_all: "all_busy {1, 2} demo_busy" and demo_busy_runs: "\<not> sc_interrupted demo_busy"
proof -
  have "fb_state (rt_fibers demo_busy 1) = RUNNABLE" "fb_state (rt_fibers demo_busy 2) = RUNNABLE"
    "sc_code demo_busy 1 = [CYield]" "sc_code demo_busy 2 = [CYield, CYield]"
    by code_simp+
  then show "all_busy {1, 2} demo_busy" by (simp add: all_busy_def parked_def)
  show "\<not> sc_interrupted demo_busy" by code_simp
qed

end
