(* ===== verification/Symbol_Hook.thy ===== *)
theory Symbol_Hook
  imports Eco_Prelude
begin

text \<open>
  How the hooks get into a module that is loaded later: \<open>rebind_symbols_image\<close> (src/elf_hook.c) reads the
  section headers and the symbols of the ELF file and overwrites the slots of its relocation table in
  memory. The build is that for x86-64. Files are byte lists, memory is a function from addresses
  to bytes; \<open>dlsym\<close> is an argument. \<open>None\<close> as a result is undefined behaviour: a null pointer that is
  followed or an access outside of an allocated buffer.
\<close>

section \<open>Bytes\<close>

type_synonym bytes = "8 word list"

type_synonym memory = "64 word \<Rightarrow> 8 word"

text \<open>Little-endian numbers, and a field of \<open>n\<close> bytes at offset \<open>off\<close> of a structure.\<close>

fun le_nat :: "bytes \<Rightarrow> nat" where
  "le_nat [] = 0"
| "le_nat (b # bs) = unat b + 256 * le_nat bs"

fun le_bytes :: "nat \<Rightarrow> nat \<Rightarrow> bytes" where
  "le_bytes 0 v = []"
| "le_bytes (Suc n) v = word_of_nat (v mod 256) # le_bytes n (v div 256)"

definition field :: "bytes \<Rightarrow> nat \<Rightarrow> nat \<Rightarrow> 64 word" where
  "field bs off n = word_of_nat (le_nat (take n (drop off bs)))"

definition rd_bytes :: "memory \<Rightarrow> 64 word \<Rightarrow> nat \<Rightarrow> bytes" where
  "rd_bytes m a n = map (\<lambda>i. m (a + word_of_nat i)) [0..<n]"

definition rd64 :: "memory \<Rightarrow> 64 word \<Rightarrow> 64 word" where
  "rd64 m a = field (rd_bytes m a 8) 0 8"

definition wr64 :: "memory \<Rightarrow> 64 word \<Rightarrow> 64 word \<Rightarrow> memory" where
  "wr64 m a v = (\<lambda>x. if unat (x - a) < 8 then le_bytes 8 (unat v) ! unat (x - a) else m x)"

text \<open>
  \<open>strcmp(name, p) == 0\<close> for a name without its final null byte. The bytes at \<open>p\<close> are read up to the first
  difference; \<open>None\<close> is the end of the buffer.
\<close>

fun c_streq :: "bytes \<Rightarrow> bytes \<Rightarrow> bool option" where
  "c_streq cs [] = None"
| "c_streq [] (b # bs) = Some (b = 0)"
| "c_streq (c # cs) (b # bs) = (if c = b then c_streq cs bs else Some False)"

fun c_string :: "bytes \<Rightarrow> bytes option" where
  "c_string [] = None"
| "c_string (b # bs) = (if b = 0 then Some [] else map_option ((#) b) (c_string bs))"

text \<open>\<open>strcmp(p, name) == 0\<close> for a string in memory.\<close>

fun mem_streq :: "memory \<Rightarrow> 64 word \<Rightarrow> bytes \<Rightarrow> bool" where
  "mem_streq m a [] \<longleftrightarrow> m a = 0"
| "mem_streq m a (c # cs) \<longleftrightarrow> m a = c \<and> mem_streq m (a + 1) cs"

section \<open>The structures of ELF64 (elf.h)\<close>

record elf_ehdr =
  e_shoff :: "64 word"
  e_shnum :: nat
  e_shstrndx :: nat

record elf_shdr =
  sh_name :: nat
  sh_type :: "64 word"
  sh_addr :: "64 word"
  sh_offset :: "64 word"
  sh_size :: nat
  sh_link :: nat

record elf_sym =
  st_name :: "64 word"
  st_info :: "8 word"
  st_value :: "64 word"

definition parse_ehdr :: "bytes \<Rightarrow> elf_ehdr" where
  "parse_ehdr bs = \<lparr>e_shoff = field bs 40 8, e_shnum = unat (field bs 60 2), e_shstrndx = unat (field bs 62 2)\<rparr>"

definition parse_shdr :: "bytes \<Rightarrow> elf_shdr" where
  "parse_shdr bs =
     \<lparr>sh_name = unat (field bs 0 4), sh_type = field bs 4 4, sh_addr = field bs 16 8,
      sh_offset = field bs 24 8, sh_size = unat (field bs 32 8), sh_link = unat (field bs 40 4)\<rparr>"

definition parse_sym :: "bytes \<Rightarrow> elf_sym" where
  "parse_sym bs = \<lparr>st_name = field bs 0 4, st_info = ucast (field bs 4 1), st_value = field bs 8 8\<rparr>"

definition elf_array :: "(bytes \<Rightarrow> 'a) \<Rightarrow> nat \<Rightarrow> nat \<Rightarrow> bytes \<Rightarrow> 'a list" where
  "elf_array parse sz n bs = map (\<lambda>i. parse (take sz (drop (sz * i) bs))) [0..<n]"

abbreviation (input) SHT_DYNSYM :: "64 word" where "SHT_DYNSYM \<equiv> 11"
abbreviation (input) STB_GLOBAL :: "8 word" where "STB_GLOBAL \<equiv> 1"
abbreviation (input) STB_WEAK :: "8 word" where "STB_WEAK \<equiv> 2"

section \<open>Reading the file\<close>

text \<open>
  A failure sets \<open>errno\<close> to \<open>EINVAL\<close> and returns it, or returns \<open>EINVAL\<close> and leaves \<open>errno\<close> alone. A read
  that gives fewer bytes than the structure has is accepted: the rest of the buffer keeps what \<open>malloc\<close>
  found there, \<open>junk\<close>.
\<close>

datatype elf_err = SetErrno | NoErrno

definition read_buf :: "(nat \<Rightarrow> 8 word) \<Rightarrow> bytes \<Rightarrow> 64 word \<Rightarrow> nat \<Rightarrow> elf_err + bytes" where
  "read_buf junk file off n =
     (if sint off < 0 then Inl SetErrno
      else (let bs = take n (drop (unat off) file)
            in if bs = [] then Inl SetErrno else Inr (bs @ map junk [length bs..<n])))"

definition read_header :: "(nat \<Rightarrow> 8 word) \<Rightarrow> bytes \<Rightarrow> elf_err + elf_ehdr" where
  "read_header junk file = map_sum id parse_ehdr (read_buf junk file 0 64)"

definition read_section_table :: "(nat \<Rightarrow> 8 word) \<Rightarrow> bytes \<Rightarrow> elf_ehdr \<Rightarrow> elf_err + elf_shdr list" where
  "read_section_table junk file h =
     map_sum id (elf_array parse_shdr 64 (e_shnum h)) (read_buf junk file (e_shoff h) (e_shnum h * 64))"

definition read_string_table :: "(nat \<Rightarrow> 8 word) \<Rightarrow> bytes \<Rightarrow> elf_shdr option \<Rightarrow> elf_err + bytes" where
  "read_string_table junk file sec =
     (case sec of None \<Rightarrow> Inl NoErrno | Some s \<Rightarrow> read_buf junk file (sh_offset s) (sh_size s))"

definition read_symbol_table :: "(nat \<Rightarrow> 8 word) \<Rightarrow> bytes \<Rightarrow> elf_shdr option \<Rightarrow> elf_err + elf_sym list" where
  "read_symbol_table junk file sec =
     (case sec of None \<Rightarrow> Inl NoErrno
      | Some s \<Rightarrow> map_sum id (elf_array parse_sym 24 (sh_size s div 24)) (read_buf junk file (sh_offset s) (sh_size s)))"

text \<open>The relocation table is read in the same way, as bytes; nothing calls this.\<close>

definition read_relocation_table :: "(nat \<Rightarrow> 8 word) \<Rightarrow> bytes \<Rightarrow> elf_shdr option \<Rightarrow> elf_err + bytes" where
  "read_relocation_table junk file sec =
     (case sec of None \<Rightarrow> Inl NoErrno | Some s \<Rightarrow> read_buf junk file (sh_offset s) (sh_size s))"

section \<open>Looking up sections\<close>

text \<open>\<open>Inr None\<close>: the function returns 0 and leaves the null pointer in \<open>*section\<close>.\<close>

definition section_by_index :: "(nat \<Rightarrow> 8 word) \<Rightarrow> bytes \<Rightarrow> nat \<Rightarrow> elf_err + elf_shdr option" where
  "section_by_index junk file i =
     (case read_header junk file of Inl e \<Rightarrow> Inl e
      | Inr h \<Rightarrow>
         (case read_section_table junk file h of Inl e \<Rightarrow> Inl e
          | Inr secs \<Rightarrow> if i < e_shnum h then Inr (Some (secs ! i)) else Inl NoErrno))"

definition section_by_type :: "(nat \<Rightarrow> 8 word) \<Rightarrow> bytes \<Rightarrow> 64 word \<Rightarrow> elf_err + elf_shdr option" where
  "section_by_type junk file ty =
     (case read_header junk file of Inl e \<Rightarrow> Inl e
      | Inr h \<Rightarrow>
         (case read_section_table junk file h of Inl e \<Rightarrow> Inl e
          | Inr secs \<Rightarrow> Inr (find (\<lambda>s. ty = sh_type s) secs)))"

fun find_named :: "bytes \<Rightarrow> bytes \<Rightarrow> elf_shdr list \<Rightarrow> elf_shdr option option" where
  "find_named name strings [] = Some None"
| "find_named name strings (s # ss) =
     (case c_streq name (drop (sh_name s) strings) of
        None \<Rightarrow> None
      | Some eq \<Rightarrow> if eq then Some (Some s) else find_named name strings ss)"

definition section_by_name :: "(nat \<Rightarrow> 8 word) \<Rightarrow> bytes \<Rightarrow> bytes \<Rightarrow> (elf_err + elf_shdr option) option" where
  "section_by_name junk file name =
     (case read_header junk file of Inl e \<Rightarrow> Some (Inl e)
      | Inr h \<Rightarrow>
         (case read_section_table junk file h of Inl e \<Rightarrow> Some (Inl e)
          | Inr secs \<Rightarrow>
             if e_shstrndx h \<ge> length secs then None
             else (case read_string_table junk file (Some (secs ! e_shstrndx h)) of
                     Inl e \<Rightarrow> Some (Inl e)
                   | Inr strings \<Rightarrow> map_option Inr (find_named name strings secs))))"

section \<open>Rebinding\<close>

record rebinding =
  rb_name :: bytes
  rb_replacement :: "64 word"
  rb_replaced :: "64 word option"   \<comment> \<open>where to store the original, or null\<close>

text \<open>The names in the table \<open>__rebinding\<close> of src/EHooker.cpp (Linux).\<close>

definition rebinding_names :: "string list" where
  "rebinding_names =
     [''signal'', ''sleep'', ''usleep'', ''nanosleep'', ''close'', ''fcntl'', ''setsockopt'', ''dup2'', ''poll'',
      ''select'', ''connect'', ''accept'', ''read'', ''readv'', ''recvfrom'', ''recvmsg'', ''write'', ''writev'',
      ''send'', ''sendto'', ''sendmsg'', ''fread'', ''fwrite'', ''pread'', ''pwrite'', ''sendfile'', ''dlopen'',
      ''dup3'', ''gethostbyname'', ''__res_state'', ''__poll'', ''epoll_wait'']"

text \<open>The loop over the symbols keeps the last global or weak one.\<close>

definition found_symbol :: "elf_sym list \<Rightarrow> elf_sym option" where
  "found_symbol syms =
     fold (\<lambda>s found. if drop_bit 4 (st_info s) \<in> {STB_GLOBAL, STB_WEAK} then Some s else found) syms None"

text \<open>
  The load address of the module: \<open>dlsym\<close> of that symbol, less its value; 0 is the null pointer. \<open>None\<close>: the
  name is not inside of the string table.
\<close>

definition module_base :: "(bytes \<Rightarrow> 64 word option) \<Rightarrow> bytes \<Rightarrow> elf_sym list \<Rightarrow> 64 word option" where
  "module_base dlsym strings syms =
     (case found_symbol syms of
        None \<Rightarrow> Some 0
      | Some s \<Rightarrow> map_option (\<lambda>name. case dlsym name of None \<Rightarrow> 0 | Some a \<Rightarrow> a - st_value s)
                   (c_string (drop (unat (st_name s)) strings)))"

text \<open>One rebinding of the slot: the original is saved, if wanted, and the slot overwritten.\<close>

definition rebind_slot :: "rebinding \<Rightarrow> 64 word \<Rightarrow> memory \<Rightarrow> memory" where
  "rebind_slot rb slot m =
     (let m1 = (case rb_replaced rb of None \<Rightarrow> m | Some a \<Rightarrow> wr64 m a (rd64 m slot))
      in wr64 m1 slot (rb_replacement rb))"

fun rebind_first :: "rebinding list \<Rightarrow> 64 word \<Rightarrow> 64 word \<Rightarrow> memory \<Rightarrow> memory" where
  "rebind_first [] name slot m = m"
| "rebind_first (rb # rbs) name slot m =
     (if mem_streq m name (rb_name rb) then rebind_slot rb slot m else rebind_first rbs name slot m)"

text \<open>
  The loop over the relocation table at \<open>tab\<close>. The index of the symbol is cut down to 16 bits, and the
  name is looked up in memory relative to the load address. \<open>n\<close> entries are left, from \<open>i\<close> on.
\<close>

fun rebind_loop :: "64 word \<Rightarrow> 64 word \<Rightarrow> elf_sym list \<Rightarrow> rebinding list \<Rightarrow> nat \<Rightarrow> nat \<Rightarrow> memory \<Rightarrow> memory option" where
  "rebind_loop base tab syms rbs i 0 m = Some m"
| "rebind_loop base tab syms rbs i (Suc n) m =
     (let a = tab + word_of_nat (24 * i);
          r_offset = rd64 m a;
          r_info = rd64 m (a + 8);
          ndx = unat (ucast (drop_bit 32 r_info) :: 16 word)
      in if ndx \<ge> length syms then None
         else rebind_loop base tab syms rbs (Suc i) n
                (rebind_first rbs (base + st_name (syms ! ndx)) (base + r_offset) m))"

definition name_rela_plt :: bytes where
  "name_rela_plt = map (\<lambda>c. word_of_nat (of_char c)) ''.rela.plt''"

definition name_rela_dyn :: bytes where
  "name_rela_dyn = map (\<lambda>c. word_of_nat (of_char c)) ''.rela.dyn''"

text \<open>The part of \<open>rebind_symbols_image\<close> up to the load address: it and the symbols, or the failure.\<close>

definition rebind_prepare :: "(nat \<Rightarrow> 8 word) \<Rightarrow> (bytes \<Rightarrow> 64 word option) \<Rightarrow> bytes \<Rightarrow>
    (elf_err + 64 word \<times> elf_sym list) option" where
  "rebind_prepare junk dlsym file =
     (case section_by_type junk file SHT_DYNSYM of Inl e \<Rightarrow> Some (Inl e)
      | Inr None \<Rightarrow> None
      | Inr (Some dynsym) \<Rightarrow>
         (case section_by_index junk file (sh_link dynsym) of Inl e \<Rightarrow> Some (Inl e)
          | Inr strsec \<Rightarrow>
             (case read_string_table junk file strsec of Inl e \<Rightarrow> Some (Inl e)
              | Inr strings \<Rightarrow>
                 (case read_symbol_table junk file (Some dynsym) of Inl e \<Rightarrow> Some (Inl e)
                  | Inr syms \<Rightarrow> map_option (\<lambda>b. Inr (b, syms)) (module_base dlsym strings syms)))))"

text \<open>
  The result and the memory afterwards. \<open>file\<close> is \<open>None\<close> when a pointer is null or the file cannot be
  opened; \<open>errno0\<close> is the value of \<open>errno\<close> before.
\<close>

abbreviation (input) EINVAL :: int where "EINVAL \<equiv> 22"

definition rebind_symbols_image :: "(nat \<Rightarrow> 8 word) \<Rightarrow> (bytes \<Rightarrow> 64 word option) \<Rightarrow> int \<Rightarrow> bytes option \<Rightarrow>
    rebinding list \<Rightarrow> memory \<Rightarrow> (int \<times> memory) option" where
  "rebind_symbols_image junk dlsym errno0 file rbs m =
     (case file of None \<Rightarrow> Some (-1, m)
      | Some f \<Rightarrow>
         (case rebind_prepare junk dlsym f of
            None \<Rightarrow> None
          | Some (Inl SetErrno) \<Rightarrow> Some (EINVAL, m)
          | Some (Inl NoErrno) \<Rightarrow> Some (errno0, m)
          | Some (Inr (base, syms)) \<Rightarrow>
             if base = 0 then Some (-1, m)
             else (case section_by_name junk f name_rela_plt of
                     None \<Rightarrow> None
                   | Some (Inl _) \<Rightarrow> Some (-1, m)
                   | Some (Inr plt) \<Rightarrow>
                      (case section_by_name junk f name_rela_dyn of
                         None \<Rightarrow> None
                       | Some (Inl _) \<Rightarrow> Some (-1, m)
                       | Some (Inr dyn) \<Rightarrow>
                          (case (plt, dyn) of
                             (Some p, Some _) \<Rightarrow>
                               map_option (Pair 0) (rebind_loop base (base + sh_addr p) syms rbs 0 (sh_size p div 24) m)
                           | _ \<Rightarrow> None)))))"

text \<open>The hook \<open>dlopen\<close>: a handle of 0 is null.\<close>

definition hook_dlopen :: "(nat \<Rightarrow> 8 word) \<Rightarrow> (64 word \<Rightarrow> bytes \<Rightarrow> 64 word option) \<Rightarrow> int \<Rightarrow> bytes option \<Rightarrow> rebinding list \<Rightarrow>
    64 word \<times> memory \<Rightarrow> (64 word \<times> memory) option" where
  "hook_dlopen junk dlsym errno0 file rbs opened =
     (case opened of (handle, m) \<Rightarrow>
        if handle \<noteq> 0 then
          map_option (\<lambda>(_, m'). (handle, m')) (rebind_symbols_image junk (dlsym handle) errno0 file rbs m)
        else Some (handle, m))"

section \<open>Memory\<close>

lemma le_nat_bytes: "le_nat (le_bytes n v) = v mod 256 ^ n"
proof (induction n v rule: le_bytes.induct)
  case (2 n v)
  have "v mod (256 * 256 ^ n) = v mod 256 + 256 * (v div 256 mod 256 ^ n)" by (simp add: mod_mult2_eq)
  then show ?case using 2 by (simp add: unat_of_nat)
qed simp

lemma length_le_bytes [simp]: "length (le_bytes n v) = n"
  by (induction n v rule: le_bytes.induct) simp_all

lemma rd64_eq: "rd64 m a = word_of_nat (le_nat (rd_bytes m a 8))"
  by (simp add: rd64_def field_def rd_bytes_def)

lemma unat_small: "i < 8 \<Longrightarrow> unat (word_of_nat i :: 64 word) = i"
  by (simp add: unat_of_nat)

lemma rd64_wr64: "rd64 (wr64 m a v) a = v"
proof -
  have "rd_bytes (wr64 m a v) a 8 = le_bytes 8 (unat v)"
    by (rule nth_equalityI) (simp_all add: rd_bytes_def wr64_def unat_small del: le_bytes.simps)
  moreover have "unat v < 256 ^ 8" using unsigned_less [of v] by simp
  ultimately show ?thesis by (simp add: rd64_eq le_nat_bytes del: le_bytes.simps)
qed

text \<open>The bytes of the quadword at \<open>a\<close>.\<close>

definition quad :: "64 word \<Rightarrow> 64 word set" where
  "quad a = {x. unat (x - a) < 8}"

lemma quad_member: "i < 8 \<Longrightarrow> a + word_of_nat i \<in> quad a"
  by (simp add: quad_def unat_small)

lemma wr64_frame: "x \<notin> quad a \<Longrightarrow> wr64 m a v x = m x"
  by (simp add: wr64_def quad_def)

lemma rd_bytes_cong: "(\<And>i. i < n \<Longrightarrow> m (a + word_of_nat i) = m' (a + word_of_nat i)) \<Longrightarrow> rd_bytes m a n = rd_bytes m' a n"
  by (simp add: rd_bytes_def)

lemma rd64_cong: "(\<And>x. x \<in> quad a \<Longrightarrow> m x = m' x) \<Longrightarrow> rd64 m a = rd64 m' a"
  unfolding rd64_eq using rd_bytes_cong [of 8 m a m'] quad_member by metis

text \<open>A string comparison reads no further than the name is long.\<close>

lemma mem_streq_cong:
  "(\<And>k. k \<le> length cs \<Longrightarrow> m (a + word_of_nat k) = m' (a + word_of_nat k)) \<Longrightarrow> mem_streq m a cs = mem_streq m' a cs"
proof (induction cs arbitrary: a)
  case Nil
  then show ?case using Nil [of 0] by simp
next
  case (Cons c cs)
  have "m (a + 1 + word_of_nat k) = m' (a + 1 + word_of_nat k)" if "k \<le> length cs" for k
    using Cons.prems [of "Suc k"] that by (simp add: algebra_simps)
  then show ?case using Cons.IH Cons.prems [of 0] by simp
qed

section \<open>The effect of the loop\<close>

definition reloc_slot :: "64 word \<Rightarrow> 64 word \<Rightarrow> memory \<Rightarrow> nat \<Rightarrow> 64 word" where
  "reloc_slot base tab m i = base + rd64 m (tab + word_of_nat (24 * i))"

definition reloc_ndx :: "64 word \<Rightarrow> memory \<Rightarrow> nat \<Rightarrow> nat" where
  "reloc_ndx tab m i = unat (ucast (drop_bit 32 (rd64 m (tab + word_of_nat (24 * i) + 8))) :: 16 word)"

definition reloc_name :: "64 word \<Rightarrow> 64 word \<Rightarrow> elf_sym list \<Rightarrow> memory \<Rightarrow> nat \<Rightarrow> 64 word" where
  "reloc_name base tab syms m i = base + st_name (syms ! reloc_ndx tab m i)"

lemma rebind_loop_Suc:
  "rebind_loop base tab syms rbs i (Suc n) m =
     (if reloc_ndx tab m i \<ge> length syms then None
      else rebind_loop base tab syms rbs (Suc i) n
             (rebind_first rbs (reloc_name base tab syms m i) (reloc_slot base tab m i) m))"
  by (simp add: reloc_slot_def reloc_ndx_def reloc_name_def Let_def)

lemma rebind_first_eq:
  "rebind_first rbs name slot m =
     (case find (\<lambda>rb. mem_streq m name (rb_name rb)) rbs of None \<Rightarrow> m | Some rb \<Rightarrow> rebind_slot rb slot m)"
  by (induction rbs) auto

lemma find_cong_set: "(\<And>x. x \<in> set xs \<Longrightarrow> P x = Q x) \<Longrightarrow> find P xs = find Q xs"
  by (induction xs) auto

text \<open>What the table says: the replacement for the slot of entry \<open>i\<close>, if any.\<close>

definition reloc_rebinding :: "64 word \<Rightarrow> 64 word \<Rightarrow> elf_sym list \<Rightarrow> rebinding list \<Rightarrow> memory \<Rightarrow> nat \<Rightarrow> rebinding option" where
  "reloc_rebinding base tab syms rbs m i = find (\<lambda>rb. mem_streq m (reloc_name base tab syms m i) (rb_name rb)) rbs"

lemma rebind_first_reloc:
  "rebind_first rbs (reloc_name base tab syms m i) slot m =
     (case reloc_rebinding base tab syms rbs m i of None \<Rightarrow> m | Some rb \<Rightarrow> rebind_slot rb slot m)"
  by (simp add: rebind_first_eq reloc_rebinding_def)

definition slots :: "64 word \<Rightarrow> 64 word \<Rightarrow> memory \<Rightarrow> nat \<Rightarrow> 64 word set" where
  "slots base tab m n = (\<Union>i<n. quad (reloc_slot base tab m i))"

text \<open>
  The slots lie apart from each other, from the relocation table and from the names, and the symbol
  indices are valid.
\<close>

definition reloc_ok :: "64 word \<Rightarrow> 64 word \<Rightarrow> elf_sym list \<Rightarrow> rebinding list \<Rightarrow> memory \<Rightarrow> nat \<Rightarrow> bool" where
  "reloc_ok base tab syms rbs m n \<longleftrightarrow>
     (\<forall>i<n. reloc_ndx tab m i < length syms \<and>
        quad (tab + word_of_nat (24 * i)) \<inter> slots base tab m n = {} \<and>
        quad (tab + word_of_nat (24 * i) + 8) \<inter> slots base tab m n = {} \<and>
        (\<forall>rb\<in>set rbs. \<forall>k\<le>length (rb_name rb). reloc_name base tab syms m i + word_of_nat k \<notin> slots base tab m n) \<and>
        (\<forall>j<n. j \<noteq> i \<longrightarrow> quad (reloc_slot base tab m i) \<inter> quad (reloc_slot base tab m j) = {}))"

lemma reloc_stable:
  assumes ok: "reloc_ok base tab syms rbs m n" and i: "i < n" and eq: "\<forall>x. x \<notin> slots base tab m n \<longrightarrow> m1 x = m x"
  shows "reloc_slot base tab m1 i = reloc_slot base tab m i" "reloc_ndx tab m1 i = reloc_ndx tab m i"
    "reloc_name base tab syms m1 i = reloc_name base tab syms m i"
    "reloc_rebinding base tab syms rbs m1 i = reloc_rebinding base tab syms rbs m i"
proof -
  have "rd64 m1 (tab + word_of_nat (24 * i)) = rd64 m (tab + word_of_nat (24 * i))"
    by (rule rd64_cong) (use ok i eq in \<open>unfold reloc_ok_def, blast\<close>)
  then show "reloc_slot base tab m1 i = reloc_slot base tab m i" by (simp add: reloc_slot_def)
  have "rd64 m1 (tab + word_of_nat (24 * i) + 8) = rd64 m (tab + word_of_nat (24 * i) + 8)"
    by (rule rd64_cong) (use ok i eq in \<open>unfold reloc_ok_def, blast\<close>)
  then show nd: "reloc_ndx tab m1 i = reloc_ndx tab m i" by (simp add: reloc_ndx_def)
  then show nm: "reloc_name base tab syms m1 i = reloc_name base tab syms m i" by (simp add: reloc_name_def)
  show "reloc_rebinding base tab syms rbs m1 i = reloc_rebinding base tab syms rbs m i"
    unfolding reloc_rebinding_def nm
  proof (rule find_cong_set, rule mem_streq_cong)
    fix rb k assume "rb \<in> set rbs" "k \<le> length (rb_name rb)"
    then have "reloc_name base tab syms m i + word_of_nat k \<notin> slots base tab m n"
      using ok i unfolding reloc_ok_def by blast
    then show "m1 (reloc_name base tab syms m i + word_of_nat k) = m (reloc_name base tab syms m i + word_of_nat k)"
      using eq by blast
  qed
qed

lemma rebind_loop_effect:
  assumes ok: "reloc_ok base tab syms rbs m N" and nr: "\<forall>rb\<in>set rbs. rb_replaced rb = None"
  shows "i + n = N \<Longrightarrow> \<forall>x. x \<notin> (\<Union>j<i. quad (reloc_slot base tab m j)) \<longrightarrow> mi x = m x \<Longrightarrow>
     \<exists>m'. rebind_loop base tab syms rbs i n mi = Some m' \<and>
       (\<forall>x. x \<notin> (\<Union>j\<in>{i..<N}. quad (reloc_slot base tab m j)) \<longrightarrow> m' x = mi x) \<and>
       (\<forall>j\<in>{i..<N}. rd64 m' (reloc_slot base tab m j) =
          (case reloc_rebinding base tab syms rbs m j of None \<Rightarrow> rd64 m (reloc_slot base tab m j) | Some rb \<Rightarrow> rb_replacement rb))"
proof (induction n arbitrary: i mi)
  case (Suc n)
  let ?q = "\<lambda>j. quad (reloc_slot base tab m j)"
  have i: "i < N" using Suc.prems(1) by simp
  have eq: "\<forall>x. x \<notin> slots base tab m N \<longrightarrow> mi x = m x"
  proof (intro allI impI)
    fix x assume "x \<notin> slots base tab m N"
    then have "x \<notin> (\<Union>j<i. ?q j)" using i unfolding slots_def by auto
    then show "mi x = m x" using Suc.prems(2) by blast
  qed
  note st = reloc_stable [OF ok i eq]
  have disj: "?q i \<inter> ?q j = {}" if "j < N" "j \<noteq> i" for j using ok i that unfolding reloc_ok_def by blast
  let ?rb = "reloc_rebinding base tab syms rbs m i"
  let ?m1 = "case ?rb of None \<Rightarrow> mi | Some rb \<Rightarrow> wr64 mi (reloc_slot base tab m i) (rb_replacement rb)"
  have nr': "rb_replaced rb = None" if "?rb = Some rb" for rb
    using that nr unfolding reloc_rebinding_def find_Some_iff by auto
  have f: "rebind_first rbs (reloc_name base tab syms mi i) (reloc_slot base tab mi i) mi = ?m1"
    using nr' unfolding rebind_first_reloc unfolding st by (auto simp: rebind_slot_def split: option.splits)
  have lp: "rebind_loop base tab syms rbs i (Suc n) mi = rebind_loop base tab syms rbs (Suc i) n ?m1"
    unfolding rebind_loop_Suc f using ok i st(2) by (auto simp: reloc_ok_def)
  have m1: "?m1 x = mi x" if "x \<notin> ?q i" for x using that by (simp add: wr64_frame split: option.splits)
  have "\<forall>x. x \<notin> (\<Union>j<Suc i. ?q j) \<longrightarrow> ?m1 x = m x" using m1 Suc.prems(2) by (simp add: lessThan_Suc)
  then obtain m' where m': "rebind_loop base tab syms rbs (Suc i) n ?m1 = Some m'"
    "\<forall>x. x \<notin> (\<Union>j\<in>{Suc i..<N}. ?q j) \<longrightarrow> m' x = ?m1 x"
    "\<forall>j\<in>{Suc i..<N}. rd64 m' (reloc_slot base tab m j) =
          (case reloc_rebinding base tab syms rbs m j of None \<Rightarrow> rd64 m (reloc_slot base tab m j) | Some rb \<Rightarrow> rb_replacement rb)"
    using Suc.IH [of "Suc i" ?m1] Suc.prems(1) by auto
  have "rd64 m' (reloc_slot base tab m i) = rd64 ?m1 (reloc_slot base tab m i)"
    by (rule rd64_cong) (use m'(2) disj in fastforce)
  moreover have "rd64 mi (reloc_slot base tab m i) = rd64 m (reloc_slot base tab m i)"
  proof (rule rd64_cong)
    fix x assume x: "x \<in> ?q i"
    have "x \<notin> ?q j" if "j < i" for j using disj [of j] that i x by auto
    then show "mi x = m x" using Suc.prems(2) by blast
  qed
  ultimately have "rd64 m' (reloc_slot base tab m i) =
      (case ?rb of None \<Rightarrow> rd64 m (reloc_slot base tab m i) | Some rb \<Rightarrow> rb_replacement rb)"
    by (simp add: rd64_wr64 split: option.splits)
  moreover have r: "{i..<N} = insert i {Suc i..<N}" using i by auto
  moreover have "\<forall>x. x \<notin> (\<Union>j\<in>{i..<N}. ?q j) \<longrightarrow> m' x = mi x"
    unfolding r using m'(2) m1 by simp
  ultimately show ?case unfolding lp using m'(1,3) by simp
qed simp

section \<open>Details\<close>

text \<open>The index of the symbol is cut down to 16 bits.\<close>

lemma reloc_ndx_truncates:
  "reloc_ndx tab m i = unat (drop_bit 32 (rd64 m (tab + word_of_nat (24 * i) + 8))) mod 2 ^ 16"
  by (simp add: reloc_ndx_def unsigned_ucast_eq take_bit_eq_mod)

text \<open>The last global or weak symbol is the one that is looked up.\<close>

lemma found_symbol_last:
  assumes "drop_bit 4 (st_info s) \<in> {STB_GLOBAL, STB_WEAK}" "\<forall>y\<in>set ys. drop_bit 4 (st_info y) \<notin> {STB_GLOBAL, STB_WEAK}"
  shows "found_symbol (xs @ s # ys) = Some s"
proof -
  have "fold (\<lambda>s found. if drop_bit 4 (st_info s) \<in> {STB_GLOBAL, STB_WEAK} then Some s else found) ys r = r" for r
    using assms(2) by (induction ys) simp_all
  then show ?thesis unfolding found_symbol_def using assms(1) by simp
qed

text \<open>A table of symbols with an invalid link gives whatever \<open>errno\<close> was before.\<close>

lemma rebind_stale_errno:
  assumes "read_header junk f = Inr h" "read_section_table junk f h = Inr secs"
    and "find (\<lambda>s. SHT_DYNSYM = sh_type s) secs = Some s" "e_shnum h \<le> sh_link s"
  shows "rebind_symbols_image junk dlsym err (Some f) rbs m = Some (err, m)"
  using assms by (simp add: rebind_symbols_image_def rebind_prepare_def section_by_type_def section_by_index_def)

end
