(* ===== verification/Demo_Elf.thy ===== *)
theory Demo_Elf
  imports Symbol_Hook
begin

text \<open>
  A small ELF file with one global symbol, \<open>read\<close>, and one entry in its relocation table, and the memory
  of the process it is loaded into.
\<close>

section \<open>Reading a file that is laid out piece by piece\<close>

lemma read_buf_inside:
  "0 \<le> sint off \<Longrightarrow> 0 < n \<Longrightarrow> unat off + n \<le> length file \<Longrightarrow> read_buf junk file off n = Inr (take n (drop (unat off) file))"
  by (auto simp: read_buf_def Let_def)

lemma elf_array_0 [simp]: "elf_array parse sz 0 bs = []"
  by (simp add: elf_array_def)

lemma elf_array_Suc:
  "length s = sz \<Longrightarrow> elf_array parse sz (Suc n) (s @ rest) = parse s # elf_array parse sz n rest"
proof -
  assume s: "length s = sz"
  have "map (\<lambda>i. parse (take sz (drop (sz * i) (s @ rest)))) [0..<Suc n] =
      parse s # map (\<lambda>i. parse (take sz (drop (sz * Suc i) (s @ rest)))) [0..<n]"
    unfolding upt_conv_Cons [OF zero_less_Suc] map_Suc_upt [symmetric] by (simp add: s comp_def)
  also have "\<dots> = parse s # map (\<lambda>i. parse (take sz (drop (sz * i) rest))) [0..<n]"
    using s by simp
  finally show ?thesis by (simp add: elf_array_def)
qed

definition elf_section :: "nat \<Rightarrow> nat \<Rightarrow> nat \<Rightarrow> nat \<Rightarrow> nat \<Rightarrow> nat \<Rightarrow> bytes" where
  "elf_section name ty addr off sz lnk =
     le_bytes 4 name @ le_bytes 4 ty @ replicate 8 0 @ le_bytes 8 addr @ le_bytes 8 off @ le_bytes 8 sz @
     le_bytes 4 lnk @ replicate 20 0"

definition elf_header :: "nat \<Rightarrow> nat \<Rightarrow> nat \<Rightarrow> bytes" where
  "elf_header shoff shnum shstrndx =
     replicate 40 0 @ le_bytes 8 shoff @ replicate 12 0 @ le_bytes 2 shnum @ le_bytes 2 shstrndx"

definition elf_symbol :: "nat \<Rightarrow> nat \<Rightarrow> nat \<Rightarrow> bytes" where
  "elf_symbol name info val = le_bytes 4 name @ le_bytes 1 info @ replicate 3 0 @ le_bytes 8 val @ replicate 8 0"

lemma length_elf [simp]:
  "length (elf_section name ty addr off sz lnk) = 64" "length (elf_header shoff shnum shstrndx) = 64"
  "length (elf_symbol name info val) = 24"
  by (simp_all add: elf_section_def elf_header_def elf_symbol_def del: le_bytes.simps)

lemma parse_elf_header:
  "shnum < 256 ^ 2 \<Longrightarrow> shstrndx < 256 ^ 2 \<Longrightarrow>
   parse_ehdr (elf_header shoff shnum shstrndx) =
     \<lparr>e_shoff = word_of_nat (shoff mod 256 ^ 8), e_shnum = shnum, e_shstrndx = shstrndx\<rparr>"
  by (simp add: parse_ehdr_def elf_header_def field_def le_nat_bytes unat_of_nat del: le_bytes.simps)

lemma parse_elf_section:
  "name < 256 ^ 4 \<Longrightarrow> ty < 256 ^ 4 \<Longrightarrow> addr < 256 ^ 8 \<Longrightarrow> off < 256 ^ 8 \<Longrightarrow> sz < 256 ^ 8 \<Longrightarrow> lnk < 256 ^ 4 \<Longrightarrow>
   parse_shdr (elf_section name ty addr off sz lnk) =
     \<lparr>sh_name = name, sh_type = word_of_nat ty, sh_addr = word_of_nat addr, sh_offset = word_of_nat off,
      sh_size = sz, sh_link = lnk\<rparr>"
  by (simp add: parse_shdr_def elf_section_def field_def le_nat_bytes unat_of_nat del: le_bytes.simps)

lemma ucast_word_of_nat: "i < 256 \<Longrightarrow> (ucast (word_of_nat i :: 64 word) :: 8 word) = word_of_nat i"
  by (rule unsigned_word_eqI) (simp add: unsigned_ucast_eq unsigned_of_nat take_bit_eq_mod)

lemma parse_elf_symbol:
  "name < 256 ^ 4 \<Longrightarrow> info < 256 \<Longrightarrow> val < 256 ^ 8 \<Longrightarrow>
   parse_sym (elf_symbol name info val) =
     \<lparr>st_name = word_of_nat name, st_info = word_of_nat info, st_value = word_of_nat val\<rparr>"
  by (simp add: parse_sym_def elf_symbol_def field_def le_nat_bytes unat_of_nat ucast_word_of_nat del: le_bytes.simps)

section \<open>The file\<close>

definition name_read :: bytes where "name_read = [114, 101, 97, 100]"
definition name_write :: bytes where "name_write = [119, 114, 105, 116, 101]"

lemma names: "name_rela_plt = [46, 114, 101, 108, 97, 46, 112, 108, 116]"
  "name_rela_dyn = [46, 114, 101, 108, 97, 46, 100, 121, 110]"
  by (simp_all add: name_rela_plt_def name_rela_dyn_def of_char_def)

definition demo_strings :: bytes where
  "demo_strings = [0, 0] @ name_read @ [0] @ name_rela_plt @ [0] @ name_rela_dyn @ [0]"

lemma length_demo_strings [simp]: "length demo_strings = 27"
  by (simp add: demo_strings_def names name_read_def)

text \<open>\<open>i\<close> is the index of the section with the names of the sections; it is 2 in \<open>demo_elf\<close>.\<close>

definition demo_file :: "nat \<Rightarrow> bytes" where
  "demo_file i = elf_header 64 4 i @
     (elf_section 0 11 0 347 24 2 @ elf_section 7 4 256 0 24 0 @
      elf_section 0 3 0 320 27 0 @ elf_section 17 4 512 0 0 0) @
     demo_strings @ elf_symbol 2 18 64"

abbreviation "demo_elf \<equiv> demo_file 2"

definition demo_sections :: "elf_shdr list" where
  "demo_sections =
     [\<lparr>sh_name = 0, sh_type = 11, sh_addr = 0, sh_offset = 347, sh_size = 24, sh_link = 2\<rparr>,
      \<lparr>sh_name = 7, sh_type = 4, sh_addr = 256, sh_offset = 0, sh_size = 24, sh_link = 0\<rparr>,
      \<lparr>sh_name = 0, sh_type = 3, sh_addr = 0, sh_offset = 320, sh_size = 27, sh_link = 0\<rparr>,
      \<lparr>sh_name = 17, sh_type = 4, sh_addr = 512, sh_offset = 0, sh_size = 0, sh_link = 0\<rparr>]"

lemma demo_header: "i < 4 \<Longrightarrow> read_header junk (demo_file i) = Inr \<lparr>e_shoff = 64, e_shnum = 4, e_shstrndx = i\<rparr>"
  by (simp add: read_header_def read_buf_inside demo_file_def parse_elf_header)

lemma demo_section_table:
  "read_section_table junk (demo_file i) \<lparr>e_shoff = 64, e_shnum = 4, e_shstrndx = j\<rparr> = Inr demo_sections"
proof -
  have four: "(4 :: nat) = Suc (Suc (Suc (Suc 0)))" by simp
  have b: "read_buf junk (demo_file i) 64 256 =
      Inr (elf_section 0 11 0 347 24 2 @ elf_section 7 4 256 0 24 0 @ elf_section 0 3 0 320 27 0 @ elf_section 17 4 512 0 0 0 @ [])"
    by (simp add: read_buf_inside demo_file_def)
  have a: "elf_array parse_shdr 64 4
      (elf_section 0 11 0 347 24 2 @ elf_section 7 4 256 0 24 0 @ elf_section 0 3 0 320 27 0 @ elf_section 17 4 512 0 0 0 @ []) =
      demo_sections"
    unfolding four unfolding elf_array_Suc [OF length_elf(1)] elf_array_0 demo_sections_def
    by (simp add: parse_elf_section)
  show ?thesis using a b by (simp add: read_section_table_def)
qed

lemma demo_strings_read: "read_buf junk (demo_file i) 320 27 = Inr demo_strings"
  by (simp add: read_buf_inside demo_file_def)

lemma demo_symbols: "read_symbol_table junk (demo_file i) (Some (demo_sections ! 0)) = Inr [\<lparr>st_name = 2, st_info = 18, st_value = 64\<rparr>]"
proof -
  have b: "read_buf junk (demo_file i) 347 24 = Inr (elf_symbol 2 18 64 @ [])"
    by (simp add: read_buf_inside demo_file_def)
  have "elf_array parse_sym 24 (Suc 0) (elf_symbol 2 18 64 @ []) = [\<lparr>st_name = 2, st_info = 18, st_value = 64\<rparr>]"
    unfolding elf_array_Suc [OF length_elf(3)] elf_array_0 by (simp add: parse_elf_symbol)
  then show ?thesis using b by (simp add: read_symbol_table_def demo_sections_def)
qed

lemma demo_section_lookup:
  assumes "i < 4"
  shows "section_by_type junk (demo_file i) SHT_DYNSYM = Inr (Some (demo_sections ! 0))"
    and "section_by_index junk (demo_file i) 2 = Inr (Some (demo_sections ! 2))"
  using assms
  by (simp_all add: section_by_type_def section_by_index_def demo_header demo_section_table)
     (simp_all add: demo_sections_def)

lemma demo_section_names:
  "section_by_name junk demo_elf name_rela_plt = Some (Inr (Some (demo_sections ! 1)))"
  "section_by_name junk demo_elf name_rela_dyn = Some (Inr (Some (demo_sections ! 3)))"
proof -
  have s: "read_string_table junk demo_elf (Some (demo_sections ! 2)) = Inr demo_strings"
    by (simp add: read_string_table_def demo_sections_def demo_strings_read)
  have l: "length demo_sections = 4" by (simp add: demo_sections_def)
  have n: "section_by_name junk demo_elf name = map_option Inr (find_named name demo_strings demo_sections)" for name
    by (simp add: section_by_name_def demo_header demo_section_table s l)
  show "section_by_name junk demo_elf name_rela_plt = Some (Inr (Some (demo_sections ! 1)))"
    by (simp add: n) (simp add: demo_sections_def demo_strings_def names name_read_def)
  show "section_by_name junk demo_elf name_rela_dyn = Some (Inr (Some (demo_sections ! 3)))"
    by (simp add: n) (simp add: demo_sections_def demo_strings_def names name_read_def)
qed

text \<open>A file whose names of sections cannot be read: the section for them is empty.\<close>

lemma torn_section_names: "section_by_name junk (demo_file 3) name = Some (Inl SetErrno)"
proof -
  have l: "length demo_sections = 4" by (simp add: demo_sections_def)
  have "read_string_table junk (demo_file 3) (Some (demo_sections ! 3)) = Inl SetErrno"
    by (simp add: read_string_table_def demo_sections_def read_buf_def)
  then show ?thesis by (simp add: section_by_name_def demo_header demo_section_table l)
qed

section \<open>The process\<close>

definition demo_dlsym :: "bytes \<Rightarrow> 64 word option" where
  "demo_dlsym name = (if name = name_read then Some 65600 else None)"

definition demo_syms :: "elf_sym list" where
  "demo_syms = [\<lparr>st_name = 2, st_info = 18, st_value = 64\<rparr>]"

lemma demo_prepare_base:
  assumes "i < 4"
  shows "rebind_prepare junk dlsym (demo_file i) =
     Some (Inr (case dlsym name_read of None \<Rightarrow> 0 | Some a \<Rightarrow> a - 64, demo_syms))"
proof -
  have s: "read_string_table junk (demo_file i) (Some (demo_sections ! 2)) = Inr demo_strings"
    by (simp add: read_string_table_def demo_sections_def demo_strings_read)
  have l: "sh_link (demo_sections ! 0) = 2" by (simp add: demo_sections_def)
  have "module_base dlsym demo_strings demo_syms = Some (case dlsym name_read of None \<Rightarrow> 0 | Some a \<Rightarrow> a - 64)"
    by (simp add: module_base_def found_symbol_def demo_syms_def demo_strings_def name_read_def split: option.split)
  then show ?thesis
    unfolding rebind_prepare_def demo_section_lookup(1) [OF assms] sum.case option.case l demo_section_lookup(2) [OF assms] s demo_symbols
    by (simp add: demo_syms_def)
qed

lemma demo_prepare: "rebind_prepare junk demo_dlsym demo_elf = Some (Inr (65536, demo_syms))"
  by (simp add: demo_prepare_base demo_dlsym_def)

definition demo_memory :: memory where
  "demo_memory = (\<lambda>a. if 65538 \<le> a \<and> a < 65542 then name_read ! unat (a - 65538) else if a = 65793 then 2 else 0)"

definition demo_rebindings :: "rebinding list" where
  "demo_rebindings =
     [\<lparr>rb_name = name_write, rb_replacement = 111, rb_replaced = None\<rparr>,
      \<lparr>rb_name = name_read, rb_replacement = 222, rb_replaced = None\<rparr>]"

lemma quad_disjoint:
  assumes "8 \<le> unat (b - a)" "8 \<le> unat (a - b)"
  shows "quad a \<inter> quad b = {}"
proof (rule ccontr)
  assume "quad a \<inter> quad b \<noteq> {}"
  then obtain x where x: "unat (x - a) < 8" "unat (x - b) < 8" by (auto simp: quad_def)
  show False
  proof (cases "x - b \<le> x - a")
    case True
    have "b - a = (x - a) - (x - b)" by simp
    then have "unat (b - a) = unat (x - a) - unat (x - b)" using unat_sub [OF True] by metis
    then show False using assms(1) x by linarith
  next
    case False
    then have le: "x - a \<le> x - b" by simp
    have "a - b = (x - b) - (x - a)" by simp
    then have "unat (a - b) = unat (x - b) - unat (x - a)" using unat_sub [OF le] by metis
    then show False using assms(2) x by linarith
  qed
qed

lemma rd64_bytes:
  "rd64 m a = word_of_nat (le_nat [m a, m (a + 1), m (a + 2), m (a + 3), m (a + 4), m (a + 5), m (a + 6), m (a + 7)])"
  unfolding rd64_eq rd_bytes_def by (simp add: upt_rec)

lemma demo_reads: "rd64 demo_memory 65792 = 512" "rd64 demo_memory 65800 = 0"
  by (simp_all add: rd64_bytes demo_memory_def)

lemma demo_table: "65536 + sh_addr (demo_sections ! 1) = 65792" "sh_size (demo_sections ! 1) div 24 = 1"
  by (simp_all add: demo_sections_def)

lemma demo_slot: "reloc_slot 65536 65792 demo_memory 0 = 66048"
  by (simp add: reloc_slot_def demo_reads)

lemma demo_name: "reloc_name 65536 65792 demo_syms demo_memory 0 = 65538"
  by (simp add: reloc_name_def reloc_ndx_def demo_reads demo_syms_def)

lemma demo_found:
  "find (\<lambda>rb. mem_streq demo_memory (reloc_name 65536 65792 demo_syms demo_memory 0) (rb_name rb)) demo_rebindings =
     Some (demo_rebindings ! 1)" "rb_replacement (demo_rebindings ! 1) = 222"
  unfolding demo_name by (simp_all add: demo_rebindings_def demo_memory_def name_read_def name_write_def)

lemma demo_no_originals: "\<forall>rb\<in>set demo_rebindings. rb_replaced rb = None"
  by (simp add: demo_rebindings_def)

lemma demo_reloc_ok:
  "reloc_ok 65536 (65536 + sh_addr (demo_sections ! 1)) demo_syms demo_rebindings demo_memory (sh_size (demo_sections ! 1) div 24)"
proof -
  have s: "slots 65536 65792 demo_memory 1 = quad 66048" by (simp add: slots_def lessThan_Suc demo_slot)
  have n: "65538 + word_of_nat k \<notin> quad 66048" if "k \<le> 5" for k
  proof -
    have "k \<in> {0, 1, 2, 3, 4, 5}" using that by auto
    then show ?thesis by (auto simp: quad_def)
  qed
  have d: "quad 65792 \<inter> quad 66048 = {}" "quad 65800 \<inter> quad 66048 = {}"
    by (rule quad_disjoint; simp)+
  have x: "reloc_ndx 65792 demo_memory 0 < length demo_syms" by (simp add: reloc_ndx_def demo_reads demo_syms_def)
  have "\<forall>rb\<in>set demo_rebindings. length (rb_name rb) \<le> 5" by (simp add: demo_rebindings_def name_read_def name_write_def)
  then show ?thesis unfolding demo_table reloc_ok_def s using n d x by (auto simp: demo_name intro: order_trans)
qed

text \<open>A file without a table of dynamic symbols.\<close>

definition bare_elf :: bytes where
  "bare_elf = elf_header 64 2 0 @ elf_section 0 3 0 0 2 0 @ elf_section 0 4 256 0 0 0"

definition bare_sections :: "elf_shdr list" where
  "bare_sections =
     [\<lparr>sh_name = 0, sh_type = 3, sh_addr = 0, sh_offset = 0, sh_size = 2, sh_link = 0\<rparr>,
      \<lparr>sh_name = 0, sh_type = 4, sh_addr = 256, sh_offset = 0, sh_size = 0, sh_link = 0\<rparr>]"

lemma bare_tables:
  "read_header junk bare_elf = Inr \<lparr>e_shoff = 64, e_shnum = 2, e_shstrndx = 0\<rparr>"
  "read_section_table junk bare_elf \<lparr>e_shoff = 64, e_shnum = 2, e_shstrndx = 0\<rparr> = Inr bare_sections"
  "\<forall>s\<in>set bare_sections. sh_type s \<noteq> 11"
proof -
  have two: "(2 :: nat) = Suc (Suc 0)" by simp
  show "read_header junk bare_elf = Inr \<lparr>e_shoff = 64, e_shnum = 2, e_shstrndx = 0\<rparr>"
    by (simp add: read_header_def read_buf_inside bare_elf_def parse_elf_header)
  have "elf_array parse_shdr 64 2 (elf_section 0 3 0 0 2 0 @ elf_section 0 4 256 0 0 0 @ []) = bare_sections"
    unfolding bare_sections_def unfolding two elf_array_Suc [OF length_elf(1)] elf_array_0
    unfolding two [symmetric] by (simp add: parse_elf_section)
  then show "read_section_table junk bare_elf \<lparr>e_shoff = 64, e_shnum = 2, e_shstrndx = 0\<rparr> = Inr bare_sections"
    by (simp add: read_section_table_def read_buf_inside bare_elf_def)
  show "\<forall>s\<in>set bare_sections. sh_type s \<noteq> 11" by (simp add: bare_sections_def)
qed

end
