(* ===== verification/Threads.thy ===== *)
theory Threads
  imports Scheduler_Inv
begin

text \<open>
  The threads of \<open>join(int)\<close> (src/EFiberScheduler.cpp) side by side. The loop \<open>joinWithThreadBind\<close> and the
  library calls that other threads make, \<open>schedule\<close> and \<open>wakeUp\<close> with the \<open>EFiber::swapIn\<close> it ends in,
  are cut at their accesses to shared memory: the locked sections, the queue operations, \<open>state\<close>,
  \<open>hungIoWaiter\<close> and the pipes. A thread has a program counter, a step moves one thread, and steps of
  different threads follow each other in any order.
\<close>

section \<open>Program counters\<close>

text \<open>Where a thread is in \<open>joinWithThreadBind\<close>; \<open>Outside\<close> is a thread that does not run the loop.\<close>

datatype loop_pc =
    Top                 \<comment> \<open>before the test of \<open>interrupted\<close>\<close>
  | Total               \<comment> \<open>before \<open>totalFiberCounter.value()\<close>\<close>
  | Poll int            \<comment> \<open>before \<open>localQueue->poll()\<close>, with the total\<close>
  | Hang                \<comment> \<open>before \<open>hungIoWaiter = ioWaiter\<close>\<close>
  | Wait                \<comment> \<open>before or in \<open>onceProcessEvents(3000)\<close>\<close>
  | Back                \<comment> \<open>before \<open>hungIoWaiter = null\<close>\<close>
  | Got fptr            \<comment> \<open>with a fiber from the queue, before the test of the waiters\<close>
  | Bind fptr           \<comment> \<open>before the fiber is bound to the thread\<close>
  | Run fptr            \<comment> \<open>in the fiber\<close>
  | After fptr          \<comment> \<open>before \<open>switch (fiber->state)\<close>\<close>
  | Clean turn          \<comment> \<open>at \<open>CLEAN\<close>\<close>
  | Ended turn
  | Outside

text \<open>Where a thread is in a call of the library.\<close>

datatype lib_pc =
    WakeLock bptr         \<comment> \<open>\<open>EFiberBlocker::wakeUp\<close>, before the locked section\<close>
  | SwapRead fptr         \<comment> \<open>\<open>EFiber::swapIn\<close>, before \<open>_state_ = state\<close>\<close>
  | SwapTest fptr fstate  \<comment> \<open>before the test of \<open>state\<close>\<close>
  | SwapSet fptr fstate   \<comment> \<open>before \<open>blocker = null; state = RUNNABLE\<close>\<close>
  | SwapAdd fptr fstate   \<comment> \<open>before \<open>boundQueue->add\<close>\<close>
  | SwapSignal fptr fstate \<comment> \<open>before the comparison of the threads\<close>
  | SchedAdd fptr nat     \<comment> \<open>\<open>schedule\<close>, before \<open>taskQueue.add\<close>\<close>
  | SchedHung nat         \<comment> \<open>before \<open>hungIoWaiter\<close> is read\<close>
  | SchedSignal wptr      \<comment> \<open>before \<open>iw->signal()\<close>\<close>

datatype pc = At loop_pc | In lib_pc loop_pc   \<comment> \<open>in a call, and where it was called\<close>

section \<open>Steps of the library calls\<close>

definition thread_id :: "nat \<Rightarrow> tid" where "thread_id t = int t"

text \<open>
  A step of a call: where it goes on (\<open>None\<close> when it returns) and the new state; \<open>None\<close> is a null
  pointer that is followed.
\<close>

fun lib_step :: "(waiter, 'q) cxx_queue \<Rightarrow> tid \<Rightarrow> lib_pc \<Rightarrow> ('q, 'k, 'c) sched \<Rightarrow>
    (lib_pc option \<times> ('q, 'k, 'c) sched) option" where
  "lib_step Q t (WakeLock bp) s =
     (let ((r, w), b) = EFiberBlocker_post Q (sc_blockers s bp)
      in Some (case w of Some (WFiber f) \<Rightarrow> Some (SwapRead f) | _ \<Rightarrow> None, upd_blocker bp b s))"
| "lib_step Q t (SwapRead f) s = Some (Some (SwapTest f (fb_state (rt_fibers s f))), s)"
| "lib_step Q t (SwapTest f st) s =
     (if fb_state (rt_fibers s f) = WAITING \<or> fb_state (rt_fibers s f) = BLOCKED
      then Some (Some (SwapSet f st), s) else Some (None, s))"
| "lib_step Q t (SwapSet f st) s =
     Some (Some (SwapAdd f st), EFiber_setState f RUNNABLE (upd_fiber f (\<lambda>fb. fb\<lparr>fb_blocker := None\<rparr>) s))"
| "lib_step Q t (SwapAdd f st) s =
     (case fb_boundQueue (rt_fibers s f) of
        None \<Rightarrow> None
      | Some q \<Rightarrow>
          (case nd_value (rt_nodes s (fb_packing (rt_fibers s f))) of
             None \<Rightarrow> None
           | Some e \<Rightarrow> Some (Some (SwapSignal f st), cq_add q e s)))"
| "lib_step Q t (SwapSignal f st) s =
     (if t \<noteq> fb_boundThreadID (rt_fibers s f) \<and> st = BLOCKED then
        (case fb_iowaiter (rt_fibers s f) of None \<Rightarrow> None | Some w \<Rightarrow> Some (None, EIoWaiter_signal w s))
      else Some (None, s))"
| "lib_step Q t (SchedAdd f i) s = Some (Some (SchedHung i), cq_add (stub_queue i) f s)"
| "lib_step Q t (SchedHung i) s = Some (map_option SchedSignal (sc_hung s i), s)"
| "lib_step Q t (SchedSignal w) s = Some (None, EIoWaiter_signal w s)"

text \<open>The steps of a call one after the other.\<close>

fun lib_alone :: "(waiter, 'q) cxx_queue \<Rightarrow> tid \<Rightarrow> nat \<Rightarrow> lib_pc \<Rightarrow> ('q, 'k, 'c) sched \<Rightarrow>
    ('q, 'k, 'c) sched option" where
  "lib_alone Q t 0 l s = None"
| "lib_alone Q t (Suc n) l s =
     (case lib_step Q t l s of
        None \<Rightarrow> None
      | Some (None, s') \<Rightarrow> Some s'
      | Some (Some l', s') \<Rightarrow> lib_alone Q t n l' s')"

text \<open>
  \<open>schedule\<close> before the fiber is added to a queue. The fiber is known to the calling thread only, and the
  counters are atomic; \<open>None\<close>: the index is outside of \<open>schedulerStubs\<close>.
\<close>

definition schedule_pick :: "nat \<Rightarrow> nat \<Rightarrow> (fptr \<Rightarrow> int \<Rightarrow> int) option \<Rightarrow> fptr option \<Rightarrow> fptr \<Rightarrow> bool \<Rightarrow>
    ('q, 'k, 'c) sched \<Rightarrow> (nat \<times> ('q, 'k, 'c) sched) option" where
  "schedule_pick n sid bal active f ignoreBalance s =
     (let s1 = s\<lparr>sc_total := sc_total s + 1\<rparr>;
          s3 = EFiber_setScheduler f (Some sid) (upd_fiber f (\<lambda>fb. fb\<lparr>fb_state := RUNNABLE\<rparr>) s1);
          (index, s4) =
            (if ignoreBalance then
               (case active of Some a \<Rightarrow> (fb_threadIndex (rt_fibers s3 a), s3) | None \<Rightarrow> (0, s3))
             else
               (case bal of
                  Some g \<Rightarrow> (g f (sc_threadNums s3), s3)
                | None \<Rightarrow> (sc_balanceIndex s3 smod int n, s3\<lparr>sc_balanceIndex := int32 (sc_balanceIndex s3 + 1)\<rparr>)))
      in if index < 0 \<or> index \<ge> int n then None else Some (nat index, s4))"

section \<open>Steps of the loop\<close>

text \<open>
  Thread \<open>i\<close> runs the loop of stub \<open>i\<close>. A fiber in it makes calls of the library, and ends its
  segment by yielding, by waiting on a blocker or by returning; \<open>loop_step\<close> has no step for it.
\<close>

fun loop_step :: "'k os \<Rightarrow> (waiter, 'q) cxx_queue \<Rightarrow> nat \<Rightarrow> nat \<Rightarrow> loop_pc \<Rightarrow> ('q, 'k, 'c) sched \<Rightarrow>
    (loop_pc \<times> ('q, 'k, 'c) sched) option" where
  "loop_step os Q n i Top s = Some (if sc_interrupted s then Clean Interrupted else Total, s)"
| "loop_step os Q n i Total s = Some (Poll (sc_total s), s)"
| "loop_step os Q n i (Poll tot) s =
     (case cq_poll (stub_queue i) s of
        None \<Rightarrow> None
      | Some (None, s1) \<Rightarrow> Some (if tot > 0 then Hang else Clean Break, s1)
      | Some (Some f, s1) \<Rightarrow> Some (Got f, s1))"
| "loop_step os Q n i Hang s = Some (Wait, s\<lparr>sc_hung := (sc_hung s)(i := Some (stub_waiter i))\<rparr>)"
| "loop_step os Q n i Wait s = map_option (Pair Back) (io_round os (thread_id i) (stub_waiter i) 3000 s)"
| "loop_step os Q n i Back s = Some (Top, s\<lparr>sc_hung := (sc_hung s)(i := None)\<rparr>)"
| "loop_step os Q n i (Got f) s =
     map_option (Pair (Bind f))
       (if EIoWaiter_getWaitersCount (sc_waiters s (stub_waiter i)) > 0
        then io_round os (thread_id i) (stub_waiter i) 0 s else Some s)"
| "loop_step os Q n i (Bind f) s =
     Some (Run f, bind_fiber (stub_queue i) (thread_id i) (stub_waiter i) f (EFiber_setThreadIndex f (int i) s))"
| "loop_step os Q n i (After f) s = map_option (Pair Top) (after_run Q (stub_queue i) f s)"
| "loop_step os Q n i (Clean tn) s = Some (Ended tn, wake_others n i s)"
| "loop_step os Q n i _ s = None"

text \<open>
  The steps of a turn one after the other, up to the next \<open>Top\<close> or to \<open>CLEAN\<close>, with the whole segment
  of a fiber (\<open>run\<close>) as one step.
\<close>

fun turn_alone :: "'k os \<Rightarrow> (waiter, 'q) cxx_queue \<Rightarrow> (fptr \<Rightarrow> ('q, 'k, 'c) sched \<Rightarrow> ('q, 'k, 'c) sched option) \<Rightarrow>
    nat \<Rightarrow> nat \<Rightarrow> nat \<Rightarrow> loop_pc \<Rightarrow> ('q, 'k, 'c) sched \<Rightarrow> (turn \<times> ('q, 'k, 'c) sched) option" where
  "turn_alone os Q run n i 0 l s = None"
| "turn_alone os Q run n i (Suc k) l s =
     (case (case l of Run f \<Rightarrow> map_option (Pair (After f)) (run f s) | _ \<Rightarrow> loop_step os Q n i l s) of
        None \<Rightarrow> None
      | Some (Top, s') \<Rightarrow> Some (Continue, s')
      | Some (Clean tn, s') \<Rightarrow> Some (tn, s')
      | Some (l', s') \<Rightarrow> turn_alone os Q run n i k l' s')"

section \<open>Undisturbed steps are the operations\<close>

lemma lib_swapIn: "lib_alone Q t 5 (SwapRead f) s = EFiber_swapIn t f s"
  by (simp add: EFiber_swapIn_def EFiber_setState_def numeral_eq_Suc split: option.splits)

lemma upd_blocker_commutes:
  "upd_fiber f g (upd_blocker bp b s) = upd_blocker bp b (upd_fiber f g s)"
  "cq_add q e (upd_blocker bp b s) = upd_blocker bp b (cq_add q e s)"
  "EIoWaiter_signal w (upd_blocker bp b s) = upd_blocker bp b (EIoWaiter_signal w s)"
  by (simp_all add: upd_blocker_def upd_fiber_def cq_add_def upd_node_def upd_queue_def EIoWaiter_signal_def Let_def)

lemma swapIn_upd_blocker:
  "EFiber_swapIn t f (upd_blocker bp b s) = map_option (upd_blocker bp b) (EFiber_swapIn t f s)"
  unfolding EFiber_swapIn_def Let_def upd_blocker_commutes upd_blocker_simps
  by (simp split: option.split)

lemma lib_wakeUp:
  "lib_alone Q t 6 (WakeLock bp) s =
     (case EFiberBlocker_wakeUp Q t (sc_blockers s bp) s of
        None \<Rightarrow> None | Some (r, b, s') \<Rightarrow> Some (upd_blocker bp b s'))"
proof -
  obtain r w b where p: "EFiberBlocker_post Q (sc_blockers s bp) = ((r, w), b)" by (metis prod.collapse)
  have "lib_alone Q t 6 (WakeLock bp) s =
      (case w of Some (WFiber f) \<Rightarrow> lib_alone Q t 5 (SwapRead f) (upd_blocker bp b s) | _ \<Rightarrow> Some (upd_blocker bp b s))"
    by (simp add: numeral_eq_Suc p split: option.split waiter.split)
  then show ?thesis unfolding lib_swapIn swapIn_upd_blocker
    by (simp add: EFiberBlocker_wakeUp_def p Let_def split: option.split waiter.split)
qed

lemma schedule_alone:
  assumes "sc_stubs s = Some n"
  shows "EFiberScheduler_scheduleIgnoreBalance sid bal active f ign s =
     (case schedule_pick n sid bal active f ign s of
        None \<Rightarrow> None | Some (i, s') \<Rightarrow> lib_alone Q t 3 (SchedAdd f i) s')"
proof -
  define s3 where "s3 = EFiber_setScheduler f (Some sid) (upd_fiber f (\<lambda>fb. fb\<lparr>fb_state := RUNNABLE\<rparr>) (s\<lparr>sc_total := sc_total s + 1\<rparr>))"
  obtain index s4 where c: "(if ign then
               (case active of Some a \<Rightarrow> (fb_threadIndex (rt_fibers s3 a), s3) | None \<Rightarrow> (0, s3))
             else
               (case bal of
                  Some g \<Rightarrow> (g f (sc_threadNums s3), s3)
                | None \<Rightarrow> (sc_balanceIndex s3 smod int n, s3\<lparr>sc_balanceIndex := int32 (sc_balanceIndex s3 + 1)\<rparr>))) = (index, s4)"
    by fastforce
  have st: "sc_stubs s3 = Some n" using assms by (simp add: s3_def EFiber_setScheduler_def)
  have l: "lib_alone Q t 3 (SchedAdd f i) s' =
      (let s5 = cq_add (stub_queue i) f s' in case sc_hung s5 i of Some w \<Rightarrow> Some (EIoWaiter_signal w s5) | None \<Rightarrow> Some s5)" for i s'
    by (simp add: numeral_eq_Suc split: option.split)
  show ?thesis
    unfolding EFiberScheduler_scheduleIgnoreBalance_def schedule_pick_def Let_def s3_def [symmetric] l
    unfolding st option.case c by (simp split: option.split)
qed

lemma turn_alone_simps:
  "turn_alone os Q run n i (Suc k) Top s =
     (if sc_interrupted s then Some (Interrupted, s) else turn_alone os Q run n i k Total s)"
  "turn_alone os Q run n i (Suc k) Total s = turn_alone os Q run n i k (Poll (sc_total s)) s"
  "turn_alone os Q run n i (Suc k) (Poll tot) s =
     (case cq_poll (stub_queue i) s of None \<Rightarrow> None
      | Some (None, s1) \<Rightarrow> if tot > 0 then turn_alone os Q run n i k Hang s1 else Some (Break, s1)
      | Some (Some f, s1) \<Rightarrow> turn_alone os Q run n i k (Got f) s1)"
  "turn_alone os Q run n i (Suc k) Hang s =
     turn_alone os Q run n i k Wait (s\<lparr>sc_hung := (sc_hung s)(i := Some (stub_waiter i))\<rparr>)"
  "turn_alone os Q run n i (Suc k) Wait s =
     (case io_round os (thread_id i) (stub_waiter i) 3000 s of None \<Rightarrow> None | Some s' \<Rightarrow> turn_alone os Q run n i k Back s')"
  "turn_alone os Q run n i (Suc k) Back s = Some (Continue, s\<lparr>sc_hung := (sc_hung s)(i := None)\<rparr>)"
  "turn_alone os Q run n i (Suc k) (Got f) s =
     (case (if EIoWaiter_getWaitersCount (sc_waiters s (stub_waiter i)) > 0
        then io_round os (thread_id i) (stub_waiter i) 0 s else Some s) of
        None \<Rightarrow> None | Some s' \<Rightarrow> turn_alone os Q run n i k (Bind f) s')"
  "turn_alone os Q run n i (Suc k) (Bind f) s =
     turn_alone os Q run n i k (Run f)
       (bind_fiber (stub_queue i) (thread_id i) (stub_waiter i) f (EFiber_setThreadIndex f (int i) s))"
  "turn_alone os Q run n i (Suc k) (Run f) s =
     (case run f s of None \<Rightarrow> None | Some s' \<Rightarrow> turn_alone os Q run n i k (After f) s')"
  "turn_alone os Q run n i (Suc k) (After f) s = map_option (Pair Continue) (after_run Q (stub_queue i) f s)"
  by (simp_all split: option.split prod.split)

lemma turn_alone_eq:
  "turn_alone os Q run n i 7 Top s = EFiberScheduler_thread_turn os Q run (thread_id i) i s"
proof -
  have 7: "(7 :: nat) = Suc (Suc (Suc (Suc (Suc (Suc (Suc 0))))))" by simp
  show ?thesis
    unfolding 7 turn_alone_simps EFiberScheduler_thread_turn_def Let_def
    by (simp split: option.split prod.split)
qed

section \<open>Steps of a thread\<close>

text \<open>
  What a thread may do: go on where the code prescribes it, and, in a fiber or outside of the scheduler,
  call \<open>wakeUp\<close> of a blocker or \<open>schedule\<close> with a fiber that has been constructed (\<open>L\<close> are the fibers that
  exist) and not been scheduled yet. A fiber may also call \<open>wait\<close>, yield, or return from \<open>run\<close>.
\<close>

datatype choice = Go | CallWakeUp bptr | CallSchedule fptr bool | CallWait bptr | Yield | Return

fun makes_calls :: "loop_pc \<Rightarrow> bool" where
  "makes_calls (Run f) = True"
| "makes_calls Outside = True"
| "makes_calls _ = False"

fun active_of :: "loop_pc \<Rightarrow> fptr option" where
  "active_of (Run f) = Some f"
| "active_of _ = None"

record 'k setting =
  st_os :: "nat \<Rightarrow> 'k os"                         \<comment> \<open>the system calls, for the io waiter of each thread\<close>
  st_threads :: nat                             \<comment> \<open>the length of \<open>schedulerStubs\<close>\<close>
  st_fibers :: "fptr set"
  st_scheduler :: nat
  st_balance :: "(fptr \<Rightarrow> int \<Rightarrow> int) option"

fun pc_step :: "'k setting \<Rightarrow> (waiter, 'q) cxx_queue \<Rightarrow> nat \<Rightarrow> choice \<Rightarrow> pc \<Rightarrow> ('q, 'k, 'c) sched \<Rightarrow>
    (pc \<times> ('q, 'k, 'c) sched) option" where
  "pc_step S Q t Go (At l) s = map_option (apfst At) (loop_step (st_os S t) Q (st_threads S) t l s)"
| "pc_step S Q t Go (In b l) s =
     map_option (apfst (\<lambda>r. case r of None \<Rightarrow> At l | Some b' \<Rightarrow> In b' l)) (lib_step Q (thread_id t) b s)"
| "pc_step S Q t (CallWakeUp bp) (At l) s = (if makes_calls l then Some (In (WakeLock bp) l, s) else None)"
| "pc_step S Q t (CallSchedule f ign) (At l) s =
     (if makes_calls l \<and> f \<in> st_fibers S \<and> fb_state (rt_fibers s f) = NEW then
        map_option (apfst (\<lambda>i. In (SchedAdd f i) l))
          (schedule_pick (st_threads S) (st_scheduler S) (st_balance S) (active_of l) f ign s)
      else None)"
| "pc_step S Q t (CallWait bp) (At (Run f)) s =
     (let (waits, b, s1) = EFiberBlocker_wait_fiber bp f (sc_blockers s bp) s
      in Some (At (if waits then After f else Run f), upd_blocker bp b s1))"
| "pc_step S Q t Yield (At (Run f)) s = Some (At (After f), s)"
| "pc_step S Q t Return (At (Run f)) s = Some (At (After f), EFiber_setState f TERMINATED s)"
| "pc_step S Q t c p s = None"

record ('q, 'k, 'c) world =
  wd_sched :: "('q, 'k, 'c) sched"
  wd_pc :: "nat \<Rightarrow> pc"

definition thread_step :: "'k setting \<Rightarrow> (waiter, 'q) cxx_queue \<Rightarrow> nat \<times> choice \<Rightarrow> ('q, 'k, 'c) world \<Rightarrow>
    ('q, 'k, 'c) world option" where
  "thread_step S Q tc w =
     (case tc of (t, c) \<Rightarrow>
        map_option (\<lambda>(p, s). \<lparr>wd_sched = s, wd_pc = (wd_pc w)(t := p)\<rparr>) (pc_step S Q t c (wd_pc w t) (wd_sched w)))"

text \<open>The worlds that the threads can reach, in any order of their steps.\<close>

inductive reaches :: "'k setting \<Rightarrow> (waiter, 'q) cxx_queue \<Rightarrow> ('q, 'k, 'c) world \<Rightarrow> ('q, 'k, 'c) world \<Rightarrow> bool"
  for S Q w0 where
  start: "reaches S Q w0 w0"
| step: "reaches S Q w0 w \<Longrightarrow> thread_step S Q tc w = Some w' \<Longrightarrow> reaches S Q w0 w'"

fun trace_run :: "'k setting \<Rightarrow> (waiter, 'q) cxx_queue \<Rightarrow> (nat \<times> choice) list \<Rightarrow> ('q, 'k, 'c) world \<Rightarrow>
    ('q, 'k, 'c) world option" where
  "trace_run S Q [] w = Some w"
| "trace_run S Q (tc # tcs) w =
     (case thread_step S Q tc w of None \<Rightarrow> None | Some w' \<Rightarrow> trace_run S Q tcs w')"

lemma trace_reaches: "reaches S Q w0 w \<Longrightarrow> trace_run S Q tcs w = Some w' \<Longrightarrow> reaches S Q w0 w'"
proof (induction tcs arbitrary: w)
  case (Cons tc tcs)
  then obtain w1 where "thread_step S Q tc w = Some w1" "trace_run S Q tcs w1 = Some w'"
    by (auto split: option.splits)
  then show ?case using Cons.IH [of w1] reaches.step [OF Cons.prems(1)] by blast
qed simp

end
