(* ===== verification/Threads_Round.thy ===== *)
theory Threads_Round
  imports Threads
begin

text \<open>
  A round of an io waiter when fibers wait for blockers only: it serves no fiber, and changes nothing that
  the threads share but its own pipe.
\<close>

section \<open>A round of an io waiter that serves no fiber\<close>

text \<open>
  Fibers that wait for blockers only leave the pipe as the only registered event. A round then reads the
  pipe and changes nothing else that the threads share.
\<close>

lemma dispatch_keeps:
  assumes cb: "\<And>fe pr fd msk r r'. fe \<in> set (pl_events p) \<Longrightarrow>
      fe_mask fe AND msk AND ECO_POLL_READABLE \<noteq> 0 \<and> fe_rfileProc fe = Some pr \<or>
      fe_mask fe AND msk AND ECO_POLL_WRITABLE \<noteq> 0 \<and> fe_wfileProc fe = Some pr \<Longrightarrow>
      I r \<Longrightarrow> pcall pr fd (fe_clientData fe) msk r = Some r' \<Longrightarrow> I r'"
  shows "dispatch pcall p fired n r = Some (n', r') \<Longrightarrow> I r \<Longrightarrow> I r'"
proof (induction fired arbitrary: n r)
  case (Cons e fired)
  obtain fd msk where e: "e = (fd, msk)" by (cases e)
  define fe where "fe = pl_events p ! nat fd"
  define rf where "rf \<longleftrightarrow> fe_mask fe AND msk AND ECO_POLL_READABLE \<noteq> 0"
  have g: "\<not> (fd < 0 \<or> nat fd \<ge> length (pl_events p))" using Cons.prems(1) e by (auto split: if_splits)
  then have fe: "fe \<in> set (pl_events p)" by (simp add: fe_def)
  define c1 where "c1 = (if rf then (case fe_rfileProc fe of
      Some rp \<Rightarrow> pcall rp fd (fe_clientData fe) msk r | None \<Rightarrow> Some r) else Some r)"
  define c2 where "c2 r1 = (if fe_mask fe AND msk AND ECO_POLL_WRITABLE \<noteq> 0 then (case fe_wfileProc fe of
      Some wp \<Rightarrow> (if \<not> rf \<or> fe_wfileProc fe \<noteq> fe_rfileProc fe
         then pcall wp fd (fe_clientData fe) msk r1 else Some r1) | None \<Rightarrow> Some r1) else Some r1)" for r1
  have d: "dispatch pcall p (e # fired) n r =
      (case c1 of None \<Rightarrow> None | Some r1 \<Rightarrow> (case c2 r1 of None \<Rightarrow> None | Some r2 \<Rightarrow> dispatch pcall p fired (n + 1) r2))"
    unfolding e dispatch.simps Let_def if_not_P [OF g] fe_def [symmetric] rf_def [symmetric] c1_def [symmetric] c2_def ..
  then obtain r1 r2 where s: "c1 = Some r1" "c2 r1 = Some r2" "dispatch pcall p fired (n + 1) r2 = Some (n', r')"
    using Cons.prems(1) by (auto split: option.splits)
  have "I r1" using s(1) Cons.prems(2) cb [OF fe, of msk _ r fd r1]
    unfolding c1_def rf_def by (auto split: if_splits option.splits)
  then have "I r2" using s(2) cb [OF fe, of msk _ r1 fd r2]
    unfolding c2_def by (auto split: if_splits option.splits)
  then show ?case using Cons.IH [OF s(3)] by blast
qed simp

lemma pipe_round:
  assumes os: "os_ok os interest clk" and w: "waiter_ok {} iw" and sy: "synced interest (iw_poll iw) k"
  shows "\<exists>n iw' k' x. EIoWaiter_onceProcessEvents os t wp timeout iw k s =
       Some (n, iw', k', s\<lparr>rt_signals := (rt_signals s)(wp := x)\<rparr>) \<and>
     waiter_ok {} iw' \<and> synced interest (iw_poll iw') k' \<and> iw_waiters iw' = iw_waiters iw"
proof -
  let ?p = "iw_poll iw"
  define I where "I r \<longleftrightarrow> (\<exists>x. r = s\<lparr>rt_signals := (rt_signals s)(wp := x)\<rparr>)" for r
  have rt: "rt_ok {} {} {} {} s" by (simp add: rt_ok_def qrep_def)
  obtain n iw' k' s' where r: "EIoWaiter_onceProcessEvents os t wp timeout iw k s = Some (n, iw', k', s')"
    "waiter_ok {} iw'" "synced interest (iw_poll iw') k'" "iw_waiters iw' = iw_waiters iw"
    using EIoWaiter_round [OF os rt w sy, of t wp timeout] by blast
  have i0: "I s" unfolding I_def by (intro exI [of _ "rt_signals s wp"]) simp
  have pr: "pr = PipeEventProc" if "fe \<in> set (pl_events ?p)"
      "fe_mask fe AND msk AND ECO_POLL_READABLE \<noteq> 0 \<and> fe_rfileProc fe = Some pr \<or>
       fe_mask fe AND msk AND ECO_POLL_WRITABLE \<noteq> 0 \<and> fe_wfileProc fe = Some pr" for fe pr msk
  proof -
    have "fe_serves {} fe" using w that(1) by (simp add: waiter_ok_def)
    then show ?thesis using that(2) band_fired unfolding fe_serves_def by blast
  qed
  have di: "I r'" if "dispatch (file_call t wp) ?p fired 0 s = Some (m, r')" for fired m r'
  proof (rule dispatch_keeps [where I = I, OF _ that i0])
    fix fe pr fd msk r r'
    assume fe: "fe \<in> set (pl_events ?p)" "fe_mask fe AND msk AND ECO_POLL_READABLE \<noteq> 0 \<and> fe_rfileProc fe = Some pr \<or>
       fe_mask fe AND msk AND ECO_POLL_WRITABLE \<noteq> 0 \<and> fe_wfileProc fe = Some pr"
      and i: "I r" and c: "file_call t wp pr fd (fe_clientData fe) msk r = Some r'"
    have "r' = pipeEventProc wp r" using pr [OF fe] c by simp
    then show "I r'" using i by (auto simp: I_def pipeEventProc_def)
  qed
  have ti: "I r'" if "processTimeEvents os (time_call t) final_call ?p k1 r = Some (d, p', k2, r')" "I r" for k1 d p' k2 r r'
  proof -
    have te: "te_id te = -1 \<and> te_finalizerProc te = Some TimeEventFinalizerProc"
      if "te \<in> set (skew_list (fst (os_time os k1)) ?p)" for te
      using skew_list_mem [OF that] w by (fastforce simp: waiter_ok_def te_serves_def)
    have cb: "callbacks_ok (time_call t) final_call I (\<lambda>_ _. True) (set (skew_list (fst (os_time os k1)) ?p))"
      unfolding callbacks_ok_def using te by auto
    have "timers_wf ?p" using w by (simp add: waiter_ok_def)
    from processTimeEvents_walked [OF os_clock [OF os] this cb that(2)] that(1) show ?thesis
      unfolding walked_def by auto
  qed
  obtain n1 k1 r1 m where f: "(if pl_maxfd ?p \<noteq> -1 \<or> timeout \<noteq> 0 then
      (let (tvp, k1) = wait_timeout os ?p ECO_POLL_ALL_EVENTS timeout k;
           (fired, k2) = aeApiPoll os ?p tvp k1
       in map_option (\<lambda>(n, r'). (n, k2, r')) (dispatch (file_call t wp) ?p fired 0 s)) else Some (0, k, s)) = Some (n1, k1, r1)"
      "processTimeEvents os (time_call t) final_call ?p k1 r1 = Some (m, iw_poll iw', k', s')"
    using r(1) unfolding EIoWaiter_onceProcessEvents_def eco_poll_process_events_def
    by (auto simp: Let_def split: option.splits prod.splits if_splits)
  have "I r1" using f(1) i0 di by (auto split: if_splits prod.splits)
  then have "I s'" by (rule ti [OF f(2)])
  then show ?thesis using r unfolding I_def by blast
qed

text \<open>What the system calls of a round do not touch, the round does not touch.\<close>

definition calls_keep :: "'k os \<Rightarrow> ('k \<Rightarrow> 'a) \<Rightarrow> bool" where
  "calls_keep os v \<longleftrightarrow> (\<forall>k. v (snd (os_gettimeofday os k)) = v k) \<and> (\<forall>k. v (snd (os_time os k)) = v k) \<and>
     (\<forall>n tmo k. v (snd (os_epoll_wait os n tmo k)) = v k)"

lemma getTime_keeps:
  assumes "calls_keep os v"
  shows "v (snd (aeGetTime os k)) = v k" "v (snd (aeAddMillisecondsToNow os x k)) = v k"
proof -
  show g: "v (snd (aeGetTime os k)) = v k" for k
    using assms by (cases "os_gettimeofday os k") (auto simp: aeGetTime_def calls_keep_def split: prod.splits dest!: spec [of _ k])
  show "v (snd (aeAddMillisecondsToNow os x k)) = v k"
    using g [of k] by (cases "aeGetTime os k") (simp add: aeAddMillisecondsToNow_def)
qed

lemma time_loop_keeps:
  assumes c: "calls_keep os v"
  shows "time_loop os tcall fcall maxId acc skip tes n k r = Some (n', l, k', r') \<Longrightarrow> v k' = v k"
proof (induction tes arbitrary: acc skip n k r)
  case (Cons te tes)
  obtain now_sec now_ms k1 where g: "aeGetTime os k = ((now_sec, now_ms), k1)" by (metis prod.collapse)
  have k1: "v k1 = v k" using getTime_keeps(1) [OF c, of k] g by simp
  have k2: "v (snd (aeAddMillisecondsToNow os x k1)) = v k" for x using getTime_keeps(2) [OF c, of x k1] k1 by simp
  show ?case
  proof (cases "te_id te = -1 \<or> te_id te > maxId")
    case True
    then show ?thesis using Cons.prems by (auto split: option.splits if_splits dest: Cons.IH)
  next
    case False
    then have e: "Some (n', l, k', r') =
        (if now_sec > te_when_sec te \<or> (now_sec = te_when_sec te \<and> now_ms \<ge> te_when_ms te) then
           (case tcall (te_timeProc te) (te_id te) (te_clientData te) r of
              None \<Rightarrow> None
            | Some (retval, r') \<Rightarrow>
                (if retval \<noteq> -1 then
                   (let ((ws, wms), k2) = aeAddMillisecondsToNow os retval k1 in
                    time_loop os tcall fcall maxId
                      (acc @ skip @ [te\<lparr>te_when_sec := ws, te_when_ms := wms\<rparr>]) [] tes (n + 1) k2 r')
                 else time_loop os tcall fcall maxId (acc @ skip @ [te\<lparr>te_id := -1\<rparr>]) [] tes (n + 1) k1 r'))
         else time_loop os tcall fcall maxId (acc @ skip @ [te]) [] tes n k1 r)"
      using Cons.prems g by simp
    show ?thesis
    proof (cases "now_sec > te_when_sec te \<or> (now_sec = te_when_sec te \<and> now_ms \<ge> te_when_ms te)")
      case True
      then obtain rv r1 where "tcall (te_timeProc te) (te_id te) (te_clientData te) r = Some (rv, r1)"
        using e by (cases "tcall (te_timeProc te) (te_id te) (te_clientData te) r") auto
      then show ?thesis using e True k1 k2 [of rv]
        by (cases "aeAddMillisecondsToNow os rv k1") (auto split: if_splits dest!: sym [of "Some _"] Cons.IH)
    qed (use e k1 in \<open>auto dest!: sym [of "Some _"] Cons.IH\<close>)
  qed
qed simp

lemma aeApiPoll_keeps:
  assumes "calls_keep os v"
  shows "v (snd (aeApiPoll os p tvp k)) = v k"
proof -
  define tmo where "tmo = int32 (case tvp of Some (s, us) \<Rightarrow> s * 1000 + us sdiv 1000 | None \<Rightarrow> -1)"
  have "snd (aeApiPoll os p tvp k) = snd (os_epoll_wait os (pl_setsize p) tmo k)"
    unfolding aeApiPoll_def tmo_def [symmetric] Let_def
    by (cases "os_epoll_wait os (pl_setsize p) tmo k") auto
  then show ?thesis using assms by (simp add: calls_keep_def)
qed

lemma wait_timeout_keeps:
  assumes c: "calls_keep os v"
  shows "v (snd (wait_timeout os p flags timeout k)) = v k"
  using getTime_keeps(1) [OF c, of k]
  by (cases "aeGetTime os k") (auto simp: wait_timeout_def Let_def split: option.split)

lemma processTimeEvents_keeps:
  assumes c: "calls_keep os v" and t: "processTimeEvents os tcall fcall p k r = Some (n, p', k', r')"
  shows "v k' = v k"
proof -
  obtain now k1 where n: "os_time os k = (now, k1)" by (metis prod.collapse)
  have "v k1 = v k" using c n unfolding calls_keep_def by (metis snd_conv)
  then show ?thesis using t n
    by (auto simp: processTimeEvents_def Let_def split: option.splits prod.splits dest!: time_loop_keeps [OF c])
qed

lemma round_keeps:
  assumes c: "calls_keep os v" and r: "EIoWaiter_onceProcessEvents os t wp timeout iw k s = Some (n, iw', k', s')"
  shows "v k' = v k"
proof -
  let ?p = "iw_poll iw"
  obtain n1 k1 r1 m p' where f: "(if pl_maxfd ?p \<noteq> -1 \<or> timeout \<noteq> 0 then
      (let (tvp, k1) = wait_timeout os ?p ECO_POLL_ALL_EVENTS timeout k;
           (fired, k2) = aeApiPoll os ?p tvp k1
       in map_option (\<lambda>(n, r'). (n, k2, r')) (dispatch (file_call t wp) ?p fired 0 s)) else Some (0, k, s)) = Some (n1, k1, r1)"
      and t: "processTimeEvents os (time_call t) final_call ?p k1 r1 = Some (m, p', k', s')"
    using r unfolding EIoWaiter_onceProcessEvents_def eco_poll_process_events_def
    by (auto simp: Let_def split: option.splits prod.splits if_splits)
  obtain tvp k2 where w: "wait_timeout os ?p ECO_POLL_ALL_EVENTS timeout k = (tvp, k2)" by (metis prod.collapse)
  obtain fired k3 where a: "aeApiPoll os ?p tvp k2 = (fired, k3)" by (metis prod.collapse)
  have "v k3 = v k"
    using wait_timeout_keeps [OF c, of ?p ECO_POLL_ALL_EVENTS timeout k] aeApiPoll_keeps [OF c, of ?p tvp k2] w a by simp
  then have "v k1 = v k" using f w a by (auto split: if_splits)
  then show ?thesis using processTimeEvents_keeps [OF c t] by simp
qed

end
