(* ===== verification/Threads_Inv.thy ===== *)
theory Threads_Inv
  imports Threads_Round
begin

text \<open>
  What holds in every world that the threads of \<open>join(int)\<close> can reach: every fiber is in one place (in one
  queue, in the hands of one thread, or in the queue of one blocker), a fiber that has run stays with its
  thread, and a thread that is about to wait although a woken fiber is in its queue has a byte in its pipe,
  or the thread that woke the fiber is about to write one.
\<close>

section \<open>Places\<close>

datatype place = Fresh | Queued nat | Held nat | Parked bptr | Gone

fun loop_held :: "loop_pc \<Rightarrow> fptr list" where
  "loop_held (Got f) = [f]"
| "loop_held (Bind f) = [f]"
| "loop_held (Run f) = [f]"
| "loop_held (After f) = [f]"
| "loop_held _ = []"

fun lib_held :: "lib_pc \<Rightarrow> fptr list" where
  "lib_held (SwapRead f) = [f]"
| "lib_held (SwapTest f st) = [f]"
| "lib_held (SwapSet f st) = [f]"
| "lib_held (SwapAdd f st) = [f]"
| "lib_held (SchedAdd f i) = [f]"
| "lib_held _ = []"

fun pc_held :: "pc \<Rightarrow> fptr list" where
  "pc_held (At l) = loop_held l"
| "pc_held (In b l) = lib_held b @ loop_held l"

section \<open>The fibers in their places\<close>

text \<open>The fiber is bound to thread \<open>i\<close>, and its packing node refers to it.\<close>

definition home :: "nat \<Rightarrow> fptr \<Rightarrow> ('q, 'k, 'c) sched \<Rightarrow> bool" where
  "home i f s \<longleftrightarrow> fb_boundQueue (rt_fibers s f) = Some (stub_queue i) \<and>
     fb_iowaiter (rt_fibers s f) = Some (stub_waiter i) \<and> fb_boundThreadID (rt_fibers s f) = thread_id i"

definition owns :: "fptr \<Rightarrow> ('q, 'k, 'c) sched \<Rightarrow> bool" where
  "owns f s \<longleftrightarrow> nd_value (rt_nodes s (pk s f)) = Some f"

text \<open>
  A fiber that is to run is RUNNABLE, or it is still BLOCKED because the permit came between its \<open>wait\<close>
  and the \<open>swapOut\<close> of its scheduler.
\<close>

definition ready :: "fptr \<Rightarrow> ('q, 'k, 'c) sched \<Rightarrow> bool" where
  "ready f s \<longleftrightarrow> fb_state (rt_fibers s f) = RUNNABLE \<or>
     fb_state (rt_fibers s f) = BLOCKED \<and> fb_blocker (rt_fibers s f) \<noteq> None"

definition may_home :: "nat \<Rightarrow> fptr \<Rightarrow> ('q, 'k, 'c) sched \<Rightarrow> bool" where
  "may_home i f s \<longleftrightarrow> (fb_boundQueue (rt_fibers s f) \<noteq> None \<longrightarrow> home i f s)"

definition homed :: "nat \<Rightarrow> fptr \<Rightarrow> ('q, 'k, 'c) sched \<Rightarrow> bool" where
  "homed n f s \<longleftrightarrow> (\<exists>i<n. home i f s)"

definition asleep :: "nat \<Rightarrow> fptr \<Rightarrow> ('q, 'k, 'c) sched \<Rightarrow> bool" where
  "asleep n f s \<longleftrightarrow> fb_state (rt_fibers s f) = BLOCKED \<and> owns f s \<and> homed n f s"

fun place_fine :: "nat \<Rightarrow> fptr \<Rightarrow> place \<Rightarrow> ('q, 'k, 'c) sched \<Rightarrow> bool" where
  "place_fine n f Fresh s \<longleftrightarrow> fb_state (rt_fibers s f) = NEW \<and> fb_boundQueue (rt_fibers s f) = None"
| "place_fine n f (Queued i) s \<longleftrightarrow> ready f s \<and> may_home i f s"
| "place_fine n f (Held t) s \<longleftrightarrow> fb_state (rt_fibers s f) \<noteq> NEW"
| "place_fine n f (Parked bp) s \<longleftrightarrow> asleep n f s"
| "place_fine n f Gone s \<longleftrightarrow> fb_state (rt_fibers s f) = TERMINATED"

fun loop_fine :: "nat \<Rightarrow> loop_pc \<Rightarrow> ('q, 'k, 'c) sched \<Rightarrow> bool" where
  "loop_fine t (Got f) s \<longleftrightarrow> ready f s \<and> owns f s \<and> may_home t f s"
| "loop_fine t (Bind f) s \<longleftrightarrow> ready f s \<and> owns f s \<and> may_home t f s"
| "loop_fine t (Run f) s \<longleftrightarrow> ready f s \<and> owns f s \<and> home t f s \<and> fb_threadIndex (rt_fibers s f) = int t"
| "loop_fine t (After f) s \<longleftrightarrow> (ready f s \<or> fb_state (rt_fibers s f) = TERMINATED) \<and> owns f s \<and> home t f s"
| "loop_fine t _ s \<longleftrightarrow> True"

fun lib_fine :: "nat \<Rightarrow> lib_pc \<Rightarrow> ('q, 'k, 'c) sched \<Rightarrow> bool" where
  "lib_fine n (SwapRead f) s \<longleftrightarrow> asleep n f s"
| "lib_fine n (SwapTest f st) s \<longleftrightarrow> st = BLOCKED \<and> asleep n f s"
| "lib_fine n (SwapSet f st) s \<longleftrightarrow> st = BLOCKED \<and> asleep n f s"
| "lib_fine n (SwapAdd f st) s \<longleftrightarrow> st = BLOCKED \<and> fb_state (rt_fibers s f) = RUNNABLE \<and> owns f s \<and> homed n f s"
| "lib_fine n (SwapSignal f st) s \<longleftrightarrow> st = BLOCKED \<and> homed n f s"
| "lib_fine n (SchedAdd f i) s \<longleftrightarrow> i < n \<and> fb_state (rt_fibers s f) = RUNNABLE \<and> fb_boundQueue (rt_fibers s f) = None"
| "lib_fine n (SchedHung i) s \<longleftrightarrow> i < n"
| "lib_fine n _ s \<longleftrightarrow> True"

fun pc_fine :: "nat \<Rightarrow> nat \<Rightarrow> pc \<Rightarrow> ('q, 'k, 'c) sched \<Rightarrow> bool" where
  "pc_fine n t (At l) s \<longleftrightarrow> loop_fine t l s \<and> (l = Outside \<or> t < n)"
| "pc_fine n t (In b l) s \<longleftrightarrow> lib_fine n b s \<and> loop_fine t l s \<and> (l = Outside \<or> t < n) \<and> makes_calls l"

section \<open>What other threads leave alone\<close>

definition same_fiber :: "fptr \<Rightarrow> ('q, 'k, 'c) sched \<Rightarrow> ('q, 'k, 'c) sched \<Rightarrow> bool" where
  "same_fiber f s s' \<longleftrightarrow> rt_fibers s' f = rt_fibers s f \<and> (owns f s \<longrightarrow> owns f s')"

definition homes_kept :: "('q, 'k, 'c) sched \<Rightarrow> ('q, 'k, 'c) sched \<Rightarrow> bool" where
  "homes_kept s s' \<longleftrightarrow> (\<forall>i f. home i f s \<longrightarrow> home i f s')"

lemma same_fiberD:
  assumes "same_fiber f s s'"
  shows "rt_fibers s' f = rt_fibers s f" "owns f s \<Longrightarrow> owns f s'" "home i f s' \<longleftrightarrow> home i f s" "ready f s' \<longleftrightarrow> ready f s"
    "may_home i f s' \<longleftrightarrow> may_home i f s" "homed n f s' \<longleftrightarrow> homed n f s" "asleep n f s \<Longrightarrow> asleep n f s'"
  using assms unfolding same_fiber_def home_def ready_def may_home_def homed_def asleep_def by simp_all

lemma place_fine_same: "same_fiber f s s' \<Longrightarrow> place_fine n f x s \<Longrightarrow> place_fine n f x s'"
  by (cases x) (simp_all add: same_fiberD)

lemma loop_fine_same: "(\<And>f. f \<in> set (loop_held l) \<Longrightarrow> same_fiber f s s') \<Longrightarrow> loop_fine t l s \<Longrightarrow> loop_fine t l s'"
  by (cases l) (auto simp: same_fiberD)

lemma homed_kept: "homes_kept s s' \<Longrightarrow> homed n f s \<Longrightarrow> homed n f s'"
  unfolding homes_kept_def homed_def by blast

lemma lib_fine_same:
  "(\<And>f. f \<in> set (lib_held b) \<Longrightarrow> same_fiber f s s') \<Longrightarrow> homes_kept s s' \<Longrightarrow> lib_fine n b s \<Longrightarrow> lib_fine n b s'"
  by (cases b) (auto simp: same_fiberD homed_kept)

lemma pc_fine_same:
  "(\<And>f. f \<in> set (pc_held p) \<Longrightarrow> same_fiber f s s') \<Longrightarrow> homes_kept s s' \<Longrightarrow> pc_fine n t p s \<Longrightarrow> pc_fine n t p s'"
  using lib_fine_same loop_fine_same by (cases p) (auto, blast+)


section \<open>The invariant\<close>

abbreviation wait_view :: "('q \<Rightarrow> waiter list) \<Rightarrow> ('q, 'k, 'c) sched \<Rightarrow> bptr \<Rightarrow> waiter list" where
  "wait_view view s bp \<equiv> view (bl_waitQueue (sc_blockers s bp))"

definition placed :: "('q \<Rightarrow> waiter list) \<Rightarrow> nat \<Rightarrow> fptr set \<Rightarrow> (fptr \<Rightarrow> place) \<Rightarrow> (qptr \<Rightarrow> fptr list) \<Rightarrow>
    ('q, 'k, 'c) sched \<Rightarrow> (nat \<Rightarrow> pc) \<Rightarrow> bool" where
  "placed view n L pl V s P \<longleftrightarrow>
     (\<forall>f i. pl f = Queued i \<longleftrightarrow> i < n \<and> f \<in> set (V (stub_queue i))) \<and>
     (\<forall>f t. pl f = Held t \<longleftrightarrow> f \<in> set (pc_held (P t))) \<and>
     (\<forall>f bp. pl f = Parked bp \<longleftrightarrow> WFiber f \<in> set (wait_view view s bp)) \<and>
     (\<forall>f. pl f \<noteq> Fresh \<longrightarrow> f \<in> L) \<and> (\<forall>t. distinct (pc_held (P t)))"

definition waiters_fine :: "nat \<Rightarrow> (nat \<Rightarrow> 'k \<Rightarrow> int \<rightharpoonup> int) \<Rightarrow> ('q, 'k, 'c) sched \<Rightarrow> bool" where
  "waiters_fine n interest s \<longleftrightarrow> (\<forall>i<n. waiter_ok {} (sc_waiters s (stub_waiter i)) \<and>
     synced (interest i) (iw_poll (sc_waiters s (stub_waiter i))) (sc_kernel s))"

definition blockers_fine :: "(waiter, 'q) cxx_queue \<Rightarrow> ('q \<Rightarrow> waiter list) \<Rightarrow> ('q, 'k, 'c) sched \<Rightarrow> bool" where
  "blockers_fine Q view s \<longleftrightarrow> (\<forall>bp. (\<exists>p l ws. blk_sem Q view (sc_blockers s bp) p l ws) \<and>
     distinct (filter (\<lambda>w. w \<noteq> WThread) (wait_view view s bp)))"

text \<open>Thread \<open>j\<close> will not sleep: its pipe has a byte, or another thread is about to write one.\<close>

definition rung :: "('q, 'k, 'c) sched \<Rightarrow> (nat \<Rightarrow> pc) \<Rightarrow> nat \<Rightarrow> bool" where
  "rung s P j \<longleftrightarrow> rt_signals s (stub_waiter j) > 0 \<or>
     (\<exists>u g st l. u \<noteq> j \<and> P u = In (SwapSignal g st) l \<and> home j g s)"

definition bells :: "nat \<Rightarrow> (qptr \<Rightarrow> fptr list) \<Rightarrow> ('q, 'k, 'c) sched \<Rightarrow> (nat \<Rightarrow> pc) \<Rightarrow> bool" where
  "bells n V s P \<longleftrightarrow> (\<forall>j<n. \<forall>f\<in>set (V (stub_queue j)). (P j = At Hang \<or> P j = At Wait) \<and>
     fb_boundQueue (rt_fibers s f) \<noteq> None \<longrightarrow> rung s P j)"

definition counted :: "fptr set \<Rightarrow> (fptr \<Rightarrow> place) \<Rightarrow> ('q, 'k, 'c) sched \<Rightarrow> bool" where
  "counted L pl s \<longleftrightarrow> sc_total s = int (card {f \<in> L. pl f \<noteq> Fresh \<and> pl f \<noteq> Gone})"

definition winv :: "(waiter, 'q) cxx_queue \<Rightarrow> ('q \<Rightarrow> waiter list) \<Rightarrow> 'k setting \<Rightarrow> (nat \<Rightarrow> 'k \<Rightarrow> int \<rightharpoonup> int) \<Rightarrow>
    (fptr \<Rightarrow> place) \<Rightarrow> (qptr \<Rightarrow> fptr list) \<Rightarrow> ('q, 'k, 'c) sched \<Rightarrow> (nat \<Rightarrow> pc) \<Rightarrow> bool" where
  "winv Q view S interest pl V s P \<longleftrightarrow>
     qrep (stub_queue ` {..<st_threads S}) (st_fibers S) s V \<and>
     placed view (st_threads S) (st_fibers S) pl V s P \<and>
     (\<forall>f\<in>st_fibers S. place_fine (st_threads S) f (pl f) s) \<and>
     (\<forall>t. pc_fine (st_threads S) t (P t) s) \<and>
     waiters_fine (st_threads S) interest s \<and> blockers_fine Q view s \<and> bells (st_threads S) V s P \<and>
     counted (st_fibers S) pl s"

lemma winvD:
  assumes "winv Q view S interest pl V s P"
  shows "qrep (stub_queue ` {..<st_threads S}) (st_fibers S) s V"
    "placed view (st_threads S) (st_fibers S) pl V s P"
    "f \<in> st_fibers S \<Longrightarrow> place_fine (st_threads S) f (pl f) s"
    "pc_fine (st_threads S) t (P t) s"
    "waiters_fine (st_threads S) interest s" "blockers_fine Q view s" "bells (st_threads S) V s P"
    "counted (st_fibers S) pl s"
  using assms unfolding winv_def by blast+

lemma placedD:
  assumes "placed view n L pl V s P"
  shows "pl f = Queued i \<longleftrightarrow> i < n \<and> f \<in> set (V (stub_queue i))"
    "pl f = Held t \<longleftrightarrow> f \<in> set (pc_held (P t))"
    "pl f = Parked bp \<longleftrightarrow> WFiber f \<in> set (wait_view view s bp)"
    "pl f \<noteq> Fresh \<Longrightarrow> f \<in> L" "distinct (pc_held (P t))"
  using assms unfolding placed_def by blast+

text \<open>One fiber \<open>f\<close> moves to the place \<open>x\<close>; the others stay where they are.\<close>

lemma placed_move:
  assumes P: "placed view n L pl V s P"
    and V: "\<And>g i. g \<noteq> f \<Longrightarrow> i < n \<Longrightarrow> g \<in> set (V' (stub_queue i)) \<longleftrightarrow> g \<in> set (V (stub_queue i))"
    and H: "\<And>g. g \<noteq> f \<Longrightarrow> g \<in> set (pc_held p') \<longleftrightarrow> g \<in> set (pc_held (P t))"
    and B: "\<And>g bp. g \<noteq> f \<Longrightarrow> WFiber g \<in> set (wait_view view s' bp) \<longleftrightarrow> WFiber g \<in> set (wait_view view s bp)"
    and x: "\<And>i. x = Queued i \<longleftrightarrow> i < n \<and> f \<in> set (V' (stub_queue i))" "\<And>u. x = Held u \<longleftrightarrow> u = t \<and> f \<in> set (pc_held p')"
      "\<And>bp. x = Parked bp \<longleftrightarrow> WFiber f \<in> set (wait_view view s' bp)" "x \<noteq> Fresh \<Longrightarrow> f \<in> L"
    and o: "\<And>u. u \<noteq> t \<Longrightarrow> pl f \<noteq> Held u" and d: "distinct (pc_held p')"
  shows "placed view n L (pl(f := x)) V' s' (P(t := p'))"
proof -
  note p = placedD [OF P]
  have 1: "(pl(f := x)) g = Queued i \<longleftrightarrow> i < n \<and> g \<in> set (V' (stub_queue i))" for g i
    using p(1) [of g i] V [of g i] x(1) [of i] by (cases "g = f") auto
  have 2: "(pl(f := x)) g = Held u \<longleftrightarrow> g \<in> set (pc_held ((P(t := p')) u))" for g u
    using p(2) [of g u] H [of g] x(2) [of u] o [of u] by (cases "g = f"; cases "u = t") auto
  have 3: "(pl(f := x)) g = Parked bp \<longleftrightarrow> WFiber g \<in> set (wait_view view s' bp)" for g bp
    using p(3) [of g bp] B [of g bp] x(3) [of bp] by (cases "g = f") auto
  have 4: "(pl(f := x)) g \<noteq> Fresh \<longrightarrow> g \<in> L" for g
    using p(4) [of g] x(4) by (cases "g = f") auto
  have 5: "distinct (pc_held ((P(t := p')) u))" for u using p(5) [of u] d by simp
  show ?thesis unfolding placed_def using 1 2 3 4 5 by blast
qed

lemma winv_move:
  assumes I: "winv Q view S interest pl V s P"
    and q: "qrep (stub_queue ` {..<st_threads S}) (st_fibers S) s' V'"
    and pl: "placed view (st_threads S) (st_fibers S) (pl(f := x)) V' s' (P(t := p'))"
    and same: "\<And>g. g \<in> st_fibers S \<Longrightarrow> g \<noteq> f \<Longrightarrow> same_fiber g s s'" and hk: "homes_kept s s'"
    and x: "f \<in> st_fibers S \<Longrightarrow> place_fine (st_threads S) f x s'" and o: "\<And>u. u \<noteq> t \<Longrightarrow> pl f \<noteq> Held u"
    and pc: "pc_fine (st_threads S) t p' s'"
    and rest: "waiters_fine (st_threads S) interest s'" "blockers_fine Q view s'"
      "bells (st_threads S) V' s' (P(t := p'))" "counted (st_fibers S) (pl(f := x)) s'"
  shows "winv Q view S interest (pl(f := x)) V' s' (P(t := p'))"
proof -
  note p = placedD [OF winvD(2) [OF I]]
  have a: "place_fine (st_threads S) g ((pl(f := x)) g) s'" if "g \<in> st_fibers S" for g
    using place_fine_same [OF same [OF that] winvD(3) [OF I that]] x that by (cases "g = f") auto
  have b: "pc_fine (st_threads S) u ((P(t := p')) u) s'" for u
  proof (cases "u = t")
    case False
    have "same_fiber g s s'" if "g \<in> set (pc_held (P u))" for g
      using p(2) [of g u] p(4) [of g] o [OF False] that by (intro same) auto
    then have "pc_fine (st_threads S) u (P u) s'" using pc_fine_same hk winvD(4) [OF I] by blast
    then show ?thesis using False by simp
  qed (use pc in simp)
  show ?thesis unfolding winv_def using q pl a b rest by blast
qed


section \<open>Steps that move no fiber\<close>

text \<open>A state that agrees on the fibers, their nodes and queues.\<close>

definition agrees :: "('q, 'k, 'c) sched \<Rightarrow> ('q, 'k, 'c) sched \<Rightarrow> bool" where
  "agrees s s' \<longleftrightarrow> rt_fibers s' = rt_fibers s \<and> rt_nodes s' = rt_nodes s \<and> rt_queues s' = rt_queues s \<and>
     sc_total s' = sc_total s"

lemma agrees_fine:
  assumes "agrees s s'"
  shows "home i f s' \<longleftrightarrow> home i f s" "homes_kept s s'" "same_fiber f s s'" "pc_fine n t p s \<Longrightarrow> pc_fine n t p s'"
    "ready f s' \<longleftrightarrow> ready f s" "may_home i f s' \<longleftrightarrow> may_home i f s" "owns f s' \<longleftrightarrow> owns f s" "asleep n f s' \<longleftrightarrow> asleep n f s"
proof -
  show h: "home i f s' \<longleftrightarrow> home i f s" for i f using assms by (simp add: agrees_def home_def)
  show hk: "homes_kept s s'" by (simp add: homes_kept_def h)
  show sf: "same_fiber f s s'" for f using assms by (simp add: agrees_def same_fiber_def owns_def)
  show "pc_fine n t p s \<Longrightarrow> pc_fine n t p s'" using pc_fine_same sf hk by blast
  show "ready f s' \<longleftrightarrow> ready f s" "may_home i f s' \<longleftrightarrow> may_home i f s" using same_fiberD [OF sf] by simp_all
  show "owns f s' \<longleftrightarrow> owns f s" using assms by (simp add: agrees_def owns_def)
  then show "asleep n f s' \<longleftrightarrow> asleep n f s" using assms by (simp add: agrees_def asleep_def homed_def h)
qed

lemma bells_step:
  assumes b: "bells n V s P"
    and sig: "\<And>j. j \<noteq> t \<Longrightarrow> j < n \<Longrightarrow> rt_signals s (stub_waiter j) > 0 \<Longrightarrow> rt_signals s' (stub_waiter j) > 0"
    and hk: "homes_kept s s'"
    and rang: "\<And>g st l j. P t = In (SwapSignal g st) l \<Longrightarrow> home j g s \<Longrightarrow> j \<noteq> t \<Longrightarrow> j < n \<Longrightarrow>
      rt_signals s' (stub_waiter j) > 0"
    and new: "\<And>j f. j \<noteq> t \<Longrightarrow> j < n \<Longrightarrow> f \<in> set (V' (stub_queue j)) \<Longrightarrow> fb_boundQueue (rt_fibers s' f) \<noteq> None \<Longrightarrow>
      (f \<in> set (V (stub_queue j)) \<and> fb_boundQueue (rt_fibers s f) \<noteq> None) \<or>
      (\<exists>g st l. p' = In (SwapSignal g st) l \<and> home j g s')"
    and self: "\<And>f. p' = At Hang \<or> p' = At Wait \<Longrightarrow> t < n \<Longrightarrow> f \<in> set (V' (stub_queue t)) \<Longrightarrow>
      fb_boundQueue (rt_fibers s' f) \<noteq> None \<Longrightarrow> rung s' (P(t := p')) t"
  shows "bells n V' s' (P(t := p'))"
proof -
  have r: "rung s' (P(t := p')) j" if "rung s P j" "j \<noteq> t" "j < n" for j
    using that(1) unfolding rung_def
  proof
    assume "rt_signals s (stub_waiter j) > 0"
    then show "rt_signals s' (stub_waiter j) > 0 \<or> (\<exists>u g st l. u \<noteq> j \<and> (P(t := p')) u = In (SwapSignal g st) l \<and> home j g s')"
      using sig [OF that(2,3)] by blast
  next
    assume "\<exists>u g st l. u \<noteq> j \<and> P u = In (SwapSignal g st) l \<and> home j g s"
    then obtain u g st l where u: "u \<noteq> j" "P u = In (SwapSignal g st) l" "home j g s" by blast
    show "rt_signals s' (stub_waiter j) > 0 \<or> (\<exists>u g st l. u \<noteq> j \<and> (P(t := p')) u = In (SwapSignal g st) l \<and> home j g s')"
    proof (cases "u = t")
      case True
      then show ?thesis using rang u that by blast
    next
      case False
      then have "(P(t := p')) u = In (SwapSignal g st) l" "home j g s'" using u hk unfolding homes_kept_def by auto
      then show ?thesis using u(1) by blast
    qed
  qed
  show ?thesis
    unfolding bells_def
  proof (intro allI impI ballI)
    fix j f assume j: "j < n" and f: "f \<in> set (V' (stub_queue j))"
      and h: "((P(t := p')) j = At Hang \<or> (P(t := p')) j = At Wait) \<and> fb_boundQueue (rt_fibers s' f) \<noteq> None"
    show "rung s' (P(t := p')) j"
    proof (cases "j = t")
      case True
      then show ?thesis using self j f h by auto
    next
      case False
      from new [OF False j f] h
      consider "f \<in> set (V (stub_queue j))" "fb_boundQueue (rt_fibers s f) \<noteq> None"
        | g st l where "p' = In (SwapSignal g st) l" "home j g s'" by blast
      then show ?thesis
      proof cases
        case 1
        then have "rung s P j" using b j h False unfolding bells_def by auto
        then show ?thesis by (rule r [OF _ False j])
      next
        case 2
        then have "t \<noteq> j \<and> (P(t := p')) t = In (SwapSignal g st) l \<and> home j g s'" using False by simp
        then show ?thesis unfolding rung_def by blast
      qed
    qed
  qed
qed

lemma bells_quiet:
  assumes b: "bells n V s P" and a: "agrees s s'"
    and sig: "\<And>j. j \<noteq> t \<Longrightarrow> j < n \<Longrightarrow> rt_signals s (stub_waiter j) > 0 \<Longrightarrow> rt_signals s' (stub_waiter j) > 0"
    and n: "\<And>g st l. P t \<noteq> In (SwapSignal g st) l" "p' \<noteq> At Hang" "p' \<noteq> At Wait"
  shows "bells n V s' (P(t := p'))"
  by (rule bells_step [OF b sig agrees_fine(2) [OF a]]) (use n a in \<open>auto simp: agrees_def\<close>)

lemma winv_quiet:
  assumes I: "winv Q view S interest pl V s P" and a: "agrees s s'" "sc_blockers s' = sc_blockers s"
    and h: "pc_held p' = pc_held (P t)" and pc: "pc_fine (st_threads S) t p' s'"
    and w: "waiters_fine (st_threads S) interest s'" and b: "bells (st_threads S) V s' (P(t := p'))"
  shows "winv Q view S interest pl V s' (P(t := p'))"
proof -
  note d = winvD [OF I] and f = agrees_fine [OF a(1)]
  have 1: "qrep (stub_queue ` {..<st_threads S}) (st_fibers S) s' V"
    by (rule qrep_cong [OF d(1)]) (use a(1) in \<open>simp_all add: agrees_def\<close>)
  have hh: "pc_held ((P(t := p')) u) = pc_held (P u)" for u using h by simp
  have 2: "placed view (st_threads S) (st_fibers S) pl V s' (P(t := p'))"
    using d(2) unfolding placed_def hh a(2) .
  have 3: "\<forall>g\<in>st_fibers S. place_fine (st_threads S) g (pl g) s'" using place_fine_same [OF f(3)] d(3) by blast
  have 4: "\<forall>u. pc_fine (st_threads S) u ((P(t := p')) u) s'" using f(4) d(4) pc by simp
  have 5: "blockers_fine Q view s'" using d(6) unfolding blockers_fine_def a(2) .
  have 6: "counted (st_fibers S) pl s'" using d(8) a(1) by (simp add: counted_def agrees_def)
  show ?thesis unfolding winv_def using 1 2 3 4 w 5 b 6 by blast
qed

text \<open>Only the program counter changes, or the state in what the invariant does not look at.\<close>

lemma winv_skip:
  assumes I: "winv Q view S interest pl V s P" and a: "agrees s s'" "sc_blockers s' = sc_blockers s"
      "sc_waiters s' = sc_waiters s" "sc_kernel s' = sc_kernel s"
    and sig: "\<And>j. rt_signals s (stub_waiter j) > 0 \<Longrightarrow> rt_signals s' (stub_waiter j) > 0"
    and h: "pc_held p' = pc_held (P t)" and pc: "pc_fine (st_threads S) t p' s"
    and n: "\<And>g st l. P t \<noteq> In (SwapSignal g st) l" "p' \<noteq> At Hang" "p' \<noteq> At Wait"
  shows "winv Q view S interest pl V s' (P(t := p'))"
proof (rule winv_quiet [OF I a(1,2) h agrees_fine(4) [OF a(1) pc]])
  show "waiters_fine (st_threads S) interest s'" using winvD(5) [OF I] unfolding waiters_fine_def a(3,4) .
  show "bells (st_threads S) V s' (P(t := p'))" by (rule bells_quiet [OF winvD(7) [OF I] a(1) sig n])
qed

text \<open>The permits of a blocker change, or a thread leaves its queue.\<close>

lemma winv_blocker:
  assumes I: "winv Q view S interest pl V s P" and b: "blk_sem Q view b p l ws"
    and ws: "\<And>g. WFiber g \<in> set ws \<longleftrightarrow> WFiber g \<in> set (wait_view view s bp)" "distinct (filter (\<lambda>w. w \<noteq> WThread) ws)"
  shows "winv Q view S interest pl V (upd_blocker bp b s) P"
proof -
  note d = winvD [OF I]
  have a: "agrees s (upd_blocker bp b s)" by (simp add: agrees_def)
  note f = agrees_fine [OF a]
  have wv: "wait_view view (upd_blocker bp b s) bp' = (if bp' = bp then ws else wait_view view s bp')" for bp'
    using blk_semD(4) [OF b] by simp
  have 1: "qrep (stub_queue ` {..<st_threads S}) (st_fibers S) (upd_blocker bp b s) V"
    by (rule qrep_cong [OF d(1)]) simp_all
  have 2: "placed view (st_threads S) (st_fibers S) pl V (upd_blocker bp b s) P"
    using d(2) ws(1) unfolding placed_def wv by auto
  have 3: "\<forall>g\<in>st_fibers S. place_fine (st_threads S) g (pl g) (upd_blocker bp b s)" using place_fine_same [OF f(3)] d(3) by blast
  have 4: "\<forall>u. pc_fine (st_threads S) u (P u) (upd_blocker bp b s)" using f(4) d(4) by blast
  have 5: "blockers_fine Q view (upd_blocker bp b s)"
  proof -
    have "\<exists>p l ws. blk_sem Q view (sc_blockers (upd_blocker bp b s) bp') p l ws" for bp'
      using d(6) b unfolding blockers_fine_def by (cases "bp' = bp") auto
    moreover have "distinct (filter (\<lambda>w. w \<noteq> WThread) (wait_view view (upd_blocker bp b s) bp'))" for bp'
      using d(6) ws(2) unfolding blockers_fine_def wv by simp
    ultimately show ?thesis unfolding blockers_fine_def by blast
  qed
  have 6: "counted (st_fibers S) pl (upd_blocker bp b s)" using d(8) a by (simp add: counted_def agrees_def)
  have 7: "bells (st_threads S) V (upd_blocker bp b s) P" using d(7) unfolding bells_def rung_def f(1) by simp
  have 8: "waiters_fine (st_threads S) interest (upd_blocker bp b s)" using d(5) by (simp add: waiters_fine_def)
  show ?thesis unfolding winv_def using 1 2 3 4 5 6 7 8 by blast
qed


section \<open>Steps that move a fiber\<close>

abbreviation live :: "place \<Rightarrow> bool" where
  "live x \<equiv> x \<noteq> Fresh \<and> x \<noteq> Gone"

lemma counted_keep:
  assumes "counted L pl s" "live (pl f)" "live x" "sc_total s' = sc_total s"
  shows "counted L (pl(f := x)) s'"
proof -
  have "{g \<in> L. live ((pl(f := x)) g)} = {g \<in> L. live (pl g)}" using assms(2,3) by auto
  then show ?thesis using assms(1,4) by (simp add: counted_def)
qed

lemma counted_new:
  assumes "counted L pl s" "f \<in> L" "finite L" "pl f = Fresh" "live x" "sc_total s' = sc_total s + 1"
  shows "counted L (pl(f := x)) s'"
proof -
  have "{g \<in> L. live ((pl(f := x)) g)} = insert f {g \<in> L. live (pl g)}" "f \<notin> {g \<in> L. live (pl g)}"
    using assms(2,4,5) by auto
  then show ?thesis using assms(1,3,6) by (simp add: counted_def)
qed

lemma counted_gone:
  assumes "counted L pl s" "f \<in> L" "finite L" "live (pl f)" "sc_total s' = sc_total s - 1"
  shows "counted L (pl(f := Gone)) s'"
proof -
  have e: "{g \<in> L. live ((pl(f := Gone)) g)} = {g \<in> L. live (pl g)} - {f}" and m: "f \<in> {g \<in> L. live (pl g)}"
    using assms(2,4) by auto
  have "finite {g \<in> L. live (pl g)}" using assms(3) by simp
  then have "card {g \<in> L. live (pl g)} = Suc (card ({g \<in> L. live (pl g)} - {f}))" using m by (rule card.remove)
  then show ?thesis using assms(1,5) unfolding counted_def e by simp
qed

text \<open>A fiber that thread \<open>t\<close> holds.\<close>

lemma held_fiber:
  assumes I: "winv Q view S interest pl V s P" and f: "f \<in> set (pc_held (P t))"
  shows "pl f = Held t" "f \<in> st_fibers S" "\<And>i. i < st_threads S \<Longrightarrow> f \<notin> set (V (stub_queue i))"
    "\<And>bp. WFiber f \<notin> set (wait_view view s bp)" "\<And>k. k \<in> stub_queue ` {..<st_threads S} \<Longrightarrow> f \<notin> set (V k)"
proof -
  note p = placedD [OF winvD(2) [OF I]]
  show h: "pl f = Held t" using p(2) f by simp
  then show "f \<in> st_fibers S" using p(4) by auto
  show q: "f \<notin> set (V (stub_queue i))" if "i < st_threads S" for i using p(1) [of f i] h that by auto
  then show "\<And>k. k \<in> stub_queue ` {..<st_threads S} \<Longrightarrow> f \<notin> set (V k)" by auto
  show "WFiber f \<notin> set (wait_view view s bp)" for bp using p(3) [of f bp] h by auto
qed

lemma stub_queue_inj: "stub_queue i = stub_queue j \<longleftrightarrow> i = j"
  by (simp add: stub_queue_def)

lemma stub_waiter_inj: "stub_waiter i = stub_waiter j \<longleftrightarrow> i = j"
  by (simp add: stub_waiter_def)

text \<open>A fiber is added to a queue.\<close>

lemma cq_add_same:
  assumes r: "qrep K L s V" and f: "f \<in> L" "g \<in> L" "g \<noteq> f" "K \<noteq> {}"
  shows "same_fiber g s (cq_add q f s)"
proof -
  obtain k where "k \<in> K" using f(4) by blast
  then have "pk s g \<noteq> pk s f" using qrep_inj [OF r] f by (metis inj_onD)
  then show ?thesis by (simp add: same_fiber_def owns_def cq_add_fields)
qed

lemma winv_add:
  assumes I: "winv Q view S interest pl V s P" and f: "f \<in> set (pc_held (P t))" and i: "i < st_threads S"
    and r: "ready f s" "may_home i f s"
    and p': "\<And>g. g \<in> set (pc_held p') \<longleftrightarrow> g \<noteq> f \<and> g \<in> set (pc_held (P t))" "distinct (pc_held p')"
    and pc: "pc_fine (st_threads S) t p' (cq_add (stub_queue i) f s)"
    and n: "\<And>g st l. P t \<noteq> In (SwapSignal g st) l" "p' \<noteq> At Hang" "p' \<noteq> At Wait"
    and bell: "fb_boundQueue (rt_fibers s f) \<noteq> None \<Longrightarrow> i = t \<or> (\<exists>st l. p' = In (SwapSignal f st) l)"
  shows "winv Q view S interest (pl(f := Queued i)) (V(stub_queue i := V (stub_queue i) @ [f]))
     (cq_add (stub_queue i) f s) (P(t := p'))"
proof (rule winv_move [OF I])
  let ?s = "cq_add (stub_queue i) f s" and ?V = "V(stub_queue i := V (stub_queue i) @ [f])" and ?n = "st_threads S"
  note d = winvD [OF I] and h = held_fiber [OF I f]
  note m = more_eq [OF cq_add_more [of "stub_queue i" f s]]
  have fi: "rt_fibers ?s = rt_fibers s" by (simp add: cq_add_fields)
  have hk: "home j g ?s \<longleftrightarrow> home j g s" for j g by (simp add: home_def fi)
  show "qrep (stub_queue ` {..<?n}) (st_fibers S) ?s ?V"
    by (rule qrep_add [OF d(1) _ h(2)]) (use i h(5) in auto)
  show "placed view ?n (st_fibers S) (pl(f := Queued i)) ?V ?s (P(t := p'))"
  proof (rule placed_move [OF d(2)])
    show "pl f \<noteq> Held u" if "u \<noteq> t" for u using h(1) that by simp
    show "(Queued i = Queued j) \<longleftrightarrow> j < ?n \<and> f \<in> set (?V (stub_queue j))" for j
      using i h(3) [of j] by (auto simp: stub_queue_inj)
    show "(Queued i = Parked bp) \<longleftrightarrow> WFiber f \<in> set (wait_view view ?s bp)" for bp using h(4) [of bp] by (simp add: m)
  qed (use p' h in \<open>auto simp: stub_queue_inj m\<close>)
  show "same_fiber g s ?s" if "g \<in> st_fibers S" "g \<noteq> f" for g
    by (rule cq_add_same [OF d(1) h(2) that]) (use i in auto)
  show "homes_kept s ?s" by (simp add: homes_kept_def hk)
  show "place_fine ?n f (Queued i) ?s" using r by (simp add: ready_def may_home_def hk fi)
  show "pl f \<noteq> Held u" if "u \<noteq> t" for u using h(1) that by simp
  show "pc_fine ?n t p' ?s" by (rule pc)
  show "waiters_fine ?n interest ?s" using d(5) by (simp add: waiters_fine_def m)
  show "blockers_fine Q view ?s" using d(6) by (simp add: blockers_fine_def m)
  show "counted (st_fibers S) (pl(f := Queued i)) ?s" by (rule counted_keep [OF d(8)]) (simp_all add: h(1) m)
  show "bells ?n ?V ?s (P(t := p'))"
  proof (rule bells_step [OF d(7)])
    show "homes_kept s ?s" by (simp add: homes_kept_def hk)
    fix j g assume j: "j \<noteq> t" "j < ?n" "g \<in> set (?V (stub_queue j))" "fb_boundQueue (rt_fibers ?s g) \<noteq> None"
    show "g \<in> set (V (stub_queue j)) \<and> fb_boundQueue (rt_fibers s g) \<noteq> None \<or>
        (\<exists>g st l. p' = In (SwapSignal g st) l \<and> home j g ?s)"
    proof (cases "j = i \<and> g = f")
      case True
      then obtain st l where "p' = In (SwapSignal f st) l" using bell j by (auto simp: fi)
      moreover have "home j f ?s" using r(2) j(4) True by (simp add: may_home_def hk fi)
      ultimately show ?thesis by blast
    next
      case False
      then show ?thesis using j by (auto simp: stub_queue_inj fi split: if_splits)
    qed
  qed (use n in \<open>auto simp: cq_add_fields\<close>)
qed

text \<open>A fiber is taken from a queue.\<close>

lemma winv_poll:
  assumes I: "winv Q view S interest pl V s P" and t: "P t = At (Poll tot)" and V: "V (stub_queue t) = f # es"
    and tn: "t < st_threads S" and c: "cq_poll (stub_queue t) s = Some (Some f, s')"
  shows "winv Q view S interest (pl(f := Held t)) (V(stub_queue t := es)) s' (P(t := At (Got f)))"
proof (rule winv_move [OF I])
  let ?V = "V(stub_queue t := es)" and ?n = "st_threads S" and ?h = "hd_node s (stub_queue t)"
  have q: "stub_queue t \<in> stub_queue ` {..<?n}" using tn by simp
  note d = winvD [OF I] and p = placedD [OF winvD(2) [OF I]]
  have s': "s' = upd_fiber f (\<lambda>fb. fb\<lparr>fb_packing := ?h\<rparr>)
        (upd_node ?h (\<lambda>nd. nd\<lparr>nd_value := Some f\<rparr>) (upd_queue (stub_queue t) (\<lambda>c. c\<lparr>cq_head := pk s f\<rparr>) s))"
    using c cq_poll_nonempty [OF d(1) q V] by simp
  have more: "rt.more s' = rt.more s" by (simp add: s')
  note m = more_eq [OF more]
  have pf: "pl f = Queued t" using p(1) [of f t] tn V by simp
  have fL: "f \<in> st_fibers S" using p(4) pf by simp
  have fine: "ready f s" "may_home t f s" using d(3) [OF fL] pf by simp_all
  have hk: "home j g s' \<longleftrightarrow> home j g s" for j g by (simp add: home_def s')
  have rf: "ready f s'" "may_home t f s'" "owns f s'" using fine by (simp_all add: ready_def may_home_def hk owns_def, simp_all add: s')
  have nf: "f \<notin> set es" using qrep_distinct [OF d(1) q] V by simp
  have nq: "f \<notin> set (V (stub_queue j))" if "j < ?n" "j \<noteq> t" for j using p(1) [of f j] pf that by simp
  have nb: "WFiber f \<notin> set (wait_view view s bp)" for bp using p(3) [of f bp] pf by simp
  show "qrep (stub_queue ` {..<?n}) (st_fibers S) s' ?V" by (rule qrep_poll [OF d(1) q V c])
  show "placed view ?n (st_fibers S) (pl(f := Held t)) ?V s' (P(t := At (Got f)))"
  proof (rule placed_move [OF d(2)])
    show "(Held t = Queued j) \<longleftrightarrow> j < ?n \<and> f \<in> set (?V (stub_queue j))" for j
      using nf nq [of j] by (auto simp: stub_queue_inj)
    show "(g \<in> set (?V (stub_queue j))) = (g \<in> set (V (stub_queue j)))" if "g \<noteq> f" "j < ?n" for g j
      using that V by (auto simp: stub_queue_inj)
  qed (use t fL pf nb in \<open>auto simp: m\<close>)
  show "same_fiber g s s'" if "g \<in> st_fibers S" "g \<noteq> f" for g
  proof -
    have "pk s g \<noteq> ?h" using qrep_head [OF d(1) q] that(1) by (metis image_eqI)
    then show ?thesis using that by (simp add: same_fiber_def owns_def s')
  qed
  show "homes_kept s s'" by (simp add: homes_kept_def hk)
  show "place_fine ?n f (Held t) s'" using rf(1) by (auto simp: ready_def)
  show "pl f \<noteq> Held u" if "u \<noteq> t" for u using pf by simp
  show "pc_fine ?n t (At (Got f)) s'" using rf tn by simp
  show "waiters_fine ?n interest s'" using d(5) by (simp add: waiters_fine_def m)
  show "blockers_fine Q view s'" using d(6) by (simp add: blockers_fine_def m)
  show "counted (st_fibers S) (pl(f := Held t)) s'" by (rule counted_keep [OF d(8)]) (simp_all add: pf m)
  show "bells ?n ?V s' (P(t := At (Got f)))"
  proof (rule bells_step [OF d(7)])
    show "homes_kept s s'" by (simp add: homes_kept_def hk)
    fix j g assume j: "j \<noteq> t" "j < ?n" "g \<in> set (?V (stub_queue j))" "fb_boundQueue (rt_fibers s' g) \<noteq> None"
    show "g \<in> set (V (stub_queue j)) \<and> fb_boundQueue (rt_fibers s g) \<noteq> None \<or>
        (\<exists>h st l. At (Got f) = In (SwapSignal h st) l \<and> home j h s')"
      using j nq [of j] by (auto simp: stub_queue_inj s' split: if_splits)
  qed (use t in \<open>auto simp: s'\<close>)
qed


text \<open>The fields of a fiber in the hands of thread \<open>t\<close> change, and the thread keeps it.\<close>

lemma winv_change:
  assumes I: "winv Q view S interest pl V s P" and f: "f \<in> set (pc_held (P t))"
    and g: "\<And>fb. fb_packing (c fb) = fb_packing fb"
    and hk: "\<And>i. home i f s \<Longrightarrow> home i f (upd_fiber f c s)"
    and st: "fb_state (c (rt_fibers s f)) \<noteq> NEW"
    and p': "pc_held p' = pc_held (P t)" and pc: "pc_fine (st_threads S) t p' (upd_fiber f c s)"
    and n: "\<And>g st l. P t \<noteq> In (SwapSignal g st) l" "p' \<noteq> At Hang" "p' \<noteq> At Wait"
  shows "winv Q view S interest pl V (upd_fiber f c s) (P(t := p'))"
proof -
  let ?s = "upd_fiber f c s" and ?n = "st_threads S"
  note d = winvD [OF I] and h = held_fiber [OF I f]
  have e: "pl(f := Held t) = pl" using h(1) by auto
  have hks: "homes_kept s ?s"
    unfolding homes_kept_def
  proof (intro allI impI)
    fix i g' assume "home i g' s"
    then show "home i g' ?s" using hk by (cases "g' = f") (auto simp: home_def)
  qed
  have "winv Q view S interest (pl(f := Held t)) V ?s (P(t := p'))"
  proof (rule winv_move [OF I])
    show "qrep (stub_queue ` {..<?n}) (st_fibers S) ?s V" by (rule qrep_upd_fiber [OF d(1) g])
    show "placed view ?n (st_fibers S) (pl(f := Held t)) V ?s (P(t := p'))"
      by (rule placed_move [OF d(2)]) (use h f p' placedD(5) [OF d(2)] in auto)
    show "same_fiber g' s ?s" if "g' \<in> st_fibers S" "g' \<noteq> f" for g'
      using that by (simp add: same_fiber_def owns_def)
    show "homes_kept s ?s" by (rule hks)
    show "place_fine ?n f (Held t) ?s" using st by simp
    show "pl f \<noteq> Held u" if "u \<noteq> t" for u using h(1) that by simp
    show "pc_fine ?n t p' ?s" by (rule pc)
    show "waiters_fine ?n interest ?s" using d(5) by (simp add: waiters_fine_def)
    show "blockers_fine Q view ?s" using d(6) by (simp add: blockers_fine_def)
    show "counted (st_fibers S) (pl(f := Held t)) ?s" by (rule counted_keep [OF d(8)]) (simp_all add: h(1))
    show "bells ?n V ?s (P(t := p'))"
      by (rule bells_step [OF d(7) _ hks]) (use n h(3) in \<open>auto split: if_splits\<close>)
  qed
  then show ?thesis by (simp only: e)
qed

text \<open>A fiber that thread \<open>t\<close> held goes to the queue of a blocker.\<close>

lemma winv_park:
  assumes I: "winv Q view S interest pl V s P" and t: "P t = At (After f)"
    and b: "blk_sem Q view b p l (wait_view view s bp @ [WFiber f])" and f: "fb_state (rt_fibers s f) = BLOCKED"
  shows "winv Q view S interest (pl(f := Parked bp)) V (upd_blocker bp b s) (P(t := At Top))"
proof -
  let ?s = "upd_blocker bp b s" and ?n = "st_threads S"
  have fh: "f \<in> set (pc_held (P t))" using t by simp
  note d = winvD [OF I] and h = held_fiber [OF I fh]
  have tn: "t < ?n" and fine: "owns f s" "home t f s" using d(4) [of t] t by auto
  have a: "agrees s ?s" by (simp add: agrees_def)
  have wv: "wait_view view ?s bp' = (if bp' = bp then wait_view view s bp @ [WFiber f] else wait_view view s bp')" for bp'
    using blk_semD(4) [OF b] by simp
  show ?thesis
  proof (rule winv_move [OF I])
    show "qrep (stub_queue ` {..<?n}) (st_fibers S) ?s V" by (rule qrep_cong [OF d(1)]) simp_all
    show "placed view ?n (st_fibers S) (pl(f := Parked bp)) V ?s (P(t := At Top))"
    proof (rule placed_move [OF d(2)])
      show "(Parked bp = Queued i) \<longleftrightarrow> i < ?n \<and> f \<in> set (V (stub_queue i))" for i using h(3) [of i] by auto
      show "(Parked bp = Parked bp') \<longleftrightarrow> WFiber f \<in> set (wait_view view ?s bp')" for bp'
        using h(4) [of bp'] unfolding wv by auto
      show "(WFiber g \<in> set (wait_view view ?s bp')) = (WFiber g \<in> set (wait_view view s bp'))" if "g \<noteq> f" for g bp'
        using that unfolding wv by auto
      show "pl f \<noteq> Held u" if "u \<noteq> t" for u using h(1) that by simp
    qed (use t h(2) in auto)
    show "same_fiber g s ?s" for g using agrees_fine(3) [OF a] .
    show "homes_kept s ?s" by (rule agrees_fine(2) [OF a])
    show "place_fine ?n f (Parked bp) ?s"
      using agrees_fine(8) [OF a, of ?n f] f fine tn by (auto simp: asleep_def homed_def)
    show "pl f \<noteq> Held u" if "u \<noteq> t" for u using h(1) that by simp
    show "pc_fine ?n t (At Top) ?s" using tn by simp
    show "waiters_fine ?n interest ?s" using d(5) by (simp add: waiters_fine_def)
    show "blockers_fine Q view ?s"
    proof -
      have "\<exists>p l ws. blk_sem Q view (sc_blockers ?s bp') p l ws" for bp'
        using d(6) b unfolding blockers_fine_def by (cases "bp' = bp") auto
      moreover have "distinct (filter (\<lambda>w. w \<noteq> WThread) (wait_view view ?s bp'))" for bp'
        using d(6) h(4) [of bp'] unfolding blockers_fine_def wv by auto
      ultimately show ?thesis unfolding blockers_fine_def by blast
    qed
    show "counted (st_fibers S) (pl(f := Parked bp)) ?s" by (rule counted_keep [OF d(8)]) (simp_all add: h(1))
    show "bells ?n V ?s (P(t := At Top))" by (rule bells_quiet [OF d(7) a]) (use t in auto)
  qed
qed

text \<open>The first fiber of the queue of a blocker is taken by the thread that wakes it.\<close>

lemma winv_unpark:
  assumes I: "winv Q view S interest pl V s P" and t: "P t = In (WakeLock bp) lp"
    and v: "wait_view view s bp = WFiber f # ws" and b: "blk_sem Q view b p l ws"
  shows "winv Q view S interest (pl(f := Held t)) V (upd_blocker bp b s) (P(t := In (SwapRead f) lp))"
proof -
  let ?s = "upd_blocker bp b s" and ?n = "st_threads S"
  note d = winvD [OF I] and pd = placedD [OF winvD(2) [OF I]]
  have pf: "pl f = Parked bp" using pd(3) v by simp
  have fL: "f \<in> st_fibers S" using pd(4) pf by simp
  have fine: "asleep ?n f s" using d(3) [OF fL] pf by simp
  have a: "agrees s ?s" by (simp add: agrees_def)
  have wv: "wait_view view ?s bp' = (if bp' = bp then ws else wait_view view s bp')" for bp'
    using blk_semD(4) [OF b] by simp
  have dw: "WFiber f \<notin> set ws"
  proof -
    have "distinct (filter (\<lambda>w. w \<noteq> WThread) (wait_view view s bp))" using d(6) unfolding blockers_fine_def by blast
    then show ?thesis unfolding v by simp
  qed
  have lp: "pc_held (P t) = loop_held lp" using t by simp
  have nh: "f \<notin> set (loop_held lp)" using pd(2) [of f t] pf lp by simp
  have op: "WFiber f \<notin> set (wait_view view s bp')" if "bp' \<noteq> bp" for bp' using pd(3) [of f bp'] pf that by simp
  show ?thesis
  proof (rule winv_move [OF I])
    show "qrep (stub_queue ` {..<?n}) (st_fibers S) ?s V" by (rule qrep_cong [OF d(1)]) simp_all
    show "placed view ?n (st_fibers S) (pl(f := Held t)) V ?s (P(t := In (SwapRead f) lp))"
    proof (rule placed_move [OF d(2)])
      show "(Held t = Queued i) \<longleftrightarrow> i < ?n \<and> f \<in> set (V (stub_queue i))" for i using pd(1) [of f i] pf by simp
      show "(Held t = Parked bp') \<longleftrightarrow> WFiber f \<in> set (wait_view view ?s bp')" for bp'
        using dw op [of bp'] unfolding wv by auto
      show "(WFiber g \<in> set (wait_view view ?s bp')) = (WFiber g \<in> set (wait_view view s bp'))" if "g \<noteq> f" for g bp'
        using that v unfolding wv by auto
      show "distinct (pc_held (In (SwapRead f) lp))" using pd(5) [of t] lp nh by simp
    qed (use lp fL pf in auto)
    show "same_fiber g s ?s" for g using agrees_fine(3) [OF a] .
    show "homes_kept s ?s" by (rule agrees_fine(2) [OF a])
    show "place_fine ?n f (Held t) ?s" using fine by (simp add: asleep_def)
    show "pl f \<noteq> Held u" for u using pf by simp
    show "pc_fine ?n t (In (SwapRead f) lp) ?s"
      using agrees_fine(8) [OF a, of ?n f] fine agrees_fine(4) [OF a d(4) [of t]] t by simp
    show "waiters_fine ?n interest ?s" using d(5) by (simp add: waiters_fine_def)
    show "blockers_fine Q view ?s"
    proof -
      have "\<exists>p l ws. blk_sem Q view (sc_blockers ?s bp') p l ws" for bp'
        using d(6) b unfolding blockers_fine_def by (cases "bp' = bp") auto
      moreover have "distinct (filter (\<lambda>w. w \<noteq> WThread) (wait_view view ?s bp'))" for bp'
      proof -
        have "distinct (filter (\<lambda>w. w \<noteq> WThread) (wait_view view s bp'))" for bp' using d(6) unfolding blockers_fine_def by blast
        from this [of bp'] this [of bp] show ?thesis unfolding wv v by auto
      qed
      ultimately show ?thesis unfolding blockers_fine_def by blast
    qed
    show "counted (st_fibers S) (pl(f := Held t)) ?s" by (rule counted_keep [OF d(8)]) (simp_all add: pf)
    show "bells ?n V ?s (P(t := In (SwapRead f) lp))" by (rule bells_quiet [OF d(7) a]) (use t in auto)
  qed
qed

end
