(* ===== verification/Threads_Safe.thy ===== *)
theory Threads_Safe
  imports Threads_Inv Scheduler_Start
begin

text \<open>
  Every step of every thread keeps the invariant, and no thread follows a null pointer or leaves an array.
\<close>

section \<open>The setting\<close>

text \<open>
  At least one thread and finitely many fibers; the kernel behaves, and what it keeps for the io waiter of
  one thread is not touched by the calls of another; a balance callback gives an index of a thread.
\<close>

definition setting_ok :: "'k setting \<Rightarrow> (waiter, 'q) cxx_queue \<Rightarrow> ('q \<Rightarrow> waiter list) \<Rightarrow>
    (nat \<Rightarrow> 'k \<Rightarrow> int \<rightharpoonup> int) \<Rightarrow> (nat \<Rightarrow> 'k \<Rightarrow> int) \<Rightarrow> bool" where
  "setting_ok S Q view interest clk \<longleftrightarrow> 0 < st_threads S \<and> finite (st_fibers S) \<and> cxx_fifo Q view \<and>
     (\<forall>t < st_threads S. os_ok (st_os S t) (interest t) (clk t) \<and> (\<forall>u. u \<noteq> t \<longrightarrow> calls_keep (st_os S t) (interest u))) \<and>
     (\<forall>g f m. st_balance S = Some g \<longrightarrow> 0 \<le> g f m \<and> g f m < int (st_threads S))"

lemma setting_okD:
  assumes "setting_ok S Q view interest clk"
  shows "0 < st_threads S" "finite (st_fibers S)" "cxx_fifo Q view" "t < st_threads S \<Longrightarrow> os_ok (st_os S t) (interest t) (clk t)"
    "t < st_threads S \<Longrightarrow> u \<noteq> t \<Longrightarrow> calls_keep (st_os S t) (interest u)"
    "st_balance S = Some g \<Longrightarrow> 0 \<le> g f m \<and> g f m < int (st_threads S)"
  using assms unfolding setting_ok_def by blast+

text \<open>The invariant, with the places and the contents of the queues hidden.\<close>

definition safe :: "(waiter, 'q) cxx_queue \<Rightarrow> ('q \<Rightarrow> waiter list) \<Rightarrow> 'k setting \<Rightarrow> (nat \<Rightarrow> 'k \<Rightarrow> int \<rightharpoonup> int) \<Rightarrow>
    ('q, 'k, 'c) sched \<Rightarrow> (nat \<Rightarrow> pc) \<Rightarrow> bool" where
  "safe Q view S interest s P \<longleftrightarrow> (\<exists>pl V. winv Q view S interest pl V s P)"

lemma safeI: "winv Q view S interest pl V s P \<Longrightarrow> safe Q view S interest s P"
  unfolding safe_def by blast

lemma safeE:
  assumes "safe Q view S interest s P"
  obtains pl V where "winv Q view S interest pl V s P"
  using assms unfolding safe_def by blast

section \<open>The steps of the library calls\<close>

lemma winv_blk:
  assumes "winv Q view S interest pl V s P"
  obtains p l where "blk_sem Q view (sc_blockers s bp) p l (wait_view view s bp)"
    "distinct (filter (\<lambda>w. w \<noteq> WThread) (wait_view view s bp))"
proof -
  obtain p l ws where "blk_sem Q view (sc_blockers s bp) p l ws"
    using winvD(6) [OF assms] unfolding blockers_fine_def by blast
  moreover have "distinct (filter (\<lambda>w. w \<noteq> WThread) (wait_view view s bp))"
    using winvD(6) [OF assms] unfolding blockers_fine_def by blast
  ultimately show ?thesis using that blk_semD(4) by metis
qed

lemma back_fine:
  assumes "winv Q view S interest pl V s P" "P t = In b l"
  shows "loop_fine t l s" "l = Outside \<or> t < st_threads S" "makes_calls l" "lib_fine (st_threads S) b s"
  using winvD(4) [OF assms(1), of t] assms(2) by simp_all

lemma bells_skip:
  assumes "winv Q view S interest pl V s P" "P t = In b l" "makes_calls l"
  shows "At l \<noteq> At Hang" "At l \<noteq> At Wait"
  using assms(3) by auto

lemma WakeLock_step:
  assumes ok: "setting_ok S Q view interest clk" and I: "winv Q view S interest pl V s P" and t: "P t = In (WakeLock bp) l"
  shows "\<exists>r s'. lib_step Q (thread_id t) (WakeLock bp) s = Some (r, s') \<and>
     safe Q view S interest s' (P(t := (case r of None \<Rightarrow> At l | Some b \<Rightarrow> In b l)))"
proof -
  obtain p lm where b: "blk_sem Q view (sc_blockers s bp) p lm (wait_view view s bp)"
      and dis: "distinct (filter (\<lambda>w. w \<noteq> WThread) (wait_view view s bp))" using winv_blk [OF I] by metis
  note bk = back_fine [OF I t]
  have ret: "safe Q view S interest s' (P(t := At l))" if "winv Q view S interest pl V s' P" for s'
  proof (rule safeI, rule winv_skip [OF that])
    show "agrees s' s'" by (simp add: agrees_def)
    show "pc_fine (st_threads S) t (At l) s'" using winvD(4) [OF that, of t] t by simp
  qed (use t bk(3) in auto)
  show ?thesis
  proof (cases "wait_view view s bp")
    case Nil
    obtain b' where b': "EFiberBlocker_post Q (sc_blockers s bp) = ((p < lm, None), b')"
        "blk_sem Q view b' (if p < lm then p + 1 else p) lm []" using post_none b Nil by fastforce
    have "winv Q view S interest pl V (upd_blocker bp b' s) P" by (rule winv_blocker [OF I b'(2)]) (simp_all add: Nil)
    then show ?thesis using ret b'(1) by simp
  next
    case (Cons w ws)
    obtain b' where b': "EFiberBlocker_post Q (sc_blockers s bp) = ((True, Some w), b')" "blk_sem Q view b' p lm ws"
      using post_first b Cons by fastforce
    show ?thesis
    proof (cases w)
      case (WFiber f)
      have "winv Q view S interest (pl(f := Held t)) V (upd_blocker bp b' s) (P(t := In (SwapRead f) l))"
        by (rule winv_unpark [OF I t Cons [unfolded WFiber] b'(2)])
      then show ?thesis using b'(1) WFiber by (auto intro: safeI)
    next
      case WThread
      have "winv Q view S interest pl V (upd_blocker bp b' s) P"
        by (rule winv_blocker [OF I b'(2)]) (use dis in \<open>simp_all add: Cons WThread\<close>)
      then show ?thesis using ret b'(1) WThread by simp
    qed
  qed
qed

lemma asleepD:
  assumes "asleep n f s"
  shows "fb_state (rt_fibers s f) = BLOCKED" "owns f s" "homed n f s"
  using assms by (simp_all add: asleep_def)

lemma lib_step_safe:
  assumes ok: "setting_ok S Q view interest clk" and I: "winv Q view S interest pl V s P" and t: "P t = In b l"
  shows "\<exists>r s'. lib_step Q (thread_id t) b s = Some (r, s') \<and>
     safe Q view S interest s' (P(t := (case r of None \<Rightarrow> At l | Some b \<Rightarrow> In b l)))"
proof -
  let ?n = "st_threads S"
  note bk = back_fine [OF I t] and d = winvD [OF I]
  have ag: "agrees s s" by (simp add: agrees_def)
  have nt: "At l \<noteq> At Hang" "At l \<noteq> At Wait" using bk(3) by auto
  show ?thesis
  proof (cases b)
    case (WakeLock bp)
    then show ?thesis using WakeLock_step [OF ok I] t by simp
  next
    case (SwapRead f)
    have fine: "asleep ?n f s" using bk(4) SwapRead by simp
    have "winv Q view S interest pl V s (P(t := In (SwapTest f BLOCKED) l))"
      by (rule winv_skip [OF I ag]) (use t bk fine SwapRead in \<open>auto simp: asleepD\<close>)
    then show ?thesis using SwapRead asleepD(1) [OF fine] by (auto intro: safeI)
  next
    case (SwapTest f st)
    have fine: "asleep ?n f s" "st = BLOCKED" using bk(4) SwapTest by simp_all
    have "winv Q view S interest pl V s (P(t := In (SwapSet f st) l))"
      by (rule winv_skip [OF I ag]) (use t bk fine SwapTest in auto)
    then show ?thesis using SwapTest asleepD(1) [OF fine(1)] by (auto intro: safeI)
  next
    case (SwapSet f st)
    have fine: "asleep ?n f s" "st = BLOCKED" using bk(4) SwapSet by simp_all
    have nl: "f \<notin> set (loop_held l)" using placedD(5) [OF d(2), of t] t SwapSet by simp
    define c where "c fb = fb\<lparr>fb_blocker := None, fb_state := RUNNABLE\<rparr>" for fb :: fiber
    have e: "EFiber_setState f RUNNABLE (upd_fiber f (\<lambda>fb. fb\<lparr>fb_blocker := None\<rparr>) s) = upd_fiber f c s"
      by (simp add: EFiber_setState_def upd_fiber_def c_def)
    have hm: "home i g (upd_fiber f c s) \<longleftrightarrow> home i g s" for i g by (simp add: home_def c_def)
    have sf: "same_fiber g s (upd_fiber f c s)" if "g \<noteq> f" for g using that by (simp add: same_fiber_def owns_def)
    have lf: "loop_fine t l (upd_fiber f c s)" by (rule loop_fine_same [OF sf bk(1)]) (use nl in auto)
    have "winv Q view S interest pl V (upd_fiber f c s) (P(t := In (SwapAdd f st) l))"
    proof (rule winv_change [OF I])
      show "pc_fine ?n t (In (SwapAdd f st) l) (upd_fiber f c s)"
        using fine bk(2,3) lf asleepD(2,3) [OF fine(1)] by (simp add: homed_def hm, simp add: owns_def c_def)
    qed (use t SwapSet in \<open>auto simp: hm, simp_all add: c_def\<close>)
    then show ?thesis using SwapSet e by (auto intro: safeI)
  next
    case (SwapAdd f st)
    have fine: "st = BLOCKED" "fb_state (rt_fibers s f) = RUNNABLE" "owns f s" "homed ?n f s" using bk(4) SwapAdd by simp_all
    obtain i where i: "i < ?n" "home i f s" using fine(4) unfolding homed_def by blast
    let ?s = "cq_add (stub_queue i) f s"
    have fh: "f \<in> set (pc_held (P t))" and nl: "f \<notin> set (loop_held l)"
      using placedD(5) [OF d(2), of t] t SwapAdd by simp_all
    have qq: "qrep (stub_queue ` {..<?n}) (st_fibers S) s V" by (rule d(1))
    have sf: "same_fiber g s ?s" if "g \<in> set (loop_held l)" for g
    proof (rule cq_add_same [OF qq])
      show "f \<in> st_fibers S" using held_fiber(2) [OF I fh] .
      show "g \<in> st_fibers S" by (rule held_fiber(2) [OF I, of g t]) (use t that in simp)
      show "g \<noteq> f" using that nl by auto
    qed (use i in auto)
    have hm: "home j g ?s \<longleftrightarrow> home j g s" for j g by (simp add: home_def cq_add_fields)
    have "winv Q view S interest (pl(f := Queued i)) (V(stub_queue i := V (stub_queue i) @ [f])) ?s (P(t := In (SwapSignal f st) l))"
    proof (rule winv_add [OF I fh i(1)])
      show "pc_fine ?n t (In (SwapSignal f st) l) ?s"
        using fine(1) i bk(2,3) loop_fine_same [OF sf bk(1)] by (auto simp: homed_def hm)
    qed (use t SwapAdd nl fine i placedD(5) [OF d(2), of t] in \<open>auto simp: ready_def may_home_def\<close>)
    moreover have "lib_step Q (thread_id t) b s = Some (Some (SwapSignal f st), ?s)"
      using SwapAdd i(2) fine(3) by (simp add: home_def owns_def)
    ultimately show ?thesis by (auto intro: safeI)
  next
    case (SwapSignal f st)
    have fine: "st = BLOCKED" "homed ?n f s" using bk(4) SwapSignal by simp_all
    obtain i where i: "i < ?n" "home i f s" using fine(2) unfolding homed_def by blast
    have hi: "j = i" if "home j f s" for j using that i(2) by (simp add: home_def stub_queue_def)
    show ?thesis
    proof (cases "t = i")
      case True
      have "winv Q view S interest pl V s (P(t := At l))"
      proof (rule winv_quiet [OF I ag])
        show "bells ?n V s (P(t := At l))"
        proof (rule bells_step [OF d(7)])
          fix g st' l' j assume "P t = In (SwapSignal g st') l'" "home j g s" "j \<noteq> t"
          then show "rt_signals s (stub_waiter j) > 0" using t SwapSignal hi [of j] True by simp
        qed (use nt in \<open>auto simp: homes_kept_def\<close>)
      qed (use t SwapSignal bk d(5) in auto)
      moreover have "lib_step Q (thread_id t) b s = Some (None, s)"
        using SwapSignal i(2) True by (simp add: home_def)
      ultimately show ?thesis by (auto intro: safeI)
    next
      case False
      let ?s = "EIoWaiter_signal (stub_waiter i) s"
      have more: "rt.more ?s = rt.more s" by simp
      note m = more_eq [OF more]
      have a: "agrees s ?s" using m by (simp add: agrees_def)
      have "winv Q view S interest pl V ?s (P(t := At l))"
      proof (rule winv_quiet [OF I a])
        show "bells ?n V ?s (P(t := At l))"
        proof (rule bells_step [OF d(7) _ agrees_fine(2) [OF a]])
          fix g st' l' j assume "P t = In (SwapSignal g st') l'" "home j g s" "j \<noteq> t"
          then show "rt_signals ?s (stub_waiter j) > 0" using t SwapSignal hi [of j] by simp
        qed (use nt in auto)
        show "pc_fine ?n t (At l) ?s" by (rule agrees_fine(4) [OF a]) (use bk in simp)
        show "waiters_fine ?n interest ?s" using d(5) by (simp add: waiters_fine_def m)
      qed (use t SwapSignal m in auto)
      moreover have "lib_step Q (thread_id t) b s = Some (None, ?s)"
        using SwapSignal i(2) False fine(1) by (simp add: home_def thread_id_def)
      ultimately show ?thesis by (auto intro: safeI)
    qed
  next
    case (SchedAdd f i)
    have fine: "i < ?n" "fb_state (rt_fibers s f) = RUNNABLE" "fb_boundQueue (rt_fibers s f) = None"
      using bk(4) SchedAdd by simp_all
    let ?s = "cq_add (stub_queue i) f s"
    have fh: "f \<in> set (pc_held (P t))" and nl: "f \<notin> set (loop_held l)"
      using placedD(5) [OF d(2), of t] t SchedAdd by simp_all
    have sf: "same_fiber g s ?s" if "g \<in> set (loop_held l)" for g
    proof (rule cq_add_same [OF d(1)])
      show "f \<in> st_fibers S" using held_fiber(2) [OF I fh] .
      show "g \<in> st_fibers S" by (rule held_fiber(2) [OF I, of g t]) (use t that in simp)
      show "g \<noteq> f" using that nl by auto
    qed (use fine(1) in auto)
    have "winv Q view S interest (pl(f := Queued i)) (V(stub_queue i := V (stub_queue i) @ [f])) ?s (P(t := In (SchedHung i) l))"
    proof (rule winv_add [OF I fh fine(1)])
      show "pc_fine ?n t (In (SchedHung i) l) ?s"
        using fine(1) bk(2,3) loop_fine_same [OF sf bk(1)] by auto
    qed (use t SchedAdd nl fine placedD(5) [OF d(2), of t] in \<open>auto simp: ready_def may_home_def\<close>)
    then show ?thesis using SchedAdd by (auto intro: safeI)
  next
    case (SchedHung i)
    have "winv Q view S interest pl V s (P(t := (case map_option SchedSignal (sc_hung s i) of None \<Rightarrow> At l | Some b \<Rightarrow> In b l)))"
      by (rule winv_skip [OF I ag]) (use t bk nt SchedHung in \<open>auto split: option.splits\<close>)
    then show ?thesis using SchedHung by (auto intro: safeI)
  next
    case (SchedSignal w)
    let ?s = "EIoWaiter_signal w s"
    have more: "rt.more ?s = rt.more s" by simp
    note m = more_eq [OF more]
    have "winv Q view S interest pl V ?s (P(t := At l))"
      by (rule winv_skip [OF I]) (use t bk nt SchedSignal m in \<open>auto simp: agrees_def\<close>)
    then show ?thesis using SchedSignal by (auto intro: safeI)
  qed
qed


section \<open>The steps of the loop\<close>

lemma at_fine:
  assumes "winv Q view S interest pl V s P" "P t = At l" "l \<noteq> Outside"
  shows "loop_fine t l s" "t < st_threads S"
  using winvD(4) [OF assms(1), of t] assms(2,3) by simp_all

lemma round_safe:
  assumes ok: "setting_ok S Q view interest clk" and I: "winv Q view S interest pl V s P" and t: "t < st_threads S"
    and n: "P t = At l" "p' \<noteq> At Hang" "p' \<noteq> At Wait" "pc_held p' = loop_held l" "pc_fine (st_threads S) t p' s"
  shows "\<exists>s'. io_round (st_os S t) (thread_id t) (stub_waiter t) timeout s = Some s' \<and>
     winv Q view S interest pl V s' (P(t := p'))"
proof -
  note d = winvD [OF I]
  let ?w = "stub_waiter t"
  have w: "waiter_ok {} (sc_waiters s ?w)" "synced (interest t) (iw_poll (sc_waiters s ?w)) (sc_kernel s)"
    using d(5) t unfolding waiters_fine_def by blast+
  obtain m iw' k' x where r: "EIoWaiter_onceProcessEvents (st_os S t) (thread_id t) ?w timeout (sc_waiters s ?w) (sc_kernel s) s =
       Some (m, iw', k', s\<lparr>rt_signals := (rt_signals s)(?w := x)\<rparr>)"
     "waiter_ok {} iw'" "synced (interest t) (iw_poll iw') k'"
    using pipe_round [OF setting_okD(4) [OF ok t] w] by blast
  define s' where "s' = (upd_waiter ?w iw' (s\<lparr>rt_signals := (rt_signals s)(?w := x)\<rparr>))\<lparr>sc_kernel := k'\<rparr>"
  have io: "io_round (st_os S t) (thread_id t) ?w timeout s = Some s'" by (simp add: io_round_def r(1) s'_def)
  have a: "agrees s s'" by (simp add: agrees_def s'_def upd_waiter_def)
  have k: "interest u k' = interest u (sc_kernel s)" if "u \<noteq> t" for u
    using round_keeps [OF setting_okD(5) [OF ok t that] r(1)] .
  have ws: "sc_waiters s' = (sc_waiters s)(?w := iw')" "sc_kernel s' = k'" by (simp_all add: s'_def)
  have "winv Q view S interest pl V s' (P(t := p'))"
  proof (rule winv_quiet [OF I a])
    show "bells (st_threads S) V s' (P(t := p'))"
      by (rule bells_quiet [OF d(7) a]) (use n in \<open>auto simp: s'_def stub_waiter_inj\<close>)
    show "waiters_fine (st_threads S) interest s'"
      unfolding waiters_fine_def
    proof (intro allI impI)
      fix u assume u: "u < st_threads S"
      show "waiter_ok {} (sc_waiters s' (stub_waiter u)) \<and> synced (interest u) (iw_poll (sc_waiters s' (stub_waiter u))) (sc_kernel s')"
      proof (cases "u = t")
        case True
        then show ?thesis using r(2,3) by (simp add: ws)
      next
        case False
        have o: "waiter_ok {} (sc_waiters s (stub_waiter u))"
          and y: "synced (interest u) (iw_poll (sc_waiters s (stub_waiter u))) (sc_kernel s)"
          using d(5) u unfolding waiters_fine_def by blast+
        have "synced (interest u) (iw_poll (sc_waiters s (stub_waiter u))) k'" using y unfolding synced_def k [OF False] .
        then show ?thesis using o False by (simp add: ws stub_waiter_inj)
      qed
    qed
    show "pc_fine (st_threads S) t p' s'" by (rule agrees_fine(4) [OF a n(5)])
  qed (use n in \<open>simp_all add: s'_def\<close>)
  then show ?thesis using io by blast
qed

lemma wake_others_signals:
  "rt_fibers (wake_others n i s) = rt_fibers s" "rt_nodes (wake_others n i s) = rt_nodes s"
  "rt_queues (wake_others n i s) = rt_queues s" "rt.more (wake_others n i s) = rt.more s"
  "rt_signals s w > 0 \<Longrightarrow> rt_signals (wake_others n i s) w > 0"
proof -
  have f: "rt_fibers (fold (\<lambda>j s. if j \<noteq> i then EIoWaiter_signal (stub_waiter j) s else s) js s) = rt_fibers s \<and>
      rt_nodes (fold (\<lambda>j s. if j \<noteq> i then EIoWaiter_signal (stub_waiter j) s else s) js s) = rt_nodes s \<and>
      rt_queues (fold (\<lambda>j s. if j \<noteq> i then EIoWaiter_signal (stub_waiter j) s else s) js s) = rt_queues s \<and>
      rt.more (fold (\<lambda>j s. if j \<noteq> i then EIoWaiter_signal (stub_waiter j) s else s) js s) = rt.more s \<and>
      (rt_signals s w > 0 \<longrightarrow> rt_signals (fold (\<lambda>j s. if j \<noteq> i then EIoWaiter_signal (stub_waiter j) s else s) js s) w > 0)"
    for js and s :: "('q, 'k, 'c) sched"
    by (induction js arbitrary: s) auto
  show "rt_fibers (wake_others n i s) = rt_fibers s" "rt_nodes (wake_others n i s) = rt_nodes s"
    "rt_queues (wake_others n i s) = rt_queues s" "rt.more (wake_others n i s) = rt.more s"
      "rt_signals s w > 0 \<Longrightarrow> rt_signals (wake_others n i s) w > 0"
    unfolding wake_others_def using f [of "[0..<n]" s] by blast+
qed

lemma bound_again:
  assumes "fb_boundQueue fb = Some q"
  shows "fb\<lparr>fb_threadIndex := j, fb_boundQueue := Some q, fb_boundThreadID := t, fb_iowaiter := Some w\<rparr> =
     fb\<lparr>fb_threadIndex := j, fb_boundThreadID := t, fb_iowaiter := Some w\<rparr>"
  using assms by (cases fb) simp

lemma bind_fiber_one:
  "bind_fiber q t w f (EFiber_setThreadIndex f j s) = upd_fiber f (\<lambda>fb. fb\<lparr>fb_threadIndex := j,
     fb_boundQueue := Some (case fb_boundQueue fb of None \<Rightarrow> q | Some q' \<Rightarrow> q'), fb_boundThreadID := t, fb_iowaiter := Some w\<rparr>) s"
proof (cases "fb_boundQueue (rt_fibers s f)")
  case None
  then show ?thesis
    by (simp add: bind_fiber_def EFiber_setThreadIndex_def EFiber_setIoWaiter_def upd_fiber_def Let_def)
next
  case (Some q')
  then show ?thesis
    by (simp add: bind_fiber_def EFiber_setThreadIndex_def EFiber_setIoWaiter_def upd_fiber_def Let_def bound_again [OF Some])
qed

lemma Bind_safe:
  assumes I: "winv Q view S interest pl V s P" and t: "P t = At (Bind f)"
  shows "winv Q view S interest pl V (bind_fiber (stub_queue t) (thread_id t) (stub_waiter t) f (EFiber_setThreadIndex f (int t) s))
     (P(t := At (Run f)))"
  unfolding bind_fiber_one
proof (rule winv_change [OF I])
  let ?c = "\<lambda>fb :: fiber. fb\<lparr>fb_threadIndex := int t, fb_boundQueue := Some (case fb_boundQueue fb of None \<Rightarrow> stub_queue t | Some q' \<Rightarrow> q'),
      fb_boundThreadID := thread_id t, fb_iowaiter := Some (stub_waiter t)\<rparr>"
  have fine: "ready f s" "owns f s" "may_home t f s" "t < st_threads S" using at_fine [OF I t] by simp_all
  have hm: "home t f (upd_fiber f ?c s)"
    using fine(3) by (auto simp: home_def may_home_def split: option.splits)
  show "home i f (upd_fiber f ?c s)" if "home i f s" for i
  proof -
    have "home t f s" using that fine(3) by (simp add: home_def may_home_def)
    then have "i = t" using that by (simp add: home_def stub_queue_def)
    then show ?thesis using hm by simp
  qed
  show "pc_fine (st_threads S) t (At (Run f)) (upd_fiber f ?c s)"
    using fine hm by (simp add: ready_def owns_def)
qed (use at_fine(1) [OF I t] t in \<open>auto simp: ready_def\<close>)


lemma After_safe:
  assumes ok: "setting_ok S Q view interest clk" and I: "winv Q view S interest pl V s P" and t: "P t = At (After f)"
  shows "\<exists>s'. after_run Q (stub_queue t) f s = Some s' \<and> safe Q view S interest s' (P(t := At Top))"
proof -
  let ?n = "st_threads S"
  have fh: "f \<in> set (pc_held (P t))" using t by simp
  note d = winvD [OF I] and h = held_fiber [OF I fh]
  have fine: "ready f s \<or> fb_state (rt_fibers s f) = TERMINATED" "owns f s" "home t f s" "t < ?n" using at_fine [OF I t] by simp_all
  have add: "\<exists>s'. Some (cq_add (stub_queue t) f s1) = Some s' \<and> safe Q view S interest s' (P(t := At Top))"
    if I1: "winv Q view S interest pl V s1 P" and r: "ready f s1" "home t f s1" for s1
  proof -
    have "winv Q view S interest (pl(f := Queued t)) (V(stub_queue t := V (stub_queue t) @ [f])) (cq_add (stub_queue t) f s1) (P(t := At Top))"
      by (rule winv_add [OF I1 fh fine(4) r(1)]) (use t r fine(4) in \<open>auto simp: may_home_def\<close>)
    then show ?thesis by (auto intro: safeI)
  qed
  show ?thesis
  proof (cases "fb_state (rt_fibers s f)")
    case RUNNABLE
    then show ?thesis using add [OF I] fine by (auto simp: after_run_def ready_def)
  next
    case TERMINATED
    let ?s = "s\<lparr>sc_total := sc_total s - 1\<rparr>"
    have sf: "same_fiber g s ?s" for g by (simp add: same_fiber_def owns_def)
    have hk: "homes_kept s ?s" by (simp add: homes_kept_def home_def)
    have "winv Q view S interest (pl(f := Gone)) V ?s (P(t := At Top))"
    proof (rule winv_move [OF I])
      show "qrep (stub_queue ` {..<?n}) (st_fibers S) ?s V" by (rule qrep_cong [OF d(1)]) simp_all
      show "placed view ?n (st_fibers S) (pl(f := Gone)) V ?s (P(t := At Top))"
      proof (rule placed_move [OF d(2)])
        show "(Gone = Queued i) \<longleftrightarrow> i < ?n \<and> f \<in> set (V (stub_queue i))" for i using h(3) [of i] by auto
        show "pl f \<noteq> Held u" if "u \<noteq> t" for u using h(1) that by simp
      qed (use t h in auto)
      show "same_fiber g s ?s" for g by (rule sf)
      show "homes_kept s ?s" by (rule hk)
      show "pl f \<noteq> Held u" if "u \<noteq> t" for u using h(1) that by simp
      show "waiters_fine ?n interest ?s" using d(5) by (simp add: waiters_fine_def)
      show "blockers_fine Q view ?s" using d(6) by (simp add: blockers_fine_def)
      show "counted (st_fibers S) (pl(f := Gone)) ?s"
        by (rule counted_gone [OF d(8) h(2) setting_okD(2) [OF ok]]) (simp_all add: h(1))
      show "bells ?n V ?s (P(t := At Top))" by (rule bells_step [OF d(7) _ hk]) (use t in auto)
    qed (use fine TERMINATED in simp_all)
    then show ?thesis using TERMINATED by (auto simp: after_run_def intro: safeI)
  next
    case BLOCKED
    then obtain bp where bp: "fb_blocker (rt_fibers s f) = Some bp" using fine(1) by (auto simp: ready_def)
    obtain p lm where b: "blk_sem Q view (sc_blockers s bp) p lm (wait_view view s bp)"
      and dis: "distinct (filter (\<lambda>w. w \<noteq> WThread) (wait_view view s bp))" using winv_blk [OF I] by metis
    obtain b' where b': "EFiberBlocker_swapOut Q f (sc_blockers s bp) = (p = 0, b')"
      "if p = 0 then blk_sem Q view b' 0 lm (wait_view view s bp @ [WFiber f]) else blk_sem Q view b' (p - 1) lm (wait_view view s bp)"
      using blk_park_law [OF b, of "WFiber f"] by (auto simp: blk_park_def)
    show ?thesis
    proof (cases "p = 0")
      case True
      then have "winv Q view S interest (pl(f := Parked bp)) V (upd_blocker bp b' s) (P(t := At Top))"
        using b'(2) by (intro winv_park [OF I t _ BLOCKED]) simp
      then show ?thesis using BLOCKED bp b'(1) True by (auto simp: after_run_def intro: safeI)
    next
      case False
      then have I1: "winv Q view S interest pl V (upd_blocker bp b' s) P"
        using b'(2) dis by (intro winv_blocker [OF I]) simp_all
      have "ready f (upd_blocker bp b' s)" "home t f (upd_blocker bp b' s)"
        using BLOCKED bp fine(3) by (simp_all add: ready_def home_def)
      from add [OF I1 this] show ?thesis using BLOCKED bp b'(1) False by (simp add: after_run_def)
    qed
  qed (use fine(1) in \<open>auto simp: ready_def\<close>)
qed

fun stands :: "loop_pc \<Rightarrow> bool" where
  "stands (Run f) = True"
| "stands (Ended tn) = True"
| "stands Outside = True"
| "stands _ = False"

lemma loop_step_safe:
  assumes ok: "setting_ok S Q view interest clk" and I: "winv Q view S interest pl V s P" and t: "P t = At l" and l: "\<not> stands l"
  shows "\<exists>l' s'. loop_step (st_os S t) Q (st_threads S) t l s = Some (l', s') \<and> safe Q view S interest s' (P(t := At l'))"
proof -
  let ?n = "st_threads S"
  note d = winvD [OF I]
  have lo: "l \<noteq> Outside" using l by auto
  have tn: "t < ?n" by (rule at_fine(2) [OF I t lo])
  have ag: "agrees s s" by (simp add: agrees_def)
  have hung: "agrees s (s\<lparr>sc_hung := x\<rparr>)" for x by (simp add: agrees_def)
  have quiet: "winv Q view S interest pl V s' (P(t := p'))"
    if "agrees s s'" "sc_blockers s' = sc_blockers s" "sc_waiters s' = sc_waiters s" "sc_kernel s' = sc_kernel s"
      "\<And>j. rt_signals s (stub_waiter j) > 0 \<Longrightarrow> rt_signals s' (stub_waiter j) > 0"
      "pc_held p' = loop_held l" "pc_fine ?n t p' s" "p' \<noteq> At Hang" "p' \<noteq> At Wait" for s' p'
    by (rule winv_skip [OF I that(1-5)]) (use that t in auto)
  show ?thesis
  proof (cases l)
    case Top
    have "winv Q view S interest pl V s (P(t := At (if sc_interrupted s then Clean Interrupted else Total)))"
      by (rule quiet [OF ag]) (use Top tn in auto)
    then show ?thesis using Top by (auto intro: safeI)
  next
    case Total
    have "winv Q view S interest pl V s (P(t := At (Poll (sc_total s))))" by (rule quiet [OF ag]) (use Total tn in auto)
    then show ?thesis using Total by (auto intro: safeI)
  next
    case (Poll tot)
    have q: "stub_queue t \<in> stub_queue ` {..<?n}" using tn by simp
    show ?thesis
    proof (cases "V (stub_queue t)")
      case Nil
      have c: "cq_poll (stub_queue t) s = Some (None, s)" by (rule cq_poll_empty [OF d(1) q Nil])
      have "winv Q view S interest pl V s (P(t := At (if tot > 0 then Hang else Clean Break)))"
      proof (rule winv_quiet [OF I ag])
        show "bells ?n V s (P(t := At (if tot > 0 then Hang else Clean Break)))"
          by (rule bells_step [OF d(7)]) (use t Nil in \<open>auto simp: homes_kept_def\<close>)
      qed (use t Poll tn d(5) in auto)
      then show ?thesis using Poll c by (auto intro: safeI)
    next
      case (Cons f es)
      obtain s' where c: "cq_poll (stub_queue t) s = Some (Some f, s')" using cq_poll_nonempty [OF d(1) q Cons] by blast
      have "winv Q view S interest (pl(f := Held t)) (V(stub_queue t := es)) s' (P(t := At (Got f)))"
        by (rule winv_poll [OF I _ Cons tn c]) (use t Poll in simp)
      then show ?thesis using Poll c by (auto intro: safeI)
    qed
  next
    case Hang
    let ?s = "s\<lparr>sc_hung := (sc_hung s)(t := Some (stub_waiter t))\<rparr>"
    have "winv Q view S interest pl V ?s (P(t := At Wait))"
    proof (rule winv_quiet [OF I hung])
      show "bells ?n V ?s (P(t := At Wait))"
      proof (rule bells_step [OF d(7)])
        fix f assume "f \<in> set (V (stub_queue t))" "fb_boundQueue (rt_fibers ?s f) \<noteq> None"
        then have "rung s P t" using d(7) tn t Hang unfolding bells_def by auto
        then show "rung ?s (P(t := At Wait)) t" by (auto simp: rung_def home_def)
      qed (use t Hang in \<open>auto simp: homes_kept_def home_def\<close>)
    qed (use t Hang tn d(5) in \<open>auto simp: waiters_fine_def\<close>)
    then show ?thesis using Hang by (auto intro: safeI)
  next
    case Wait
    obtain s' where "io_round (st_os S t) (thread_id t) (stub_waiter t) 3000 s = Some s'" "winv Q view S interest pl V s' (P(t := At Back))"
      using round_safe [OF ok I tn t, of "At Back" 3000] Wait tn by auto
    then show ?thesis using Wait by (auto intro: safeI)
  next
    case Back
    have "winv Q view S interest pl V (s\<lparr>sc_hung := (sc_hung s)(t := None)\<rparr>) (P(t := At Top))"
      by (rule quiet [OF hung]) (use Back tn in auto)
    then show ?thesis using Back by (auto intro: safeI)
  next
    case (Got f)
    have fine: "pc_fine ?n t (At (Bind f)) s" using at_fine [OF I t lo] Got by simp
    show ?thesis
    proof (cases "EIoWaiter_getWaitersCount (sc_waiters s (stub_waiter t)) > 0")
      case True
      obtain s' where "io_round (st_os S t) (thread_id t) (stub_waiter t) 0 s = Some s'" "winv Q view S interest pl V s' (P(t := At (Bind f)))"
        using round_safe [OF ok I tn t _ _ _ fine, of 0] Got by auto
      then show ?thesis using Got True by (auto intro: safeI)
    next
      case False
      have "winv Q view S interest pl V s (P(t := At (Bind f)))" by (rule quiet [OF ag]) (use Got fine in auto)
      then show ?thesis using Got False by (auto intro: safeI)
    qed
  next
    case (Bind f)
    then show ?thesis using Bind_safe [OF I] t by (auto intro: safeI)
  next
    case (After f)
    then show ?thesis using After_safe [OF ok I] t by auto
  next
    case (Clean tn')
    note w = wake_others_signals [where n = ?n and i = t and s = s] and
      m = more_eq [OF wake_others_signals(4) [where n = ?n and i = t and s = s]]
    have "winv Q view S interest pl V (wake_others ?n t s) (P(t := At (Ended tn')))"
      by (rule quiet) (use Clean tn w m in \<open>auto simp: agrees_def\<close>)
    then show ?thesis using Clean by (auto intro: safeI)
  qed (use l in simp_all)
qed


section \<open>What a thread may choose\<close>

text \<open>
  \<open>schedule\<close> without a balance callback needs a remainder of \<open>balanceIndex\<close> that is not negative; the first
  \<open>2 ^ 31\<close> calls have it.
\<close>

fun may :: "'k setting \<Rightarrow> choice \<Rightarrow> pc \<Rightarrow> ('q, 'k, 'c) sched \<Rightarrow> bool" where
  "may S Go (At l) s \<longleftrightarrow> \<not> stands l"
| "may S Go (In b l) s \<longleftrightarrow> True"
| "may S (CallWakeUp bp) (At l) s \<longleftrightarrow> makes_calls l"
| "may S (CallSchedule f ign) (At l) s \<longleftrightarrow> makes_calls l \<and> f \<in> st_fibers S \<and> fb_state (rt_fibers s f) = NEW \<and>
     (ign \<or> st_balance S \<noteq> None \<or> 0 \<le> sc_balanceIndex s smod int (st_threads S))"
| "may S (CallWait bp) (At (Run f)) s \<longleftrightarrow> True"
| "may S Yield (At (Run f)) s \<longleftrightarrow> True"
| "may S Return (At (Run f)) s \<longleftrightarrow> True"
| "may S c p s \<longleftrightarrow> False"

lemma schedule_safe:
  assumes ok: "setting_ok S Q view interest clk" and I: "winv Q view S interest pl V s P" and t: "P t = At l" and l: "makes_calls l"
    and f: "f \<in> st_fibers S" "fb_state (rt_fibers s f) = NEW"
    and idx: "ign \<or> st_balance S \<noteq> None \<or> 0 \<le> sc_balanceIndex s smod int (st_threads S)"
  shows "\<exists>i s'. schedule_pick (st_threads S) (st_scheduler S) (st_balance S) (active_of l) f ign s = Some (i, s') \<and>
     safe Q view S interest s' (P(t := In (SchedAdd f i) l))"
proof -
  let ?n = "st_threads S"
  note d = winvD [OF I] and pd = placedD [OF winvD(2) [OF I]]
  define c where "c fb = fb\<lparr>fb_state := RUNNABLE, fb_scheduler := Some (st_scheduler S)\<rparr>" for fb :: fiber
  define s3 where "s3 = upd_fiber f c (s\<lparr>sc_total := sc_total s + 1\<rparr>)"
  have e3: "EFiber_setScheduler f (Some (st_scheduler S))
      (upd_fiber f (\<lambda>fb. fb\<lparr>fb_state := RUNNABLE\<rparr>) (s\<lparr>sc_total := sc_total s + 1\<rparr>)) = s3"
    by (simp add: s3_def c_def EFiber_setScheduler_def upd_fiber_def)
  have pf: "pl f = Fresh" and bn: "fb_boundQueue (rt_fibers s f) = None"
  proof -
    have "pl f \<noteq> Fresh \<Longrightarrow> fb_state (rt_fibers s f) \<noteq> NEW"
      using d(3) [OF f(1)] by (cases "pl f") (auto simp: ready_def asleep_def)
    then show "pl f = Fresh" using f(2) by blast
    then show "fb_boundQueue (rt_fibers s f) = None" using d(3) [OF f(1)] by simp
  qed
  have nl: "f \<notin> set (loop_held l)" using pd(2) [of f t] pf t by simp
  have lf: "loop_fine t l s" "l = Outside \<or> t < ?n" using d(4) [of t] t by simp_all
  define pick where "pick = (if ign then
       (case active_of l of Some a \<Rightarrow> (fb_threadIndex (rt_fibers s3 a), s3) | None \<Rightarrow> (0, s3))
     else
       (case st_balance S of
          Some g \<Rightarrow> (g f (sc_threadNums s3), s3)
        | None \<Rightarrow> (sc_balanceIndex s3 smod int ?n, s3\<lparr>sc_balanceIndex := int32 (sc_balanceIndex s3 + 1)\<rparr>)))"
  have "0 \<le> fst pick \<and> fst pick < int ?n \<and> (snd pick = s3 \<or> snd pick = s3\<lparr>sc_balanceIndex := int32 (sc_balanceIndex s3 + 1)\<rparr>)"
  proof (cases ign)
    case True
    show ?thesis
    proof (cases "active_of l")
      case None
      then show ?thesis using setting_okD(1) [OF ok] by (simp add: pick_def True)
    next
      case (Some a)
      then have "l = Run a" by (cases l) auto
      then have "a \<noteq> f" "fb_threadIndex (rt_fibers s a) = int t" "t < ?n" using nl lf by auto
      then show ?thesis by (simp add: pick_def True Some s3_def)
    qed
  next
    case False
    show ?thesis
    proof (cases "st_balance S")
      case None
      have "sc_balanceIndex s3 = sc_balanceIndex s" by (simp add: s3_def upd_fiber_def)
      moreover have "sc_balanceIndex s smod int ?n < int ?n"
        using setting_okD(1) [OF ok] by (intro smod_below) simp
      ultimately show ?thesis using idx False None by (simp add: pick_def)
    next
      case (Some g)
      show ?thesis using setting_okD(6) [OF ok Some] by (simp add: pick_def False Some)
    qed
  qed
  then obtain index s4 where pk: "pick = (index, s4)" "0 \<le> index" "index < int ?n"
    and s4: "s4 = s3 \<or> s4 = s3\<lparr>sc_balanceIndex := int32 (sc_balanceIndex s3 + 1)\<rparr>"
    by (metis prod.collapse)
  define i where "i = nat index"
  have i: "i < ?n" using pk by (simp add: i_def)
  have sp: "schedule_pick ?n (st_scheduler S) (st_balance S) (active_of l) f ign s = Some (i, s4)"
    unfolding schedule_pick_def Let_def e3 pick_def [symmetric] pk(1) using pk(2,3) by (simp add: i_def)
  have fld: "rt_fibers s4 = (rt_fibers s)(f := c (rt_fibers s f))" "rt_nodes s4 = rt_nodes s" "rt_queues s4 = rt_queues s"
    "rt_signals s4 = rt_signals s" "sc_blockers s4 = sc_blockers s" "sc_waiters s4 = sc_waiters s" "sc_kernel s4 = sc_kernel s"
    "sc_total s4 = sc_total s + 1"
    using s4 by (auto simp: s3_def upd_fiber_def)
  have sf: "same_fiber g s s4" if "g \<noteq> f" for g using that by (simp add: same_fiber_def owns_def fld)
  have hk: "homes_kept s s4" using bn by (auto simp: homes_kept_def home_def fld)
  have "winv Q view S interest (pl(f := Held t)) V s4 (P(t := In (SchedAdd f i) l))"
  proof (rule winv_move [OF I])
    show "qrep (stub_queue ` {..<?n}) (st_fibers S) s4 V"
      by (rule qrep_cong [OF d(1)]) (simp_all add: fld c_def)
    show "placed view ?n (st_fibers S) (pl(f := Held t)) V s4 (P(t := In (SchedAdd f i) l))"
    proof (rule placed_move [OF d(2)])
      show "(Held t = Queued j) \<longleftrightarrow> j < ?n \<and> f \<in> set (V (stub_queue j))" for j using pd(1) [of f j] pf by simp
      show "(Held t = Parked bp) \<longleftrightarrow> WFiber f \<in> set (wait_view view s4 bp)" for bp using pd(3) [of f bp] pf by (simp add: fld)
      show "distinct (pc_held (In (SchedAdd f i) l))" using pd(5) [of t] t nl by simp
    qed (use t f pf in \<open>auto simp: fld\<close>)
    show "pc_fine ?n t (In (SchedAdd f i) l) s4"
    proof -
      have "loop_fine t l s4" by (rule loop_fine_same [OF sf lf(1)]) (use nl in auto)
      then show ?thesis using i lf(2) l bn by (simp add: fld c_def)
    qed
    show "waiters_fine ?n interest s4" using d(5) by (simp add: waiters_fine_def fld)
    show "blockers_fine Q view s4" using d(6) by (simp add: blockers_fine_def fld)
    show "counted (st_fibers S) (pl(f := Held t)) s4"
      by (rule counted_new [OF d(8) f(1) setting_okD(2) [OF ok] pf]) (simp_all add: fld)
    show "bells ?n V s4 (P(t := In (SchedAdd f i) l))"
    proof (rule bells_step [OF d(7) _ hk])
      fix j g assume "j < ?n" "g \<in> set (V (stub_queue j))" "fb_boundQueue (rt_fibers s4 g) \<noteq> None"
      moreover have "g \<noteq> f" using pd(1) [of f j] pf calculation by auto
      ultimately show "g \<in> set (V (stub_queue j)) \<and> fb_boundQueue (rt_fibers s g) \<noteq> None \<or>
          (\<exists>h st l'. In (SchedAdd f i) l = In (SwapSignal h st) l' \<and> home j h s4)" by (simp add: fld)
    qed (use t in \<open>simp_all add: fld\<close>)
  qed (use sf hk pf in \<open>simp_all add: fld c_def\<close>)
  then show ?thesis using sp by (auto intro: safeI)
qed

lemma wait_safe:
  assumes I: "winv Q view S interest pl V s P" and t: "P t = At (Run f)"
    and w: "EFiberBlocker_wait_fiber bp f (sc_blockers s bp) s = (waits, b, s1)"
  shows "safe Q view S interest (upd_blocker bp b s1) (P(t := At (if waits then After f else Run f)))"
proof -
  let ?n = "st_threads S"
  obtain p lm where b: "blk_sem Q view (sc_blockers s bp) p lm (wait_view view s bp)"
    and dis: "distinct (filter (\<lambda>w. w \<noteq> WThread) (wait_view view s bp))" using winv_blk [OF I] by metis
  note wt = wait_then_swapOut [OF b w]
  have fine: "ready f s" "owns f s" "home t f s" "t < ?n" using at_fine [OF I t] by simp_all
  show ?thesis
  proof (cases "0 < p")
    case True
    then have y: "\<not> waits" "blk_sem Q view b (p - 1) lm (wait_view view s bp)" "s1 = s" using wt by simp_all
    have "winv Q view S interest pl V (upd_blocker bp b s) P" by (rule winv_blocker [OF I y(2)]) (use dis in simp_all)
    moreover have "P(t := At (Run f)) = P" using t by auto
    ultimately show ?thesis using y by (auto intro: safeI)
  next
    case False
    then have "bl_wakeup (sc_blockers s bp) = 0" using blk_semD(6) [OF b] by simp
    then have y: "waits" "b = sc_blockers s bp"
      "s1 = upd_fiber f (\<lambda>fb. fb\<lparr>fb_blocker := Some bp, fb_state := BLOCKED\<rparr>) s"
      using w by (auto simp: EFiberBlocker_wait_fiber_def upd_fiber_def)
    have u: "upd_blocker bp b s1 = s1" by (simp add: y upd_blocker_def upd_fiber_def)
    have "winv Q view S interest pl V s1 (P(t := At (After f)))"
      unfolding y(3)
    proof (rule winv_change [OF I])
      show "pc_fine ?n t (At (After f)) (upd_fiber f (\<lambda>fb. fb\<lparr>fb_blocker := Some bp, fb_state := BLOCKED\<rparr>) s)"
        using fine by (simp add: ready_def owns_def home_def)
    qed (use t in \<open>simp_all add: home_def\<close>)
    then show ?thesis unfolding u using y(1) by (simp add: safeI)
  qed
qed

lemma pc_step_safe:
  assumes ok: "setting_ok S Q view interest clk" and I: "safe Q view S interest s P" and m: "may S c (P t) s"
  shows "\<exists>p' s'. pc_step S Q t c (P t) s = Some (p', s') \<and> safe Q view S interest s' (P(t := p'))"
proof -
  obtain pl V where I: "winv Q view S interest pl V s P" using I by (rule safeE)
  have ag: "agrees s s" by (simp add: agrees_def)
  show ?thesis
  proof (cases "P t")
    case (In b l)
    then have "c = Go" using m by (cases c) auto
    obtain r s' where "lib_step Q (thread_id t) b s = Some (r, s')"
      "safe Q view S interest s' (P(t := (case r of None \<Rightarrow> At l | Some b \<Rightarrow> In b l)))"
      using lib_step_safe [OF ok I In] by blast
    then show ?thesis using In \<open>c = Go\<close> by simp
  next
    case (At l)
    show ?thesis
    proof (cases c)
      case Go
      then obtain l' s' where "loop_step (st_os S t) Q (st_threads S) t l s = Some (l', s')" "safe Q view S interest s' (P(t := At l'))"
        using loop_step_safe [OF ok I At] m At by auto
      then show ?thesis using At Go by simp
    next
      case (CallWakeUp bp)
      have "winv Q view S interest pl V s (P(t := In (WakeLock bp) l))"
        by (rule winv_skip [OF I ag]) (use m At CallWakeUp winvD(4) [OF I, of t] in auto)
      then show ?thesis using m At CallWakeUp by (auto intro: safeI)
    next
      case (CallSchedule f ign)
      then have c: "makes_calls l" "f \<in> st_fibers S" "fb_state (rt_fibers s f) = NEW"
        "ign \<or> st_balance S \<noteq> None \<or> 0 \<le> sc_balanceIndex s smod int (st_threads S)" using m At by simp_all
      obtain i s' where "schedule_pick (st_threads S) (st_scheduler S) (st_balance S) (active_of l) f ign s = Some (i, s')"
        "safe Q view S interest s' (P(t := In (SchedAdd f i) l))"
        using schedule_safe [OF ok I At c] by blast
      then show ?thesis using c At CallSchedule by simp
    next
      case (CallWait bp)
      then obtain f where l: "l = Run f" using m At by (cases l) auto
      obtain waits b s1 where w: "EFiberBlocker_wait_fiber bp f (sc_blockers s bp) s = (waits, b, s1)" by (metis prod.collapse)
      show ?thesis using wait_safe [OF I At [unfolded l] w] At l CallWait w by simp
    next
      case Yield
      then obtain f where l: "l = Run f" using m At by (cases l) auto
      have "winv Q view S interest pl V s (P(t := At (After f)))"
        by (rule winv_skip [OF I ag]) (use at_fine [OF I At] At l in auto)
      then show ?thesis using At l Yield by (auto intro: safeI)
    next
      case Return
      then obtain f where l: "l = Run f" using m At by (cases l) auto
      have fine: "owns f s" "home t f s" "t < st_threads S" using at_fine [OF I At] l by simp_all
      have "winv Q view S interest pl V (EFiber_setState f TERMINATED s) (P(t := At (After f)))"
        unfolding EFiber_setState_def
        by (rule winv_change [OF I]) (use At l fine in \<open>simp_all add: home_def owns_def\<close>)
      then show ?thesis using At l Return by (auto intro: safeI)
    qed
  qed
qed

end
