(* ===== verification/Threads_Reach.thy ===== *)
theory Threads_Reach
  imports Threads_Safe
begin

text \<open>
  What follows for all worlds that can be reached from the start of \<open>join(int)\<close>: no fiber runs on two
  threads, a fiber stays with its thread, no wake-up is lost, no thread faults, and a thread that leaves
  the loop by itself leaves no fiber behind.
\<close>

section \<open>The start\<close>

text \<open>
  The worlds in which the threads start: every stub has its queue and its io waiter, the fibers that have
  been dealt out are RUNNABLE and those that have not been scheduled are NEW, no fiber waits for a blocker.
\<close>

definition start_ok :: "(waiter, 'q) cxx_queue \<Rightarrow> ('q \<Rightarrow> waiter list) \<Rightarrow> 'k setting \<Rightarrow> (nat \<Rightarrow> 'k \<Rightarrow> int \<rightharpoonup> int) \<Rightarrow>
    (qptr \<Rightarrow> fptr list) \<Rightarrow> ('q, 'k, 'c) world \<Rightarrow> bool" where
  "start_ok Q view S interest V w \<longleftrightarrow>
     (let s = wd_sched w; n = st_threads S; dealt = (\<Union>i<n. set (V (stub_queue i))) in
      qrep (stub_queue ` {..<n}) (st_fibers S) s V \<and>
      (\<forall>f\<in>st_fibers S. fb_boundQueue (rt_fibers s f) = None \<and>
         fb_state (rt_fibers s f) = (if f \<in> dealt then RUNNABLE else NEW)) \<and>
      (\<forall>bp. \<exists>p l ws. blk_sem Q view (sc_blockers s bp) p l ws \<and> (\<forall>x\<in>set ws. x = WThread)) \<and>
      waiters_fine n interest s \<and> sc_total s = int (card dealt) \<and>
      (\<forall>t. wd_pc w t = At (if t < n then Top else Outside)))"

lemma start_safe:
  assumes st: "start_ok Q view S interest V w"
  shows "safe Q view S interest (wd_sched w) (wd_pc w)"
proof -
  let ?s = "wd_sched w" and ?n = "st_threads S" and ?L = "st_fibers S" and ?P = "wd_pc w"
  define dealt where "dealt = (\<Union>i<?n. set (V (stub_queue i)))"
  have q: "qrep (stub_queue ` {..<?n}) ?L ?s V"
    and fb: "\<And>f. f \<in> ?L \<Longrightarrow> fb_boundQueue (rt_fibers ?s f) = None"
      "\<And>f. f \<in> ?L \<Longrightarrow> fb_state (rt_fibers ?s f) = (if f \<in> dealt then RUNNABLE else NEW)"
    and bl: "\<And>bp. \<exists>p l ws. blk_sem Q view (sc_blockers ?s bp) p l ws \<and> (\<forall>x\<in>set ws. x = WThread)"
    and wt: "waiters_fine ?n interest ?s" and tot: "sc_total ?s = int (card dealt)"
    and pc: "\<And>t. ?P t = At (if t < ?n then Top else Outside)"
    using st unfolding start_ok_def Let_def dealt_def [symmetric] by blast+
  have wv: "\<forall>x\<in>set (wait_view view ?s bp). x = WThread" for bp using bl [of bp] blk_semD(4) by metis
  have sub: "set (V (stub_queue i)) \<subseteq> ?L" if "i < ?n" for i using qrep_sub [OF q] that by auto
  have once: "i = j" if "f \<in> set (V (stub_queue i))" "f \<in> set (V (stub_queue j))" "i < ?n" "j < ?n" for f i j
    using qrep_disjoint [OF q _ _ that(1,2)] that(3,4) by (simp add: stub_queue_inj)
  define pl where "pl f = (if \<exists>i<?n. f \<in> set (V (stub_queue i)) then Queued (THE i. i < ?n \<and> f \<in> set (V (stub_queue i))) else Fresh)" for f
  have plq: "pl f = Queued i" if "i < ?n" "f \<in> set (V (stub_queue i))" for f i
  proof -
    have "(THE i. i < ?n \<and> f \<in> set (V (stub_queue i))) = i" using that once by (intro the_equality) auto
    then show ?thesis using that by (auto simp: pl_def)
  qed
  have plf: "pl f = Fresh" if "\<And>i. i < ?n \<Longrightarrow> f \<notin> set (V (stub_queue i))" for f using that by (auto simp: pl_def)
  have pls: "(pl f = Queued i) = (i < ?n \<and> f \<in> set (V (stub_queue i)))" for f i
    using plq [of _ f] plf [of f] by (cases "\<exists>j<?n. f \<in> set (V (stub_queue j))") auto
  have plc: "pl f = Fresh \<and> f \<notin> dealt \<or> (\<exists>i<?n. pl f = Queued i \<and> f \<in> set (V (stub_queue i)) \<and> f \<in> dealt)" for f
    using plq [of _ f] plf [of f] by (auto simp: dealt_def)
  have 1: "placed view ?n ?L pl V ?s ?P"
    unfolding placed_def
  proof (intro conjI allI)
    show "pl f = Queued i \<longleftrightarrow> i < ?n \<and> f \<in> set (V (stub_queue i))" for f i by (rule pls)
    show "pl f = Held t \<longleftrightarrow> f \<in> set (pc_held (?P t))" for f t using plc [of f] pc [of t] by auto
    show "pl f = Parked bp \<longleftrightarrow> WFiber f \<in> set (wait_view view ?s bp)" for f bp using plc [of f] wv [of bp] by auto
    show "pl f \<noteq> Fresh \<longrightarrow> f \<in> ?L" for f using plc [of f] sub by auto
    show "distinct (pc_held (?P t))" for t using pc [of t] by simp
  qed
  have 2: "place_fine ?n f (pl f) ?s" if "f \<in> ?L" for f
    using plc [of f] fb [OF that] by (auto simp: ready_def may_home_def)
  have 3: "pc_fine ?n t (?P t) ?s" for t using pc [of t] by simp
  have 4: "blockers_fine Q view ?s"
    unfolding blockers_fine_def
  proof
    fix bp
    have "filter (\<lambda>x. x \<noteq> WThread) (wait_view view ?s bp) = []" using wv [of bp] by simp
    then have "distinct (filter (\<lambda>x. x \<noteq> WThread) (wait_view view ?s bp))" by (simp only: distinct.simps)
    then show "(\<exists>p l ws. blk_sem Q view (sc_blockers ?s bp) p l ws) \<and>
        distinct (filter (\<lambda>x. x \<noteq> WThread) (wait_view view ?s bp))" using bl [of bp] by blast
  qed
  have 5: "bells ?n V ?s ?P" unfolding bells_def using pc by simp
  have 6: "counted ?L pl ?s"
  proof -
    have "{f \<in> ?L. live (pl f)} = dealt" using plc sub unfolding dealt_def by fastforce
    then show ?thesis using tot by (simp add: counted_def)
  qed
  have "winv Q view S interest pl V ?s ?P" unfolding winv_def using q 1 2 3 wt 4 5 6 by blast
  then show ?thesis by (rule safeI)
qed

section \<open>Every reachable world is safe\<close>

lemma stands_stuck: "stands l \<Longrightarrow> loop_step os Q n t l s = None"
  by (cases l) auto

lemma schedule_pick_index:
  assumes "schedule_pick n sid bal active f False s = Some z"
  shows "bal \<noteq> None \<or> 0 \<le> sc_balanceIndex s smod int n"
  using assms
  by (cases bal) (auto simp: schedule_pick_def Let_def EFiber_setScheduler_def upd_fiber_def split: if_splits)

lemma pc_step_may: "pc_step S Q t c p s = Some z \<Longrightarrow> may S c p s"
  by (induction S Q t c p s rule: pc_step.induct)
    (auto simp: stands_stuck dest!: schedule_pick_index split: if_splits option.splits)

lemma thread_step_eq:
  "thread_step S Q (t, c) w = Some w' \<longleftrightarrow>
     (\<exists>p' s'. pc_step S Q t c (wd_pc w t) (wd_sched w) = Some (p', s') \<and> w' = \<lparr>wd_sched = s', wd_pc = (wd_pc w)(t := p')\<rparr>)"
  by (auto simp: thread_step_def)

lemma thread_step_safe:
  assumes ok: "setting_ok S Q view interest clk" and I: "safe Q view S interest (wd_sched w) (wd_pc w)"
    and st: "thread_step S Q (t, c) w = Some w'"
  shows "safe Q view S interest (wd_sched w') (wd_pc w')"
proof -
  obtain p' s' where p: "pc_step S Q t c (wd_pc w t) (wd_sched w) = Some (p', s')"
      "w' = \<lparr>wd_sched = s', wd_pc = (wd_pc w)(t := p')\<rparr>" using st unfolding thread_step_eq by blast
  show ?thesis using pc_step_safe [where P = "wd_pc w", OF ok I pc_step_may [OF p(1)]] p by auto
qed

lemma reaches_safe:
  assumes ok: "setting_ok S Q view interest clk" and I: "safe Q view S interest (wd_sched w0) (wd_pc w0)"
  shows "reaches S Q w0 w \<Longrightarrow> safe Q view S interest (wd_sched w) (wd_pc w)"
proof (induction rule: reaches.induct)
  case (step w tc w')
  then show ?case using thread_step_safe [OF ok] by (cases tc) blast
qed (rule I)

section \<open>What a thread may do, it can do\<close>

lemma thread_step_may:
  assumes ok: "setting_ok S Q view interest clk" and I: "safe Q view S interest (wd_sched w) (wd_pc w)"
  shows "(\<exists>w'. thread_step S Q (t, c) w = Some w') \<longleftrightarrow> may S c (wd_pc w t) (wd_sched w)"
proof
  assume "\<exists>w'. thread_step S Q (t, c) w = Some w'"
  then show "may S c (wd_pc w t) (wd_sched w)" unfolding thread_step_eq using pc_step_may by blast
next
  assume "may S c (wd_pc w t) (wd_sched w)"
  from pc_step_safe [where P = "wd_pc w", OF ok I this]
  show "\<exists>w'. thread_step S Q (t, c) w = Some w'" unfolding thread_step_eq by blast
qed

section \<open>The fiber that a thread runs\<close>

text \<open>The fiber whose code thread executes: itself, or a call that it has made.\<close>

fun runs :: "pc \<Rightarrow> fptr option" where
  "runs (At l) = active_of l"
| "runs (In b l) = active_of l"

lemma active_Run: "active_of l = Some f \<longleftrightarrow> l = Run f"
  by (cases l) auto

lemma runs_held: "runs p = Some f \<Longrightarrow> f \<in> set (pc_held p)"
  by (cases p) (auto simp: active_Run)

lemma runs_fine:
  assumes "safe Q view S interest s P" "runs (P t) = Some f"
  shows "home t f s" "t < st_threads S" "ready f s"
proof -
  obtain pl V where I: "winv Q view S interest pl V s P" using assms(1) by (rule safeE)
  have "pc_fine (st_threads S) t (P t) s" by (rule winvD(4) [OF I])
  then show "home t f s" "t < st_threads S" "ready f s"
    using assms(2) by (cases "P t"; auto simp: active_Run)+
qed

lemma runs_one:
  assumes "safe Q view S interest s P" "f \<in> set (pc_held (P t))" "f \<in> set (pc_held (P u))"
  shows "t = u"
proof -
  obtain pl V where I: "winv Q view S interest pl V s P" using assms(1) by (rule safeE)
  show ?thesis using placedD(2) [OF winvD(2) [OF I], of f t] placedD(2) [OF winvD(2) [OF I], of f u] assms(2,3) by simp
qed

section \<open>A fiber stays with its thread\<close>

definition bond :: "fiber \<Rightarrow> qptr option \<times> wptr option \<times> tid" where
  "bond fb = (fb_boundQueue fb, fb_iowaiter fb, fb_boundThreadID fb)"

lemma home_bond: "home i f s \<longleftrightarrow> bond (rt_fibers s f) = (Some (stub_queue i), Some (stub_waiter i), thread_id i)"
  by (simp add: home_def bond_def)

text \<open>What a step does to the bonds and to the counter of fibers.\<close>

definition steady :: "('q, 'k, 'c) sched \<Rightarrow> ('q, 'k, 'c) sched \<Rightarrow> bool" where
  "steady s s' \<longleftrightarrow> (\<forall>f. bond (rt_fibers s' f) = bond (rt_fibers s f)) \<and> sc_total s' = sc_total s"

lemma steady_fields:
  "steady s s"
  "(\<And>fb. bond (g fb) = bond fb) \<Longrightarrow> steady s (upd_fiber f g s)"
  "steady s (cq_add q e s)" "steady s (upd_blocker bp b s)" "steady s (EIoWaiter_signal w s)"
  "steady s (s\<lparr>sc_hung := x\<rparr>)"
proof -
  have "sc_total (EIoWaiter_signal w s) = sc_total s" by (rule more_eq(5)) simp
  then show "steady s (EIoWaiter_signal w s)" by (simp add: steady_def)
  have "sc_total (cq_add q e s) = sc_total s" by (rule more_eq(5)) simp
  then show "steady s (cq_add q e s)" by (simp add: steady_def cq_add_fields)
qed (auto simp: steady_def)

lemma steady_trans: "steady s s1 \<Longrightarrow> steady s1 s2 \<Longrightarrow> steady s s2"
  by (simp add: steady_def)

lemma lib_step_steady:
  assumes "lib_step Q t b s = Some (r, s')"
  shows "steady s s'"
proof (cases b)
  case (WakeLock bp)
  obtain r w b' where "EFiberBlocker_post Q (sc_blockers s bp) = ((r, w), b')" by (metis prod.collapse)
  then show ?thesis using assms WakeLock by (auto intro: steady_fields)
next
  case (SwapSet f st)
  then show ?thesis using assms
    by (auto simp: EFiber_setState_def bond_def intro!: steady_trans [OF steady_fields(2) steady_fields(2)])
qed (use assms in \<open>auto split: if_splits option.splits intro: steady_fields\<close>)

lemma cq_poll_steady:
  assumes "cq_poll q s = Some (r, s')"
  shows "steady s s'"
proof -
  have "sc_total (upd_queue q g s) = sc_total s" "sc_total (upd_node m h s) = sc_total s" for g m h and s :: "('a, 'b, 'c) sched"
    by (simp_all add: upd_queue_def upd_node_def)
  then show ?thesis using assms
    by (auto simp: cq_poll_def Let_def steady_def bond_def split: option.splits)
qed

lemma io_round_steady:
  assumes ok: "setting_ok S Q view interest clk" and I: "safe Q view S interest s P" and t: "t < st_threads S"
    and r: "io_round (st_os S t) (thread_id t) (stub_waiter t) timeout s = Some s'"
  shows "steady s s'"
proof -
  obtain pl V where I: "winv Q view S interest pl V s P" using I by (rule safeE)
  have w: "waiter_ok {} (sc_waiters s (stub_waiter t))" "synced (interest t) (iw_poll (sc_waiters s (stub_waiter t))) (sc_kernel s)"
    using winvD(5) [OF I] t unfolding waiters_fine_def by blast+
  show ?thesis
    using pipe_round [OF setting_okD(4) [OF ok t] w, of "thread_id t" "stub_waiter t" timeout s] r
    by (auto simp: io_round_def steady_def upd_waiter_def)
qed

lemma after_run_bond:
  assumes "after_run Q q f s = Some s'" "fb_state (rt_fibers s f) \<noteq> TERMINATED"
  shows "steady s s'"
proof -
  have "steady s (cq_add q f (upd_blocker bp b s))" for bp b by (rule steady_trans [OF steady_fields(4) steady_fields(3)])
  then show ?thesis using assms
    by (auto simp: after_run_def Let_def split: fstate.splits option.splits prod.splits if_splits intro: steady_fields)
qed

lemma loop_step_steady:
  assumes ok: "setting_ok S Q view interest clk" and I: "safe Q view S interest s P" and t: "P t = At l"
    and st: "loop_step (st_os S t) Q (st_threads S) t l s = Some (l', s')"
    and n: "\<And>f. l \<noteq> Bind f" "\<And>f. l = After f \<Longrightarrow> fb_state (rt_fibers s f) \<noteq> TERMINATED"
  shows "steady s s'"
proof -
  obtain pl V where W: "winv Q view S interest pl V s P" using I by (rule safeE)
  have tn: "t < st_threads S" if "l \<noteq> Outside" using at_fine(2) [OF W t that] .
  show ?thesis
  proof (cases l)
    case (Poll tot)
    then show ?thesis using st by (auto split: option.splits intro: cq_poll_steady steady_fields)
  next
    case Wait
    then show ?thesis using st io_round_steady [OF ok I tn] by auto
  next
    case (Got f)
    then show ?thesis using st io_round_steady [OF ok I tn] by (auto split: if_splits intro: steady_fields)
  next
    case (After f)
    then show ?thesis using st after_run_bond n(2) by auto
  next
    case (Clean tn)
    then have s': "s' = wake_others (st_threads S) t s" using st by simp
    have "sc_total s' = sc_total s" unfolding s' by (rule more_eq(5) [OF wake_others_signals(4)])
    then show ?thesis using s' by (simp add: steady_def wake_others_signals(1))
  qed (use st n in \<open>auto intro: steady_fields\<close>)
qed

lemma schedule_pick_bond:
  assumes "schedule_pick n sid bal active f ign s = Some (i, s')"
  shows "bond (rt_fibers s' g) = bond (rt_fibers s g)"
proof -
  let ?s = "EFiber_setScheduler f (Some sid) (upd_fiber f (\<lambda>fb. fb\<lparr>fb_state := RUNNABLE\<rparr>) (s\<lparr>sc_total := sc_total s + 1\<rparr>))"
  have "rt_fibers s' = rt_fibers ?s"
    using assms unfolding schedule_pick_def Let_def by (auto split: prod.splits if_splits option.splits)
  then show ?thesis by (simp add: bond_def EFiber_setScheduler_def)
qed

lemma wait_steady:
  assumes "EFiberBlocker_wait_fiber bp f b s = (waits, b', s')"
  shows "steady s s'"
proof -
  have "steady s (upd_fiber f (\<lambda>fb. fb\<lparr>fb_state := BLOCKED\<rparr>) (upd_fiber f (\<lambda>fb. fb\<lparr>fb_blocker := Some bp\<rparr>) s))"
    by (rule steady_trans [OF steady_fields(2) steady_fields(2)]) (simp_all add: bond_def)
  then show ?thesis using assms by (auto simp: EFiberBlocker_wait_fiber_def steady_fields split: if_splits)
qed

text \<open>Binding apart, the bonds stay; calls of \<open>schedule\<close> and ends of fibers apart, the counter does.\<close>

lemma pc_step_steady:
  assumes ok: "setting_ok S Q view interest clk" and I: "safe Q view S interest s P"
    and st: "pc_step S Q t c (P t) s = Some (p', s')"
    and n: "\<And>f. P t \<noteq> At (Bind f)" "\<And>f ign. c \<noteq> CallSchedule f ign"
      "\<And>f. P t = At (After f) \<Longrightarrow> fb_state (rt_fibers s f) \<noteq> TERMINATED"
  shows "steady s s'"
proof (cases "P t")
  case (In b l)
  then have "c = Go" using st by (cases c) auto
  then show ?thesis using st In lib_step_steady by auto
next
  case (At l)
  show ?thesis
  proof (cases c)
    case Go
    then obtain l' where "loop_step (st_os S t) Q (st_threads S) t l s = Some (l', s')" using st At by auto
    then show ?thesis by (rule loop_step_steady [OF ok I At]) (use n At in auto)
  next
    case (CallWait bp)
    then obtain f where l: "l = Run f" using st At by (cases l) auto
    obtain waits b s1 where w: "EFiberBlocker_wait_fiber bp f (sc_blockers s bp) s = (waits, b, s1)" by (metis prod.collapse)
    then have "s' = upd_blocker bp b s1" using st At l CallWait by simp
    then show ?thesis using steady_trans [OF wait_steady [OF w] steady_fields(4)] by simp
  next
    case Yield
    then show ?thesis using st At by (cases l) (auto intro: steady_fields)
  next
    case Return
    then show ?thesis using st At by (cases l) (auto simp: EFiber_setState_def bond_def intro!: steady_fields)
  qed (use st At n in \<open>auto split: if_splits intro: steady_fields\<close>)
qed

lemma pc_step_homes:
  assumes ok: "setting_ok S Q view interest clk" and I: "safe Q view S interest s P"
    and st: "pc_step S Q t c (P t) s = Some (p', s')"
  shows "homes_kept s s'"
proof -
  obtain pl V where W: "winv Q view S interest pl V s P" using I by (rule safeE)
  have same: "homes_kept s s'" if "\<And>g. bond (rt_fibers s' g) = bond (rt_fibers s g)"
    using that by (simp add: homes_kept_def home_bond)
  consider (bind) f where "P t = At (Bind f)" | (sched) f ign where "c = CallSchedule f ign"
    | (fin) f where "P t = At (After f)" "fb_state (rt_fibers s f) = TERMINATED"
    | (oth) "\<And>f. P t \<noteq> At (Bind f)" "\<And>f ign. c \<noteq> CallSchedule f ign"
        "\<And>f. P t = At (After f) \<Longrightarrow> fb_state (rt_fibers s f) \<noteq> TERMINATED" by blast
  then show ?thesis
  proof cases
    case bind
    have fine: "may_home t f s" using at_fine(1) [OF W bind] by simp
    have "c = Go" using st bind by (cases c) auto
    then have s': "s' = bind_fiber (stub_queue t) (thread_id t) (stub_waiter t) f (EFiber_setThreadIndex f (int t) s)"
      using st bind by simp
    show ?thesis
      unfolding homes_kept_def
    proof (intro allI impI)
      fix i g assume h: "home i g s"
      show "home i g s'"
      proof (cases "g = f")
        case True
        then have "home t f s" using h fine by (simp add: home_def may_home_def)
        then show ?thesis using h True unfolding s' bind_fiber_one by (simp add: home_def)
      next
        case False
        then show ?thesis using h unfolding s' bind_fiber_one by (simp add: home_def)
      qed
    qed
  next
    case sched
    obtain l where l: "P t = At l" using st sched by (cases "P t") auto
    then show ?thesis using st sched by (intro same) (auto split: if_splits dest: schedule_pick_bond)
  next
    case fin
    then have "c = Go" using st by (cases c) auto
    then have "s' = s\<lparr>sc_total := sc_total s - 1\<rparr>" using st fin by (simp add: after_run_def)
    then show ?thesis by (intro same) simp
  next
    case oth
    then have "steady s s'" by (rule pc_step_steady [OF ok I st])
    then show ?thesis by (intro same) (simp add: steady_def)
  qed
qed

lemma reaches_homes:
  assumes ok: "setting_ok S Q view interest clk" and I: "safe Q view S interest (wd_sched w0) (wd_pc w0)"
  shows "reaches S Q w0 w \<Longrightarrow> homes_kept (wd_sched w0) (wd_sched w)"
proof (induction rule: reaches.induct)
  case (step w tc w')
  obtain t c where tc: "tc = (t, c)" by fastforce
  obtain p' s' where p: "pc_step S Q t c (wd_pc w t) (wd_sched w) = Some (p', s')"
      "w' = \<lparr>wd_sched = s', wd_pc = (wd_pc w)(t := p')\<rparr>" using step.hyps(2) unfolding tc thread_step_eq by blast
  have "homes_kept (wd_sched w) s'"
    by (rule pc_step_homes [OF ok reaches_safe [OF ok I step.hyps(1)] p(1)])
  then show ?case using step.IH p(2) unfolding homes_kept_def by simp
qed (simp add: homes_kept_def)


section \<open>The end of a thread\<close>

text \<open>The thread has read 0 from the counter of fibers and has not found a fiber since.\<close>

fun drained :: "pc \<Rightarrow> bool" where
  "drained (At (Poll tot)) \<longleftrightarrow> tot \<le> 0"
| "drained (At (Clean tn)) \<longleftrightarrow> tn = Break"
| "drained (At (Ended tn)) \<longleftrightarrow> tn = Break"
| "drained _ \<longleftrightarrow> False"

fun loop_of :: "pc \<Rightarrow> loop_pc" where
  "loop_of (At l) = l"
| "loop_of (In b l) = l"

definition ended_ok :: "nat \<Rightarrow> ('q, 'k, 'c) sched \<Rightarrow> (nat \<Rightarrow> pc) \<Rightarrow> bool" where
  "ended_ok n s P \<longleftrightarrow> (\<forall>t<n. loop_of (P t) \<noteq> Outside) \<and> ((\<exists>t. drained (P t)) \<longrightarrow> sc_total s = 0)"

lemma safe_total:
  assumes ok: "setting_ok S Q view interest clk" and I: "safe Q view S interest s P"
  shows "0 \<le> sc_total s" "f \<in> set (pc_held (P t)) \<Longrightarrow> 0 < sc_total s"
    "sc_total s = 0 \<Longrightarrow> f \<in> st_fibers S \<Longrightarrow> fb_state (rt_fibers s f) = NEW \<or> fb_state (rt_fibers s f) = TERMINATED"
proof -
  obtain pl V where W: "winv Q view S interest pl V s P" using I by (rule safeE)
  have tot: "sc_total s = int (card {f \<in> st_fibers S. live (pl f)})" using winvD(8) [OF W] by (simp add: counted_def)
  have fin: "finite {f \<in> st_fibers S. live (pl f)}" using setting_okD(2) [OF ok] by simp
  show "0 \<le> sc_total s" by (simp add: tot)
  show "0 < sc_total s" if "f \<in> set (pc_held (P t))"
  proof -
    have "f \<in> {f \<in> st_fibers S. live (pl f)}" using held_fiber(1,2) [OF W that] by simp
    then show ?thesis using fin card_gt_0_iff [of "{f \<in> st_fibers S. live (pl f)}"] by (auto simp: tot)
  qed
  show "fb_state (rt_fibers s f) = NEW \<or> fb_state (rt_fibers s f) = TERMINATED" if "sc_total s = 0" "f \<in> st_fibers S"
  proof -
    have "{f \<in> st_fibers S. live (pl f)} = {}" using that(1) fin by (simp add: tot)
    then have "pl f = Fresh \<or> pl f = Gone" using that(2) by auto
    then show ?thesis using winvD(3) [OF W that(2)] by auto
  qed
qed

lemma choice_step:
  "pc_step S Q t c p s = Some (p', s') \<Longrightarrow> c \<noteq> Go \<Longrightarrow> \<not> drained p' \<and> (loop_of p \<noteq> Outside \<longrightarrow> loop_of p' \<noteq> Outside)"
  by (induction S Q t c p s rule: pc_step.induct) (auto simp: Let_def split: if_splits prod.splits)

lemma go_step:
  assumes "loop_step os Q n t l s = Some (l', s')"
  shows "(drained (At l') \<longrightarrow> drained (At l) \<or> l = Total \<and> sc_total s \<le> 0) \<and> (l \<noteq> Outside \<longrightarrow> l' \<noteq> Outside)"
  using assms by (cases l) (auto split: option.splits prod.splits if_splits)

lemma pc_step_pcs:
  assumes st: "pc_step S Q t c p s = Some (p', s')" and b: "\<And>b l. p = In b l \<Longrightarrow> makes_calls l"
  shows "drained p' \<Longrightarrow> drained p \<or> p = At Total \<and> sc_total s \<le> 0"
    and "loop_of p \<noteq> Outside \<Longrightarrow> loop_of p' \<noteq> Outside"
proof -
  have "(drained p' \<longrightarrow> drained p \<or> p = At Total \<and> sc_total s \<le> 0) \<and> (loop_of p \<noteq> Outside \<longrightarrow> loop_of p' \<noteq> Outside)"
  proof (cases "c = Go")
    case False
    then show ?thesis using choice_step [OF st] by blast
  next
    case True
    show ?thesis
    proof (cases p)
      case (In b l)
      have "\<not> drained (At l)" using assms(2) [OF In] by (cases l) auto
      then show ?thesis using st In True by (auto split: option.splits)
    next
      case (At l)
      then obtain l' where "loop_step (st_os S t) Q (st_threads S) t l s = Some (l', s')" "p' = At l'" using st True by auto
      then show ?thesis using go_step [of "st_os S t" Q "st_threads S" t l s l' s'] At by simp
    qed
  qed
  then show "drained p' \<Longrightarrow> drained p \<or> p = At Total \<and> sc_total s \<le> 0" "loop_of p \<noteq> Outside \<Longrightarrow> loop_of p' \<noteq> Outside"
    by blast+
qed

lemma ended_step:
  assumes ok: "setting_ok S Q view interest clk" and I: "safe Q view S interest s P" and e: "ended_ok (st_threads S) s P"
    and st: "pc_step S Q t c (P t) s = Some (p', s')" and c: "t < st_threads S \<or> (\<forall>f ign. c \<noteq> CallSchedule f ign)"
  shows "ended_ok (st_threads S) s' (P(t := p'))"
proof -
  have cl: "makes_calls l" if "P t = In b l" for b l
  proof -
    obtain pl V where "winv Q view S interest pl V s P" using I by (rule safeE)
    then show ?thesis using back_fine(3) that by blast
  qed
  have ps: "drained p' \<Longrightarrow> drained (P t) \<or> P t = At Total \<and> sc_total s \<le> 0" "loop_of (P t) \<noteq> Outside \<Longrightarrow> loop_of p' \<noteq> Outside"
    using pc_step_pcs [OF st] cl by blast+
  have lo: "\<forall>u < st_threads S. loop_of ((P(t := p')) u) \<noteq> Outside"
    using e ps(2) unfolding ended_ok_def by auto
  have d0: "\<not> drained (P u)" if "f \<in> set (pc_held (P t))" for f u
    using safe_total(2) [OF ok I that] e unfolding ended_ok_def by fastforce
  have none: "(\<exists>u. drained ((P(t := p')) u)) \<longrightarrow> sc_total s' = 0" if "f \<in> set (pc_held (P t))" for f
  proof -
    have "\<not> drained p'" using ps(1) d0 [OF that, of t] that by auto
    then show ?thesis using d0 [OF that] by simp
  qed
  show ?thesis
  proof (cases "\<exists>f. f \<in> set (pc_held (P t))")
    case True
    then show ?thesis using none lo unfolding ended_ok_def by blast
  next
    case False
    have ns: "c \<noteq> CallSchedule f ign" for f ign
    proof
      assume cs: "c = CallSchedule f ign"
      then obtain l where l: "P t = At l" "makes_calls l" using st by (cases "P t") (auto split: if_splits)
      have "t < st_threads S" using c cs by blast
      then have "l \<noteq> Outside" using e l unfolding ended_ok_def by auto
      then have "\<exists>f. l = Run f" using l(2) by (cases l) auto
      then show False using False l(1) by auto
    qed
    have "P t \<noteq> At (Bind f)" "P t \<noteq> At (After f)" for f using False by auto
    then have "steady s s'" using ns by (intro pc_step_steady [OF ok I st]) auto
    then have tot: "sc_total s' = sc_total s" by (simp add: steady_def)
    have "sc_total s' = 0" if "drained ((P(t := p')) u)" for u
    proof (cases "u = t")
      case True
      then have "drained (P t) \<or> sc_total s \<le> 0" using ps(1) that by auto
      then show ?thesis using e safe_total(1) [OF ok I] tot unfolding ended_ok_def by fastforce
    next
      case False
      then show ?thesis using e that tot unfolding ended_ok_def by auto
    qed
    then show ?thesis using lo unfolding ended_ok_def by blast
  qed
qed

lemma trace_ended:
  assumes ok: "setting_ok S Q view interest clk"
  shows "trace_run S Q tcs w0 = Some w \<Longrightarrow> safe Q view S interest (wd_sched w0) (wd_pc w0) \<Longrightarrow>
     ended_ok (st_threads S) (wd_sched w0) (wd_pc w0) \<Longrightarrow>
     \<forall>(t, c)\<in>set tcs. t < st_threads S \<or> (\<forall>f ign. c \<noteq> CallSchedule f ign) \<Longrightarrow>
     safe Q view S interest (wd_sched w) (wd_pc w) \<and> ended_ok (st_threads S) (wd_sched w) (wd_pc w)"
proof (induction tcs arbitrary: w0)
  case (Cons tc tcs)
  obtain t c where tc: "tc = (t, c)" by fastforce
  obtain w1 where w1: "thread_step S Q (t, c) w0 = Some w1" "trace_run S Q tcs w1 = Some w"
    using Cons.prems(1) tc by (auto split: option.splits)
  obtain p' s' where p: "pc_step S Q t c (wd_pc w0 t) (wd_sched w0) = Some (p', s')"
      "w1 = \<lparr>wd_sched = s', wd_pc = (wd_pc w0)(t := p')\<rparr>" using w1(1) unfolding thread_step_eq by blast
  have "ended_ok (st_threads S) (wd_sched w1) (wd_pc w1)"
    using ended_step [OF ok Cons.prems(2,3) p(1)] Cons.prems(4) p(2) tc by simp
  then show ?case using Cons.IH [OF w1(2) thread_step_safe [OF ok Cons.prems(2) w1(1)]] Cons.prems(4) by simp
qed simp

lemma start_ended: "start_ok Q view S interest V w \<Longrightarrow> ended_ok (st_threads S) (wd_sched w) (wd_pc w)"
  unfolding start_ok_def Let_def ended_ok_def by simp


section \<open>What is in a queue\<close>

lemma chain_unique: "chain nx n ms \<Longrightarrow> chain nx n ms' \<Longrightarrow> ms = ms'"
proof (induction ms arbitrary: n ms')
  case Nil
  then show ?case by (cases ms') auto
next
  case (Cons m ms)
  then show ?case by (cases ms') auto
qed

lemma qrep_unique:
  assumes V: "qrep K L s V" and W: "qrep K L s W" and k: "k \<in> K"
  shows "V k = W k"
proof -
  have "map (pk s) (V k) = map (pk s) (W k)"
    by (rule chain_unique [OF qrep_chain [OF V k] qrep_chain [OF W k]])
  moreover have "inj_on (pk s) (set (V k) \<union> set (W k))"
    using qrep_inj [OF V k] qrep_sub [OF V k] qrep_sub [OF W k] by (auto intro: inj_on_subset)
  ultimately show ?thesis by (rule map_inj_on)
qed

lemma safe_bells:
  assumes "safe Q view S interest s P" "qrep (stub_queue ` {..<st_threads S}) (st_fibers S) s V" "j < st_threads S"
    "f \<in> set (V (stub_queue j))" "fb_boundQueue (rt_fibers s f) \<noteq> None" "P j = At Hang \<or> P j = At Wait"
  shows "rung s P j"
proof -
  obtain pl W where W: "winv Q view S interest pl W s P" using assms(1) by (rule safeE)
  have "V (stub_queue j) = W (stub_queue j)" by (rule qrep_unique [OF assms(2) winvD(1) [OF W]]) (use assms(3) in simp)
  then show ?thesis using winvD(7) [OF W] assms(3-6) unfolding bells_def by auto
qed

section \<open>A permit that comes late\<close>

text \<open>
  A wake-up between \<open>wait\<close> and \<open>swapOut\<close>: the fiber goes on in the state BLOCKED, and its next \<open>yield\<close> parks it.
\<close>

lemma late_permit_parks:
  assumes pcs: "wd_pc w t = At (Run f)" "wd_pc w u = At Outside" "t < st_threads S"
    and queues: "qrep (stub_queue ` {..<st_threads S}) (st_fibers S) (wd_sched w) V" "V (stub_queue t) = []"
    and out: "f \<in> st_fibers S" "\<forall>j < st_threads S. f \<notin> set (V (stub_queue j))"
    and quiet: "\<not> sc_interrupted (wd_sched w)" "iw_waiters (sc_waiters (wd_sched w) (stub_waiter t)) \<le> 0"
    and blocker: "bl_wakeup (sc_blockers (wd_sched w) bp) = 0" "0 < bl_limit (sc_blockers (wd_sched w) bp)"
      "cxq_poll Q (bl_waitQueue (sc_blockers (wd_sched w) bp)) = (None, q)"
  shows "\<exists>w'. trace_run S Q [(t, CallWait bp), (u, CallWakeUp bp), (u, Go),
        (t, Go), (t, Go), (t, Go), (t, Go), (t, Go), (t, Go), (t, Yield), (t, Go)] w = Some w' \<and>
     wd_pc w' t = At Top \<and> wd_pc w' u = At Outside \<and> fb_state (rt_fibers (wd_sched w') f) = BLOCKED \<and>
     bl_wakeup (sc_blockers (wd_sched w') bp) = 0 \<and>
     bl_waitQueue (sc_blockers (wd_sched w') bp) = cxq_add Q (WFiber f) q \<and>
     qrep (stub_queue ` {..<st_threads S}) (st_fibers S) (wd_sched w') V"
proof -
  let ?K = "stub_queue ` {..<st_threads S}" and ?L = "st_fibers S" and ?q = "stub_queue t" and ?s = "wd_sched w"
  let ?b = "sc_blockers ?s bp"
  have ut: "u \<noteq> t" using pcs by auto
  define s1 where "s1 = upd_fiber f (\<lambda>fb. fb\<lparr>fb_state := BLOCKED\<rparr>) (upd_fiber f (\<lambda>fb. fb\<lparr>fb_blocker := Some bp\<rparr>) ?s)"
  define b1 where "b1 = ?b\<lparr>bl_waitQueue := q, bl_wakeup := 0\<rparr>"
  define s3 where "s3 = upd_blocker bp b1 s1"
  have s3: "fb_state (rt_fibers s3 f) = BLOCKED" "fb_blocker (rt_fibers s3 f) = Some bp" "sc_blockers s3 bp = b1"
    "sc_interrupted s3 = sc_interrupted ?s" "sc_waiters s3 = sc_waiters ?s"
    by (simp_all add: s3_def s1_def upd_blocker_def)
  have q: "?q \<in> ?K" using pcs(3) by simp
  have r3: "qrep ?K ?L s3 V" by (rule qrep_cong [OF queues(1)]) (simp_all add: s3_def s1_def upd_blocker_def)
  have "\<forall>k\<in>?K. f \<notin> set (V k)" using out(2) by auto
  from qrep_add [OF r3 q out(1) this] have r4: "qrep ?K ?L (cq_add ?q f s3) (V(?q := [f]))" using queues(2) by simp
  define s4 where "s4 = cq_add ?q f s3"
  note m4 = more_eq [OF cq_add_more [of ?q f s3], folded s4_def]
  obtain s5 where p: "cq_poll ?q s4 = Some (Some f, s5)" using cq_poll_nonempty [OF r4 q, of f "[]"] by (simp add: s4_def)
  have r5: "qrep ?K ?L s5 V" using qrep_poll [OF r4 q _ p [unfolded s4_def], of "[]"] queues(2) by (simp add: fun_upd_idem)
  have s5: "rt.more s5 = rt.more s4" "fb_state (rt_fibers s5 f) = BLOCKED" "fb_blocker (rt_fibers s5 f) = Some bp"
    using cq_poll_nonempty [OF r4 q, of f "[]"] p s3(1,2) by (auto simp: s4_def cq_add_fields)
  note m5 = more_eq [OF s5(1)]
  define s6 where "s6 = bind_fiber ?q (thread_id t) (stub_waiter t) f (EFiber_setThreadIndex f (int t) s5)"
  have s6: "fb_state (rt_fibers s6 f) = BLOCKED" "fb_blocker (rt_fibers s6 f) = Some bp" "sc_blockers s6 bp = b1"
    using s5(2,3) s3(3) by (simp_all add: s6_def bind_fiber_def EFiber_setThreadIndex_def EFiber_setIoWaiter_def Let_def m5 m4)
  have r6: "qrep ?K ?L s6 V"
    by (rule qrep_cong [OF r5]) (simp_all add: s6_def bind_fiber_def EFiber_setThreadIndex_def EFiber_setIoWaiter_def Let_def)
  let ?s' = "upd_blocker bp (b1\<lparr>bl_waitQueue := cxq_add Q (WFiber f) q\<rparr>) s6"
  have r7: "qrep ?K ?L ?s' V" by (rule qrep_cong [OF r6]) (simp_all add: upd_blocker_def)
  have "\<exists>P. trace_run S Q [(t, CallWait bp), (u, CallWakeUp bp), (u, Go),
        (t, Go), (t, Go), (t, Go), (t, Go), (t, Go), (t, Go), (t, Yield), (t, Go)] w =
      Some \<lparr>wd_sched = ?s', wd_pc = P\<rparr> \<and> P t = At Top \<and> P u = At Outside"
  proof -
    have wait: "EFiberBlocker_wait_fiber bp f ?b ?s = (True, ?b, s1)"
      by (simp add: EFiberBlocker_wait_fiber_def blocker(1) s1_def Let_def)
    have post: "EFiberBlocker_post Q ?b = ((True, None), b1\<lparr>bl_wakeup := 1\<rparr>)"
      using blocker by (simp add: EFiberBlocker_post_def b1_def Let_def)
    have late: "EFiberBlocker_swapOut Q f (b1\<lparr>bl_wakeup := 1\<rparr>) = (False, b1)"
      by (simp add: EFiberBlocker_swapOut_def b1_def)
    have parks: "EFiberBlocker_swapOut Q f b1 = (True, b1\<lparr>bl_waitQueue := cxq_add Q (WFiber f) q\<rparr>)"
      by (simp add: EFiberBlocker_swapOut_def b1_def)
    let ?s2 = "upd_blocker bp (b1\<lparr>bl_wakeup := 1\<rparr>) (upd_blocker bp ?b s1)"
    have s2: "fb_state (rt_fibers ?s2 f) = BLOCKED" "fb_blocker (rt_fibers ?s2 f) = Some bp"
      "sc_blockers ?s2 bp = b1\<lparr>bl_wakeup := 1\<rparr>" "upd_blocker bp b1 ?s2 = s3"
      by (simp_all add: s1_def s3_def upd_blocker_def)
    have after: "after_run Q ?q f ?s2 = Some s4" unfolding after_run_def by (simp add: s2 late s4_def del: upd_blocker_simps)
    have again: "after_run Q ?q f s6 = Some ?s'" by (simp add: after_run_def s6 parks)
    have i4: "\<not> sc_interrupted s4" using quiet(1) by (simp add: m4 s3)
    have w5: "\<not> EIoWaiter_getWaitersCount (sc_waiters s5 (stub_waiter t)) > 0"
      using quiet(2) by (simp add: EIoWaiter_getWaitersCount_def m5 m4 s3)
    show ?thesis
      using pcs(1,2) ut by (simp add: thread_step_def wait post after again i4 p w5 s6_def [symmetric] b1_def [symmetric] upd_blocker_simps)
  qed
  then show ?thesis using s6 r7 by (auto simp: b1_def blocker upd_blocker_def)
qed
end
