(* ===== verification/Demo_Threads.thy ===== *)
theory Demo_Threads
  imports Threads_Reach Demo
begin

text \<open>
  Two threads and two fibers on a kernel that keeps an interest set for each thread: the hypotheses of the
  properties of the threads hold, and some courses of events that the threads can take.
\<close>

section \<open>A kernel for several threads\<close>

definition lift_os :: "nat \<Rightarrow> 'k os \<Rightarrow> (nat \<Rightarrow> 'k) os" where
  "lift_os t os = \<lparr>os_gettimeofday = (\<lambda>K. apsnd (\<lambda>k. K(t := k)) (os_gettimeofday os (K t))),
     os_time = (\<lambda>K. apsnd (\<lambda>k. K(t := k)) (os_time os (K t))),
     os_epoll_ctl = (\<lambda>opr fd ev K. apsnd (\<lambda>k. K(t := k)) (os_epoll_ctl os opr fd ev (K t))),
     os_epoll_wait = (\<lambda>n tmo K. apsnd (\<lambda>k. K(t := k)) (os_epoll_wait os n tmo (K t)))\<rparr>"

lemma apsnd_eq: "apsnd g z = (x, y) \<longleftrightarrow> (\<exists>b. z = (x, b) \<and> y = g b)"
  by (cases z) auto

lemma lift_os_ok:
  assumes os: "os_ok os interest clk"
  shows "os_ok (lift_os t os) (\<lambda>K. interest (K t)) (\<lambda>K. clk (K t))"
proof -
  note d = os_okD [OF os]
  have ctl: "\<exists>k. os_epoll_ctl os opr fd ev (K t) = (r, k) \<and> K' = K(t := k)"
    if "os_epoll_ctl (lift_os t os) opr fd ev K = (r, K')" for opr fd ev K r K'
    using that by (cases "os_epoll_ctl os opr fd ev (K t)") (auto simp: lift_os_def)
  have e: "epoll_spec (lift_os t os) (\<lambda>K. interest (K t))"
    unfolding epoll_spec_def
  proof (intro conjI allI impI)
    fix fd ev K r K'
    assume a: "interest (K t) fd = None \<and> os_epoll_ctl (lift_os t os) EPOLL_CTL_ADD fd ev K = (r, K')"
    then obtain k where k: "os_epoll_ctl os EPOLL_CTL_ADD fd ev (K t) = (r, k)" "K' = K(t := k)" using ctl by blast
    show "r = -1 \<and> interest (K' t) = interest (K t) \<or> r = 0 \<and> interest (K' t) = (interest (K t))(fd \<mapsto> ev)"
      using epoll_add [OF d(1) conjunct1 [OF a] k(1)] k(2) by simp
  next
    fix fd ev K r K'
    assume a: "interest (K t) fd \<noteq> None \<and> os_epoll_ctl (lift_os t os) EPOLL_CTL_MOD fd ev K = (r, K')"
    then obtain k where k: "os_epoll_ctl os EPOLL_CTL_MOD fd ev (K t) = (r, k)" "K' = K(t := k)" using ctl by blast
    show "r = 0" "interest (K' t) = (interest (K t))(fd \<mapsto> ev)"
      using epoll_mod [OF d(1) conjunct1 [OF a] k(1)] k(2) by simp_all
  next
    fix fd ev K r K'
    assume a: "interest (K t) fd \<noteq> None \<and> os_epoll_ctl (lift_os t os) EPOLL_CTL_DEL fd ev K = (r, K')"
    then obtain k where k: "os_epoll_ctl os EPOLL_CTL_DEL fd ev (K t) = (r, k)" "K' = K(t := k)" using ctl by blast
    show "r = 0" "interest (K' t) = (interest (K t))(fd := None)"
      using epoll_del [OF d(1) conjunct1 [OF a] k(1)] k(2) by simp_all
  qed
  have c: "clock_spec (lift_os t os) (\<lambda>K. clk (K t))"
    using d(2) unfolding clock_spec_def by (auto simp: lift_os_def Let_def apsnd_eq split: prod.splits)
  have w: "interest (K' t) = interest (K t) \<and> clk (K t) \<le> clk (K' t) \<and> (\<forall>e\<in>set evs. interest (K t) (fst e) \<noteq> None)"
    if "os_epoll_wait (lift_os t os) n tmo K = ((r, evs), K')" for n tmo K r evs K'
    using that os_wait [OF os, of n tmo "K t"] by (cases "os_epoll_wait os n tmo (K t)") (auto simp: lift_os_def)
  show ?thesis
    unfolding os_ok_def using e c w d(3,4) by (auto simp: lift_os_def)
qed

lemma lift_os_keeps: "u \<noteq> t \<Longrightarrow> calls_keep (lift_os t os) (\<lambda>K. v (K u))"
  by (simp add: calls_keep_def lift_os_def)

section \<open>Two threads\<close>

definition two :: "(nat \<Rightarrow> simk) setting" where
  "two = \<lparr>st_os = (\<lambda>t. lift_os t sim_os), st_threads = 2, st_fibers = {1, 2}, st_scheduler = 0, st_balance = None\<rparr>"

definition two_interest :: "nat \<Rightarrow> (nat \<Rightarrow> simk) \<Rightarrow> int \<rightharpoonup> int" where
  "two_interest t K = sk_interest (K t)"

definition two_clock :: "nat \<Rightarrow> (nat \<Rightarrow> simk) \<Rightarrow> int" where
  "two_clock t K = sk_clock (K t)"

lemma two_ok: "setting_ok two list_cxx (\<lambda>q. q) two_interest two_clock"
proof -
  have "os_ok (lift_os t sim_os) (two_interest t) (two_clock t)" for t
    unfolding two_interest_def [abs_def] two_clock_def [abs_def] by (rule lift_os_ok [OF sim_os_ok])
  moreover have "calls_keep (lift_os t sim_os) (two_interest u)" if "u \<noteq> t" for t u
    unfolding two_interest_def [abs_def] by (rule lift_os_keeps [OF that])
  ultimately show ?thesis by (simp add: setting_ok_def two_def list_cxx_fifo)
qed

text \<open>The fibers 1 and 2 have been constructed; the queues are empty.\<close>

definition two_sched :: "(waiter list, nat \<Rightarrow> simk, unit) sched" where
  "two_sched = \<lparr>rt_fibers = (\<lambda>f. blank_fiber\<lparr>fb_packing := f\<rparr>), rt_nodes = (\<lambda>_. \<lparr>nd_value = None, nd_next = None\<rparr>),
     rt_queues = (\<lambda>q. \<lparr>cq_head = q + 10, cq_tail = q + 10\<rparr>), rt_signals = (\<lambda>_. 0), rt_idCounter = 3,
     sc_blockers = (\<lambda>_. EFiberBlocker_ctor list_cxx 0 1), sc_waiters = (\<lambda>_. fst (the (EIoWaiter_ctor sim_os 8 3 sim0))),
     sc_hung = (\<lambda>_. None), sc_kernel = (\<lambda>_. snd (the (EIoWaiter_ctor sim_os 8 3 sim0))), sc_total = 0,
     sc_interrupted = False, sc_balanceIndex = 0, sc_stubs = Some 2, sc_threadNums = 2, sc_code = (\<lambda>_. ())\<rparr>"

definition two0 :: "(waiter list, nat \<Rightarrow> simk, unit) world" where
  "two0 = \<lparr>wd_sched = two_sched, wd_pc = (\<lambda>t. At (if t < 2 then Top else Outside))\<rparr>"

lemma two_start: "start_ok list_cxx (\<lambda>q. q) two two_interest (\<lambda>_. []) two0"
proof -
  obtain iw k where c: "EIoWaiter_ctor sim_os 8 3 sim0 = Some (iw, k)" "waiter_ok {} iw" "synced sk_interest (iw_poll iw) k"
    using EIoWaiter_ctor_ok [OF sim_os_ok, of sim0 8 3 "{}"] by (auto simp: sim0_def)
  have q: "qrep (stub_queue ` {..<2}) {1, 2} two_sched (\<lambda>_. [])"
    by (auto simp: qrep_def two_sched_def inj_on_def stub_queue_def)
  have b: "\<exists>p l ws. blk_sem list_cxx (\<lambda>q. q) (sc_blockers two_sched bp) p l ws \<and> (\<forall>x\<in>set ws. x = WThread)" for bp
    using ctor_sem [OF list_cxx_fifo, of 0 1] unfolding two_sched_def by (intro exI conjI) auto
  have sy: "synced (two_interest i) p (\<lambda>_. k) \<longleftrightarrow> synced sk_interest p k" for i and p :: "(fproc, fptr, tproc) poll"
    by (simp add: synced_def two_interest_def)
  have w: "waiters_fine 2 two_interest two_sched"
    using c(2,3) by (simp add: waiters_fine_def two_sched_def c(1) sy)
  have f: "\<forall>f\<in>{1, 2}. fb_boundQueue (rt_fibers two_sched f) = None \<and> fb_state (rt_fibers two_sched f) = NEW"
    by (simp add: two_sched_def blank_fiber_def)
  show ?thesis
    unfolding start_ok_def Let_def using q b w f by (simp add: two0_def two_def two_sched_def)
qed

section \<open>Courses of events\<close>

text \<open>Steps of thread 0 in the loop, and a call of \<open>schedule\<close> by thread 5.\<close>

definition go :: "nat \<Rightarrow> nat \<Rightarrow> (nat \<times> choice) list" where
  "go t n = replicate n (t, Go)"

definition start_fiber :: "fptr \<Rightarrow> (nat \<times> choice) list" where
  "start_fiber f = (5, CallSchedule f True) # go 5 2"

text \<open>Fiber 1 waits, thread 0 finds its queue empty, and fiber 2 is being scheduled.\<close>

definition overlooked :: "(nat \<times> choice) list" where
  "overlooked = start_fiber 1 @ go 0 5 @ [(0, CallWait 7)] @ go 0 4 @ [(5, CallSchedule 2 True)]"

section \<open>Worlds that the properties are applied to\<close>

lemma course:
  assumes "map_option v (trace_run two list_cxx tcs two0) = Some x"
  obtains w where "reaches two list_cxx two0 w" "v w = x"
  using assms trace_reaches [OF reaches.start] by fastforce

text \<open>Fiber 1 runs on thread 0.\<close>

lemma running_world: "\<exists>w. reaches two list_cxx two0 w \<and> wd_pc w 0 = At (Run 1) \<and> runs (wd_pc w 0) = Some 1"
proof -
  have "map_option (\<lambda>w. wd_pc w 0) (trace_run two list_cxx (start_fiber 1 @ go 0 5) two0) = Some (At (Run 1))" by code_simp
  then show ?thesis by (rule course) auto
qed

text \<open>Fiber 1 waits, thread 0 finds its queue empty, and another thread wakes the fiber.\<close>

definition woken :: "(nat \<times> choice) list" where
  "woken = start_fiber 1 @ go 0 5 @ [(0, CallWait 7)] @ go 0 4 @ [(5, CallWakeUp 7)] @ go 5 5"

lemma woken_world:
  "\<exists>w V. reaches two list_cxx two0 w \<and> qrep (stub_queue ` {..<st_threads two}) (st_fibers two) (wd_sched w) V \<and>
     1 \<in> set (V (stub_queue 0)) \<and> fb_boundQueue (rt_fibers (wd_sched w) 1) \<noteq> None \<and> wd_pc w 0 = At Hang"
proof -
  have "map_option (\<lambda>w. (wd_pc w 0, fb_boundQueue (rt_fibers (wd_sched w) 1), map_option fst (cq_poll (stub_queue 0) (wd_sched w))))
      (trace_run two list_cxx woken two0) = Some (At Hang, Some 1, Some (Some 1))" by code_simp
  then obtain w where w: "reaches two list_cxx two0 w"
      "(wd_pc w 0, fb_boundQueue (rt_fibers (wd_sched w) 1), map_option fst (cq_poll (stub_queue 0) (wd_sched w))) = (At Hang, Some 1, Some (Some 1))"
    by (rule course)
  obtain pl V where V: "winv list_cxx (\<lambda>q. q) two two_interest pl V (wd_sched w) (wd_pc w)"
    using reaches_safe [OF two_ok start_safe [OF two_start] w(1)] by (rule safeE)
  have q: "stub_queue 0 \<in> stub_queue ` {..<st_threads two}" by (simp add: two_def)
  have "1 \<in> set (V (stub_queue 0))"
  proof (cases "V (stub_queue 0)")
    case Nil
    then show ?thesis using cq_poll_empty [OF winvD(1) [OF V] q] w(2) by simp
  next
    case (Cons f es)
    then show ?thesis using cq_poll_nonempty [OF winvD(1) [OF V] q Cons] w(2) by simp
  qed
  then show ?thesis using w winvD(1) [OF V] by auto
qed

text \<open>Fiber 1 runs on thread 0, and there is nothing else to do.\<close>

lemma quiet_world:
  "\<exists>w V. reaches two list_cxx two0 w \<and> wd_pc w 0 = At (Run 1) \<and> wd_pc w 5 = At Outside \<and>
     qrep (stub_queue ` {..<st_threads two}) (st_fibers two) (wd_sched w) V \<and> V (stub_queue 0) = [] \<and>
     (\<forall>j < st_threads two. 1 \<notin> set (V (stub_queue j))) \<and> \<not> sc_interrupted (wd_sched w) \<and>
     iw_waiters (sc_waiters (wd_sched w) (stub_waiter 0)) \<le> 0 \<and> bl_wakeup (sc_blockers (wd_sched w) 7) = 0 \<and>
     0 < bl_limit (sc_blockers (wd_sched w) 7) \<and> cxq_poll list_cxx (bl_waitQueue (sc_blockers (wd_sched w) 7)) = (None, [])"
proof -
  have "map_option (\<lambda>w. let s = wd_sched w; b = sc_blockers s 7 in
        (wd_pc w 0, wd_pc w 5, map_option fst (cq_poll (stub_queue 0) s), map_option fst (cq_poll (stub_queue 1) s),
         sc_interrupted s, iw_waiters (sc_waiters s (stub_waiter 0)), bl_wakeup b, bl_limit b, bl_waitQueue b))
      (trace_run two list_cxx (start_fiber 1 @ go 0 5) two0) =
      Some (At (Run 1), At Outside, Some None, Some None, False, 0, 0, 1, [])" by code_simp
  then obtain w where w: "reaches two list_cxx two0 w" "wd_pc w 0 = At (Run 1)" "wd_pc w 5 = At Outside"
      "map_option fst (cq_poll (stub_queue 0) (wd_sched w)) = Some None"
      "map_option fst (cq_poll (stub_queue 1) (wd_sched w)) = Some None"
      "\<not> sc_interrupted (wd_sched w)" "iw_waiters (sc_waiters (wd_sched w) (stub_waiter 0)) = 0"
      "bl_wakeup (sc_blockers (wd_sched w) 7) = 0" "bl_limit (sc_blockers (wd_sched w) 7) = 1"
      "bl_waitQueue (sc_blockers (wd_sched w) 7) = []"
    by (rule course) (simp add: Let_def)
  obtain pl V where V: "winv list_cxx (\<lambda>q. q) two two_interest pl V (wd_sched w) (wd_pc w)"
    using reaches_safe [OF two_ok start_safe [OF two_start] w(1)] by (rule safeE)
  have e: "V (stub_queue j) = []" if "j = 0 \<or> j = 1" for j
  proof (cases "V (stub_queue j)")
    case (Cons f es)
    have "stub_queue j \<in> stub_queue ` {..<st_threads two}" using that by (auto simp: two_def)
    from cq_poll_nonempty [OF winvD(1) [OF V] this Cons] show ?thesis using w(4,5) that by auto
  qed
  have "\<forall>j < st_threads two. 1 \<notin> set (V (stub_queue j))"
  proof (intro allI impI)
    fix j assume "j < st_threads two"
    then have "j = 0 \<or> j = 1" by (auto simp: two_def)
    then show "1 \<notin> set (V (stub_queue j))" using e by simp
  qed
  then show ?thesis using w winvD(1) [OF V] e [of 0]
    by (intro exI [of _ w] exI [of _ V]) (simp add: list_cxx_def)
qed
lemma overlooked_world:
  "\<exists>w. reaches two list_cxx two0 w \<and> wd_pc w 5 = In (SchedAdd 2 0) Outside \<and> wd_pc w 0 = At Hang \<and>
     sc_hung (wd_sched w) 0 = None \<and> rt_signals (wd_sched w) (stub_waiter 0) = 0"
proof -
  have "map_option (\<lambda>w. (wd_pc w 5, wd_pc w 0, sc_hung (wd_sched w) 0, rt_signals (wd_sched w) (stub_waiter 0)))
      (trace_run two list_cxx overlooked two0) = Some (In (SchedAdd 2 0) Outside, At Hang, None, 0)" by code_simp
  then show ?thesis by (rule course) auto
qed

text \<open>Fiber 1 has been dealt to thread 0; it runs, ends, and the thread leaves its loop.\<close>

definition one0 :: "(waiter list, nat \<Rightarrow> simk, unit) world" where
  "one0 = two0\<lparr>wd_sched := cq_add (stub_queue 0) 1 (EFiber_setState 1 RUNNABLE (two_sched\<lparr>sc_total := 1\<rparr>))\<rparr>"

lemma one_start: "start_ok list_cxx (\<lambda>q. q) two two_interest ((\<lambda>_. [])(stub_queue 0 := [1])) one0"
proof -
  let ?s = "EFiber_setState 1 RUNNABLE (two_sched\<lparr>sc_total := 1\<rparr>)" and ?V = "(\<lambda>_. [])(stub_queue 0 := [1])"
  have st: "qrep (stub_queue ` {..<2}) {1, 2} two_sched (\<lambda>_. [])" "waiters_fine 2 two_interest two_sched"
    "\<And>bp. \<exists>p l ws. blk_sem list_cxx (\<lambda>q. q) (sc_blockers two_sched bp) p l ws \<and> (\<forall>x\<in>set ws. x = WThread)"
    using two_start unfolding start_ok_def Let_def by (simp_all add: two_def two0_def)
  have "qrep (stub_queue ` {..<2}) {1, 2} ?s (\<lambda>_. [])"
    by (rule qrep_cong [OF st(1)]) (simp_all add: EFiber_setState_def)
  then have q: "qrep (stub_queue ` {..<2}) {1, 2} (cq_add (stub_queue 0) 1 ?s) ?V"
    using qrep_add [of "stub_queue ` {..<2}" "{1, 2}" ?s "\<lambda>_. []" "stub_queue 0" 1] by simp
  note m = more_eq [OF cq_add_more [of "stub_queue 0" 1 ?s]]
  have s: "sc_blockers ?s = sc_blockers two_sched" "sc_waiters ?s = sc_waiters two_sched" "sc_kernel ?s = sc_kernel two_sched"
      "sc_total ?s = 1"
    by (simp_all add: EFiber_setState_def)
  have bi: "sc_balanceIndex (cq_add (stub_queue 0) 1 ?s) = 0" by code_simp
  have w: "waiters_fine 2 two_interest (cq_add (stub_queue 0) 1 ?s)" using st(2) unfolding waiters_fine_def m s .
  have fb: "rt_fibers (cq_add (stub_queue 0) 1 ?s) = (\<lambda>f. blank_fiber\<lparr>fb_packing := f\<rparr>)(1 := blank_fiber\<lparr>fb_packing := 1, fb_state := RUNNABLE\<rparr>)"
    by (simp add: cq_add_fields EFiber_setState_def two_sched_def)
  have d: "(\<Union>i<2. set (?V (stub_queue i))) = {1}" by (auto simp: stub_queue_def)
  define z where "z = cq_add (stub_queue 0) 1 ?s"
  have z: "sc_blockers z = sc_blockers two_sched" "sc_total z = 1" "sc_balanceIndex z = 0"
      "qrep (stub_queue ` {..<2}) {1, 2} z ?V" "waiters_fine 2 two_interest z"
      "\<forall>f\<in>{1, 2}. fb_boundQueue (rt_fibers z f) = None \<and> fb_state (rt_fibers z f) = (if f \<in> {1} then RUNNABLE else NEW)"
    unfolding z_def m s bi fb using q w by (simp_all add: blank_fiber_def)
  have e: "wd_sched one0 = z" "wd_pc one0 = (\<lambda>t. At (if t < 2 then Top else Outside))" "st_threads two = 2" "st_fibers two = {1, 2}"
    by (simp_all add: one0_def two0_def two_def z_def)
  show ?thesis
    unfolding start_ok_def Let_def e d z(1-3) using z(4-6) st(3) by simp
qed

definition one_fiber_ends :: "(nat \<times> choice) list" where
  "one_fiber_ends = go 0 5 @ [(0, Return)]"

lemma one_fiber_run:
  "\<exists>w. trace_run two list_cxx (one_fiber_ends @ go 0 5) one0 = Some w \<and> wd_pc w 0 = At (Ended Break)"
proof -
  have "map_option (\<lambda>w. wd_pc w 0) (trace_run two list_cxx (one_fiber_ends @ go 0 5) one0) = Some (At (Ended Break))" by code_simp
  then show ?thesis by auto
qed

end
