(* ===== verification/Hooker_Mac.thy ===== *)
theory Hooker_Mac
  imports Hooker_Io Event_Kqueue
begin

text \<open>
  The hooks of src/EHooker.cpp that only the macOS build has: \<open>kevent\<close>, \<open>kevent64\<close> and its \<open>sendfile\<close>. There the
  io waiter runs on the kqueue back end. Its operations are written with the back end as an argument first, and
  shown to be those of \<open>Io_Waiter\<close> and \<open>Hooker_Wait\<close> when the back end is epoll.
\<close>

section \<open>The io waiter on any back end\<close>

type_synonym 'k add_fn = "(fproc, fptr, tproc) poll \<Rightarrow> int \<Rightarrow> int \<Rightarrow> 'k \<Rightarrow> int \<times> 'k"
type_synonym 'k del_fn = "(fproc, fptr, tproc) poll \<Rightarrow> int \<Rightarrow> int \<Rightarrow> 'k \<Rightarrow> 'k"

definition set_event_on :: "'k add_fn \<Rightarrow> int \<Rightarrow> int \<Rightarrow> ('k, 'z) hw \<Rightarrow> ('k, 'z) hw option" where
  "set_event_on add fd msk w =
     (case file_event_create_on add (iw_poll (hw_waiter w)) fd msk FileEventProc (CLive (hw_fiber w)) (hw_kernel w) of
        None \<Rightarrow> None
      | Some ((ok, p), k) \<Rightarrow>
          Some (w\<lparr>hw_waiter := (hw_waiter w)\<lparr>iw_poll := p, iw_waiters := iw_waiters (hw_waiter w) + 1\<rparr>,
                  hw_kernel := k,
                  hw_rt := upd_fiber (hw_fiber w) (\<lambda>fb. fb\<lparr>fb_state := WAITING\<rparr>) (hw_rt w)\<rparr>))"

definition del_event_on :: "'k del_fn \<Rightarrow> int \<Rightarrow> int \<Rightarrow> ('k, 'z) hw \<Rightarrow> ('k, 'z) hw option" where
  "del_event_on del fd msk w =
     (let iw = hw_waiter w; p = iw_poll iw in
      if fd \<ge> pl_setsize p then Some w
      else if fd < 0 then None
      else if fe_clientData (pl_events p ! nat fd) = CDead then None
      else
       (let freed = (case fe_clientData (pl_events p ! nat fd) of CLive f \<Rightarrow> CDead | cd \<Rightarrow> cd);
            p1 = p\<lparr>pl_events := (pl_events p)[nat fd := (pl_events p ! nat fd)\<lparr>fe_clientData := freed\<rparr>]\<rparr>
        in case file_event_delete_on del p1 fd msk (hw_kernel w) of
             None \<Rightarrow> None
           | Some (p2, k) \<Rightarrow>
               Some (w\<lparr>hw_waiter := iw\<lparr>iw_poll := p2, iw_waiters := iw_waiters iw - 1\<rparr>, hw_kernel := k\<rparr>)))"

lemma set_event_epoll: "set_event_on (aeApiAddEvent os) fd msk w = hw_setFileEvent os fd msk w"
  by (simp add: set_event_on_def hw_setFileEvent_def EIoWaiter_setFileEvent_def file_event_create_epoll
    split: option.splits prod.splits)

lemma del_event_epoll: "del_event_on (aeApiDelEvent os) fd msk w = hw_delFileEvent os fd msk w"
  by (simp add: del_event_on_def hw_delFileEvent_def EIoWaiter_delFileEvent_def file_event_delete_epoll Let_def
    split: option.splits prod.splits cdata.splits)

fun poll_register_on :: "'k add_fn \<Rightarrow> pollfd list \<Rightarrow> ('k, 'z) hw \<Rightarrow> ('k, 'z) hw option" where
  "poll_register_on add [] w = Some w"
| "poll_register_on add (pf # fds) w =
     (if pf_fd pf < 0 then poll_register_on add fds w
      else (case set_event_on add (pf_fd pf) (PollEvent2EEvent (pf_events pf)) w of
              None \<Rightarrow> None | Some w' \<Rightarrow> poll_register_on add fds w'))"

definition poll_start_on :: "'k add_fn \<Rightarrow> 'k os \<Rightarrow> 'k poll_fn \<Rightarrow> pollfd list \<Rightarrow> int \<Rightarrow> ('k, 'z) hw \<Rightarrow>
    (poll_out \<times> ('k, 'z) hw) option" where
  "poll_start_on add os poll_f fds timeout w =
     (if bypass w then Some (poll_orig poll_f fds timeout w)
      else if timeout = 0 then Some (poll_orig poll_f fds timeout w)
      else if \<forall>pf\<in>set fds. pf_fd pf < 0 then Some (PollSleep timeout, w)
      else
       (let ((ret, err, fds'), w1) = on_kernel (poll_f fds 0) w in
        if ret \<noteq> 0 then Some (PollDone ret err fds', w1)
        else
         (case poll_register_on add fds' w1 of
            None \<Rightarrow> None
          | Some w2 \<Rightarrow>
              if \<forall>pf\<in>set fds'. pf_fd pf < 0 then Some (PollDone (int (length fds')) 0 fds', w2)
              else
               (let (timerID, w3) = (if timeout > 0 then hw_setupTimer os timeout w2 else (-1, w2))
                in Some (PollPark timerID, EIoWaiter_swapOut w3)))))"

lemma poll_register_epoll: "poll_register_on (aeApiAddEvent os) = poll_register os"
proof (intro ext)
  show "poll_register_on (aeApiAddEvent os) fds w = poll_register os fds w" for fds and w :: "('a, 'b) hw"
    by (induction fds arbitrary: w) (simp_all add: set_event_epoll split: option.split)
qed

lemma poll_start_epoll: "poll_start_on (aeApiAddEvent os) os poll_f fds timeout w = hook_poll_start os poll_f fds timeout w"
  unfolding poll_start_on_def hook_poll_start_def poll_register_epoll ..

fun poll_drop_on :: "'k del_fn \<Rightarrow> pollfd list \<Rightarrow> ('k, 'z) hw \<Rightarrow> ('k, 'z) hw option" where
  "poll_drop_on del [] w = Some w"
| "poll_drop_on del (pf # fds) w =
     (case del_event_on del (pf_fd pf) ECO_POLL_ALL_EVENTS w of
        None \<Rightarrow> None | Some w' \<Rightarrow> poll_drop_on del fds w')"

fun poll_collect_on :: "'k del_fn \<Rightarrow> pollfd list \<Rightarrow> ('k, 'z) hw \<Rightarrow> (pollfd list \<times> ('k, 'z) hw) option" where
  "poll_collect_on del [] w = Some ([], w)"
| "poll_collect_on del (pf # fds) w =
     (case EIoWaiter_getFileEvent (pf_fd pf) (hw_waiter w) of
        None \<Rightarrow> None
      | Some ev \<Rightarrow>
          (case del_event_on del (pf_fd pf) ECO_POLL_ALL_EVENTS w of
             None \<Rightarrow> None
           | Some w' \<Rightarrow>
               (case poll_collect_on del fds w' of
                  None \<Rightarrow> None
                | Some (fds', w'') \<Rightarrow> Some (pf\<lparr>pf_revents := EEvent2PollEvent ev\<rparr> # fds', w''))))"

definition poll_resume_on :: "'k del_fn \<Rightarrow> pollfd list \<Rightarrow> int \<Rightarrow> ('k, 'z) hw \<Rightarrow>
    ((int \<times> pollfd list) \<times> ('k, 'z) hw) option" where
  "poll_resume_on del fds timerID w =
     (let w1 = (if timerID \<noteq> -1 then hw_cancelTimer timerID w else w);
          (timedout, w2) = hw_isWaitTimeout w1
      in if timedout then
           (case poll_drop_on del fds w2 of None \<Rightarrow> None | Some w3 \<Rightarrow> Some ((0, fds), w3))
         else
           (case poll_collect_on del fds w2 of
              None \<Rightarrow> None
            | Some (fds', w3) \<Rightarrow>
                Some ((int (length (filter (\<lambda>pf. pf_revents pf \<noteq> 0) fds')), fds'), w3)))"

lemma poll_drop_epoll: "poll_drop_on (aeApiDelEvent os) = poll_drop os"
proof (intro ext)
  show "poll_drop_on (aeApiDelEvent os) fds w = poll_drop os fds w" for fds and w :: "('a, 'b) hw"
    by (induction fds arbitrary: w) (simp_all add: del_event_epoll split: option.split)
qed

lemma poll_collect_epoll: "poll_collect_on (aeApiDelEvent os) = poll_collect os"
proof (intro ext)
  show "poll_collect_on (aeApiDelEvent os) fds w = poll_collect os fds w" for fds and w :: "('a, 'b) hw"
    by (induction fds arbitrary: w) (simp_all add: del_event_epoll split: option.split)
qed

lemma poll_resume_epoll: "poll_resume_on (aeApiDelEvent os) fds tid w = hook_poll_resume os fds tid w"
  unfolding poll_resume_on_def hook_poll_resume_def poll_drop_epoll poll_collect_epoll ..

section \<open>kevent and kevent64\<close>

text \<open>
  The original: from the changes (a null list is the empty one), the room for events (\<^term>\<open>None\<close> for a null
  \<open>eventlist\<close>) and the timeout (seconds and nanoseconds) to whatever it returns.
\<close>

type_synonym ('c, 'e, 'k) kevent_fn = "'c list \<Rightarrow> int option \<Rightarrow> (int \<times> int) option \<Rightarrow> 'k \<Rightarrow> 'e \<times> 'k"

datatype 'e kevent_out = KeventDone 'e | KeventPark int

definition kevent_ms :: "(int \<times> int) option \<Rightarrow> int" where
  "kevent_ms timeout = (case timeout of Some (sec, nsec) \<Rightarrow> sec * 1000 + nsec sdiv 1000000 | None \<Rightarrow> INT_MAX)"

definition hook_kevent_start :: "'k add_fn \<Rightarrow> 'k os \<Rightarrow> ('c, 'e, 'k) kevent_fn \<Rightarrow> int \<Rightarrow> 'c list \<Rightarrow> int option \<Rightarrow>
    (int \<times> int) option \<Rightarrow> ('k, 'z) hw \<Rightarrow> ('e kevent_out \<times> ('k, 'z) hw) option" where
  "hook_kevent_start add os kevent_f kq changes room timeout w =
     (if bypass w \<or> timeout = Some (0, 0) \<or> room = None \<or> room = Some 0 then
        (let (r, w') = on_kernel (kevent_f changes room timeout) w in Some (KeventDone r, w'))
      else
       (let w1 = (if changes \<noteq> [] then snd (on_kernel (kevent_f changes None None) w) else w)
        in case set_event_on add kq ECO_POLL_READABLE w1 of
             None \<Rightarrow> None
           | Some w2 \<Rightarrow>
               (let (timerID, w3) = hw_setupTimer os (kevent_ms timeout) w2
                in Some (KeventPark timerID, EIoWaiter_swapOut w3))))"

text \<open>The second part: \<open>Inl\<close> is -1 with that \<open>errno\<close>, \<open>Inr\<close> what the original returns.\<close>

definition hook_kevent_resume :: "'k del_fn \<Rightarrow> ('c, 'e, 'k) kevent_fn \<Rightarrow> int \<Rightarrow> int option \<Rightarrow> int \<Rightarrow> ('k, 'z) hw \<Rightarrow>
    ((int + 'e) \<times> ('k, 'z) hw) option" where
  "hook_kevent_resume del kevent_f kq room timerID w =
     (case del_event_on del kq ECO_POLL_ALL_EVENTS (hw_cancelTimer timerID w) of
        None \<Rightarrow> None
      | Some w1 \<Rightarrow>
          (let (timedout, w2) = hw_isWaitTimeout w1 in
           if timedout then Some (Inl EINVAL, w2)
           else (let (r, w3) = on_kernel (kevent_f [] room (Some (0, 0))) w2 in Some (Inr r, w3))))"

text \<open>\<open>kevent64\<close> is the same code; it passes its flags to every call of the original.\<close>

definition hook_kevent64_start :: "'k add_fn \<Rightarrow> 'k os \<Rightarrow> (int \<Rightarrow> ('c, 'e, 'k) kevent_fn) \<Rightarrow> int \<Rightarrow> int \<Rightarrow> 'c list \<Rightarrow>
    int option \<Rightarrow> (int \<times> int) option \<Rightarrow> ('k, 'z) hw \<Rightarrow> ('e kevent_out \<times> ('k, 'z) hw) option" where
  "hook_kevent64_start add os kevent64_f flags kq changes room timeout w =
     hook_kevent_start add os (kevent64_f flags) kq changes room timeout w"

definition hook_kevent64_resume :: "'k del_fn \<Rightarrow> (int \<Rightarrow> ('c, 'e, 'k) kevent_fn) \<Rightarrow> int \<Rightarrow> int \<Rightarrow> int option \<Rightarrow> int \<Rightarrow>
    ('k, 'z) hw \<Rightarrow> ((int + 'e) \<times> ('k, 'z) hw) option" where
  "hook_kevent64_resume del kevent64_f flags kq room timerID w =
     hook_kevent_resume del (kevent64_f flags) kq room timerID w"

section \<open>sendfile of macOS\<close>

abbreviation (input) MAC_EAGAIN :: int where "MAC_EAGAIN \<equiv> 35"
abbreviation (input) MAC_ETIMEDOUT :: int where "MAC_ETIMEDOUT \<equiv> 60"

text \<open>
  \<open>sf\<close> is \<open>sendfile_f\<close> on the two descriptors with the header and the flags of the caller: from the offset and
  the length to the result, \<open>errno\<close> and the number of bytes that it writes to \<open>outlen\<close>. The loop carries
  \<open>offset\<close> and \<open>inlen\<close>; the result and \<open>errno\<close> are all that the caller gets (\<open>MSendDone\<close>), \<open>*len\<close> is not
  written. When the original is called for the caller, it also writes \<open>*len\<close> (\<open>MSendOrig\<close>).
\<close>

datatype msend_out = MSendOrig int int int | MSendDone int int | MSendPark int int int | MSendSleep int

partial_function (option) mac_sendfile_loop :: "'k add_fn \<Rightarrow> 'k os \<Rightarrow> 'k poll_fn \<Rightarrow> 'k send_fn \<Rightarrow> int \<Rightarrow> int \<Rightarrow>
    (int \<times> int) option \<Rightarrow> int \<Rightarrow> int \<Rightarrow> ('k, 'z) hw \<Rightarrow> (msend_out fres \<times> ('k, 'z) hw) option" where
  "mac_sendfile_loop add os poll_f sf s ms pr off inlen w =
     (case pr of
        None \<Rightarrow>
          (case poll_start_on add os poll_f [io_pollfd s POLLOUT] ms w of
             None \<Rightarrow> Some (FFault, w)
           | Some (PollDone ret err fds, w1) \<Rightarrow>
               mac_sendfile_loop add os poll_f sf s ms (Some (ret, err)) off inlen w1
           | Some (PollSleep t, w1) \<Rightarrow> Some (FOk (MSendSleep t), w1)
           | Some (PollPark tid, w1) \<Rightarrow> Some (FOk (MSendPark tid off inlen), w1))
      | Some (ret, err) \<Rightarrow>
          if ret = 1 then
            (case on_kernel (sf off inlen) w of ((r, e, outlen), w1) \<Rightarrow>
               if r = -1 \<and> e = MAC_EAGAIN then
                 let off' = (if outlen > 0 then off + outlen else off);
                     inlen' = (if outlen > 0 then inlen - outlen else inlen)
                 in if inlen' > 0 then mac_sendfile_loop add os poll_f sf s ms None off' inlen' w1
                    else Some (FOk (MSendDone r e), w1)
               else Some (FOk (MSendDone r (if r = 0 then 0 else e)), w1))
          else if ret = 0 then Some (FOk (MSendDone (-1) MAC_ETIMEDOUT), w)
          else Some (FOk (MSendDone ret err), w))"

text \<open>\<open>len\<close> is \<^term>\<open>None\<close> for a null pointer; then \<open>inlen\<close> is 0.\<close>

definition hook_mac_sendfile :: "'k sysapi \<Rightarrow> (int \<Rightarrow> int) \<Rightarrow> 'k add_fn \<Rightarrow> 'k os \<Rightarrow> 'k poll_fn \<Rightarrow> 'k send_fn \<Rightarrow>
    (int \<Rightarrow> int option \<Rightarrow> 'k \<Rightarrow> (int \<times> int \<times> int) \<times> 'k) \<Rightarrow> int \<Rightarrow> int \<Rightarrow> int option \<Rightarrow> ('k, 'z) hw \<Rightarrow>
    (msend_out fres \<times> ('k, 'z) hw) option" where
  "hook_mac_sendfile S up add os poll_f sf sendfile_f s offset len w =
     (let orig = (\<lambda>w. let ((r, e, n), w') = on_kernel (sendfile_f offset len) w
                      in Some (FOk (MSendOrig r e n), w')) in
      if \<not> hooked_fd S s w then orig w
      else
       (case hw_get S up s w of
          (FOk c, w1) \<Rightarrow>
            if fc_userNonBlocked (hw_ctx c w1) then orig w1
            else
             (let ms = (if fc_sendTimeout (hw_ctx c w1) = 0 then -1 else fc_sendTimeout (hw_ctx c w1))
              in mac_sendfile_loop add os poll_f sf s ms None offset (case len of Some n \<Rightarrow> n | None \<Rightarrow> 0) w1)
        | (FThrow, w1) \<Rightarrow> Some (FThrow, w1)
        | (FSpin, w1) \<Rightarrow> Some (FSpin, w1)
        | (FFault, w1) \<Rightarrow> Some (FFault, w1)))"

definition hook_mac_sendfile_resume :: "'k add_fn \<Rightarrow> 'k del_fn \<Rightarrow> 'k os \<Rightarrow> 'k poll_fn \<Rightarrow> 'k send_fn \<Rightarrow> int \<Rightarrow> int \<Rightarrow>
    int \<Rightarrow> int \<Rightarrow> int \<Rightarrow> ('k, 'z) hw \<Rightarrow> (msend_out fres \<times> ('k, 'z) hw) option" where
  "hook_mac_sendfile_resume add del os poll_f sf s ms tid off inlen w =
     (case poll_resume_on del [io_pollfd s POLLOUT] tid w of
        None \<Rightarrow> Some (FFault, w)
      | Some ((n, fds), w1) \<Rightarrow> mac_sendfile_loop add os poll_f sf s ms (Some (n, 0)) off inlen w1)"

declare mac_sendfile_loop.simps [code]

section \<open>Waiting for one descriptor\<close>

text \<open>
  What \<open>kevent\<close> and \<open>epoll_wait\<close> do with the io waiter, on any back end that meets \<open>poll_backend\<close>: \<open>fits\<close> says
  that its table is well formed and agrees with what the kernel watches.
\<close>

locale waiter_backend = poll_backend add del watch inv
  for add :: "'k add_fn" and del :: "'k del_fn" and watch :: "'k \<Rightarrow> int \<Rightarrow> int" and inv :: "'k \<Rightarrow> bool"
begin

definition fits :: "('k, 'z) hw \<Rightarrow> bool" where
  "fits w \<longleftrightarrow> poll_wf (iw_poll (hw_waiter w)) \<and> agree (iw_poll (hw_waiter w)) (hw_kernel w)"

lemma fits_kernel: "fits w \<Longrightarrow> inv k \<Longrightarrow> watch k = watch (hw_kernel w) \<Longrightarrow> fits (w\<lparr>hw_kernel := k\<rparr>)"
  by (simp add: fits_def agree_def)

lemma set_one:
  assumes ok: "fits w" and fd: "0 \<le> fd" "fd < pl_setsize (iw_poll (hw_waiter w))"
    and free: "ev_mask (iw_poll (hw_waiter w)) fd = 0" and m: "event_mask msk"
    and acc: "fst (add (iw_poll (hw_waiter w)) fd msk (hw_kernel w)) \<noteq> -1"
  shows "\<exists>w'. set_event_on add fd msk w = Some w' \<and> fits w' \<and> waits_on (hw_fiber w) (hw_waiter w') fd msk \<and>
     same_events {fd} (hw_waiter w) (hw_waiter w') \<and> watch (hw_kernel w') = (watch (hw_kernel w))(fd := msk) \<and>
     pl_timeEvents (iw_poll (hw_waiter w')) = pl_timeEvents (iw_poll (hw_waiter w)) \<and>
     pl_timeEventNextId (iw_poll (hw_waiter w')) = pl_timeEventNextId (iw_poll (hw_waiter w)) \<and>
     iw_waiters (hw_waiter w') = iw_waiters (hw_waiter w) + 1 \<and> hw_fiber w' = hw_fiber w"
proof -
  define p where "p = iw_poll (hw_waiter w)"
  define st where "st = store_event p fd msk FileEventProc (CLive (hw_fiber w))"
  obtain r k where a: "add p fd msk (hw_kernel w) = (r, k)" by fastforce
  have r: "r \<noteq> -1" using acc a by (simp add: p_def)
  have wf: "poll_wf p" and ag: "agree p (hw_kernel w)" using ok by (simp_all add: fits_def p_def)
  have l: "nat fd < length (pl_events p)" using wf fd by (simp add: poll_wf_def p_def)
  have c: "file_event_create_on add p fd msk FileEventProc (CLive (hw_fiber w)) (hw_kernel w) = Some ((True, st), k)"
    using fd a r by (simp add: file_event_create_on_def st_def p_def)
  have st: "poll_wf st" "agree st k" using create_agrees [OF wf ag fd(1) m c] by blast+
  have "inv (hw_kernel w)" "watch (hw_kernel w) fd = ev_mask p fd" using ag fd by (simp_all add: agree_def p_def)
  from add_ok [OF this m a r] have wt: "watch k = (watch (hw_kernel w))(fd := msk)"
    using \<open>watch (hw_kernel w) fd = ev_mask p fd\<close> free by (simp add: p_def)
  have oth: "pl_events st ! nat i = pl_events p ! nat i" if "0 \<le> i" "i \<noteq> fd" for i
  proof -
    have "nat i \<noteq> nat fd" using that fd by auto
    then show ?thesis by (simp add: st_def store_event_def Let_def)
  qed
  have on: "ev_mask st fd = msk" "fe_clientData (pl_events st ! nat fd) = CLive (hw_fiber w)"
    using store_event_mask [OF fd(1) l fd(1), of msk] store_event_data [OF l] free by (simp_all add: st_def p_def)
  have sz: "pl_setsize st = pl_setsize p" "pl_timeEvents st = pl_timeEvents p"
    "pl_timeEventNextId st = pl_timeEventNextId p" by (simp_all add: st_def)
  show ?thesis
    using st wt on sz oth fd c unfolding set_event_on_def p_def [symmetric]
    by (simp add: fits_def waits_on_def same_events_def p_def)
qed

lemma del_one:
  assumes ok: "fits w" and on: "waits_on f (hw_waiter w) fd msk" and m: "event_mask msk"
  shows "\<exists>w'. del_event_on del fd ECO_POLL_ALL_EVENTS w = Some w' \<and> fits w' \<and>
     ev_mask (iw_poll (hw_waiter w')) fd = 0 \<and> same_events {fd} (hw_waiter w) (hw_waiter w') \<and>
     watch (hw_kernel w') = (watch (hw_kernel w))(fd := 0) \<and>
     pl_timeEvents (iw_poll (hw_waiter w')) = pl_timeEvents (iw_poll (hw_waiter w)) \<and>
     iw_waiters (hw_waiter w') = iw_waiters (hw_waiter w) - 1 \<and> hw_fiber w' = hw_fiber w \<and> hw_rt w' = hw_rt w"
proof -
  define p where "p = iw_poll (hw_waiter w)"
  define fe where "fe = (pl_events p ! nat fd)\<lparr>fe_clientData := CDead\<rparr>"
  define p1 where "p1 = p\<lparr>pl_events := (pl_events p)[nat fd := fe]\<rparr>"
  have fd: "0 \<le> fd" "fd < pl_setsize p" "ev_mask p fd = msk" "fe_clientData (pl_events p ! nat fd) = CLive f"
    using on by (simp_all add: waits_on_def p_def)
  have wf: "poll_wf p" and ag: "agree p (hw_kernel w)" using ok by (simp_all add: fits_def p_def)
  have l: "nat fd < length (pl_events p)" using wf fd by (simp add: poll_wf_def)
  have mk: "ev_mask p1 i = ev_mask p i" for i using l by (cases "nat i = nat fd") (simp_all add: p1_def fe_def)
  have sz: "pl_setsize p1 = pl_setsize p" by (simp add: p1_def)
  have wf1: "poll_wf p1" using wf unfolding poll_wf_def mk by (simp add: p1_def)
  have ag1: "agree p1 (hw_kernel w)" using ag unfolding agree_def mk sz .
  have nz: "ev_mask p1 fd \<noteq> 0" using fd(3) m unfolding mk by auto
  have all: "msk AND NOT 3 = 0" using m by auto
  define p2 where "p2 = drop_event p1 fd 3"
  define k where "k = del p2 fd 3 (hw_kernel w)"
  have d: "file_event_delete_on del p1 fd 3 (hw_kernel w) = Some (p2, k)"
    using fd(1,2) nz by (simp add: file_event_delete_on_def sz p2_def k_def)
  then have p2: "poll_wf p2" "agree p2 k" using delete_agrees [OF wf1 ag1 fd(1), of 3] by auto
  have l1: "nat fd < length (pl_events p1)" using l by (simp add: p1_def)
  note dm = drop_event_mask [OF fd(1) l1]
  have i: "inv (hw_kernel w)" "watch (hw_kernel w) fd = msk" using ag fd by (simp_all add: agree_def)
  have "watch (hw_kernel w) fd \<noteq> 0" "ev_mask p2 fd = watch (hw_kernel w) fd AND NOT 3"
    using i(2) m fd(3) dm [OF fd(1), of 3] mk [of fd] by (auto simp: p2_def)
  from del_ok [OF i(1) this] have wt: "watch k = (watch (hw_kernel w))(fd := 0)" using i(2) all by (simp add: k_def)
  have z: "ev_mask p2 fd = 0" using dm [OF fd(1), of 3] mk [of fd] fd(3) all by (simp add: p2_def)
  have oth: "pl_events p2 ! nat i = pl_events p ! nat i" if "0 \<le> i" "i \<noteq> fd" for i
  proof -
    have "nat i \<noteq> nat fd" using that fd by auto
    then show ?thesis by (simp add: p2_def drop_event_events p1_def)
  qed
  have "del_event_on del fd 3 w =
      Some (w\<lparr>hw_waiter := (hw_waiter w)\<lparr>iw_poll := p2, iw_waiters := iw_waiters (hw_waiter w) - 1\<rparr>, hw_kernel := k\<rparr>)"
    using fd(1,2,4) d by (simp add: del_event_on_def Let_def p_def [symmetric] fe_def [symmetric] p1_def [symmetric])
  moreover have "pl_setsize p2 = pl_setsize p" "pl_timeEvents p2 = pl_timeEvents p" by (simp_all add: p2_def p1_def)
  ultimately show ?thesis using p2 z wt oth by (simp add: fits_def same_events_def p_def)
qed

text \<open>Calls of the kernel that have nothing to do with the io waiter's own descriptor.\<close>

definition unrelated :: "('k \<Rightarrow> 'r \<times> 'k) \<Rightarrow> bool" where
  "unrelated g \<longleftrightarrow> (\<forall>k. inv k \<longrightarrow> inv (snd (g k)) \<and> watch (snd (g k)) = watch k)"

lemma unrelated_on: "fits w \<Longrightarrow> unrelated g \<Longrightarrow> fits (snd (on_kernel g w)) \<and>
   watch (hw_kernel (snd (on_kernel g w))) = watch (hw_kernel w)"
  by (auto simp: on_kernel_def unrelated_def fits_def agree_def split: prod.split)

lemma timer_one:
  assumes ok: "fits w" and cl: "unrelated (os_gettimeofday os)" and t: "hw_setupTimer os ms w = (i, w')"
  shows "fits w' \<and> watch (hw_kernel w') = watch (hw_kernel w) \<and> same_events {} (hw_waiter w) (hw_waiter w') \<and>
    iw_waiters (hw_waiter w') = iw_waiters (hw_waiter w) + 1 \<and> hw_fiber w' = hw_fiber w \<and>
    i = pl_timeEventNextId (iw_poll (hw_waiter w)) \<and>
    (\<exists>te. pl_timeEvents (iw_poll (hw_waiter w')) = te # pl_timeEvents (iw_poll (hw_waiter w)) \<and> te_id te = i \<and>
       te_clientData te = hw_fiber w)"
proof -
  let ?p = "iw_poll (hw_waiter w)"
  obtain due k where a: "aeAddMillisecondsToNow os ms (hw_kernel w) = (due, k)" by fastforce
  have i: "inv (hw_kernel w)" using ok by (simp add: fits_def agree_def)
  have "k = snd (os_gettimeofday os (hw_kernel w))"
    using a by (auto simp: aeAddMillisecondsToNow_def aeGetTime_def Let_def split: prod.splits)
  then have k: "inv k" "watch k = watch (hw_kernel w)" using cl i by (simp_all add: unrelated_def)
  define te where "te = \<lparr>te_id = pl_timeEventNextId ?p, te_when_sec = fst due, te_when_ms = snd due,
     te_timeProc = TimeEventProc, te_finalizerProc = Some TimeEventFinalizerProc, te_clientData = hw_fiber w\<rparr>"
  define q where "q = ?p\<lparr>pl_timeEventNextId := pl_timeEventNextId ?p + 1, pl_timeEvents := te # pl_timeEvents ?p\<rparr>"
  have c: "eco_poll_time_event_create os ?p ms TimeEventProc (hw_fiber w) (Some TimeEventFinalizerProc) (hw_kernel w) =
      ((te_id te, q), k)"
    by (simp add: eco_poll_time_event_create_def a Let_def te_def q_def split: prod.split)
  have i': "i = te_id te" and w': "w' = w\<lparr>hw_waiter := (hw_waiter w)\<lparr>iw_poll := q, iw_waiters := iw_waiters (hw_waiter w) + 1\<rparr>,
      hw_kernel := k, hw_rt := upd_fiber (hw_fiber w) (\<lambda>fb. fb\<lparr>fb_isIoWaitTimeout := False\<rparr>) (hw_rt w)\<rparr>"
    using t by (auto simp: hw_setupTimer_def EIoWaiter_setupTimer_def c)
  have q: "pl_events q = pl_events ?p" "pl_setsize q = pl_setsize ?p" "pl_maxfd q = pl_maxfd ?p" by (simp_all add: q_def)
  have "poll_wf q" "agree q k" using ok k unfolding fits_def poll_wf_def agree_def q by simp_all
  then show ?thesis using k q unfolding i' w'
    by (simp add: fits_def same_events_def) (simp add: q_def te_def)
qed

lemma cancel_one:
  assumes "fits w"
  shows "fits (hw_cancelTimer i w)"
proof -
  have "pl_maxfd (iw_poll (EIoWaiter_cancelTimer i iw)) = pl_maxfd (iw_poll iw)" for iw
    by (simp add: EIoWaiter_cancelTimer_def eco_poll_time_event_delete_def split: prod.split)
  then show ?thesis using assms by (simp add: fits_def hw_cancelTimer_def poll_wf_def agree_def cancelTimer_fields)
qed

lemma kevent_parks:
  assumes ok: "fits w" and fd: "0 \<le> kq" "kq < pl_setsize (iw_poll (hw_waiter w))"
    and free: "ev_mask (iw_poll (hw_waiter w)) kq = 0" and acc: "\<forall>k. fst (add (iw_poll (hw_waiter w)) kq 1 k) \<noteq> -1"
    and cl: "unrelated (os_gettimeofday os)" and un: "\<forall>c r t. unrelated (kevent_f c r t)"
    and waits: "\<not> bypass w" "timeout \<noteq> Some (0, 0)" "room \<noteq> None" "room \<noteq> Some 0"
  shows "\<exists>tid w'. hook_kevent_start add os kevent_f kq changes room timeout w = Some (KeventPark tid, w') \<and> fits w' \<and>
     waits_on (hw_fiber w) (hw_waiter w') kq 1 \<and> same_events {kq} (hw_waiter w) (hw_waiter w') \<and>
     watch (hw_kernel w') = (watch (hw_kernel w))(kq := 1) \<and>
     fb_state (rt_fibers (hw_rt w') (hw_fiber w)) = WAITING \<and> hw_fiber w' = hw_fiber w \<and>
     iw_waiters (hw_waiter w') = iw_waiters (hw_waiter w) + 2 \<and> tid = pl_timeEventNextId (iw_poll (hw_waiter w)) \<and>
     (\<exists>te. pl_timeEvents (iw_poll (hw_waiter w')) = te # pl_timeEvents (iw_poll (hw_waiter w)) \<and> te_id te = tid \<and>
        te_clientData te = hw_fiber w)"
proof -
  define w1 where "w1 = (if changes \<noteq> [] then snd (on_kernel (kevent_f changes None None) w) else w)"
  have w1: "hw_waiter w1 = hw_waiter w" "hw_fiber w1 = hw_fiber w"
    by (simp_all add: w1_def on_kernel_def split: prod.split)
  have ok1: "fits w1" "watch (hw_kernel w1) = watch (hw_kernel w)"
    using ok unrelated_on [OF ok un [rule_format, of changes None None]] by (simp_all add: w1_def)
  obtain w2 where s: "set_event_on add kq 1 w1 = Some w2" "fits w2" "waits_on (hw_fiber w) (hw_waiter w2) kq 1"
      "same_events {kq} (hw_waiter w) (hw_waiter w2)" "watch (hw_kernel w2) = (watch (hw_kernel w))(kq := 1)"
      "pl_timeEvents (iw_poll (hw_waiter w2)) = pl_timeEvents (iw_poll (hw_waiter w))"
      "pl_timeEventNextId (iw_poll (hw_waiter w2)) = pl_timeEventNextId (iw_poll (hw_waiter w))"
      "iw_waiters (hw_waiter w2) = iw_waiters (hw_waiter w) + 1" "hw_fiber w2 = hw_fiber w"
    using set_one [OF ok1(1), of kq 1] fd free acc [rule_format, of "hw_kernel w1"] ok1(2) unfolding w1 by auto
  obtain tid w3 where t: "hw_setupTimer os (kevent_ms timeout) w2 = (tid, w3)" by fastforce
  note tt = timer_one [OF s(2) cl t]
  have e: "hook_kevent_start add os kevent_f kq changes room timeout w = Some (KeventPark tid, EIoWaiter_swapOut w3)"
  proof -
    have n: "\<not> (bypass w \<or> timeout = Some (0, 0) \<or> room = None \<or> room = Some 0)" using waits by blast
    show ?thesis
      unfolding hook_kevent_start_def w1_def [symmetric] if_not_P [OF n] by (simp add: s(1) t)
  qed
  have so: "hw_waiter (EIoWaiter_swapOut w3) = hw_waiter w3" "hw_kernel (EIoWaiter_swapOut w3) = hw_kernel w3"
    "hw_fiber (EIoWaiter_swapOut w3) = hw_fiber w3"
    "fb_state (rt_fibers (hw_rt (EIoWaiter_swapOut w3)) (hw_fiber w3)) = WAITING"
    by (simp_all add: EIoWaiter_swapOut_def EFiber_setState_def)
  have "waits_on (hw_fiber w) (hw_waiter w3) kq 1" using waits_on_same [of "{}" "hw_waiter w2" "hw_waiter w3" kq] tt s(3) by simp
  moreover have "same_events {kq} (hw_waiter w) (hw_waiter w3)"
    using same_events_trans [OF s(4), of "{}" "hw_waiter w3"] tt by simp
  moreover have "fits (EIoWaiter_swapOut w3)" using tt by (simp add: fits_def so)
  ultimately show ?thesis using tt s so by (intro exI [of _ tid] exI [of _ "EIoWaiter_swapOut w3"]) (auto simp: e)
qed

lemma kevent_resumes:
  assumes ok: "fits w" and on: "waits_on f (hw_waiter w) kq 1" and un: "\<forall>c r t. unrelated (kevent_f c r t)"
  shows "\<exists>r w'. hook_kevent_resume del kevent_f kq room tid w = Some
      (if fb_isIoWaitTimeout (rt_fibers (hw_rt w) (hw_fiber w)) then Inl EINVAL else Inr r, w') \<and>
     (\<exists>k. r = fst (kevent_f [] room (Some (0, 0)) k)) \<and> fits w' \<and>
     ev_mask (iw_poll (hw_waiter w')) kq = 0 \<and> same_events {kq} (hw_waiter w) (hw_waiter w') \<and>
     watch (hw_kernel w') = (watch (hw_kernel w))(kq := 0) \<and>
     pl_timeEvents (iw_poll (hw_waiter w')) = snd (mark_deleted tid (pl_timeEvents (iw_poll (hw_waiter w)))) \<and>
     iw_waiters (hw_waiter w') = iw_waiters (hw_waiter w) - 2"
proof -
  define w1 where "w1 = hw_cancelTimer tid w"
  have w1: "hw_kernel w1 = hw_kernel w" "hw_fiber w1 = hw_fiber w" "hw_rt w1 = hw_rt w"
    "hw_waiter w1 = EIoWaiter_cancelTimer tid (hw_waiter w)" by (simp_all add: w1_def hw_cancelTimer_def)
  have se: "same_events {} (hw_waiter w) (hw_waiter w1)" by (simp add: w1 same_events_def cancelTimer_fields)
  have "waits_on f (hw_waiter w1) kq 1" using waits_on_same [OF se, of kq] on by simp
  from del_one [OF cancel_one [OF ok, of tid, folded w1_def] this]
  obtain w2 where d: "del_event_on del kq 3 w1 = Some w2" "fits w2" "ev_mask (iw_poll (hw_waiter w2)) kq = 0"
      "same_events {kq} (hw_waiter w1) (hw_waiter w2)" "watch (hw_kernel w2) = (watch (hw_kernel w))(kq := 0)"
      "pl_timeEvents (iw_poll (hw_waiter w2)) = pl_timeEvents (iw_poll (hw_waiter w1))"
      "iw_waiters (hw_waiter w2) = iw_waiters (hw_waiter w1) - 1" "hw_fiber w2 = hw_fiber w" "hw_rt w2 = hw_rt w"
    by (auto simp: w1)
  have s: "same_events {kq} (hw_waiter w) (hw_waiter w2)" using same_events_trans [OF se d(4)] by simp
  define w3 where "w3 = snd (hw_isWaitTimeout w2)"
  have w3: "hw_isWaitTimeout w2 = (fb_isIoWaitTimeout (rt_fibers (hw_rt w) (hw_fiber w)), w3)"
    "hw_waiter w3 = hw_waiter w2" "hw_kernel w3 = hw_kernel w2"
    by (simp_all add: w3_def hw_isWaitTimeout_def EFiber_isWaitTimeout_def d)
  have f3: "fits w3" using d(2) by (simp add: fits_def w3)
  let ?g = "kevent_f [] room (Some (0, 0))"
  obtain r w4 where g: "on_kernel ?g w3 = (r, w4)" by fastforce
  have w4: "hw_waiter w4 = hw_waiter w3" "r = fst (?g (hw_kernel w3))"
    using g by (auto simp: on_kernel_def split: prod.splits)
  note f4 = unrelated_on [OF f3 un [rule_format, of "[]" room "Some (0, 0)"], unfolded g snd_conv]
  have run: "hook_kevent_resume del kevent_f kq room tid w = Some
      (if fb_isIoWaitTimeout (rt_fibers (hw_rt w) (hw_fiber w)) then (Inl EINVAL, w3) else (Inr r, w4))"
    unfolding hook_kevent_resume_def w1_def [symmetric] d(1) by (simp add: w3(1) g)
  have n: "iw_waiters (hw_waiter w2) = iw_waiters (hw_waiter w) - 2"
    "pl_timeEvents (iw_poll (hw_waiter w2)) = snd (mark_deleted tid (pl_timeEvents (iw_poll (hw_waiter w))))"
    unfolding d(6,7) w1 cancelTimer_fields by simp_all
  let ?w' = "if fb_isIoWaitTimeout (rt_fibers (hw_rt w) (hw_fiber w)) then w3 else w4"
  have "hw_waiter ?w' = hw_waiter w2" "fits ?w'" "watch (hw_kernel ?w') = (watch (hw_kernel w))(kq := 0)"
    using f3 f4 d(5) by (simp_all add: w3 w4)
  then show ?thesis using d(3) s n run w4(2)
    by (intro exI [of _ r] exI [of _ ?w']) auto
qed

end

interpretation wkq: waiter_backend "kq_ApiAddEvent K" "kq_ApiDelEvent K" "kq_watch reg" "kq_inv K reg"
  for K reg
  by (rule waiter_backend.intro) (rule kq.poll_backend_axioms)

interpretation wep: waiter_backend "aeApiAddEvent os" "aeApiDelEvent os" "ep_watch interest" "ep_inv os interest"
  for os interest
  by (rule waiter_backend.intro) (rule ep.poll_backend_axioms)

end
