(* ===== verification/Hooker_Send.thy ===== *)
theory Hooker_Send
  imports Hooker_Mac
begin

text \<open>
  What the two sendfile hooks send. The kernel may take a part of the bytes at each call; whatever it
  takes, and however often the hooks wait in between, the socket gets a contiguous piece of the file.
\<close>

section \<open>Calls that do not send\<close>

definition quiet :: "('k \<Rightarrow> 'b list) \<Rightarrow> ('k \<Rightarrow> 'r \<times> 'k) \<Rightarrow> bool" where
  "quiet out g \<longleftrightarrow> (\<forall>k. out (snd (g k)) = out k)"

lemma quietD: "quiet out g \<Longrightarrow> g k = (r, k') \<Longrightarrow> out k' = out k"
  unfolding quiet_def by (metis snd_conv)

text \<open>Waiting for the socket sends nothing: neither poll nor the registration nor the clock.\<close>

definition waiting_quiet :: "('k \<Rightarrow> 'b list) \<Rightarrow> 'k add_fn \<Rightarrow> 'k os \<Rightarrow> 'k poll_fn \<Rightarrow> bool" where
  "waiting_quiet out add os poll_f \<longleftrightarrow> (\<forall>p fd m. quiet out (add p fd m)) \<and> quiet out (os_gettimeofday os) \<and>
     (\<forall>fds t. quiet out (poll_f fds t))"

lemma on_kernel_quiet: "quiet out g \<Longrightarrow> on_kernel g w = (r, w') \<Longrightarrow> out (hw_kernel w') = out (hw_kernel w)"
  unfolding on_kernel_def by (auto split: prod.splits dest: quietD)

lemma set_event_quiet:
  assumes q: "\<forall>p fd m. quiet out (add p fd m)" and "set_event_on add fd msk w = Some w'"
  shows "out (hw_kernel w') = out (hw_kernel w)"
  using assms(2) quietD [OF q [rule_format]]
  by (auto simp: set_event_on_def file_event_create_on_def split: option.splits if_splits prod.splits)

lemma poll_register_quiet:
  assumes q: "\<forall>p fd m. quiet out (add p fd m)" and "poll_register_on add fds w = Some w'"
  shows "out (hw_kernel w') = out (hw_kernel w)"
  using assms(2)
proof (induction fds arbitrary: w)
  case (Cons pf fds)
  then show ?case using set_event_quiet [OF assms(1)] by (fastforce split: if_splits option.splits)
qed simp

lemma setupTimer_quiet:
  assumes "quiet out (os_gettimeofday os)" "hw_setupTimer os ms w = (i, w')"
  shows "out (hw_kernel w') = out (hw_kernel w)"
  using assms(2) quietD [OF assms(1)]
  by (auto simp: hw_setupTimer_def EIoWaiter_setupTimer_def eco_poll_time_event_create_def
    aeAddMillisecondsToNow_def aeGetTime_def Let_def split: prod.splits)

lemma swapOut_kernel: "hw_kernel (EIoWaiter_swapOut w) = hw_kernel w"
  by (simp add: EIoWaiter_swapOut_def)

lemma poll_start_quiet:
  assumes q: "waiting_quiet out add os poll_f" and r: "poll_start_on add os poll_f fds ms w = Some (x, w')"
  shows "out (hw_kernel w') = out (hw_kernel w)"
proof -
  have pq: "quiet out (poll_f f t)" for f t using q by (simp add: waiting_quiet_def)
  have aq: "\<forall>p fd m. quiet out (add p fd m)" and tq: "quiet out (os_gettimeofday os)"
    using q by (simp_all add: waiting_quiet_def)
  consider "poll_orig poll_f fds ms w = (x, w')" | "w' = w"
    | ret err fds' w1 where "on_kernel (poll_f fds 0) w = ((ret, err, fds'), w1)"
        "w' = w1 \<or> (\<exists>w2. poll_register_on add fds' w1 = Some w2 \<and>
           (w' = w2 \<or> (\<exists>i w3. hw_setupTimer os ms w2 = (i, w3) \<and> w' = EIoWaiter_swapOut w3) \<or> w' = EIoWaiter_swapOut w2))"
    using r unfolding poll_start_on_def by (auto split: if_splits prod.splits option.splits)
  then show ?thesis
  proof cases
    case 1
    then show ?thesis using on_kernel_quiet [OF pq] by (fastforce simp: poll_orig_def split: prod.splits)
  next
    case 3
    have "out (hw_kernel w1) = out (hw_kernel w)" by (rule on_kernel_quiet [OF pq 3(1)])
    moreover have "out (hw_kernel w') = out (hw_kernel w1)"
      using 3(2)
    proof (elim disjE exE conjE)
      fix w2 i w3
      assume "poll_register_on add fds' w1 = Some w2" "hw_setupTimer os ms w2 = (i, w3)" "w' = EIoWaiter_swapOut w3"
      then show ?thesis using poll_register_quiet [OF aq] setupTimer_quiet [OF tq]
        by (metis swapOut_kernel)
    qed (simp_all add: swapOut_kernel poll_register_quiet [OF aq])
    ultimately show ?thesis by simp
  qed simp
qed

section \<open>The Linux sendfile\<close>

text \<open>
  sendfile(2): it sends at most the bytes asked for, from the offset on, as many as it says, and moves
  the offset by as many; when it fails it sends nothing.
\<close>

definition piece :: "'b list \<Rightarrow> int \<Rightarrow> int \<Rightarrow> 'b list" where
  "piece src off n = take (nat n) (drop (nat off) src)"

lemma piece_append:
  assumes "0 \<le> off" "0 \<le> n" "0 \<le> m"
  shows "piece src off n @ piece src (off + n) m = piece src off (n + m)"
proof -
  have "nat (n + m) = nat n + nat m" "nat (off + n) = nat n + nat off" using assms by simp_all
  then show ?thesis by (simp add: piece_def take_add)
qed

lemma piece_0 [simp]: "piece src off 0 = []"
  by (simp add: piece_def)

definition sends_from :: "('k \<Rightarrow> 'b list) \<Rightarrow> 'b list \<Rightarrow> 'k send_fn \<Rightarrow> bool" where
  "sends_from out src sf \<longleftrightarrow> (\<forall>off n k r e off' k'. 0 \<le> off \<longrightarrow> 0 < n \<longrightarrow> sf off n k = ((r, e, off'), k') \<longrightarrow>
     r \<le> n \<and> off' = off + max r 0 \<and> out k' = out k @ piece src off (max r 0))"

definition send_account :: "('k \<Rightarrow> 'b list) \<Rightarrow> 'b list \<Rightarrow> int \<Rightarrow> int \<Rightarrow> 'b list \<Rightarrow> send_out \<times> 'k \<Rightarrow> bool" where
  "send_account out src off cnt before = (\<lambda>(res, k).
     (case res of
        SendDone r e off' \<Rightarrow> off \<le> off' \<and> off' \<le> off + cnt \<and> (0 < r \<longrightarrow> off' = off + cnt) \<and>
          out k = before @ piece src off (off' - off)
      | SendPark tid off' cnt' \<Rightarrow> off \<le> off' \<and> 0 < cnt' \<and> off' + cnt' = off + cnt \<and>
          out k = before @ piece src off (off' - off)
      | SendSleep t \<Rightarrow> True))"

lemma send_account_step:
  assumes "0 \<le> off" "0 \<le> m" "out k = before @ piece src off m"
    and "send_account out src (off + m) (cnt - m) (out k) x"
  shows "send_account out src off cnt before x"
proof -
  obtain res k' where x: "x = (res, k')" by fastforce
  have j: "out k @ piece src (off + m) n = before @ piece src off (m + n)" if "0 \<le> n" for n
    using piece_append [OF assms(1,2) that] assms(3) by simp
  show ?thesis
  proof (cases res)
    case (SendDone r e off')
    then have "0 \<le> off' - (off + m)" using assms(4) x by (simp add: send_account_def)
    from j [OF this] SendDone show ?thesis using assms(2,4) x by (auto simp: send_account_def)
  next
    case (SendPark tid off' cnt')
    then have "0 \<le> off' - (off + m)" using assms(4) x by (simp add: send_account_def)
    from j [OF this] SendPark show ?thesis using assms(2,4) x by (simp add: send_account_def)
  qed (simp add: send_account_def x)
qed

lemma sendfile_loop_account:
  fixes w :: "('k, 'z) hw"
  assumes q: "waiting_quiet out (aeApiAddEvent os) os poll_f" and ps: "poll_spec poll_f" and sp: "sends_from out src sf"
    and run: "sendfile_loop os poll_f sf fd ms pr off cnt w = Some (FOk res, w')" and "0 \<le> off" "0 < cnt" "\<forall>ret err. pr = Some (ret, err) \<longrightarrow> ret \<le> 1"
  shows "send_account out src off cnt (out (hw_kernel w)) (res, hw_kernel w')"
proof -
  have "os' = os \<longrightarrow> poll_f' = poll_f \<longrightarrow> sf' = sf \<longrightarrow> 0 \<le> off' \<longrightarrow> 0 < cnt' \<longrightarrow> (\<forall>ret err. pr = Some (ret, err) \<longrightarrow> ret \<le> 1) \<longrightarrow>
      (\<forall>res w'. r = (FOk res, w') \<longrightarrow> send_account out src off' cnt' (out (hw_kernel w)) (res, hw_kernel w'))"
    if "sendfile_loop os' poll_f' sf' fd' ms' pr off' cnt' w = Some r" for os' poll_f' sf' fd' ms' pr off' cnt' and w :: "('k, 'z) hw" and r
    apply (rule sendfile_loop.raw_induct [OF _ that, where P = "\<lambda>os' poll_f' sf' fd' ms' pr off' cnt' w r.
      os' = os \<longrightarrow> poll_f' = poll_f \<longrightarrow> sf' = sf \<longrightarrow> 0 \<le> off' \<longrightarrow> 0 < cnt' \<longrightarrow> (\<forall>ret err. pr = Some (ret, err) \<longrightarrow> ret \<le> 1) \<longrightarrow>
      (\<forall>res w'. r = (FOk res, w') \<longrightarrow> send_account out src off' cnt' (out (hw_kernel w)) (res, hw_kernel w'))"])
    apply (intro impI allI)
    subgoal premises p for loop os' poll_f' sf' fd ms pr off cnt w r res w'
    proof -
      have e: "os' = os" "poll_f' = poll_f" "sf' = sf" and n: "0 \<le> off" "0 < cnt" and r: "r = (FOk res, w')"
        and le: "pr = Some (ret, err) \<Longrightarrow> ret \<le> 1" for ret err
        using p(3-) by blast+
      note IH = p(1) [rule_format, OF _ refl refl refl]
      note eq = p(2) [unfolded e r]
      show ?thesis
      proof (cases pr)
        case None
        obtain x w1 where s: "hook_poll_start os poll_f [io_pollfd fd POLLOUT] ms w = Some (x, w1)"
          using eq None by (cases "hook_poll_start os poll_f [io_pollfd fd POLLOUT] ms w") auto
        have o1: "out (hw_kernel w1) = out (hw_kernel w)"
          by (rule poll_start_quiet [OF q s [folded poll_start_epoll]])
        show ?thesis
        proof (cases x)
          case (PollDone ret err fds)
          then have "loop os poll_f sf fd ms (Some (ret, err)) off cnt w1 = Some (FOk res, w')" using eq None s by simp
          from IH [OF this n _ refl] poll_start_ret [OF ps s [unfolded PollDone]] show ?thesis unfolding o1 by auto
        next
          case (PollSleep t)
          then show ?thesis using eq None s by (auto simp: send_account_def)
        next
          case (PollPark tid)
          then show ?thesis using eq None s o1 n by (auto simp: send_account_def)
        qed
      next
        case (Some y)
        obtain ret err where y: "y = (ret, err)" by fastforce
        show ?thesis
        proof (cases "ret = 1")
          case True
          obtain r' e' off' k1 where s: "sf off cnt (hw_kernel w) = ((r', e', off'), k1)" by (metis prod.exhaust)
          have d: "r' \<le> cnt" "off' = off + max r' 0" "out k1 = out (hw_kernel w) @ piece src off (max r' 0)"
            using sp n s unfolding sends_from_def by blast+
          define cnt' where "cnt' = (if r' > 0 then cnt - r' else cnt)"
          have c: "cnt' = cnt - max r' 0" by (simp add: cnt'_def)
          have eq': "(if ((r' \<ge> 0 \<and> cnt' > 0) \<or> (r' = -1 \<and> e' = EAGAIN)) \<and> cnt' > 0
               then loop os poll_f sf fd ms None off' cnt' (w\<lparr>hw_kernel := k1\<rparr>)
               else Some (FOk (SendDone r' (if r' = 0 then 0 else e') off'), w\<lparr>hw_kernel := k1\<rparr>)) = Some (FOk res, w')"
            using eq unfolding Some y True cnt'_def by (simp add: on_kernel_def s Let_def split del: if_split)
          show ?thesis
          proof (cases "((r' \<ge> 0 \<and> cnt' > 0) \<or> (r' = -1 \<and> e' = EAGAIN)) \<and> cnt' > 0")
            case True
            from IH [OF eq' [unfolded if_P [OF True]], of res w'] True n d(2) le
            have "send_account out src (off + max r' 0) (cnt - max r' 0) (out k1) (res, hw_kernel w')"
              by (simp add: c)
            then show ?thesis by (rule send_account_step [rotated 3]) (use n d in auto)
          next
            case False
            then have "res = SendDone r' (if r' = 0 then 0 else e') off'" "w' = w\<lparr>hw_kernel := k1\<rparr>" using eq' by auto
            then show ?thesis using d n False c by (auto simp: send_account_def)
          qed
        next
          case False
          then show ?thesis using eq le [OF Some [unfolded y]] unfolding Some y using n by (auto simp: send_account_def split: if_splits)
        qed
      qed
    qed
    done
  from this [OF run] assms(5-) show ?thesis by blast
qed

section \<open>The sendfile of macOS\<close>

text \<open>
  sendfile(2) of macOS: the last argument says how many bytes were sent, also when it fails; it
  succeeds when all that was asked for has been sent, or the file is at its end.
\<close>

definition msends_from :: "('k \<Rightarrow> 'b list) \<Rightarrow> 'b list \<Rightarrow> 'k send_fn \<Rightarrow> bool" where
  "msends_from out src sf \<longleftrightarrow> (\<forall>off n k r e m k'. 0 \<le> off \<longrightarrow> 0 < n \<longrightarrow> sf off n k = ((r, e, m), k') \<longrightarrow>
     0 \<le> m \<and> m \<le> n \<and> out k' = out k @ piece src off m \<and> (r = 0 \<longrightarrow> m = n \<or> int (length src) \<le> off + m))"

definition msend_account :: "('k \<Rightarrow> 'b list) \<Rightarrow> 'b list \<Rightarrow> int \<Rightarrow> int \<Rightarrow> 'b list \<Rightarrow> msend_out \<times> 'k \<Rightarrow> bool" where
  "msend_account out src off len before = (\<lambda>(res, k).
     (case res of
        MSendOrig r e n \<Rightarrow> False
      | MSendDone r e \<Rightarrow> (\<exists>m. 0 \<le> m \<and> m \<le> len \<and> out k = before @ piece src off m \<and>
          (r = 0 \<longrightarrow> m = len \<or> int (length src) \<le> off + m))
      | MSendPark tid off' len' \<Rightarrow> off \<le> off' \<and> 0 < len' \<and> off' + len' = off + len \<and>
          out k = before @ piece src off (off' - off)
      | MSendSleep t \<Rightarrow> True))"

lemma msend_account_step:
  assumes "0 \<le> off" "0 \<le> m" "out k = before @ piece src off m"
    and a: "msend_account out src (off + m) (len - m) (out k) x"
  shows "msend_account out src off len before x"
proof -
  obtain res k' where x: "x = (res, k')" by fastforce
  have j: "out k @ piece src (off + m) n = before @ piece src off (m + n)" if "0 \<le> n" for n
    using piece_append [OF assms(1,2) that] assms(3) by simp
  show ?thesis
  proof (cases res)
    case (MSendDone r e)
    then obtain n where n: "0 \<le> n" "n \<le> len - m" "out k' = out k @ piece src (off + m) n"
        "r = 0 \<longrightarrow> n = len - m \<or> int (length src) \<le> off + m + n"
      using a x by (auto simp: msend_account_def)
    then show ?thesis unfolding msend_account_def x MSendDone using assms(2) j [OF n(1)]
      by (auto intro!: exI [of _ "m + n"])
  next
    case (MSendPark tid off' len')
    then have "0 \<le> off' - (off + m)" using a x by (simp add: msend_account_def)
    from j [OF this] MSendPark show ?thesis using assms(2) a x by (simp add: msend_account_def)
  qed (use a in \<open>simp_all add: msend_account_def x\<close>)
qed

lemma mac_sendfile_loop_account:
  fixes w :: "('k, 'z) hw"
  assumes q: "waiting_quiet out add os poll_f" and sp: "msends_from out src sf"
    and run: "mac_sendfile_loop add os poll_f sf s ms pr off len w = Some (FOk res, w')" and "0 \<le> off" "0 < len"
  shows "msend_account out src off len (out (hw_kernel w)) (res, hw_kernel w')"
proof -
  have "add' = add \<longrightarrow> os' = os \<longrightarrow> poll_f' = poll_f \<longrightarrow> sf' = sf \<longrightarrow> 0 \<le> off' \<longrightarrow> 0 < len' \<longrightarrow>
      (\<forall>res w'. r = (FOk res, w') \<longrightarrow> msend_account out src off' len' (out (hw_kernel w)) (res, hw_kernel w'))"
    if "mac_sendfile_loop add' os' poll_f' sf' s' ms' pr off' len' w = Some r" for add' os' poll_f' sf' s' ms' pr off' len' and w :: "('k, 'z) hw" and r
    apply (rule mac_sendfile_loop.raw_induct [OF _ that, where P = "\<lambda>add' os' poll_f' sf' s' ms' pr off' len' w r.
      add' = add \<longrightarrow> os' = os \<longrightarrow> poll_f' = poll_f \<longrightarrow> sf' = sf \<longrightarrow> 0 \<le> off' \<longrightarrow> 0 < len' \<longrightarrow>
      (\<forall>res w'. r = (FOk res, w') \<longrightarrow> msend_account out src off' len' (out (hw_kernel w)) (res, hw_kernel w'))"])
    apply (intro impI allI)
    subgoal premises p for loop add' os' poll_f' sf' fd ms pr off len w r res w'
    proof -
      have e: "add' = add" "os' = os" "poll_f' = poll_f" "sf' = sf" and n: "0 \<le> off" "0 < len" and r: "r = (FOk res, w')"
        using p(3-) by blast+
      note IH = p(1) [rule_format, OF _ refl refl refl refl]
      note eq = p(2) [unfolded e r]
      show ?thesis
      proof (cases pr)
        case None
        obtain x w1 where s: "poll_start_on add os poll_f [io_pollfd fd POLLOUT] ms w = Some (x, w1)"
          using eq None by (cases "poll_start_on add os poll_f [io_pollfd fd POLLOUT] ms w") auto
        have o1: "out (hw_kernel w1) = out (hw_kernel w)" by (rule poll_start_quiet [OF q s])
        show ?thesis
        proof (cases x)
          case (PollDone ret err fds)
          then have "loop add os poll_f sf fd ms (Some (ret, err)) off len w1 = Some (FOk res, w')" using eq None s by simp
          from IH [OF this n refl] show ?thesis unfolding o1 .
        next
          case (PollSleep t)
          then show ?thesis using eq None s by (auto simp: msend_account_def)
        next
          case (PollPark tid)
          then show ?thesis using eq None s o1 n by (auto simp: msend_account_def)
        qed
      next
        case (Some y)
        obtain ret err where y: "y = (ret, err)" by fastforce
        show ?thesis
        proof (cases "ret = 1")
          case True
          obtain r' e' m k1 where s: "sf off len (hw_kernel w) = ((r', e', m), k1)" by (metis prod.exhaust)
          have d: "0 \<le> m" "m \<le> len" "out k1 = out (hw_kernel w) @ piece src off m"
              "r' = 0 \<longrightarrow> m = len \<or> int (length src) \<le> off + m"
            using sp n s unfolding msends_from_def by blast+
          have m: "(if m > 0 then off + m else off) = off + m" "(if m > 0 then len - m else len) = len - m"
            using d(1) by simp_all
          have eq': "(if r' = -1 \<and> e' = MAC_EAGAIN then
                if len - m > 0 then loop add os poll_f sf fd ms None (off + m) (len - m) (w\<lparr>hw_kernel := k1\<rparr>)
                else Some (FOk (MSendDone r' e'), w\<lparr>hw_kernel := k1\<rparr>)
              else Some (FOk (MSendDone r' (if r' = 0 then 0 else e')), w\<lparr>hw_kernel := k1\<rparr>)) = Some (FOk res, w')"
            using eq unfolding Some y True option.case prod.case if_P [OF refl] on_kernel_def s Let_def m .
          show ?thesis
          proof (cases "(r' = -1 \<and> e' = MAC_EAGAIN) \<and> len - m > 0")
            case True
            then have "loop add os poll_f sf fd ms None (off + m) (len - m) (w\<lparr>hw_kernel := k1\<rparr>) = Some (FOk res, w')"
              using eq' by simp
            from IH [OF this, of res w'] True n d(1)
            have "msend_account out src (off + m) (len - m) (out k1) (res, hw_kernel w')" by simp
            then show ?thesis by (rule msend_account_step [where out = out and k = k1 and m = m, OF n(1) d(1,3)])
          next
            case False
            then obtain e where f: "res = MSendDone r' e" "w' = w\<lparr>hw_kernel := k1\<rparr>" using eq' by (auto split: if_splits)
            show ?thesis unfolding msend_account_def f prod.case msend_out.case by (rule exI [of _ m]) (use d in simp)
          qed
        next
          case False
          then show ?thesis using eq unfolding Some y using n
            by (auto simp: msend_account_def split: if_splits intro!: exI [of _ 0])
        qed
      qed
    qed
    done
  from this [OF run] assms(4,5) show ?thesis by blast
qed

lemma hw_get_bypass: "hw_get S up fd w = (r, w') \<Longrightarrow> bypass w' = bypass w"
  by (auto simp: hw_get_def bypass_def isInterrupted_def split: prod.splits)

text \<open>A length of 0 asks for all bytes up to the end of the file; the hook does not retry then.\<close>

lemma mac_sendfile_loop_polled:
  "mac_sendfile_loop add os poll_f sf s ms (Some (ret, err)) off len w =
     (if ret = 1 then
        (case on_kernel (sf off len) w of ((r, e, outlen), w1) \<Rightarrow>
           if r = -1 \<and> e = MAC_EAGAIN then
             let off' = (if outlen > 0 then off + outlen else off);
                 len' = (if outlen > 0 then len - outlen else len)
             in if len' > 0 then mac_sendfile_loop add os poll_f sf s ms None off' len' w1
                else Some (FOk (MSendDone r e), w1)
           else Some (FOk (MSendDone r (if r = 0 then 0 else e)), w1))
      else if ret = 0 then Some (FOk (MSendDone (-1) MAC_ETIMEDOUT), w)
      else Some (FOk (MSendDone ret err), w))"
  by (subst mac_sendfile_loop.simps) simp

lemma mac_sendfile_loop_poll:
  "mac_sendfile_loop add os poll_f sf s ms None off len w =
     (case poll_start_on add os poll_f [io_pollfd s POLLOUT] ms w of
        None \<Rightarrow> Some (FFault, w)
      | Some (PollDone ret err fds, w1) \<Rightarrow> mac_sendfile_loop add os poll_f sf s ms (Some (ret, err)) off len w1
      | Some (PollSleep t, w1) \<Rightarrow> Some (FOk (MSendSleep t), w1)
      | Some (PollPark tid, w1) \<Rightarrow> Some (FOk (MSendPark tid off len), w1))"
  by (subst mac_sendfile_loop.simps) simp

lemma mac_sendfile_loop_eagain:
  assumes rdy: "\<forall>k. fst (fst (poll_f [io_pollfd s POLLOUT] 0 k)) = 1"
    and blocks: "\<forall>k. \<exists>m k'. 0 \<le> m \<and> sf off 0 k = ((-1, MAC_EAGAIN, m), k')"
    and h: "\<not> bypass w" "ms \<noteq> 0" "0 \<le> s"
  shows "\<exists>k. mac_sendfile_loop add os poll_f sf s ms None off 0 w = Some (FOk (MSendDone (-1) MAC_EAGAIN), w\<lparr>hw_kernel := k\<rparr>)"
proof -
  obtain err fds k1 where p: "poll_f [io_pollfd s POLLOUT] 0 (hw_kernel w) = ((1, err, fds), k1)"
    using rdy [rule_format, of "hw_kernel w"] by (metis prod.collapse)
  have st: "poll_start_on add os poll_f [io_pollfd s POLLOUT] ms w = Some (PollDone 1 err fds, w\<lparr>hw_kernel := k1\<rparr>)"
    using h by (simp add: poll_start_on_def on_kernel_def p)
  obtain m k2 where m: "0 \<le> m" "sf off 0 k1 = ((-1, MAC_EAGAIN, m), k2)" using blocks by blast
  show ?thesis unfolding mac_sendfile_loop_poll st using m
    by (auto simp: mac_sendfile_loop_polled on_kernel_def)
qed

section \<open>After the pause\<close>

definition releasing_quiet :: "('k \<Rightarrow> 'b list) \<Rightarrow> 'k del_fn \<Rightarrow> bool" where
  "releasing_quiet out del \<longleftrightarrow> (\<forall>p fd m k. out (del p fd m k) = out k)"

lemma del_event_quiet:
  assumes "releasing_quiet out del" "del_event_on del fd m w = Some w'"
  shows "out (hw_kernel w') = out (hw_kernel w)"
  using assms by (auto simp: releasing_quiet_def del_event_on_def file_event_delete_on_def Let_def
    split: if_splits option.splits cdata.splits)

lemma poll_release_quiet:
  assumes q: "releasing_quiet out del"
  shows "poll_drop_on del fds w = Some w' \<Longrightarrow> out (hw_kernel w') = out (hw_kernel w)"
    and "poll_collect_on del fds w = Some (fds', w') \<Longrightarrow> out (hw_kernel w') = out (hw_kernel w)"
proof (induction fds arbitrary: w fds')
  case (Cons pf fds)
  {
    case 1
    then show ?case using Cons.IH(1) del_event_quiet [OF q] by (fastforce split: option.splits)
  next
    case 2
    then show ?case using Cons.IH(2) del_event_quiet [OF q] by (fastforce split: option.splits)
  }
qed simp_all

lemma poll_resume_quiet:
  assumes q: "releasing_quiet out del" and r: "poll_resume_on del fds tid w = Some (x, w')"
  shows "out (hw_kernel w') = out (hw_kernel w)"
proof -
  obtain b w2 where t: "hw_isWaitTimeout (if tid \<noteq> -1 then hw_cancelTimer tid w else w) = (b, w2)" by fastforce
  have w2: "hw_kernel w2 = hw_kernel w"
    using t by (auto simp: hw_isWaitTimeout_def EFiber_isWaitTimeout_def hw_cancelTimer_def)
  show ?thesis using r unfolding poll_resume_on_def Let_def t
    by (auto split: if_splits option.splits simp: poll_release_quiet [OF q] w2)
qed

end
