(* ===== verification/Demo_Send.thy ===== *)
theory Demo_Send
  imports Hooker_Send Demo_Hooks
begin

text \<open>
  A kernel with a kqueue, a file of seven numbers and a socket that takes three of them at a time. Examples of
  the properties of the two sendfile hooks and of \<open>kevent\<close> are evaluated on it.
\<close>

record mk =
  mk_regs :: "(int \<times> evfilter) list"
  mk_out :: "int list"

definition mk_reg :: "mk \<Rightarrow> int \<Rightarrow> evfilter \<Rightarrow> bool" where
  "mk_reg k fd f \<longleftrightarrow> (fd, f) \<in> set (mk_regs k)"

definition mk_kq :: "mk kq" where
  "mk_kq = \<lparr>kq_change = (\<lambda>fd f a k. case a of
       EV_ADD \<Rightarrow> (0, k\<lparr>mk_regs := (fd, f) # mk_regs k\<rparr>)
     | EV_DELETE \<Rightarrow> (0, k\<lparr>mk_regs := filter (\<lambda>r. r \<noteq> (fd, f)) (mk_regs k)\<rparr>)),
     kq_wait = (\<lambda>n tmo k. ((0, []), k))\<rparr>"

definition mk_os :: "mk os" where
  "mk_os = \<lparr>os_gettimeofday = (\<lambda>k. ((0, 0), k)), os_time = (\<lambda>k. (0, k)),
     os_epoll_ctl = (\<lambda>opr fd ev k. (0, k)), os_epoll_wait = (\<lambda>n tmo k. ((0, []), k))\<rparr>"

definition mk_sys :: "mk sysapi" where
  "mk_sys = \<lparr>sy_fstat = (\<lambda>k fd. Some KSock), sy_getfl = (\<lambda>k fd. 2), sy_setfl = (\<lambda>fd fl k. (0, k)),
     sy_rcvtimeo = (\<lambda>k fd. Some (3, 0)), sy_sndtimeo = (\<lambda>k fd. Some (0, 0))\<rparr>"

definition mk_file :: "int list" where
  "mk_file = [10, 11, 12, 13, 14, 15, 16]"

definition mk_poll :: "mk poll_fn" where
  "mk_poll fds tmo k = ((1, 0, fds), k)"

text \<open>The bytes that a call for \<open>n\<close> bytes takes; at the end of the file none are left.\<close>

definition mk_take :: "int \<Rightarrow> int \<Rightarrow> int" where
  "mk_take off n = max 0 (min (if n = 0 then 3 else min n 3) (7 - off))"

definition mk_sendfile :: "mk send_fn" where
  "mk_sendfile off n k = (let c = mk_take off n in
     ((c, 0, off + c), k\<lparr>mk_out := mk_out k @ piece mk_file off c\<rparr>))"

definition mk_msendfile :: "mk send_fn" where
  "mk_msendfile off n k = (let c = mk_take off n in
     (if c = n \<or> 7 \<le> off + c then (0, 0, c) else (-1, MAC_EAGAIN, c), k\<lparr>mk_out := mk_out k @ piece mk_file off c\<rparr>))"

definition mk_kevent :: "(int, int, mk) kevent_fn" where
  "mk_kevent changes room timeout k = (if room = None then 0 else 1, k)"

definition mk0 :: mk where
  "mk0 = \<lparr>mk_regs = [], mk_out = []\<rparr>"

definition mw0 :: "(mk, unit) hw" where
  "mw0 = \<lparr>hw_kernel = mk0, hw_files = hk_table,
     hw_waiter = \<lparr>iw_poll = eco_poll_create 16 0, iw_waiters = 0, iw_pipe_in = 3\<rparr>,
     hw_rt = hk_rt, hw_fiber = 1, hw_sched = True, hw_signaled = False, hw_escaped = 0,
     hw_sigfuncs = replicate 64 0\<rparr>"

lemma mk_kq_spec: "kqueue_spec mk_kq mk_reg"
  by (auto simp: kqueue_spec_def mk_kq_def mk_reg_def fun_eq_iff)

lemma mk_poll_spec: "poll_spec mk_poll"
proof -
  have "\<exists>r. pf = pf\<lparr>pf_revents := r\<rparr>" for pf :: pollfd by (rule exI [of _ "pf_revents pf"]) simp
  then show ?thesis by (auto simp: poll_spec_def mk_poll_def)
qed

lemma mk_quiet:
  "waiting_quiet mk_out (aeApiAddEvent mk_os) mk_os mk_poll" "waiting_quiet mk_out (kq_ApiAddEvent mk_kq) mk_os mk_poll"
  "releasing_quiet mk_out (aeApiDelEvent mk_os)" "releasing_quiet mk_out (kq_ApiDelEvent mk_kq)"
  by (auto simp: waiting_quiet_def releasing_quiet_def quiet_def aeApiAddEvent_def aeApiDelEvent_def kq_ApiAddEvent_def
    kq_ApiDelEvent_def mk_os_def mk_kq_def mk_poll_def Let_def)

lemma mk_take_bounds: "0 \<le> mk_take off n" "0 < n \<Longrightarrow> mk_take off n \<le> n"
  by (auto simp: mk_take_def)

lemma mk_sends: "sends_from mk_out mk_file mk_sendfile"
proof -
  have "max (mk_take off n) 0 = mk_take off n" for off n using mk_take_bounds(1) [of off n] by simp
  then show ?thesis using mk_take_bounds(2) by (auto simp: sends_from_def mk_sendfile_def Let_def)
qed

lemma mk_msends: "msends_from mk_out mk_file mk_msendfile"
  using mk_take_bounds by (auto simp: msends_from_def mk_msendfile_def Let_def mk_file_def split: if_splits)

lemma mk_ctor: "EFileContext_ctor mk_sys 5 mk0 =
    (Some \<lparr>fc_fd = 5, fc_sysNonBlocked = True, fc_userNonBlocked = False, fc_recvTimeout = 3000,
       fc_sendTimeout = 0\<rparr>, mk0)"
  by (simp add: EFileContext_ctor_def mk_sys_def isSocketFile_def tv_millis_def Let_def
    signed_divide_int_def signed_take_bit_int_eq_self)

lemma mw0_get: "\<exists>m. hw_get mk_sys hk_up 5 mw0 = (FOk 0, mw0\<lparr>hw_files := m\<rparr>) \<and>
    fm_ctx m 0 = \<lparr>fc_fd = 5, fc_sysNonBlocked = True, fc_userNonBlocked = False, fc_recvTimeout = 3000,
       fc_sendTimeout = 0\<rparr>"
proof -
  obtain m where "EFileContextManager_get mk_sys hk_up 5 hk_table mk0 = (FOk 0, m, mk0)"
      "fm_ctx m 0 = \<lparr>fc_fd = 5, fc_sysNonBlocked = True, fc_userNonBlocked = False, fc_recvTimeout = 3000,
       fc_sendTimeout = 0\<rparr>"
    using get_new [OF hk_align hk_table_ok(1) hk_fd(1) _ _ mk_ctor] by (auto simp: hk_table_ok)
  then show ?thesis by (auto simp: hw_get_def EFiberScheduler_getFileContext_def mw0_def)
qed

lemma mw0_simps [simp]: "\<not> bypass mw0" "hw_fiber mw0 = 1" "hooked_fd mk_sys fd mw0" "hw_kernel mw0 = mk0"
  "\<not> bypass (mw0\<lparr>hw_kernel := k\<rparr>)" "\<not> bypass (mw0\<lparr>hw_files := m\<rparr>)"
  "\<not> bypass (mw0\<lparr>hw_files := m, hw_kernel := k\<rparr>)"
  by (simp_all add: bypass_def isInterrupted_def mw0_def hooked_fd_def isStreamFile_def mk_sys_def)

lemma mk_poll_start: "\<not> bypass w \<Longrightarrow> hook_poll_start mk_os mk_poll [io_pollfd 5 POLLOUT] (-1) w =
    Some (PollDone 1 0 [io_pollfd 5 POLLOUT], w)"
  by (simp add: hook_poll_start_def on_kernel_def mk_poll_def)

lemma mk_poll_start_on: "\<not> bypass w \<Longrightarrow> poll_start_on (kq_ApiAddEvent mk_kq) mk_os mk_poll [io_pollfd 5 POLLOUT] (-1) w =
    Some (PollDone 1 0 [io_pollfd 5 POLLOUT], w)"
  by (simp add: poll_start_on_def on_kernel_def mk_poll_def)

text \<open>Six bytes from offset 1: two calls of three.\<close>

lemma mk_send_run: "\<exists>w. hook_sendfile mk_sys hk_up mk_os mk_poll mk_sendfile (\<lambda>off n k. ((0, 0, 0), k)) 5 (Some 1) 6 mw0 =
    Some (FOk (SendDone 3 0 7), w)"
proof -
  obtain m where m: "hw_get mk_sys hk_up 5 mw0 = (FOk 0, mw0\<lparr>hw_files := m\<rparr>)"
    "fm_ctx m 0 = \<lparr>fc_fd = 5, fc_sysNonBlocked = True, fc_userNonBlocked = False, fc_recvTimeout = 3000,
       fc_sendTimeout = 0\<rparr>" using mw0_get by blast
  show ?thesis
    by (simp add: hook_sendfile_def m hw_ctx_def sendfile_loop_poll sendfile_loop_polled mk_poll_start on_kernel_def
      mk_sendfile_def mk_take_def)
qed

lemma mk_msend_run: "\<exists>w. hook_mac_sendfile mk_sys hk_up (kq_ApiAddEvent mk_kq) mk_os mk_poll mk_msendfile
    (\<lambda>off n k. ((0, 0, 0), k)) 5 1 (Some 6) mw0 = Some (FOk (MSendDone 0 0), w)"
proof -
  obtain m where m: "hw_get mk_sys hk_up 5 mw0 = (FOk 0, mw0\<lparr>hw_files := m\<rparr>)"
    "fm_ctx m 0 = \<lparr>fc_fd = 5, fc_sysNonBlocked = True, fc_userNonBlocked = False, fc_recvTimeout = 3000,
       fc_sendTimeout = 0\<rparr>" using mw0_get by blast
  show ?thesis
    by (simp add: hook_mac_sendfile_def m hw_ctx_def mac_sendfile_loop_poll mac_sendfile_loop_polled mk_poll_start_on
      on_kernel_def mk_msendfile_def mk_take_def)
qed

lemma mw0_fits: "poll_wf (iw_poll (hw_waiter mw0))"
  "\<forall>fd. 0 \<le> fd \<longrightarrow> fd < pl_setsize (iw_poll (hw_waiter mw0)) \<longrightarrow>
     kq_watch mk_reg (hw_kernel mw0) fd = ev_mask (iw_poll (hw_waiter mw0)) fd"
proof -
  show "poll_wf (iw_poll (hw_waiter mw0))" using poll_wf_create [of 16] by (simp add: mw0_def)
qed (auto simp: mw0_def eco_poll_create_def kq_watch_def mk_reg_def mk0_def)

text \<open>The thread parked in the poll of a sendfile on socket 5.\<close>

definition mw_parked :: "(mk, unit) hw" where
  "mw_parked = (case poll_register mk_os [io_pollfd 5 POLLOUT] mw0 of Some w \<Rightarrow> EIoWaiter_swapOut w | None \<Rightarrow> mw0)"

lemma mw_parked_simps: "hw_kernel mw_parked = mk0" "\<not> bypass mw_parked"
  "fb_isIoWaitTimeout (rt_fibers (hw_rt mw_parked) (hw_fiber mw_parked)) = False"
  "pl_setsize (iw_poll (hw_waiter mw_parked)) = 16"
  "pl_events (iw_poll (hw_waiter mw_parked)) ! 5 = \<lparr>fe_mask = 2, fe_rfileProc = None,
     fe_wfileProc = Some FileEventProc, fe_clientData = CLive 1\<rparr>" "length (pl_events (iw_poll (hw_waiter mw_parked))) = 16"
  by (simp_all add: mw_parked_def hw_setFileEvent_def EIoWaiter_setFileEvent_def eco_poll_file_event_create_def
    aeApiAddEvent_def mw0_def eco_poll_create_def mk_os_def store_event_def Let_def EIoWaiter_swapOut_def
    EFiber_setState_def bypass_def isInterrupted_def hk_rt_def hk_fiber_def PollEvent2EEvent_def)

lemma mw_parked_resume: "\<exists>w. hook_sendfile_resume mk_os mk_poll mk_sendfile 5 (-1) (-1) 1 6 mw_parked =
    Some (FOk (SendDone 3 0 7), w)"
proof -
  have "\<exists>w1. hook_poll_resume mk_os [io_pollfd 5 POLLOUT] (-1) mw_parked =
      Some ((1, [\<lparr>pf_fd = 5, pf_events = 4, pf_revents = 4\<rparr>]), w1) \<and> hw_sched w1 \<and> \<not> hw_signaled w1"
    using mw_parked_simps(2)
    by (simp add: hook_poll_resume_def hw_isWaitTimeout_def EFiber_isWaitTimeout_def mw_parked_simps Let_def
      EIoWaiter_getFileEvent_def eco_poll_get_file_events_def hw_delFileEvent_def EIoWaiter_delFileEvent_def
      eco_poll_file_event_delete_def aeApiDelEvent_def mk_os_def EEvent2PollEvent_def bypass_def isInterrupted_def)
  then obtain w1 where r: "hook_poll_resume mk_os [io_pollfd 5 POLLOUT] (-1) mw_parked =
      Some ((1, [\<lparr>pf_fd = 5, pf_events = 4, pf_revents = 4\<rparr>]), w1)" "hw_sched w1" "\<not> hw_signaled w1" by blast
  have b: "\<not> bypass w1"
    using r(2,3) by (simp add: bypass_def isInterrupted_def)
  show ?thesis
    by (simp add: hook_sendfile_resume_def r(1) sendfile_loop_poll sendfile_loop_polled on_kernel_def mk_poll_start b
      mk_sendfile_def mk_take_def)
qed

end
