(* ===== verification/Mach_Hook.thy ===== *)
theory Mach_Hook
  imports Symbol_Hook
begin

text \<open>
  The counterpart of \<open>Symbol_Hook\<close> in the macOS build: \<open>rebind_symbols_image\<close> of src/mach_hook.c walks the load
  commands of a loaded image and overwrites its symbol pointers, and \<open>dlopen\<close> (src/EHooker.cpp) finds the image.
  The build is the 64-bit one; the structures of Mach-O are read by their documented offsets. The loaded image is in
  memory; \<open>dladdr\<close>, \<open>dlsym\<close> and the list of images are arguments. The bounds of a loop over the image are read when
  it starts.
\<close>

section \<open>The structures of Mach-O (loader.h, nlist.h)\<close>

definition rd32 :: "memory \<Rightarrow> 64 word \<Rightarrow> 64 word" where
  "rd32 m a = field (rd_bytes m a 4) 0 4"

abbreviation (input) LC_SEGMENT :: "64 word" where "LC_SEGMENT \<equiv> 1"
abbreviation (input) LC_SYMTAB :: "64 word" where "LC_SYMTAB \<equiv> 2"
abbreviation (input) LC_DYSYMTAB :: "64 word" where "LC_DYSYMTAB \<equiv> 11"
abbreviation (input) LC_SEGMENT_64 :: "64 word" where "LC_SEGMENT_64 \<equiv> 25"
abbreviation (input) S_NON_LAZY_SYMBOL_POINTERS :: "64 word" where "S_NON_LAZY_SYMBOL_POINTERS \<equiv> 6"
abbreviation (input) S_LAZY_SYMBOL_POINTERS :: "64 word" where "S_LAZY_SYMBOL_POINTERS \<equiv> 7"
abbreviation (input) INDIRECT_SYMBOL_LOCAL :: "64 word" where "INDIRECT_SYMBOL_LOCAL \<equiv> 2147483648"
abbreviation (input) INDIRECT_SYMBOL_ABS :: "64 word" where "INDIRECT_SYMBOL_ABS \<equiv> 1073741824"

definition c_name :: "string \<Rightarrow> bytes" where
  "c_name s = map (\<lambda>c. word_of_nat (of_char c)) s"

text \<open>\<open>mach_header_64\<close>, the head of a load command, \<open>segment_command_64\<close>, \<open>section_64\<close>.\<close>

definition mh_ncmds :: "memory \<Rightarrow> 64 word \<Rightarrow> nat" where "mh_ncmds m h = unat (rd32 m (h + 16))"
definition lc_cmd :: "memory \<Rightarrow> 64 word \<Rightarrow> 64 word" where "lc_cmd m c = rd32 m c"
definition lc_cmdsize :: "memory \<Rightarrow> 64 word \<Rightarrow> 64 word" where "lc_cmdsize m c = rd32 m (c + 4)"
definition sg_named :: "memory \<Rightarrow> 64 word \<Rightarrow> string \<Rightarrow> bool" where "sg_named m c s = mem_streq m (c + 8) (c_name s)"
definition sg_vmaddr :: "memory \<Rightarrow> 64 word \<Rightarrow> 64 word" where "sg_vmaddr m c = rd64 m (c + 24)"
definition sg_fileoff :: "memory \<Rightarrow> 64 word \<Rightarrow> 64 word" where "sg_fileoff m c = rd64 m (c + 40)"
definition sg_nsects :: "memory \<Rightarrow> 64 word \<Rightarrow> nat" where "sg_nsects m c = unat (rd32 m (c + 64))"
definition sc_addr :: "memory \<Rightarrow> 64 word \<Rightarrow> 64 word" where "sc_addr m s = rd64 m (s + 32)"
definition sc_size :: "memory \<Rightarrow> 64 word \<Rightarrow> 64 word" where "sc_size m s = rd64 m (s + 40)"
definition sc_type :: "memory \<Rightarrow> 64 word \<Rightarrow> 64 word" where "sc_type m s = rd32 m (s + 64) AND 255"
definition sc_reserved1 :: "memory \<Rightarrow> 64 word \<Rightarrow> 64 word" where "sc_reserved1 m s = rd32 m (s + 68)"

text \<open>\<open>symtab_command\<close>, \<open>dysymtab_command\<close>, \<open>nlist_64\<close>.\<close>

definition st_symoff :: "memory \<Rightarrow> 64 word \<Rightarrow> 64 word" where "st_symoff m c = rd32 m (c + 8)"
definition st_nsyms :: "memory \<Rightarrow> 64 word \<Rightarrow> nat" where "st_nsyms m c = unat (rd32 m (c + 12))"
definition st_stroff :: "memory \<Rightarrow> 64 word \<Rightarrow> 64 word" where "st_stroff m c = rd32 m (c + 16)"
definition dy_indirectsymoff :: "memory \<Rightarrow> 64 word \<Rightarrow> 64 word" where "dy_indirectsymoff m c = rd32 m (c + 56)"
definition dy_nindirectsyms :: "memory \<Rightarrow> 64 word \<Rightarrow> 64 word" where "dy_nindirectsyms m c = rd32 m (c + 60)"
definition nl_strx :: "memory \<Rightarrow> 64 word \<Rightarrow> 64 word" where "nl_strx m n = rd32 m n"
definition nl_type :: "memory \<Rightarrow> 64 word \<Rightarrow> 8 word" where "nl_type m n = m (n + 4)"
definition nl_value :: "memory \<Rightarrow> 64 word \<Rightarrow> 64 word" where "nl_value m n = rd64 m (n + 8)"

section \<open>Rebinding (mach_hook.c)\<close>

text \<open>The linked list of tables of rebindings is a list of lists; \<open>ok\<close> is whether both allocations succeed.\<close>

definition prepend_rebindings :: "bool \<Rightarrow> rebinding list list \<Rightarrow> rebinding list \<Rightarrow> int \<times> rebinding list list" where
  "prepend_rebindings ok head rbs = (if ok then (0, rbs # head) else (-1, head))"

definition mach_rebind_slot :: "rebinding \<Rightarrow> 64 word \<Rightarrow> memory \<Rightarrow> memory" where
  "mach_rebind_slot rb slot m =
     (let m1 = (case rb_replaced rb of None \<Rightarrow> m
                | Some a \<Rightarrow> if rd64 m slot \<noteq> rb_replacement rb then wr64 m a (rd64 m slot) else m)
      in wr64 m1 slot (rb_replacement rb))"

text \<open>The loops over the tables: the first rebinding with the name wins.\<close>

fun mach_rebind_first :: "rebinding list list \<Rightarrow> 64 word \<Rightarrow> 64 word \<Rightarrow> memory \<Rightarrow> memory" where
  "mach_rebind_first [] name slot m = m"
| "mach_rebind_first ([] # es) name slot m = mach_rebind_first es name slot m"
| "mach_rebind_first ((rb # rbs) # es) name slot m =
     (if m name \<noteq> 0 \<and> m (name + 1) \<noteq> 0 \<and> mem_streq m (name + 1) (rb_name rb) then mach_rebind_slot rb slot m
      else mach_rebind_first (rbs # es) name slot m)"

text \<open>
  \<open>perform_rebinding_with_section\<close>: \<open>ind\<close> are the indices of the section in the indirect symbol table, \<open>binds\<close>
  its pointers; \<open>n\<close> pointers are left, from \<open>i\<close> on.
\<close>

record mach_tables =
  mt_symtab :: "64 word"
  mt_strtab :: "64 word"
  mt_indirect :: "64 word"

definition mach_index :: "64 word \<Rightarrow> memory \<Rightarrow> nat \<Rightarrow> 64 word" where
  "mach_index ind m i = rd32 m (ind + word_of_nat (4 * i))"

definition mach_skip :: "64 word \<Rightarrow> bool" where
  "mach_skip idx \<longleftrightarrow> idx = INDIRECT_SYMBOL_ABS \<or> idx = INDIRECT_SYMBOL_LOCAL \<or>
     idx = (INDIRECT_SYMBOL_LOCAL OR INDIRECT_SYMBOL_ABS)"

definition mach_name :: "mach_tables \<Rightarrow> memory \<Rightarrow> 64 word \<Rightarrow> 64 word" where
  "mach_name t m idx = mt_strtab t + nl_strx m (mt_symtab t + 16 * idx)"

fun mach_section_loop :: "rebinding list list \<Rightarrow> mach_tables \<Rightarrow> 64 word \<Rightarrow> 64 word \<Rightarrow> nat \<Rightarrow> nat \<Rightarrow> memory \<Rightarrow> memory" where
  "mach_section_loop es t ind binds i 0 m = m"
| "mach_section_loop es t ind binds i (Suc n) m =
     mach_section_loop es t ind binds (Suc i) n
       (if mach_skip (mach_index ind m i) then m
        else mach_rebind_first es (mach_name t m (mach_index ind m i)) (binds + word_of_nat (8 * i)) m)"

definition perform_rebinding_with_section :: "rebinding list list \<Rightarrow> 64 word \<Rightarrow> 64 word \<Rightarrow> mach_tables \<Rightarrow> memory \<Rightarrow> memory" where
  "perform_rebinding_with_section es sect slide t m =
     mach_section_loop es t (mt_indirect t + 4 * sc_reserved1 m sect) (slide + sc_addr m sect) 0
       (unat (sc_size m sect) div 8) m"

text \<open>The first loop over the load commands: the last one of each kind stays.\<close>

record mach_cmds =
  mc_linkedit :: "64 word option"
  mc_symtab :: "64 word option"
  mc_dysymtab :: "64 word option"

fun mach_scan :: "memory \<Rightarrow> nat \<Rightarrow> 64 word \<Rightarrow> mach_cmds \<Rightarrow> mach_cmds" where
  "mach_scan m 0 c r = r"
| "mach_scan m (Suc n) c r =
     mach_scan m n (c + lc_cmdsize m c)
       (if lc_cmd m c = LC_SEGMENT_64 then
          (if sg_named m c ''__LINKEDIT'' then r\<lparr>mc_linkedit := Some c\<rparr> else r)
        else if lc_cmd m c = LC_SYMTAB then r\<lparr>mc_symtab := Some c\<rparr>
        else if lc_cmd m c = LC_DYSYMTAB then r\<lparr>mc_dysymtab := Some c\<rparr>
        else r)"

text \<open>The second one: the sections of the data segments, \<open>n\<close> of them from \<open>j\<close> on.\<close>

fun mach_sections :: "rebinding list list \<Rightarrow> 64 word \<Rightarrow> mach_tables \<Rightarrow> 64 word \<Rightarrow> nat \<Rightarrow> nat \<Rightarrow> memory \<Rightarrow> memory" where
  "mach_sections es slide t c j 0 m = m"
| "mach_sections es slide t c j (Suc n) m =
     (let sect = c + 72 + word_of_nat (80 * j);
          m1 = (if sc_type m sect = S_LAZY_SYMBOL_POINTERS then perform_rebinding_with_section es sect slide t m else m);
          m2 = (if sc_type m1 sect = S_NON_LAZY_SYMBOL_POINTERS then perform_rebinding_with_section es sect slide t m1 else m1)
      in mach_sections es slide t c (Suc j) n m2)"

definition data_segment :: "memory \<Rightarrow> 64 word \<Rightarrow> bool" where
  "data_segment m c \<longleftrightarrow> lc_cmd m c = LC_SEGMENT_64 \<and> (sg_named m c ''__DATA'' \<or> sg_named m c ''__DATA_CONST'')"

fun mach_segments :: "rebinding list list \<Rightarrow> 64 word \<Rightarrow> mach_tables \<Rightarrow> nat \<Rightarrow> 64 word \<Rightarrow> memory \<Rightarrow> memory" where
  "mach_segments es slide t 0 c m = m"
| "mach_segments es slide t (Suc n) c m =
     (let m1 = (if data_segment m c then mach_sections es slide t c 0 (sg_nsects m c) m else m)
      in mach_segments es slide t n (c + lc_cmdsize m1 c) m1)"

definition mach_tables_of :: "memory \<Rightarrow> 64 word \<Rightarrow> 64 word \<Rightarrow> 64 word \<Rightarrow> 64 word \<Rightarrow> mach_tables" where
  "mach_tables_of m slide seg sy dys =
     (let base = slide + sg_vmaddr m seg - sg_fileoff m seg
      in \<lparr>mt_symtab = base + st_symoff m sy, mt_strtab = base + st_stroff m sy,
          mt_indirect = base + dy_indirectsymoff m dys\<rparr>)"

definition rebind_symbols_for_image :: "(64 word \<Rightarrow> 64 word option) \<Rightarrow> rebinding list list \<Rightarrow> 64 word \<Rightarrow> 64 word \<Rightarrow>
    memory \<Rightarrow> memory" where
  "rebind_symbols_for_image dladdr es header slide m =
     (if dladdr header = None then m
      else
       (let r = mach_scan m (mh_ncmds m header) (header + 32) \<lparr>mc_linkedit = None, mc_symtab = None, mc_dysymtab = None\<rparr>
        in case (mc_symtab r, mc_dysymtab r, mc_linkedit r) of
             (Some sy, Some dys, Some seg) \<Rightarrow>
               if dy_nindirectsyms m dys = 0 then m
               else mach_segments es slide (mach_tables_of m slide seg sy dys) (mh_ncmds m header) (header + 32) m
           | _ \<Rightarrow> m))"

definition mach_rebind_symbols_image :: "bool \<Rightarrow> (64 word \<Rightarrow> 64 word option) \<Rightarrow> 64 word \<Rightarrow> 64 word \<Rightarrow> rebinding list \<Rightarrow>
    memory \<Rightarrow> int \<times> memory" where
  "mach_rebind_symbols_image ok dladdr header slide rbs m =
     (let (retval, es) = prepend_rebindings ok [] rbs
      in (retval, rebind_symbols_for_image dladdr es header slide m))"

section \<open>Finding the image (EHooker.cpp)\<close>

text \<open>The load commands that \<open>first_external_symbol_for_image\<close> looks for: text segment, linkedit segment, symbols.\<close>

fun image_scan :: "memory \<Rightarrow> nat \<Rightarrow> 64 word \<Rightarrow> 64 word option \<times> 64 word option \<times> 64 word option \<Rightarrow>
    64 word option \<times> 64 word option \<times> 64 word option" where
  "image_scan m 0 c r = r"
| "image_scan m (Suc n) c (txt, lnk, sy) =
     image_scan m n (c + lc_cmdsize m c)
       (if lc_cmd m c = LC_SEGMENT \<or> lc_cmd m c = LC_SEGMENT_64 then
          (if sg_named m c ''__TEXT'' then (Some c, lnk, sy)
           else if sg_named m c ''__LINKEDIT'' then (txt, Some c, sy) else (txt, lnk, sy))
        else if lc_cmd m c = LC_SYMTAB then (txt, lnk, Some c) else (txt, lnk, sy))"

fun first_external :: "memory \<Rightarrow> 64 word \<Rightarrow> nat \<Rightarrow> 64 word \<Rightarrow> 64 word option" where
  "first_external m strings 0 sy = None"
| "first_external m strings (Suc n) sy =
     (if nl_type m sy AND 1 \<noteq> 1 \<or> nl_value m sy = 0 then first_external m strings n (sy + 16)
      else Some (strings + nl_strx m sy))"

definition first_external_symbol_for_image :: "(64 word \<Rightarrow> 64 word option) \<Rightarrow> memory \<Rightarrow> 64 word \<Rightarrow> 64 word option" where
  "first_external_symbol_for_image dladdr m header =
     (if dladdr header = None then None
      else
       (case image_scan m (mh_ncmds m header) (header + 32) (None, None, None) of
          (Some txt, Some lnk, Some sy) \<Rightarrow>
            (let slide = (sg_vmaddr m lnk - sg_vmaddr m txt) - sg_fileoff m lnk
             in first_external m (header + (st_stroff m sy + slide)) (st_nsyms m sy) (header + (st_symoff m sy + slide)))
        | _ \<Rightarrow> None))"

text \<open>
  The loop of \<open>dlopen\<close> over the images, from \<open>i\<close> down to 0. \<open>headers i\<close> and \<open>slides i\<close> are what dyld gives for an
  index, \<open>dlsym\<close> looks up the string at an address in the module that has been opened, and \<open>dladdr\<close> gives the base
  of the image that an address is in.
\<close>

fun dlopen_loop :: "(nat \<Rightarrow> 64 word) \<Rightarrow> (nat \<Rightarrow> 64 word) \<Rightarrow> (memory \<Rightarrow> 64 word \<Rightarrow> 64 word option) \<Rightarrow>
    (64 word \<Rightarrow> 64 word option) \<Rightarrow> bool \<Rightarrow> rebinding list \<Rightarrow> nat \<Rightarrow> memory \<Rightarrow> memory" where
  "dlopen_loop headers slides dlsym dladdr ok rbs i m =
     (let next = (case i of 0 \<Rightarrow> m | Suc j \<Rightarrow> dlopen_loop headers slides dlsym dladdr ok rbs j m)
      in case first_external_symbol_for_image dladdr m (headers i) of
           None \<Rightarrow> next
         | Some name \<Rightarrow>
            if m name = 0 then next
            else (case dlsym m (name + 1) of
                    None \<Rightarrow> next
                  | Some address \<Rightarrow>
                     (case dladdr address of
                        None \<Rightarrow> m
                      | Some base \<Rightarrow> snd (mach_rebind_symbols_image ok dladdr base (slides i) rbs m))))"

declare dlopen_loop.simps [simp del]

definition hook_mac_dlopen :: "nat \<Rightarrow> (nat \<Rightarrow> 64 word) \<Rightarrow> (nat \<Rightarrow> 64 word) \<Rightarrow>
    (64 word \<Rightarrow> memory \<Rightarrow> 64 word \<Rightarrow> 64 word option) \<Rightarrow> (64 word \<Rightarrow> 64 word option) \<Rightarrow> bool \<Rightarrow> rebinding list \<Rightarrow>
    64 word \<times> memory \<Rightarrow> 64 word \<times> memory" where
  "hook_mac_dlopen count headers slides dlsym dladdr ok rbs opened =
     (case opened of (h, m) \<Rightarrow>
        if h \<noteq> 0 then (h, dlopen_loop headers slides (dlsym (h OR 1)) dladdr ok rbs count m) else (h, m))"

text \<open>The names that the macOS build adds to the table.\<close>

definition mac_rebinding_names :: "string list" where
  "mac_rebinding_names = take 27 rebinding_names @ [''kevent'', ''kevent64'']"

section \<open>The effect\<close>

text \<open>What the image says of one pointer: the slot, and the rebinding for the name of its symbol.\<close>

definition mach_found :: "rebinding list list \<Rightarrow> mach_tables \<Rightarrow> 64 word \<Rightarrow> memory \<Rightarrow> nat \<Rightarrow> rebinding option" where
  "mach_found es t ind m i =
     (let idx = mach_index ind m i; name = mach_name t m idx in
      if mach_skip idx \<or> m name = 0 \<or> m (name + 1) = 0 then None
      else find (\<lambda>rb. mem_streq m (name + 1) (rb_name rb)) (concat es))"

type_synonym slot_plan = "(64 word \<times> rebinding option) list"

definition plan_entries :: "rebinding list list \<Rightarrow> mach_tables \<Rightarrow> 64 word \<Rightarrow> 64 word \<Rightarrow> nat \<Rightarrow> memory \<Rightarrow> slot_plan" where
  "plan_entries es t ind binds n m = map (\<lambda>i. (binds + word_of_nat (8 * i), mach_found es t ind m i)) [0..<n]"

text \<open>The type of a section, its part of the indirect table, its pointers and their number, and what they are.\<close>

type_synonym mach_section_plan = "64 word \<times> 64 word \<times> 64 word \<times> nat \<times> slot_plan"

text \<open>One section: whether it holds symbol pointers, and then where its tables are and what they say.\<close>

definition plan_section :: "rebinding list list \<Rightarrow> 64 word \<Rightarrow> mach_tables \<Rightarrow> memory \<Rightarrow> 64 word \<Rightarrow>
    mach_section_plan option" where
  "plan_section es slide t m sect =
     (if sc_type m sect \<in> {S_LAZY_SYMBOL_POINTERS, S_NON_LAZY_SYMBOL_POINTERS} then
        (let ind = mt_indirect t + 4 * sc_reserved1 m sect; binds = slide + sc_addr m sect; n = unat (sc_size m sect) div 8
         in Some (sc_type m sect, ind, binds, n, plan_entries es t ind binds n m))
      else None)"

definition plan_sections :: "rebinding list list \<Rightarrow> 64 word \<Rightarrow> mach_tables \<Rightarrow> memory \<Rightarrow> 64 word \<Rightarrow>
    mach_section_plan option list" where
  "plan_sections es slide t m c =
     (if data_segment m c then map (\<lambda>j. plan_section es slide t m (c + 72 + word_of_nat (80 * j))) [0..<sg_nsects m c] else [])"

fun plan_segments :: "rebinding list list \<Rightarrow> 64 word \<Rightarrow> mach_tables \<Rightarrow> memory \<Rightarrow> nat \<Rightarrow> 64 word \<Rightarrow>
    (64 word \<times> mach_section_plan option list) list" where
  "plan_segments es slide t m 0 c = []"
| "plan_segments es slide t m (Suc n) c =
     (c, plan_sections es slide t m c) # plan_segments es slide t m n (c + lc_cmdsize m c)"

fun section_slots :: "mach_section_plan option \<Rightarrow> slot_plan" where
  "section_slots None = []"
| "section_slots (Some (ty, ind, binds, n, ps)) = ps"

definition all_slots :: "(64 word \<times> mach_section_plan option list) list \<Rightarrow> slot_plan" where
  "all_slots pl = concat (map (\<lambda>(c, ss). concat (map section_slots ss)) pl)"

text \<open>Carrying out a plan.\<close>

fun put :: "64 word \<times> rebinding option \<Rightarrow> memory \<Rightarrow> memory" where
  "put (slot, None) m = m"
| "put (slot, Some rb) m = wr64 m slot (rb_replacement rb)"

definition plan_area :: "slot_plan \<Rightarrow> 64 word set" where
  "plan_area ps = (\<Union>p\<in>set ps. quad (fst p))"

definition same_but :: "64 word set \<Rightarrow> memory \<Rightarrow> memory \<Rightarrow> bool" where
  "same_but W m m' \<longleftrightarrow> (\<forall>x. x \<notin> W \<longrightarrow> m' x = m x)"

definition plain :: "rebinding list list \<Rightarrow> bool" where
  "plain es \<longleftrightarrow> (\<forall>rb\<in>set (concat es). rb_replaced rb = None)"

lemma mach_rebind_first_eq:
  assumes "plain es"
  shows "mach_rebind_first es name slot m =
     (if m name = 0 \<or> m (name + 1) = 0 then m
      else (case find (\<lambda>rb. mem_streq m (name + 1) (rb_name rb)) (concat es) of None \<Rightarrow> m
            | Some rb \<Rightarrow> wr64 m slot (rb_replacement rb)))"
  using assms
  by (induction es name slot m rule: mach_rebind_first.induct) (auto simp: plain_def mach_rebind_slot_def)

lemma section_step:
  assumes "plain es"
  shows "(if mach_skip (mach_index ind m i) then m
      else mach_rebind_first es (mach_name t m (mach_index ind m i)) slot m) = put (slot, mach_found es t ind m i) m"
  by (auto simp: mach_rebind_first_eq [OF assms] mach_found_def Let_def split: option.split)

lemma put_same: "quad (fst p) \<subseteq> W \<Longrightarrow> same_but W m (put p m)"
  by (cases p; cases "snd p") (auto simp: same_but_def intro!: wr64_frame)

lemma same_but_trans: "same_but W m m1 \<Longrightarrow> same_but W m1 m2 \<Longrightarrow> same_but W m m2"
  by (simp add: same_but_def)

lemma fold_put_same: "plan_area ps \<subseteq> W \<Longrightarrow> same_but W m (fold put ps m)"
proof (induction ps arbitrary: m)
  case (Cons p ps)
  have "same_but W m (put p m)" by (rule put_same) (use Cons.prems in \<open>auto simp: plan_area_def\<close>)
  moreover have "same_but W (put p m) (fold put ps (put p m))"
    by (rule Cons.IH) (use Cons.prems in \<open>auto simp: plan_area_def\<close>)
  ultimately show ?case using same_but_trans by auto
qed (simp add: same_but_def)

lemma section_loop_plan:
  assumes pl: "plain es" and st: "\<forall>m1. same_but W m m1 \<longrightarrow> plan_entries es t ind binds N m1 = plan_entries es t ind binds N m"
    and ar: "plan_area (plan_entries es t ind binds N m) \<subseteq> W"
  shows "i + n = N \<Longrightarrow> same_but W m mi \<Longrightarrow>
     mach_section_loop es t ind binds i n mi = fold put (drop i (plan_entries es t ind binds N m)) mi"
proof (induction n arbitrary: i mi)
  case 0
  then show ?case by (simp add: plan_entries_def)
next
  case (Suc n)
  let ?p = "\<lambda>m. plan_entries es t ind binds N m"
  have i: "i < N" using Suc.prems(1) by simp
  then have l: "i < length (?p m)" by (simp add: plan_entries_def)
  have nth: "?p m' ! i = (binds + word_of_nat (8 * i), mach_found es t ind m' i)" for m'
    using i by (simp add: plan_entries_def)
  have e: "?p mi ! i = ?p m ! i" using st Suc.prems(2) by simp
  have step: "mach_section_loop es t ind binds i (Suc n) mi = mach_section_loop es t ind binds (Suc i) n (put (?p m ! i) mi)"
    using e unfolding mach_section_loop.simps section_step [OF pl] nth by simp
  have "quad (fst (?p m ! i)) \<subseteq> W" using ar l nth_mem [OF l] unfolding plan_area_def by blast
  then have "same_but W m (put (?p m ! i) mi)" using same_but_trans [OF Suc.prems(2) put_same] by blast
  from Suc.IH [OF _ this] Suc.prems(1) have
    "mach_section_loop es t ind binds (Suc i) n (put (?p m ! i) mi) = fold put (drop (Suc i) (?p m)) (put (?p m ! i) mi)"
    by simp
  then show ?case unfolding step Cons_nth_drop_Suc [OF l, symmetric] by simp
qed

lemma perform_plan:
  assumes pl: "plain es" and st: "\<forall>m1. same_but W m m1 \<longrightarrow> plan_section es slide t m1 sect = plan_section es slide t m sect"
    and ar: "plan_area (section_slots (plan_section es slide t m sect)) \<subseteq> W" and mi: "same_but W m mi"
  shows "(let m1 = (if sc_type mi sect = S_LAZY_SYMBOL_POINTERS then perform_rebinding_with_section es sect slide t mi else mi)
      in if sc_type m1 sect = S_NON_LAZY_SYMBOL_POINTERS then perform_rebinding_with_section es sect slide t m1 else m1) =
    fold put (section_slots (plan_section es slide t m sect)) mi"
proof (cases "plan_section es slide t m sect")
  case None
  then have "plan_section es slide t mi sect = None" using st mi by simp
  then have "sc_type mi sect \<notin> {7, 6}" by (auto simp: plan_section_def Let_def split: if_splits)
  then show ?thesis using None by (simp add: Let_def)
next
  case (Some x)
  obtain ty ind binds n ps where x: "x = (ty, ind, binds, n, ps)" by (metis prod.exhaust)
  have at: "sc_type m1 sect = ty \<and> ty \<in> {7, 6} \<and> mt_indirect t + 4 * sc_reserved1 m1 sect = ind \<and>
      slide + sc_addr m1 sect = binds \<and> unat (sc_size m1 sect) div 8 = n \<and> plan_entries es t ind binds n m1 = ps"
    if "same_but W m m1" for m1
  proof -
    have "plan_section es slide t m1 sect = Some (ty, ind, binds, n, ps)" using st that Some x by simp
    then show ?thesis by (auto simp: plan_section_def Let_def split: if_splits)
  qed
  have m: "same_but W m m" by (simp add: same_but_def)
  have "\<forall>m1. same_but W m m1 \<longrightarrow> plan_entries es t ind binds n m1 = plan_entries es t ind binds n m"
    using at m by simp
  moreover have "plan_area (plan_entries es t ind binds n m) \<subseteq> W" using ar at [OF m] by (simp add: Some x)
  ultimately have "mach_section_loop es t ind binds 0 n mi = fold put (drop 0 (plan_entries es t ind binds n m)) mi"
    by (rule section_loop_plan [OF pl]) (use mi in simp_all)
  then have run: "perform_rebinding_with_section es sect slide t mi = fold put ps mi"
    using at [OF mi] at [OF m] by (simp add: perform_rebinding_with_section_def)
  have "same_but W m (fold put ps mi)"
    by (rule same_but_trans [OF mi fold_put_same]) (use ar in \<open>simp add: Some x\<close>)
  from at [OF this] at [OF mi] run show ?thesis by (auto simp: Some x)
qed

lemma sections_plan:
  assumes pl: "plain es"
    and st: "\<forall>m1. same_but W m m1 \<longrightarrow> (\<forall>j<N. plan_section es slide t m1 (c + 72 + word_of_nat (80 * j)) =
      plan_section es slide t m (c + 72 + word_of_nat (80 * j)))"
    and ar: "\<forall>j<N. plan_area (section_slots (plan_section es slide t m (c + 72 + word_of_nat (80 * j)))) \<subseteq> W"
  shows "j + n = N \<Longrightarrow> same_but W m mi \<Longrightarrow> mach_sections es slide t c j n mi =
    fold put (concat (map (\<lambda>j. section_slots (plan_section es slide t m (c + 72 + word_of_nat (80 * j)))) [j..<N])) mi"
proof (induction n arbitrary: j mi)
  case (Suc n)
  let ?s = "\<lambda>j. c + 72 + word_of_nat (80 * j)"
  let ?ps = "section_slots (plan_section es slide t m (?s j))"
  have j: "j < N" using Suc.prems(1) by simp
  have a: "plan_area ?ps \<subseteq> W" using ar j by blast
  have "\<forall>m1. same_but W m m1 \<longrightarrow> plan_section es slide t m1 (?s j) = plan_section es slide t m (?s j)"
    using st j by blast
  note p = perform_plan [OF pl this a Suc.prems(2)]
  have step: "mach_sections es slide t c j (Suc n) mi = mach_sections es slide t c (Suc j) n (fold put ?ps mi)"
    unfolding mach_sections.simps Let_def p [unfolded Let_def] ..
  have "same_but W m (fold put ?ps mi)" by (rule same_but_trans [OF Suc.prems(2) fold_put_same [OF a]])
  from Suc.IH [OF _ this] Suc.prems(1) show ?case unfolding step upt_conv_Cons [OF j] by simp
qed simp

lemma segments_plan:
  assumes pl: "plain es"
  shows "\<forall>m1. same_but W m m1 \<longrightarrow> plan_segments es slide t m1 n c = plan_segments es slide t m n c \<Longrightarrow>
    plan_area (all_slots (plan_segments es slide t m n c)) \<subseteq> W \<Longrightarrow> same_but W m mi \<Longrightarrow>
    mach_segments es slide t n c mi = fold put (all_slots (plan_segments es slide t m n c)) mi"
proof (induction n arbitrary: c mi)
  case 0
  then show ?case by (simp add: all_slots_def)
next
  case (Suc n)
  let ?ss = "plan_sections es slide t m c" and ?s = "\<lambda>j. c + 72 + word_of_nat (80 * j)"
  let ?ps = "concat (map section_slots ?ss)"
  have all: "all_slots (plan_segments es slide t m (Suc n) c) =
      ?ps @ all_slots (plan_segments es slide t m n (c + lc_cmdsize m c))" by (simp add: all_slots_def)
  have a: "plan_area ?ps \<subseteq> W" "plan_area (all_slots (plan_segments es slide t m n (c + lc_cmdsize m c))) \<subseteq> W"
    using Suc.prems(2) unfolding all plan_area_def by auto
  have hd: "plan_sections es slide t m1 c = ?ss" if "same_but W m m1" for m1 using Suc.prems(1) that by simp
  have tl: "plan_segments es slide t m1 n (c + lc_cmdsize m1 c) = plan_segments es slide t m n (c + lc_cmdsize m c)"
    if "same_but W m m1" for m1 using Suc.prems(1) that by simp
  have nx: "n = 0 \<or> c + lc_cmdsize m1 c = c + lc_cmdsize m c" if "same_but W m m1" for m1
    using tl [OF that] by (cases n) auto
  define m1 where "m1 = (if data_segment mi c then mach_sections es slide t c 0 (sg_nsects mi c) mi else mi)"
  have m1: "m1 = fold put ?ps mi"
  proof (cases "data_segment mi c \<and> sg_nsects mi c \<noteq> 0")
    case False
    then have "plan_sections es slide t mi c = []" by (auto simp: plan_sections_def)
    then have "?ss = []" using hd [OF Suc.prems(3)] by simp
    then show ?thesis using False by (auto simp: m1_def)
  next
    case True
    define N where "N = sg_nsects mi c"
    have eN: "plan_sections es slide t mi c = map (\<lambda>j. plan_section es slide t mi (?s j)) [0..<N]"
      using True by (simp add: plan_sections_def N_def)
    have l: "length ?ss = N" "N \<noteq> 0" using arg_cong [OF hd [OF Suc.prems(3)], of length] True
      unfolding eN by (simp_all add: N_def)
    have el: "data_segment m2 c \<and> sg_nsects m2 c = N \<and> (\<forall>j<N. plan_section es slide t m2 (?s j) = ?ss ! j)"
      if "same_but W m m2" for m2
    proof -
      have e: "plan_sections es slide t m2 c = ?ss" by (rule hd [OF that])
      have d: "data_segment m2 c" using e l by (cases "data_segment m2 c") (auto simp: plan_sections_def)
      then have ml: "plan_sections es slide t m2 c = map (\<lambda>j. plan_section es slide t m2 (?s j)) [0..<sg_nsects m2 c]"
        by (simp add: plan_sections_def)
      then have n2: "sg_nsects m2 c = N" using arg_cong [OF e, of length] l(1) by simp
      have "plan_section es slide t m2 (?s j) = ?ss ! j" if "j < N" for j
        using ml n2 that unfolding e by simp
      then show ?thesis using d n2 by blast
    qed
    have mm: "same_but W m m" by (simp add: same_but_def)
    have ss: "?ss = map (\<lambda>j. plan_section es slide t m (?s j)) [0..<N]"
      by (rule nth_equalityI) (use l el [OF mm] in simp_all)
    have st: "\<forall>m2. same_but W m m2 \<longrightarrow> (\<forall>j<N. plan_section es slide t m2 (?s j) = plan_section es slide t m (?s j))"
      using el mm by simp
    have ar: "\<forall>j<N. plan_area (section_slots (plan_section es slide t m (?s j))) \<subseteq> W"
      using a(1) unfolding ss plan_area_def by fastforce
    have "mach_sections es slide t c 0 N mi =
        fold put (concat (map (\<lambda>j. section_slots (plan_section es slide t m (?s j))) [0..<N])) mi"
      by (rule sections_plan [OF pl st ar]) (use Suc.prems(3) in simp_all)
    then show ?thesis using True unfolding m1_def ss N_def [symmetric] by (simp add: comp_def)
  qed
  have s1: "same_but W m m1" unfolding m1 by (rule same_but_trans [OF Suc.prems(3) fold_put_same [OF a(1)]])
  have step: "mach_segments es slide t (Suc n) c mi = mach_segments es slide t n (c + lc_cmdsize m c) m1"
    unfolding mach_segments.simps Let_def m1_def [symmetric] using nx [OF s1] by auto
  have "mach_segments es slide t n (c + lc_cmdsize m c) m1 =
      fold put (all_slots (plan_segments es slide t m n (c + lc_cmdsize m c))) m1"
  proof (cases "n = 0")
    case False
    have "\<forall>m2. same_but W m m2 \<longrightarrow> plan_segments es slide t m2 n (c + lc_cmdsize m c) =
        plan_segments es slide t m n (c + lc_cmdsize m c)"
      using tl nx False by metis
    from Suc.IH [OF this a(2) s1] show ?thesis .
  qed (simp add: all_slots_def)
  then show ?case unfolding step all m1 by simp
qed

definition apart :: "slot_plan \<Rightarrow> bool" where
  "apart ps \<longleftrightarrow> sorted_wrt (\<lambda>p q. quad (fst p) \<inter> quad (fst q) = {}) ps"

lemma fold_put_effect:
  assumes "apart ps"
  shows "\<forall>p\<in>set ps. rd64 (fold put ps m) (fst p) =
    (case snd p of None \<Rightarrow> rd64 m (fst p) | Some rb \<Rightarrow> rb_replacement rb)"
  using assms
proof (induction ps arbitrary: m)
  case (Cons p ps)
  have d: "quad (fst p) \<inter> quad (fst q) = {}" if "q \<in> set ps" for q using Cons.prems that by (simp add: apart_def)
  have IH: "\<forall>q\<in>set ps. rd64 (fold put ps (put p m)) (fst q) =
      (case snd q of None \<Rightarrow> rd64 (put p m) (fst q) | Some rb \<Rightarrow> rb_replacement rb)"
    by (rule Cons.IH) (use Cons.prems in \<open>simp add: apart_def\<close>)
  have p: "rd64 (fold put ps (put p m)) (fst p) = rd64 (put p m) (fst p)"
  proof (rule rd64_cong)
    fix x assume "x \<in> quad (fst p)"
    then have "x \<notin> plan_area ps" using d unfolding plan_area_def by blast
    then show "fold put ps (put p m) x = put p m x"
      using fold_put_same [of ps "plan_area ps" "put p m"] by (simp add: same_but_def)
  qed
  have h: "rd64 (put p m) (fst p) = (case snd p of None \<Rightarrow> rd64 m (fst p) | Some rb \<Rightarrow> rb_replacement rb)"
    by (cases p; cases "snd p") (auto simp: rd64_wr64)
  have o: "rd64 (put p m) (fst q) = rd64 m (fst q)" if "q \<in> set ps" for q
  proof (rule rd64_cong)
    fix x assume "x \<in> quad (fst q)"
    then have "x \<notin> quad (fst p)" using d [OF that] by blast
    then show "put p m x = m x" by (cases p; cases "snd p") (auto simp: wr64_frame)
  qed
  show ?case using IH p h o by (auto split: option.splits)
qed simp

text \<open>Without rebindings, which is what a failed allocation leaves, nothing is written.\<close>

lemma mach_section_loop_nil: "mach_section_loop [] t ind binds i n m = m"
  by (induction n arbitrary: i) simp_all

lemma mach_sections_nil: "mach_sections [] slide t c j n m = m"
  by (induction n arbitrary: j) (simp_all add: perform_rebinding_with_section_def mach_section_loop_nil Let_def)

lemma mach_segments_nil: "mach_segments [] slide t n c m = m"
  by (induction n arbitrary: c) (simp_all add: mach_sections_nil Let_def)

lemma rebind_image_nil: "rebind_symbols_for_image dladdr [] header slide m = m"
  by (simp add: rebind_symbols_for_image_def mach_segments_nil Let_def split: option.split)

section \<open>The first external symbol\<close>

lemma first_external_spec:
  "first_external m strings n a =
     (if \<exists>i<n. nl_type m (a + 16 * word_of_nat i) AND 1 = 1 \<and> nl_value m (a + 16 * word_of_nat i) \<noteq> 0
      then Some (strings + nl_strx m (a + 16 * word_of_nat
        (LEAST i. nl_type m (a + 16 * word_of_nat i) AND 1 = 1 \<and> nl_value m (a + 16 * word_of_nat i) \<noteq> 0)))
      else None)"
proof (induction n arbitrary: a)
  case (Suc n)
  define P where "P b = (\<lambda>i. nl_type m (b + 16 * word_of_nat i) AND 1 = 1 \<and> nl_value m (b + 16 * word_of_nat i) \<noteq> 0)" for b
  show ?case
  proof (cases "P a 0")
    case True
    then have "(LEAST i. P a i) = 0" by (rule Least_equality) simp
    moreover have "\<exists>i<Suc n. P a i" using True by blast
    ultimately show ?thesis using True unfolding P_def by simp
  next
    case False
    have sh: "P (a + 16) i = P a (Suc i)" for i by (simp add: P_def algebra_simps)
    have ex: "(\<exists>i<Suc n. P a i) \<longleftrightarrow> (\<exists>i<n. P (a + 16) i)"
      unfolding sh using False by (metis less_Suc_eq_0_disj)
    have "first_external m strings (Suc n) a = first_external m strings n (a + 16)"
      using False by (auto simp: P_def)
    also have "\<dots> = (if \<exists>i<n. P (a + 16) i
        then Some (strings + nl_strx m (a + 16 + 16 * word_of_nat (LEAST i. P (a + 16) i))) else None)"
      unfolding P_def by (rule Suc.IH)
    also have "\<dots> = (if \<exists>i<Suc n. P a i then Some (strings + nl_strx m (a + 16 * word_of_nat (LEAST i. P a i))) else None)"
    proof (cases "\<exists>i<n. P (a + 16) i")
      case True
      then obtain i where "P a (Suc i)" using sh by blast
      from Least_Suc [OF this False] have "(LEAST i. P a i) = Suc (LEAST i. P (a + 16) i)" unfolding sh .
      then show ?thesis using True ex by (simp add: algebra_simps)
    next
      case n1: False
      then have n2: "\<not> (\<exists>i<Suc n. P a i)" using ex by blast
      show ?thesis unfolding if_not_P [OF n1] if_not_P [OF n2] ..
    qed
    finally show ?thesis unfolding P_def .
  qed
qed simp

end
