(* ===== verification/Demo_Mach.thy ===== *)
theory Demo_Mach
  imports Mach_Hook Demo_Elf
begin

text \<open>
  A small Mach-O image in memory, loaded at 4096 with a slide of 4096: a linkedit segment, the two commands for its
  symbol tables, and a data segment with one section of lazy symbol pointers. Its only pointer is that of \<open>read\<close>.
\<close>

lemma rd32_bytes: "rd32 m a = word_of_nat (le_nat [m a, m (a + 1), m (a + 2), m (a + 3)])"
  unfolding rd32_def field_def rd_bytes_def by (simp add: upt_rec)

definition mach_bytes :: "64 word \<Rightarrow> bytes \<Rightarrow> (64 word \<times> 8 word) list" where
  "mach_bytes a bs = zip (map (\<lambda>i. a + word_of_nat i) [0..<length bs]) bs"

text \<open>Header; linkedit segment at 4128; its symbols and indirect symbols at 4200 and 4224; data segment at 4304.\<close>

definition demo_image :: "(64 word \<times> 8 word) list" where
  "demo_image =
     [(4112, 4)] @
     [(4128, 25), (4132, 72)] @ mach_bytes 4136 (c_name ''__LINKEDIT'') @ [(4153, 32), (4169, 16)] @
     [(4200, 2), (4204, 24), (4209, 1), (4217, 2)] @
     [(4224, 11), (4228, 80), (4281, 3), (4284, 1)] @
     [(4304, 25), (4308, 152)] @ mach_bytes 4312 (c_name ''__DATA'') @ [(4368, 1)] @
     [(4409, 48), (4416, 8), (4440, 7)] @
     [(8448, 1)] @ mach_bytes 8705 (c_name ''_read'')"

definition demo_mach :: memory where
  "demo_mach a = (case map_of demo_image a of None \<Rightarrow> 0 | Some b \<Rightarrow> b)"

lemma c_names: "c_name ''__LINKEDIT'' = [95, 95, 76, 73, 78, 75, 69, 68, 73, 84]" "c_name ''__DATA'' = [95, 95, 68, 65, 84, 65]"
  "c_name ''__DATA_CONST'' = [95, 95, 68, 65, 84, 65, 95, 67, 79, 78, 83, 84]" "c_name ''_read'' = [95, 114, 101, 97, 100]"
  "c_name ''__TEXT'' = [95, 95, 84, 69, 88, 84]"
  by (simp_all add: c_name_def of_char_def)

lemmas image_simps = demo_mach_def demo_image_def mach_bytes_def c_names

lemma demo_image_eq: "demo_image =
   [(4112, 4), (4128, 25), (4132, 72), (4136, 95), (4137, 95), (4138, 76), (4139, 73), (4140, 78), (4141, 75), (4142, 69),
    (4143, 68), (4144, 73), (4145, 84), (4153, 32), (4169, 16), (4200, 2), (4204, 24), (4209, 1), (4217, 2), (4224, 11),
    (4228, 80), (4281, 3), (4284, 1), (4304, 25), (4308, 152), (4312, 95), (4313, 95), (4314, 68), (4315, 65), (4316, 84),
    (4317, 65), (4368, 1), (4409, 48), (4416, 8), (4440, 7), (8448, 1), (8705, 95), (8706, 114), (8707, 101), (8708, 97),
    (8709, 100)]"
  by (simp add: demo_image_def mach_bytes_def c_names upt_rec)

text \<open>What is read from the image does not depend on the slot.\<close>

lemma demo_mach_reads:
  assumes "same_but (quad 16384) demo_mach m"
  shows "mh_ncmds m 4096 = 4" "lc_cmd m 4128 = 25" "lc_cmdsize m 4128 = 72" "lc_cmd m 4200 = 2" "lc_cmdsize m 4200 = 24"
    "lc_cmd m 4224 = 11" "lc_cmdsize m 4224 = 80" "lc_cmd m 4304 = 25" "lc_cmdsize m 4304 = 152"
proof -
  have r: "m x = demo_mach x" if "x \<notin> quad 16384" for x using assms that by (simp add: same_but_def)
  show "mh_ncmds m 4096 = 4" "lc_cmd m 4128 = 25" "lc_cmdsize m 4128 = 72" "lc_cmd m 4200 = 2" "lc_cmdsize m 4200 = 24"
    "lc_cmd m 4224 = 11" "lc_cmdsize m 4224 = 80" "lc_cmd m 4304 = 25" "lc_cmdsize m 4304 = 152"
    by (simp_all add: mh_ncmds_def lc_cmd_def lc_cmdsize_def rd32_bytes r quad_def demo_mach_def demo_image_eq)
qed

lemma demo_mach_names:
  assumes "same_but (quad 16384) demo_mach m"
  shows "sg_named m 4128 ''__LINKEDIT''" "\<not> sg_named m 4128 ''__DATA''" "\<not> sg_named m 4128 ''__DATA_CONST''"
    "sg_named m 4304 ''__DATA''" "\<not> sg_named m 4304 ''__LINKEDIT''"
    "sg_vmaddr m 4128 = 8192" "sg_fileoff m 4128 = 4096" "sg_nsects m 4304 = 1"
proof -
  have r: "m x = demo_mach x" if "x \<notin> quad 16384" for x using assms that by (simp add: same_but_def)
  show "sg_named m 4128 ''__LINKEDIT''" "\<not> sg_named m 4128 ''__DATA''" "\<not> sg_named m 4128 ''__DATA_CONST''"
    "sg_named m 4304 ''__DATA''" "\<not> sg_named m 4304 ''__LINKEDIT''"
    "sg_vmaddr m 4128 = 8192" "sg_fileoff m 4128 = 4096" "sg_nsects m 4304 = 1"
    by (simp_all add: sg_named_def c_names sg_vmaddr_def sg_fileoff_def sg_nsects_def rd32_bytes rd64_bytes r quad_def
      demo_mach_def demo_image_eq)
qed

lemma demo_mach_tables:
  assumes "same_but (quad 16384) demo_mach m"
  shows "st_symoff m 4200 = 256" "st_stroff m 4200 = 512" "dy_indirectsymoff m 4224 = 768" "dy_nindirectsyms m 4224 = 1"
    "sc_type m 4376 = 7" "sc_addr m 4376 = 12288" "sc_size m 4376 = 8" "sc_reserved1 m 4376 = 0"
    "rd32 m 8960 = 0" "nl_strx m 8448 = 1" "m 8705 \<noteq> 0" "m 8706 \<noteq> 0"
    "mem_streq m 8706 name_read" "\<not> mem_streq m 8706 name_write"
proof -
  have r: "m x = demo_mach x" if "x \<notin> quad 16384" for x using assms that by (simp add: same_but_def)
  show "st_symoff m 4200 = 256" "st_stroff m 4200 = 512" "dy_indirectsymoff m 4224 = 768" "dy_nindirectsyms m 4224 = 1"
    "sc_type m 4376 = 7" "sc_addr m 4376 = 12288" "sc_size m 4376 = 8" "sc_reserved1 m 4376 = 0"
    "rd32 m 8960 = 0" "nl_strx m 8448 = 1" "m 8705 \<noteq> 0" "m 8706 \<noteq> 0"
    "mem_streq m 8706 name_read" "\<not> mem_streq m 8706 name_write"
    by (simp_all add: st_symoff_def st_stroff_def dy_indirectsymoff_def dy_nindirectsyms_def sc_type_def sc_addr_def
      sc_size_def sc_reserved1_def nl_strx_def name_read_def name_write_def rd32_bytes rd64_bytes r quad_def
      demo_mach_def demo_image_eq)
qed

definition demo_mach_tabs :: mach_tables where
  "demo_mach_tabs = \<lparr>mt_symtab = 8448, mt_strtab = 8704, mt_indirect = 8960\<rparr>"

lemma demo_mach_self: "same_but (quad 16384) demo_mach demo_mach"
  by (simp add: same_but_def)

lemma demo_mach_scan:
  "mach_scan demo_mach (mh_ncmds demo_mach 4096) (4096 + 32) \<lparr>mc_linkedit = None, mc_symtab = None, mc_dysymtab = None\<rparr> =
     \<lparr>mc_linkedit = Some 4128, mc_symtab = Some 4200, mc_dysymtab = Some 4224\<rparr>"
  "mach_tables_of demo_mach 4096 4128 4200 4224 = demo_mach_tabs"
proof -
  have four: "(4 :: nat) = Suc (Suc (Suc (Suc 0)))" by simp
  note f = demo_mach_reads [OF demo_mach_self] demo_mach_names [OF demo_mach_self] demo_mach_tables [OF demo_mach_self]
  show "mach_scan demo_mach (mh_ncmds demo_mach 4096) (4096 + 32) \<lparr>mc_linkedit = None, mc_symtab = None, mc_dysymtab = None\<rparr> =
      \<lparr>mc_linkedit = Some 4128, mc_symtab = Some 4200, mc_dysymtab = Some 4224\<rparr>"
    unfolding f(1) four by (simp add: f)
  show "mach_tables_of demo_mach 4096 4128 4200 4224 = demo_mach_tabs"
    by (simp add: f mach_tables_of_def demo_mach_tabs_def)
qed

lemma demo_mach_plan:
  assumes "same_but (quad 16384) demo_mach m"
  shows "all_slots (plan_segments [demo_rebindings] 4096 demo_mach_tabs m 4 4128) = [(16384, Some (demo_rebindings ! 1))]"
    "plan_segments [demo_rebindings] 4096 demo_mach_tabs m 4 4128 =
      [(4128, []), (4200, []), (4224, []),
       (4304, [Some (7, 8960, 16384, 1, [(16384, Some (demo_rebindings ! 1))])])]"
proof -
  have four: "(4 :: nat) = Suc (Suc (Suc (Suc 0)))" by simp
  note f = demo_mach_reads [OF assms] demo_mach_names [OF assms] demo_mach_tables [OF assms]
  have e: "mach_found [demo_rebindings] demo_mach_tabs 8960 m 0 = Some (demo_rebindings ! 1)"
    by (simp add: mach_found_def mach_index_def mach_name_def mach_skip_def demo_mach_tabs_def f demo_rebindings_def Let_def)
  have s: "plan_section [demo_rebindings] 4096 demo_mach_tabs m 4376 =
      Some (7, 8960, 16384, 1, [(16384, Some (demo_rebindings ! 1))])"
    using e by (simp add: plan_section_def f plan_entries_def) (simp add: demo_mach_tabs_def)
  show p: "plan_segments [demo_rebindings] 4096 demo_mach_tabs m 4 4128 =
      [(4128, []), (4200, []), (4224, []),
       (4304, [Some (7, 8960, 16384, 1, [(16384, Some (demo_rebindings ! 1))])])]"
    unfolding four by (simp add: f plan_sections_def data_segment_def s)
  show "all_slots (plan_segments [demo_rebindings] 4096 demo_mach_tabs m 4 4128) = [(16384, Some (demo_rebindings ! 1))]"
    unfolding p by (simp add: all_slots_def)
qed

text \<open>The same image with a text segment in place of its data segment, and \<open>read\<close> as an external symbol.\<close>

definition demo_dladdr :: "64 word \<Rightarrow> 64 word option" where
  "demo_dladdr a = (if 4096 \<le> a \<and> a < 20480 then Some 4096 else None)"

definition demo_text_image :: "(64 word \<times> 8 word) list" where
  "demo_text_image =
     [(4112, 3)] @
     [(4128, 25), (4132, 72)] @ mach_bytes 4136 (c_name ''__LINKEDIT'') @ [(4153, 32), (4169, 16)] @
     [(4200, 2), (4204, 24), (4209, 1), (4212, 1), (4217, 2)] @
     [(4224, 25), (4228, 72)] @ mach_bytes 4232 (c_name ''__TEXT'') @ [(4249, 0)] @
     [(8448, 1), (8452, 1), (8456, 5)] @ mach_bytes 8705 (c_name ''_read'')"

lemma demo_text_image_eq: "demo_text_image =
   [(4112, 3), (4128, 25), (4132, 72), (4136, 95), (4137, 95), (4138, 76), (4139, 73), (4140, 78), (4141, 75), (4142, 69),
    (4143, 68), (4144, 73), (4145, 84), (4153, 32), (4169, 16), (4200, 2), (4204, 24), (4209, 1), (4212, 1), (4217, 2),
    (4224, 25), (4228, 72), (4232, 95), (4233, 95), (4234, 84), (4235, 69), (4236, 88), (4237, 84), (4249, 0),
    (8448, 1), (8452, 1), (8456, 5), (8705, 95), (8706, 114), (8707, 101), (8708, 97), (8709, 100)]"
  by (simp add: demo_text_image_def mach_bytes_def c_names upt_rec)

definition demo_mach_text :: memory where
  "demo_mach_text a = (case map_of demo_text_image a of None \<Rightarrow> 0 | Some b \<Rightarrow> b)"

lemma demo_text_reads:
  "mh_ncmds demo_mach_text 4096 = 3" "lc_cmd demo_mach_text 4128 = 25" "lc_cmdsize demo_mach_text 4128 = 72"
  "lc_cmd demo_mach_text 4200 = 2" "lc_cmdsize demo_mach_text 4200 = 24" "lc_cmd demo_mach_text 4224 = 25"
  "\<not> sg_named demo_mach_text 4128 ''__TEXT''" "sg_named demo_mach_text 4128 ''__LINKEDIT''"
  "sg_named demo_mach_text 4224 ''__TEXT''" "sg_vmaddr demo_mach_text 4128 = 8192" "sg_vmaddr demo_mach_text 4224 = 0"
  "sg_fileoff demo_mach_text 4128 = 4096" "st_stroff demo_mach_text 4200 = 512" "st_symoff demo_mach_text 4200 = 256"
  "st_nsyms demo_mach_text 4200 = 1" "nl_type demo_mach_text 8448 = 1" "nl_value demo_mach_text 8448 \<noteq> 0"
  "nl_strx demo_mach_text 8448 = 1"
  by (simp_all add: mh_ncmds_def lc_cmd_def lc_cmdsize_def sg_named_def c_names sg_vmaddr_def sg_fileoff_def st_stroff_def
    st_symoff_def st_nsyms_def nl_type_def nl_value_def nl_strx_def rd32_bytes rd64_bytes demo_mach_text_def
    demo_text_image_eq)

lemma demo_first_symbol: "first_external_symbol_for_image demo_dladdr demo_mach_text 4096 = Some 8705"
  "demo_mach_text 8705 \<noteq> 0" "demo_dladdr 5000 = Some 4096"
proof -
  have three: "(3 :: nat) = Suc (Suc (Suc 0))" by simp
  have s: "image_scan demo_mach_text 3 4128 (None, None, None) = (Some 4224, Some 4128, Some 4200)"
    unfolding three by (simp add: demo_text_reads)
  have "first_external demo_mach_text 8704 (Suc 0) 8448 = Some 8705" by (simp add: demo_text_reads)
  then show "first_external_symbol_for_image demo_dladdr demo_mach_text 4096 = Some 8705"
    by (simp add: first_external_symbol_for_image_def demo_text_reads s demo_dladdr_def)
  show "demo_mach_text 8705 \<noteq> 0" by (simp add: demo_mach_text_def demo_text_image_eq)
  have "(4096 :: 64 word) \<le> 5000" "(5000 :: 64 word) < 20480" by simp_all
  then show "demo_dladdr 5000 = Some 4096" by (simp add: demo_dladdr_def)
qed

end
