(* ===== verification/Event_Wait.thy ===== *)
theory Event_Wait
  imports Hooker_Wait
begin

text \<open>\<open>eco_poll_wait\<close> of src/eco_ae.c: waiting for one descriptor with poll(2), without the event loop.\<close>

text \<open>
  \<open>poll\<close> is called on one entry: it gives its result and the entry with \<open>revents\<close>. Its timeout is an \<open>int\<close>, so
  that the 64 bits of \<open>milliseconds\<close> are cut down to 32. The events have the numbers of epoll.
\<close>

abbreviation (input) POLLERR :: int where "POLLERR \<equiv> 8"
abbreviation (input) POLLHUP :: int where "POLLHUP \<equiv> 16"

definition poll_timeout :: "64 word \<Rightarrow> int" where
  "poll_timeout milliseconds = sint (ucast milliseconds :: 32 word)"

definition wait_mask :: "int \<Rightarrow> int" where
  "wait_mask revents =
     (if revents AND POLLIN \<noteq> 0 then ECO_POLL_READABLE else 0) OR
     (if revents AND POLLOUT \<noteq> 0 then ECO_POLL_WRITABLE else 0) OR
     (if revents AND POLLERR \<noteq> 0 then ECO_POLL_WRITABLE else 0) OR
     (if revents AND POLLHUP \<noteq> 0 then ECO_POLL_WRITABLE else 0)"

definition eco_poll_wait :: "(pollfd \<Rightarrow> int \<Rightarrow> 'w \<Rightarrow> (int \<times> pollfd) \<times> 'w) \<Rightarrow> int \<Rightarrow> int \<Rightarrow> 64 word \<Rightarrow> 'w \<Rightarrow> int \<times> 'w" where
  "eco_poll_wait poll fd msk milliseconds w =
     (let pfd = \<lparr>pf_fd = fd,
            pf_events = (if msk AND ECO_POLL_READABLE \<noteq> 0 then POLLIN else 0) OR
                        (if msk AND ECO_POLL_WRITABLE \<noteq> 0 then POLLOUT else 0),
            pf_revents = 0\<rparr>;
          ((retval, pfd'), w') = poll pfd (poll_timeout milliseconds) w
      in (if retval = 1 then wait_mask (pf_revents pfd') else retval, w'))"

lemma wait_mask_epoll: "wait_mask r = from_epoll r"
  by (simp add: wait_mask_def from_epoll_def)

lemma wait_mask_range: "wait_mask r \<in> {0, 1, 2, 3}"
  by (auto simp: wait_mask_def)

lemma poll_timeout_wraps: "poll_timeout ms = signed_take_bit 31 (sint ms)"
proof -
  have "poll_timeout ms = signed_take_bit 31 (take_bit 32 (uint ms))"
    by (simp add: poll_timeout_def sint_uint unsigned_ucast_eq)
  also have "\<dots> = signed_take_bit 31 (uint ms)" by (simp add: signed_take_bit_take_bit)
  also have "\<dots> = signed_take_bit 31 (signed_take_bit 63 (uint ms))" by (simp add: signed_take_bit_signed_take_bit)
  finally show ?thesis by (simp add: sint_uint)
qed

lemma poll_timeout_exact: "- (2 ^ 31) \<le> sint ms \<Longrightarrow> sint ms < 2 ^ 31 \<Longrightarrow> poll_timeout ms = sint ms"
  unfolding poll_timeout_wraps by (rule signed_take_bit_int_eq_self)

end
