(* ===== verification/Further_Results.thy ===== *)
theory Further_Results
  imports Demo_Hooks Demo_Parts Demo_Elf Demo_Threads Demo_Send Demo_Mach Event_Wait
begin

text \<open>
  Further results on single operations: the order in which waiters are served, the result of a timed wait,
  the arithmetic of timers and of the sleep hooks, and what a failed allocation does to the file table. Each
  is followed by an instance of it on a concrete state.
\<close>

text \<open>
  The wait for a timer that has expired is less than a second but need not be 0: the seconds
  are clamped after the borrow, the microseconds are not cleared. A timer that is one
  millisecond late makes the loop wait 999 ms.
\<close>

theorem expired_timer_waits:
  "(\<exists>(te :: (unit, unit) timeEvent) now. ms_ok te \<and> 0 \<le> snd now \<and> snd now < 1000 \<and> te_millis te = millis_of now - 1 \<and> timer_wait te now = (0, 999000)) \<and>
   (\<forall>te now. ms_ok te \<longrightarrow> 0 \<le> snd now \<longrightarrow> snd now < 1000 \<longrightarrow> te_millis te \<le> millis_of now \<longrightarrow>
      fst (timer_wait te now) = 0 \<and> 0 \<le> snd (timer_wait te now) \<and> snd (timer_wait te now) < 1000000)"
proof (intro conjI)
  let ?te = "\<lparr>te_id = 0, te_when_sec = 4, te_when_ms = 999, te_timeProc = (), te_finalizerProc = None, te_clientData = ()\<rparr>"
  have "timer_wait ?te (5, 0) = (0, 999000)" by (simp add: timer_wait_def)
  then show "\<exists>(te :: (unit, unit) timeEvent) now. ms_ok te \<and> 0 \<le> snd now \<and> snd now < 1000 \<and> te_millis te = millis_of now - 1 \<and> timer_wait te now = (0, 999000)"
    by (intro exI [of _ ?te] exI [of _ "(5, 0)"]) simp
qed (use timer_wait_late in blast)

theorem expired_timer_waits_witness:
  "snd (timer_wait \<lparr>te_id = 0, te_when_sec = 4, te_when_ms = 999, te_timeProc = (), te_finalizerProc = None, te_clientData = ()\<rparr> (5, 0))
     < 1000000"
proof -
  let ?te = "\<lparr>te_id = 0, te_when_sec = 4, te_when_ms = 999, te_timeProc = (), te_finalizerProc = None, te_clientData = ()\<rparr>"
  show ?thesis using expired_timer_waits [THEN conjunct2, rule_format, of ?te "(5, 0)"] by simp
qed

text \<open>
  The duration that the hooks give to \<open>EFiber::sleep\<close>. \<open>sleep\<close> multiplies in unsigned 32 bits, so that
it is exact for at most 4294967 seconds and wraps around above; \<open>usleep\<close> and \<open>nanosleep\<close> round
down to milliseconds (a shorter sleep becomes 0).
\<close>

theorem sleep_hooks_duration:
  assumes "\<not> bypass w" and "0 \<le> sec" and "0 \<le> nsec"
  shows "hook_sleep s w = FiberSleep (uint s * 1000 mod 2 ^ 32) \<and>
     (hook_sleep s w = FiberSleep (uint s * 1000) \<longleftrightarrow> uint s \<le> 4294967) \<and>
     hook_usleep u w = FiberSleep (uint u div 1000) \<and>
     hook_nanosleep (Some (sec, nsec)) w = FiberSleep ((sec * 1000000000 + nsec) div 1000000)"
proof -
  have e: "hook_sleep s w = FiberSleep (uint s * 1000 mod 2 ^ 32)"
    using assms(1) by (simp add: hook_sleep_def uint_word_ariths)
  have p: "0 \<le> uint s" by simp
  have "uint s * 1000 mod 2 ^ 32 = uint s * 1000 \<longleftrightarrow> uint s \<le> 4294967"
  proof
    assume "uint s * 1000 mod 2 ^ 32 = uint s * 1000"
    moreover have "uint s * 1000 mod 2 ^ 32 < 2 ^ 32" by simp
    ultimately show "uint s \<le> 4294967" by simp
  qed (use p in simp)
  moreover have "(sec * 1000000000 + nsec) div 1000000 = sec * 1000 + nsec sdiv 1000000"
  proof -
    have "sec * 1000000000 + nsec = nsec + sec * 1000 * 1000000" by simp
    then have "(sec * 1000000000 + nsec) div 1000000 = nsec div 1000000 + sec * 1000"
      by simp
    moreover have "nsec sdiv 1000000 = nsec div 1000000"
      using assms(3) by (cases "nsec = 0") (simp_all add: signed_divide_int_def)
    ultimately show ?thesis by simp
  qed
  moreover have "uint (u div 1000) = uint u div 1000" by (simp add: uint_div)
  ultimately show ?thesis using e assms(1) by (simp add: hook_usleep_def hook_nanosleep_def)
qed

theorem sleep_hooks_duration_witness:
  "hook_sleep 10 hw0 = FiberSleep 10000 \<and> hook_sleep 4294968 hw0 = FiberSleep 704 \<and>
   hook_usleep 999 hw0 = FiberSleep 0 \<and> hook_nanosleep (Some (1, 999999)) hw0 = FiberSleep 1000"
  using sleep_hooks_duration [OF hw0_simps(1), of 1 999999 10 999]
    sleep_hooks_duration [OF hw0_simps(1), of 1 999999 4294968 999] by simp

text \<open>
  If the constructor throws in \<open>get(fd)\<close>, the exception leaves the function between \<open>lock()\<close> and
\<open>unlock()\<close>. From then on every \<open>get\<close> and \<open>remove\<close> of a descriptor that shares the lock (congruent
modulo 41) spins without end.
\<close>

theorem failed_get_holds_lock:
  assumes "EFileContextManager_get S up fd m k = (FThrow, m', k')" and "lockFor fd' = lockFor fd"
  shows "EFileContextManager_get S up fd' m' k'' = (FSpin, m', k'') \<and>
     EFileContextManager_remove S up cur held fd' m' k'' = (FSpin, m', k'')"
proof -
  have l: "lockFor fd' \<in> set (fm_locked m')" using throw_holds_lock [OF assms(1)] assms(2) by simp
  show ?thesis by (intro conjI locked_spins [OF l])
qed

theorem failed_get_holds_lock_witness:
  "\<exists>m k. EFileContextManager_get hk_sys hk_up 9 hk_table hk0 = (FThrow, m, k) \<and>
     EFileContextManager_get hk_sys hk_up 50 m hk0 = (FSpin, m, hk0)"
proof -
  obtain m k where m: "EFileContextManager_get hk_sys hk_up 9 hk_table hk0 = (FThrow, m, k)"
    using hk_get_throws by blast
  have "lockFor 50 = lockFor 9" by (simp add: lockFor_def take_bit_eq_mod)
  from failed_get_holds_lock [OF m this] m show ?thesis by blast
qed

text \<open>
  \<open>EFiberCondition::signal\<close> goes to the oldest entry of the condition and removes it. If a fiber
  waits there, it becomes runnable; if the entry is left over from an earlier wake-up, nobody
  does. The other entries keep their state.
\<close>

theorem signal_wakes_oldest:
  assumes "cxx_fifo W wview" and "wview (cn_waiters cn) = bp # bps"
    and "cond_waits Q view (cn_blockers cn bp) w" and "rt_ok K L F R s" and "\<forall>f. w = Some f \<longrightarrow> f \<in> F"
  shows "\<exists>cn' s'. EFiberCondition_signal Q W t cn s = Some (cn', s') \<and> wview (cn_waiters cn') = bps \<and>
     rt_ok K L F R s' \<and> (\<forall>bp'. bp' \<noteq> bp \<longrightarrow> cn_blockers cn' bp' = cn_blockers cn bp') \<and>
     (case w of Some f \<Rightarrow> \<not> parked f s' | None \<Rightarrow> s' = s)"
  using assms by (rule signal_ok)

theorem signal_wakes_oldest_witness:
  "\<exists>cn' s'. EFiberCondition_signal list_cxx list_cxx 1 demo_cond demo_parked = Some (cn', s') \<and>
     cn_waiters cn' = [31] \<and> \<not> parked 1 s'"
proof -
  have v: "cn_waiters demo_cond = 30 # [31]" by (simp add: demo_cond_def)
  from signal_wakes_oldest [OF list_cxx_fifo v demo_cond_waits sched_okD(4) [OF demo_parked_sched], of 1]
  show ?thesis by auto
qed

text \<open>
  \<open>aeAddMillisecondsToNow\<close> is exact: the deadline is the time read plus the delay, in
  milliseconds, and its millisecond part is below 1000.
\<close>

theorem deadline_exact:
  assumes "0 \<le> msecs" and "0 \<le> snd now" and "snd now < 1000"
  shows "millis_of (add_millis now msecs) = millis_of now + msecs \<and>
     0 \<le> snd (add_millis now msecs) \<and> snd (add_millis now msecs) < 1000"
  using add_millis_sum [OF assms] by blast

theorem deadline_exact_witness:
  "millis_of (add_millis (7, 900) 2150) = 10050 \<and> add_millis (7, 900) 2150 = (10, 50)"
  using deadline_exact [of 2150 "(7, 900)"] by (simp add: add_millis_def signed_divide_int_def signed_modulo_int_def)

text \<open>
  First come, first served: the waiters that were there, followed by those that came, are those
  that were handed a permit, in this order, followed by those still in the queue, as long as
  nobody gives up.
\<close>

theorem blocker_first_come:
  assumes "blk_sem Q view b p l ws"
    and "sem_run EFiberBlocker_tryWait (blk_park Q) (EFiberBlocker_post Q) (blk_drop Q) calls b = (rs, b')"
    and "\<forall>w. Dropped w \<notin> set rs"
  shows "\<exists>p' ws'. blk_sem Q view b' p' l ws' \<and> ws @ waited rs = handed rs @ ws'"
  using assms by (rule blk.run_fifo)

theorem blocker_first_come_witness:
  "\<exists>rs b' p' ws'. sem_run EFiberBlocker_tryWait (blk_park list_cxx) (EFiberBlocker_post list_cxx) (blk_drop list_cxx)
       [SPark (WFiber 1), SPark (WFiber 2), SWake] (EFiberBlocker_ctor list_cxx 0 1) = (rs, b') \<and>
     blk_sem list_cxx (\<lambda>q. q) b' p' 1 ws' \<and> waited rs = handed rs @ ws'"
proof -
  obtain rs b' where r: "sem_run EFiberBlocker_tryWait (blk_park list_cxx) (EFiberBlocker_post list_cxx) (blk_drop list_cxx)
       [SPark (WFiber 1), SPark (WFiber 2), SWake] (EFiberBlocker_ctor list_cxx 0 1) = (rs, b')" by fastforce
  then have "rs = [Waiting (WFiber 1), Waiting (WFiber 2), Handed (WFiber 1)]"
    by (simp add: EFiberBlocker_ctor_def blk_park_def EFiberBlocker_swapOut_def EFiberBlocker_post_def list_cxx_def)
  then have d: "\<forall>w. Dropped w \<notin> set rs" by simp
  have c: "blk_sem list_cxx (\<lambda>q. q) (EFiberBlocker_ctor list_cxx 0 1) 0 1 []" using ctor_sem [OF list_cxx_fifo, of 0 1] by simp
  from blocker_first_come [OF c r d] r show ?thesis by auto
qed

text \<open>
  The end of a timed \<open>tryWait\<close> of a fiber: it returns false exactly if the timer came and the
  fiber was still in the queue, which it then leaves, the others staying in order; a permit it
  was handed in the meantime is reported. The timeout flag is cleared and the timer cancelled.
\<close>

theorem timed_wait_result:
  assumes "blk_sem Q view b p l ws"
    and "EFiberBlocker_tryWait_time_resume Q f i b iw s = (r, b', iw', s')"
  shows "(\<not> r \<longleftrightarrow> fb_isIoWaitTimeout (rt_fibers s f) \<and> WFiber f \<in> set ws) \<and>
     blk_sem Q view b' p l (if r then ws else remove1 (WFiber f) ws) \<and> \<not> fb_isIoWaitTimeout (rt_fibers s' f) \<and>
     iw' = (if i = -1 then iw else EIoWaiter_cancelTimer i iw)"
  using tryWait_time_resume_ok [OF assms] by blast

theorem timed_wait_result_witness:
  "\<exists>b' iw' s'. EFiberBlocker_tryWait_time_resume list_cxx 1 (-1) (EFiberBlocker_ctor list_cxx 0 1)
       (sc_waiters demo default_waiter) demo = (True, b', iw', s') \<and> blk_sem list_cxx (\<lambda>q. q) b' 0 1 []"
proof -
  have c: "blk_sem list_cxx (\<lambda>q. q) (EFiberBlocker_ctor list_cxx 0 1) 0 1 []" using ctor_sem [OF list_cxx_fifo, of 0 1] by simp
  obtain r b' iw' s' where r: "EFiberBlocker_tryWait_time_resume list_cxx 1 (-1) (EFiberBlocker_ctor list_cxx 0 1)
       (sc_waiters demo default_waiter) demo = (r, b', iw', s')" by (metis prod_cases4)
  have "\<not> fb_isIoWaitTimeout (rt_fibers demo 1)" by code_simp
  then show ?thesis using timed_wait_result [OF c r] r by auto
qed

text \<open>
  The timer that the event loop waits for has the earliest deadline of all, and the time it
  waits for a deadline that is not past is exactly what is missing, in microseconds.
\<close>

theorem sleeps_until_nearest:
  assumes "timers_wf p" and "aeSearchNearestTimer p = Some te" and "0 \<le> snd now" and "snd now < 1000"
    and "millis_of now \<le> te_millis te"
  shows "fst (timer_wait te now) * 1000000 + snd (timer_wait te now) = (te_millis te - millis_of now) * 1000 \<and>
     (\<forall>x\<in>set (pl_timeEvents p). te_millis te \<le> te_millis x)"
proof -
  have m: "\<forall>x\<in>set (pl_timeEvents p). ms_ok x" using assms(1) by (simp add: timers_wf_def)
  have "te \<in> set (pl_timeEvents p)"
    using nearest_from_mem [of None "pl_timeEvents p" te] assms(2) by (simp add: aeSearchNearestTimer_def)
  then show ?thesis using timer_wait_exact [OF _ _ assms(3-5)] nearest_min [OF assms(2) m] m by blast
qed

theorem sleeps_until_nearest_witness:
  "let te = \<lparr>te_id = 0, te_when_sec = 4, te_when_ms = 20, te_timeProc = (), te_finalizerProc = None, te_clientData = ()\<rparr>
   in fst (timer_wait te (3, 900)) * 1000000 + snd (timer_wait te (3, 900)) = 120000"
proof -
  let ?te = "\<lparr>te_id = 0, te_when_sec = 4, te_when_ms = 20, te_timeProc = (), te_finalizerProc = None, te_clientData = ()\<rparr>"
  let ?p = "\<lparr>pl_maxfd = -1, pl_setsize = 0, pl_timeEventNextId = 2, pl_lastTime = 0, pl_events = [], pl_timeEvents = [?te]\<rparr> :: (unit, unit, unit) poll"
  have "timers_wf ?p" "aeSearchNearestTimer ?p = Some ?te"
    by (simp_all add: timers_wf_def live_ids_def aeSearchNearestTimer_def)
  from sleeps_until_nearest [OF this, of "(3, 900)"] show ?thesis by simp
qed

text \<open>
  Unlocking a mutex on which fibers wait hands it to the first of them: that fiber is runnable
  and out of the queue, and the mutex stays locked.
\<close>

theorem mutex_hands_over:
  assumes "blk_sem Q view b 0 1 (WFiber g # ws)" and "rt_ok K L F R s" and "\<forall>f. WFiber f \<in> set (WFiber g # ws) \<longrightarrow> f \<in> F"
  shows "\<exists>b' s'. EFiberMutex_unlock Q t b s = Some (b', s') \<and> blk_sem Q view b' 0 1 ws \<and>
     EFiberMutex_isLocked b' \<and> rt_ok K L F R s' \<and> \<not> parked g s'"
  using assms by (rule mutex_unlock_handoff)

theorem mutex_hands_over_witness:
  "\<exists>b' s'. EFiberMutex_unlock list_cxx 1 \<lparr>bl_wakeup = 0, bl_limit = 1, bl_waitQueue = [WFiber 1], bl_asleep = 0\<rparr> demo_parked =
       Some (b', s') \<and> blk_sem list_cxx (\<lambda>q. q) b' 0 1 [] \<and> \<not> parked 1 s'"
proof -
  have b: "blk_sem list_cxx (\<lambda>q. q) \<lparr>bl_wakeup = 0, bl_limit = 1, bl_waitQueue = [WFiber 1], bl_asleep = 0\<rparr> 0 1 [WFiber 1]"
    by (simp add: blk_sem_def list_cxx_fifo)
  show ?thesis using mutex_hands_over [OF b sched_okD(4) [OF demo_parked_sched], of 1] by auto
qed

text \<open>
  Fiber-local values. \<open>get\<close> after \<open>set\<close> gives the value, after \<open>remove\<close> null; other fibers are not
affected, and outside of fibers nothing happens. The key of a local is the callback it was
constructed with: locals with different callbacks are independent, but two locals with the same
callback, in particular any two without one, share one value.
\<close>

theorem fiber_locals:
  assumes "hash_spec H view"
  shows "EFiberLocal_get H (Some g) kw' (snd (EFiberLocal_set H (Some f) kw e L)) =
       (if g = f \<and> kw' = kw then e else EFiberLocal_get H (Some g) kw' L) \<and>
     EFiberLocal_get H (Some g) kw' (snd (EFiberLocal_remove H (Some f) kw L)) =
       (if g = f \<and> kw' = kw then None else EFiberLocal_get H (Some g) kw' L) \<and>
     EFiberLocal_get H None kw L = None \<and> snd (EFiberLocal_set H None kw e L) = L"
  using get_set [OF assms] by (simp add: remove_eq) (simp add: EFiberLocal_get_def EFiberLocal_set_def)

theorem fiber_locals_witness:
  "EFiberLocal_get alist_hash (Some 1) (None :: nat option)
     (snd (EFiberLocal_set alist_hash (Some 1) None (Some (5 :: nat)) (\<lambda>_. []))) = Some 5"
  using fiber_locals [OF alist_hash_spec, of 1 "None :: nat option" 1 None "Some (5 :: nat)" "\<lambda>_. []"] by simp

text \<open>
  The start of \<open>join(int)\<close> without a balance callback: all fibers of the default queue are moved,
  in their order, fiber number \<open>j\<close> to the thread queue \<open>(balanceIndex + j) mod threadNums\<close>; the
  loop ends (fuel above the number of fibers is enough) and the default queue is empty.
\<close>

theorem deal_round_robin:
  assumes "default_queue \<in> K" and "\<forall>i<nat n. stub_queue i \<in> K" and "0 < n" and "qrep K L s V"
    and "V default_queue = es" and "0 \<le> sc_balanceIndex s"
    and "sc_balanceIndex s + int (length es) < 2 ^ 31" and "length es < fuel"
  shows "\<exists>s' W. deal None n fuel s = Some s' \<and> qrep K L s' W \<and> W default_queue = [] \<and>
     (\<forall>i<nat n. W (stub_queue i) = V (stub_queue i) @ robin n (sc_balanceIndex s) es i) \<and>
     sc_balanceIndex s' = sc_balanceIndex s + int (length es)"
  using assms by (rule deal_robin)

theorem deal_round_robin_witness:
  "\<exists>s' W. deal None 2 9 demo_stubs = Some s' \<and> qrep {0, 1, 2} {1, 2} s' W \<and> W 0 = [] \<and> W 1 = [1] \<and> W 2 = [2]"
proof -
  have k: "default_queue \<in> {0, 1, 2}" "\<forall>i<nat 2. stub_queue i \<in> {0, 1, 2}"
    by (auto simp: default_queue_def stub_queue_def)
  have b: "sc_balanceIndex demo_stubs = 0" by code_simp
  obtain V where V: "qrep {0, 1, 2} {1, 2} demo_stubs V" "V 0 = [1, 2]" "V 1 = []" "V 2 = []" using demo_stubs_rep by blast
  have e: "V default_queue = [1, 2]" using V(2) by (simp add: default_queue_def)
  from deal_round_robin [OF k _ V(1) e, of 9] b obtain s' W where
    w: "deal None 2 9 demo_stubs = Some s'" "qrep {0, 1, 2} {1, 2} s' W" "W default_queue = []"
       "\<forall>i<nat 2. W (stub_queue i) = V (stub_queue i) @ robin 2 0 [1, 2] i" by auto
  have s: "stub_queue 0 = 1" "stub_queue 1 = 2" by (simp_all add: stub_queue_def)
  have "W 1 = [1]" "W 2 = [2]"
    using w(4) [rule_format, of 0] w(4) [rule_format, of 1] V(3,4) unfolding s by simp_all
  then show ?thesis using w by (auto simp: default_queue_def)
qed

text \<open>
  \<open>gethostbyname\<close> returns if there is a buffer size from which on the resolver does not fail with
\<open>ERANGE\<close> and that is at most \<open>1024 * 2 ^ n\<close>, below the wrap-around: after at most \<open>n\<close> doublings of
the initial 1024 bytes.
\<close>

theorem gethostbyname_returns:
  assumes "\<And>sz k. need \<le> unat sz \<Longrightarrow> \<not> (fst (fst (lookup sz k)) = None \<and> snd (fst (lookup sz k)) = ERANGE)"
    and "need \<le> 1024 * 2 ^ n" and "n < 54" and "\<not> bypass w"
    and "\<And>h. local = Some h \<Longrightarrow> hb_buffer h \<Longrightarrow> 1024 \<le> hb_size h"
  shows "\<exists>res hb w'. hook_gethostbyname lookup orig False local w = Some (res, Some hb, w') \<and>
     hb_buffer hb \<and> (\<exists>m\<le>n. hb_size hb = 1024 * 2 ^ m)"
proof -
  have b: "host_buffer local = \<lparr>hb_buffer = True, hb_size = 1024\<rparr>"
  proof (cases local)
    case (Some h)
    then show ?thesis using assms(5) [of h] by (cases h) (auto simp: host_buffer_def Let_def)
  qed (simp add: host_buffer_def)
  have u: "unat (1024 :: 64 word) = 1024" by simp
  have "(2 :: nat) ^ n < 2 ^ 54" using assms(3) by (rule power_strict_increasing) simp
  then have "(1024 :: nat) * 2 ^ n < 1024 * 2 ^ 54" by simp
  then have lt: "unat (1024 :: 64 word) * 2 ^ n < 2 ^ 64" unfolding u by simp
  have nd: "need \<le> unat (1024 :: 64 word) * 2 ^ n" unfolding u by (rule assms(2))
  obtain res m k' where "host_retry lookup 1024 (hw_kernel w) = Some (res, 1024 * 2 ^ m, k')" "m \<le> n"
    using host_retry_returns [where lookup = lookup, OF assms(1) lt nd] by blast
  then show ?thesis using assms(4) by (auto simp: hook_gethostbyname_def b)
qed

theorem gethostbyname_returns_witness:
  "\<exists>res hb w'. hook_gethostbyname (\<lambda>sz k. (if unat sz < 3000 then (None, ERANGE) else (Some ''host'', 0), k))
     (\<lambda>k. (None, k)) False None hw0 = Some (res, Some hb, w') \<and> hb_buffer hb"
proof -
  have "\<exists>res hb w'. hook_gethostbyname (\<lambda>sz k. (if unat sz < 3000 then (None, ERANGE) else (Some ''host'', 0), k))
     (\<lambda>k. (None, k)) False None hw0 = Some (res, Some hb, w') \<and> hb_buffer hb \<and> (\<exists>m\<le>2. hb_size hb = 1024 * 2 ^ m)"
    by (rule gethostbyname_returns [where need = 3000]) simp_all
  then show ?thesis by blast
qed

text \<open>
  Ending the wait for a descriptor: its holder is freed, its mask is empty, the other
  descriptors are untouched, \<open>maxfd\<close> is again the highest registered descriptor, and epoll no
  longer watches the descriptor.
\<close>

theorem unregistration_matches_epoll:
  assumes "epoll_spec os interest" and "waiter_ok F iw" and "synced interest (iw_poll iw) k"
    and "0 \<le> fd" and "fd < pl_setsize (iw_poll iw)"
    and "fe_clientData (pl_events (iw_poll iw) ! nat fd) = CLive f" and "ev_mask (iw_poll iw) fd AND NOT msk = 0"
  shows "\<exists>iw' k'. EIoWaiter_delFileEvent os fd msk iw k = Some (iw', k') \<and>
     waiter_ok F iw' \<and> synced interest (iw_poll iw') k' \<and> iw_waiters iw' = iw_waiters iw - 1 \<and>
     ev_mask (iw_poll iw') fd = 0 \<and>
     (\<forall>i. 0 \<le> i \<and> i \<noteq> fd \<longrightarrow> pl_events (iw_poll iw') ! nat i = pl_events (iw_poll iw) ! nat i)"
  using assms by (rule delFileEvent_ok)

theorem unregistration_matches_epoll_witness:
  "\<exists>iw' k'. EIoWaiter_delFileEvent sim_os 5 3 (fst demo_waiting) (snd demo_waiting) = Some (iw', k') \<and>
     ev_mask (iw_poll iw') 5 = 0 \<and> synced sk_interest (iw_poll iw') k'"
proof -
  have "pl_setsize (iw_poll (fst demo_waiting)) = 8" "fe_clientData (pl_events (iw_poll (fst demo_waiting)) ! nat 5) = CLive 1"
    "ev_mask (iw_poll (fst demo_waiting)) 5 AND NOT 3 = 0" by code_simp+
  then show ?thesis
    using unregistration_matches_epoll [OF os_epoll [OF sim_os_ok] demo_waiting_ok, of 5 1 3] by auto
qed

text \<open>
  Waiting for a descriptor: afterwards \<open>maxfd\<close> is still the highest registered descriptor, what
  epoll watches is still exactly what the \<open>events\<close> array records, and the fiber has been stored
  for the descriptor, unless the descriptor is too large or epoll refused it.
\<close>

theorem registration_matches_epoll:
  assumes "epoll_spec os interest" and "waiter_ok F iw" and "synced interest (iw_poll iw) k"
    and "msk \<noteq> 0" and "0 \<le> fd" and "f \<in> F"
  shows "\<exists>iw' k'. EIoWaiter_setFileEvent os fd msk f iw k s =
       Some (iw', k', upd_fiber f (\<lambda>fb. fb\<lparr>fb_state := WAITING\<rparr>) s) \<and>
     waiter_ok F iw' \<and> synced interest (iw_poll iw') k' \<and> iw_waiters iw' = iw_waiters iw + 1 \<and>
     (iw_poll iw' = store_event (iw_poll iw) fd msk FileEventProc (CLive f) \<and> fd < pl_setsize (iw_poll iw) \<or>
      iw_poll iw' = iw_poll iw \<and> (fd \<ge> pl_setsize (iw_poll iw) \<or> ev_mask (iw_poll iw) fd = 0))"
  using assms by (rule setFileEvent_ok)

theorem registration_matches_epoll_witness:
  "\<exists>iw' k' s'. EIoWaiter_setFileEvent sim_os 5 1 1 (sc_waiters demo_bound default_waiter) (sc_kernel demo_bound) demo_bound =
     Some (iw', k', s') \<and> waiter_ok {1} iw' \<and> synced sk_interest (iw_poll iw') k'"
  using registration_matches_epoll [OF os_epoll [OF sim_os_ok] sched_okD(8,9) [OF demo_bound_sched], of 1 5 1 demo_bound]
  by auto

text \<open>
  \<open>fcntl\<close> on a pipe or socket of a fiber keeps the user's view of \<open>O_NONBLOCK\<close> apart from the
kernel's: \<open>F_SETFL\<close> succeeds and changes nothing in the kernel beyond what the lookup of the
context does, and \<open>F_GETFL\<close> then reports the kernel's flags with the user's \<open>O_NONBLOCK\<close>.
\<close>

theorem fcntl_emulates_nonblock:
  assumes "align_spec up" and "fcm_ok up (hw_files w)" and "hooked_fd S fd w" and "hooked_fd S fd w1"
    and "hook_fcntl S up other_f fd (F_SETFL fl) w = (FOk r, w1)"
    and "hook_fcntl S up other_f fd F_GETFL w1 = (FOk fl', w2)"
  shows "r = 0 \<and> w2 = w1 \<and> (\<exists>c w0. hw_get S up fd w = (FOk c, w0) \<and> hw_kernel w1 = hw_kernel w0) \<and>
     fl' = (if fl AND O_NONBLOCK \<noteq> 0 then sy_getfl S (hw_kernel w1) fd OR O_NONBLOCK
            else sy_getfl S (hw_kernel w1) fd AND NOT O_NONBLOCK)"
  using fcntl_set_get [OF assms(1-3,5,4,6)] by blast

theorem fcntl_emulates_nonblock_witness:
  "\<exists>w1 w2. hook_fcntl hk_sys hk_up (\<lambda>_ _ _ k. (0, k)) 5 (F_SETFL 0) hw0 = (FOk 0, w1) \<and>
     hook_fcntl hk_sys hk_up (\<lambda>_ _ _ k. (0, k)) 5 F_GETFL w1 = (FOk 2, w2) \<and> sy_getfl hk_sys (hw_kernel w1) 5 = 2050"
proof -
  let ?o = "\<lambda>_ _ _ k. (0, k)"
  obtain m where m: "EFileContextManager_get hk_sys hk_up 5 hk_table hk0 =
      (FOk 0, m, hk0\<lparr>hk_flags := (hk_flags hk0)(5 := 2050)\<rparr>)" using hk0_get by blast
  define w0 where "w0 = hw0\<lparr>hw_files := m, hw_kernel := hk0\<lparr>hk_flags := (hk_flags hk0)(5 := 2050)\<rparr>\<rparr>"
  have g: "hw_get hk_sys hk_up 5 hw0 = (FOk 0, w0)"
    by (simp add: hw_get_def EFiberScheduler_getFileContext_def m w0_def)
  define w1 where "w1 = upd_ctx 0 (setUserNonBlock False) w0"
  have s: "hook_fcntl hk_sys hk_up ?o 5 (F_SETFL 0) hw0 = (FOk 0, w1)"
    by (simp add: hook_fcntl_def g w1_def)
  have k: "sy_getfl hk_sys (hw_kernel w1) 5 = 2050" by (simp add: w1_def w0_def hk_sys_def)
  have h1: "hooked_fd hk_sys 5 w1"
    by (simp add: hooked_fd_def isInterrupted_def w1_def w0_def hw0_def isStreamFile_def hk_sys_def)
  have ok0: "fcm_ok hk_up (hw_files hw0)" by (simp add: hk_table_ok)
  have al: "align_spec hk_up \<and> fcm_ok hk_up (hw_files hw0)" using hk_align ok0 ..
  have f: "fc_fd (setUserNonBlock False fc) = fc_fd fc" for fc by (simp add: setUserNonBlock_def)
  have ok: "fcm_ok hk_up (hw_files w1)"
    unfolding w1_def using files.lookup_inv [OF al g] by (intro upd_ctx_ok(1) [OF _ f]) blast
  have mp: "fcm_map hk_up (hw_files w1) 5 = Some 0"
    unfolding w1_def upd_ctx_ok(2) [OF conjunct2 [OF files.lookup_inv [OF al g]] f]
    using files.lookup_enters [OF al g] by simp
  have "fd_ok (hw_files w1) 5" "lockFor 5 \<notin> set (fm_locked (hw_files w1))"
    using mp slot_map [OF hk_align ok, of 5] get_ok(3) [OF hk_align hk_table_ok(1) m]
    by (auto simp: fcm_map_def w1_def w0_def hk_table_ok split: if_splits)
  then obtain w2 where "hw_get hk_sys hk_up 5 w1 = (FOk 0, w2)"
    using mp by (auto simp: hw_get_def EFiberScheduler_getFileContext_def EFileContextManager_get_def
      slot_map [OF hk_align ok] Let_def)
  then obtain fl' where "hook_fcntl hk_sys hk_up ?o 5 F_GETFL w1 = (FOk fl', w2)"
    using h1 by (simp add: hook_fcntl_def Let_def)
  moreover from fcntl_emulates_nonblock [OF hk_align ok0 _ h1 s this] have "fl' = 2" unfolding k by simp
  ultimately show ?thesis using s k by blast
qed

text \<open>
  \<open>EFiberBlocker::wakeUp\<close>: with waiters, exactly the first one leaves the queue, and if it is a
  fiber it is made runnable and put into its task queue once; without waiters a permit is
  stored unless the limit is reached. The result tells whether one of the two happened. No
  null pointer is followed.
\<close>

theorem wakeUp_resumes_one:
  assumes "blk_sem Q view b p l ws" and "rt_ok K L F R s" and "\<forall>f. WFiber f \<in> set ws \<longrightarrow> f \<in> F"
  shows "\<exists>r b' s'. EFiberBlocker_wakeUp Q t b s = Some (r, b', s') \<and> rt_ok K L F R s' \<and> wakes F s s' \<and>
     blk_sem Q view b' (if ws = [] \<and> p < l then p + 1 else p) l (tl ws) \<and> (r \<longleftrightarrow> ws \<noteq> [] \<or> p < l) \<and>
     (\<forall>f. ws \<noteq> [] \<and> hd ws = WFiber f \<longrightarrow> \<not> parked f s') \<and> ((\<forall>f. ws = [] \<or> hd ws \<noteq> WFiber f) \<longrightarrow> s' = s)"
  using assms by (rule wakeUp_ok)

theorem wakeUp_resumes_one_witness:
  "\<exists>b' s'. EFiberBlocker_wakeUp list_cxx 1 (EFiberBlocker_ctor list_cxx 0 1) demo = Some (True, b', s') \<and>
     blk_sem list_cxx (\<lambda>q. q) b' 1 1 [] \<and> s' = demo"
proof -
  have c: "blk_sem list_cxx (\<lambda>q. q) (EFiberBlocker_ctor list_cxx 0 1) 0 1 []" using ctor_sem [OF list_cxx_fifo, of 0 1] by simp
  show ?thesis using wakeUp_resumes_one [OF c sched_okD(4) [OF demo_ok], of 1] by auto
qed

text \<open>
  Setting up a timer adds one live timer for the fiber, due after the delay counted from a time
  between the two states of the clock; cancelling it brings back the live timers that were there
  before, in order, and the count of waiters.
\<close>

theorem timer_roundtrip:
  assumes "os_ok os interest clk" and "waiter_ok F iw" and "0 \<le> timeout" and "f \<in> F"
    and "EIoWaiter_setupTimer os timeout f iw k s = (i, iw', k', s')"
  shows "waiter_ok F iw' \<and>
     (\<exists>te. pl_timeEvents (iw_poll iw') = te # pl_timeEvents (iw_poll iw) \<and> te_id te = i \<and> te_clientData te = f \<and>
        clk k + timeout \<le> te_millis te \<and> te_millis te \<le> clk k' + timeout) \<and>
     waiter_ok F (EIoWaiter_cancelTimer i iw') \<and>
     live_ids (pl_timeEvents (iw_poll (EIoWaiter_cancelTimer i iw'))) = live_ids (pl_timeEvents (iw_poll iw)) \<and>
     iw_waiters (EIoWaiter_cancelTimer i iw') = iw_waiters iw"
proof -
  note s = setupTimer_ok [OF assms]
  have w: "timers_wf (iw_poll iw)" using assms(2) by (simp add: waiter_ok_def)
  then have i: "i \<noteq> -1" "i \<notin> set (live_ids (pl_timeEvents (iw_poll iw)))"
    unfolding s(3) timers_wf_def live_ids_def by auto
  obtain te where te: "pl_timeEvents (iw_poll iw') = te # pl_timeEvents (iw_poll iw)" "te_id te = i" using s(7) by blast
  have "live_ids (pl_timeEvents (iw_poll (EIoWaiter_cancelTimer i iw'))) =
      [j\<leftarrow>i # live_ids (pl_timeEvents (iw_poll iw)). j \<noteq> i]"
    unfolding cancelTimer_ids [OF s(1) i(1)] using te i(1) by (simp add: live_ids_def)
  also have "\<dots> = live_ids (pl_timeEvents (iw_poll iw))" using i(2) by (simp add: filter_id_conv) metis
  finally show ?thesis using s(1,2,7) cancelTimer_ok [OF s(1)] cancelTimer_fields(1) by simp
qed

theorem timer_roundtrip_witness:
  "\<exists>i iw' k' s'. EIoWaiter_setupTimer sim_os 250 1 (fst demo_waiting) (snd demo_waiting) demo_bound = (i, iw', k', s') \<and>
     waiter_ok {1} (EIoWaiter_cancelTimer i iw') \<and> iw_waiters (EIoWaiter_cancelTimer i iw') = iw_waiters (fst demo_waiting)"
proof -
  obtain i iw' k' s' where r: "EIoWaiter_setupTimer sim_os 250 1 (fst demo_waiting) (snd demo_waiting) demo_bound = (i, iw', k', s')"
    by (metis prod_cases4)
  from timer_roundtrip [OF sim_os_ok demo_waiting_ok(1) _ _ r] r show ?thesis by auto
qed

text \<open>
  Constructing a fiber and scheduling it, with or without balancing, keeps the invariant with
  one more live fiber, which is runnable; the counter grows by one. \<open>f\<close> and \<open>n\<close> are the
  addresses that \<open>operator new\<close> returns, so nothing else lives there.
\<close>

theorem schedule_adds_fiber:
  assumes "tasks_ok Q view L F R s" and "f \<notin> L" and "f \<notin> F" and "n \<notin> pk s ` L" and "n \<noteq> hd_node s default_queue"
  shows "\<exists>s'. EFiberScheduler_scheduleIgnoreBalance sid bal active f ign (EFiber_ctor cf sz f n s) = Some s' \<and>
     tasks_ok Q view (insert f L) F R s' \<and> sc_total s' = sc_total s + 1 \<and> fb_state (rt_fibers s' f) = RUNNABLE \<and>
     sc_waiters s' = sc_waiters s \<and> sc_kernel s' = sc_kernel s"
  using assms by (rule schedule_tasks_ok)

theorem schedule_adds_fiber_witness:
  "\<exists>s'. EFiberScheduler_scheduleIgnoreBalance 0 None None 9 True (EFiber_ctor None 0 9 9 demo0) = Some s' \<and>
     tasks_ok list_cxx (\<lambda>q. q) {9} {} {} s' \<and> sc_total s' = 1"
proof -
  have h: "hd_node demo0 default_queue = 0" and c: "sc_total demo0 = 0" by code_simp+
  have h9: "9 \<noteq> hd_node demo0 default_queue" using h by simp
  show ?thesis
    using schedule_adds_fiber [OF demo0_ok _ _ _ h9, of 9 0 None None True None 0] c by auto
qed

text \<open>
  \<open>EFiber::swapIn\<close> of a parked fiber: it is appended once to the queue it is bound to, it is
  runnable, and no other fiber changes.
\<close>

theorem resume_enqueues_once:
  assumes "qrep K L s V" and "f \<in> L" and "\<forall>k\<in>K. f \<notin> set (V k)" and "parked f s" and "bound K f s"
  shows "\<exists>s' q. EFiber_swapIn t f s = Some s' \<and> q \<in> K \<and> fb_boundQueue (rt_fibers s f) = Some q \<and>
     qrep K L s' (V(q := V q @ [f])) \<and> fb_state (rt_fibers s' f) = RUNNABLE \<and>
     (\<forall>g. g \<noteq> f \<longrightarrow> rt_fibers s' g = rt_fibers s g)"
  using assms by (rule swapIn_rep)

theorem resume_enqueues_once_witness:
  "\<exists>s' V. EFiber_swapIn 5 1 demo_parked = Some s' \<and> qrep {default_queue} {1, 2} s' (V(default_queue := V default_queue @ [1])) \<and>
     fb_state (rt_fibers s' 1) = RUNNABLE"
proof -
  note ok = sched_okD(4) [OF demo_parked_sched]
  obtain V where V: "qrep {default_queue} {1, 2} demo_parked V"
      "\<forall>f\<in>{1, 2}. (\<exists>k\<in>{default_queue}. f \<in> set (V k)) \<longleftrightarrow> \<not> parked f demo_parked \<and> f \<notin> {}"
    using rt_okD(6) [OF ok] by blast
  have n: "\<forall>k\<in>{default_queue}. 1 \<notin> set (V k)" using V(2) demo_parked_state by blast
  have b: "bound {default_queue} 1 demo_parked" using rt_okD(3) [OF ok, of 1] by simp
  have m: "1 \<in> {1, 2 :: nat}" by simp
  from resume_enqueues_once [OF V(1) m n demo_parked_state b, of 5] show ?thesis by blast
qed

text \<open>
  \<open>sendfile\<close> after its pause goes on where it stopped: what it sends from there is one piece of the file that
starts at the offset it has kept.
\<close>

theorem sendfile_resumes_piece:
  assumes "waiting_quiet out (aeApiAddEvent os) os poll_f" "poll_spec poll_f" "sends_from out src sf"
    and "releasing_quiet out (aeApiDelEvent os)" and "0 \<le> off" "0 < cnt"
    and run: "hook_sendfile_resume os poll_f sf fd ms tid off cnt w = Some (FOk res, w')"
  shows "case res of
      SendDone r e off' \<Rightarrow> off \<le> off' \<and> off' \<le> off + cnt \<and> (0 < r \<longrightarrow> off' = off + cnt) \<and>
        out (hw_kernel w') = out (hw_kernel w) @ piece src off (off' - off)
    | SendPark tid off' cnt' \<Rightarrow> off \<le> off' \<and> 0 < cnt' \<and> off' + cnt' = off + cnt \<and>
        out (hw_kernel w') = out (hw_kernel w) @ piece src off (off' - off)
    | SendSleep t \<Rightarrow> True"
proof -
  obtain n fds w1 where p: "hook_poll_resume os [io_pollfd fd POLLOUT] tid w = Some ((n, fds), w1)"
    using run by (auto simp: hook_sendfile_resume_def split: option.splits)
  have o1: "out (hw_kernel w1) = out (hw_kernel w)"
    by (rule poll_resume_quiet [OF assms(4) p [folded poll_resume_epoll]])
  have n: "n \<le> 1" using poll_resume_le [OF p] by simp
  have "sendfile_loop os poll_f sf fd ms (Some (n, 0)) off cnt w1 = Some (FOk res, w')"
    using run by (simp add: hook_sendfile_resume_def p)
  from sendfile_loop_account [OF assms(1-3) this assms(5,6)] n show ?thesis by (simp add: send_account_def o1)
qed

theorem sendfile_resumes_piece_witness:
  "\<exists>w. hook_sendfile_resume mk_os mk_poll mk_sendfile 5 (-1) (-1) 1 6 mw_parked = Some (FOk (SendDone 3 0 7), w) \<and>
     mk_out (hw_kernel w) = [11, 12, 13, 14, 15, 16]"
proof -
  obtain w where w: "hook_sendfile_resume mk_os mk_poll mk_sendfile 5 (-1) (-1) 1 6 mw_parked =
      Some (FOk (SendDone 3 0 7), w)" using mw_parked_resume by blast
  have "mk_out (hw_kernel w) = mk_out mk0 @ piece mk_file 1 6"
    using sendfile_resumes_piece [OF mk_quiet(1) mk_poll_spec mk_sends mk_quiet(3) _ _ w] by (simp add: mw_parked_simps(1))
  then show ?thesis using w by (simp add: mk0_def piece_def mk_file_def)
qed

text \<open>
  \<open>dlopen\<close> on macOS. Let \<open>i\<close> be the last image that has a first external symbol with a name that \<open>dlsym\<close> finds in
the opened module. When the address found lies in the image at \<open>base\<close>, exactly that image is rebound, with the
slide of image \<open>i\<close>; the code does not check that the two are the same image.
\<close>

theorem mac_dlopen_rebinds:
  assumes "h \<noteq> 0" and "i \<le> count"
    and "\<forall>j. i < j \<and> j \<le> count \<longrightarrow> (case first_external_symbol_for_image dladdr m (headers j) of None \<Rightarrow> True
        | Some name \<Rightarrow> m name = 0 \<or> dlsym (h OR 1) m (name + 1) = None)"
    and "first_external_symbol_for_image dladdr m (headers i) = Some name" and "m name \<noteq> 0"
    and "dlsym (h OR 1) m (name + 1) = Some address" and "dladdr address = Some base"
  shows "hook_mac_dlopen count headers slides dlsym dladdr ok rbs (h, m) =
    (h, snd (mach_rebind_symbols_image ok dladdr base (slides i) rbs m))"
proof -
  have "dlopen_loop headers slides (dlsym (h OR 1)) dladdr ok rbs n m =
      snd (mach_rebind_symbols_image ok dladdr base (slides i) rbs m)" if "i \<le> n" "n \<le> count" for n
    using that
  proof (induction n)
    case 0
    then show ?case using assms(4-7) by (subst dlopen_loop.simps) simp
  next
    case (Suc n)
    show ?case
    proof (cases "i = Suc n")
      case True
      then show ?thesis using assms(4-7) by (subst dlopen_loop.simps) simp
    next
      case False
      then have "case first_external_symbol_for_image dladdr m (headers (Suc n)) of None \<Rightarrow> True
          | Some name \<Rightarrow> m name = 0 \<or> dlsym (h OR 1) m (name + 1) = None"
        using assms(3) Suc.prems by auto
      then have "dlopen_loop headers slides (dlsym (h OR 1)) dladdr ok rbs (Suc n) m =
          dlopen_loop headers slides (dlsym (h OR 1)) dladdr ok rbs n m"
        by (subst dlopen_loop.simps) (auto simp: Let_def split: option.splits)
      then show ?thesis using Suc False by simp
    qed
  qed
  then show ?thesis using assms(1,2) by (simp add: hook_mac_dlopen_def)
qed

theorem mac_dlopen_rebinds_witness:
  "snd (hook_mac_dlopen 1 (\<lambda>i. if i = 0 then 4096 else 0) (\<lambda>_. 4096) (\<lambda>h m a. if a = 8706 then Some 5000 else None)
      demo_dladdr True demo_rebindings (2, demo_mach_text)) =
    snd (mach_rebind_symbols_image True demo_dladdr 4096 4096 demo_rebindings demo_mach_text)"
proof -
  have n: "first_external_symbol_for_image demo_dladdr demo_mach_text 0 = None"
    by (simp add: first_external_symbol_for_image_def demo_dladdr_def)
  have "hook_mac_dlopen 1 (\<lambda>i. if i = 0 then 4096 else 0) (\<lambda>_. 4096) (\<lambda>h m a. if a = 8706 then Some 5000 else None)
      demo_dladdr True demo_rebindings (2, demo_mach_text) =
    (2, snd (mach_rebind_symbols_image True demo_dladdr 4096 ((\<lambda>_. 4096) (0 :: nat)) demo_rebindings demo_mach_text))"
  proof (rule mac_dlopen_rebinds)
    show "first_external_symbol_for_image demo_dladdr demo_mach_text (if (0 :: nat) = 0 then 4096 else 0) = Some 8705"
      using demo_first_symbol(1) by simp
    show "demo_mach_text 8705 \<noteq> 0" by (rule demo_first_symbol(2))
    show "demo_dladdr 5000 = Some 4096" by (rule demo_first_symbol(3))
  qed (simp_all add: n demo_dladdr_def)
  then show ?thesis by simp
qed

text \<open>
  An address in no image, an image without a linkedit segment or symbol commands or without indirect symbols, and a
failed allocation leave memory as it is; the result is -1 for the failed allocation and 0 otherwise.
\<close>

theorem mach_rebinding_refuses:
  assumes "r = mach_scan m (mh_ncmds m header) (header + 32) \<lparr>mc_linkedit = None, mc_symtab = None, mc_dysymtab = None\<rparr>"
    and "\<not> ok \<or> dladdr header = None \<or> mc_linkedit r = None \<or> mc_symtab r = None \<or> mc_dysymtab r = None \<or>
      (\<exists>dys. mc_dysymtab r = Some dys \<and> dy_nindirectsyms m dys = 0)"
  shows "mach_rebind_symbols_image ok dladdr header slide rbs m = (if ok then 0 else -1, m)"
proof (cases ok)
  case False
  then show ?thesis by (simp add: mach_rebind_symbols_image_def prepend_rebindings_def rebind_image_nil)
next
  case True
  then show ?thesis using assms(2) unfolding assms(1)
    by (auto simp: mach_rebind_symbols_image_def prepend_rebindings_def rebind_symbols_for_image_def Let_def
      split: option.split)
qed

theorem mach_rebinding_refuses_witness:
  "mach_rebind_symbols_image False Some 4096 4096 demo_rebindings demo_mach = (-1, demo_mach)"
  using mach_rebinding_refuses [OF refl, where ok = False] by simp

text \<open>
  \<open>eco_poll_wait\<close> with a timeout of at most 31 bits: poll is asked for the events of the mask with that
timeout; when it says that the descriptor is ready, the result is the set of events that the event loop would get
from epoll for the same bits, and otherwise the result is that of poll.
\<close>

theorem eco_poll_wait_reports:
  assumes "- (2 ^ 31) \<le> sint ms" "sint ms < 2 ^ 31"
    and "poll \<lparr>pf_fd = fd, pf_events = EEvent2PollEvent msk, pf_revents = 0\<rparr> (sint ms) w = ((ret, pf), w')"
  shows "eco_poll_wait poll fd msk ms w = (if ret = 1 then from_epoll (pf_revents pf) else ret, w') \<and>
    from_epoll (pf_revents pf) \<in> {0, 1, 2, 3}"
proof -
  have "poll_timeout ms = sint ms" by (rule poll_timeout_exact [OF assms(1,2)])
  then have "eco_poll_wait poll fd msk ms w = (if ret = 1 then wait_mask (pf_revents pf) else ret, w')"
    using assms(3) by (simp add: eco_poll_wait_def EEvent2PollEvent_def)
  then show ?thesis using wait_mask_range [of "pf_revents pf"] by (simp add: wait_mask_epoll)
qed

theorem eco_poll_wait_reports_witness:
  "eco_poll_wait (\<lambda>pf t w. ((1, pf\<lparr>pf_revents := 17\<rparr>), w)) 5 1 1000 () = (3, ())"
proof -
  have s: "sint (1000 :: 64 word) = 1000" by (simp add: signed_take_bit_int_eq_self)
  have "eco_poll_wait (\<lambda>pf t w. ((1, pf\<lparr>pf_revents := 17\<rparr>), w)) 5 1 1000 () =
      (if (1 :: int) = 1 then from_epoll (pf_revents \<lparr>pf_fd = 5, pf_events = EEvent2PollEvent 1, pf_revents = 17\<rparr>) else 1, ())"
    by (rule eco_poll_wait_reports [THEN conjunct1]) (simp_all add: s)
  then show ?thesis by (simp add: from_epoll_def)
qed

text \<open>
  The timeout of \<open>eco_poll_wait\<close> has 64 bits and that of poll 32: from \<open>2 ^ 31\<close> to \<open>2 ^ 32 - 1\<close> milliseconds it is
negative, which poll takes as a wait without end, and \<open>2 ^ 32\<close> milliseconds are no wait at all.
\<close>

theorem eco_poll_wait_timeout_wraps:
  assumes "2 ^ 31 \<le> sint ms" "sint ms < 2 ^ 32"
  shows "\<exists>t < 0. \<forall>poll fd msk w. eco_poll_wait poll fd msk ms w = eco_poll_wait (\<lambda>pf _. poll pf t) fd msk 0 w"
    and "eco_poll_wait poll fd msk (2 ^ 32) w = eco_poll_wait poll fd msk 0 w"
proof -
  have "poll_timeout ms < 0"
  proof -
    have "signed_take_bit 31 (sint ms) = sint ms - 2 ^ 32"
    proof -
      have "signed_take_bit 31 (sint ms) = signed_take_bit 31 (sint ms - 2 ^ 32)"
        by (rule signed_take_bit_eq_iff_take_bit_eq [THEN iffD2]) (simp add: take_bit_eq_mod)
      also have "\<dots> = sint ms - 2 ^ 32" by (rule signed_take_bit_int_eq_self) (use assms in simp_all)
      finally show ?thesis .
    qed
    then show ?thesis using assms unfolding poll_timeout_wraps by simp
  qed
  then show "\<exists>t < 0. \<forall>poll fd msk w. eco_poll_wait poll fd msk ms w = eco_poll_wait (\<lambda>pf _. poll pf t) fd msk 0 w"
    by (intro exI [of _ "poll_timeout ms"]) (simp add: eco_poll_wait_def)
  have "poll_timeout (2 ^ 32) = poll_timeout 0" unfolding poll_timeout_wraps by simp
  then show "eco_poll_wait poll fd msk (2 ^ 32) w = eco_poll_wait poll fd msk 0 w" by (simp add: eco_poll_wait_def)
qed

theorem eco_poll_wait_timeout_wraps_witness:
  "\<exists>t < 0. \<forall>poll fd msk (w :: unit). eco_poll_wait poll fd msk 3000000000 w = eco_poll_wait (\<lambda>pf _. poll pf t) fd msk 0 w"
proof -
  have s: "sint (3000000000 :: 64 word) = 3000000000" by (simp add: signed_take_bit_int_eq_self)
  show ?thesis by (rule eco_poll_wait_timeout_wraps(1)) (simp_all add: s)
qed

text \<open>
  The dispatch of \<open>call_fn\<close> by address, when the originals have distinct addresses: with the address of one of them it is
the call of that function with its own arguments, \<open>accept\<close> alone treats its result specially, and only an address
that is none of theirs throws.
\<close>

theorem call_fn_calls_own:
  assumes "inj addr"
  shows "length va = io_nargs c \<Longrightarrow> call_fn_dispatch S addr original fc (addr c) fd va w =
      (let (r, w') = call_fn S fc (c = Io_accept) (original c fd va) w in (FOk r, w'))"
    and "fst (call_fn_dispatch S addr original fc fn fd va w) = FThrow \<longleftrightarrow> fn \<notin> range addr"
proof -
  have inj: "inj_on addr (set call_order)" using assms by (rule inj_on_subset) simp
  show "length va = io_nargs c \<Longrightarrow> call_fn_dispatch S addr original fc (addr c) fd va w =
      (let (r, w') = call_fn S fc (c = Io_accept) (original c fd va) w in (FOk r, w'))"
    by (simp add: call_fn_dispatch_def find_own [OF inj call_order_all])
  show "fst (call_fn_dispatch S addr original fc fn fd va w) = FThrow \<longleftrightarrow> fn \<notin> range addr"
  proof (cases "fn \<in> range addr")
    case True
    then obtain c where "fn = addr c" by blast
    then show ?thesis by (auto simp: call_fn_dispatch_def find_own [OF inj call_order_all] Let_def split: prod.split)
  next
    case False
    then have "find (\<lambda>c. addr c = fn) call_order = None" by (auto simp: find_None_iff)
    then show ?thesis using False by (simp add: call_fn_dispatch_def)
  qed
qed

theorem call_fn_calls_own_witness:
  "call_fn_dispatch hk_sys id (\<lambda>c fd va k. ((fd + int (length va), 0), k)) None Io_send 5 [1, 2, 3 :: int] hw0 = (FOk (8, 0), hw0)"
proof -
  have i: "inj (id :: iocall \<Rightarrow> iocall)" by simp
  have l: "length [1, 2, 3 :: int] = io_nargs Io_send" by simp
  have "hw0\<lparr>hw_kernel := hk0\<rparr> = hw0" by (simp add: hw0_def)
  then show ?thesis using call_fn_calls_own(1) [OF i l, of hk_sys "\<lambda>c fd va k. ((fd + int (length va), 0), k)" None 5 hw0]
    by (simp add: call_fn_def on_kernel_def)
qed

text \<open>
  The \<open>sendfile\<close> of macOS on a blocking socket, with an original that may send a part of the bytes and then fail
with \<open>EAGAIN\<close>: when the hook returns or parks, what has been sent is one piece of the file from the offset on,
and a result of 0 means that it is all of it, or reaches the end of the file.
\<close>

theorem mac_sendfile_sends_piece:
  assumes "hooked_fd S s w" "hw_get S up s w = (FOk c, w1)" "\<not> fc_userNonBlocked (hw_ctx c w1)"
    and "waiting_quiet out (kq_ApiAddEvent K) os poll_f" "msends_from out src sf" and "0 \<le> off" "0 < n"
    and "hook_mac_sendfile S up (kq_ApiAddEvent K) os poll_f sf orig s off (Some n) w = Some (FOk res, w')"
  shows "case res of
      MSendOrig r e m \<Rightarrow> False
    | MSendDone r e \<Rightarrow> (\<exists>m. 0 \<le> m \<and> m \<le> n \<and> out (hw_kernel w') = out (hw_kernel w1) @ piece src off m \<and>
        (r = 0 \<longrightarrow> m = n \<or> int (length src) \<le> off + m))
    | MSendPark tid off' n' \<Rightarrow> off \<le> off' \<and> 0 < n' \<and> off' + n' = off + n \<and>
        out (hw_kernel w') = out (hw_kernel w1) @ piece src off (off' - off)
    | MSendSleep t \<Rightarrow> True"
proof -
  have "mac_sendfile_loop (kq_ApiAddEvent K) os poll_f sf s
      (if fc_sendTimeout (hw_ctx c w1) = 0 then -1 else fc_sendTimeout (hw_ctx c w1)) None off n w1 = Some (FOk res, w')"
    using assms(8) unfolding hook_mac_sendfile_def by (simp add: assms(1-3))
  from mac_sendfile_loop_account [OF assms(4,5) this assms(6,7)] show ?thesis by (simp add: msend_account_def)
qed

theorem mac_sendfile_sends_piece_witness:
  "\<exists>w m. hook_mac_sendfile mk_sys hk_up (kq_ApiAddEvent mk_kq) mk_os mk_poll mk_msendfile (\<lambda>off n k. ((0, 0, 0), k))
      5 1 (Some 6) mw0 = Some (FOk (MSendDone 0 0), w) \<and> mk_out (hw_kernel w) = piece mk_file 1 m \<and> (m = 6 \<or> 7 \<le> 1 + m)"
proof -
  obtain m where m: "hw_get mk_sys hk_up 5 mw0 = (FOk 0, mw0\<lparr>hw_files := m\<rparr>)"
    "fm_ctx m 0 = \<lparr>fc_fd = 5, fc_sysNonBlocked = True, fc_userNonBlocked = False, fc_recvTimeout = 3000,
       fc_sendTimeout = 0\<rparr>" using mw0_get by blast
  obtain w where w: "hook_mac_sendfile mk_sys hk_up (kq_ApiAddEvent mk_kq) mk_os mk_poll mk_msendfile
      (\<lambda>off n k. ((0, 0, 0), k)) 5 1 (Some 6) mw0 = Some (FOk (MSendDone 0 0), w)" using mk_msend_run by blast
  have l: "int (length mk_file) = 7" by (simp add: mk_file_def)
  have "\<exists>m. mk_out (hw_kernel w) = mk_out mk0 @ piece mk_file 1 m \<and> (m = 6 \<or> int (length mk_file) \<le> 1 + m)"
    using mac_sendfile_sends_piece [OF mw0_simps(3) m(1) _ mk_quiet(2) mk_msends _ _ w]
    by (auto simp: hw_ctx_def m(2))
  then show ?thesis using w unfolding l by (auto simp: mk0_def)
qed

text \<open>
  The \<open>sendfile\<close> of macOS with the length 0, which asks for all bytes up to the end of the file: when the original
sends a part and would block, the hook does not wait but returns -1 with \<open>EAGAIN\<close>, although the socket
of the caller blocks.
\<close>

theorem mac_sendfile_to_end_eagain:
  assumes "hooked_fd S s w" "hw_get S up s w = (FOk c, w1)" "\<not> fc_userNonBlocked (hw_ctx c w1)" "0 \<le> s"
    and "\<forall>k. fst (fst (poll_f [io_pollfd s POLLOUT] 0 k)) = 1"
    and "\<forall>k. \<exists>m k'. 0 \<le> m \<and> sf off 0 k = ((-1, MAC_EAGAIN, m), k')"
  shows "\<exists>w'. hook_mac_sendfile S up (kq_ApiAddEvent K) os poll_f sf orig s off (Some 0) w =
    Some (FOk (MSendDone (-1) MAC_EAGAIN), w')"
proof -
  define ms where "ms = (if fc_sendTimeout (hw_ctx c w1) = 0 then -1 else fc_sendTimeout (hw_ctx c w1))"
  have nb: "\<not> bypass w1" using hw_get_bypass [OF assms(2)] assms(1) by (simp add: hooked_fd_def bypass_def)
  have "ms \<noteq> 0" by (simp add: ms_def)
  from mac_sendfile_loop_eagain [where poll_f = poll_f and sf = sf and off = off, OF assms(5,6) nb this assms(4)]
  have "\<exists>k. mac_sendfile_loop (kq_ApiAddEvent K) os poll_f sf s ms None off 0 w1 =
      Some (FOk (MSendDone (-1) MAC_EAGAIN), w1\<lparr>hw_kernel := k\<rparr>)" .
  then show ?thesis using assms(1-3) by (auto simp: hook_mac_sendfile_def ms_def)
qed

theorem mac_sendfile_to_end_eagain_witness:
  "\<exists>w'. hook_mac_sendfile mk_sys hk_up (kq_ApiAddEvent mk_kq) mk_os mk_poll mk_msendfile (\<lambda>off n k. ((0, 0, 0), k))
      5 1 (Some 0) mw0 = Some (FOk (MSendDone (-1) MAC_EAGAIN), w')"
proof -
  obtain m where m: "hw_get mk_sys hk_up 5 mw0 = (FOk 0, mw0\<lparr>hw_files := m\<rparr>)"
    "fm_ctx m 0 = \<lparr>fc_fd = 5, fc_sysNonBlocked = True, fc_userNonBlocked = False, fc_recvTimeout = 3000,
       fc_sendTimeout = 0\<rparr>" using mw0_get by blast
  show ?thesis
    by (rule mac_sendfile_to_end_eagain [OF mw0_simps(3) m(1)])
      (simp_all add: hw_ctx_def m(2) mk_poll_def mk_msendfile_def mk_take_def)
qed

end
