(* ===== verification/Spec2Isabelle.thy ===== *)
theory Spec2Isabelle
  imports Further_Results
begin

text \<open>
  CxxFiber is a coroutine library for C++: blocking code runs in fibers, a scheduler runs the fibers
  on one or several threads, and the blocking calls of the C library are replaced by hooks that
  park the calling fiber instead of its thread. This development models the Linux build of the
  library, with what the macOS build has in its place, and proves its parts correct; where the code does
  less than it means to, a theorem says exactly what it does.

  \<^bold>\<open>The parts of the program and their theories.\<close>

  \<^item> \<open>Eco_Prelude\<close>: the pointer types, C integer conventions, the interface of the concurrent
    queues and lists of CxxJDK (an argument \<open>Q\<close> of type \<open>cxx_queue\<close>, with their documented behaviour
    \<open>cxx_fifo\<close>), generic lemmas.
  \<^item> \<open>Eco_Runtime\<close>: the fiber objects (inc/EFiber.hh, src/EFiber.cpp): record \<open>fiber\<close>, and the record
    \<open>rt\<close> of all that the threads share: fibers, queue nodes and queues, the bytes in the pipes.
  \<^item> \<open>Fiber_Queue\<close>: \<open>EFiberConcurrentQueue\<close> (inc/EFiberUtil.hh) with its recycled nodes.
  \<^item> \<open>Fiber_Resume\<close>: \<open>EFiber::swapIn\<close>, the way a parked fiber gets back into a queue.
  \<^item> \<open>Event_Poll\<close>, \<open>Event_Timers\<close>, \<open>Event_Files\<close>: the event loop (src/eco_ae.c) over its epoll back end
    (src/eco_ae_epoll.c): record \<open>poll\<close>, the operations of the file events, the time events and
    \<open>eco_poll_process_events\<close>. The kernel is an argument \<open>os\<close>. \<open>Event_Kqueue\<close>: the kqueue back end
    (src/eco_ae_kqueue.c) and the contract that both back ends meet.
  \<^item> \<open>Io_Waiter\<close>: \<open>EIoWaiter\<close> (src/EIoWaiter.cpp): one event loop per thread, its pipe, its callbacks
    that wake fibers.
  \<^item> \<open>Blocker\<close>: \<open>EFiberBlocker\<close> (src/EFiberBlocker.cpp), the semaphore under all synchronisation.
  \<^item> \<open>Sync\<close>: \<open>EFiberMutex\<close> and \<open>EFiberCondition\<close>. \<open>Channel\<close>: \<open>EFiberChannel\<close> (inc/EFiberChannel.hh), its
    operations cut at the locked sections of the two blockers (\<open>chan_act\<close>), with what the scheduler does when a fiber
    yields: a fiber that is still BLOCKED after a permit that came late is given to its blocker again.
  \<^item> \<open>Scheduler\<close>: \<open>EFiberScheduler\<close> (src/EFiberScheduler.cpp): scheduling, the loops of \<open>join()\<close> and of
    a thread of \<open>join(int)\<close>, interruption. \<open>Scheduler_Inv\<close>: its invariant. \<open>Scheduler_Code\<close>: fibers
    that call the library. \<open>Scheduler_Start\<close>: construction, the start of \<open>join\<close>, \<open>addtimer\<close>.
    \<open>Scheduler_Term\<close>: how many turns the loop of \<open>join()\<close> takes, and that it ends.
  \<^item> \<open>Threads\<close>: the threads of \<open>join(int)\<close> side by side: the loop \<open>joinWithThreadBind\<close>, \<open>schedule\<close>, \<open>wakeUp\<close>
    and \<open>swapIn\<close> cut at their accesses to shared memory (\<open>loop_step\<close>, \<open>lib_step\<close>), a program counter for each
    thread, and steps of any thread in any order (\<open>thread_step\<close>, \<open>reaches\<close>). \<open>Threads_Round\<close>: what a round of
    one io waiter leaves alone. \<open>Threads_Inv\<close>: the invariant \<open>winv\<close>. \<open>Threads_Safe\<close>: every step keeps it, and
    none faults. \<open>Threads_Reach\<close>: what follows for all worlds that can be reached.
  \<^item> \<open>Machine_Context\<close>: \<open>EContext\<close> (src/EContext.cpp): the instructions of SETJMP and LONGJMP, the two
    switches between a fiber and its scheduler, the stack; the flags of \<open>EFiberDebugger\<close>.
  \<^item> \<open>Fiber_Local\<close>: \<open>EFiberLocal\<close> (inc/EFiberLocal.hh), \<open>EFiber::~EFiber\<close> and the hook \<open>__res_state\<close>.
  \<^item> \<open>File_Context\<close>: \<open>EFileContext\<close> and \<open>EFileContextManager\<close> (src/EFileContext.cpp), the table of the
    descriptors that fibers use. \<open>Hooker_Files\<close>, \<open>Hooker_Wait\<close>, \<open>Hooker_Io\<close>: the hooks of
    src/EHooker.cpp, those that return at once, those that wait for descriptors, and the io calls.
  \<^item> \<open>Hooker_Mac\<close>: the hooks of src/EHooker.cpp that only the macOS build has (\<open>kevent\<close>, \<open>kevent64\<close>, its
    \<open>sendfile\<close>), over an io waiter on kqueue. \<open>Hooker_Send\<close>: what the two \<open>sendfile\<close> hooks send.
    \<open>Event_Wait\<close>: \<open>eco_poll_wait\<close> (src/eco_ae.c).
  \<^item> \<open>Symbol_Hook\<close>: the rebinding of the symbols of a module that is loaded later (src/elf_hook.c) and the
    hook \<open>dlopen\<close>: the file is a list of bytes, memory a function of addresses.
  \<^item> \<open>Mach_Hook\<close>: the same on macOS (src/mach_hook.c, and \<open>dlopen\<close> of src/EHooker.cpp): the load commands and
    tables of an image are read from memory.
  \<^item> \<open>Demo\<close>, \<open>Demo_Hooks\<close>, \<open>Demo_Parts\<close>, \<open>Demo_Elf\<close>, \<open>Demo_Threads\<close>, \<open>Demo_Send\<close>, \<open>Demo_Mach\<close>: concrete kernels, states and files on which the
    properties are exercised. \<open>Further_Results\<close>: results on single operations.

  \<^bold>\<open>How the parts interact.\<close> A fiber runs between two pauses; the scheduler polls it from a queue
  (\<open>EFiberScheduler_join_turn\<close>, argument \<open>run\<close> for the code of the fibers). A fiber pauses by becoming
  BLOCKED (on a blocker) or WAITING (on its io waiter, \<open>EIoWaiter_swapOut\<close>). It becomes runnable by
  \<open>EFiber_resume\<close>, called by \<open>EFiberBlocker_wakeUp\<close>, by \<open>EIoWaiter_fileEventProc\<close> and by
  \<open>EIoWaiter_timeEventProc\<close>, the latter two from \<open>eco_poll_process_events\<close>, which a turn runs when the
  queue is empty. A hook is a function in two parts: \<open>hook_x_start\<close> up to the pause, \<open>hook_x_resume\<close>
  from there. The unit of interleaving is what the code makes atomic: the locked sections of the
  blockers, the operations of the concurrent queues, and, except in \<open>Threads\<close>, one segment of a fiber on its
  thread. In \<open>Threads\<close> a fiber makes calls of \<open>wakeUp\<close>, \<open>schedule\<close> and \<open>wait\<close>, yields and returns; each access of
  these calls to \<open>state\<close>, to a queue, to \<open>hungIoWaiter\<close> or to a pipe is a step of its own. Memory is sequentially
  consistent there, a round of an io waiter is one step, and fibers wait for blockers only, not for timers or
  descriptors.

  \<^bold>\<open>Conventions.\<close> Objects are records, pointers are numbers, and an object that is shared lives in a
  map of the state. \<open>None\<close> as the result of an operation is undefined behaviour or a failed
  assertion (a null or dead pointer, an index out of bounds), or a loop that does not end; that it
  does not occur is part of the theorems. Errors that the code handles are values, exceptions are
  values of the sum \<open>fres\<close>. Integers whose wrap-around can be reached are written with it
  (\<open>sleep\<close>, the deadlines of timers, the counter \<open>balanceIndex\<close>, the timeouts that \<open>aeApiPoll\<close> and \<open>eco_poll_wait\<close> narrow to \<open>int\<close>;
  \<open>int32\<close> is that conversion), all others are \<open>int\<close>.

  \<^bold>\<open>What the lemmas show.\<close> The invariants are: \<open>qrep\<close> (the recycled nodes represent lists), \<open>poll_wf\<close>
  and \<open>synced\<close> (\<open>maxfd\<close>, the masks and the interest set of epoll agree), \<open>timers_wf\<close> (identifiers are unique
  and below the next one), \<open>waiter_ok\<close> (every live holder is in one event), \<open>sched_ok\<close> (every
  live fiber is in exactly one place), the accounting of permits and elements of a channel, and
  \<open>fcm_ok\<close> (the two-level table), \<open>winv\<close> (with all threads: every fiber in one queue, in the
  hands of one thread or in the queue of one blocker, and every waiting thread with a woken fiber signalled). Every operation is shown to keep the invariants of what it touches.
  Contracts between parts are locales: \<open>fifo_family\<close> (task queues; interpretation \<open>cq\<close>), \<open>semaphore\<close>
  (\<open>blk\<close>), \<open>fiber_code\<close> (what the scheduler expects of the code of fibers; \<open>code\<close>), \<open>context_table\<close>
  (\<open>files\<close>), \<open>poll_backend\<close> (what the event loop expects of its back end; \<open>ep\<close> and \<open>kq\<close>),
  \<open>waiter_backend\<close> (the same for the io waiter; \<open>wep\<close> and \<open>wkq\<close>); each is interpreted on the definitions of the model.

  \<^bold>\<open>Arguments that stand for code outside of the repository\<close>, and the hypotheses on them: the containers
  of CxxJDK (\<open>cxx_fifo\<close>, and \<open>hash_spec\<close> for its hash table); epoll and the clock (\<open>epoll_spec\<close>,
  \<open>clock_spec\<close>, together \<open>os_ok\<close>); kevent (\<open>kqueue_spec\<close>); getcontext, setcontext, makecontext and dlsym,
  without a hypothesis; the original
  functions behind the hooks (\<open>flags_spec\<close> for fcntl, \<open>poll_spec\<close> and \<open>poll_honest\<close> for poll, \<open>select_spec\<close> for
  select); the macro \<open>ES_ALIGN_UP\<close> (\<open>align_spec\<close>); \<open>ES_ALIGN_DEFAULT\<close>, without a hypothesis; the code that fibers
  run. The demo theories meet all of them with concrete functions.

  \<^bold>\<open>Loops and fuel.\<close> The loop of \<open>join()\<close> depends on what the fibers do; \<open>EFiberScheduler_join\<close> is a
  partial function. No turn of it fails (\<open>turn_keeps_invariant\<close>); only so many turns run a fiber as the
  fibers have operations left (\<open>turns_bounded_by_work\<close>); it ends when the fibers do not park
  (\<open>join_terminates\<close>); \<open>join_ends_clean\<close> says what holds then. Fibers that park for ever keep it waiting. The
  retry loops of the io hooks are partial functions; that they end is proved (\<open>blocking_io_returns\<close>,
  \<open>gethostbyname_returns\<close>), or that one does not (\<open>sendfile_eof_never_returns\<close>). All other loops recurse
  on lists, on the descriptors or on the timers.

  \<^bold>\<open>Not modelled.\<close> The lookup of the originals with dlsym; the branch of src/EContext.cpp for other
  processors; the select back end (src/eco_ae_select.c), which consists of stubs; the debugger's log; the thread pool behind
  \<open>join(int)\<close>; \<open>EIoWaiter::loopProcessEvents\<close> and \<open>IoWaiterFiber\<close>, which nothing calls.
  Of \<open>join()\<close> and of the threads of \<open>join(int)\<close> the loops are modelled and the waking of the other threads at the
  label \<open>CLEAN\<close>, not the release of the file table and of the save area of the thread there. The pipe of an io waiter
  has room for every byte that is written to it. Overlapping calls of \<open>swapIn\<close> by a timer and by another
  thread are outside of \<open>Threads\<close>. Memory exhaustion is not modelled.

  The properties follow, the most important ones first.
\<close>





text \<open>
  Claim C3. No wake-up is lost between threads. The fibers wait on blockers without a time limit: there are no timers and no
descriptors among the steps. In every order of the steps of the threads of \<open>join(int)\<close> and of threads outside: whenever a thread is about to wait for events, or waits, and a fiber that is bound to it is
in its queue, then its pipe has a byte, so that it will not sleep, or another thread is just before the
\<open>signal\<close> that writes one.
\<close>

theorem no_wakeup_lost_between_threads:
  assumes "setting_ok S Q view interest clk" and "start_ok Q view S interest V0 w0" and "reaches S Q w0 w"
    and "qrep (stub_queue ` {..<st_threads S}) (st_fibers S) (wd_sched w) V" and "j < st_threads S"
    and "f \<in> set (V (stub_queue j))" and "fb_boundQueue (rt_fibers (wd_sched w) f) \<noteq> None"
    and "wd_pc w j = At Hang \<or> wd_pc w j = At Wait"
  shows "0 < rt_signals (wd_sched w) (stub_waiter j) \<or>
     (\<exists>u g st l. u \<noteq> j \<and> wd_pc w u = In (SwapSignal g st) l \<and> home j g (wd_sched w))"
  using safe_bells [OF reaches_safe [OF assms(1) start_safe [OF assms(2)] assms(3)] assms(4-8)] unfolding rung_def .

theorem no_wakeup_lost_between_threads_witness:
  "\<exists>w. reaches two list_cxx two0 w \<and> wd_pc w 0 = At Hang \<and>
     (0 < rt_signals (wd_sched w) (stub_waiter 0) \<or>
      (\<exists>u g st l. u \<noteq> 0 \<and> wd_pc w u = In (SwapSignal g st) l \<and> home 0 g (wd_sched w)))"
proof -
  obtain w V where w: "reaches two list_cxx two0 w" "qrep (stub_queue ` {..<st_threads two}) (st_fibers two) (wd_sched w) V"
    "(1 :: fptr) \<in> set (V (stub_queue 0))" "fb_boundQueue (rt_fibers (wd_sched w) 1) \<noteq> None" "wd_pc w 0 = At Hang"
    using woken_world by blast
  have "(0 :: nat) < st_threads two" by (simp add: two_def)
  from no_wakeup_lost_between_threads [OF two_ok two_start w(1,2) this w(3,4)] w(1,5) show ?thesis by blast
qed

text \<open>
  Claim C4. A fiber stays with its thread. In every order of the steps of the threads: if thread \<open>t\<close> runs \<open>f\<close> in some
world and thread \<open>u\<close> runs \<open>f\<close> in the same or in a later one, then they are the same thread, one of
\<open>join(int)\<close>, and the fiber is bound to it. In particular no fiber ever runs on two threads at once.
\<close>

theorem fibers_stay_on_their_thread:
  assumes "setting_ok S Q view interest clk" and "start_ok Q view S interest V0 w0"
    and "reaches S Q w0 w" and "reaches S Q w w'" and "runs (wd_pc w t) = Some f" and "runs (wd_pc w' u) = Some f"
  shows "u = t \<and> t < st_threads S \<and> fb_boundQueue (rt_fibers (wd_sched w') f) = Some (stub_queue t) \<and>
     fb_boundThreadID (rt_fibers (wd_sched w') f) = thread_id t"
proof -
  have s: "safe Q view S interest (wd_sched w) (wd_pc w)" by (rule reaches_safe [OF assms(1) start_safe [OF assms(2)] assms(3)])
  have s': "safe Q view S interest (wd_sched w') (wd_pc w')" by (rule reaches_safe [OF assms(1) s assms(4)])
  have "home t f (wd_sched w')"
    using reaches_homes [OF assms(1) s assms(4)] runs_fine(1) [OF s assms(5)] unfolding homes_kept_def by blast
  moreover have "home u f (wd_sched w')" by (rule runs_fine(1) [OF s' assms(6)])
  ultimately show ?thesis using runs_fine(2) [OF s assms(5)] by (simp add: home_def stub_queue_inj)
qed

theorem fibers_stay_on_their_thread_witness:
  "\<exists>w. reaches two list_cxx two0 w \<and> runs (wd_pc w 0) = Some 1 \<and>
     fb_boundQueue (rt_fibers (wd_sched w) 1) = Some (stub_queue 0)"
proof -
  obtain w where w: "reaches two list_cxx two0 w" "runs (wd_pc w 0) = Some 1" using running_world by blast
  from fibers_stay_on_their_thread [OF two_ok two_start w(1) reaches.start w(2) w(2)] w show ?thesis by blast
qed

text \<open>
  Claim C5. The end of \<open>join(int)\<close>. If only fibers schedule fibers meanwhile, then a thread that has left its loop
without an interruption leaves no fiber behind on any thread: the counter of fibers is 0, and every fiber
has ended or has never been scheduled.
\<close>

theorem threads_end_clean:
  assumes "setting_ok S Q view interest clk" and "start_ok Q view S interest V0 w0"
    and "trace_run S Q tcs w0 = Some w" and "\<forall>(t, c)\<in>set tcs. t < st_threads S \<or> (\<forall>f ign. c \<noteq> CallSchedule f ign)"
    and "wd_pc w t = At (Ended Break)"
  shows "sc_total (wd_sched w) = 0 \<and> (\<forall>f\<in>st_fibers S. fb_state (rt_fibers (wd_sched w) f) \<in> {NEW, TERMINATED})"
proof -
  have z: "safe Q view S interest (wd_sched w) (wd_pc w)" "ended_ok (st_threads S) (wd_sched w) (wd_pc w)"
    using trace_ended [OF assms(1,3) start_safe [OF assms(2)] start_ended [OF assms(2)] assms(4)] by blast+
  have "drained (wd_pc w t)" by (simp add: assms(5))
  then have "sc_total (wd_sched w) = 0" using z(2) unfolding ended_ok_def by blast
  then show ?thesis using safe_total(3) [OF assms(1) z(1)] by blast
qed

theorem threads_end_clean_witness:
  "\<exists>w. trace_run two list_cxx (one_fiber_ends @ go 0 5) one0 = Some w \<and> wd_pc w 0 = At (Ended Break) \<and>
     sc_total (wd_sched w) = 0 \<and> (\<forall>f\<in>st_fibers two. fb_state (rt_fibers (wd_sched w) f) \<in> {NEW, TERMINATED})"
proof -
  obtain w where w: "trace_run two list_cxx (one_fiber_ends @ go 0 5) one0 = Some w" "wd_pc w 0 = At (Ended Break)"
    using one_fiber_run by blast
  have "\<forall>(t, c)\<in>set (one_fiber_ends @ go 0 5). t < st_threads two \<or> (\<forall>f ign. c \<noteq> CallSchedule f ign)"
    by (simp add: one_fiber_ends_def go_def two_def)
  from threads_end_clean [OF two_ok one_start w(1) this w(2)] w show ?thesis by blast
qed

text \<open>
  Claim C6. No thread faults, as long as fibers wait on blockers without a time limit (with timers, two overlapping calls of
\<open>swapIn\<close> could reset the blocker of a fiber). In every world that can be reached, a thread can make a step exactly if its code
prescribes one (\<open>may\<close>): no null pointer is followed in a queue, a fiber or a blocker, the assertion on
\<open>fiber->blocker\<close> holds, and \<open>schedule\<close> finds its stub. A balance callback returns an index in range; without a callback
\<open>may\<close> asks that the remainder of \<open>balanceIndex\<close>, which wraps around at 32 bits, is not negative: this is so for the
first 2^31 calls, and after that \<open>schedule\<close> does index outside of the stubs.
\<close>

theorem threads_never_fault:
  assumes "setting_ok S Q view interest clk" and "start_ok Q view S interest V0 w0" and "reaches S Q w0 w"
  shows "(\<exists>w'. thread_step S Q (t, c) w = Some w') \<longleftrightarrow> may S c (wd_pc w t) (wd_sched w)"
  by (rule thread_step_may [OF assms(1) reaches_safe [OF assms(1) start_safe [OF assms(2)] assms(3)]])

theorem threads_never_fault_witness:
  "\<exists>w w'. reaches two list_cxx two0 w \<and> wd_pc w 0 = At (Run 1) \<and> thread_step two list_cxx (0, CallWait 7) w = Some w'"
proof -
  obtain w where w: "reaches two list_cxx two0 w" "wd_pc w 0 = At (Run 1)" using running_world by blast
  have "may two (CallWait 7) (wd_pc w 0) (wd_sched w)" by (simp add: w(2))
  with threads_never_fault [OF two_ok two_start w(1), of 0 "CallWait 7"] w show ?thesis by blast
qed

text \<open>
  Claim C7. One round of the event loop of an io waiter. It comes back without following a null or dead
  pointer; it only ever turns parked fibers it serves into runnable ones, each of them once in
  its queue; the registrations stay as they were; and every fiber with a timer that was due
  when the round began is runnable afterwards and knows that its timer came.
\<close>

theorem io_round_wakes:
  assumes "os_ok os interest clk" and "rt_ok K L F R s" and "waiter_ok F iw" and "synced interest (iw_poll iw) k"
  shows "\<exists>n iw' k' s'. EIoWaiter_onceProcessEvents os t wp timeout iw k s = Some (n, iw', k', s') \<and>
     rt_ok K L F R s' \<and> wakes F s s' \<and> waiter_ok F iw' \<and> synced interest (iw_poll iw') k' \<and>
     iw_waiters iw' = iw_waiters iw \<and> pl_events (iw_poll iw') = pl_events (iw_poll iw) \<and>
     (\<forall>te\<in>set (pl_timeEvents (iw_poll iw)). te_id te \<noteq> -1 \<and> 0 \<le> te_when_sec te \<and> te_millis te \<le> clk k \<longrightarrow>
        \<not> parked (te_clientData te) s' \<and> fb_isIoWaitTimeout (rt_fibers s' (te_clientData te)))"
  using assms by (rule EIoWaiter_round)

theorem io_round_wakes_witness:
  "\<exists>n iw' k' s'. EIoWaiter_onceProcessEvents sim_os 1 default_waiter 0 (sc_waiters demo default_waiter) (sc_kernel demo) demo =
       Some (n, iw', k', s') \<and> rt_ok {default_queue} {1, 2} {} {} s' \<and> waiter_ok {} iw'"
  using io_round_wakes [OF sim_os_ok sched_okD(4,8,9) [OF demo_ok], of 1 default_waiter 0] by blast

text \<open>
  Claim C8. Every history of takes, waits, wake-ups and time-outs on an \<open>EFiberBlocker\<close>, by fibers and
  by threads, has the outcomes of the abstract semaphore that holds a number of permits and a
  list of waiters.
\<close>

theorem blocker_refines_semaphore:
  assumes "blk_sem Q view b p l ws"
  shows "\<exists>rs b' p' ws'. sem_run EFiberBlocker_tryWait (blk_park Q) (EFiberBlocker_post Q) (blk_drop Q) calls b = (rs, b') \<and>
     spec_run l calls (p, ws) = (rs, (p', ws')) \<and> blk_sem Q view b' p' l ws'"
  using assms by (rule blk.run_refines)

theorem blocker_refines_semaphore_witness:
  "\<exists>rs b' p' ws'. sem_run EFiberBlocker_tryWait (blk_park list_cxx) (EFiberBlocker_post list_cxx) (blk_drop list_cxx)
       [SPark (WFiber 4), SWake, SWake] (EFiberBlocker_ctor list_cxx 0 1) = (rs, b') \<and>
     spec_run 1 [SPark (WFiber 4), SWake, SWake] (0, []) = (rs, (p', ws')) \<and>
     rs = [Waiting (WFiber 4), Handed (WFiber 4), Stored]"
  using blocker_refines_semaphore [OF ctor_sem [OF list_cxx_fifo, of 0 1], of "[SPark (WFiber 4), SWake, SWake]"] by auto

text \<open>
  Claim C9. After any history that starts with a new blocker, whose initial permits are within its limit: no permit is stored while somebody waits
  (a wake-up is never lost on a waiter), at most the limit is stored, and the permits at the
  start and those posted are those granted and those still stored.
\<close>

theorem no_lost_wakeup:
  assumes "cxx_fifo Q view" and "capacity \<le> limit"
    and "sem_run EFiberBlocker_tryWait (blk_park Q) (EFiberBlocker_post Q) (blk_drop Q) calls
       (EFiberBlocker_ctor Q capacity limit) = (rs, b')"
  shows "\<exists>p' ws'. blk_sem Q view b' p' (unat limit) ws' \<and> (0 < p' \<longrightarrow> ws' = []) \<and> p' \<le> unat limit \<and>
     unat capacity + count_of posted rs = p' + count_of granted rs"
proof -
  note c = ctor_sem [OF assms(1), of capacity limit]
  obtain p1 ws1 where 1: "blk_sem Q view b' p1 (unat limit) ws1" "sem_inv (unat limit) (p1, ws1)"
    using blk.run_inv [OF c assms(3)] assms(2) by (auto simp: sem_inv_def word_le_nat_alt)
  obtain p2 ws2 where 2: "blk_sem Q view b' p2 (unat limit) ws2" "unat capacity + count_of posted rs = p2 + count_of granted rs"
    using blk.run_conservation [OF c assms(3)] by blast
  have "p2 = p1" using blk_semD(2) [OF 1(1)] blk_semD(2) [OF 2(1)] by simp
  then show ?thesis using 1 2 by (auto simp: sem_inv_def)
qed

theorem no_lost_wakeup_witness:
  "\<exists>rs b' p' ws'. sem_run EFiberBlocker_tryWait (blk_park list_cxx) (EFiberBlocker_post list_cxx) (blk_drop list_cxx)
       [SPark WThread, SWake, STake] (EFiberBlocker_ctor list_cxx 0 5) = (rs, b') \<and>
     blk_sem list_cxx (\<lambda>q. q) b' p' 5 ws' \<and> count_of posted rs = p' + count_of granted rs"
proof -
  obtain rs b' where r: "sem_run EFiberBlocker_tryWait (blk_park list_cxx) (EFiberBlocker_post list_cxx) (blk_drop list_cxx)
       [SPark WThread, SWake, STake] (EFiberBlocker_ctor list_cxx 0 5) = (rs, b')" by fastforce
  from no_lost_wakeup [OF list_cxx_fifo _ r] r show ?thesis by auto
qed



text \<open>
  Claim C11. No fiber is run forever. In any number of turns of the loop of \<open>join()\<close>, those that take a fiber
from the queue are at most as many as the operations left to the fibers, where a timed wait and a
sleep count twice and the end of a fiber once. This holds for every operation, also for those that park.
\<close>

theorem turns_bounded_by_work:
  assumes "cxx_fifo Q view" and "os_ok os interest clk" and "sched_ok Q view interest L F {} s" and "\<not> sc_interrupted s"
  shows "\<exists>b s'. join_turns os Q (run_code Q os t) t n s = Some (b, s') \<and> b \<le> (\<Sum>f\<in>L. Suc (work (sc_code s f)))"
  using busy_turns_bounded [OF assms, of t n] unfolding total_work_def .

theorem turns_bounded_by_work_witness:
  "\<exists>b s'. join_turns sim_os list_cxx demo_run 1 100 demo = Some (b, s') \<and> b \<le> 6"
proof -
  have i: "\<not> sc_interrupted demo" by code_simp
  have c: "sc_code demo 1 = [CWait 7, CYield]" "sc_code demo 2 = [CYield, CWakeUp 7]" by code_simp+
  have ws: "work (sc_code demo 1) = 2" "work (sc_code demo 2) = 2" unfolding c by (simp_all add: eval_nat_numeral)
  have w: "(\<Sum>f\<in>{1, 2}. Suc (work (sc_code demo f))) = 6"
    by (simp add: ws ws(1) [unfolded One_nat_def])
  show ?thesis using turns_bounded_by_work [OF list_cxx_fifo sim_os_ok demo_ok i, of 1 100] unfolding w .
qed

text \<open>
  Claim C12. A channel never hands out null: in every state that fibers can reach by interleaving \<open>read\<close>,
  \<open>write\<close>, \<open>tryRead\<close>, \<open>tryWrite\<close> and yields in any way, a reader that is about to poll the data queue
  finds an element, the oldest one. The bound says that the 32-bit counters cannot overflow.
\<close>

theorem channel_read_succeeds:
  assumes "cxx_fifo Q view" and "cxx_fifo D dview" and "finite Fs" and "unat cap + card Fs < 2 ^ 32 - 1"
    and "chan_reach Q D Fs calls cap (pcs, c)" and "f \<in> Fs" and "pcs f = ReadPoll \<or> pcs f = TryReadPoll"
  shows "\<exists>e c'. (chan_act Q D f (pcs f) c = Some (Done (RdRes (Some e)), c') \<or>
       chan_act Q D f (pcs f) c = Some (Done (TrRes (Some (Some e))), c')) \<and> dview (ch_data c) = e # dview (ch_data c')"
proof -
  obtain lr lw pr rq pw wq where acc: "chan_acc Q view dview Fs (unat cap) pcs c lr lw pr rq pw wq"
    using chan_reach_inv [OF assms(1-5)] by (auto simp: chan_inv_def)
  have w: "w_rd (pcs f) = 1" "\<not> rd_parked (pcs f)" using assms(7) by auto
  from acc_poll [OF assms(2) acc assms(3,6) w] obtain e d where
    "cxq_poll D (ch_data c) = (Some e, d)" "dview (ch_data c) = e # dview d" by blast
  then show ?thesis using assms(7) by auto
qed

theorem channel_read_succeeds_witness:
  "\<exists>pcs c (e :: nat) c'. chan_reach list_cxx list_cxx {1, 2} demo_calls 1 (pcs, c) \<and>
     chan_act list_cxx list_cxx 1 (pcs 1) c = Some (Done (RdRes (Some e)), c') \<and> ch_data c = e # ch_data c'"
proof -
  obtain pcs c where r: "chan_reach list_cxx list_cxx {1, 2} demo_calls 1 (pcs, c)" "pcs 1 = (ReadPoll :: nat chan_pc)"
    using demo_chan_ready by blast
  have m: "1 \<in> {1, 2 :: nat}" and l: "unat (1 :: u32) + card {1, 2 :: nat} < 2 ^ 32 - 1" by simp_all
  have fi: "finite {1, 2 :: nat}" and p: "pcs 1 = ReadPoll \<or> pcs 1 = TryReadPoll" using r(2) by simp_all
  obtain e c' where a: "chan_act list_cxx list_cxx 1 (pcs 1) c = Some (Done (RdRes (Some e)), c') \<or>
       chan_act list_cxx list_cxx 1 (pcs 1) c = Some (Done (TrRes (Some (Some e))), c')" "ch_data c = e # ch_data c'"
    using channel_read_succeeds [OF list_cxx_fifo list_cxx_fifo fi l r(1) m p] by blast
  then have "chan_act list_cxx list_cxx 1 (pcs 1) c = Some (Done (RdRes (Some e)), c')"
    unfolding r(2) by (auto split: prod.splits)
  then show ?thesis using a(2) r(1) by blast
qed

text \<open>
  Claim C13. No wake-up is lost on a channel whose fibers each either wait (\<open>read\<close>, \<open>write\<close>) or yield (\<open>tryRead\<close>, or
  \<open>EFiber::yield\<close> on their own), but not both: when every fiber is outside of the channel or parked with
  no resumption pending, a reader is parked only if there is no element, and a writer only if
  the channel holds its capacity and one element more for every parked reader; so a reader and
  a writer are never stuck at the same time.
\<close>

theorem channel_no_lost_wakeup:
  assumes "cxx_fifo Q view" and "cxx_fifo D dview" and "finite Fs" and "unat cap + card Fs < 2 ^ 32 - 1"
    and "\<And>f. \<not> (waits_here calls f \<and> yields_here calls f)"
    and "chan_reach Q D Fs calls cap (pcs, c)" and "quiescent Fs (pcs, c)"
  shows "((\<exists>f\<in>Fs. rd_parked (pcs f)) \<longrightarrow> dview (ch_data c) = []) \<and>
     ((\<exists>f\<in>Fs. wr_parked (pcs f)) \<longrightarrow> length (dview (ch_data c)) = unat cap + card {f \<in> Fs. rd_parked (pcs f)}) \<and>
     \<not> ((\<exists>f\<in>Fs. rd_parked (pcs f)) \<and> (\<exists>f\<in>Fs. wr_parked (pcs f)))"
proof -
  note q = chan_quiescent [OF assms]
  have "0 < card {f \<in> Fs. rd_parked (pcs f)}" if "\<exists>f\<in>Fs. rd_parked (pcs f)"
    using that assms(3) by (auto simp: card_gt_0_iff)
  then show ?thesis using q by force
qed

theorem channel_no_lost_wakeup_witness:
  "\<exists>pcs c. chan_reach list_cxx list_cxx {1, 2} demo_calls 1 (pcs, c) \<and> rd_parked (pcs 1) \<and> ch_data c = ([] :: nat list)"
proof -
  obtain pcs c where r: "chan_reach list_cxx list_cxx {1, 2} demo_calls 1 (pcs, c)" "pcs 1 = (ReadParked :: nat chan_pc)"
      "quiescent {1, 2} (pcs, c)"
    using demo_chan_parked by blast
  have l: "unat (1 :: u32) + card {1, 2 :: nat} < 2 ^ 32 - 1" by simp
  have fi: "finite {1, 2 :: nat}" and p: "rd_parked (pcs 1)" using r(2) by simp_all
  have "\<exists>f\<in>{1, 2}. rd_parked (pcs f)" using p by blast
  then have "ch_data c = []" using channel_no_lost_wakeup [OF list_cxx_fifo list_cxx_fifo fi l demo_calls_apart r(1,3)] by blast
  then show ?thesis using r(1) p by blast
qed


text \<open>
  Claim C15. The task queues, whose nodes travel with the fibers, implement lists: every sequence of adds
  and polls on them, in which no fiber is added while it is in a queue (\<open>qops_ok\<close>), returns what the same
  sequence returns on lists, follows no null pointer, and ends in a state that again holds the
  resulting lists.
\<close>

theorem queues_are_fifo:
  assumes "qrep K L s V" and "qops_ok K L calls V"
  shows "\<exists>rs t W. qrun cq_add cq_poll calls s = Some (rs, t) \<and> qrun list_add list_poll calls V = Some (rs, W) \<and> qrep K L t W"
  using assms by (rule cq.qrun_refines)

theorem queues_are_fifo_witness:
  "\<exists>t. qrun cq_add cq_poll [QPoll 0, QAdd 0 1, QPoll 0, QPoll 0, QPoll 0] demo = Some ([Some 1, Some 2, Some 1, None], t)"
proof -
  obtain V where V: "qrep {0} {1, 2} demo V" "\<forall>f\<in>{1, 2}. f \<in> set (V 0) \<longleftrightarrow> \<not> parked f demo"
    using rt_okD(6) [OF sched_okD(4) [OF demo_ok]] by (auto simp: default_queue_def)
  have np: "\<not> parked 1 demo" "\<not> parked 2 demo" by code_simp+
  have "map_option (\<lambda>z. fst z) (cq_poll 0 demo) = Some (Some 1)" by code_simp
  then have "V 0 \<noteq> [] \<and> hd (V 0) = 1"
    using cq_poll_empty [OF V(1), of 0] cq_poll_nonempty [OF V(1), of 0] by (cases "V 0") auto
  moreover have "set (V 0) = {1, 2}" using qrep_sub [OF V(1), of 0] V(2) np by auto
  moreover have "distinct (V 0)" using qrep_distinct [OF V(1), of 0] by simp
  ultimately have v: "V 0 = [1, 2]" by (rule two_list) simp
  have "qops_ok {0} {1, 2} [QPoll 0, QAdd 0 1, QPoll 0, QPoll 0, QPoll 0] V"
    by (simp add: v list_add_def)
  from queues_are_fifo [OF V(1) this] show ?thesis by (auto simp: v list_add_def list_poll_def)
qed

text \<open>
  Claim C16. A switch out of a fiber and back. The fiber calls \<open>swapOut\<close> (state \<open>thF\<close>); then the scheduler runs
(state \<open>thS\<close>: any registers, any memory except for the save area of the fiber) and calls \<open>swapIn\<close>.
The processor goes on in the fiber where it had left off, with the registers, the stack pointer and
the \<open>errno\<close> it had, and \<open>swapOut\<close> returns true. When the fiber, after running on (state \<open>thF'\<close>),
switches out again, the processor goes on in \<open>swapIn\<close> with the registers of the scheduler, and
\<open>swapIn\<close> returns true. The result of \<open>SETJMP\<close> is an \<open>int\<close>: the addresses of the save areas must not
be multiples of 2 to the 32.
\<close>

theorem context_switch_roundtrip:
  fixes ec :: "'u econtext"
  assumes "ec_context ec = None" and "set (jmp_cells (ec_env ec)) \<inter> set (jmp_cells orig) = {}"
    and "(ucast (ec_env ec) :: 32 word) \<noteq> 0" and "(ucast orig :: 32 word) \<noteq> 0"
    and out: "EContext_swapOut labF fresh ec thF = (fl, ec1, th1)"
    and "\<forall>a\<in>set (jmp_cells (ec_env ec)). cp_mem (th_cpu thS) a = cp_mem (th_cpu th1) a"
    and "th_local thS = Some orig"
  shows "\<exists>thR. EContext_swapIn setcontext labS fresh ec1 thS = (Jumps, thR) \<and>
     cp_pc (th_cpu thR) = labF \<and> (\<forall>r\<in>set kept_regs. cp_reg (th_cpu thR) r = cp_reg (th_cpu thF) r) \<and>
     th_errno thR = th_errno thF \<and> swapOut_landed fresh thR = (Returns True, thR) \<and>
     (\<forall>thF'. th_local thF' = Some orig \<longrightarrow>
        (\<forall>a\<in>set (jmp_cells orig). cp_mem (th_cpu thF') a = cp_mem (th_cpu thR) a) \<longrightarrow>
        (\<exists>thE. EContext_swapOut labF' fresh ec1 thF' = (Jumps, ec1\<lparr>ec_errno := th_errno thF'\<rparr>, thE) \<and>
           cp_pc (th_cpu thE) = labS \<and> (\<forall>r\<in>set kept_regs. cp_reg (th_cpu thE) r = cp_reg (th_cpu thS) r) \<and>
           swapIn_landed setcontext ec1 thE = (Returns True, thE)))"
proof -
  have e1: "ec1 = ec\<lparr>ec_errno := th_errno thF\<rparr>" using out by (auto simp: EContext_swapOut_def split: prod.splits)
  have m1: "cp_mem (th_cpu th1) = cp_mem (SETJMP labF (ec_env ec) (th_cpu thF))"
    using out by (auto simp: EContext_swapOut_def swapOut_landed_def getOrignContext_def LONGJMP_simps SETJMP_ret
        split: option.splits)
  have s: "saved_at (ec_env ec) labF (cp_reg (th_cpu thF)) (cp_mem (th_cpu thS))"
    by (rule saved_at_cong [OF SETJMP_saves]) (use assms(6) m1 in simp)
  have o: "fst (getOrignContext fresh thS) = orig" using assms(7) by (simp add: getOrignContext_def)
  obtain thR where R: "EContext_swapIn setcontext labS fresh ec1 thS = (Jumps, thR)"
    "cp_pc (th_cpu thR) = labF" "\<forall>r\<in>set kept_regs. cp_reg (th_cpu thR) r = cp_reg (th_cpu thF) r"
    "cp_reg (th_cpu thR) RAX = ec_env ec" "th_errno thR = th_errno thF"
    "saved_at orig labS (cp_reg (th_cpu thS)) (cp_mem (th_cpu thR))"
    using swapIn_switches [of ec1 labF "cp_reg (th_cpu thF)" thS orig fresh setcontext labS] s o assms(1,2) e1
    by auto
  have l: "swapOut_landed fresh thR = (Returns True, thR)"
    using R(4) assms(3) by (simp add: swapOut_landed_def setjmp_ret_def)
  have b: "\<exists>thE. EContext_swapOut labF' fresh ec1 thF' = (Jumps, ec1\<lparr>ec_errno := th_errno thF'\<rparr>, thE) \<and>
           cp_pc (th_cpu thE) = labS \<and> (\<forall>r\<in>set kept_regs. cp_reg (th_cpu thE) r = cp_reg (th_cpu thS) r) \<and>
           swapIn_landed setcontext ec1 thE = (Returns True, thE)"
    if lo: "th_local thF' = Some orig"
      and m: "\<forall>a\<in>set (jmp_cells orig). cp_mem (th_cpu thF') a = cp_mem (th_cpu thR) a" for thF'
  proof -
    have "set (jmp_cells (ec_env ec1)) \<inter> set (jmp_cells orig) = {}" using assms(2) e1 by simp
    from swapOut_switches [OF lo saved_at_cong [OF R(6) m] this, of labF' fresh] assms(4)
    show ?thesis by (auto simp: swapIn_landed_def setjmp_ret_def)
  qed
  show ?thesis using R(1-3,5) l b by blast
qed

theorem context_switch_roundtrip_witness:
  "\<exists>thR. EContext_swapIn (\<lambda>_ m. m) 300 0 (context0\<lparr>ec_errno := Some 11\<rparr>)
       (thread0\<lparr>th_errno := Some 4, th_cpu := cpu0\<lparr>cp_mem := cp_mem (SETJMP 200 8192 cpu0)\<rparr>\<rparr>) = (Jumps, thR) \<and>
     cp_pc (th_cpu thR) = 200 \<and> cp_reg (th_cpu thR) RSP = 77 \<and> th_errno thR = Some 11"
proof -
  let ?thS = "thread0\<lparr>th_errno := Some 4, th_cpu := cpu0\<lparr>cp_mem := cp_mem (SETJMP 200 8192 cpu0)\<rparr>\<rparr>"
  obtain fl ec1 th1 where o: "EContext_swapOut 200 0 context0 thread0 = (fl, ec1, th1)" by (metis prod_cases3)
  have e: "ec1 = context0\<lparr>ec_errno := Some 11\<rparr>" "cp_mem (th_cpu th1) = cp_mem (SETJMP 200 8192 cpu0)"
    using o by (auto simp: EContext_swapOut_def swapOut_landed_def getOrignContext_def LONGJMP_simps SETJMP_ret
        context0_def thread0_def)
  have h: "ec_context context0 = None" "set (jmp_cells (ec_env context0)) \<inter> set (jmp_cells 4096) = {}"
    "(ucast (ec_env context0) :: 32 word) \<noteq> 0" "(ucast (4096 :: 64 word) :: 32 word) \<noteq> 0"
    using cells_disjoint by (simp_all add: context0_def)
  have m: "\<forall>a\<in>set (jmp_cells (ec_env context0)). cp_mem (th_cpu ?thS) a = cp_mem (th_cpu th1) a" "th_local ?thS = Some 4096"
    using e(2) by (simp_all add: thread0_def)
  obtain thR where "EContext_swapIn (\<lambda>_ m. m) 300 0 ec1 ?thS = (Jumps, thR)" "cp_pc (th_cpu thR) = 200"
      "\<forall>r\<in>set kept_regs. cp_reg (th_cpu thR) r = cp_reg (th_cpu thread0) r" "th_errno thR = th_errno thread0"
    using context_switch_roundtrip [OF h o m, of "\<lambda>_ m. m" 300 0] by blast
  then show ?thesis unfolding e(1) by (auto simp: kept_regs_def thread0_def cpu0_def)
qed

text \<open>
  Claim C17. A permit that comes between the \<open>wait\<close> of a fiber and the \<open>swapOut\<close> of its scheduler lets the fiber go on,
but leaves it in the state BLOCKED with its blocker set. The course of events is written out: fiber \<open>f\<close> of thread
\<open>t\<close> waits, thread \<open>u\<close> wakes, \<open>t\<close> takes the permit, polls \<open>f\<close> again and runs it, and \<open>f\<close> yields. It is then not put
back into its task queue, which is empty, but waits on the blocker, which has no permit: one \<open>wait\<close> and
one \<open>wakeUp\<close> leave a fiber behind that waits. The witness reaches this from the start of \<open>join(int)\<close>.
\<close>

theorem yield_waits_after_late_permit:
  assumes pcs: "wd_pc w t = At (Run f)" "wd_pc w u = At Outside" "t < st_threads S"
    and queues: "qrep (stub_queue ` {..<st_threads S}) (st_fibers S) (wd_sched w) V" "V (stub_queue t) = []"
    and out: "f \<in> st_fibers S" "\<forall>j < st_threads S. f \<notin> set (V (stub_queue j))"
    and quiet: "\<not> sc_interrupted (wd_sched w)" "iw_waiters (sc_waiters (wd_sched w) (stub_waiter t)) \<le> 0"
    and blocker: "bl_wakeup (sc_blockers (wd_sched w) bp) = 0" "0 < bl_limit (sc_blockers (wd_sched w) bp)"
      "cxq_poll Q (bl_waitQueue (sc_blockers (wd_sched w) bp)) = (None, q)"
  shows "\<exists>w'. trace_run S Q [(t, CallWait bp), (u, CallWakeUp bp), (u, Go),
        (t, Go), (t, Go), (t, Go), (t, Go), (t, Go), (t, Go), (t, Yield), (t, Go)] w = Some w' \<and>
     wd_pc w' t = At Top \<and> wd_pc w' u = At Outside \<and> fb_state (rt_fibers (wd_sched w') f) = BLOCKED \<and>
     bl_wakeup (sc_blockers (wd_sched w') bp) = 0 \<and>
     bl_waitQueue (sc_blockers (wd_sched w') bp) = cxq_add Q (WFiber f) q \<and>
     qrep (stub_queue ` {..<st_threads S}) (st_fibers S) (wd_sched w') V"
  using late_permit_parks [OF assms] by blast

theorem yield_waits_after_late_permit_witness:
  "\<exists>w w'. reaches two list_cxx two0 w \<and> wd_pc w 0 = At (Run 1) \<and>
     trace_run two list_cxx [(0, CallWait 7), (5, CallWakeUp 7), (5, Go),
        (0, Go), (0, Go), (0, Go), (0, Go), (0, Go), (0, Go), (0, Yield), (0, Go)] w = Some w' \<and>
     fb_state (rt_fibers (wd_sched w') 1) = BLOCKED \<and> bl_waitQueue (sc_blockers (wd_sched w') 7) = [WFiber 1] \<and>
     bl_wakeup (sc_blockers (wd_sched w') 7) = 0"
proof -
  obtain w V where w: "reaches two list_cxx two0 w" "wd_pc w 0 = At (Run 1)" "wd_pc w 5 = At Outside"
    and V: "qrep (stub_queue ` {..<st_threads two}) (st_fibers two) (wd_sched w) V" "V (stub_queue 0) = []"
      "\<forall>j < st_threads two. 1 \<notin> set (V (stub_queue j))"
    and s: "\<not> sc_interrupted (wd_sched w)" "iw_waiters (sc_waiters (wd_sched w) (stub_waiter 0)) \<le> 0"
      "bl_wakeup (sc_blockers (wd_sched w) 7) = 0" "0 < bl_limit (sc_blockers (wd_sched w) 7)"
      "cxq_poll list_cxx (bl_waitQueue (sc_blockers (wd_sched w) 7)) = (None, [])" using quiet_world by blast
  have t: "0 < st_threads two" "1 \<in> st_fibers two" by (simp_all add: two_def)
  from yield_waits_after_late_permit [OF w(2,3) t(1) V(1,2) t(2) V(3) s] w(1,2) show ?thesis
    by (auto simp: list_cxx_def)
qed

text \<open>
  Claim C18. \<open>schedule\<close> can overlook a thread that is about to wait: it has found its queue empty and not yet set
\<open>hungIoWaiter\<close>. The fiber is added, null is read, the thread goes to wait, and nothing is written to its
pipe: the fiber stays in the queue until the timeout of 3 seconds or some other event.
\<close>

theorem scheduled_fiber_overlooked:
  assumes "wd_pc w u = In (SchedAdd f j) l" and "wd_pc w j = At Hang" and "u \<noteq> j" and "sc_hung (wd_sched w) j = None"
  shows "\<exists>w'. trace_run S Q [(u, Go), (u, Go), (j, Go)] w = Some w' \<and> wd_pc w' u = At l \<and> wd_pc w' j = At Wait \<and>
     cq_tail (rt_queues (wd_sched w') (stub_queue j)) = pk (wd_sched w') f \<and> rt_signals (wd_sched w') = rt_signals (wd_sched w)"
proof -
  have "sc_hung (cq_add q f (wd_sched w)) = sc_hung (wd_sched w)" for q by (rule more_eq(3)) simp
  then show ?thesis using assms by (simp add: thread_step_def cq_add_fields)
qed

theorem scheduled_fiber_overlooked_witness:
  "\<exists>w w'. reaches two list_cxx two0 w \<and> trace_run two list_cxx [(5, Go), (5, Go), (0, Go)] w = Some w' \<and>
     wd_pc w' 0 = At Wait \<and> rt_signals (wd_sched w') (stub_waiter 0) = 0"
proof -
  obtain w where w: "reaches two list_cxx two0 w" "wd_pc w 5 = In (SchedAdd 2 0) Outside" "wd_pc w 0 = At Hang"
    "sc_hung (wd_sched w) 0 = None" "rt_signals (wd_sched w) (stub_waiter 0) = 0" using overlooked_world by blast
  show ?thesis using scheduled_fiber_overlooked [OF w(2,3) _ w(4), of two list_cxx] w(1,5) by auto
qed

text \<open>
  Claim C19. \<open>EFileContextManager\<close> implements a map from descriptors to contexts. A successful \<open>get(fd)\<close>
returns the context that the map has for \<open>fd\<close>, or adds a new one of that descriptor; nothing else
changes, and the lock is free again. \<open>remove(fd)\<close> then deletes exactly that entry.
\<close>

theorem file_table_is_map:
  assumes "align_spec up" and "fcm_ok up m" and "EFileContextManager_get S up fd m k = (FOk c, m', k')"
  shows "fcm_ok up m' \<and> fcm_map up m' = (fcm_map up m)(fd \<mapsto> c) \<and> fcm_map up m fd \<in> {None, Some c} \<and>
     fc_fd (fm_ctx m' c) = fd \<and> fm_locked m' = fm_locked m \<and>
     (\<exists>m'' k''. EFileContextManager_remove S up cur held fd m' k' = (FOk (), m'', k'') \<and> fcm_ok up m'' \<and>
        fcm_map up m'' = (fcm_map up m)(fd := None) \<and> fm_locked m'' = fm_locked m)"
proof -
  note g = get_ok [OF assms]
  note a = get_ok_args [OF assms]
  from remove_ok [OF assms(1) g(1) a(3), of S cur held k'] g(3) a(1)
  obtain m'' k'' where r: "EFileContextManager_remove S up cur held fd m' k' = (FOk (), m'', k'')" "fcm_ok up m''"
    "fcm_map up m'' = (fcm_map up m')(fd := None)" "fm_locked m'' = fm_locked m'" by auto
  have mp: "fcm_map up m'' = (fcm_map up m)(fd := None)" unfolding r(3) g(2) by simp
  have "fcm_map up m fd \<in> {None, Some c}" using g(4) by (cases "fcm_map up m fd") auto
  moreover have "fcm_map up m' fd = Some c" unfolding g(2) by simp
  from fcm_okD(2) [OF g(1) this] have "fc_fd (fm_ctx m' c) = fd" ..
  ultimately show ?thesis using g(1-3) r(1,2,4) mp by (intro conjI exI [of _ m''] exI [of _ k'']) simp_all
qed

theorem file_table_is_map_witness:
  "\<exists>m k. EFileContextManager_get hk_sys hk_up 5 hk_table hk0 = (FOk 0, m, k) \<and> fcm_map hk_up m = [5 \<mapsto> 0] \<and>
     (\<exists>m' k'. EFileContextManager_remove hk_sys hk_up None [] 5 m k = (FOk (), m', k') \<and>
        fcm_map hk_up m' = Map.empty)"
proof -
  obtain m where m: "EFileContextManager_get hk_sys hk_up 5 hk_table hk0 =
      (FOk 0, m, hk0\<lparr>hk_flags := (hk_flags hk0)(5 := 2050)\<rparr>)" using hk0_get by blast
  from file_table_is_map [OF hk_align hk_table_ok(1) m, of None "[]"] m
  show ?thesis by (auto simp: hk_table_ok)
qed

text \<open>
  Claim C20. \<open>poll\<close> in a fiber, when the first try finds nothing ready. The descriptors are pairwise different, each is in the
range of the table, asks for \<open>POLLIN\<close> or \<open>POLLOUT\<close> and can be registered with the kernel (\<open>poll_args\<close>), and none has been
registered before; the findings on negative, refused and shared descriptors are outside of this.
Then every descriptor is registered for its fiber with exactly the wanted events, the other registrations are unchanged, the fiber is
\<open>WAITING\<close>, and there is a timer, due at most \<open>timeout\<close> later, exactly if the timeout is positive.
\<close>

theorem poll_parks:
  assumes "os_ok os interest clk" and "hw_ok interest F w" and "hw_fiber w \<in> F"
    and "\<not> bypass w" and "timeout \<noteq> 0" and "fds \<noteq> []"
    and "poll_args os (hw_waiter w) fds" and "\<forall>pf\<in>set fds. ev_mask (iw_poll (hw_waiter w)) (pf_fd pf) = 0"
    and "poll_f fds 0 (hw_kernel w) = ((0, err, fds), k1)" and "interest k1 = interest (hw_kernel w)"
  shows "\<exists>tid w'. hook_poll_start os poll_f fds timeout w = Some (PollPark tid, w') \<and> hw_ok interest F w' \<and>
     polled (hw_fiber w) (hw_waiter w') fds \<and> hw_fiber w' = hw_fiber w \<and>
     fb_state (rt_fibers (hw_rt w') (hw_fiber w)) = WAITING \<and>
     same_events (pf_fd ` set fds) (hw_waiter w) (hw_waiter w') \<and>
     (if timeout > 0
      then \<not> fb_isIoWaitTimeout (rt_fibers (hw_rt w') (hw_fiber w)) \<and>
        (\<exists>te. pl_timeEvents (iw_poll (hw_waiter w')) = te # pl_timeEvents (iw_poll (hw_waiter w)) \<and>
           te_id te = tid \<and> te_clientData te = hw_fiber w \<and> te_millis te \<le> clk (hw_kernel w') + timeout)
      else tid = -1 \<and> pl_timeEvents (iw_poll (hw_waiter w')) = pl_timeEvents (iw_poll (hw_waiter w)))"
  by (rule hook_poll_parks [where poll_f = poll_f and fds = fds and interest = interest, OF assms])

theorem poll_parks_witness:
  "\<exists>tid w'. hook_poll_start hk_os hk_poll two_fds 100 hw0 = Some (PollPark tid, w') \<and>
     polled 1 (hw_waiter w') two_fds \<and> \<not> fb_isIoWaitTimeout (rt_fibers (hw_rt w') 1)"
proof -
  have f: "hw_fiber hw0 \<in> {1}" "(100 :: int) \<noteq> 0" by simp_all
  have p: "hk_poll two_fds 0 (hw_kernel hw0) = ((0, 0, two_fds), hk0)" using two_fds_args(3) by simp
  have i: "hk_interest hk0 = hk_interest (hw_kernel hw0)" by simp
  from poll_parks [where poll_f = hk_poll and fds = two_fds and interest = hk_interest, OF hk_os_ok hw0_ok f(1) hw0_simps(1) f(2) two_fds_args(4,1,2) p i]
  show ?thesis by auto
qed

text \<open>
  Claim C21. \<open>poll\<close> after the wait, on pairwise different descriptors that are registered for the fiber (\<open>polled\<close>). If the timer woke the fiber, the result is 0 and the array is unchanged.
Otherwise \<open>revents\<close> of every descriptor are the events that were asked for: the hook reads the
registered events, so that it also reports descriptors on which nothing has happened. In both cases
all descriptors are deregistered and the other registrations are unchanged.
\<close>

theorem poll_reports_all:
  assumes "epoll_spec os interest" and "hw_ok interest F w"
    and "polled f (hw_waiter w) fds" and "distinct (map pf_fd fds)"
  shows "\<exists>w'. hook_poll_resume os fds tid w = Some
      (if fb_isIoWaitTimeout (rt_fibers (hw_rt w) (hw_fiber w)) then (0, fds)
       else (int (length [pf\<leftarrow>fds. pf_events pf AND (POLLIN OR POLLOUT) \<noteq> 0]),
             map (\<lambda>pf. pf\<lparr>pf_revents := pf_events pf AND (POLLIN OR POLLOUT)\<rparr>) fds), w') \<and>
     hw_ok interest F w' \<and> (\<forall>pf\<in>set fds. ev_mask (iw_poll (hw_waiter w')) (pf_fd pf) = 0) \<and>
     same_events (pf_fd ` set fds) (hw_waiter w) (hw_waiter w')"
proof -
  have m: "map (\<lambda>pf. pf\<lparr>pf_revents := pf_events pf AND (POLLIN OR POLLOUT)\<rparr>) fds = map poll_reported fds"
    by (simp add: poll_reported_def)
  have o: "(POLLIN OR POLLOUT) = 5" by simp
  show ?thesis unfolding m unfolding o by (rule hook_poll_resume_ok [OF assms])
qed

theorem poll_reports_all_witness:
  "\<exists>tid w1 w2. hook_poll_start hk_os hk_poll two_fds 100 hw0 = Some (PollPark tid, w1) \<and>
     hook_poll_resume hk_os two_fds tid w1 =
       Some ((2, [\<lparr>pf_fd = 5, pf_events = 1, pf_revents = 1\<rparr>, \<lparr>pf_fd = 7, pf_events = 4, pf_revents = 4\<rparr>]), w2)"
proof -
  have f: "hw_fiber hw0 \<in> {1}" "(100 :: int) \<noteq> 0" by simp_all
  have p: "hk_poll two_fds 0 (hw_kernel hw0) = ((0, 0, two_fds), hk0)" using two_fds_args(3) by simp
  have i: "hk_interest hk0 = hk_interest (hw_kernel hw0)" by simp
  from hook_poll_parks [where poll_f = hk_poll and fds = two_fds and interest = hk_interest, OF hk_os_ok hw0_ok f(1) hw0_simps(1) f(2) two_fds_args(4,1,2) p i]
  obtain tid w1 where st: "hook_poll_start hk_os hk_poll two_fds 100 hw0 = Some (PollPark tid, w1)"
    and w1: "hw_ok hk_interest {1} w1" "polled 1 (hw_waiter w1) two_fds" "hw_fiber w1 = 1"
    "\<not> fb_isIoWaitTimeout (rt_fibers (hw_rt w1) 1)" by auto
  have d: "distinct (map pf_fd two_fds)" by (simp add: two_fds_def)
  from poll_reports_all [OF os_epoll [OF hk_os_ok] w1(1,2) d, of tid] w1(3,4)
  show ?thesis using st by (auto simp: two_fds_def)
qed

text \<open>
  Claim C22. \<open>sendfile\<close> on a blocking socket, with an original that takes any part of the bytes at each call: when the hook
returns or parks, what has been sent is one piece of the file that starts at the offset, with nothing
twice and nothing left out; the offset that it returns or keeps is the end of the piece, and a
positive result means that all bytes have been sent.
\<close>

theorem sendfile_sends_piece:
  assumes "hooked_fd S fd w" "hw_get S up fd w = (FOk c, w1)" "\<not> fc_userNonBlocked (hw_ctx c w1)"
    and "waiting_quiet out (aeApiAddEvent os) os poll_f" "poll_spec poll_f" "sends_from out src sf"
    and "0 \<le> off" "0 < cnt"
    and "hook_sendfile S up os poll_f sf orig fd (Some off) cnt w = Some (FOk res, w')"
  shows "case res of
      SendDone r e off' \<Rightarrow> off \<le> off' \<and> off' \<le> off + cnt \<and> (0 < r \<longrightarrow> off' = off + cnt) \<and>
        out (hw_kernel w') = out (hw_kernel w1) @ piece src off (off' - off)
    | SendPark tid off' cnt' \<Rightarrow> off \<le> off' \<and> 0 < cnt' \<and> off' + cnt' = off + cnt \<and>
        out (hw_kernel w') = out (hw_kernel w1) @ piece src off (off' - off)
    | SendSleep t \<Rightarrow> True"
proof -
  have "sendfile_loop os poll_f sf fd (if fc_sendTimeout (hw_ctx c w1) = 0 then -1 else fc_sendTimeout (hw_ctx c w1))
      None off cnt w1 = Some (FOk res, w')"
    using assms(9) unfolding hook_sendfile_def by (simp add: assms(1-3))
  from sendfile_loop_account [OF assms(4-6) this assms(7,8)] show ?thesis by (simp add: send_account_def)
qed

theorem sendfile_sends_piece_witness:
  "\<exists>w. hook_sendfile mk_sys hk_up mk_os mk_poll mk_sendfile (\<lambda>off n k. ((0, 0, 0), k)) 5 (Some 1) 6 mw0 =
      Some (FOk (SendDone 3 0 7), w) \<and> mk_out (hw_kernel w) = [11, 12, 13, 14, 15, 16]"
proof -
  obtain m where m: "hw_get mk_sys hk_up 5 mw0 = (FOk 0, mw0\<lparr>hw_files := m\<rparr>)"
    "fm_ctx m 0 = \<lparr>fc_fd = 5, fc_sysNonBlocked = True, fc_userNonBlocked = False, fc_recvTimeout = 3000,
       fc_sendTimeout = 0\<rparr>" using mw0_get by blast
  obtain w where w: "hook_sendfile mk_sys hk_up mk_os mk_poll mk_sendfile (\<lambda>off n k. ((0, 0, 0), k)) 5 (Some 1) 6 mw0 =
      Some (FOk (SendDone 3 0 7), w)" using mk_send_run by blast
  have "mk_out (hw_kernel w) = mk_out mk0 @ piece mk_file 1 6"
    using sendfile_sends_piece [OF mw0_simps(3) m(1) _ mk_quiet(1) mk_poll_spec mk_sends _ _ w]
    by (simp add: hw_ctx_def m(2))
  then show ?thesis using w by (simp add: mk0_def piece_def mk_file_def)
qed

text \<open>
  Claim C23. \<open>kevent\<close> on macOS, when it has to wait on a kqueue whose descriptor is in range, not watched yet, and accepted by the
kernel: the fiber is WAITING, the kqueue is registered for reading and a timer with an id of its own is set.
When the fiber continues, with any list of timers whose live ids differ (its own timer may be live, fired or
gone) and the rest of the waiter and the watches as they were left, the kernel watches what it watched before the call,
the masks and the number of waiters are as before, the live timers are those of the list without its own, and the
result is that of the original without waiting, or -1 with \<open>EINVAL\<close> when the wait has timed out.
\<close>

theorem kevent_roundtrip:
  assumes spec: "kqueue_spec K reg" and un: "\<forall>k. reg (snd (os_gettimeofday os k)) = reg k"
      "\<forall>c r t k. reg (snd (kevent_f c r t k)) = reg k"
    and wf: "poll_wf (iw_poll (hw_waiter w))" "timers_wf (iw_poll (hw_waiter w))"
      "\<forall>fd. 0 \<le> fd \<longrightarrow> fd < pl_setsize (iw_poll (hw_waiter w)) \<longrightarrow>
         kq_watch reg (hw_kernel w) fd = ev_mask (iw_poll (hw_waiter w)) fd"
    and kq: "0 \<le> kq" "kq < pl_setsize (iw_poll (hw_waiter w))" "ev_mask (iw_poll (hw_waiter w)) kq = 0"
      "\<forall>k. fst (kq_change K kq EVFILT_READ EV_ADD k) \<noteq> -1"
    and waits: "\<not> bypass w" "timeout \<noteq> Some (0, 0)" "room \<noteq> None" "room \<noteq> Some 0"
  shows "\<exists>tid w1. hook_kevent_start (kq_ApiAddEvent K) os kevent_f kq changes room timeout w = Some (KeventPark tid, w1) \<and>
    fb_state (rt_fibers (hw_rt w1) (hw_fiber w)) = WAITING \<and>
    kq_watch reg (hw_kernel w1) = (kq_watch reg (hw_kernel w))(kq := ECO_POLL_READABLE) \<and>
    (\<exists>te. pl_timeEvents (iw_poll (hw_waiter w1)) = te # pl_timeEvents (iw_poll (hw_waiter w)) \<and> te_id te = tid \<and>
       te_clientData te = hw_fiber w) \<and>
    tid \<noteq> -1 \<and> tid \<notin> set (live_ids (pl_timeEvents (iw_poll (hw_waiter w)))) \<and>
    (\<forall>w2 tes. hw_waiter w2 = (hw_waiter w1)\<lparr>iw_poll := (iw_poll (hw_waiter w1))\<lparr>pl_timeEvents := tes\<rparr>\<rparr> \<and> distinct (live_ids tes) \<and>
        reg (hw_kernel w2) = reg (hw_kernel w1) \<longrightarrow>
      (\<exists>r w3. hook_kevent_resume (kq_ApiDelEvent K) kevent_f kq room tid w2 = Some
          (if fb_isIoWaitTimeout (rt_fibers (hw_rt w2) (hw_fiber w2)) then Inl EINVAL else Inr r, w3) \<and>
        (\<exists>k. r = fst (kevent_f [] room (Some (0, 0)) k)) \<and>
        kq_watch reg (hw_kernel w3) = kq_watch reg (hw_kernel w) \<and>
        (\<forall>fd. 0 \<le> fd \<longrightarrow> ev_mask (iw_poll (hw_waiter w3)) fd = ev_mask (iw_poll (hw_waiter w)) fd) \<and>
        live_ids (pl_timeEvents (iw_poll (hw_waiter w3))) = [j\<leftarrow>live_ids tes. j \<noteq> tid] \<and>
        iw_waiters (hw_waiter w3) = iw_waiters (hw_waiter w)))"
proof -
  have fits: "wkq.fits reg K w" using wf spec by (simp add: wkq.fits_def kq.agree_def kq_inv_def)
  have unr: "wkq.unrelated reg K (os_gettimeofday os)" "\<forall>c r t. wkq.unrelated reg K (kevent_f c r t)"
    using un by (auto simp: wkq.unrelated_def kq_inv_def kq_watch_def fun_eq_iff)
  have acc: "\<forall>k. fst (kq_ApiAddEvent K (iw_poll (hw_waiter w)) kq 1 k) \<noteq> -1"
    using kq(4) by (simp add: kq_ApiAddEvent_def split: prod.splits) (metis fst_conv)
  from wkq.kevent_parks [OF fits kq(1-3) acc unr waits, where changes = changes] obtain tid w1 where
    p: "hook_kevent_start (kq_ApiAddEvent K) os kevent_f kq changes room timeout w = Some (KeventPark tid, w1)"
      "wkq.fits reg K w1" "waits_on (hw_fiber w) (hw_waiter w1) kq 1" "same_events {kq} (hw_waiter w) (hw_waiter w1)"
      "kq_watch reg (hw_kernel w1) = (kq_watch reg (hw_kernel w))(kq := 1)"
      "fb_state (rt_fibers (hw_rt w1) (hw_fiber w)) = WAITING"
      "iw_waiters (hw_waiter w1) = iw_waiters (hw_waiter w) + 2" "tid = pl_timeEventNextId (iw_poll (hw_waiter w))"
      "\<exists>te. pl_timeEvents (iw_poll (hw_waiter w1)) = te # pl_timeEvents (iw_poll (hw_waiter w)) \<and> te_id te = tid \<and>
         te_clientData te = hw_fiber w"
    by blast
  have new: "tid \<noteq> -1" "tid \<notin> set (live_ids (pl_timeEvents (iw_poll (hw_waiter w))))"
    using wf(2) unfolding p(8) timers_wf_def live_ids_def by auto
  have "\<exists>r w3. hook_kevent_resume (kq_ApiDelEvent K) kevent_f kq room tid w2 = Some
          (if fb_isIoWaitTimeout (rt_fibers (hw_rt w2) (hw_fiber w2)) then Inl EINVAL else Inr r, w3) \<and>
        (\<exists>k. r = fst (kevent_f [] room (Some (0, 0)) k)) \<and>
        kq_watch reg (hw_kernel w3) = kq_watch reg (hw_kernel w) \<and>
        (\<forall>fd. 0 \<le> fd \<longrightarrow> ev_mask (iw_poll (hw_waiter w3)) fd = ev_mask (iw_poll (hw_waiter w)) fd) \<and>
        live_ids (pl_timeEvents (iw_poll (hw_waiter w3))) = [j\<leftarrow>live_ids tes. j \<noteq> tid] \<and>
        iw_waiters (hw_waiter w3) = iw_waiters (hw_waiter w)"
    if w2: "hw_waiter w2 = (hw_waiter w1)\<lparr>iw_poll := (iw_poll (hw_waiter w1))\<lparr>pl_timeEvents := tes\<rparr>\<rparr>"
      "reg (hw_kernel w2) = reg (hw_kernel w1)" and d: "distinct (live_ids tes)" for w2 tes
  proof -
    have same: "same_events {} (hw_waiter w1) (hw_waiter w2)" by (simp add: w2(1) same_events_def)
    have k2: "kq_watch reg (hw_kernel w2) = kq_watch reg (hw_kernel w1)" by (simp add: kq_watch_def fun_eq_iff w2(2))
    have f2: "wkq.fits reg K w2" using p(2) k2 by (simp add: wkq.fits_def kq.agree_def kq_inv_def poll_wf_def w2(1))
    have "waits_on (hw_fiber w) (hw_waiter w2) kq 1" using waits_on_same [OF same, of kq] p(3) by simp
    from wkq.kevent_resumes [OF f2 this unr(2), of room tid] obtain r w3 where
      r: "hook_kevent_resume (kq_ApiDelEvent K) kevent_f kq room tid w2 = Some
          (if fb_isIoWaitTimeout (rt_fibers (hw_rt w2) (hw_fiber w2)) then Inl EINVAL else Inr r, w3)"
        "\<exists>k. r = fst (kevent_f [] room (Some (0, 0)) k)" "ev_mask (iw_poll (hw_waiter w3)) kq = 0"
        "same_events {kq} (hw_waiter w2) (hw_waiter w3)" "kq_watch reg (hw_kernel w3) = (kq_watch reg (hw_kernel w2))(kq := 0)"
        "pl_timeEvents (iw_poll (hw_waiter w3)) = snd (mark_deleted tid (pl_timeEvents (iw_poll (hw_waiter w2))))"
        "iw_waiters (hw_waiter w3) = iw_waiters (hw_waiter w2) - 2" by blast
    have l: "live_ids (pl_timeEvents (iw_poll (hw_waiter w3))) = [j\<leftarrow>live_ids tes. j \<noteq> tid]"
      unfolding r(6) w2(1) using mark_deleted_spec(2) [OF d new(1)] by simp
    have "kq_watch reg (hw_kernel w) kq = 0" using wf(3) kq by simp
    then have "kq_watch reg (hw_kernel w3) = kq_watch reg (hw_kernel w)" unfolding r(5) k2 p(5) by auto
    moreover have "ev_mask (iw_poll (hw_waiter w3)) fd = ev_mask (iw_poll (hw_waiter w)) fd" if "0 \<le> fd" for fd
      using same_events_trans [OF same_events_trans [OF p(4) same] r(4)] r(3) kq(3) that
      by (cases "fd = kq") (simp_all add: same_events_def)
    ultimately show ?thesis using r(1,2,7) p(7) w2(1) l by (intro exI [of _ r] exI [of _ w3]) simp
  qed
  then show ?thesis using p(1,5,6,9) new by blast
qed

theorem kevent_roundtrip_witness:
  "\<exists>tid w1 r w3. hook_kevent_start (kq_ApiAddEvent mk_kq) mk_os mk_kevent 7 [1] (Some 4) (Some (2, 0)) mw0 =
      Some (KeventPark tid, w1) \<and> kq_watch mk_reg (hw_kernel w1) 7 = 1 \<and>
    tid \<in> set (live_ids (pl_timeEvents (iw_poll (hw_waiter w1)))) \<and>
    hook_kevent_resume (kq_ApiDelEvent mk_kq) mk_kevent 7 (Some 4) tid w1 = Some (r, w3) \<and>
    kq_watch mk_reg (hw_kernel w3) 7 = 0 \<and> live_ids (pl_timeEvents (iw_poll (hw_waiter w3))) = []"
proof -
  have u: "\<forall>k. mk_reg (snd (os_gettimeofday mk_os k)) = mk_reg k" "\<forall>c r t k. mk_reg (snd (mk_kevent c r t k)) = mk_reg k"
    by (simp_all add: mk_os_def mk_kevent_def)
  have t: "pl_timeEvents (iw_poll (hw_waiter mw0)) = []" by (simp add: mw0_def eco_poll_create_def)
  then have wf: "timers_wf (iw_poll (hw_waiter mw0))"
    by (simp add: timers_wf_def live_ids_def) (simp add: mw0_def eco_poll_create_def)
  have q: "(0 :: int) \<le> 7" "7 < pl_setsize (iw_poll (hw_waiter mw0))" "ev_mask (iw_poll (hw_waiter mw0)) 7 = 0"
    "\<forall>k. fst (kq_change mk_kq 7 EVFILT_READ EV_ADD k) \<noteq> -1"
    by (simp_all add: mw0_def eco_poll_create_def mk_kq_def)
  have z: "kq_watch mk_reg (hw_kernel mw0) 7 = 0" by (simp add: kq_watch_def mk_reg_def mk0_def)
  have n: "Some (2, 0) \<noteq> Some (0 :: int, 0 :: int)" "Some (4 :: int) \<noteq> None" "Some (4 :: int) \<noteq> Some 0" by simp_all
  from kevent_roundtrip [OF mk_kq_spec u mw0_fits(1) wf mw0_fits(2) q mw0_simps(1) n, of "[1]"] obtain tid w1 te where
    w1: "hook_kevent_start (kq_ApiAddEvent mk_kq) mk_os mk_kevent 7 [1] (Some 4) (Some (2, 0)) mw0 = Some (KeventPark tid, w1)"
      "kq_watch mk_reg (hw_kernel w1) = (kq_watch mk_reg (hw_kernel mw0))(7 := 1)"
      "pl_timeEvents (iw_poll (hw_waiter w1)) = [te]" "te_id te = tid" "tid \<noteq> -1"
    and resume: "\<And>(w2 :: (mk, unit) hw) tes. hw_waiter w2 = (hw_waiter w1)\<lparr>iw_poll := (iw_poll (hw_waiter w1))\<lparr>pl_timeEvents := tes\<rparr>\<rparr> \<Longrightarrow>
      distinct (live_ids tes) \<Longrightarrow> mk_reg (hw_kernel w2) = mk_reg (hw_kernel w1) \<Longrightarrow>
      \<exists>r w3. hook_kevent_resume (kq_ApiDelEvent mk_kq) mk_kevent 7 (Some 4) tid w2 = Some (r, w3) \<and>
         kq_watch mk_reg (hw_kernel w3) = kq_watch mk_reg (hw_kernel mw0) \<and>
         live_ids (pl_timeEvents (iw_poll (hw_waiter w3))) = [j\<leftarrow>live_ids tes. j \<noteq> tid]"
    unfolding t by blast
  have l: "live_ids [te] = [tid]" using w1(4,5) by (simp add: live_ids_def)
  show ?thesis using w1(1-3) resume [of w1 "[te]"] z l by fastforce
qed

text \<open>
  Claim C24. A read or write hook in a fiber, on a hooked descriptor that the user has not made non-blocking, never fails with
\<open>EAGAIN\<close>, although the descriptor is non-blocking in the kernel: not before its first pause, and not when
it goes on after a pause, in whatever state \<open>v\<close> the fiber then finds its thread. (\<open>poll_spec\<close> says
of \<open>poll(2)\<close> that it does not fail with \<open>EAGAIN\<close>.)
\<close>

theorem blocking_io_never_eagain:
  assumes "poll_spec poll_f" and "hooked_fd S fd w" and "hw_get S up fd w = (FOk c, w1)"
    and "\<not> fc_userNonBlocked (hw_ctx c w1)"
  shows "\<not> (\<exists>w'. comm_io_on_fiber S up os poll_f acc fn event fd w = Some (FOk (IoDone (-1) EAGAIN), w')) \<and>
    \<not> (\<exists>v'. comm_io_resume S os poll_f acc fn event fd ms tid v = Some (FOk (IoDone (-1) EAGAIN), v'))"
  using comm_io_no_eagain [OF assms] comm_io_resume_no_eagain [OF assms(1)] by blast

theorem blocking_io_never_eagain_witness:
  "\<not> (\<exists>w'. comm_io_on_fiber hk_sys hk_up hk_os hk_poll False (hk_call 5) POLLIN 5 (hw_at [5]) =
       Some (FOk (IoDone (-1) EAGAIN), w')) \<and>
   (\<exists>w'. comm_io_on_fiber hk_sys hk_up hk_os hk_poll False (hk_call 5) POLLIN 5 (hw_at [5]) = Some (FOk (IoDone 7 0), w')) \<and>
   (\<exists>tid w1 w2. hook_poll_start hk_os hk_poll [io_pollfd 5 POLLIN] 100 hw0 = Some (PollPark tid, w1) \<and>
     comm_io_resume hk_sys hk_os hk_poll False (\<lambda>k. ((7, 0), k)) POLLIN 5 100 tid w1 = Some (FOk (IoDone 7 0), w2) \<and>
     \<not> (\<exists>v'. comm_io_resume hk_sys hk_os hk_poll False (\<lambda>k. ((7, 0), k)) POLLIN 5 100 tid w1 =
       Some (FOk (IoDone (-1) EAGAIN), v')))"
proof -
  obtain m where m: "hw_get hk_sys hk_up 5 (hw_at [5]) =
      (FOk 0, hw0\<lparr>hw_files := m, hw_kernel := hk0\<lparr>hk_ready := [5], hk_flags := (hk_flags hk0)(5 := 2050)\<rparr>\<rparr>)"
    "fm_ctx m 0 = \<lparr>fc_fd = 5, fc_sysNonBlocked = True, fc_userNonBlocked = False, fc_recvTimeout = 3000,
       fc_sendTimeout = 0\<rparr>" using hw_at_get [of "[5]"] by blast
  have n: "\<not> fc_userNonBlocked (hw_ctx 0 (hw0\<lparr>hw_files := m, hw_kernel := k\<rparr>))" for k
    by (simp add: hw_ctx_def m(2))
  note never = blocking_io_never_eagain [OF hk_poll_spec hw_at_simps(2) m(1) n]
  show ?thesis using never hw_at_read hw0_reads [of False] by blast
qed

text \<open>
  Claim C25. The two variants of \<open>comm_io_on_fiber\<close>, which put the reset of an accepted socket in different
places, are equivalent: up to the first pause always, and after it if the user has not switched the
descriptor to the non-blocking mode meanwhile, that is, if the context of the descriptor is still in the blocking
mode in the state \<open>v\<close> in which the fiber goes on. (The variant without \<open>CPP11_SUPPORT\<close> asks the context again
after each call.)
\<close>

theorem io_variants_agree:
  assumes "poll_spec poll_f" and "\<not> fc_userNonBlocked (hw_ctx c v)"
  shows "comm_io_va S up os poll_f acc fn event fd w = comm_io_on_fiber S up os poll_f acc fn event fd w \<and>
     comm_io_va_resume S os poll_f c acc fn event fd ms tid v = comm_io_resume S os poll_f acc fn event fd ms tid v"
  using comm_io_variants [OF assms(1)] comm_io_resume_variants [OF assms] by (intro conjI)

theorem io_variants_agree_witness:
  "(\<exists>w. comm_io_va hk_sys hk_up hk_os hk_poll True (hk_call 5) POLLIN 5 (hw_at [5]) =
       comm_io_on_fiber hk_sys hk_up hk_os hk_poll True (hk_call 5) POLLIN 5 (hw_at [5])) \<and>
   (\<exists>tid w1 w2. hook_poll_start hk_os hk_poll [io_pollfd 5 POLLIN] 100 hw0 = Some (PollPark tid, w1) \<and>
     comm_io_va_resume hk_sys hk_os hk_poll 0 True (\<lambda>k. ((7, 0), k)) POLLIN 5 100 tid w1 = Some (FOk (IoDone 7 0), w2))"
proof -
  obtain tid w1 w2 where r: "hook_poll_start hk_os hk_poll [io_pollfd 5 POLLIN] 100 hw0 = Some (PollPark tid, w1)"
    "comm_io_resume hk_sys hk_os hk_poll True (\<lambda>k. ((7, 0), k)) POLLIN 5 100 tid w1 = Some (FOk (IoDone 7 0), w2)"
    using hw0_reads [of True] by blast
  have n: "\<not> fc_userNonBlocked (hw_ctx 0 w1)" "\<not> fc_userNonBlocked (hw_ctx 0 hw0)"
    unfolding poll_start_ctx [OF r(1)] by (simp_all add: hw_ctx_def hk_table_def EFileContextManager_ctor_def)
  have "comm_io_va_resume hk_sys hk_os hk_poll 0 True (\<lambda>k. ((7, 0), k)) POLLIN 5 100 tid w1 = Some (FOk (IoDone 7 0), w2)"
    using io_variants_agree [OF hk_poll_spec n(1), THEN conjunct2] r(2) by metis
  then show ?thesis using io_variants_agree [OF hk_poll_spec n(2), THEN conjunct1] r(1) by blast
qed

text \<open>
  Claim C26. Rebinding of a module whose file has a load address and both relocation sections. When the slots of
the relocation table lie apart from each other, from the table and from the strings that are compared
(\<open>reloc_ok\<close>), the call returns 0; afterwards the slot of entry \<open>j\<close> holds the replacement of the first rebinding
whose name equals the string at the load address plus \<open>st_name\<close> (\<open>reloc_name\<close>, what the code reads, whether
it is the name of the symbol or not), or its old value if there is none, and every byte outside of
the slots is as before.
\<close>

theorem rebinding_effect:
  assumes "rebind_prepare junk dlsym f = Some (Inr (base, syms))" and "base \<noteq> 0"
    and "section_by_name junk f name_rela_plt = Some (Inr (Some p))"
    and "section_by_name junk f name_rela_dyn = Some (Inr (Some d))"
    and "\<forall>rb\<in>set rbs. rb_replaced rb = None"
    and "reloc_ok base (base + sh_addr p) syms rbs m (sh_size p div 24)"
  shows "\<exists>m'. rebind_symbols_image junk dlsym err (Some f) rbs m = Some (0, m') \<and>
     (\<forall>x. x \<notin> slots base (base + sh_addr p) m (sh_size p div 24) \<longrightarrow> m' x = m x) \<and>
     (\<forall>j < sh_size p div 24. rd64 m' (reloc_slot base (base + sh_addr p) m j) =
        (case find (\<lambda>rb. mem_streq m (reloc_name base (base + sh_addr p) syms m j) (rb_name rb)) rbs of
           None \<Rightarrow> rd64 m (reloc_slot base (base + sh_addr p) m j) | Some rb \<Rightarrow> rb_replacement rb))"
proof -
  obtain m' where "rebind_loop base (base + sh_addr p) syms rbs 0 (sh_size p div 24) m = Some m'"
    and "\<forall>x. x \<notin> (\<Union>j\<in>{0..<sh_size p div 24}. quad (reloc_slot base (base + sh_addr p) m j)) \<longrightarrow> m' x = m x"
    and "\<forall>j\<in>{0..<sh_size p div 24}. rd64 m' (reloc_slot base (base + sh_addr p) m j) =
        (case reloc_rebinding base (base + sh_addr p) syms rbs m j of
           None \<Rightarrow> rd64 m (reloc_slot base (base + sh_addr p) m j) | Some rb \<Rightarrow> rb_replacement rb)"
    using rebind_loop_effect [OF assms(6,5), of 0 "sh_size p div 24" m] by auto
  then show ?thesis using assms(1-4)
    by (simp add: rebind_symbols_image_def slots_def atLeast0LessThan reloc_rebinding_def)
qed

theorem rebinding_effect_witness:
  "\<exists>m'. rebind_symbols_image (\<lambda>_. 0) demo_dlsym 0 (Some demo_elf) demo_rebindings demo_memory = Some (0, m') \<and>
     rd64 m' 66048 = 222"
proof -
  note e = rebinding_effect [where err = 0 and junk = "\<lambda>_. 0", OF demo_prepare _ demo_section_names demo_no_originals demo_reloc_ok,
      unfolded demo_table]
  have "(65536 :: 64 word) \<noteq> 0" by simp
  then obtain m' where
    1: "rebind_symbols_image (\<lambda>_. 0) demo_dlsym 0 (Some demo_elf) demo_rebindings demo_memory = Some (0, m')" and
    2: "\<And>j. j < 1 \<Longrightarrow> rd64 m' (reloc_slot 65536 65792 demo_memory j) =
      (case find (\<lambda>rb. mem_streq demo_memory (reloc_name 65536 65792 demo_syms demo_memory j) (rb_name rb)) demo_rebindings of
         None \<Rightarrow> rd64 demo_memory (reloc_slot 65536 65792 demo_memory j) | Some rb \<Rightarrow> rb_replacement rb)"
    using e by blast
  show ?thesis using 1 2 [of 0] by (simp add: demo_slot demo_found demo_found(2) [unfolded One_nat_def])
qed

text \<open>
  Claim C27. Rebinding of a loaded Mach-O image. \<open>plan_segments\<close> is what the image says: its commands, the sections of
symbol pointers, and for each pointer its slot and the first rebinding with the name of its symbol. When
that does not depend on the content of the slots and the slots lie apart, then afterwards every slot
holds its replacement, or its old value if it has none, and all other bytes are as before.
\<close>

theorem mach_rebinding_effect:
  assumes n_def: "n = mh_ncmds m header" and t_def: "t = mach_tables_of m slide seg sy dys"
    and ps_def: "ps = all_slots (plan_segments [rbs] slide t m n (header + 32))"
    and "dladdr header \<noteq> None" and "\<forall>rb\<in>set rbs. rb_replaced rb = None"
    and "mach_scan m n (header + 32) \<lparr>mc_linkedit = None, mc_symtab = None, mc_dysymtab = None\<rparr> =
      \<lparr>mc_linkedit = Some seg, mc_symtab = Some sy, mc_dysymtab = Some dys\<rparr>" and "dy_nindirectsyms m dys \<noteq> 0"
    and "sorted_wrt (\<lambda>p q. quad (fst p) \<inter> quad (fst q) = {}) ps"
    and "\<forall>m1. (\<forall>x. x \<notin> (\<Union>p\<in>set ps. quad (fst p)) \<longrightarrow> m1 x = m x) \<longrightarrow>
      plan_segments [rbs] slide t m1 n (header + 32) = plan_segments [rbs] slide t m n (header + 32)"
  shows "\<exists>m'. mach_rebind_symbols_image True dladdr header slide rbs m = (0, m') \<and>
     (\<forall>x. x \<notin> (\<Union>p\<in>set ps. quad (fst p)) \<longrightarrow> m' x = m x) \<and>
     (\<forall>(slot, found)\<in>set ps. rd64 m' slot = (case found of None \<Rightarrow> rd64 m slot | Some rb \<Rightarrow> rb_replacement rb))"
proof -
  have pl: "plain [rbs]" using assms(5) by (simp add: plain_def)
  have st: "\<forall>m1. same_but (plan_area ps) m m1 \<longrightarrow>
      plan_segments [rbs] slide t m1 n (header + 32) = plan_segments [rbs] slide t m n (header + 32)"
    using assms(9) unfolding same_but_def plan_area_def .
  have "same_but (plan_area ps) m m" by (simp add: same_but_def)
  from segments_plan [OF pl st _ this] have "mach_segments [rbs] slide t n (header + 32) m = fold put ps m"
    by (simp add: ps_def)
  then have run: "mach_rebind_symbols_image True dladdr header slide rbs m = (0, fold put ps m)"
    using assms(4,6,7) unfolding n_def t_def
    by (auto simp: mach_rebind_symbols_image_def prepend_rebindings_def rebind_symbols_for_image_def)
  have "same_but (plan_area ps) m (fold put ps m)" by (rule fold_put_same) simp
  moreover have "\<forall>(slot, found)\<in>set ps. rd64 (fold put ps m) slot =
      (case found of None \<Rightarrow> rd64 m slot | Some rb \<Rightarrow> rb_replacement rb)"
    using fold_put_effect [of ps m] assms(8) by (simp add: apart_def case_prod_beta)
  ultimately show ?thesis using run unfolding same_but_def plan_area_def by blast
qed

theorem mach_rebinding_effect_witness:
  "\<exists>m'. mach_rebind_symbols_image True Some 4096 4096 demo_rebindings demo_mach = (0, m') \<and> rd64 m' 16384 = 222"
proof -
  let ?ps = "[(16384, Some (demo_rebindings ! 1))]"
  have h: "(4096 :: 64 word) + 32 = 4128" by simp
  have n: "4 = mh_ncmds demo_mach 4096" using demo_mach_reads(1) [OF demo_mach_self] by simp
  have p: "?ps = all_slots (plan_segments [demo_rebindings] 4096 demo_mach_tabs demo_mach 4 (4096 + 32))"
    unfolding h demo_mach_plan(1) [OF demo_mach_self] ..
  have st: "\<forall>m1. (\<forall>x. x \<notin> (\<Union>p\<in>set ?ps. quad (fst p)) \<longrightarrow> m1 x = demo_mach x) \<longrightarrow>
      plan_segments [demo_rebindings] 4096 demo_mach_tabs m1 4 (4096 + 32) =
      plan_segments [demo_rebindings] 4096 demo_mach_tabs demo_mach 4 (4096 + 32)"
  proof (intro allI impI)
    fix m1 assume "\<forall>x. x \<notin> (\<Union>p\<in>set ?ps. quad (fst p)) \<longrightarrow> m1 x = demo_mach x"
    then have "same_but (quad 16384) demo_mach m1" by (simp add: same_but_def)
    from demo_mach_plan(2) [OF this] show "plan_segments [demo_rebindings] 4096 demo_mach_tabs m1 4 (4096 + 32) =
        plan_segments [demo_rebindings] 4096 demo_mach_tabs demo_mach 4 (4096 + 32)"
      unfolding h demo_mach_plan(2) [OF demo_mach_self] .
  qed
  have nz: "dy_nindirectsyms demo_mach 4224 \<noteq> 0" using demo_mach_tables(4) [OF demo_mach_self] by simp
  have d: "Some (4096 :: 64 word) \<noteq> None" by simp
  have so: "sorted_wrt (\<lambda>p q. quad (fst p) \<inter> quad (fst q) = {}) ?ps" by simp
  from mach_rebinding_effect [where dladdr = Some, OF n demo_mach_scan(2) [symmetric] p d demo_no_originals demo_mach_scan(1) [folded n] nz so st]
  obtain m' where m': "mach_rebind_symbols_image True Some 4096 4096 demo_rebindings demo_mach = (0, m')"
    "\<forall>(slot, found)\<in>set ?ps. rd64 m' slot = (case found of None \<Rightarrow> rd64 demo_mach slot | Some rb \<Rightarrow> rb_replacement rb)"
    by blast
  have "rb_replacement (demo_rebindings ! 1) = 222" by (simp add: demo_rebindings_def)
  then show ?thesis using m' by simp
qed

text \<open>
  Claim C28. The two back ends of the event loop are equivalent. Run the same sequence of registrations and
deletions on epoll and on kqueue, from tables without registrations. If both kernels accept and refuse
the same ones (and refuse none that asks for both events at once), the tables are equal afterwards and
both kernels watch every descriptor for exactly the events in its mask.
\<close>

theorem backends_equivalent:
  assumes "epoll_spec os interest" and "kqueue_spec K reg"
    and "poll_wf p" and "\<forall>fd. 0 \<le> fd \<longrightarrow> fd < pl_setsize p \<longrightarrow> ev_mask p fd = 0"
    and "interest k = Map.empty" and "\<forall>fd f. \<not> reg j fd f"
    and e: "regs_run (aeApiAddEvent os) (aeApiDelEvent os) ops p k = Some (oks, p1, k')"
    and q: "regs_run (kq_ApiAddEvent K) (kq_ApiDelEvent K) ops p j = Some (oks, p2, j')"
    and f: "list_all2 op_fine ops oks"
  shows "p2 = p1 \<and> poll_wf p1 \<and> (\<forall>fd. 0 \<le> fd \<longrightarrow> fd < pl_setsize p1 \<longrightarrow>
     ep_watch interest k' fd = ev_mask p1 fd \<and> kq_watch reg j' fd = ev_mask p1 fd)"
proof -
  have "ep.agree interest os p k" using assms(1,4,5) by (simp add: ep.agree_def ep_inv_def ep_watch_def)
  note a = ep.run_agrees [OF assms(3) this e f]
  have "kq.agree reg K p j" using assms(2,4,6) by (simp add: kq.agree_def kq_inv_def kq_watch_def)
  note b = kq.run_agrees [OF assms(3) this q f]
  have "p2 = p1" by (rule regs_run_poll [OF q e])
  then show ?thesis using a b by (simp add: ep.agree_def kq.agree_def)
qed

theorem backends_equivalent_witness:
  "\<exists>p k j. regs_run (aeApiAddEvent ep_kernel) (aeApiDelEvent ep_kernel) demo_regs demo_events Map.empty =
       Some ([True, True, True, True], p, k) \<and>
     regs_run (kq_ApiAddEvent kq_kernel) (kq_ApiDelEvent kq_kernel) demo_regs demo_events (\<lambda>_ _. False) =
       Some ([True, True, True, True], p, j) \<and> ep_watch id k 0 = kq_watch id j 0"
proof -
  have c: "pl_setsize demo_events = 2" by (simp add: demo_events_def eco_poll_create_def)
  let ?e = "regs_run (aeApiAddEvent ep_kernel) (aeApiDelEvent ep_kernel) demo_regs demo_events Map.empty"
  let ?q = "regs_run (kq_ApiAddEvent kq_kernel) (kq_ApiDelEvent kq_kernel) demo_regs demo_events (\<lambda>_ _. False)"
  have "map_option fst ?e = Some [True, True, True, True]" "map_option fst ?q = Some [True, True, True, True]"
    by code_simp+
  then obtain p1 k p2 j where e: "?e = Some ([True, True, True, True], p1, k)"
    and q: "?q = Some ([True, True, True, True], p2, j)" by auto
  have f: "list_all2 op_fine demo_regs [True, True, True, True]" by (simp add: demo_regs_def)
  note b = backends_equivalent [OF ep_kernel_spec kq_kernel_spec demo_events_wf _ _ _ e q f]
  have "p2 = p1 \<and> poll_wf p1 \<and> (\<forall>fd. 0 \<le> fd \<longrightarrow> fd < pl_setsize p1 \<longrightarrow>
     ep_watch id k fd = ev_mask p1 fd \<and> kq_watch id j fd = ev_mask p1 fd)"
    by (rule b) (use demo_events_mask c in auto)
  moreover have "map_option (\<lambda>(_, p, _). pl_setsize p) ?e = Some 2" by code_simp
  ultimately show ?thesis using e q by auto
qed

text \<open>
  Claim C29. An \<open>EFiberMutex\<close> excludes: in every history in which each unlock comes from a holder, at most
  one caller holds the lock at the end (and so at every point, since prefixes are histories),
  no unlock is refused, and the lock is free exactly if there is no holder.
\<close>

theorem mutex_excludes:
  assumes "cxx_fifo Q view"
    and "sem_run EFiberBlocker_tryWait (blk_park Q) (EFiberBlocker_post Q) (blk_drop Q) calls (EFiberMutex_ctor Q) = (rs, b')"
    and "owned 0 rs"
  shows "holders 0 rs \<le> 1 \<and> Full \<notin> set rs \<and> (EFiberMutex_isLocked b' \<longleftrightarrow> holders 0 rs = 1)"
proof -
  note e = blk.exclusion [OF mutex_ctor_sem [OF assms(1)] assms(2,3)]
  obtain ws' where "blk_sem Q view b' (1 - holders 0 rs) 1 ws'" using e(3) by blast
  then have "EFiberMutex_isLocked b' \<longleftrightarrow> 1 - holders 0 rs = 0" by (rule mutex_isLocked)
  then show ?thesis using e(1,2) by linarith
qed

theorem mutex_excludes_witness:
  "\<exists>rs b'. sem_run EFiberBlocker_tryWait (blk_park list_cxx) (EFiberBlocker_post list_cxx) (blk_drop list_cxx)
       [STake, SPark (WFiber 1), SWake, STake] (EFiberMutex_ctor list_cxx) = (rs, b') \<and>
     owned 0 rs \<and> holders 0 rs \<le> 1 \<and> EFiberMutex_isLocked b'"
proof -
  obtain rs b' where r: "sem_run EFiberBlocker_tryWait (blk_park list_cxx) (EFiberBlocker_post list_cxx) (blk_drop list_cxx)
       [STake, SPark (WFiber 1), SWake, STake] (EFiberMutex_ctor list_cxx) = (rs, b')" by fastforce
  then have e: "rs = [Taken, Waiting (WFiber 1), Handed (WFiber 1), Refused]"
    by (simp add: EFiberMutex_ctor_def EFiberBlocker_ctor_def EFiberBlocker_tryWait_def blk_park_def
        EFiberBlocker_swapOut_def EFiberBlocker_post_def list_cxx_def)
  then have o: "owned 0 rs" and h: "holders 0 rs = 1" by simp_all
  from mutex_excludes [OF list_cxx_fifo r o] r o h show ?thesis by auto
qed

text \<open>
  Claim C30. \<open>select\<close> first calls the original with a zero timeout, which empties the sets when nothing is
ready. The loop over the sets then finds no descriptor: whenever \<open>select\<close> parks the fiber, nothing
has been registered, and it will return 0, whatever happens on the descriptors.
\<close>

theorem select_waits_for_nothing:
  assumes "select_spec select_f"
    and "hook_select_start os select_f nfds sets tmo w = Some (SelectPark tid pfds sets', w')"
  shows "pfds = [] \<and> pl_events (iw_poll (hw_waiter w')) = pl_events (iw_poll (hw_waiter w)) \<and>
     (\<exists>v'. hook_select_resume os pfds tid sets' v = Some ((0, sets'), v'))"
  using select_registers_nothing [OF assms] by blast

theorem select_waits_for_nothing_witness:
  "\<exists>tid sets w' v'. hook_select_start hk_os hk_select 6 (Some {5}, None, None) (Some (1, 0)) hw0 =
       Some (SelectPark tid [] sets, w') \<and> hook_select_resume hk_os [] tid sets w' = Some ((0, sets), v')"
proof -
  obtain tid pfds sets w' where s: "hook_select_start hk_os hk_select 6 (Some {5}, None, None) (Some (1, 0)) hw0 =
      Some (SelectPark tid pfds sets, w')" using hw0_select by blast
  from select_waits_for_nothing [OF hk_select_spec s, of w'] s show ?thesis by blast
qed

text \<open>
  Claim C31. Every read or write hook returns or pauses its fiber: the retry loop does not run forever, provided
that the call does not block on a descriptor that poll(2) has just reported ready.
\<close>

theorem blocking_io_returns:
  assumes "poll_spec poll_f" and "poll_honest poll_f fn fd event" and "0 \<le> fd"
  shows "\<exists>res. comm_io_on_fiber S up os poll_f acc fn event fd w = Some res"
  by (rule comm_io_ends [OF assms])

theorem blocking_io_returns_witness:
  "\<exists>res. comm_io_on_fiber hk_sys hk_up hk_os hk_poll True (hk_call 5) POLLIN 5 (hw_at []) = Some res"
  by (rule blocking_io_returns [OF hk_poll_spec hk_honest]) simp

text \<open>
  Claim C32. A read or write hook that goes on after its pause: if the timer has woken the fiber the result is
-1 with \<open>ETIMEDOUT\<close>, otherwise the loop makes the call. The descriptor is not registered any more.
\<close>

theorem blocking_io_wakes:
  assumes "epoll_spec os interest" and "hw_ok interest F w"
    and "waits_on f (hw_waiter w) fd (PollEvent2EEvent event)" and "event AND (POLLIN OR POLLOUT) \<noteq> 0"
  shows "\<exists>w'. comm_io_resume S os poll_f acc fn event fd ms tid w =
      (if fb_isIoWaitTimeout (rt_fibers (hw_rt w) (hw_fiber w)) then Some (FOk (IoDone (-1) ETIMEDOUT), w')
       else map_option (io_success S acc) (io_loop os poll_f (on_kernel fn) fd event ms (Some (1, 0)) w')) \<and>
     hw_ok interest F w' \<and> ev_mask (iw_poll (hw_waiter w')) fd = 0"
  by (rule comm_io_resume_ok [OF assms(1-3)]) (use assms(4) in simp)

theorem blocking_io_wakes_witness:
  "\<exists>tid w1 w2. hook_poll_start hk_os hk_poll [io_pollfd 5 POLLIN] 100 hw0 = Some (PollPark tid, w1) \<and>
     comm_io_resume hk_sys hk_os hk_poll False (\<lambda>k. ((7, 0), k)) POLLIN 5 100 tid w1 =
       Some (FOk (IoDone 7 0), w2)"
proof -
  obtain tid w1 where w1: "hook_poll_start hk_os hk_poll [io_pollfd 5 POLLIN] 100 hw0 = Some (PollPark tid, w1)"
    "hw_ok hk_interest {1} w1" "waits_on 1 (hw_waiter w1) 5 (PollEvent2EEvent POLLIN)" "hw_fiber w1 = 1"
    "\<not> fb_isIoWaitTimeout (rt_fibers (hw_rt w1) 1)" using hw0_parks by blast
  have ev: "POLLIN AND (POLLIN OR POLLOUT) \<noteq> 0" by simp
  from blocking_io_wakes [OF os_epoll [OF hk_os_ok] w1(2,3) ev, of hk_sys hk_poll False "\<lambda>k. ((7, 0), k)" 100 tid]
  show ?thesis using w1(1,4,5) by (auto simp: io_loop_polled on_kernel_def)
qed

text \<open>
  Claim C33. The constructor of a context makes the descriptor non-blocking. The destructor, when no fiber
runs, gives it back: with the flags it had, or with \<open>O_NONBLOCK\<close> as the user has set it meanwhile.
Inside a fiber the destructor does nothing.
\<close>

theorem nonblock_flag_restored:
  assumes "flags_spec S" and "0 \<le> sy_getfl S k fd" and "EFileContext_ctor S fd k = (Some fc, k')"
  shows "sy_getfl S k' fd = sy_getfl S k fd OR O_NONBLOCK \<and>
     sy_getfl S (EFileContext_dtor S None fc k') fd = sy_getfl S k fd \<and>
     sy_getfl S (EFileContext_dtor S None (setUserNonBlock b fc) k') fd =
       (if b then sy_getfl S k fd OR O_NONBLOCK else sy_getfl S k fd AND NOT O_NONBLOCK) \<and>
     EFileContext_dtor S (Some f) fc k' = k'"
proof -
  note c = ctor_flags [OF assms]
  have u: "fc_fd fc = fd" "fc_userNonBlocked fc \<longleftrightarrow> bit (sy_getfl S k fd) 11"
    using c(2) [of fc] by (simp_all add: nonblock_set)
  have p: "0 \<le> sy_getfl S k' fd" unfolding c(1) using assms(2) by simp
  have d: "sy_getfl S (EFileContext_dtor S None x k') fd =
      (if fc_userNonBlocked x then sy_getfl S k fd OR O_NONBLOCK else sy_getfl S k fd AND NOT O_NONBLOCK)"
    if "fc_fd x = fd" for x
    using dtor_flags [OF assms(1), of k' x] p nonblock_or(2) [OF nonblock_or(1)] nonblock_and(3)
    unfolding that c(1) by simp
  have "sy_getfl S (EFileContext_dtor S None fc k') fd = sy_getfl S k fd"
    using d [OF u(1)] u(2) nonblock_or(2) nonblock_and(2) by simp
  moreover have "fc_fd (setUserNonBlock b fc) = fd" "fc_userNonBlocked (setUserNonBlock b fc) = b"
    using u(1) by (simp_all add: setUserNonBlock_def)
  moreover have "EFileContext_dtor S (Some f) fc k' = k'" by (simp add: EFileContext_dtor_def)
  ultimately show ?thesis using c(1) d by (intro conjI) simp_all
qed

theorem nonblock_flag_restored_witness:
  "\<exists>fc k. EFileContext_ctor hk_sys 5 hk0 = (Some fc, k) \<and> sy_getfl hk_sys k 5 = 2050 \<and>
     sy_getfl hk_sys (EFileContext_dtor hk_sys None fc k) 5 = 2"
proof -
  have p: "0 \<le> sy_getfl hk_sys hk0 5" and v: "sy_getfl hk_sys hk0 5 = 2" by (simp_all add: hk_sys_def hk0_def)
  have o: "(2 :: int) OR O_NONBLOCK = 2050" by simp
  note r = nonblock_flag_restored [OF hk_flags_spec p hk0_ctor, of False 1, unfolded v o]
  show ?thesis by (rule exI, rule exI, rule conjI [OF hk0_ctor conjI [OF conjunct1 [OF r] conjunct1 [OF conjunct2 [OF r]]]])
qed

text \<open>
  Claim C34. One pass of \<open>processTimeEvents\<close>, whose callbacks do not re-arm. \<open>calls\<close> is a record of the callbacks in the
  state. The timers that were deleted before are finalized and unlinked, the others stay in order; each of
  them either has fired (it was due by the end of the pass; it is now marked as deleted) or was
  not due at the beginning and is unchanged; the time procedure has been called once for each that has
  fired, and no other callback has been made (\<open>walk_calls\<close>); the count is right. If the coarse
  clock has gone backwards, all timers are first moved to the past. The ids of the live timers stay distinct.
\<close>

theorem due_timers_fire:
  assumes "clock_spec os clk" and "timers_wf p" and "records_calls tcall ffin calls"
    and "callbacks_ok tcall ffin I Q (set (skew_list (fst (os_time os k)) p))" and "I r"
  shows "\<exists>d out k' r'. processTimeEvents os tcall ffin p k r =
      Some (d, p\<lparr>pl_lastTime := fst (os_time os k), pl_timeEvents := out\<rparr>, k', r') \<and>
      list_all2 (timer_step (clk (snd (os_time os k))) (clk k'))
        [te\<leftarrow>skew_list (fst (os_time os k)) p. te_id te \<noteq> ECO_POLL_DELETED_EVENT_ID] out \<and>
      calls r' = calls r @ walk_calls (skew_list (fst (os_time os k)) p) out \<and>
      d = int (length [te\<leftarrow>out. te_id te = ECO_POLL_DELETED_EVENT_ID]) \<and> I r' \<and>
      timers_wf (p\<lparr>pl_lastTime := fst (os_time os k), pl_timeEvents := out\<rparr>)"
proof -
  obtain d out k' r' where e: "processTimeEvents os tcall ffin p k r =
        Some (d, p\<lparr>pl_lastTime := fst (os_time os k), pl_timeEvents := out\<rparr>, k', r')"
      "walked clk I Q (skew_list (fst (os_time os k)) p) out d (snd (os_time os k)) r k' r'"
    using processTimeEvents_walked [OF assms(1,2,4,5)] by blast
  have "calls r' = calls r @ walk_calls (skew_list (fst (os_time os k)) p) out"
    using processTimeEvents_calls [OF assms(3,2,4,5) e(1)] by simp
  then show ?thesis using e walked_timers_wf [OF assms(2) e(2)] unfolding walked_def by blast
qed

theorem due_timers_fire_witness:
  "\<exists>d p' k' r'. processTimeEvents sim_os (\<lambda>_ i c r. Some (-1, r @ [Fired i])) (\<lambda>_ c r. Some (r @ [Finalized c]))
      (\<lparr>pl_maxfd = -1, pl_setsize = 0, pl_timeEventNextId = 2, pl_lastTime = 0, pl_events = [],
       pl_timeEvents = [\<lparr>te_id = 0, te_when_sec = 4, te_when_ms = 0, te_timeProc = (), te_finalizerProc = None, te_clientData = (7::nat)\<rparr>,
         \<lparr>te_id = 1, te_when_sec = 9, te_when_ms = 0, te_timeProc = (), te_finalizerProc = None, te_clientData = 8\<rparr>]\<rparr> :: (unit, nat, unit) poll)
      sim0 [] = Some (d, p', k', r') \<and> r' = [Fired 0] \<and> timers_wf p'"
proof -
  let ?p = "\<lparr>pl_maxfd = -1, pl_setsize = 0, pl_timeEventNextId = 2, pl_lastTime = 0, pl_events = [],
       pl_timeEvents = [\<lparr>te_id = 0, te_when_sec = 4, te_when_ms = 0, te_timeProc = (), te_finalizerProc = None, te_clientData = (7::nat)\<rparr>,
         \<lparr>te_id = 1, te_when_sec = 9, te_when_ms = 0, te_timeProc = (), te_finalizerProc = None, te_clientData = 8\<rparr>]\<rparr> :: (unit, nat, unit) poll"
  let ?tc = "\<lambda>(_ :: unit) i (c :: nat) r. Some (-1 :: int, r @ [Fired i])" and ?fc = "\<lambda>(_ :: unit) (c :: nat) r. Some (r @ [Finalized c])"
  have w: "timers_wf ?p" by (simp add: timers_wf_def live_ids_def)
  have c: "callbacks_ok ?tc ?fc (\<lambda>_. True) (\<lambda>_ _. True) T" for T :: "(unit, nat) timeEvent set"
    by (simp add: callbacks_ok_def)
  have rc: "records_calls ?tc ?fc (\<lambda>r. r)" by (simp add: records_calls_def)
  obtain d out k' r' where e: "processTimeEvents sim_os ?tc ?fc ?p sim0 [] =
        Some (d, ?p\<lparr>pl_lastTime := fst (os_time sim_os sim0), pl_timeEvents := out\<rparr>, k', r')"
      "timers_wf (?p\<lparr>pl_lastTime := fst (os_time sim_os sim0), pl_timeEvents := out\<rparr>)"
    using due_timers_fire [OF os_clock [OF sim_os_ok] w rc c TrueI, of sim0 "[]"] by blast
  have "map_option (\<lambda>(d, p, k, r). r) (processTimeEvents sim_os ?tc ?fc ?p sim0 []) = Some [Fired 0]" by code_simp
  then show ?thesis using e by auto
qed

text \<open>
  Claim C35. The table of file events stays well formed under any sequence of registrations and deletions with
descriptors that are not negative, whatever the kernel answers: no access leaves the array, the size
stays, every mask is a combination of the two events, and \<open>maxfd\<close> is the largest descriptor with a
registration, or -1 if there is none.
\<close>

theorem event_table_typed:
  assumes "poll_wf p" and "\<forall>fd. 0 \<le> fd \<longrightarrow> fd < pl_setsize p \<longrightarrow> ev_mask p fd \<in> {0, 1, 2, 3}"
    and "\<forall>opr\<in>set ops. op_typed opr"
  shows "\<exists>oks p' k'. regs_run (aeApiAddEvent os) (aeApiDelEvent os) ops p k = Some (oks, p', k') \<and>
     length oks = length ops \<and> length (pl_events p') = length (pl_events p) \<and>
     (\<forall>fd. 0 \<le> fd \<longrightarrow> fd < pl_setsize p' \<longrightarrow> ev_mask p' fd \<in> {0, 1, 2, 3}) \<and>
     (\<forall>fd. pl_maxfd p' < fd \<and> fd < pl_setsize p' \<longrightarrow> ev_mask p' fd = 0) \<and>
     (pl_maxfd p' = -1 \<or> 0 \<le> pl_maxfd p' \<and> pl_maxfd p' < pl_setsize p' \<and> ev_mask p' (pl_maxfd p') \<noteq> 0)"
proof -
  have "table_typed p" using assms(1,2) by (simp add: table_typed_def)
  from run_typed [OF this assms(3), of "aeApiAddEvent os" "aeApiDelEvent os" k] obtain oks p' k' where
    r: "regs_run (aeApiAddEvent os) (aeApiDelEvent os) ops p k = Some (oks, p', k')" "length oks = length ops"
      "table_typed p'" "pl_setsize p' = pl_setsize p" by blast
  then have "poll_wf p'" by (simp add: table_typed_def)
  then have "length (pl_events p') = length (pl_events p)"
    "\<forall>fd. pl_maxfd p' < fd \<and> fd < pl_setsize p' \<longrightarrow> ev_mask p' fd = 0"
    "pl_maxfd p' = -1 \<or> 0 \<le> pl_maxfd p' \<and> pl_maxfd p' < pl_setsize p' \<and> ev_mask p' (pl_maxfd p') \<noteq> 0"
    using assms(1) r(4) by (auto simp: poll_wf_def)
  then show ?thesis using r by (simp add: table_typed_def)
qed

theorem event_table_typed_witness:
  "\<exists>oks p k. regs_run (aeApiAddEvent ep_kernel) (aeApiDelEvent ep_kernel) demo_regs demo_events Map.empty = Some (oks, p, k) \<and>
     length oks = 4 \<and> ev_mask p 0 \<in> {0, 1, 2, 3}"
proof -
  have c: "pl_setsize demo_events = 2" by (simp add: demo_events_def eco_poll_create_def)
  have o: "\<forall>opr\<in>set demo_regs. op_typed opr" by (simp add: demo_regs_def)
  have m: "\<forall>fd. 0 \<le> fd \<longrightarrow> fd < pl_setsize demo_events \<longrightarrow> ev_mask demo_events fd \<in> {0, 1, 2, 3}"
    using demo_events_mask c by simp
  have s: "map_option (\<lambda>(_, p, _). pl_setsize p)
      (regs_run (aeApiAddEvent ep_kernel) (aeApiDelEvent ep_kernel) demo_regs demo_events Map.empty) = Some 2"
    by code_simp
  have l: "length demo_regs = 4" by (simp add: demo_regs_def)
  obtain oks p k where "regs_run (aeApiAddEvent ep_kernel) (aeApiDelEvent ep_kernel) demo_regs demo_events Map.empty = Some (oks, p, k)"
    "length oks = length demo_regs" "\<forall>fd. 0 \<le> fd \<longrightarrow> fd < pl_setsize p \<longrightarrow> ev_mask p fd \<in> {0, 1, 2, 3}"
    using event_table_typed [OF demo_events_wf m o, of ep_kernel Map.empty] by blast
  then show ?thesis using s l by auto
qed

text \<open>
  Claim C36. The destructor of a fiber calls a null pointer exactly if a value is left that was set through a
local without callback. Otherwise it hands every value that is left to the callback of its local, once
each.
\<close>

theorem fiber_locals_destroyed:
  assumes "hash_spec H view"
  shows "(EFiber_dtor H call f L s = None \<longleftrightarrow> EFiberLocal_get H (Some f) None L \<noteq> None) \<and>
     (EFiberLocal_get H (Some f) None L = None \<longrightarrow>
        (\<exists>cvs. EFiber_dtor H call f L s = Some (fold (\<lambda>(cb, v). call cb v) cvs s) \<and>
           set cvs = {(cb, v). EFiberLocal_get H (Some f) (Some cb) L = Some v} \<and> distinct (map fst cvs)))"
proof -
  let ?es = "hs_entries H (L f)"
  have g: "EFiberLocal_get H (Some f) kw L = view (L f) kw" for kw
    using hash_specD(1) [OF assms] by (simp add: EFiberLocal_get_def)
  have n: "None \<in> fst ` set ?es \<longleftrightarrow> view (L f) None \<noteq> None"
    using hash_specD(4) [OF assms, of "L f"] by auto
  have d: "distinct (map fst ?es)" using assms by (simp add: hash_spec_def)
  have "set (map (\<lambda>(kw, v). (the kw, v)) ?es) = {(cb, v). view (L f) (Some cb) = Some v} \<and>
      distinct (map fst (map (\<lambda>(kw, v). (the kw, v)) ?es))" if no: "view (L f) None = None"
  proof
    have m: "(kw, v) \<in> set ?es \<longleftrightarrow> view (L f) kw = Some v" for kw v by (rule hash_specD(5) [OF assms])
    have nn: "kw \<noteq> None" if "(kw, v) \<in> set ?es" for kw v using that m no by (cases kw) auto
    show "set (map (\<lambda>(kw, v). (the kw, v)) ?es) = {(cb, v). view (L f) (Some cb) = Some v}"
      using m nn by (force simp: image_iff)
    have "inj_on the (fst ` set ?es)"
    proof (rule inj_onI)
      fix x y assume "x \<in> fst ` set ?es" "y \<in> fst ` set ?es" "the x = the y"
      then show "x = y" using nn by (metis imageE option.expand prod.collapse)
    qed
    then have "distinct (map the (map fst ?es))" using d by (simp add: distinct_map comp_inj_on)
    then show "distinct (map fst (map (\<lambda>(kw, v). (the kw, v)) ?es))" by (simp add: case_prod_unfold comp_def)
  qed
  then show ?thesis
    using n call_destroyed_None [of call ?es s] call_destroyed_Some [of ?es call s] unfolding EFiber_dtor_def g by auto
qed

theorem fiber_locals_destroyed_witness:
  "EFiber_dtor alist_hash (\<lambda>cb v s. s + v) 1 (\<lambda>_. [(None, 4)]) (0 :: nat) = (None :: nat option) \<and>
   EFiber_dtor alist_hash (\<lambda>cb v s. s + v) 1 (\<lambda>_. [(Some (), 4)]) (0 :: nat) \<noteq> None"
  using fiber_locals_destroyed [OF alist_hash_spec, of "\<lambda>cb v s. s + v" 1 "\<lambda>_. [(None, 4)]" "0 :: nat"]
    fiber_locals_destroyed [OF alist_hash_spec, of "\<lambda>cb v s. s + v" 1 "\<lambda>_. [(Some (), 4)]" "0 :: nat"]
  by (simp add: EFiberLocal_get_def alist_hash_def)

text \<open>
  Claim C37. What the rebinding does with files it cannot use. A result other than 0 always leaves the memory as it
was. An absent file gives -1 and an empty one \<open>EINVAL\<close>; a module without a load address gives -1, and so does
one with a load address whose section names cannot be read when \<open>.rela.plt\<close> or \<open>.rela.dyn\<close> is looked up. A
file that has no table of dynamic symbols, or that lacks one of the sections \<open>.rela.plt\<close> and
\<open>.rela.dyn\<close>, is undefined behaviour: the code follows the null pointer it got from the search.
\<close>

theorem rebinding_refuses:
  "(rebind_symbols_image junk dlsym err file rbs m = Some (r, m') \<longrightarrow> r \<noteq> 0 \<longrightarrow> m' = m) \<and>
   rebind_symbols_image junk dlsym err None rbs m = Some (-1, m) \<and>
   rebind_symbols_image junk dlsym err (Some []) rbs m = Some (22, m) \<and>
   (rebind_prepare junk dlsym f = Some (Inr (b, syms)) \<longrightarrow>
      b = 0 \<or> section_by_name junk f name_rela_plt = Some (Inl e) \<or>
      section_by_name junk f name_rela_plt = Some (Inr plt) \<and> section_by_name junk f name_rela_dyn = Some (Inl e) \<longrightarrow>
      rebind_symbols_image junk dlsym err (Some f) rbs m = Some (-1, m)) \<and>
   (read_header junk f = Inr h \<longrightarrow> read_section_table junk f h = Inr secs \<longrightarrow>
      (\<forall>s\<in>set secs. sh_type s \<noteq> 11) \<longrightarrow> rebind_symbols_image junk dlsym err (Some f) rbs m = None) \<and>
   (rebind_prepare junk dlsym f = Some (Inr (b, syms)) \<longrightarrow> b \<noteq> 0 \<longrightarrow>
      section_by_name junk f name_rela_plt = Some (Inr plt) \<longrightarrow>
      section_by_name junk f name_rela_dyn = Some (Inr dyn) \<longrightarrow> plt = None \<or> dyn = None \<longrightarrow>
      rebind_symbols_image junk dlsym err (Some f) rbs m = None)"
proof -
  have "m' = m" if "rebind_symbols_image junk dlsym err file rbs m = Some (r, m')" "r \<noteq> 0"
    using that by (auto simp: rebind_symbols_image_def split: option.splits sum.splits elf_err.splits if_splits)
  moreover have "rebind_prepare junk dlsym f = None"
    if "read_header junk f = Inr h" "read_section_table junk f h = Inr secs" "\<forall>s\<in>set secs. sh_type s \<noteq> 11"
  proof -
    have "find (\<lambda>s. 11 = sh_type s) secs = None" using that(3) by (auto simp: find_None_iff)
    then show ?thesis by (simp add: rebind_prepare_def section_by_type_def that(1,2))
  qed
  moreover have "rebind_prepare junk dlsym [] = Some (Inl SetErrno)"
    by (simp add: rebind_prepare_def section_by_type_def read_header_def read_buf_def)
  ultimately show ?thesis by (auto simp: rebind_symbols_image_def split: option.splits)
qed

theorem rebinding_refuses_witness:
  "rebind_symbols_image (\<lambda>_. 0) (\<lambda>_. None) 0 (Some bare_elf) [] (\<lambda>_. 0) = None \<and>
   rebind_symbols_image (\<lambda>_. 0) (\<lambda>_. Some 64) 0 (Some demo_elf) [] (\<lambda>_. 0) = Some (-1, \<lambda>_. 0) \<and>
   rebind_symbols_image (\<lambda>_. 0) demo_dlsym 0 (Some (demo_file 3)) demo_rebindings demo_memory = Some (-1, demo_memory)"
  using rebinding_refuses [where junk = "\<lambda>_. 0" and dlsym = "\<lambda>_. None" and f = bare_elf and err = 0 and rbs = "[]"
      and m = "\<lambda>_. 0" and h = "\<lparr>e_shoff = 64, e_shnum = 2, e_shstrndx = 0\<rparr>" and secs = bare_sections]
    rebinding_refuses [where junk = "\<lambda>_. 0" and dlsym = "\<lambda>_. Some 64" and f = demo_elf and err = 0 and rbs = "[]"
      and m = "\<lambda>_. 0" and syms = demo_syms and b = 0]
    rebinding_refuses [where junk = "\<lambda>_. 0" and dlsym = demo_dlsym and f = "demo_file 3" and err = 0 and rbs = demo_rebindings
      and m = demo_memory and syms = demo_syms and b = 65536 and e = SetErrno]
    bare_tables demo_prepare_base [of 2 "\<lambda>_. 0" "\<lambda>_. Some 64"] demo_prepare_base [of 3 "\<lambda>_. 0" demo_dlsym] torn_section_names
  by (simp add: demo_dlsym_def)

text \<open>
  Claim C38. \<open>EFiberCondition::signalAll\<close> makes every fiber that waits on the condition runnable. It does
  not remove the blockers from the queue: later signals go to these left-over entries first.
\<close>

theorem signalAll_wakes_all:
  assumes "cxx_fifo W wview" and "wview (cn_waiters cn) = bps" and "distinct bps"
    and "\<forall>bp\<in>set bps. cond_waits Q view (cn_blockers cn bp) (w bp)"
    and "\<forall>bp\<in>set bps. \<forall>f. w bp = Some f \<longrightarrow> f \<in> F" and "rt_ok K L F R s"
  shows "\<exists>cn' s'. EFiberCondition_signalAll Q W t cn s = Some (cn', s') \<and> rt_ok K L F R s' \<and> wakes F s s' \<and>
     cn_waiters cn' = cn_waiters cn \<and> (\<forall>bp\<in>set bps. \<forall>f. w bp = Some f \<longrightarrow> \<not> parked f s')"
proof -
  have "cxq_iter W (cn_waiters cn) = bps" using cxx_iter [OF assms(1)] assms(2) by simp
  then show ?thesis
    using wake_all_ok [OF assms(3-6), of t] unfolding EFiberCondition_signalAll_def by blast
qed

theorem signalAll_wakes_all_witness:
  "\<exists>cn' s'. EFiberCondition_signalAll list_cxx list_cxx 1 demo_cond demo_parked = Some (cn', s') \<and>
     cn_waiters cn' = [30, 31] \<and> \<not> parked 1 s'"
proof -
  have v: "cn_waiters demo_cond = [30, 31]" and d: "distinct [30, 31 :: nat]" by (simp_all add: demo_cond_def)
  have c: "\<forall>bp\<in>set [30, 31]. cond_waits list_cxx (\<lambda>q. q) (cn_blockers demo_cond bp) (if bp = 30 then Some 1 else None)"
    using demo_cond_waits demo_cond_left by simp
  from signalAll_wakes_all [OF list_cxx_fifo v d c _ sched_okD(4) [OF demo_parked_sched], of 1]
  show ?thesis using v by fastforce
qed

text \<open>
  Claim C39. \<open>sendfile\<close> on a blocking socket that stays ready, whose input is at its end, with bytes still wanted: the original
returns 0, the hook takes that for a partial transfer and tries again. It never returns.
\<close>

theorem sendfile_eof_never_returns:
  assumes "hooked_fd S fd w" and "hw_get S up fd w = (FOk c, w1)" and "\<not> fc_userNonBlocked (hw_ctx c w1)"
    and "sends_nothing poll_f sf fd off count" and "0 < count" and "0 \<le> fd"
  shows "hook_sendfile S up os poll_f sf orig fd (Some off) count w = None"
proof -
  have nb: "\<not> bypass w1"
    using assms(1,2) by (auto simp: hooked_fd_def bypass_def isInterrupted_def hw_get_def split: prod.splits)
  have "sendfile_loop os poll_f sf fd ms None off count w1 = None" if "ms \<noteq> 0" for ms
    by (rule sendfile_eof_never_ends [OF assms(4,5) nb that assms(6)])
  then show ?thesis using assms(1-3) by (simp add: hook_sendfile_def)
qed

theorem sendfile_eof_never_returns_witness:
  "hook_sendfile hk_sys hk_up hk_os (\<lambda>fds tmo k. ((1, 0, fds), k)) (\<lambda>off cnt k. ((0, 0, off), k))
     (\<lambda>off cnt k. ((0, 0, 0), k)) 5 (Some 100) 10 (hw_at []) = None"
proof -
  obtain m where m: "hw_get hk_sys hk_up 5 (hw_at []) =
      (FOk 0, hw0\<lparr>hw_files := m, hw_kernel := hk0\<lparr>hk_ready := [], hk_flags := (hk_flags hk0)(5 := 2050)\<rparr>\<rparr>)"
    "fm_ctx m 0 = \<lparr>fc_fd = 5, fc_sysNonBlocked = True, fc_userNonBlocked = False, fc_recvTimeout = 3000,
       fc_sendTimeout = 0\<rparr>" using hw_at_get [of "[]"] by blast
  have n: "\<not> fc_userNonBlocked (hw_ctx 0 (hw0\<lparr>hw_files := m, hw_kernel := k\<rparr>))" for k
    by (simp add: hw_ctx_def m(2))
  show ?thesis
    by (rule sendfile_eof_never_returns [OF hw_at_simps(2) m(1) n]) (simp_all add: sends_nothing_def)
qed

text \<open>
  Claim C40. \<open>get(fd)\<close> indexes outside the vectors exactly when \<open>fd\<close> is not positive (descriptor 0 included),
a multiple of \<open>FD_CHUNK_CAPACITY\<close> (then \<open>index1\<close> is -1), or not below the capacity of the table.
After \<open>clear()\<close> that is so for every descriptor.
\<close>

theorem file_table_bounds:
  assumes "align_spec up" and "fcm_ok up m" and "lockFor fd \<notin> set (fm_locked m)"
  shows "(fst (EFileContextManager_get S up fd m k) = FFault \<longleftrightarrow>
       \<not> (0 < fd \<and> \<not> 32768 dvd fd \<and> fd < 32768 * int (length (fm_files m)))) \<and>
     fst (EFileContextManager_get S up fd (fst (EFileContextManager_clear S cur held m k)) k) = FFault"
proof
  show "fst (EFileContextManager_get S up fd m k) = FFault \<longleftrightarrow>
       \<not> (0 < fd \<and> \<not> 32768 dvd fd \<and> fd < 32768 * int (length (fm_files m)))"
    using get_faults [OF assms] unfolding fd_ok_def .
  let ?m = "fst (EFileContextManager_clear S cur held m k)"
  have f: "fm_files ?m = []" "fm_locked ?m = fm_locked m" by (simp_all add: EFileContextManager_clear_def)
  have n: "\<not> fd_ok ?m fd" by (simp add: fd_ok_def f)
  have "fcm_map up ?m x = None" for x
    using slot_eq [OF assms(1), of ?m x] by (auto simp: fcm_map_def f fd_ok_def)
  then have "fcm_ok up ?m" by (simp add: fcm_ok_def f)
  from get_faults [OF assms(1) this, of fd] assms(3) f(2) n
  show "fst (EFileContextManager_get S up fd ?m k) = FFault" by simp
qed

theorem file_table_bounds_witness:
  "fst (EFileContextManager_get hk_sys hk_up 0 hk_table hk0) = FFault \<and>
   fst (EFileContextManager_get hk_sys hk_up 32768 hk_table hk0) = FFault \<and>
   fst (EFileContextManager_get hk_sys hk_up 5 hk_table hk0) \<noteq> FFault"
proof -
  have l: "lockFor fd \<notin> set (fm_locked hk_table)" for fd by (simp add: hk_table_ok)
  note b = file_table_bounds [OF hk_align hk_table_ok(1) l, THEN conjunct1]
  show ?thesis unfolding b hk_table_ok(5) by simp
qed

end
